(* ===== verification/Prelude.thy ===== *)
theory Prelude
  imports Main "HOL-Library.Multiset" "HOL-Library.Word"
begin

text \<open>
  Shared ground of the development: the C standard library routines the sources use
  (bounded copies with \<^verbatim>\<open>snprintf\<close>, NUL-terminated reads, decimal printing with
  \<^verbatim>\<open>%d\<close>, \<^verbatim>\<open>strtol\<close> and \<^verbatim>\<open>atoi\<close>), and the list and string lemmas that carry the proofs of
  the components.

  A C string is modelled by the bytes before its terminator, so a value of type
  \<^typ>\<open>string\<close> used as a C string holds no NUL; \<open>cstr\<close> makes a C string of raw bytes by
  cutting them at the first NUL. A fixed buffer of capacity \<open>cap\<close> holds a string of
  length below \<open>cap\<close>. The signed 32-bit \<^verbatim>\<open>int\<close> of the sources is an \<^typ>\<open>int\<close> with the
  conversion from \<^verbatim>\<open>long\<close> written out by \<open>wrap32\<close>.
\<close>

named_theorems cstring_simps \<open>rewriting of bounded copies and NUL-terminated reads\<close>
named_theorems decimal_simps \<open>printing and reading of decimal numbers\<close>

section \<open>Characters and C strings\<close>

abbreviation NUL :: char where "NUL \<equiv> CHR 0x00"
abbreviation TAB :: char where "TAB \<equiv> CHR 0x09"
abbreviation NL :: char where "NL \<equiv> CHR 0x0A"
abbreviation CR :: char where "CR \<equiv> CHR 0x0D"
abbreviation SQ :: char where "SQ \<equiv> CHR 0x27"

definition cstr :: "char list \<Rightarrow> string" where
  "cstr bs = takeWhile (\<lambda>c. c \<noteq> NUL) bs"

definition snprintf_s :: "nat \<Rightarrow> string \<Rightarrow> string" where
  "snprintf_s cap s = take (cap - 1) s"

text \<open>Scanning up to a separator, the model of \<^verbatim>\<open>strchr\<close> and \<^verbatim>\<open>memchr\<close>.\<close>

lemma takeWhile_sep [simp]:
  "c \<notin> set l \<Longrightarrow> takeWhile (\<lambda>x. x \<noteq> c) (l @ c # r) = l"
  "c \<notin> set l \<Longrightarrow> takeWhile (\<lambda>x. x \<noteq> c) l = l"
  by (induction l) auto

lemma dropWhile_sep [simp]:
  "c \<notin> set l \<Longrightarrow> dropWhile (\<lambda>x. x \<noteq> c) (l @ c # r) = c # r"
  "c \<notin> set l \<Longrightarrow> dropWhile (\<lambda>x. x \<noteq> c) l = []"
  by (induction l) auto

lemma no_sep_prefix:
  assumes "a @ b = l @ c # r" "c \<notin> set a"
  shows "\<exists>l'. l = a @ l' \<and> b = l' @ c # r"
  using assms by (auto simp: append_eq_append_conv2 append_eq_Cons_conv Cons_eq_append_conv)

lemma split_at_sep:
  assumes "a @ b = l @ c # r" "c \<notin> set l" "c \<in> set a"
  shows "\<exists>r'. a = l @ c # r' \<and> r' @ b = r"
  using assms by (auto simp: append_eq_append_conv2 append_eq_Cons_conv Cons_eq_append_conv)

lemma cstr_id [simp]: "NUL \<notin> set s \<Longrightarrow> cstr s = s"
  by (auto simp: cstr_def takeWhile_eq_all_conv)

lemma cstr_no_nul [simp]: "NUL \<notin> set (cstr s)"
  unfolding cstr_def using set_takeWhileD by fastforce

lemma cstr_length: "length (cstr s) \<le> length s"
  by (simp add: cstr_def length_takeWhile_le)

lemma snprintf_s_fits [simp, cstring_simps]: "length s < cap \<Longrightarrow> snprintf_s cap s = s"
  by (simp add: snprintf_s_def)

lemma snprintf_s_length [simp]: "0 < cap \<Longrightarrow> length (snprintf_s cap s) < cap"
  by (auto simp: snprintf_s_def min_def)

lemma snprintf_s_set: "c \<in> set (snprintf_s cap s) \<Longrightarrow> c \<in> set s"
  by (auto simp: snprintf_s_def dest: in_set_takeD)

lemma snprintf_s_Nil [simp]: "snprintf_s cap [] = []"
  by (simp add: snprintf_s_def)

lemma snprintf_s_idem [simp]: "snprintf_s cap (snprintf_s cap s) = snprintf_s cap s"
  by (simp add: snprintf_s_def)

lemma snprintf_s_eq_Nil: "1 < cap \<Longrightarrow> snprintf_s cap s = [] \<longleftrightarrow> s = []"
  by (auto simp: snprintf_s_def)

section \<open>Decimal numbers\<close>

definition is_digit :: "char \<Rightarrow> bool" where
  "is_digit c \<longleftrightarrow> (48::nat) \<le> of_char c \<and> of_char c \<le> (57::nat)"

definition digit_val :: "char \<Rightarrow> nat" where
  "digit_val c = of_char c - 48"

definition digit_char :: "nat \<Rightarrow> char" where
  "digit_char d = char_of (48 + d)"

fun nat_str :: "nat \<Rightarrow> string" where
  "nat_str n = (if n < 10 then [digit_char n] else nat_str (n div 10) @ [digit_char (n mod 10)])"

declare nat_str.simps [simp del]

definition int_str :: "int \<Rightarrow> string" where
  "int_str i = (if i < 0 then CHR ''-'' # nat_str (nat (- i)) else nat_str (nat i))"

definition digits_val :: "string \<Rightarrow> nat" where
  "digits_val ds = foldl (\<lambda>acc c. acc * 10 + digit_val c) 0 ds"

definition is_space :: "char \<Rightarrow> bool" where
  "is_space c \<longleftrightarrow> (let n = of_char c :: nat in n = 32 \<or> (9 \<le> n \<and> n \<le> 13))"

definition clamp_long :: "int \<Rightarrow> int" where
  "clamp_long v = max (- (2 ^ 63)) (min (2 ^ 63 - 1) v)"

text \<open>\<^verbatim>\<open>strtol(s, &end, 10)\<close>: the value and the unread rest.\<close>

definition strtol :: "string \<Rightarrow> int \<times> string" where
  "strtol s =
     (let t = dropWhile is_space s;
          neg = (case t of c # _ \<Rightarrow> c = CHR ''-'' | [] \<Rightarrow> False);
          u = (case t of c # r \<Rightarrow> if c = CHR ''-'' \<or> c = CHR ''+'' then r else t | [] \<Rightarrow> t);
          ds = takeWhile is_digit u
      in if ds = [] then (0, s)
         else (clamp_long (if neg then - int (digits_val ds) else int (digits_val ds)),
               dropWhile is_digit u))"

definition wrap32 :: "int \<Rightarrow> int" where
  "wrap32 v = (v + 2 ^ 31) mod 2 ^ 32 - 2 ^ 31"

definition atoi :: "string \<Rightarrow> int" where
  "atoi s = wrap32 (fst (strtol s))"

abbreviation int32_ok :: "int \<Rightarrow> bool" where
  "int32_ok v \<equiv> - (2 ^ 31) \<le> v \<and> v < 2 ^ 31"

lemma digit_char_props:
  assumes "d < 10"
  shows "is_digit (digit_char d)" "digit_val (digit_char d) = d"
  using assms by (simp_all add: is_digit_def digit_val_def digit_char_def of_char_of)

lemma digit_char_inj: "d < 10 \<Longrightarrow> e < 10 \<Longrightarrow> digit_char d = digit_char e \<longleftrightarrow> d = e"
  using digit_char_props(2) by metis

lemma nat_str_induct [case_names small big]:
  assumes "\<And>n. n < 10 \<Longrightarrow> P n" and "\<And>n. 10 \<le> n \<Longrightarrow> P (n div 10) \<Longrightarrow> P n"
  shows "P (n::nat)"
  by (induction n rule: nat_str.induct) (metis assms not_le)

lemma nat_str_small: "n < 10 \<Longrightarrow> nat_str n = [digit_char n]"
  by (simp add: nat_str.simps)

lemma nat_str_big: "10 \<le> n \<Longrightarrow> nat_str n = nat_str (n div 10) @ [digit_char (n mod 10)]"
  by (simp add: nat_str.simps [of n])

lemma nat_str_digits [simp, decimal_simps]: "c \<in> set (nat_str n) \<Longrightarrow> is_digit c"
  by (induction n rule: nat_str_induct)
     (auto simp: nat_str_small nat_str_big digit_char_props)

lemma nat_str_all_digits: "list_all is_digit (nat_str n)"
  by (simp add: list_all_iff)

lemma nat_str_nonempty [simp, decimal_simps]: "nat_str n \<noteq> []"
  by (simp add: nat_str.simps)

lemma digits_val_snoc: "digits_val (xs @ [c]) = digits_val xs * 10 + digit_val c"
  by (simp add: digits_val_def)

lemma digits_val_nat_str [simp, decimal_simps]: "digits_val (nat_str n) = n"
proof (induction n rule: nat_str_induct)
  case (small n)
  then show ?case by (simp add: nat_str_small digits_val_def digit_char_props)
next
  case (big n)
  then have "digits_val (nat_str n) = n div 10 * 10 + n mod 10"
    by (simp add: nat_str_big digits_val_snoc digit_char_props)
  then show ?case by simp
qed

lemma nat_str_inj: "nat_str m = nat_str n \<longleftrightarrow> m = n"
  by (metis digits_val_nat_str)

lemma nat_str_length: "n < 10 ^ k \<Longrightarrow> 0 < k \<Longrightarrow> length (nat_str n) \<le> k"
proof (induction n arbitrary: k rule: nat_str_induct)
  case (small n)
  then show ?case by (simp add: nat_str_small)
next
  case (big n)
  obtain j where k: "k = Suc j" using big.prems(2) by (cases k) auto
  with big have j: "0 < j" by (cases j) auto
  from big.prems k have "n div 10 < 10 ^ j"
    by (simp add: less_mult_imp_div_less mult.commute)
  then have "length (nat_str (n div 10)) \<le> j" using j by (rule big.IH)
  then show ?case using big.hyps k by (simp add: nat_str_big)
qed

lemma digit_not_space: "is_digit c \<Longrightarrow> \<not> is_space c"
  by (auto simp: is_digit_def is_space_def Let_def)

lemma digit_not_sign: "is_digit c \<Longrightarrow> c \<noteq> CHR ''-'' \<and> c \<noteq> CHR ''+''"
  by (auto simp: is_digit_def)

lemma takeWhile_dropWhile_digits:
  assumes "list_all is_digit ds" and "rest = [] \<or> \<not> is_digit (hd rest)"
  shows "takeWhile is_digit (ds @ rest) = ds" "dropWhile is_digit (ds @ rest) = rest"
  using assms by (induction ds; cases rest; simp)+

text \<open>Reading back a printed number: any number in the range of \<^verbatim>\<open>long\<close>.\<close>

lemma strtol_int_str:
  assumes "- (2 ^ 63) \<le> i" "i < 2 ^ 63" and "rest = [] \<or> \<not> is_digit (hd rest)"
  shows "strtol (int_str i @ rest) = (i, rest)"
proof -
  define ds where "ds = nat_str (nat \<bar>i\<bar>)"
  have ds: "list_all is_digit ds" "ds \<noteq> []" "digits_val ds = nat \<bar>i\<bar>"
    by (simp_all add: ds_def nat_str_all_digits)
  obtain c r where cr: "ds = c # r" and c: "is_digit c"
    using ds(1,2) by (cases ds) auto
  have str: "int_str i = (if i < 0 then CHR ''-'' # ds else ds)"
    by (simp add: int_str_def ds_def)
  have clamp: "clamp_long i = i"
    using assms(1,2) by (simp add: clamp_long_def)
  have tw: "takeWhile is_digit (ds @ rest) = ds" "dropWhile is_digit (ds @ rest) = rest"
    using takeWhile_dropWhile_digits [OF ds(1) assms(3)] by auto
  show ?thesis
  proof (cases "i < 0")
    case True
    then have "strtol (CHR ''-'' # ds @ rest) = (i, rest)"
      using ds clamp tw by (simp add: strtol_def is_space_def Let_def)
    then show ?thesis using True by (simp add: str)
  next
    case False
    then have "strtol (ds @ rest) = (i, rest)"
      using ds clamp tw c cr digit_not_space [OF c] digit_not_sign [OF c]
      by (simp add: strtol_def Let_def)
    then show ?thesis using False by (simp add: str)
  qed
qed

lemma wrap32_id [simp, decimal_simps]: "int32_ok v \<Longrightarrow> wrap32 v = v"
  by (simp add: wrap32_def)

lemma wrap32_range: "int32_ok (wrap32 v)"
  by (simp add: wrap32_def)

lemma atoi_int_str:
  assumes "int32_ok i" "rest = [] \<or> \<not> is_digit (hd rest)"
  shows "atoi (int_str i @ rest) = i"
proof -
  have "strtol (int_str i @ rest) = (i, rest)"
    using assms by (intro strtol_int_str) auto
  then show ?thesis using assms(1) by (simp add: atoi_def)
qed

lemma atoi_int_str_self [simp, decimal_simps]: "int32_ok i \<Longrightarrow> atoi (int_str i) = i"
  using atoi_int_str [of i "[]"] by simp

lemma int_str_nonempty [simp, decimal_simps]: "int_str i \<noteq> []"
  by (simp add: int_str_def)

lemma int_str_chars: "c \<in> set (int_str i) \<Longrightarrow> is_digit c \<or> c = CHR ''-''"
  by (auto simp: int_str_def split: if_splits)

lemma int_str_length:
  assumes "int32_ok i" shows "length (int_str i) \<le> 11"
proof -
  have "nat \<bar>i\<bar> < 10 ^ 10" using assms by auto
  then have "length (nat_str (nat \<bar>i\<bar>)) \<le> 10" by (rule nat_str_length) simp
  then show ?thesis by (auto simp: int_str_def)
qed

lemma is_digit_eval [simp]: "\<not> is_digit TAB" "\<not> is_digit NL" "\<not> is_digit CR" "\<not> is_digit NUL"
  "\<not> is_digit SQ" "\<not> is_digit CHR '' ''" "\<not> is_digit CHR '',''" "\<not> is_digit CHR '')''"
  by (simp_all add: is_digit_def)

lemma int_str_clean [simp, decimal_simps]:
  "TAB \<notin> set (int_str i)" "NL \<notin> set (int_str i)" "CR \<notin> set (int_str i)"
  "NUL \<notin> set (int_str i)" "CHR '','' \<notin> set (int_str i)" "SQ \<notin> set (int_str i)"
  using int_str_chars by fastforce+

lemma dropWhile_shorter: "dropWhile P p = x # xs \<Longrightarrow> length xs < length p"
  using length_dropWhile_le [of P p] by simp

end
