(* ===== verification/Db_Rows.thy ===== *)
theory Db_Rows
  imports Prelude
begin

text \<open>
  The reader of select replies, \<^verbatim>\<open>src/src/libtetrisdb/socket/rows.c\<close>. A reply body is a
  C string; a pointer into it is modelled by the suffix it points at, a NULL pointer by
  \<^const>\<open>None\<close>. \<open>reply_body\<close> is the text SimpleDB prints for a select
  (\<^verbatim>\<open>Query.execute\<close>: a header line, a line of dashes, one tab-separated line per tuple, a
  blank line and the row count), with any number of lines before and after it. The lemmas
  show that the reader recovers exactly the printed rows and fields, and what it reports
  when a printed row is blank.
\<close>

section \<open>Lines\<close>

definition next_line :: "string \<Rightarrow> string option" where
  "next_line p = (case dropWhile (\<lambda>c. c \<noteq> NL) p of [] \<Rightarrow> None | _ # r \<Rightarrow> Some r)"

definition line_at :: "string \<Rightarrow> string" where
  "line_at p = takeWhile (\<lambda>c. c \<noteq> NL) p"

definition line_len :: "string \<Rightarrow> nat" where
  "line_len p = length (line_at p)"

definition is_rule :: "string \<Rightarrow> bool" where
  "is_rule p \<longleftrightarrow> line_len p \<noteq> 0 \<and> list_all (\<lambda>c. c = CHR ''-'') (line_at p)"

lemma next_line_shorter: "next_line p = Some r \<Longrightarrow> length r < length p"
proof -
  assume "next_line p = Some r"
  then obtain c where "dropWhile (\<lambda>c. c \<noteq> NL) p = c # r"
    by (auto simp: next_line_def split: list.splits)
  then show ?thesis
    using length_dropWhile_le [of "\<lambda>c. c \<noteq> NL" p] by simp
qed

section \<open>Finding and counting the rows\<close>

text \<open>The search of \<^verbatim>\<open>rows_begin\<close> for the line of dashes, from the pointer \<open>p\<close> on.\<close>

function find_rule :: "string option \<Rightarrow> string option" where
  "find_rule None = None"
| "find_rule (Some p) =
     (if p = [] then None else if is_rule p then next_line p else find_rule (next_line p))"
  by pat_completeness auto
termination
  by (relation "measure (\<lambda>q. case q of None \<Rightarrow> 0 | Some p \<Rightarrow> Suc (length p))")
     (auto split: option.splits dest: next_line_shorter)

definition rows_begin :: "string \<Rightarrow> string option" where
  "rows_begin body = find_rule (next_line body)"

text \<open>
  The loop of \<^verbatim>\<open>block_count\<close>: \<open>n\<close> lines were counted before \<open>p\<close>. The blank line ends the
  rows, and the trailer after it must state the number of lines counted.
\<close>

function block_count_from :: "nat \<Rightarrow> string option \<Rightarrow> int" where
  "block_count_from n None = - 1"
| "block_count_from n (Some p) =
     (if p = [] then - 1
      else if 0 < line_len p then block_count_from (Suc n) (next_line p)
      else (case next_line p of
              None \<Rightarrow> - 1
            | Some t0 \<Rightarrow>
                (let t = dropWhile (\<lambda>c. c = CHR '' '') t0;
                     digits = takeWhile is_digit t;
                     t' = dropWhile is_digit t
                 in if digits = [] \<or> take 6 t' \<noteq> '' rows.'' then - 1
                    else if digits_val digits = n then int n else - 1)))"
  by pat_completeness auto
termination
  by (relation "measure (\<lambda>(n, q). case q of None \<Rightarrow> 0 | Some p \<Rightarrow> Suc (length p))")
     (auto split: option.splits dest: next_line_shorter)

definition block_count :: "string \<Rightarrow> int" where
  "block_count rows = block_count_from 0 (Some rows)"

definition db_row_count :: "string \<Rightarrow> int" where
  "db_row_count body = (case rows_begin body of None \<Rightarrow> - 1 | Some rows \<Rightarrow> block_count rows)"

section \<open>Fields of one row\<close>

function split_tab :: "string \<Rightarrow> string list" where
  "split_tab l =
     (case dropWhile (\<lambda>c. c \<noteq> TAB) l of
        [] \<Rightarrow> [l]
      | _ # r \<Rightarrow> takeWhile (\<lambda>c. c \<noteq> TAB) l # split_tab r)"
  by pat_completeness auto
termination
proof (relation "measure length")
  fix l :: string and c r
  assume "dropWhile (\<lambda>c. c \<noteq> TAB) l = c # r"
  then show "(r, l) \<in> measure length"
    using length_dropWhile_le [of "\<lambda>c. c \<noteq> TAB" l] by simp
qed simp

declare split_tab.simps [simp del]

fun skip_lines :: "nat \<Rightarrow> string option \<Rightarrow> string option" where
  "skip_lines 0 q = q"
| "skip_lines (Suc i) None = None"
| "skip_lines (Suc i) (Some p) = skip_lines i (next_line p)"

text \<open>
  \<^verbatim>\<open>db_row_fields\<close>: the number of fields of the row and its first \<open>m\<close> fields, or
  \<^term>\<open>- 1 :: int\<close> with no field.
\<close>

definition db_row_fields :: "string \<Rightarrow> int \<Rightarrow> nat \<Rightarrow> int \<times> string list" where
  "db_row_fields body row m =
     (let count = db_row_count body
      in if count < 0 \<or> row < 0 \<or> row \<ge> count then (- 1, [])
         else case skip_lines (nat row) (rows_begin body) of
                None \<Rightarrow> (- 1, [])
              | Some p \<Rightarrow>
                  (let fs = split_tab (line_at p) in (int (length fs), take m fs)))"

definition db_next_id :: "string \<Rightarrow> int" where
  "db_next_id body =
     (let rows = db_row_count body
      in if rows < 0 then - 1
         else if rows = 0 then 1
         else case db_row_fields body 0 1 of
                (n, fs) \<Rightarrow>
                  (if n < 1 \<or> fs = [] \<or> hd fs = [] \<or> 32 \<le> length (hd fs) then - 1
                   else case strtol (hd fs) of
                          (v, rest) \<Rightarrow> if rest \<noteq> [] then - 1 else if v < 0 then 1 else v + 1))"

section \<open>The text of a reply\<close>

fun join_nl :: "string list \<Rightarrow> string" where
  "join_nl [] = []"
| "join_nl [l] = l"
| "join_nl (l # ls) = l @ NL # join_nl ls"

fun join_tab :: "string list \<Rightarrow> string" where
  "join_tab [] = []"
| "join_tab [f] = f"
| "join_tab (f # fs) = f @ TAB # join_tab fs"

definition trailer :: "nat \<Rightarrow> string" where
  "trailer n = CHR '' '' # nat_str n @ '' rows.''"

definition reply_body :: "string list \<Rightarrow> string \<Rightarrow> nat \<Rightarrow> string list \<Rightarrow> string list \<Rightarrow> string" where
  "reply_body pre hdr dashes rows post =
     join_nl (pre @ [hdr, replicate dashes CHR ''-''] @ rows @ [[], trailer (length rows)] @ post)"

abbreviation plain_line :: "string \<Rightarrow> bool" where
  "plain_line l \<equiv> NL \<notin> set l"

abbreviation plain_lines :: "string list \<Rightarrow> bool" where
  "plain_lines ls \<equiv> list_all plain_line ls"

section \<open>Lemmas on lines\<close>

lemma join_nl_Cons: "ls \<noteq> [] \<Longrightarrow> join_nl (l # ls) = l @ NL # join_nl ls"
  by (cases ls) auto

lemma line_at_append [simp]: "plain_line l \<Longrightarrow> line_at (l @ NL # r) = l"
  by (simp add: line_at_def)

lemma line_at_plain [simp]: "plain_line l \<Longrightarrow> line_at l = l"
  by (simp add: line_at_def)

lemma next_line_append [simp]: "plain_line l \<Longrightarrow> next_line (l @ NL # r) = Some r"
  by (simp add: next_line_def)

lemma next_line_plain [simp]: "plain_line l \<Longrightarrow> next_line l = None"
  by (simp add: next_line_def)

lemma line_at_join: "plain_line l \<Longrightarrow> line_at (join_nl (l # ls)) = l"
  by (cases ls) simp_all

lemma next_line_join:
  "plain_line l \<Longrightarrow> next_line (join_nl (l # ls)) = (if ls = [] then None else Some (join_nl ls))"
  by (cases ls) simp_all

lemma is_rule_join: "plain_line l \<Longrightarrow> is_rule (join_nl (l # ls)) = is_rule l"
  by (simp add: is_rule_def line_len_def line_at_join del: join_nl.simps)

lemma is_rule_dashes: "0 < n \<Longrightarrow> is_rule (replicate n CHR ''-'')"
  by (simp add: is_rule_def line_len_def list_all_iff)

lemma plain_dashes: "plain_line (replicate n CHR ''-'')"
  by simp

text \<open>The search passes every line that is not all dashes and stops after the first that is.\<close>

lemma find_rule_lines:
  assumes "plain_lines ls" "\<forall>l \<in> set ls. \<not> is_rule l" "plain_line r" "is_rule r" "rest \<noteq> []"
  shows "find_rule (Some (join_nl (ls @ r # rest))) = Some (join_nl rest)"
  using assms(1,2)
proof (induction ls)
  case Nil
  have ne: "join_nl (r # rest) \<noteq> []"
    using assms(4,5) by (cases rest) (auto simp: is_rule_def line_len_def line_at_def)
  then show ?case
    using assms(3-5) by (simp add: is_rule_join next_line_join del: join_nl.simps)
next
  case (Cons l ls)
  have ne: "ls @ r # rest \<noteq> []" by simp
  then have "join_nl (l # ls @ r # rest) \<noteq> []" by (subst join_nl_Cons) auto
  with Cons ne show ?case
    by (simp add: is_rule_join next_line_join del: join_nl.simps)
qed

lemma rows_begin_reply:
  assumes "plain_lines pre" "plain_line hdr" "\<forall>l \<in> set pre. \<not> is_rule l" "\<not> is_rule hdr" "0 < d"
    and "rest \<noteq> []"
  shows "rows_begin (join_nl (pre @ hdr # replicate d CHR ''-'' # rest)) = Some (join_nl rest)"
proof (cases pre)
  case Nil
  then show ?thesis
    using assms find_rule_lines [of "[]" "replicate d CHR ''-''" rest] is_rule_dashes [of d]
    by (simp add: rows_begin_def next_line_join del: join_nl.simps)
next
  case (Cons l ls)
  have "find_rule (Some (join_nl ((ls @ [hdr]) @ replicate d CHR ''-'' # rest))) = Some (join_nl rest)"
    using assms Cons is_rule_dashes by (intro find_rule_lines) auto
  then show ?thesis
    using assms Cons by (simp add: rows_begin_def next_line_join del: join_nl.simps)
qed

lemma plain_trailer [simp]: "plain_line (trailer n)"
  using nat_str_digits [of NL n] by (auto simp: trailer_def)

lemma trailer_scan:
  assumes "r = [] \<or> (\<exists>r'. r = NL # r')"
  shows "block_count_from n (Some (NL # trailer m @ r)) = (if m = n then int n else - 1)"
proof -
  have dr: "dropWhile (\<lambda>c. c = CHR '' '') (trailer m @ r) = nat_str m @ '' rows.'' @ r"
  proof -
    obtain c cs where c: "nat_str m = c # cs" by (cases "nat_str m") auto
    then have "is_digit c" using nat_str_digits [of c m] by simp
    with c show ?thesis by (auto simp: trailer_def is_digit_def)
  qed
  have tw: "takeWhile is_digit (nat_str m @ '' rows.'' @ r) = nat_str m"
    "dropWhile is_digit (nat_str m @ '' rows.'' @ r) = '' rows.'' @ r"
    using takeWhile_dropWhile_digits [OF nat_str_all_digits, of "'' rows.'' @ r" m] by auto
  have nl: "next_line (NL # trailer m @ r) = Some (trailer m @ r)"
    by (simp add: next_line_def)
  show ?thesis
    by (simp add: nl dr tw line_len_def line_at_def)
qed

lemma block_count_rows:
  assumes "plain_lines rows" "[] \<notin> set rows"
  shows "block_count_from n (Some (join_nl (rows @ [[], trailer m] @ post))) =
         (if m = n + length rows then int m else - 1)"
  using assms
proof (induction rows arbitrary: n)
  case Nil
  have "join_nl ([] # trailer m # post) = NL # trailer m @ (if post = [] then [] else NL # join_nl post)"
    by (cases post) auto
  then show ?case using trailer_scan [of "if post = [] then [] else NL # join_nl post" n m] by auto
next
  case (Cons l rows)
  have ne: "rows @ [[], trailer m] @ post \<noteq> []" by simp
  have "join_nl (l # rows @ [[], trailer m] @ post) \<noteq> []" using ne by (subst join_nl_Cons) auto
  moreover have "0 < line_len (join_nl (l # rows @ [[], trailer m] @ post))"
    using Cons.prems by (auto simp: line_len_def line_at_join simp del: join_nl.simps)
  ultimately show ?case
    using Cons ne by (simp add: next_line_join del: join_nl.simps)
qed

section \<open>What the reader returns\<close>

abbreviation chatter_ok :: "string list \<Rightarrow> bool" where
  "chatter_ok ls \<equiv> plain_lines ls \<and> (\<forall>l \<in> set ls. \<not> is_rule l)"

lemma rows_begin_reply_body:
  assumes "chatter_ok pre" "plain_line hdr" "\<not> is_rule hdr" "0 < d"
  shows "rows_begin (reply_body pre hdr d rows post) =
         Some (join_nl (rows @ [[], trailer (length rows)] @ post))"
  unfolding reply_body_def
  using rows_begin_reply [of pre hdr d "rows @ [[], trailer (length rows)] @ post"] assms by simp

lemma db_row_count_reply:
  assumes "chatter_ok pre" "plain_line hdr" "\<not> is_rule hdr" "0 < d"
    and "plain_lines rows" "[] \<notin> set rows"
  shows "db_row_count (reply_body pre hdr d rows post) = int (length rows)"
  using assms block_count_rows [of rows 0 "length rows" post]
  by (simp add: db_row_count_def rows_begin_reply_body block_count_def del: join_nl.simps)

lemma skip_lines_join:
  assumes "plain_lines ls" "i < length ls"
  shows "skip_lines i (Some (join_nl (ls @ rest))) = Some (join_nl (drop i ls @ rest))"
  using assms
proof (induction i arbitrary: ls)
  case 0
  then show ?case by simp
next
  case (Suc i)
  then obtain l ls' where ls: "ls = l # ls'" by (cases ls) auto
  with Suc.prems have "ls' \<noteq> []" by auto
  with ls Suc show ?case by (simp add: next_line_join del: join_nl.simps)
qed

lemma set_join_tab: "c \<in> set (join_tab fs) \<Longrightarrow> c = TAB \<or> (\<exists>f \<in> set fs. c \<in> set f)"
  by (induction fs rule: join_tab.induct) auto

lemma split_tab_plain: "TAB \<notin> set f \<Longrightarrow> split_tab f = [f]"
  by (subst split_tab.simps) simp

lemma split_tab_append: "TAB \<notin> set f \<Longrightarrow> split_tab (f @ TAB # r) = f # split_tab r"
  by (subst split_tab.simps) simp

lemma split_join_tab:
  "fs \<noteq> [] \<Longrightarrow> \<forall>f \<in> set fs. TAB \<notin> set f \<Longrightarrow> split_tab (join_tab fs) = fs"
  by (induction fs rule: join_tab.induct) (simp_all add: split_tab_plain split_tab_append)

lemma db_row_fields_reply:
  assumes "chatter_ok pre" "plain_line hdr" "\<not> is_rule hdr" "0 < d"
    and "plain_lines rows" "[] \<notin> set rows" "i < length rows"
  shows "db_row_fields (reply_body pre hdr d rows post) (int i) m =
         (int (length (split_tab (rows ! i))), take m (split_tab (rows ! i)))"
proof -
  let ?ls = "rows @ [[], trailer (length rows)] @ post"
  have cnt: "db_row_count (reply_body pre hdr d rows post) = int (length rows)"
    using assms by (intro db_row_count_reply) auto
  have rb: "rows_begin (reply_body pre hdr d rows post) = Some (join_nl ?ls)"
    using assms by (intro rows_begin_reply_body) auto
  have dr: "drop i rows = rows ! i # drop (Suc i) rows"
    using assms(7) by (simp add: Cons_nth_drop_Suc)
  have sk: "skip_lines i (Some (join_nl ?ls)) =
      Some (join_nl (drop i rows @ [[], trailer (length rows)] @ post))"
    using assms(5,7) by (rule skip_lines_join)
  have la: "line_at (join_nl (drop i rows @ [[], trailer (length rows)] @ post)) = rows ! i"
    using assms(5,7) by (simp add: dr line_at_join list_all_length del: join_nl.simps)
  show ?thesis
    using assms(7) sk la by (simp add: db_row_fields_def cnt rb Let_def del: join_nl.simps)
qed

text \<open>
  A printed row that is blank ends the table for the reader: the line after it is not the
  trailer, so the reply counts as malformed although the server answered correctly.
\<close>

lemma db_row_count_blank_row:
  assumes "chatter_ok pre" "plain_line hdr" "\<not> is_rule hdr" "0 < d"
    and "plain_lines rows" "[] \<notin> set rows"
  shows "db_row_count (reply_body pre hdr d (rows @ [[]]) post) = - 1"
proof -
  have "block_count_from n (Some (join_nl (rows @ [[], [], t] @ post))) = - 1" for n t
    using assms(5,6)
  proof (induction rows arbitrary: n)
    case Nil
    have "join_nl ([] # [] # t # post) = NL # NL # (if post = [] then t else t @ NL # join_nl post)"
      by (cases post) auto
    then show ?case by (simp add: line_len_def line_at_def next_line_def)
  next
    case (Cons l rows)
    have "join_nl (l # rows @ [[], [], t] @ post) \<noteq> []" by (subst join_nl_Cons) auto
    moreover have "0 < line_len (join_nl (l # rows @ [[], [], t] @ post))"
      using Cons.prems by (auto simp: line_len_def line_at_join simp del: join_nl.simps)
    ultimately show ?case
      using Cons by (simp add: next_line_join del: join_nl.simps)
  qed
  from this [of 0 "trailer (Suc (length rows))"] show ?thesis
    using assms
    by (simp add: db_row_count_def rows_begin_reply_body block_count_def del: join_nl.simps)
qed

section \<open>Properties\<close>

text \<open>
  A result that SimpleDB prints is read back field by field: whatever text stands before
  and after the table, the client counts the rows that were printed, and row \<open>i\<close> has the fields
  that were printed, empty ones included.
\<close>

theorem printed_rows_roundtrip:
  assumes "chatter_ok pre" "plain_line hdr" "\<not> is_rule hdr" "0 < d"
    and "\<forall>fs \<in> set rows. fs \<noteq> [] \<and> fs \<noteq> [[]] \<and> (\<forall>f \<in> set fs. TAB \<notin> set f \<and> NL \<notin> set f)"
  shows "db_row_count (reply_body pre hdr d (map join_tab rows) post) = int (length rows) \<and>
    (\<forall>i < length rows. db_row_fields (reply_body pre hdr d (map join_tab rows) post) (int i) m =
       (int (length (rows ! i)), take m (rows ! i)))"
proof -
  have ok: "plain_line (join_tab fs)" "join_tab fs \<noteq> []" "split_tab (join_tab fs) = fs" if "fs \<in> set rows" for fs
  proof -
    have fs: "fs \<noteq> []" "fs \<noteq> [[]]" "\<forall>f \<in> set fs. TAB \<notin> set f" "\<forall>f \<in> set fs. NL \<notin> set f"
      using assms(5) that by blast+
    show sp: "split_tab (join_tab fs) = fs" by (rule split_join_tab [OF fs(1,3)])
    show "join_tab fs \<noteq> []"
    proof
      assume "join_tab fs = []"
      with sp fs(2) show False by (simp add: split_tab_plain)
    qed
    show "plain_line (join_tab fs)" using set_join_tab [of NL fs] fs(4) by auto
  qed
  have "plain_lines (map join_tab rows)" unfolding list_all_iff using ok(1) by auto
  moreover have "[] \<notin> set (map join_tab rows)" using ok(2) by (auto simp: eq_commute [of "[]"])
  ultimately have rd: "db_row_count (reply_body pre hdr d (map join_tab rows) post) = int (length rows)"
    "i < length rows \<Longrightarrow> db_row_fields (reply_body pre hdr d (map join_tab rows) post) (int i) m =
       (int (length (split_tab (join_tab (rows ! i)))), take m (split_tab (join_tab (rows ! i))))" for i
    using db_row_count_reply [OF assms(1-4)] db_row_fields_reply [OF assms(1-4)] by simp_all
  show ?thesis using rd ok(3) [OF nth_mem] by simp
qed

theorem printed_rows_roundtrip_witness:
  "db_row_count (reply_body [''Started''] ''hash'' 8 (map join_tab [[''ab'', []], [[], ''7'']]) [''done'']) = 2 \<and>
   db_row_fields (reply_body [''Started''] ''hash'' 8 (map join_tab [[''ab'', []], [[], ''7'']]) [''done'']) 1 2 = (2, [[], ''7''])"
  using printed_rows_roundtrip [of "[''Started'']" "''hash''" 8 "[[''ab'', []], [[], ''7'']]" "[''done'']" 2]
  by (auto simp: is_rule_def line_len_def line_at_def dest: spec [of _ 1])

text \<open>
  A stored value that prints as a blank line hides the whole result: one such row at the
  end of a select of one text column makes the client report a malformed reply instead of the
  rows that were printed.
\<close>

theorem blank_row_hides_result:
  assumes "chatter_ok pre" "plain_line hdr" "\<not> is_rule hdr" "0 < d"
    and "plain_lines rows" "[] \<notin> set rows"
  shows "db_row_count (reply_body pre hdr d (rows @ [join_tab [[]]]) post) = - 1"
  using db_row_count_blank_row [OF assms] by simp

theorem blank_row_hides_result_witness:
  "db_row_count (reply_body [] ''nonce'' 9 ([''n1''] @ [join_tab [[]]]) []) = - 1"
  using blank_row_hides_result [of "[]" "''nonce''" 9 "[''n1'']" "[]"]
  by (simp add: is_rule_def line_len_def line_at_def)

end
