(* ===== verification/Db_Wire.thy ===== *)
theory Db_Wire
  imports Db_Rows
begin

text \<open>
  The byte stream to the database, \<^verbatim>\<open>src/src/libtetrisdb/wire.c\<close>, and the SQL literal writer
  \<^verbatim>\<open>db_quote\<close> of \<^verbatim>\<open>src/src/libtetrisdb/schema.c\<close>. What \<^verbatim>\<open>poll\<close> and \<^verbatim>\<open>read\<close> deliver is a list
  of events: a chunk of bytes, an interrupted or empty read, end of file, a failing call or
  the deadline. An exhausted list is a peer that stays silent until the deadline. The lemmas
  show that the reply handed to the caller depends on the bytes only and not on how the
  socket cut them, and that a quoted value is always one closed SQL literal.
\<close>

section \<open>Lines from the stream\<close>

datatype rd_event = Data string | Again | Eof | Broken | Late

datatype wire_line = WLine string | WEof | WIo | WLate

text \<open>The inner loop: copy buffered bytes up to a newline, dropping what \<open>cap\<close> has no room for.\<close>

fun wire_take :: "nat \<Rightarrow> string \<Rightarrow> string \<Rightarrow> string \<times> string option" where
  "wire_take cap out [] = (out, None)"
| "wire_take cap out (c # buf) =
     (if c = NL then (out, Some buf)
      else wire_take cap (if length out + 1 < cap then out @ [c] else out) buf)"

fun wire_line_from :: "nat \<Rightarrow> string \<Rightarrow> string \<Rightarrow> rd_event list \<Rightarrow> wire_line \<times> string \<times> rd_event list" where
  "wire_line_from cap out buf evs =
     (case wire_take cap out buf of
        (out', Some rest) \<Rightarrow> (WLine out', rest, evs)
      | (out', None) \<Rightarrow>
          (case evs of
             [] \<Rightarrow> (WLate, [], [])
           | Late # es \<Rightarrow> (WLate, [], es)
           | Broken # es \<Rightarrow> (WIo, [], es)
           | Eof # es \<Rightarrow> (WEof, [], es)
           | Again # es \<Rightarrow> wire_line_from cap out' [] es
           | Data bs # es \<Rightarrow> if bs = [] then (WEof, [], es) else wire_line_from cap out' bs es))"

declare wire_line_from.simps [simp del]

definition db_wire_line :: "nat \<Rightarrow> string \<Rightarrow> rd_event list \<Rightarrow> wire_line \<times> string \<times> rd_event list" where
  "db_wire_line cap buf evs = wire_line_from cap [] buf evs"

text \<open>
  The writing loop: every \<^verbatim>\<open>write\<close> takes some bytes, is interrupted, finds the socket full
  (then the readiness wait answers) or fails. The result is the status and the bytes sent.
\<close>

datatype wr_event = Took nat | WIntr | WFull | WFullLate | WFullIo | WBroken

fun db_wire_write :: "string \<Rightarrow> wr_event list \<Rightarrow> wire_line option \<times> string" where
  "db_wire_write [] evs = (None, [])"
| "db_wire_write data [] = (Some WLate, [])"
| "db_wire_write data (WIntr # evs) = db_wire_write data evs"
| "db_wire_write data (WFull # evs) = db_wire_write data evs"
| "db_wire_write data (WFullLate # evs) = (Some WLate, [])"
| "db_wire_write data (WFullIo # evs) = (Some WIo, [])"
| "db_wire_write data (WBroken # evs) = (Some WIo, [])"
| "db_wire_write data (Took n # evs) =
     (case db_wire_write (drop n data) evs of (r, sent) \<Rightarrow> (r, take n data @ sent))"

section \<open>Responses\<close>

datatype db_status = DB_OK | DB_RETRY | DB_ERROR | DB_TIMEOUT | DB_IO

definition DB_MARK_END :: string where "DB_MARK_END = ''<<END ''"
definition DB_MARK_OK :: string where "DB_MARK_OK = ''<<END ok>>''"
definition DB_MARK_RETRY :: string where "DB_MARK_RETRY = ''<<END retry>>''"
definition DB_BODY_MAX :: nat where "DB_BODY_MAX = 1024"

definition classify :: "string \<Rightarrow> db_status" where
  "classify line =
     (if line = DB_MARK_OK then DB_OK else if line = DB_MARK_RETRY then DB_RETRY else DB_ERROR)"

definition body_add :: "nat \<Rightarrow> string \<Rightarrow> string \<Rightarrow> string" where
  "body_add cap body line =
     (if length body + 1 < cap
      then body @ take (cap - length body - 1) ((if 0 < length body then [NL] else []) @ line)
      else body)"

fun ev_size :: "rd_event \<Rightarrow> nat" where
  "ev_size (Data bs) = Suc (length bs)"
| "ev_size _ = 1"

lemma wire_take_shorter: "wire_take cap out buf = (out', Some rest) \<Longrightarrow> length rest < length buf"
  by (induction cap out buf rule: wire_take.induct) (auto split: if_splits)

lemma wire_line_shorter:
  "wire_line_from cap out buf evs = (WLine l, buf', evs') \<Longrightarrow>
   length buf' + sum_list (map ev_size evs') < length buf + sum_list (map ev_size evs)"
proof (induction evs arbitrary: out buf)
  case Nil
  then show ?case
    by (auto simp: wire_line_from.simps [of _ _ _ "[]"] split: prod.splits option.splits
        dest: wire_take_shorter)
next
  case (Cons e es)
  note step = wire_line_from.simps [of cap out buf "e # es"]
  show ?case
  proof (cases "wire_take cap out buf")
    case (Pair out' r)
    show ?thesis
    proof (cases r)
      case None
      then show ?thesis
        using Cons.prems Cons.IH Pair step by (cases e) (fastforce split: if_splits)+
    next
      case (Some rest)
      then show ?thesis
        using Cons.prems Pair step by (auto dest: wire_take_shorter)
    qed
  qed
qed

text \<open>
  \<^verbatim>\<open>db_wire_response\<close>. A line is read as a C string, so a NUL byte ends it. A NULL body is
  \<open>cap = 0\<close>, with which nothing is stored.
\<close>

function wire_response_from ::
    "nat \<Rightarrow> string \<Rightarrow> string \<Rightarrow> rd_event list \<Rightarrow> db_status \<times> string \<times> string \<times> rd_event list" where
  "wire_response_from cap body buf evs =
     (case db_wire_line DB_BODY_MAX buf evs of
        (WLate, buf', evs') \<Rightarrow> (DB_TIMEOUT, body, buf', evs')
      | (WEof, buf', evs') \<Rightarrow> (DB_IO, body, buf', evs')
      | (WIo, buf', evs') \<Rightarrow> (DB_IO, body, buf', evs')
      | (WLine l, buf', evs') \<Rightarrow>
          (let line = cstr l
           in if take 6 line = DB_MARK_END then (classify line, body, buf', evs')
              else wire_response_from cap (body_add cap body line) buf' evs'))"
  by pat_completeness auto
termination
  by (relation "measure (\<lambda>(cap, body, buf, evs). length buf + sum_list (map ev_size evs))")
     (auto simp: db_wire_line_def dest: wire_line_shorter [OF sym])

declare wire_response_from.simps [simp del]

definition db_wire_response ::
    "nat \<Rightarrow> string \<Rightarrow> rd_event list \<Rightarrow> db_status \<times> string \<times> string \<times> rd_event list" where
  "db_wire_response cap buf evs = wire_response_from cap [] buf evs"

section \<open>SQL literals\<close>

fun quote_loop :: "nat \<Rightarrow> nat \<Rightarrow> string \<Rightarrow> string" where
  "quote_loop cap w [] = []"
| "quote_loop cap w (c # src) =
     (if w + (if c = SQ then 2 else 1) + 2 \<le> cap
      then (if c = SQ then [SQ, SQ] @ quote_loop cap (w + 2) src
            else c # quote_loop cap (w + 1) src)
      else [])"

definition db_quote :: "nat \<Rightarrow> string \<Rightarrow> string" where
  "db_quote cap src = (if cap < 3 then [] else SQ # quote_loop cap 1 src @ [SQ])"

section \<open>Lemmas on the stream\<close>

fun bytes :: "rd_event list \<Rightarrow> string" where
  "bytes [] = []"
| "bytes (Data bs # es) = bs @ bytes es"
| "bytes (_ # es) = bytes es"

fun live :: "rd_event list \<Rightarrow> bool" where
  "live [] \<longleftrightarrow> True"
| "live (Data bs # es) \<longleftrightarrow> bs \<noteq> [] \<and> live es"
| "live (Again # es) \<longleftrightarrow> live es"
| "live (_ # es) \<longleftrightarrow> False"

lemma take_snoc_room:
  "length out + 1 < cap \<Longrightarrow>
   take (cap - Suc (length out)) (c # l) = c # take (cap - Suc (Suc (length out))) l"
  by (simp add: take_Cons')

lemma wire_take_all:
  "NL \<notin> set s \<Longrightarrow> wire_take cap out s = (out @ take (cap - 1 - length out) s, None)"
  by (induction cap out s rule: wire_take.induct) (auto simp: take_snoc_room)

lemma wire_take_line:
  "NL \<notin> set l \<Longrightarrow>
   wire_take cap out (l @ NL # r) = (out @ take (cap - 1 - length out) l, Some r)"
  by (induction l arbitrary: out) (auto simp: take_snoc_room)

lemma take_room_append:
  "(out @ take (cap - Suc (length out)) a) @
     take (cap - Suc (length (out @ take (cap - Suc (length out)) a))) b =
   out @ take (cap - Suc (length out)) (a @ b)"
  by (simp add: min_def)

text \<open>One line: only the bytes count, not the chunks or the interruptions.\<close>

lemma wire_line_bytes:
  assumes "live es" "NL \<notin> set l" "buf @ bytes es = l @ NL # rest"
  shows "\<exists>buf' es'. wire_line_from cap out buf (es @ tail) =
           (WLine (out @ take (cap - 1 - length out) l), buf', es' @ tail) \<and>
           live es' \<and> buf' @ bytes es' = rest"
  using assms
proof (induction es arbitrary: out buf l rule: live.induct)
  case 1
  then have "buf = l @ NL # rest" by simp
  with 1 show ?case
    by (intro exI [of _ rest] exI [of _ "[]"])
       (simp add: wire_line_from.simps [of _ _ _ tail] wire_take_line)
next
  case (2 bs es)
  show ?case
  proof (cases "NL \<in> set buf")
    case True
    then obtain r where "buf = l @ NL # r" "r @ bs @ bytes es = rest"
      using "2.prems"(2,3) split_at_sep [of buf "bs @ bytes es" l NL rest] by auto
    with 2 show ?thesis
      by (intro exI [of _ r] exI [of _ "Data bs # es"])
         (simp add: wire_line_from.simps [of _ _ _ "Data bs # es @ tail"] wire_take_line)
  next
    case False
    then obtain l' where l: "l = buf @ l'" "bs @ bytes es = l' @ NL # rest"
      using "2.prems"(2,3) no_sep_prefix [of buf "bs @ bytes es" l NL rest] by auto
    let ?out = "out @ take (cap - 1 - length out) buf"
    from l "2.prems" "2.IH" [of l' bs ?out] obtain buf' es' where
      "wire_line_from cap ?out bs (es @ tail) =
         (WLine (?out @ take (cap - 1 - length ?out) l'), buf', es' @ tail)"
      "live es'" "buf' @ bytes es' = rest" by auto
    with False l "2.prems" show ?thesis
      by (intro exI [of _ buf'] exI [of _ es'])
         (simp add: wire_line_from.simps [of _ _ buf "Data bs # es @ tail"] wire_take_all
           take_room_append [simplified])
  qed
next
  case (3 es)
  show ?case
  proof (cases "NL \<in> set buf")
    case True
    then obtain r where "buf = l @ NL # r" "r @ bytes es = rest"
      using "3.prems"(2,3) split_at_sep [of buf "bytes es" l NL rest] by auto
    with 3 show ?thesis
      by (intro exI [of _ r] exI [of _ "Again # es"])
         (simp add: wire_line_from.simps [of _ _ _ "Again # es @ tail"] wire_take_line)
  next
    case False
    then obtain l' where l: "l = buf @ l'" "bytes es = l' @ NL # rest"
      using "3.prems"(2,3) no_sep_prefix [of buf "bytes es" l NL rest] by auto
    let ?out = "out @ take (cap - 1 - length out) buf"
    from l "3.prems" "3.IH" [of l' "[]" ?out] obtain buf' es' where
      "wire_line_from cap ?out [] (es @ tail) =
         (WLine (?out @ take (cap - 1 - length ?out) l'), buf', es' @ tail)"
      "live es'" "buf' @ bytes es' = rest" by auto
    with False l "3.prems" show ?thesis
      by (intro exI [of _ buf'] exI [of _ es'])
         (simp add: wire_line_from.simps [of _ _ buf "Again # es @ tail"] wire_take_all
           take_room_append [simplified])
  qed
qed auto

text \<open>A whole response. Leading empty lines leave no trace in the body.\<close>

definition join_body :: "string list \<Rightarrow> string" where
  "join_body ls = foldl (\<lambda>b l. if b = [] then l else b @ NL # l) [] ls"

lemma join_body_foldl:
  "b \<noteq> [] \<Longrightarrow> ls \<noteq> [] \<Longrightarrow>
   foldl (\<lambda>b l. if b = [] then l else b @ NL # l) b ls = b @ NL # join_nl ls"
proof (induction ls arbitrary: b)
  case (Cons l ls)
  then show ?case
    using Cons.IH [of "b @ NL # l"] by (cases "ls = []") (simp_all add: join_nl_Cons)
qed simp

lemma join_body_eq: "join_body ls = join_nl (dropWhile (\<lambda>l. l = []) ls)"
proof (induction ls)
  case (Cons l ls)
  then show ?case
    using join_body_foldl [of l ls]
    by (cases "l = []"; cases "ls = []") (simp_all add: join_body_def join_nl_Cons)
qed (simp add: join_body_def)

lemma body_add_take:
  "0 < cap \<Longrightarrow>
   body_add cap (take (cap - 1) b) l = take (cap - 1) (if b = [] then l else b @ NL # l)"
  by (auto simp: body_add_def min_def not_less Suc_le_eq take_Cons')

lemma foldl_body_add:
  "0 < cap \<Longrightarrow> foldl (body_add cap) (take (cap - 1) b) ls =
   take (cap - 1) (foldl (\<lambda>b l. if b = [] then l else b @ NL # l) b ls)"
  by (induction ls arbitrary: b) (simp_all add: body_add_take [simplified])

abbreviation wire_text :: "string \<Rightarrow> bool" where
  "wire_text l \<equiv> NL \<notin> set l \<and> NUL \<notin> set l \<and> length l < DB_BODY_MAX"

abbreviation lines_bytes :: "string list \<Rightarrow> string" where
  "lines_bytes ls \<equiv> concat (map (\<lambda>l. l @ [NL]) ls)"

lemma wire_response_from_bytes:
  assumes "live es" "\<forall>l \<in> set ls. wire_text l \<and> take 6 l \<noteq> DB_MARK_END"
    and "wire_text m" "take 6 m = DB_MARK_END"
    and "buf @ bytes es = lines_bytes (ls @ [m]) @ rest"
  shows "\<exists>buf' es'. wire_response_from cap body buf (es @ tail) =
           (classify m, foldl (body_add cap) body ls, buf', es' @ tail) \<and>
           live es' \<and> buf' @ bytes es' = rest"
  using assms(1,2,5)
proof (induction ls arbitrary: es buf body)
  case Nil
  from Nil wire_line_bytes [of es m buf rest DB_BODY_MAX "[]" tail] assms(3) obtain buf' es' where
    "wire_line_from DB_BODY_MAX [] buf (es @ tail) = (WLine m, buf', es' @ tail)"
    "live es'" "buf' @ bytes es' = rest" by auto
  then show ?case
    using assms(3,4)
    by (simp add: wire_response_from.simps [of _ _ buf] db_wire_line_def)
next
  case (Cons l ls)
  from Cons.prems wire_line_bytes [of es l buf "lines_bytes (ls @ [m]) @ rest" DB_BODY_MAX "[]" tail]
  obtain buf' es' where
    *: "wire_line_from DB_BODY_MAX [] buf (es @ tail) = (WLine l, buf', es' @ tail)"
    "live es'" "buf' @ bytes es' = lines_bytes (ls @ [m]) @ rest" by auto
  from Cons.IH [OF *(2) _ *(3), of "body_add cap body l"] Cons.prems * show ?case
    by (simp add: wire_response_from.simps [of _ _ buf] db_wire_line_def)
qed

lemma wire_response_bytes:
  assumes "live es" "\<forall>l \<in> set ls. wire_text l \<and> take 6 l \<noteq> DB_MARK_END"
    and "wire_text m" "take 6 m = DB_MARK_END" "0 < cap"
    and "buf @ bytes es = lines_bytes (ls @ [m]) @ rest"
  shows "\<exists>buf' es'. db_wire_response cap buf (es @ tail) =
           (classify m, take (cap - 1) (join_nl (dropWhile (\<lambda>l. l = []) ls)), buf', es' @ tail) \<and>
           live es' \<and> buf' @ bytes es' = rest"
  using wire_response_from_bytes [OF assms(1-4,6), of cap "[]" tail] assms(5)
    foldl_body_add [of cap "[]" ls]
  by (simp add: db_wire_response_def join_body_eq [symmetric] join_body_def)

text \<open>A stream that stops inside a response, anywhere before its marker line is complete.\<close>

fun stops :: "rd_event list \<Rightarrow> bool" where
  "stops [] \<longleftrightarrow> True"
| "stops (Eof # _) \<longleftrightarrow> True"
| "stops (Broken # _) \<longleftrightarrow> True"
| "stops (Late # _) \<longleftrightarrow> True"
| "stops _ \<longleftrightarrow> False"

lemma wire_line_cut:
  assumes "live es" "stops tail" "NL \<notin> set (buf @ bytes es)"
  shows "fst (wire_line_from cap out buf (es @ tail)) \<in> {WEof, WIo, WLate}"
  using assms
proof (induction es arbitrary: out buf rule: live.induct)
  case 1
  then show ?case
    by (cases tail rule: stops.cases)
       (simp_all add: wire_line_from.simps [of _ _ buf] wire_take_all)
qed (simp_all add: wire_line_from.simps [of _ _ _ "_ # _"] wire_take_all)

lemma wire_response_from_cut:
  assumes "live es" "stops tail" "\<forall>l \<in> set ls. wire_text l \<and> take 6 l \<noteq> DB_MARK_END"
    and "buf @ bytes es = lines_bytes ls @ part" "NL \<notin> set part"
  shows "fst (wire_response_from cap body buf (es @ tail)) \<in> {DB_IO, DB_TIMEOUT}"
  using assms(1,3,4)
proof (induction ls arbitrary: es buf body)
  case Nil
  then have "NL \<notin> set (buf @ bytes es)" using assms(5) by simp
  from wire_line_cut [OF Nil(1) assms(2) this, of DB_BODY_MAX "[]"] show ?case
    by (auto simp: wire_response_from.simps [of _ _ buf] db_wire_line_def split: prod.splits)
next
  case (Cons l ls)
  from Cons.prems wire_line_bytes [of es l buf "lines_bytes ls @ part" DB_BODY_MAX "[]" tail]
  obtain buf' es' where
    *: "wire_line_from DB_BODY_MAX [] buf (es @ tail) = (WLine l, buf', es' @ tail)"
    "live es'" "buf' @ bytes es' = lines_bytes ls @ part" by auto
  from Cons.IH [OF *(2) _ *(3), of "body_add cap body l"] Cons.prems * show ?case
    by (simp add: wire_response_from.simps [of _ _ buf] db_wire_line_def)
qed

lemma strict_prefix_lines:
  assumes "p @ q = lines_bytes (ls @ [m])" "q \<noteq> []" "\<forall>l \<in> set (ls @ [m]). NL \<notin> set l"
  shows "\<exists>ls' part. p = lines_bytes ls' @ part \<and> NL \<notin> set part \<and> set ls' \<subseteq> set ls"
  using assms
proof (induction ls arbitrary: p)
  case Nil
  then have "p @ q = m @ NL # []" by simp
  moreover have "NL \<notin> set p"
  proof
    assume "NL \<in> set p"
    with split_at_sep [of p q m NL "[]"] Nil show False by auto
  qed
  ultimately show ?case by (intro exI [of _ "[]"] exI [of _ p]) simp
next
  case (Cons l ls)
  then have pq: "p @ q = l @ NL # lines_bytes (ls @ [m])" by simp
  show ?case
  proof (cases "NL \<in> set p")
    case True
    with pq Cons.prems split_at_sep [of p q l NL] obtain p' where
      p': "p = l @ NL # p'" "p' @ q = lines_bytes (ls @ [m])" by auto
    with Cons.IH [of p'] Cons.prems obtain ls' part where
      "p' = lines_bytes ls' @ part" "NL \<notin> set part" "set ls' \<subseteq> set ls" by auto
    with p' show ?thesis by (intro exI [of _ "l # ls'"] exI [of _ part]) auto
  next
    case False
    then show ?thesis by (intro exI [of _ "[]"] exI [of _ p]) simp
  qed
qed

lemma wire_response_cut:
  assumes "live es" "stops tail" "\<forall>l \<in> set ls. wire_text l \<and> take 6 l \<noteq> DB_MARK_END" "wire_text m"
    and "(buf @ bytes es) @ q = lines_bytes (ls @ [m])" "q \<noteq> []"
  shows "fst (db_wire_response cap buf (es @ tail)) \<in> {DB_IO, DB_TIMEOUT}"
proof -
  from strict_prefix_lines [OF assms(5,6)] assms(3,4) obtain ls' part where
    "buf @ bytes es = lines_bytes ls' @ part" "NL \<notin> set part" "set ls' \<subseteq> set ls" by auto
  with wire_response_from_cut [OF assms(1,2), of ls' buf part] assms(3) show ?thesis
    unfolding db_wire_response_def by blast
qed

text \<open>The writing loop sends a prefix of the data, and all of it exactly when it succeeds.\<close>

lemma db_wire_write_prefix:
  "db_wire_write data evs = (r, sent) \<Longrightarrow> \<exists>rest. data = sent @ rest \<and> (r = None \<longrightarrow> rest = [])"
proof (induction data evs arbitrary: r sent rule: db_wire_write.induct)
  case (8 c cs n evs)
  obtain r' sent' where w: "db_wire_write (drop n (c # cs)) evs = (r', sent')" by fastforce
  with "8.IH" [OF w] "8.prems" show ?case
    by (metis append.assoc append_take_drop_id case_prod_conv db_wire_write.simps(8) prod.inject)
qed auto

section \<open>Lemmas on literals\<close>

text \<open>How an SQL scanner reads on after an opening quote: a doubled quote is a quote.\<close>

fun lex_quoted :: "string \<Rightarrow> (string \<times> string) option" where
  "lex_quoted [] = None"
| "lex_quoted (c # cs) =
     (if c = SQ
      then (case cs of
              d # r \<Rightarrow> if d = SQ then map_option (\<lambda>(t, u). (SQ # t, u)) (lex_quoted r) else Some ([], cs)
            | [] \<Rightarrow> Some ([], cs))
      else map_option (\<lambda>(t, u). (c # t, u)) (lex_quoted cs))"

fun dbl :: "string \<Rightarrow> string" where
  "dbl [] = []"
| "dbl (c # cs) = (if c = SQ then SQ # SQ # dbl cs else c # dbl cs)"

lemma quote_loop_dbl: "\<exists>k. quote_loop cap w s = dbl (take k s)"
proof (induction cap w s rule: quote_loop.induct)
  case (2 cap w c src)
  show ?case
  proof (cases "w + (if c = SQ then 2 else 1) + 2 \<le> cap")
    case True
    then obtain k where "quote_loop cap w (c # src) = dbl (take (Suc k) (c # src))"
      using "2.IH" by (auto split: if_splits)
    then show ?thesis by blast
  next
    case False
    then have "quote_loop cap w (c # src) = dbl (take 0 (c # src))" by simp
    then show ?thesis by blast
  qed
qed simp

lemma quote_loop_fits: "w + length (dbl s) + 2 \<le> cap \<Longrightarrow> quote_loop cap w s = dbl s"
  by (induction cap w s rule: quote_loop.induct) (auto split: if_splits)

lemma quote_loop_length: "w + 2 \<le> cap \<Longrightarrow> w + length (quote_loop cap w s) + 2 \<le> cap"
  by (induction cap w s rule: quote_loop.induct) auto

lemma lex_quoted_dbl:
  "r = [] \<or> hd r \<noteq> SQ \<Longrightarrow> lex_quoted (dbl s @ SQ # r) = Some (s, r)"
  by (induction s) (auto split: list.splits)

lemma dbl_id: "SQ \<notin> set s \<Longrightarrow> dbl s = s"
  by (induction s) auto

lemma dbl_set: "c \<in> set (dbl s) \<Longrightarrow> c \<in> set s"
  by (induction s) (auto split: if_splits)

lemma dbl_length: "length (dbl s) \<le> 2 * length s"
  by (induction s) auto

lemma db_quote_fits: "length (dbl s) + 3 \<le> cap \<Longrightarrow> db_quote cap s = SQ # dbl s @ [SQ]"
  by (simp add: db_quote_def quote_loop_fits)

lemma db_quote_literal:
  assumes "3 \<le> cap" "r = [] \<or> hd r \<noteq> SQ"
  shows "\<exists>k q. db_quote cap s = SQ # q \<and> length (db_quote cap s) < cap \<and>
               lex_quoted (q @ r) = Some (take k s, r) \<and>
               (length (dbl s) + 3 \<le> cap \<longrightarrow> take k s = s)"
proof -
  obtain k where k: "quote_loop cap 1 s = dbl (take k s)" using quote_loop_dbl by blast
  have len: "length (db_quote cap s) < cap"
    using quote_loop_length [of 1 cap s] assms(1) by (simp add: db_quote_def)
  have "take k s = s" if fits: "length (dbl s) + 3 \<le> cap"
  proof -
    from fits have "dbl (take k s) = dbl s" using k quote_loop_fits [of 1 s cap] by simp
    then show ?thesis using lex_quoted_dbl [of "[]"] by (metis option.inject prod.inject)
  qed
  with k len lex_quoted_dbl [OF assms(2), of "take k s"] assms(1) show ?thesis
    by (intro exI [of _ k] exI [of _ "dbl (take k s) @ [SQ]"]) (simp add: db_quote_def)
qed

section \<open>Properties\<close>

text \<open>
  C11: the reply handed to the caller depends on the bytes the server sent and not on how the
  socket cut them into reads, nor on interrupted or empty reads in between; what follows the end
  marker stays buffered for the next statement.
\<close>

theorem response_ignores_chunks:
  assumes "live es" "\<forall>l \<in> set ls. wire_text l \<and> take 6 l \<noteq> DB_MARK_END"
    and "wire_text m" "take 6 m = DB_MARK_END" "0 < cap"
    and "buf @ bytes es = lines_bytes (ls @ [m]) @ rest"
  shows "\<exists>buf' es'. db_wire_response cap buf (es @ tail) =
           (classify m, take (cap - 1) (join_nl (dropWhile (\<lambda>l. l = []) ls)), buf', es' @ tail) \<and>
           live es' \<and> buf' @ bytes es' = rest"
  by (rule wire_response_bytes [OF assms])

theorem response_ignores_chunks_witness:
  "\<exists>buf' es'. db_wire_response 99 ''a'' ([Data ''b'', Again, Data ([NL] @ DB_MARK_OK), Data [NL]] @ []) =
     (DB_OK, ''ab'', buf', es' @ []) \<and> live es' \<and> buf' @ bytes es' = []"
proof -
  have c: "classify DB_MARK_OK = DB_OK" "take (99 - 1) (join_nl (dropWhile (\<lambda>l. l = []) [''ab''])) = ''ab''"
    by (simp_all add: classify_def)
  show ?thesis
    using response_ignores_chunks [of "[Data ''b'', Again, Data ([NL] @ DB_MARK_OK), Data [NL]]" "[''ab'']" DB_MARK_OK 99 "''a''" "[]" "[]"]
    unfolding c by (simp add: DB_MARK_OK_def DB_MARK_END_def DB_BODY_MAX_def)
qed

text \<open>
  C10: a reply that is cut short is never taken for an answer: if the connection ends, breaks
  or times out anywhere before the end marker is complete, the caller sees an I/O failure or a
  timeout, whatever prefix of the reply had arrived.
\<close>

theorem cut_response_fails:
  assumes "live es" "stops tail" "\<forall>l \<in> set ls. wire_text l \<and> take 6 l \<noteq> DB_MARK_END" "wire_text m"
    and "(buf @ bytes es) @ q = lines_bytes (ls @ [m])" "q \<noteq> []"
  shows "fst (db_wire_response cap buf (es @ tail)) \<in> {DB_IO, DB_TIMEOUT}"
  by (rule wire_response_cut [OF assms])

theorem cut_response_fails_witness:
  "fst (db_wire_response 99 [] ([Data (''ab'' @ [NL] @ ''<<END ok'')] @ [Eof])) \<in> {DB_IO, DB_TIMEOUT}"
  by (rule cut_response_fails [of _ _ "[''ab'']" DB_MARK_OK _ "''>>'' @ [NL]"])
     (simp_all add: DB_MARK_OK_def DB_MARK_END_def DB_BODY_MAX_def)

text \<open>
  C12: \<^verbatim>\<open>db_quote\<close> writes one closed SQL literal into any buffer of at least three bytes, never past
  its end: a scanner that reads doubled quotes stops right behind it, whatever quotes the value
  has, and reads the value back in full when it fits and a prefix of it otherwise.
\<close>

theorem quote_is_one_literal:
  assumes "3 \<le> cap" "r = [] \<or> hd r \<noteq> SQ"
  shows "\<exists>k q. db_quote cap s = SQ # q \<and> length (db_quote cap s) < cap \<and>
               lex_quoted (q @ r) = Some (take k s, r) \<and>
               (length (dbl s) + 3 \<le> cap \<longrightarrow> take k s = s)"
  by (rule db_quote_literal [OF assms])

theorem quote_is_one_literal_witness:
  "\<exists>k q. db_quote 6 [SQ, SQ, SQ] = SQ # q \<and> length (db_quote 6 [SQ, SQ, SQ]) < 6 \<and>
     lex_quoted (q @ '', x'') = Some (take k [SQ, SQ, SQ], '', x'')"
  using quote_is_one_literal [of 6 "'', x''" "[SQ, SQ, SQ]"] by auto

end
