(* ===== verification/Simple_Db.thy ===== *)
theory Simple_Db
  imports Db_Wire
begin

text \<open>
  The server side of the wire, as far as the C code depends on it: the statements
  \<^verbatim>\<open>libballotbrain\<close> and \<^verbatim>\<open>libtetrisauth\<close> send, the effect SimpleDB gives them and the lines it prints
  (\<^verbatim>\<open>Parser.processNextStatement\<close>, \<^verbatim>\<open>StatementSession.execute\<close>, \<^verbatim>\<open>Query.execute\<close>,
  \<^verbatim>\<open>Tuple.toString\<close>). What cannot be read off the sources is a field of the record
  \<open>env\<close>: the Zql parser (a jar), where a heap file puts a new tuple, the plan text
  printed around a result, which statements lose a deadlock or hit a storage fault, and what
  the network does with the bytes. The locale \<open>sdb_env\<close> names what the C code relies on.
\<close>

section \<open>Values, statements and the schema\<close>

datatype sval = VInt int | VStr string

type_synonym row = "sval list"
type_synonym tables = "string \<Rightarrow> row list"

datatype ctype = CInt | CString

datatype stmt =
    SInsert string row
  | SDelete string "(string \<times> sval) list"
  | SSelect "string list" string "(string \<times> sval) list"
  | SMax string string
  | SBegin
  | SCommit
  | SRollback

definition BB_DB_TABLE_ELECTION :: string where "BB_DB_TABLE_ELECTION = ''election''"
definition BB_DB_TABLE_OPTION :: string where "BB_DB_TABLE_OPTION = ''election_option''"
definition BB_DB_TABLE_ELIGIBLE :: string where "BB_DB_TABLE_ELIGIBLE = ''election_eligible''"
definition BB_DB_TABLE_BALLOT :: string where "BB_DB_TABLE_BALLOT = ''ballot''"
definition BB_DB_TABLE_OWNER :: string where "BB_DB_TABLE_OWNER = ''ballot_owner''"
definition BB_DB_TABLE_NONCE :: string where "BB_DB_TABLE_NONCE = ''nonce''"
definition TETRISAUTH_DB_TABLE :: string where "TETRISAUTH_DB_TABLE = ''user''"

lemmas table_names = BB_DB_TABLE_ELECTION_def BB_DB_TABLE_OPTION_def BB_DB_TABLE_ELIGIBLE_def
  BB_DB_TABLE_BALLOT_def BB_DB_TABLE_OWNER_def BB_DB_TABLE_NONCE_def TETRISAUTH_DB_TABLE_def

definition schema :: "string \<Rightarrow> (string \<times> ctype) list" where
  "schema t =
     (if t = BB_DB_TABLE_ELECTION then
        [(''seq'', CInt), (''id'', CString), (''title'', CString), (''state'', CString),
         (''open_time'', CString), (''close_time'', CString)]
      else if t = BB_DB_TABLE_OPTION then
        [(''election_id'', CString), (''idx'', CInt), (''name'', CString)]
      else if t = BB_DB_TABLE_ELIGIBLE then
        [(''election_id'', CString), (''cert_name'', CString)]
      else if t = BB_DB_TABLE_BALLOT then
        [(''election_id'', CString), (''hash'', CString), (''option_index'', CInt),
         (''version'', CInt), (''superseded'', CInt)]
      else if t = BB_DB_TABLE_OWNER then
        [(''election_id'', CString), (''cert_name'', CString), (''hash'', CString),
         (''version'', CInt)]
      else if t = BB_DB_TABLE_NONCE then
        [(''election_id'', CString), (''nonce'', CString)]
      else if t = TETRISAUTH_DB_TABLE then
        [(''id'', CInt), (''name'', CString), (''salt'', CString), (''digest'', CString),
         (''iters'', CInt), (''created_at'', CInt)]
      else [])"

definition type_ok :: "ctype \<Rightarrow> sval \<Rightarrow> bool" where
  "type_ok ty v = (case v of VInt _ \<Rightarrow> ty = CInt | VStr _ \<Rightarrow> ty = CString)"

definition conds_ok :: "string \<Rightarrow> (string \<times> sval) list \<Rightarrow> bool" where
  "conds_ok t cs =
     list_all (\<lambda>(c, v). case map_of (schema t) c of None \<Rightarrow> False | Some ty \<Rightarrow> type_ok ty v) cs"

text \<open>The checks of the statement handlers: known table, known columns, matching types.\<close>

fun stmt_types_ok :: "stmt \<Rightarrow> bool" where
  "stmt_types_ok (SInsert t vs) \<longleftrightarrow> schema t \<noteq> [] \<and> list_all2 type_ok (map snd (schema t)) vs"
| "stmt_types_ok (SDelete t cs) \<longleftrightarrow> schema t \<noteq> [] \<and> conds_ok t cs"
| "stmt_types_ok (SSelect cols t cs) \<longleftrightarrow>
     cols \<noteq> [] \<and> list_all (\<lambda>c. c \<in> fst ` set (schema t)) cols \<and> conds_ok t cs"
| "stmt_types_ok (SMax c t) \<longleftrightarrow> (c, CInt) \<in> set (schema t)"
| "stmt_types_ok _ \<longleftrightarrow> True"

section \<open>SQL text\<close>

fun join_with :: "string \<Rightarrow> string list \<Rightarrow> string" where
  "join_with sep [] = []"
| "join_with sep [x] = x"
| "join_with sep (x # xs) = x @ sep @ join_with sep xs"

fun val_text :: "sval \<Rightarrow> string" where
  "val_text (VInt i) = int_str i"
| "val_text (VStr s) = SQ # s @ [SQ]"

definition where_text :: "(string \<times> sval) list \<Rightarrow> string" where
  "where_text cs =
     (if cs = [] then []
      else '' where '' @ join_with '' and '' (map (\<lambda>(c, v). c @ '' = '' @ val_text v) cs))"

fun sql_text :: "stmt \<Rightarrow> string" where
  "sql_text (SInsert t vs) = ''insert into '' @ t @ '' values ('' @ join_with '', '' (map val_text vs) @ '');''"
| "sql_text (SDelete t cs) = ''delete from '' @ t @ where_text cs @ '';''"
| "sql_text (SSelect cols t cs) =
     ''select '' @ join_with '', '' cols @ '' from '' @ t @ where_text cs @ '';''"
| "sql_text (SMax c t) = ''select max('' @ c @ '') from '' @ t @ '';''"
| "sql_text SBegin = ''set transaction read write;''"
| "sql_text SCommit = ''commit;''"
| "sql_text SRollback = ''rollback;''"

text \<open>Printable characters other than the quote: what every SQL scanner reads back unchanged.\<close>

definition clean_char :: "char \<Rightarrow> bool" where
  "clean_char c \<longleftrightarrow> 32 \<le> (of_char c :: nat) \<and> (of_char c :: nat) < 127 \<and> c \<noteq> SQ"

fun val_clean :: "sval \<Rightarrow> bool" where
  "val_clean (VInt i) \<longleftrightarrow> 0 \<le> i \<and> i < 2 ^ 31"
| "val_clean (VStr s) \<longleftrightarrow> list_all clean_char s"

fun stmt_clean :: "stmt \<Rightarrow> bool" where
  "stmt_clean (SInsert t vs) \<longleftrightarrow> stmt_types_ok (SInsert t vs) \<and> list_all val_clean vs"
| "stmt_clean (SDelete t cs) \<longleftrightarrow> stmt_types_ok (SDelete t cs) \<and> list_all (val_clean \<circ> snd) cs"
| "stmt_clean (SSelect cols t cs) \<longleftrightarrow>
     stmt_types_ok (SSelect cols t cs) \<and> list_all (val_clean \<circ> snd) cs"
| "stmt_clean st \<longleftrightarrow> stmt_types_ok st"

section \<open>The environment\<close>

datatype fate = Runs | Deadlock | Fails | Crashes

record env =
  zql :: "string \<Rightarrow> stmt option"
  place :: "row \<Rightarrow> row list \<Rightarrow> row list"
  fate_of :: "nat \<Rightarrow> fate"
  pre_lines :: "nat \<Rightarrow> stmt \<Rightarrow> string list"
  post_lines :: "nat \<Rightarrow> stmt \<Rightarrow> string list"
  err_lines :: "nat \<Rightarrow> string list"
  col_label :: "string \<Rightarrow> string \<Rightarrow> string"
  connects :: "nat \<Rightarrow> bool"
  writes :: "nat \<Rightarrow> string \<Rightarrow> wr_event list"
  reads :: "nat \<Rightarrow> string \<Rightarrow> rd_event list"

section \<open>Executing a statement\<close>

definition STRING_LEN :: nat where "STRING_LEN = 128"

text \<open>The constructor of \<^verbatim>\<open>StringField\<close> cuts a string to the column width.\<close>

fun field_val :: "sval \<Rightarrow> sval" where
  "field_val (VInt i) = VInt i"
| "field_val (VStr s) = VStr (take STRING_LEN s)"

definition get_col :: "string \<Rightarrow> row \<Rightarrow> string \<Rightarrow> sval option" where
  "get_col t r c = map_of (zip (map fst (schema t)) r) c"

definition row_matches :: "string \<Rightarrow> (string \<times> sval) list \<Rightarrow> row \<Rightarrow> bool" where
  "row_matches t cs r = list_all (\<lambda>(c, v). get_col t r c = Some (field_val v)) cs"

definition project :: "string \<Rightarrow> string list \<Rightarrow> row \<Rightarrow> row" where
  "project t cols r = map (\<lambda>c. case get_col t r c of None \<Rightarrow> VInt 0 | Some v \<Rightarrow> v) cols"

fun int_of :: "sval \<Rightarrow> int" where
  "int_of (VInt i) = i"
| "int_of (VStr _) = 0"

text \<open>The rows a query returns; \<^verbatim>\<open>IntegerAggregator\<close> has no group for an empty table.\<close>

fun query_rows :: "tables \<Rightarrow> stmt \<Rightarrow> row list" where
  "query_rows T (SSelect cols t cs) = map (project t cols) (filter (row_matches t cs) (T t))"
| "query_rows T (SMax c t) =
     (case map (\<lambda>r. int_of (the (get_col t r c))) (T t) of
        [] \<Rightarrow> []
      | v # vs \<Rightarrow> [[VInt (foldl max v vs)]])"
| "query_rows T _ = []"

fun update_tables :: "env \<Rightarrow> tables \<Rightarrow> stmt \<Rightarrow> tables" where
  "update_tables E T (SInsert t vs) = T(t := place E (map field_val vs) (T t))"
| "update_tables E T (SDelete t cs) = T(t := filter (\<lambda>r. \<not> row_matches t cs r) (T t))"
| "update_tables E T _ = T"

section \<open>Printing\<close>

fun print_val :: "sval \<Rightarrow> string" where
  "print_val (VInt i) = int_str i"
| "print_val (VStr s) = s"

definition print_row :: "row \<Rightarrow> string" where
  "print_row r = join_tab (map print_val r)"

fun query_cols :: "stmt \<Rightarrow> string list" where
  "query_cols (SSelect cols t cs) = cols"
| "query_cols (SMax c t) = [c]"
| "query_cols _ = []"

fun query_table :: "stmt \<Rightarrow> string" where
  "query_table (SSelect cols t cs) = t"
| "query_table (SMax c t) = t"
| "query_table _ = []"

definition is_query :: "stmt \<Rightarrow> bool" where
  "is_query st \<longleftrightarrow> query_cols st \<noteq> []"

text \<open>An insert or delete has one unnamed result column: the number of tuples it touched.\<close>

fun touched :: "tables \<Rightarrow> stmt \<Rightarrow> int" where
  "touched T (SDelete t cs) = wrap32 (int (length (filter (row_matches t cs) (T t))))"
| "touched T _ = 1"

definition shown_rows :: "tables \<Rightarrow> stmt \<Rightarrow> row list" where
  "shown_rows T st = (if is_query st then query_rows T st else [[VInt (touched T st)]])"

definition num_fields :: "stmt \<Rightarrow> nat" where
  "num_fields st = (if is_query st then length (query_cols st) else 1)"

definition heading :: "env \<Rightarrow> stmt \<Rightarrow> string" where
  "heading E st =
     (if is_query st then concat (map (\<lambda>c. col_label E (query_table st) c @ [TAB]) (query_cols st))
      else ''null'' @ [TAB])"

text \<open>\<^verbatim>\<open>Query.execute\<close>: heading, rule, tuples, blank line and row count.\<close>

definition table_lines :: "env \<Rightarrow> stmt \<Rightarrow> row list \<Rightarrow> string list" where
  "table_lines E st rows =
     [heading E st, replicate (length (heading E st) + num_fields st * 4) CHR ''-''] @
     map print_row rows @ [[], trailer (length rows)]"

definition printed_lines :: "env \<Rightarrow> nat \<Rightarrow> stmt \<Rightarrow> row list \<Rightarrow> string list" where
  "printed_lines E t st rows = pre_lines E t st @ table_lines E st rows @ post_lines E t st"

section \<open>A session\<close>

record srv =
  committed :: tables
  working :: "tables option"

definition view :: "srv \<Rightarrow> tables" where
  "view s = (case working s of None \<Rightarrow> committed s | Some T \<Rightarrow> T)"

definition set_view :: "tables \<Rightarrow> srv \<Rightarrow> srv" where
  "set_view T s = (case working s of None \<Rightarrow> s\<lparr>committed := T\<rparr> | Some _ \<Rightarrow> s\<lparr>working := Some T\<rparr>)"

definition abort :: "srv \<Rightarrow> srv" where
  "abort s = s\<lparr>working := None\<rparr>"

definition DB_MARK_ERROR :: string where "DB_MARK_ERROR = ''<<END error>>''"

text \<open>The lines by which \<^verbatim>\<open>StatementSession\<close> recognises a failure in the printed text.\<close>

definition error_line :: "string \<Rightarrow> bool" where
  "error_line l \<longleftrightarrow>
     take 22 l = ''Invalid SQL expression'' \<or> take 12 l = ''Can'' @ [SQ] @ ''t parse ''"

definition end_marker :: "string list \<Rightarrow> string" where
  "end_marker ls = (if list_ex error_line ls then DB_MARK_ERROR else DB_MARK_OK)"

text \<open>
  \<^verbatim>\<open>handleTransactStatement\<close>. A commit that fails in storage leaves the transaction open;
  closing the session aborts it.
\<close>

definition transact_statement :: "env \<Rightarrow> nat \<Rightarrow> srv \<Rightarrow> stmt \<Rightarrow> string list \<times> srv" where
  "transact_statement E t s st =
     (let good = pre_lines E t st @ post_lines E t st @ [DB_MARK_OK];
          bad = err_lines E t @ [DB_MARK_ERROR]
      in case (st, working s) of
           (SBegin, None) \<Rightarrow> (good, s\<lparr>working := Some (committed s)\<rparr>)
         | (SCommit, Some T) \<Rightarrow>
             (case fate_of E t of
                Deadlock \<Rightarrow> (err_lines E t @ [DB_MARK_RETRY], abort s)
              | Fails \<Rightarrow> (bad, s)
              | _ \<Rightarrow> (good, s\<lparr>committed := T, working := None\<rparr>))
         | (SRollback, Some T) \<Rightarrow> (good, abort s)
         | _ \<Rightarrow> (bad, s))"

definition is_transact :: "stmt \<Rightarrow> bool" where
  "is_transact st \<longleftrightarrow> st \<in> {SBegin, SCommit, SRollback}"

text \<open>
  One line of a session: \<^verbatim>\<open>processNextStatement\<close> with the marker \<^verbatim>\<open>StatementSession.execute\<close>
  adds. A failing statement aborts the transaction it ran in, so that the next statement of
  the connection commits by itself. A process that dies answers nothing.
\<close>

definition process_next_statement :: "env \<Rightarrow> nat \<Rightarrow> srv \<Rightarrow> string \<Rightarrow> string list \<times> srv" where
  "process_next_statement E t s line =
     (if fate_of E t = Crashes then ([], abort s)
      else case zql E line of
        None \<Rightarrow> (err_lines E t @ [DB_MARK_ERROR], s)
      | Some st \<Rightarrow>
          (if is_transact st then transact_statement E t s st
           else if fate_of E t = Deadlock then (err_lines E t @ [DB_MARK_RETRY], abort s)
           else if fate_of E t = Fails \<or> \<not> stmt_types_ok st
           then (err_lines E t @ [DB_MARK_ERROR], abort s)
           else let ls = printed_lines E t st (shown_rows (view s) st)
                in (ls @ [end_marker ls], set_view (update_tables E (view s) st) s)))"

section \<open>What the client relies on\<close>

abbreviation chat_line :: "string \<Rightarrow> bool" where
  "chat_line l \<equiv> wire_text l \<and> take 6 l \<noteq> DB_MARK_END \<and> \<not> is_rule l"

abbreviation text_size :: "string list \<Rightarrow> nat" where
  "text_size ls \<equiv> sum_list (map (\<lambda>l. Suc (length l)) ls)"

locale sdb_env =
  fixes E :: env
  assumes zql_reads: "stmt_clean st \<Longrightarrow> zql E (sql_text st) = Some st"
    and place_adds: "mset (place E r rs) = add_mset r (mset rs)"
    and pre_chat: "l \<in> set (pre_lines E t st) \<Longrightarrow> chat_line l \<and> \<not> error_line l"
    and post_chat: "l \<in> set (post_lines E t st) \<Longrightarrow> chat_line l \<and> \<not> error_line l"
    and err_chat: "l \<in> set (err_lines E t) \<Longrightarrow> chat_line l"
    and chat_size: "text_size (pre_lines E t st) + text_size (post_lines E t st) \<le> 2048"
    and label_plain: "c \<in> set (col_label E tb col) \<Longrightarrow> c \<noteq> NL \<and> c \<noteq> NUL"
    and label_size: "length (col_label E tb col) \<le> 40"
    and label_end: "take 6 (col_label E tb col) \<noteq> DB_MARK_END"
    and label_error: "\<not> error_line (col_label E tb col)"
    and reads_cut: "\<exists>es tail q. reads E t bs = es @ tail \<and> live es \<and> stops tail \<and> bytes es @ q = bs"

section \<open>Rows that survive the wire\<close>

text \<open>
  A row the client reads back as printed: only clean characters, not blank, not too long and
  not taken for a marker or an error message.
\<close>

fun head_ok :: "row \<Rightarrow> bool" where
  "head_ok (VStr s # _) \<longleftrightarrow> take 6 s \<noteq> DB_MARK_END \<and> \<not> error_line s"
| "head_ok _ \<longleftrightarrow> True"

fun print_clean :: "sval \<Rightarrow> bool" where
  "print_clean (VInt i) \<longleftrightarrow> int32_ok i"
| "print_clean (VStr s) \<longleftrightarrow> list_all clean_char s"

definition row_ok :: "row \<Rightarrow> bool" where
  "row_ok r \<longleftrightarrow> r \<noteq> [] \<and> r \<noteq> [VStr []] \<and> list_all print_clean r \<and> length (print_row r) \<le> 200 \<and> head_ok r"

lemma clean_char_facts:
  "clean_char c \<Longrightarrow> c \<noteq> NUL \<and> c \<noteq> TAB \<and> c \<noteq> NL \<and> c \<noteq> CR \<and> c \<noteq> SQ"
  by (auto simp: clean_char_def)

lemma clean_string_facts:
  "list_all clean_char s \<Longrightarrow>
   NUL \<notin> set s \<and> TAB \<notin> set s \<and> NL \<notin> set s \<and> CR \<notin> set s \<and> SQ \<notin> set s"
  using clean_char_facts by (auto simp: list_all_iff)

lemma print_val_plain:
  "print_clean v \<Longrightarrow> NUL \<notin> set (print_val v) \<and> TAB \<notin> set (print_val v) \<and> NL \<notin> set (print_val v)"
  by (cases v) (auto dest: clean_string_facts)

lemma row_ok_plain: "row_ok r \<Longrightarrow> NUL \<notin> set (print_row r) \<and> NL \<notin> set (print_row r)"
  using print_val_plain by (fastforce simp: row_ok_def print_row_def list_all_iff dest: set_join_tab)

lemma join_tab_Cons: "fs \<noteq> [] \<Longrightarrow> join_tab (f # fs) = f @ TAB # join_tab fs"
  by (cases fs) auto

lemma join_tab_eq_Nil: "fs \<noteq> [] \<Longrightarrow> join_tab fs = [] \<longleftrightarrow> fs = [[]]"
  by (cases fs rule: join_tab.cases) auto

lemma row_ok_not_blank: "row_ok r \<Longrightarrow> print_row r \<noteq> []"
  by (cases r rule: head_ok.cases) (auto simp: row_ok_def print_row_def join_tab_eq_Nil)

lemma row_ok_split: "row_ok r \<Longrightarrow> split_tab (print_row r) = map print_val r"
  unfolding print_row_def
  by (rule split_join_tab) (auto simp: row_ok_def list_all_iff dest: print_val_plain)

text \<open>A prefix without a tab is a prefix of the first field.\<close>

lemma take_prefix_tab:
  assumes "take n (f @ TAB # r) = p" "length p = n" "TAB \<notin> set p"
  shows "take n f = p"
proof (cases "n \<le> length f")
  case True
  then show ?thesis using assms by simp
next
  case False
  then have "TAB \<in> set (take n (f @ TAB # r))"
    by (cases "n - length f") auto
  with assms show ?thesis by simp
qed

lemma print_row_head:
  assumes "row_ok r" "take n (print_row r) = p" "length p = n" "TAB \<notin> set p"
  shows "take n (print_val (hd r)) = p"
proof -
  from assms(1) obtain v vs where r: "r = v # vs" by (cases r) (auto simp: row_ok_def)
  show ?thesis
  proof (cases "vs = []")
    case True
    with r assms show ?thesis by (simp add: print_row_def)
  next
    case False
    with r have "print_row r = print_val v @ TAB # join_tab (map print_val vs)"
      by (simp add: print_row_def join_tab_Cons)
    with assms(2) have "take n (print_val v @ TAB # join_tab (map print_val vs)) = p" by simp
    from take_prefix_tab [OF this assms(3,4)] r show ?thesis by simp
  qed
qed

lemma int_str_head:
  assumes "p \<noteq> []" "take n (int_str i) = p"
  shows "is_digit (hd p) \<or> hd p = CHR ''-''"
proof -
  from assms have "hd p \<in> set (int_str i)" using hd_in_set [of p] in_set_takeD by metis
  then show ?thesis by (rule int_str_chars)
qed

lemma row_ok_not_marker: "row_ok r \<Longrightarrow> take 6 (print_row r) \<noteq> DB_MARK_END"
proof
  assume r: "row_ok r" and m: "take 6 (print_row r) = DB_MARK_END"
  from print_row_head [OF r m] have h: "take 6 (print_val (hd r)) = DB_MARK_END"
    by (simp add: DB_MARK_END_def)
  show False
  proof (cases "hd r")
    case (VInt i)
    with h int_str_head [of DB_MARK_END 6 i] show False
      by (simp add: DB_MARK_END_def is_digit_def)
  next
    case (VStr s)
    with h r show False by (cases r) (auto simp: row_ok_def)
  qed
qed

lemma row_ok_not_error: "row_ok r \<Longrightarrow> \<not> error_line (print_row r)"
proof
  assume r: "row_ok r" and m: "error_line (print_row r)"
  have h: "error_line (print_val (hd r))"
    using m print_row_head [OF r, of 22 "''Invalid SQL expression''"]
      print_row_head [OF r, of 12 "''Can'' @ [SQ] @ ''t parse ''"]
    by (auto simp: error_line_def)
  show False
  proof (cases "hd r")
    case (VInt i)
    with h int_str_head [of "''Invalid SQL expression''" 22 i]
      int_str_head [of "''Can'' @ [SQ] @ ''t parse ''" 12 i] show False
      by (auto simp: error_line_def is_digit_def)
  next
    case (VStr s)
    with h r show False by (cases r) (auto simp: row_ok_def)
  qed
qed

lemmas row_ok_wire = row_ok_plain row_ok_not_blank row_ok_split row_ok_not_marker row_ok_not_error

section \<open>Reading back a printed result\<close>

definition reads_rows :: "string \<Rightarrow> row list \<Rightarrow> bool" where
  "reads_rows body rows \<longleftrightarrow>
     db_row_count body = int (length rows) \<and>
     (\<forall>i < length rows. \<forall>m. db_row_fields body (int i) m =
        (int (length (rows ! i)), take m (map print_val (rows ! i))))"

lemma reads_rows_reply:
  assumes "chatter_ok pre" "plain_line hdr" "\<not> is_rule hdr" "0 < d" "\<forall>r \<in> set rows. row_ok r"
  shows "reads_rows (reply_body pre hdr d (map print_row rows) post) rows"
proof -
  have rows: "plain_lines (map print_row rows)" "[] \<notin> set (map print_row rows)"
    using assms(5) row_ok_wire by (auto simp: list_all_iff) metis+
  show ?thesis
    using db_row_count_reply [OF assms(1-4) rows] db_row_fields_reply [OF assms(1-4) rows]
      assms(5) row_ok_split
    by (simp add: reads_rows_def)
qed

lemma length_join_nl: "ls \<noteq> [] \<Longrightarrow> length (join_nl ls) < text_size ls"
  by (induction ls rule: join_nl.induct) auto

lemma text_size_dropWhile: "text_size (dropWhile P ls) \<le> text_size ls"
  by (induction ls) auto

lemma text_size_rows: "\<forall>r \<in> set rows. row_ok r \<Longrightarrow> text_size (map print_row rows) \<le> 201 * length rows"
  by (induction rows) (auto simp: row_ok_def)

context sdb_env
begin

lemma heading_plain: "NL \<notin> set (heading E st) \<and> NUL \<notin> set (heading E st)"
  by (auto simp: heading_def dest: label_plain)

lemma heading_size: "length (heading E st) \<le> 41 * num_fields st"
proof -
  have "length (concat (map (\<lambda>c. col_label E tb c @ [TAB]) cs)) \<le> 41 * length cs" for tb cs
  proof (induction cs)
    case (Cons c cs)
    then show ?case using label_size [of tb c] by simp
  qed simp
  then show ?thesis by (simp add: heading_def num_fields_def)
qed

lemma heading_query:
  shows "heading E st \<noteq> [] \<and> \<not> is_rule (heading E st) \<and> take 6 (heading E st) \<noteq> DB_MARK_END \<and>
         \<not> error_line (heading E st)"
proof -
  obtain l r where h: "heading E st = l @ TAB # r" and l: "take 6 l \<noteq> DB_MARK_END" "\<not> error_line l"
  proof (cases "is_query st")
    case True
    then obtain c cs where "query_cols st = c # cs" by (cases "query_cols st") (auto simp: is_query_def)
    with True that show ?thesis using label_end label_error by (auto simp: heading_def)
  next
    case False
    with that [of "''null''" "[]"] show ?thesis by (simp add: heading_def DB_MARK_END_def error_line_def)
  qed
  have "TAB \<in> set (heading E st)" using h by simp
  then have "\<not> is_rule (heading E st)"
    using heading_plain [of st] by (auto simp: is_rule_def list_all_iff)
  moreover have "take 6 (heading E st) \<noteq> DB_MARK_END"
    using h l take_prefix_tab [of 6 l r DB_MARK_END] by (auto simp: DB_MARK_END_def)
  moreover have "\<not> error_line (heading E st)"
    using h l take_prefix_tab [of 22 l r "''Invalid SQL expression''"]
      take_prefix_tab [of 12 l r "''Can'' @ [SQ] @ ''t parse ''"]
    by (auto simp: error_line_def)
  ultimately show ?thesis using h by auto
qed

lemma dashes_wire:
  "take 6 (replicate n CHR ''-'') \<noteq> DB_MARK_END \<and> \<not> error_line (replicate n CHR ''-'')"
  by (cases n) (auto simp: DB_MARK_END_def error_line_def take_Cons' simp del: take_replicate)

lemma trailer_wire:
  "take 6 (trailer n) \<noteq> DB_MARK_END \<and> \<not> error_line (trailer n) \<and> NUL \<notin> set (trailer n)"
  using nat_str_digits [of NUL n]
  by (auto simp: trailer_def DB_MARK_END_def error_line_def)

lemma trailer_size: "n < 10 ^ 9 \<Longrightarrow> length (trailer n) \<le> 16"
  using nat_str_length [of n 9] by (simp add: trailer_def)

text \<open>Every line of the printed result travels as one line and none looks like a marker.\<close>

lemma table_lines_wire:
  assumes "num_fields st \<le> 6" "\<forall>r \<in> set rows. row_ok r" "length rows < 10 ^ 9"
    and "l \<in> set (table_lines E st rows)"
  shows "wire_text l \<and> take 6 l \<noteq> DB_MARK_END \<and> \<not> error_line l"
proof -
  consider "l = heading E st"
    | "l = replicate (length (heading E st) + num_fields st * 4) CHR ''-''"
    | r where "r \<in> set rows" "l = print_row r" | "l = []" | "l = trailer (length rows)"
    using assms(4) by (auto simp: table_lines_def)
  then show ?thesis
  proof cases
    case 1
    then show ?thesis
      using heading_plain [of st] heading_size [of st] heading_query [of st] assms(1)
      by (simp add: DB_BODY_MAX_def)
  next
    case 2
    then show ?thesis
      using heading_size [of st] assms(1) dashes_wire by (auto simp: DB_BODY_MAX_def)
  next
    case 3
    then show ?thesis
      using assms(2) row_ok_wire [of r] by (auto simp: DB_BODY_MAX_def row_ok_def)
  next
    case 4
    then show ?thesis by (simp add: DB_BODY_MAX_def DB_MARK_END_def error_line_def)
  next
    case 5
    then show ?thesis
      using trailer_wire [of "length rows"] trailer_size [OF assms(3)]
      by (simp add: DB_BODY_MAX_def)
  qed
qed

lemma printed_lines_wire:
  assumes "num_fields st \<le> 6" "\<forall>r \<in> set rows. row_ok r" "length rows < 10 ^ 9"
    and "l \<in> set (printed_lines E t st rows)"
  shows "wire_text l \<and> take 6 l \<noteq> DB_MARK_END \<and> \<not> error_line l"
  using assms table_lines_wire [of st rows l] pre_chat [of l t st] post_chat [of l t st]
  by (auto simp: printed_lines_def)

lemma end_marker_printed:
  assumes "num_fields st \<le> 6" "\<forall>r \<in> set rows. row_ok r" "length rows < 10 ^ 9"
  shows "end_marker (printed_lines E t st rows) = DB_MARK_OK"
  using printed_lines_wire [OF assms] by (auto simp: end_marker_def list_ex_iff)

lemma table_size:
  assumes "num_fields st \<le> 6" "\<forall>r \<in> set rows. row_ok r" "length rows < 10 ^ 9"
  shows "text_size (table_lines E st rows) \<le> 201 * length rows + 540"
  using heading_size [of st] assms(1) text_size_rows [OF assms(2)] trailer_size [OF assms(3)]
  by (simp add: table_lines_def)

text \<open>What reaches the caller's buffer reads back as the rows of the result.\<close>

lemma printed_body_reads:
  assumes "num_fields st \<le> 6" "\<forall>r \<in> set rows. row_ok r" "length rows < 10 ^ 9"
    and "201 * length rows + 2588 \<le> cap"
  shows "reads_rows (take (cap - 1) (join_nl (dropWhile (\<lambda>l. l = []) (printed_lines E t st rows)))) rows"
proof -
  let ?pre = "dropWhile (\<lambda>l. l = []) (pre_lines E t st)"
  let ?d = "length (heading E st) + num_fields st * 4"
  have dw: "dropWhile (\<lambda>l. l = []) (printed_lines E t st rows) =
            ?pre @ table_lines E st rows @ post_lines E t st"
    using heading_query [of st]
    by (auto simp: printed_lines_def dropWhile_append table_lines_def)
  have "text_size (?pre @ table_lines E st rows @ post_lines E t st) \<le> cap"
    using table_size [OF assms(1-3)] assms(4) chat_size [of t st]
      text_size_dropWhile [of "\<lambda>l. l = []" "pre_lines E t st"] by simp
  then have "length (join_nl (?pre @ table_lines E st rows @ post_lines E t st)) \<le> cap - 1"
    using length_join_nl [of "?pre @ table_lines E st rows @ post_lines E t st"]
    by (auto simp: table_lines_def)
  moreover have "join_nl (?pre @ table_lines E st rows @ post_lines E t st) =
      reply_body ?pre (heading E st) ?d (map print_row rows) (post_lines E t st)"
    by (simp add: reply_body_def table_lines_def)
  moreover have "reads_rows (reply_body ?pre (heading E st) ?d (map print_row rows) (post_lines E t st)) rows"
    using heading_query [of st] heading_plain [of st] assms(2) pre_chat [of _ t st]
    by (intro reads_rows_reply) (auto simp: list_all_iff dest!: set_dropWhileD)
  ultimately show ?thesis by (simp add: dw)
qed

end

end
