(* ===== verification/Db_Socket.thy ===== *)
theory Db_Socket
  imports Simple_Db
begin

text \<open>
  One connection to the database, \<^verbatim>\<open>src/src/libtetrisdb/socket/socket.c\<close>. The world holds
  the server, a counter of the calls that reach the network (the environment answers each by
  its number), the log sink and the connection of an open transaction, if any. The lemmas
  reduce an exchange to two outcomes: the server's answer arrives whole, or the connection is
  marked failed and the server has seen the statement or not.
\<close>

record conn =
  c_failed :: db_status
  c_buf :: string
  c_evs :: "rd_event list"

record world =
  w_srv :: srv
  w_tick :: nat
  w_log :: "string list"
  w_txn_conn :: "conn option"

definition DB_READY :: string where "DB_READY = ''<<READY>>''"

definition db_socket_open :: "env \<Rightarrow> world \<Rightarrow> conn option \<times> world" where
  "db_socket_open E w =
     (let t = w_tick w; w' = w\<lparr>w_tick := Suc t\<rparr>
      in if \<not> connects E t then (None, w')
         else case db_wire_line 64 [] (reads E t (DB_READY @ [NL])) of
                (WLine l, buf, evs) \<Rightarrow>
                  (if cstr l = DB_READY
                   then (Some \<lparr>c_failed = DB_OK, c_buf = buf, c_evs = evs\<rparr>, w')
                   else (None, w'))
              | _ \<Rightarrow> (None, w'))"

definition send_line :: "env \<Rightarrow> nat \<Rightarrow> string \<Rightarrow> wire_line option" where
  "send_line E t sql =
     (case fst (db_wire_write sql (writes E t sql)) of
        None \<Rightarrow> fst (db_wire_write [NL] (writes E t [NL]))
      | Some r \<Rightarrow> Some r)"

text \<open>A NULL body is \<open>cap = 0\<close>.\<close>

definition db_socket_exec ::
    "env \<Rightarrow> string \<Rightarrow> nat \<Rightarrow> conn \<times> world \<Rightarrow> (db_status \<times> string) \<times> conn \<times> world" where
  "db_socket_exec E sql cap cw =
     (case cw of (c, w) \<Rightarrow>
        if c_failed c \<noteq> DB_OK then ((c_failed c, []), c, w)
        else if NL \<in> set sql \<or> CR \<in> set sql then ((DB_ERROR, []), c, w)
        else let t = w_tick w; w' = w\<lparr>w_tick := Suc t\<rparr>
             in case send_line E t sql of
                  Some r \<Rightarrow>
                    (let st = (if r = WLate then DB_TIMEOUT else DB_IO)
                     in ((st, []), c\<lparr>c_failed := st\<rparr>, w'))
                | None \<Rightarrow>
                    (case process_next_statement E t (w_srv w) sql of
                       (ls, s) \<Rightarrow>
                         (case db_wire_response cap (c_buf c) (c_evs c @ reads E t (lines_bytes ls)) of
                            (st, body, buf, evs) \<Rightarrow>
                              ((st, body),
                               \<lparr>c_failed = (if st = DB_TIMEOUT \<or> st = DB_IO then st else DB_OK),
                                c_buf = buf, c_evs = evs\<rparr>,
                               w'\<lparr>w_srv := s\<rparr>))))"

text \<open>Closing ends the session, and the server aborts what it left open.\<close>

definition db_socket_close :: "conn \<times> world \<Rightarrow> world" where
  "db_socket_close cw = (case cw of (c, w) \<Rightarrow> w\<lparr>w_srv := abort (w_srv w)\<rparr>)"

section \<open>Lemmas\<close>

text \<open>Nothing of an earlier answer is left on a connection in use.\<close>

definition conn_ok :: "conn \<Rightarrow> bool" where
  "conn_ok c \<longleftrightarrow>
     c_failed c = DB_OK \<and>
     (\<exists>es tail. c_evs c = es @ tail \<and> live es \<and> stops tail \<and> c_buf c @ bytes es = [])"

lemma live_append: "live (a @ b) \<longleftrightarrow> live a \<and> live b"
  by (induction a rule: live.induct) auto

lemma bytes_append: "bytes (a @ b) = bytes a @ bytes b"
  by (induction a rule: bytes.induct) auto

lemma stops_append: "stops a \<Longrightarrow> a \<noteq> [] \<Longrightarrow> stops (a @ b)"
  by (cases a rule: stops.cases) auto

context sdb_env
begin

text \<open>The events pending on a connection followed by those of the next answer.\<close>

lemma pending_reads:
  assumes "conn_ok c"
  shows "\<exists>es tail q. c_evs c @ reads E t bs = es @ tail \<and> live es \<and> stops tail \<and>
           (c_buf c @ bytes es) @ q = bs"
proof -
  from assms obtain es1 tail1 where 1: "c_evs c = es1 @ tail1" "live es1" "stops tail1"
    "c_buf c = []" "bytes es1 = []" by (auto simp: conn_ok_def)
  from reads_cut [of t bs] obtain es2 tail2 q where 2: "reads E t bs = es2 @ tail2" "live es2"
    "stops tail2" "bytes es2 @ q = bs" by auto
  show ?thesis
  proof (cases "tail1 = []")
    case True
    with 1 2 show ?thesis
      by (intro exI [of _ "es1 @ es2"] exI [of _ tail2] exI [of _ q])
         (simp add: live_append bytes_append)
  next
    case False
    with 1 2 show ?thesis
      by (intro exI [of _ es1] exI [of _ "tail1 @ es2 @ tail2"] exI [of _ bs])
         (simp add: stops_append)
  qed
qed

lemma response_whole_or_failed:
  assumes "conn_ok c" "\<forall>l \<in> set ls. wire_text l \<and> take 6 l \<noteq> DB_MARK_END"
    and "wire_text m" "take 6 m = DB_MARK_END"
    and "db_wire_response cap (c_buf c) (c_evs c @ reads E t (lines_bytes (ls @ [m]))) = (st, body, buf, evs)"
  shows "(st = classify m \<and> conn_ok \<lparr>c_failed = DB_OK, c_buf = buf, c_evs = evs\<rparr> \<and>
          (0 < cap \<longrightarrow> body = take (cap - 1) (join_nl (dropWhile (\<lambda>l. l = []) ls)))) \<or>
         st = DB_IO \<or> st = DB_TIMEOUT"
proof -
  from pending_reads [OF assms(1), of t "lines_bytes (ls @ [m])"] obtain es tail q where
    p: "c_evs c @ reads E t (lines_bytes (ls @ [m])) = es @ tail" "live es" "stops tail"
    "(c_buf c @ bytes es) @ q = lines_bytes (ls @ [m])" by blast
  show ?thesis
  proof (cases "q = []")
    case True
    with p have b: "c_buf c @ bytes es = lines_bytes (ls @ [m]) @ []" by simp
    from wire_response_from_bytes [OF p(2) assms(2-4) b, of cap "[]" tail] obtain buf' es' where
      "db_wire_response cap (c_buf c) (es @ tail) =
         (classify m, foldl (body_add cap) [] ls, buf', es' @ tail)" "live es'" "buf' @ bytes es' = []"
      by (auto simp: db_wire_response_def)
    with assms(5) p show ?thesis
      using foldl_body_add [of cap "[]" ls] join_body_eq [of ls]
      by (auto simp: conn_ok_def join_body_def)
  next
    case False
    from wire_response_cut [OF p(2,3) assms(2,3) p(4) False, of cap] assms(5) p(1)
    show ?thesis by auto
  qed
qed

lemma response_silent:
  assumes "conn_ok c" "db_wire_response cap (c_buf c) (c_evs c @ reads E t []) = (st, body, buf, evs)"
  shows "st = DB_IO \<or> st = DB_TIMEOUT"
proof -
  from pending_reads [OF assms(1), of t "[]"] obtain es tail q where
    p: "c_evs c @ reads E t [] = es @ tail" "live es" "stops tail" "(c_buf c @ bytes es) @ q = []"
    by blast
  then have "c_buf c @ bytes es = lines_bytes [] @ []" by simp
  from wire_response_from_cut [OF p(2,3) _ this, of cap "[]"] assms(2) p(1) show ?thesis
    by (auto simp: db_wire_response_def)
qed

text \<open>
  An exchange over a connection in use: the server's whole answer is read, or the connection
  is marked failed, with the server having run the statement or not.
\<close>

lemma exec_whole_or_failed:
  assumes "conn_ok c" "NL \<notin> set sql" "CR \<notin> set sql"
    and "process_next_statement E (w_tick w) (w_srv w) sql = (out, s)"
    and "out = [] \<or> (\<exists>ls m. out = ls @ [m] \<and> (\<forall>l \<in> set ls. wire_text l \<and> take 6 l \<noteq> DB_MARK_END) \<and>
           wire_text m \<and> take 6 m = DB_MARK_END)"
    and "db_socket_exec E sql cap (c, w) = ((st, body), c', w')"
  shows "(\<exists>ls m. out = ls @ [m] \<and> st = classify m \<and> conn_ok c' \<and>
            w' = w\<lparr>w_tick := Suc (w_tick w), w_srv := s\<rparr> \<and>
            (0 < cap \<longrightarrow> body = take (cap - 1) (join_nl (dropWhile (\<lambda>l. l = []) ls)))) \<or>
         ((st = DB_IO \<or> st = DB_TIMEOUT) \<and> c_failed c' = st \<and>
          (w' = w\<lparr>w_tick := Suc (w_tick w)\<rparr> \<or> w' = w\<lparr>w_tick := Suc (w_tick w), w_srv := s\<rparr>))"
proof (cases "send_line E (w_tick w) sql")
  case (Some r)
  then show ?thesis
    using assms(1-3,6) by (auto simp: db_socket_exec_def conn_ok_def Let_def split: if_splits)
next
  case None
  obtain st' body' buf evs where r:
    "db_wire_response cap (c_buf c) (c_evs c @ reads E (w_tick w) (lines_bytes out)) = (st', body', buf, evs)"
    by (metis prod_cases4)
  have eq: "st = st'" "body = body'"
    "c' = \<lparr>c_failed = (if st' = DB_TIMEOUT \<or> st' = DB_IO then st' else DB_OK), c_buf = buf, c_evs = evs\<rparr>"
    "w' = w\<lparr>w_tick := Suc (w_tick w), w_srv := s\<rparr>"
    using assms(1-4,6) None r by (auto simp: db_socket_exec_def conn_ok_def Let_def)
  show ?thesis
  proof (cases "out = []")
    case True
    with r response_silent [OF assms(1), of cap "w_tick w" st' body' buf evs]
    have "st' = DB_IO \<or> st' = DB_TIMEOUT" by simp
    with eq show ?thesis by auto
  next
    case False
    with assms(5) obtain ls m where out: "out = ls @ [m]"
      "\<forall>l \<in> set ls. wire_text l \<and> take 6 l \<noteq> DB_MARK_END" "wire_text m" "take 6 m = DB_MARK_END"
      by blast
    have "classify m \<noteq> DB_TIMEOUT" "classify m \<noteq> DB_IO" by (simp_all add: classify_def)
    with response_whole_or_failed [OF assms(1) out(2-4), of cap "w_tick w"] r eq out(1) show ?thesis
      by auto
  qed
qed

end

section \<open>One statement\<close>

fun after :: "env \<Rightarrow> stmt \<Rightarrow> srv \<Rightarrow> srv" where
  "after E SBegin s = s\<lparr>working := Some (committed s)\<rparr>"
| "after E SCommit s = s\<lparr>committed := view s, working := None\<rparr>"
| "after E SRollback s = abort s"
| "after E st s = set_view (update_tables E (view s) st) s"

fun legal :: "stmt \<Rightarrow> srv \<Rightarrow> bool" where
  "legal SBegin s \<longleftrightarrow> working s = None"
| "legal SCommit s \<longleftrightarrow> working s \<noteq> None"
| "legal SRollback s \<longleftrightarrow> working s \<noteq> None"
| "legal _ s \<longleftrightarrow> True"

definition result_ok :: "stmt \<Rightarrow> srv \<Rightarrow> bool" where
  "result_ok st s \<longleftrightarrow>
     length (query_cols st) \<le> 6 \<and> length (query_rows (view s) st) \<le> 64 \<and>
     (\<forall>r \<in> set (query_rows (view s) st). row_ok r)"

abbreviation answer_ok :: "string list \<Rightarrow> bool" where
  "answer_ok out \<equiv>
     out = [] \<or> (\<exists>ls m. out = ls @ [m] \<and> (\<forall>l \<in> set ls. wire_text l \<and> take 6 l \<noteq> DB_MARK_END) \<and>
       wire_text m \<and> take 6 m = DB_MARK_END)"

lemmas mark_defs = DB_MARK_OK_def DB_MARK_RETRY_def DB_MARK_ERROR_def DB_MARK_END_def

lemma marks_wire:
  "wire_text DB_MARK_OK" "wire_text DB_MARK_RETRY" "wire_text DB_MARK_ERROR"
  "take 6 DB_MARK_OK = DB_MARK_END" "take 6 DB_MARK_RETRY = DB_MARK_END"
  "take 6 DB_MARK_ERROR = DB_MARK_END"
  by (simp_all add: mark_defs DB_BODY_MAX_def)

lemma marks_classify [simp]:
  "classify DB_MARK_OK = DB_OK" "classify DB_MARK_RETRY = DB_RETRY" "classify DB_MARK_ERROR = DB_ERROR"
  by (simp_all add: mark_defs classify_def)

lemma answer_okI:
  "\<forall>l \<in> set ls. wire_text l \<and> take 6 l \<noteq> DB_MARK_END \<Longrightarrow>
   m \<in> {DB_MARK_OK, DB_MARK_RETRY, DB_MARK_ERROR} \<Longrightarrow> answer_ok (ls @ [m])"
  using marks_wire by auto

lemma schema_plain:
  "schema t \<noteq> [] \<Longrightarrow> NL \<notin> set t \<and> CR \<notin> set t"
  "(c, ty) \<in> set (schema t) \<Longrightarrow> NL \<notin> set c \<and> CR \<notin> set c"
  by (auto simp: schema_def table_names split: if_splits)

lemma set_join_with:
  "x \<in> set (join_with sep xs) \<Longrightarrow> x \<in> set sep \<or> (\<exists>y \<in> set xs. x \<in> set y)"
  by (induction sep xs rule: join_with.induct) auto

lemma val_text_plain: "val_clean v \<Longrightarrow> NL \<notin> set (val_text v) \<and> CR \<notin> set (val_text v)"
  by (cases v) (auto dest: clean_string_facts)

lemma where_text_plain:
  assumes "conds_ok t cs" "list_all (val_clean \<circ> snd) cs"
  shows "NL \<notin> set (where_text cs) \<and> CR \<notin> set (where_text cs)"
proof -
  have "NL \<notin> set (c @ '' = '' @ val_text v) \<and> CR \<notin> set (c @ '' = '' @ val_text v)"
    if "(c, v) \<in> set cs" for c v
  proof -
    from assms that obtain ty where "map_of (schema t) c = Some ty" "val_clean v"
      by (fastforce simp: conds_ok_def list_all_iff split: option.splits)
    then show ?thesis using schema_plain(2) [of c ty t] val_text_plain [of v] map_of_SomeD by fastforce
  qed
  then have "\<forall>y \<in> set (map (\<lambda>(c, v). c @ '' = '' @ val_text v) cs). NL \<notin> set y \<and> CR \<notin> set y"
    by auto
  then show ?thesis unfolding where_text_def by (auto dest!: set_join_with)
qed

lemma clean_text_plain:
  assumes "stmt_clean st"
  shows "NL \<notin> set (sql_text st) \<and> CR \<notin> set (sql_text st)"
proof (cases st)
  case (SInsert t vs)
  with assms show ?thesis
    using schema_plain(1) [of t] val_text_plain by (auto simp: list_all_iff dest!: set_join_with)
next
  case (SDelete t cs)
  with assms show ?thesis using schema_plain(1) [of t] where_text_plain [of t cs] by simp
next
  case (SSelect cols t cs)
  with assms have "schema t \<noteq> []" by (cases cols) auto
  moreover have "\<forall>c \<in> set cols. NL \<notin> set c \<and> CR \<notin> set c"
    using SSelect assms schema_plain(2) [of _ _ t] by (fastforce simp: list_all_iff)
  ultimately show ?thesis
    using SSelect assms schema_plain(1) [of t] where_text_plain [of t cs]
    by (auto dest!: set_join_with)
next
  case (SMax c t)
  with assms have "schema t \<noteq> []" by auto
  with SMax assms show ?thesis using schema_plain(1) [of t] schema_plain(2) [of c CInt t] by auto
qed simp_all

context sdb_env
begin

lemma chat_answer:
  "answer_ok (err_lines E t @ [DB_MARK_RETRY])" "answer_ok (err_lines E t @ [DB_MARK_ERROR])"
  "answer_ok (pre_lines E t st @ post_lines E t st @ [DB_MARK_OK])"
  using err_chat [of _ t] pre_chat [of _ t st] post_chat [of _ t st]
    answer_okI [of "err_lines E t"] answer_okI [of "pre_lines E t st @ post_lines E t st" DB_MARK_OK]
  by auto

lemma touched_range: "int32_ok (touched T st)"
  using wrap32_range by (cases st) auto

lemma row_ok_count:
  assumes "int32_ok n"
  shows "row_ok [VInt n]"
  using int_str_length [OF assms] assms by (simp add: row_ok_def print_row_def)

text \<open>What the server answers to a clean statement, and where that leaves its tables.\<close>

lemma process_cases:
  assumes "stmt_clean st" "result_ok st s"
    and "process_next_statement E t s (sql_text st) = (out, s')"
  shows "answer_ok out"
    and "(fate_of E t = Runs \<longrightarrow> legal st s \<longrightarrow> out \<noteq> [] \<and> classify (last out) = DB_OK) \<and>
         (out = [] \<longrightarrow> s' = abort s) \<and>
         (out \<noteq> [] \<longrightarrow>
           (classify (last out) = DB_OK \<and> legal st s \<and> s' = after E st s \<and>
             (is_query st \<longrightarrow> butlast out = printed_lines E t st (query_rows (view s) st))) \<or>
           (classify (last out) = DB_RETRY \<and> s' = abort s) \<or>
           (classify (last out) = DB_ERROR \<and> s' \<in> {s, abort s}))"
proof -
  have z: "zql E (sql_text st) = Some st" using assms(1) by (rule zql_reads)
  have ty: "stmt_types_ok st" using assms(1) by (cases st) auto
  let ?ls = "printed_lines E t st (shown_rows (view s) st)"
  have rows: "length (shown_rows (view s) st) < 10 ^ 9" "\<forall>r \<in> set (shown_rows (view s) st). row_ok r"
    "num_fields st \<le> 6"
    using assms(2) row_ok_count [of "touched (view s) st"] touched_range [of "view s" st]
    by (auto simp: result_ok_def shown_rows_def num_fields_def)
  have ls: "\<forall>l \<in> set ?ls. wire_text l \<and> take 6 l \<noteq> DB_MARK_END" "end_marker ?ls = DB_MARK_OK"
    using printed_lines_wire [OF rows(3,2,1)] end_marker_printed [OF rows(3,2,1)] by blast+
  note proc = assms(3) [unfolded process_next_statement_def z, simplified]
  show "answer_ok out"
    using proc ty ls chat_answer [of t] chat_answer(3) [of t st] answer_okI [OF ls(1), of DB_MARK_OK]
    by (auto simp: transact_statement_def is_transact_def Let_def split: if_splits stmt.splits option.splits fate.splits)
  show "(fate_of E t = Runs \<longrightarrow> legal st s \<longrightarrow> out \<noteq> [] \<and> classify (last out) = DB_OK) \<and>
         (out = [] \<longrightarrow> s' = abort s) \<and>
         (out \<noteq> [] \<longrightarrow>
           (classify (last out) = DB_OK \<and> legal st s \<and> s' = after E st s \<and>
             (is_query st \<longrightarrow> butlast out = printed_lines E t st (query_rows (view s) st))) \<or>
           (classify (last out) = DB_RETRY \<and> s' = abort s) \<or>
           (classify (last out) = DB_ERROR \<and> s' \<in> {s, abort s}))"
    using proc ty ls(2)
    by (cases st)
       (auto simp: transact_statement_def is_transact_def is_query_def shown_rows_def view_def Let_def split: if_splits option.splits fate.splits)
qed

text \<open>
  One clean statement over a connection in use. The world changes in the counter and the
  server only. On anything but \<^const>\<open>DB_OK\<close> an open transaction is gone or will be when the
  connection is closed, so \<^const>\<open>committed\<close> is as before unless the statement was a commit
  or ran outside a transaction.
\<close>

lemma exec_stmt_cases:
  assumes "conn_ok c" "stmt_clean st" "result_ok st (w_srv w)"
    and "db_socket_exec E (sql_text st) cap (c, w) = ((status, body), c', w')"
  shows "\<exists>s'. w' = w\<lparr>w_tick := Suc (w_tick w), w_srv := s'\<rparr> \<and>
     ((status = DB_OK \<and> conn_ok c' \<and> legal st (w_srv w) \<and> s' = after E st (w_srv w) \<and>
        (is_query st \<longrightarrow> 15452 \<le> cap \<longrightarrow> reads_rows body (query_rows (view (w_srv w)) st)) \<and>
        (is_query st \<longrightarrow> 4096 \<le> cap \<longrightarrow> length (query_rows (view (w_srv w)) st) \<le> 1 \<longrightarrow>
           reads_rows body (query_rows (view (w_srv w)) st))) \<or>
      (status \<in> {DB_RETRY, DB_ERROR} \<and> conn_ok c' \<and> s' \<in> {w_srv w, abort (w_srv w)} \<and>
        (status = DB_RETRY \<longrightarrow> s' = abort (w_srv w))) \<or>
      (status \<in> {DB_IO, DB_TIMEOUT} \<and> c_failed c' = status \<and>
        s' \<in> {w_srv w, abort (w_srv w), after E st (w_srv w)}))"
proof -
  obtain out s' where pr: "process_next_statement E (w_tick w) (w_srv w) (sql_text st) = (out, s')"
    by fastforce
  note pc = process_cases [OF assms(2,3) pr]
  note ef = exec_whole_or_failed [OF assms(1) conjunct1 [OF clean_text_plain [OF assms(2)]]
      conjunct2 [OF clean_text_plain [OF assms(2)]] pr pc(1) assms(4)]
  let ?rows = "query_rows (view (w_srv w)) st"
  have body: "reads_rows (take (cap - 1) (join_nl (dropWhile (\<lambda>l. l = []) (printed_lines E (w_tick w) st ?rows)))) ?rows"
    if "is_query st" "201 * length ?rows + 2588 \<le> cap"
    using printed_body_reads [OF _ _ _ that(2), of st] assms(3) that(1) by (simp add: result_ok_def num_fields_def)
  from ef show ?thesis
  proof (elim disjE)
    assume "\<exists>ls m. out = ls @ [m] \<and> status = classify m \<and> conn_ok c' \<and>
              w' = w\<lparr>w_tick := Suc (w_tick w), w_srv := s'\<rparr> \<and>
              (0 < cap \<longrightarrow> body = take (cap - 1) (join_nl (dropWhile (\<lambda>l. l = []) ls)))"
    then obtain ls m where *: "out = ls @ [m]" "status = classify m" "conn_ok c'"
      "w' = w\<lparr>w_tick := Suc (w_tick w), w_srv := s'\<rparr>"
      "0 < cap \<longrightarrow> body = take (cap - 1) (join_nl (dropWhile (\<lambda>l. l = []) ls))" by blast
    with pc(2) have "(status = DB_OK \<and> legal st (w_srv w) \<and> s' = after E st (w_srv w) \<and>
        (is_query st \<longrightarrow> ls = printed_lines E (w_tick w) st ?rows)) \<or>
        (status = DB_RETRY \<and> s' = abort (w_srv w)) \<or>
        (status = DB_ERROR \<and> s' \<in> {w_srv w, abort (w_srv w)})" by simp
    with * body assms(3) show ?thesis
      by (intro exI [of _ s']) (auto simp: result_ok_def)
  next
    assume f: "(status = DB_IO \<or> status = DB_TIMEOUT) \<and> c_failed c' = status \<and>
      (w' = w\<lparr>w_tick := Suc (w_tick w)\<rparr> \<or> w' = w\<lparr>w_tick := Suc (w_tick w), w_srv := s'\<rparr>)"
    have s': "s' \<in> {w_srv w, abort (w_srv w), after E st (w_srv w)}"
      using pc(2) by auto
    from f consider "w' = w\<lparr>w_tick := Suc (w_tick w)\<rparr>" | "w' = w\<lparr>w_tick := Suc (w_tick w), w_srv := s'\<rparr>"
      by blast
    then show ?thesis
    proof cases
      case 1
      with f show ?thesis by (intro exI [of _ "w_srv w"]) auto
    next
      case 2
      with f s' show ?thesis by (intro exI [of _ s']) auto
    qed
  qed
qed

lemma db_socket_open_cases:
  assumes "db_socket_open E w = (oc, w')"
  shows "w' = w\<lparr>w_tick := Suc (w_tick w)\<rparr>" "oc = Some c \<Longrightarrow> conn_ok c"
proof -
  let ?r = "db_wire_line 64 [] (reads E (w_tick w) (DB_READY @ [NL]))"
  show "w' = w\<lparr>w_tick := Suc (w_tick w)\<rparr>"
    using assms by (auto simp: db_socket_open_def Let_def split: if_splits prod.splits wire_line.splits)
  assume c: "oc = Some c"
  then obtain l buf evs where l: "?r = (WLine l, buf, evs)" "c = \<lparr>c_failed = DB_OK, c_buf = buf, c_evs = evs\<rparr>"
    using assms by (auto simp: db_socket_open_def Let_def split: if_splits prod.splits wire_line.splits)
  from reads_cut [of "w_tick w" "DB_READY @ [NL]"] obtain es tail q where
    p: "reads E (w_tick w) (DB_READY @ [NL]) = es @ tail" "live es" "stops tail"
    "bytes es @ q = DB_READY @ [NL]" by blast
  have nl: "NL \<notin> set DB_READY" by (simp add: DB_READY_def)
  show "conn_ok c"
  proof (cases "NL \<in> set (bytes es)")
    case True
    with p(4) nl split_at_sep [of "bytes es" q DB_READY NL "[]"] have "[] @ bytes es = DB_READY @ NL # []"
      by auto
    from wire_line_bytes [OF p(2) nl this, of 64 "[]" tail] l p(1) show ?thesis
      using p(3) by (auto simp: db_wire_line_def conn_ok_def)
  next
    case False
    with wire_line_cut [OF p(2,3), of "[]" 64 "[]"] l p(1) show ?thesis
      by (simp add: db_wire_line_def)
  qed
qed

end

section \<open>Calls without faults\<close>

text \<open>A call the network and the server answer without interference.\<close>

definition calm_at :: "env \<Rightarrow> nat \<Rightarrow> bool" where
  "calm_at E t \<longleftrightarrow>
     connects E t \<and> fate_of E t = Runs \<and>
     (\<forall>bs. fst (db_wire_write bs (writes E t bs)) = None) \<and>
     (\<forall>bs. live (reads E t bs) \<and> bytes (reads E t bs) = bs)"

definition conn_calm :: "conn \<Rightarrow> bool" where
  "conn_calm c \<longleftrightarrow> c_failed c = DB_OK \<and> live (c_evs c) \<and> c_buf c @ bytes (c_evs c) = []"

lemma conn_calm_ok: "conn_calm c \<Longrightarrow> conn_ok c"
  by (simp add: conn_calm_def conn_ok_def) (rule exI [of _ "c_evs c"], rule exI [of _ "[]"], simp)

lemma open_calm:
  assumes "calm_at E (w_tick w)"
  shows "\<exists>c. db_socket_open E w = (Some c, w\<lparr>w_tick := Suc (w_tick w)\<rparr>) \<and> conn_calm c"
proof -
  have nl: "NL \<notin> set DB_READY" "cstr DB_READY = DB_READY" "take 63 DB_READY = DB_READY"
    by (simp_all add: DB_READY_def cstr_def)
  from assms have "live (reads E (w_tick w) (DB_READY @ [NL]))"
    "[] @ bytes (reads E (w_tick w) (DB_READY @ [NL])) = DB_READY @ NL # []"
    by (simp_all add: calm_at_def)
  from wire_line_bytes [OF this(1) nl(1) this(2), of 64 "[]" "[]"] assms nl show ?thesis
    by (auto simp: db_socket_open_def db_wire_line_def calm_at_def conn_calm_def Let_def)
qed

context sdb_env
begin

lemma exec_stmt_calm:
  assumes "calm_at E (w_tick w)" "conn_calm c" "stmt_clean st" "result_ok st (w_srv w)" "legal st (w_srv w)"
    and "db_socket_exec E (sql_text st) cap (c, w) = ((status, body), c', w')"
  shows "status = DB_OK \<and> conn_calm c'"
proof -
  obtain out s' where pr: "process_next_statement E (w_tick w) (w_srv w) (sql_text st) = (out, s')"
    by fastforce
  from process_cases [OF assms(3,4) pr] assms(1,5) obtain ls m where out: "out = ls @ [m]"
    "\<forall>l \<in> set ls. wire_text l \<and> take 6 l \<noteq> DB_MARK_END" "wire_text m" "take 6 m = DB_MARK_END"
    "classify m = DB_OK"
    by (auto simp: calm_at_def)
  have "send_line E (w_tick w) (sql_text st) = None"
    using assms(1) by (simp add: calm_at_def send_line_def)
  moreover have "live (c_evs c @ reads E (w_tick w) (lines_bytes out))"
    "c_buf c @ bytes (c_evs c @ reads E (w_tick w) (lines_bytes out)) = lines_bytes (ls @ [m]) @ []"
    using assms(1,2) out(1) by (auto simp: calm_at_def conn_calm_def live_append bytes_append)
  from wire_response_from_bytes [OF this(1) out(2-4) this(2), of cap "[]" "[]"] obtain buf' es' where
    "db_wire_response cap (c_buf c) (c_evs c @ reads E (w_tick w) (lines_bytes out)) =
       (DB_OK, foldl (body_add cap) [] ls, buf', es')" "live es'" "buf' @ bytes es' = []"
    using out(5) by (auto simp: db_wire_response_def)
  ultimately show ?thesis
    using assms(2,6) pr clean_text_plain [OF assms(3)]
    by (auto simp: db_socket_exec_def conn_calm_def Let_def)
qed

end

end
