(* ===== verification/Ref_Env.thy ===== *)
theory Ref_Env
  imports Db_Socket
begin

text \<open>
  One concrete environment that keeps every law of \<open>sdb_env\<close>: a parser for the statements
  \<^verbatim>\<open>libballotbrain\<close> sends, tables that grow at the end, a result printed without plan text, a
  network that delivers every byte, and a plan of faults as a parameter. It shows that the laws
  can hold together and lets the properties be applied at concrete inputs; no lemma about the
  program depends on it.
\<close>

section \<open>A parser for the statements sent\<close>

definition is_word :: "char \<Rightarrow> bool" where
  "is_word c \<longleftrightarrow> (97 \<le> (of_char c :: nat) \<and> of_char c \<le> (122 :: nat)) \<or> c = CHR ''_''"

definition eat :: "string \<Rightarrow> string \<Rightarrow> string option" where
  "eat p s = (if take (length p) s = p then Some (drop (length p) s) else None)"

definition word_at :: "string \<Rightarrow> string \<times> string" where
  "word_at s = (takeWhile is_word s, dropWhile is_word s)"

definition val_at :: "string \<Rightarrow> sval \<times> string" where
  "val_at s =
     (case s of
        [] \<Rightarrow> (VInt 0, [])
      | c # r \<Rightarrow>
          if c = SQ then (VStr (takeWhile (\<lambda>c. c \<noteq> SQ) r), tl (dropWhile (\<lambda>c. c \<noteq> SQ) r))
          else (VInt (int (digits_val (takeWhile is_digit s))), dropWhile is_digit s))"

definition cond_at :: "string \<Rightarrow> (string \<times> sval) \<times> string" where
  "cond_at s = (case word_at s of (c, r) \<Rightarrow>
     (case val_at (drop 3 r) of (v, r) \<Rightarrow> ((c, v), r)))"

text \<open>Items separated by \<open>sep\<close>; the first argument bounds their number.\<close>

fun items_at :: "nat \<Rightarrow> string \<Rightarrow> (string \<Rightarrow> 'a \<times> string) \<Rightarrow> string \<Rightarrow> 'a list \<times> string" where
  "items_at 0 sep item s = ([], s)"
| "items_at (Suc n) sep item s =
     (case item s of (x, r) \<Rightarrow>
        (case eat sep r of
           None \<Rightarrow> ([x], r)
         | Some r' \<Rightarrow> (case items_at n sep item r' of (xs, r'') \<Rightarrow> (x # xs, r''))))"

definition conds_at :: "string \<Rightarrow> (string \<times> sval) list option" where
  "conds_at s =
     (case eat '' where '' s of
        None \<Rightarrow> if s = '';'' then Some [] else None
      | Some r \<Rightarrow> (case items_at (length r) '' and '' cond_at r of
                     (cs, r') \<Rightarrow> if r' = '';'' then Some cs else None))"

definition parse_insert :: "string \<Rightarrow> stmt option" where
  "parse_insert s = (case word_at s of (t, r) \<Rightarrow>
     (case eat '' values ('' r of
        None \<Rightarrow> None
      | Some r \<Rightarrow> (case items_at (length r) '', '' val_at r of
                     (vs, r') \<Rightarrow> if r' = '');'' then Some (SInsert t vs) else None)))"

definition parse_delete :: "string \<Rightarrow> stmt option" where
  "parse_delete s = (case word_at s of (t, r) \<Rightarrow> map_option (SDelete t) (conds_at r))"

definition parse_max :: "string \<Rightarrow> stmt option" where
  "parse_max s = (case word_at s of (c, r) \<Rightarrow>
     (case eat '') from '' r of
        None \<Rightarrow> None
      | Some r \<Rightarrow> (case word_at r of (t, r) \<Rightarrow> if r = '';'' then Some (SMax c t) else None)))"

definition parse_select :: "string \<Rightarrow> stmt option" where
  "parse_select s = (case items_at (length s) '', '' word_at s of (cols, r) \<Rightarrow>
     (case eat '' from '' r of
        None \<Rightarrow> None
      | Some r \<Rightarrow> (case word_at r of (t, r) \<Rightarrow> map_option (SSelect cols t) (conds_at r))))"

definition parse_stmt :: "string \<Rightarrow> stmt option" where
  "parse_stmt s =
     (if s = ''set transaction read write;'' then Some SBegin
      else if s = ''commit;'' then Some SCommit
      else if s = ''rollback;'' then Some SRollback
      else case eat ''insert into '' s of
        Some r \<Rightarrow> parse_insert r
      | None \<Rightarrow>
          (case eat ''delete from '' s of
             Some r \<Rightarrow> parse_delete r
           | None \<Rightarrow>
               (case eat ''select max('' s of
                  Some r \<Rightarrow> parse_max r
                | None \<Rightarrow>
                    (case eat ''select '' s of
                       Some r \<Rightarrow> parse_select r
                     | None \<Rightarrow> None))))"

section \<open>The environment\<close>

definition ref_env :: "(nat \<Rightarrow> fate) \<Rightarrow> env" where
  "ref_env f = \<lparr>
     zql = parse_stmt,
     place = (\<lambda>r rs. rs @ [r]),
     fate_of = f,
     pre_lines = (\<lambda>_ _. []),
     post_lines = (\<lambda>_ _. []),
     err_lines = (\<lambda>_. []),
     col_label = (\<lambda>t c. take 40 (filter is_word c)),
     connects = (\<lambda>_. True),
     writes = (\<lambda>_ bs. [Took (length bs)]),
     reads = (\<lambda>_ bs. if bs = [] then [] else [Data bs])\<rparr>"

section \<open>The parser reads back every clean statement\<close>

lemma eat_self [simp]: "eat p (p @ s) = Some s"
  by (simp add: eat_def)

lemma eat_differs: "s = x # r \<Longrightarrow> p = y # q \<Longrightarrow> x \<noteq> y \<Longrightarrow> eat p s = None"
  by (simp add: eat_def)

text \<open>Where a word or a number ends.\<close>

definition stop :: "string \<Rightarrow> bool" where
  "stop s \<longleftrightarrow> s = [] \<or> (\<not> is_word (hd s) \<and> \<not> is_digit (hd s))"

lemma word_at_word: "list_all is_word w \<Longrightarrow> stop r \<Longrightarrow> word_at (w @ r) = (w, r)"
  by (cases r) (auto simp: word_at_def stop_def list_all_iff takeWhile_append dropWhile_append)

lemma val_at_text:
  assumes "val_clean v" "stop r"
  shows "val_at (val_text v @ r) = (v, r)"
proof (cases v)
  case (VInt i)
  with assms have i: "int_str i = nat_str (nat i)" by (simp add: int_str_def)
  obtain c cs where c: "nat_str (nat i) = c # cs" using nat_str_nonempty by (meson neq_Nil_conv)
  then have "is_digit c" using nat_str_digits [of c "nat i"] by simp
  then have "c \<noteq> SQ" by (auto simp: is_digit_def)
  moreover have "takeWhile is_digit (nat_str (nat i) @ r) = nat_str (nat i)"
    "dropWhile is_digit (nat_str (nat i) @ r) = r"
    using assms(2) by (cases r; auto simp: stop_def takeWhile_append dropWhile_append)+
  ultimately show ?thesis
    using VInt assms(1) c i digits_val_nat_str [of "nat i"] by (simp add: val_at_def)
next
  case (VStr s)
  with assms(1) have "SQ \<notin> set s" using clean_string_facts [of s] by simp
  with VStr show ?thesis by (auto simp: val_at_def takeWhile_append dropWhile_append)
qed

lemma cond_at_text:
  assumes "list_all is_word c" "val_clean v" "stop r"
  shows "cond_at ((c @ '' = '' @ val_text v) @ r) = ((c, v), r)"
proof -
  have "word_at (c @ '' = '' @ val_text v @ r) = (c, '' = '' @ val_text v @ r)"
    by (rule word_at_word [OF assms(1)]) (simp add: stop_def is_word_def is_digit_def)
  with val_at_text [OF assms(2,3)] show ?thesis by (simp add: cond_at_def)
qed

lemma items_at_join:
  assumes "\<And>x r. x \<in> set xs \<Longrightarrow> stop r \<Longrightarrow> item (txt x @ r) = (x, r)"
    and "xs \<noteq> []" "stop r" "eat sep r = None" "\<And>r. stop (sep @ r)" "length xs \<le> n"
  shows "items_at n sep item (join_with sep (map txt xs) @ r) = (xs, r)"
  using assms(2,1,6)
proof (induction xs arbitrary: n rule: list_nonempty_induct)
  case (single x)
  then show ?case using assms(3,4) by (cases n) auto
next
  case (cons x xs)
  then obtain m where m: "n = Suc m" "length xs \<le> m" by (cases n) auto
  from cons.hyps obtain y ys where xs: "xs = y # ys" by (cases xs) auto
  have "items_at m sep item (join_with sep (map txt xs) @ r) = (xs, r)"
    using cons m by auto
  moreover have "item (txt x @ sep @ join_with sep (map txt xs) @ r) = (x, sep @ join_with sep (map txt xs) @ r)"
    by (rule cons.prems(1)) (simp_all add: assms(5))
  ultimately show ?case unfolding m(1) xs by simp
qed

lemma join_with_length: "sep \<noteq> [] \<Longrightarrow> length xs \<le> Suc (length (join_with sep xs))"
proof (induction sep xs rule: join_with.induct)
  case (3 sep x y ys)
  then show ?case by (cases sep) auto
qed auto

lemma items_at_text:
  assumes "\<And>x r. x \<in> set xs \<Longrightarrow> stop r \<Longrightarrow> item (txt x @ r) = (x, r)"
    and "xs \<noteq> []" "stop r" "eat sep r = None" "\<And>r. stop (sep @ r)" "sep \<noteq> []" "r \<noteq> []"
  shows "items_at (length (join_with sep (map txt xs) @ r)) sep item (join_with sep (map txt xs) @ r) = (xs, r)"
proof (rule items_at_join [OF assms(1-5)])
  have "length xs \<le> Suc (length (join_with sep (map txt xs)))"
    using join_with_length [OF assms(6), of "map txt xs"] by simp
  moreover have "Suc 0 \<le> length r" using assms(7) by (cases r) simp_all
  ultimately show "length xs \<le> length (join_with sep (map txt xs) @ r)" by simp
qed

lemma stop_Cons [simp]: "stop (c # s) \<longleftrightarrow> \<not> is_word c \<and> \<not> is_digit c"
  by (simp add: stop_def)

lemma stop_seps:
  "stop ('', '' @ r)" "stop ('' and '' @ r)" "stop '';''" "stop '');''" "stop ('' where '' @ r)"
  "stop ('' values ('' @ r)" "stop ('' from '' @ r)" "stop ('') from '' @ r)"
  by (simp_all add: stop_def is_word_def is_digit_def)

lemma schema_words:
  "schema t \<noteq> [] \<Longrightarrow> list_all is_word t"
  "(c, ty) \<in> set (schema t) \<Longrightarrow> list_all is_word c \<and> c \<noteq> [] \<and> hd c \<noteq> CHR ''m''"
  by (auto simp: schema_def table_names is_word_def split: if_splits)

lemma conds_at_text:
  assumes "conds_ok t cs" "list_all (val_clean \<circ> snd) cs"
  shows "conds_at (where_text cs @ '';'') = Some cs" "stop (where_text cs @ '';'')"
proof -
  show "stop (where_text cs @ '';'')" by (simp add: where_text_def is_word_def is_digit_def)
  show "conds_at (where_text cs @ '';'') = Some cs"
  proof (cases "cs = []")
    case True
    then show ?thesis by (simp add: conds_at_def where_text_def eat_def)
  next
    case False
    let ?txt = "\<lambda>(c, v). c @ '' = '' @ val_text v"
    have "cond_at (?txt x @ r) = (x, r)" if x: "x \<in> set cs" and r: "stop r" for x r
    proof (cases x)
      case (Pair c v)
      from assms x Pair obtain ty where "map_of (schema t) c = Some ty" "val_clean v"
        by (fastforce simp: conds_ok_def list_all_iff split: option.splits)
      with schema_words(2) [of c ty t] r Pair show ?thesis
        using cond_at_text [of c v r] by (auto dest: map_of_SomeD)
    qed
    then have i: "items_at (length (join_with '' and '' (map ?txt cs) @ '';'')) '' and '' cond_at
        (join_with '' and '' (map ?txt cs) @ '';'') = (cs, '';'')"
      using False by (intro items_at_text) (simp_all add: eat_def is_word_def is_digit_def)
    have w: "where_text cs @ '';'' = '' where '' @ (join_with '' and '' (map ?txt cs) @ '';'')"
      using False unfolding where_text_def by simp
    show ?thesis unfolding conds_at_def w eat_self option.case i by simp
  qed
qed

lemma parse_insert_text:
  assumes "stmt_clean (SInsert t vs)"
  shows "parse_insert (t @ '' values ('' @ join_with '', '' (map val_text vs) @ '');'') = Some (SInsert t vs)"
proof -
  from assms have t: "schema t \<noteq> []" "list_all2 type_ok (map snd (schema t)) vs" "list_all val_clean vs" by simp_all
  then have "vs \<noteq> []" by auto
  have "val_at (val_text v @ r) = (v, r)" if "v \<in> set vs" "stop r" for v r
    using that t(3) val_at_text by (auto simp: list_all_iff)
  then have i: "items_at (length (join_with '', '' (map val_text vs) @ '');'')) '', '' val_at
      (join_with '', '' (map val_text vs) @ '');'') = (vs, '');'')"
    using \<open>vs \<noteq> []\<close> by (intro items_at_text) (simp_all add: eat_def is_word_def is_digit_def)
  have w: "word_at (t @ '' values ('' @ join_with '', '' (map val_text vs) @ '');'') =
      (t, '' values ('' @ join_with '', '' (map val_text vs) @ '');'')"
    using schema_words(1) [OF t(1)] by (intro word_at_word) (simp_all only: stop_seps)
  show ?thesis unfolding parse_insert_def w prod.case eat_self option.case i by simp
qed

lemma parse_delete_text:
  assumes "stmt_clean (SDelete t cs)"
  shows "parse_delete (t @ where_text cs @ '';'') = Some (SDelete t cs)"
  using assms conds_at_text [of t cs] word_at_word [OF schema_words(1), of t "where_text cs @ '';''"]
  by (simp add: parse_delete_def)

lemma parse_max_text:
  assumes "stmt_clean (SMax c t)"
  shows "parse_max (c @ '') from '' @ t @ '';'') = Some (SMax c t)"
proof -
  from assms have c: "(c, CInt) \<in> set (schema t)" "schema t \<noteq> []" by auto
  have w: "word_at (c @ '') from '' @ t @ '';'') = (c, '') from '' @ t @ '';'')"
    using schema_words(2) [OF c(1)] by (intro word_at_word) (simp_all only: stop_seps)
  have w2: "word_at (t @ '';'') = (t, '';'')"
    using schema_words(1) [OF c(2)] by (intro word_at_word) (simp_all only: stop_seps)
  show ?thesis unfolding parse_max_def w prod.case eat_self option.case w2 by simp
qed

lemma parse_select_text:
  assumes "stmt_clean (SSelect cols t cs)"
  shows "parse_select (join_with '', '' cols @ '' from '' @ t @ where_text cs @ '';'') = Some (SSelect cols t cs)"
proof -
  let ?rest = "'' from '' @ t @ where_text cs @ '';''"
  from assms have t: "cols \<noteq> []" "\<forall>c \<in> set cols. c \<in> fst ` set (schema t)" "conds_ok t cs"
    "list_all (val_clean \<circ> snd) cs" by (simp_all add: list_all_iff)
  then have ne: "schema t \<noteq> []" by (cases cols) auto
  have "word_at (id c @ r) = (c, r)" if "c \<in> set cols" "stop r" for c r
    using that t(2) schema_words(2) [of c _ t] word_at_word [of c r] by fastforce
  then have "items_at (length (join_with '', '' (map id cols) @ ?rest)) '', '' word_at
      (join_with '', '' (map id cols) @ ?rest) = (cols, ?rest)"
    using t(1) by (intro items_at_text) (simp_all add: eat_def is_word_def is_digit_def)
  then have i: "items_at (length (join_with '', '' cols @ ?rest)) '', '' word_at (join_with '', '' cols @ ?rest) =
      (cols, ?rest)" unfolding list.map_id .
  have w: "word_at (t @ where_text cs @ '';'') = (t, where_text cs @ '';'')"
    using schema_words(1) [OF ne] conds_at_text(2) [OF t(3,4)] by (rule word_at_word)
  show ?thesis
    unfolding parse_select_def i prod.case eat_self option.case w conds_at_text(1) [OF t(3,4)] by simp
qed

lemma select_not_max:
  assumes "stmt_clean (SSelect cols t cs)"
  shows "eat ''select max('' (''select '' @ join_with '', '' cols @ r) = None"
proof -
  from assms obtain c cols' where c: "cols = c # cols'" "c \<in> fst ` set (schema t)" by (cases cols) auto
  then obtain x xs where "c = x # xs" "x \<noteq> CHR ''m''"
    using schema_words(2) [of c _ t] by (cases c) fastforce+
  with c(1) show ?thesis by (cases cols') (simp_all add: eat_def)
qed

lemma parse_stmt_text:
  assumes "stmt_clean st"
  shows "parse_stmt (sql_text st) = Some st"
proof (cases st)
  case (SInsert t vs)
  then show ?thesis using parse_insert_text [of t vs] assms eat_self [of "''insert into ''"]
    by (simp add: parse_stmt_def)
next
  case (SDelete t cs)
  then show ?thesis using parse_delete_text [of t cs] assms eat_self [of "''delete from ''"]
    by (simp add: parse_stmt_def eat_differs [of _ "CHR ''d''"])
next
  case (SSelect cols t cs)
  then show ?thesis
    using parse_select_text [of cols t cs] select_not_max [of cols t cs] assms eat_self [of "''select ''"]
    by (simp add: parse_stmt_def eat_differs [of _ "CHR ''s''"])
next
  case (SMax c t)
  then show ?thesis using parse_max_text [of c t] assms eat_self [of "''select max(''"]
    by (simp add: parse_stmt_def eat_differs [of _ "CHR ''s''"])
qed (simp_all add: parse_stmt_def)

lemma word_label: "list_all is_word (take 40 (filter is_word c))"
  by (auto simp: list_all_iff dest: in_set_takeD)

interpretation ref: sdb_env "ref_env f" for f
proof
  have l: "list_all is_word (col_label (ref_env f) tb c)" for tb c
    by (simp add: ref_env_def word_label)
  fix tb c
  show "take 6 (col_label (ref_env f) tb c) \<noteq> DB_MARK_END" "\<not> error_line (col_label (ref_env f) tb c)"
    using l [of tb c]
    by (cases "col_label (ref_env f) tb c"; auto simp: DB_MARK_END_def error_line_def is_word_def)+
  show "x \<noteq> NL \<and> x \<noteq> NUL" if "x \<in> set (col_label (ref_env f) tb c)" for x
    using l [of tb c] that by (auto simp: list_all_iff is_word_def)
  fix t bs
  show "\<exists>es tail q. reads (ref_env f) t bs = es @ tail \<and> live es \<and> stops tail \<and> bytes es @ q = bs"
    by (intro exI [of _ "reads (ref_env f) t bs"] exI [of _ "[]"]) (simp add: ref_env_def)
qed (simp_all add: ref_env_def parse_stmt_text)

lemma ref_env_calm: "calm_at (ref_env (\<lambda>_. Runs)) t"
proof -
  have "fst (db_wire_write bs [Took (length bs)]) = None" for bs by (cases bs) simp_all
  then show ?thesis by (simp add: calm_at_def ref_env_def)
qed

end
