(* ===== verification/Brain_Types.thy ===== *)
theory Brain_Types
  imports Simple_Db "HOL-Library.State_Monad"
begin

text \<open>
  The domain model of \<^verbatim>\<open>src/include/libballotbrain/types.h\<close> and the command and result
  structures of \<^verbatim>\<open>src/include/libballotbrain/db.h\<close>, with the pure helpers on them:
  configuration validation, the lifecycle table and state names. A fixed array of C is a list
  of its full length; a \<^verbatim>\<open>char\<close> buffer is the C string it holds.
\<close>

section \<open>Capacities, states and results\<close>

definition BB_ID_LEN :: nat where "BB_ID_LEN = 16"
definition BB_TITLE_LEN :: nat where "BB_TITLE_LEN = 64"
definition BB_OPTION_LEN :: nat where "BB_OPTION_LEN = 32"
definition BB_CERT_LEN :: nat where "BB_CERT_LEN = 32"
definition BB_TIME_LEN :: nat where "BB_TIME_LEN = 32"
definition BB_HASH_LEN :: nat where "BB_HASH_LEN = 65"
definition BB_NONCE_LEN :: nat where "BB_NONCE_LEN = 33"
definition BB_MAX_OPTIONS :: nat where "BB_MAX_OPTIONS = 16"
definition BB_MAX_VOTERS :: nat where "BB_MAX_VOTERS = 64"
definition BB_CIPHERTEXT_MAX :: nat where "BB_CIPHERTEXT_MAX = 256"

lemmas bb_lens = BB_ID_LEN_def BB_TITLE_LEN_def BB_OPTION_LEN_def BB_CERT_LEN_def BB_TIME_LEN_def
  BB_HASH_LEN_def BB_NONCE_LEN_def BB_MAX_OPTIONS_def BB_MAX_VOTERS_def BB_CIPHERTEXT_MAX_def

datatype bb_state = BB_STATE_DRAFT | BB_STATE_OPEN | BB_STATE_CLOSED | BB_STATE_PUBLISHED

datatype bb_cert_status = BB_CERT_INVALID | BB_CERT_EXPIRED | BB_CERT_NOT_ELIGIBLE | BB_CERT_VALID

datatype bb_result =
    BB_OK
  | BB_ERR_CONFIG_TITLE
  | BB_ERR_CONFIG_OPTIONS
  | BB_ERR_CONFIG_TIME
  | BB_ERR_CONFIG_ID_TAKEN
  | BB_ERR_ILLEGAL_TRANSITION
  | BB_ERR_NOT_OPEN
  | BB_ERR_CLOSED
  | BB_ERR_NOT_PUBLISHED
  | BB_ERR_NOT_ELIGIBLE
  | BB_ERR_CERT_INVALID
  | BB_ERR_CERT_EXPIRED
  | BB_ERR_BAD_OPTION
  | BB_ERR_REPLAY
  | BB_ERR_DECRYPT
  | BB_ERR_NOT_FOUND
  | BB_ERR_NOT_JOINED
  | BB_ERR_DB
  | BB_ERR_NOT_IMPLEMENTED
  | BB_ERR_RETRY

text \<open>The number of an enumerator, as \<^verbatim>\<open>%d\<close> prints it.\<close>

fun bb_result_code :: "bb_result \<Rightarrow> int" where
  "bb_result_code BB_OK = 0"
| "bb_result_code BB_ERR_CONFIG_TITLE = 1"
| "bb_result_code BB_ERR_CONFIG_OPTIONS = 2"
| "bb_result_code BB_ERR_CONFIG_TIME = 3"
| "bb_result_code BB_ERR_CONFIG_ID_TAKEN = 4"
| "bb_result_code BB_ERR_ILLEGAL_TRANSITION = 5"
| "bb_result_code BB_ERR_NOT_OPEN = 6"
| "bb_result_code BB_ERR_CLOSED = 7"
| "bb_result_code BB_ERR_NOT_PUBLISHED = 8"
| "bb_result_code BB_ERR_NOT_ELIGIBLE = 9"
| "bb_result_code BB_ERR_CERT_INVALID = 10"
| "bb_result_code BB_ERR_CERT_EXPIRED = 11"
| "bb_result_code BB_ERR_BAD_OPTION = 12"
| "bb_result_code BB_ERR_REPLAY = 13"
| "bb_result_code BB_ERR_DECRYPT = 14"
| "bb_result_code BB_ERR_NOT_FOUND = 15"
| "bb_result_code BB_ERR_NOT_JOINED = 16"
| "bb_result_code BB_ERR_DB = 17"
| "bb_result_code BB_ERR_NOT_IMPLEMENTED = 18"
| "bb_result_code BB_ERR_RETRY = 19"

section \<open>Structures\<close>

record bb_config =
  cfg_title :: string
  cfg_options :: "string list"
  cfg_option_count :: int
  cfg_eligible :: "string list"
  cfg_eligible_count :: int
  cfg_open_time :: string
  cfg_close_time :: string

record bb_election =
  el_id :: string
  el_title :: string
  el_state :: bb_state
  el_options :: "string list"
  el_option_count :: int
  el_eligible :: "string list"
  el_eligible_count :: int
  el_open_time :: string
  el_close_time :: string
  el_tally :: "int list"

record bb_ballot =
  bal_cert_name :: string
  bal_nonce :: string
  bal_payload :: "8 word list"

record bb_ballot_hash =
  bh_hash :: string
  bh_option_index :: int
  bh_version :: int
  bh_superseded :: int

record bb_results =
  rs_title :: string
  rs_tally :: "int list"
  rs_option_count :: int
  rs_options :: "string list"
  rs_hashes :: "bb_ballot_hash list"
  rs_hash_count :: int

record bb_receipt =
  rc_hash :: string
  rc_issued_at :: string

text \<open>The values a structure has after \<^verbatim>\<open>memset(.., 0, ..)\<close> or \<^verbatim>\<open>= {0}\<close>.\<close>

definition config0 :: bb_config where
  "config0 = \<lparr>cfg_title = [], cfg_options = replicate BB_MAX_OPTIONS [], cfg_option_count = 0,
     cfg_eligible = replicate BB_MAX_VOTERS [], cfg_eligible_count = 0, cfg_open_time = [],
     cfg_close_time = []\<rparr>"

definition election0 :: bb_election where
  "election0 = \<lparr>el_id = [], el_title = [], el_state = BB_STATE_DRAFT,
     el_options = replicate BB_MAX_OPTIONS [], el_option_count = 0,
     el_eligible = replicate BB_MAX_VOTERS [], el_eligible_count = 0, el_open_time = [],
     el_close_time = [], el_tally = replicate BB_MAX_OPTIONS 0\<rparr>"

definition hash0 :: bb_ballot_hash where
  "hash0 = \<lparr>bh_hash = [], bh_option_index = 0, bh_version = 0, bh_superseded = 0\<rparr>"

definition results0 :: bb_results where
  "results0 = \<lparr>rs_title = [], rs_tally = replicate BB_MAX_OPTIONS 0, rs_option_count = 0,
     rs_options = replicate BB_MAX_OPTIONS [], rs_hashes = replicate BB_MAX_VOTERS hash0,
     rs_hash_count = 0\<rparr>"

definition receipt0 :: bb_receipt where
  "receipt0 = \<lparr>rc_hash = [], rc_issued_at = []\<rparr>"

section \<open>Commands to the store\<close>

datatype bb_db_op =
    BB_DB_INSERT_ELECTION
  | BB_DB_UPDATE_STATE
  | BB_DB_APPEND_BALLOT
  | BB_DB_MARK_SUPERSEDED
  | BB_DB_NONCE_MARK
  | BB_DB_SET_OWNER
  | BB_DB_GET_ELECTION
  | BB_DB_GET_TALLY
  | BB_DB_GET_HASHES
  | BB_DB_FIND_HASH
  | BB_DB_NONCE_SEEN
  | BB_DB_GET_PRIOR_BALLOT

record bb_db_cmd =
  cmd_op :: bb_db_op
  cmd_election_id :: string
  cmd_new_state :: bb_state
  cmd_hash_row :: "bb_ballot_hash option"
  cmd_hash :: string
  cmd_version :: int
  cmd_nonce :: string
  cmd_cert_name :: string
  cmd_config :: "bb_config option"

record bb_db_result =
  out_election :: bb_election
  out_tally :: "int list"
  out_hashes :: "bb_ballot_hash list"
  out_hash_count :: int
  out_found :: bool
  out_row :: bb_ballot_hash

definition cmd0 :: "bb_db_op \<Rightarrow> bb_db_cmd" where
  "cmd0 op = \<lparr>cmd_op = op, cmd_election_id = [], cmd_new_state = BB_STATE_DRAFT, cmd_hash_row = None,
     cmd_hash = [], cmd_version = 0, cmd_nonce = [], cmd_cert_name = [], cmd_config = None\<rparr>"

definition result0 :: bb_db_result where
  "result0 = \<lparr>out_election = election0, out_tally = replicate BB_MAX_OPTIONS 0,
     out_hashes = replicate BB_MAX_VOTERS hash0, out_hash_count = 0, out_found = False,
     out_row = hash0\<rparr>"

section \<open>Pure helpers\<close>

fun bb_state_str :: "bb_state \<Rightarrow> string" where
  "bb_state_str BB_STATE_DRAFT = ''DRAFT''"
| "bb_state_str BB_STATE_OPEN = ''OPEN''"
| "bb_state_str BB_STATE_CLOSED = ''CLOSED''"
| "bb_state_str BB_STATE_PUBLISHED = ''PUBLISHED''"

definition parse_state :: "string \<Rightarrow> bb_state option" where
  "parse_state text =
     (if text = ''DRAFT'' then Some BB_STATE_DRAFT
      else if text = ''OPEN'' then Some BB_STATE_OPEN
      else if text = ''CLOSED'' then Some BB_STATE_CLOSED
      else if text = ''PUBLISHED'' then Some BB_STATE_PUBLISHED
      else None)"

fun bb_is_legal_transition :: "bb_state \<Rightarrow> bb_state \<Rightarrow> bool" where
  "bb_is_legal_transition BB_STATE_DRAFT to_st \<longleftrightarrow> to_st = BB_STATE_OPEN"
| "bb_is_legal_transition BB_STATE_OPEN to_st \<longleftrightarrow> to_st = BB_STATE_CLOSED"
| "bb_is_legal_transition BB_STATE_CLOSED to_st \<longleftrightarrow> to_st = BB_STATE_PUBLISHED"
| "bb_is_legal_transition BB_STATE_PUBLISHED to_st \<longleftrightarrow> False"

text \<open>The sign of \<^verbatim>\<open>strcmp\<close>: the first differing bytes, compared unsigned.\<close>

fun strcmp :: "string \<Rightarrow> string \<Rightarrow> int" where
  "strcmp [] [] = 0"
| "strcmp [] (_ # _) = - 1"
| "strcmp (_ # _) [] = 1"
| "strcmp (a # as) (b # bs) =
     (if a = b then strcmp as bs else if (of_char a :: nat) < of_char b then - 1 else 1)"

definition bb_validate_config :: "bb_config \<Rightarrow> bb_result" where
  "bb_validate_config config =
     (if cfg_title config = [] then BB_ERR_CONFIG_TITLE
      else if cfg_option_count config < 2 then BB_ERR_CONFIG_OPTIONS
      else if strcmp (cfg_close_time config) (cfg_open_time config) \<le> 0 then BB_ERR_CONFIG_TIME
      else BB_OK)"

definition bb_check_eligibility :: "bb_election \<Rightarrow> string \<Rightarrow> bool" where
  "bb_check_eligibility election cert_name =
     list_ex (\<lambda>i. el_eligible election ! i = cert_name)
       [0..<min (nat (el_eligible_count election)) BB_MAX_VOTERS]"

text \<open>\<^verbatim>\<open>strrchr(id, '-')\<close> and the number after it.\<close>

definition id_seq :: "string \<Rightarrow> int" where
  "id_seq s =
     (if CHR ''-'' \<notin> set s then 0
      else case strtol (rev (takeWhile (\<lambda>c. c \<noteq> CHR ''-'') (rev s))) of
             (v, rest) \<Rightarrow> if rest \<noteq> [] \<or> v < 0 then 0 else wrap32 v)"

fun op_is_write :: "bb_db_op \<Rightarrow> bool" where
  "op_is_write BB_DB_INSERT_ELECTION = True"
| "op_is_write BB_DB_UPDATE_STATE = True"
| "op_is_write BB_DB_APPEND_BALLOT = True"
| "op_is_write BB_DB_MARK_SUPERSEDED = True"
| "op_is_write BB_DB_NONCE_MARK = True"
| "op_is_write BB_DB_SET_OWNER = True"
| "op_is_write _ = False"

section \<open>Lemmas\<close>

lemma parse_state_str [simp]: "parse_state (bb_state_str s) = Some s"
  by (cases s) (simp_all add: parse_state_def)

lemma bb_state_str_inj: "bb_state_str a = bb_state_str b \<longleftrightarrow> a = b"
  by (metis parse_state_str option.inject)

lemma bb_state_str_length: "length (bb_state_str s) \<le> 9"
  by (cases s) auto

lemma bb_state_str_clean: "list_all clean_char (bb_state_str s)"
  by (cases s) (simp_all add: clean_char_def)

text \<open>
  \<^const>\<open>strcmp\<close> is a linear order on strings: the sign tells the order, zero is equality.
\<close>

lemma strcmp_eq_0: "strcmp a b = 0 \<longleftrightarrow> a = b"
  by (induction a b rule: strcmp.induct) auto

lemma strcmp_swap: "strcmp b a = - strcmp a b"
  by (induction a b rule: strcmp.induct) auto

lemma strcmp_trans: "strcmp a b < 0 \<Longrightarrow> strcmp b c < 0 \<Longrightarrow> strcmp a c < 0"
proof (induction a b arbitrary: c rule: strcmp.induct)
  case (2 x xs)
  then show ?case by (cases c) auto
next
  case (4 x xs y ys)
  then show ?case by (cases c) (auto split: if_splits)
qed auto

text \<open>The lifecycle is a chain: at most one state follows, and none leads back.\<close>

definition state_rank :: "bb_state \<Rightarrow> nat" where
  "state_rank s = (case s of BB_STATE_DRAFT \<Rightarrow> 0 | BB_STATE_OPEN \<Rightarrow> 1 | BB_STATE_CLOSED \<Rightarrow> 2 | BB_STATE_PUBLISHED \<Rightarrow> 3)"

lemma legal_transition_rank:
  "bb_is_legal_transition a b \<longleftrightarrow> state_rank b = Suc (state_rank a)"
  by (cases a; cases b) (simp_all add: state_rank_def)

lemma check_eligibility_iff:
  assumes "0 \<le> el_eligible_count e" "el_eligible_count e \<le> 64" "length (el_eligible e) = 64"
  shows "bb_check_eligibility e cert \<longleftrightarrow> cert \<in> set (take (nat (el_eligible_count e)) (el_eligible e))"
  using assms
  by (auto simp: bb_check_eligibility_def list_ex_iff in_set_conv_nth bb_lens min_def)

end
