(* ===== verification/State_Spec.thy ===== *)
theory State_Spec
  imports Main "HOL-Library.State_Monad"
begin

text \<open>
  Total-correctness triples for state-monad programs, with one rule per construct the models
  of the C functions use: sequencing, returning, branching and matching. The programs are
  total functions, so a triple says that the program ends and what holds then.
\<close>

definition spec :: "('s \<Rightarrow> bool) \<Rightarrow> ('s, 'a) state \<Rightarrow> ('a \<Rightarrow> 's \<Rightarrow> bool) \<Rightarrow> bool" where
  "spec P m Q \<longleftrightarrow> (\<forall>s. P s \<longrightarrow> (case run_state m s of (a, s') \<Rightarrow> Q a s'))"

lemma specI: "(\<And>s a s'. P s \<Longrightarrow> run_state m s = (a, s') \<Longrightarrow> Q a s') \<Longrightarrow> spec P m Q"
  by (auto simp: spec_def split: prod.splits)

lemma spec_pairI:
  "(\<And>c w r b c' w'. P (c, w) \<Longrightarrow> run_state m (c, w) = ((r, b), c', w') \<Longrightarrow> Q (r, b) (c', w')) \<Longrightarrow>
   spec P m Q"
  by (auto simp: spec_def split: prod.splits)

lemma specD: "spec P m Q \<Longrightarrow> P s \<Longrightarrow> run_state m s = (a, s') \<Longrightarrow> Q a s'"
  by (auto simp: spec_def)

lemma spec_return: "(\<And>s. P s \<Longrightarrow> Q a s) \<Longrightarrow> spec P (State_Monad.return a) Q"
  by (auto simp: spec_def State_Monad.return_def)

lemma spec_bind:
  assumes "spec P m R" "\<And>a. spec (R a) (k a) Q"
  shows "spec P (State_Monad.bind m k) Q"
proof (rule specI)
  fix s b s2
  assume P: "P s" and r: "run_state (State_Monad.bind m k) s = (b, s2)"
  obtain a s1 where m: "run_state m s = (a, s1)" by fastforce
  with P assms(1) have "R a s1" by (auto intro: specD)
  moreover have "run_state (k a) s1 = (b, s2)" using r m by (simp add: State_Monad.bind_def)
  ultimately show "Q b s2" using assms(2) by (auto intro: specD)
qed

lemma spec_bind_pair:
  assumes "spec P m R" "\<And>a b. spec (R (a, b)) (k a b) Q"
  shows "spec P (State_Monad.bind m (\<lambda>(a, b). k a b)) Q"
  by (rule spec_bind [OF assms(1)]) (auto intro: assms(2))

lemma spec_pre: "spec P m Q \<Longrightarrow> (\<And>s. P' s \<Longrightarrow> P s) \<Longrightarrow> spec P' m Q"
  by (auto simp: spec_def)

lemma spec_post: "spec P m Q \<Longrightarrow> (\<And>a s. Q a s \<Longrightarrow> Q' a s) \<Longrightarrow> spec P m Q'"
  by (fastforce simp: spec_def)

lemma spec_if:
  "(c \<Longrightarrow> spec P m Q) \<Longrightarrow> (\<not> c \<Longrightarrow> spec P m' Q) \<Longrightarrow> spec P (if c then m else m') Q"
  by simp

text \<open>Facts that do not depend on the state move out of the precondition.\<close>

lemma spec_fact: "(c \<Longrightarrow> spec P m Q) \<Longrightarrow> spec (\<lambda>s. c \<and> P s) m Q"
  by (auto simp: spec_def)

lemma spec_ex: "(\<And>x. spec (P x) m Q) \<Longrightarrow> spec (\<lambda>s. \<exists>x. P x s) m Q"
  by (rule specI) (blast dest: specD)

lemma spec_disj: "spec P m Q \<Longrightarrow> spec P' m Q \<Longrightarrow> spec (\<lambda>s. P s \<or> P' s) m Q"
  by (auto simp: spec_def)

lemma spec_false: "(\<And>s. \<not> P s) \<Longrightarrow> spec P m Q"
  by (auto simp: spec_def)

text \<open>
  The pattern of a call whose result code is tested: on success the program goes on, on
  failure it returns.
\<close>

lemma spec_call:
  assumes "spec P m (\<lambda>(r, b) s. (r = ok \<and> G b s) \<or> (r \<noteq> ok \<and> F r s))"
    and "\<And>r. r \<noteq> ok \<Longrightarrow> spec (F r) (fail r) Q"
    and "\<And>b. spec (G b) (k b) Q"
  shows "spec P (State_Monad.bind m (\<lambda>(r, b). if r \<noteq> ok then fail r else k b)) Q"
proof (rule spec_bind_pair [OF assms(1)])
  fix r b
  show "spec ((\<lambda>(r, b) s. (r = ok \<and> G b s) \<or> (r \<noteq> ok \<and> F r s)) (r, b))
    (if r \<noteq> ok then fail r else k b) Q"
  proof (cases "r = ok")
    case True
    then show ?thesis using assms(3) [of b] by simp
  next
    case False
    then show ?thesis using assms(2) [of r] by simp
  qed
qed

lemma spec_call1:
  assumes "spec P m (\<lambda>r s. (r = ok \<and> G s) \<or> (r \<noteq> ok \<and> F r s))"
    and "\<And>r. r \<noteq> ok \<Longrightarrow> spec (F r) (fail r) Q"
    and "spec G k Q"
  shows "spec P (State_Monad.bind m (\<lambda>r. if r \<noteq> ok then fail r else k)) Q"
proof (rule spec_bind [OF assms(1)])
  fix r
  show "spec (\<lambda>s. (r = ok \<and> G s) \<or> (r \<noteq> ok \<and> F r s)) (if r \<noteq> ok then fail r else k) Q"
    using assms(2) [of r] assms(3) by (cases "r = ok") simp_all
qed

end
