(* ===== verification/Brain_Spec.thy ===== *)
theory Brain_Spec
  imports Brain_Types State_Spec
begin

text \<open>
  What the storage seam of \<^verbatim>\<open>src/include/libballotbrain/db.h\<close> promises, independent of SQL. A
  \<open>store\<close> holds six multisets of rows keyed by the election id (SimpleDB fixes no row order).
  \<open>spec_write\<close> and \<open>read_spec\<close> give each command its meaning; \<open>store_ok\<close> says what the
  rows look like and how often a key may occur. The locale \<open>ballot_store\<close> is the contract of
  \<^verbatim>\<open>db_exec\<close>, \<^verbatim>\<open>bb_db_begin\<close>, \<^verbatim>\<open>bb_db_commit\<close>, \<^verbatim>\<open>bb_db_rollback\<close> and \<^verbatim>\<open>bb_alloc_id\<close>: the
  handlers are proved against it, and \<^verbatim>\<open>db.c\<close> is proved to meet it.
\<close>

section \<open>Stores\<close>

type_synonym 'r tab = "(string \<times> 'r) multiset"

record store =
  st_election :: "(int \<times> string \<times> bb_state \<times> string \<times> string) tab"
  st_option :: "(int \<times> string) tab"
  st_eligible :: "string tab"
  st_ballot :: "(string \<times> int \<times> int \<times> int) tab"
  st_owner :: "(string \<times> string \<times> int) tab"
  st_nonce :: "string tab"

definition sel :: "string \<Rightarrow> 'r tab \<Rightarrow> 'r multiset" where
  "sel k M = image_mset snd (filter_mset (\<lambda>p. fst p = k) M)"

definition empty_store :: store where
  "empty_store = \<lparr>st_election = {#}, st_option = {#}, st_eligible = {#}, st_ballot = {#},
     st_owner = {#}, st_nonce = {#}\<rparr>"

definition ballots_with :: "store \<Rightarrow> string \<Rightarrow> string \<Rightarrow> (string \<times> int \<times> int \<times> int) multiset" where
  "ballots_with S k h = filter_mset (\<lambda>(h', _). h' = h) (sel k (st_ballot S))"

definition live_ballots :: "store \<Rightarrow> string \<Rightarrow> (string \<times> int \<times> int \<times> int) multiset" where
  "live_ballots S k = filter_mset (\<lambda>(h, ix, v, sup). sup = 0) (sel k (st_ballot S))"

definition live_with :: "store \<Rightarrow> string \<Rightarrow> string \<Rightarrow> (string \<times> int \<times> int \<times> int) multiset" where
  "live_with S k h = filter_mset (\<lambda>(h, ix, v, sup). sup = 0) (ballots_with S k h)"

definition owners_with :: "store \<Rightarrow> string \<Rightarrow> string \<Rightarrow> (string \<times> string \<times> int) multiset" where
  "owners_with S k cert = filter_mset (\<lambda>(c, _). c = cert) (sel k (st_owner S))"

section \<open>Well-formed stores and commands\<close>

text \<open>A clean text of at most \<open>n\<close> characters, and one that may stand first in a printed row.\<close>

definition fits :: "nat \<Rightarrow> string \<Rightarrow> bool" where
  "fits n s \<longleftrightarrow> length s \<le> n \<and> list_all clean_char s"

definition lead :: "nat \<Rightarrow> string \<Rightarrow> bool" where
  "lead n s \<longleftrightarrow> fits n s \<and> take 6 s \<noteq> DB_MARK_END \<and> \<not> error_line s"

abbreviation count_ok :: "int \<Rightarrow> bool" where
  "count_ok i \<equiv> 0 \<le> i \<and> i < 2 ^ 31"

definition rows_text_ok :: "store \<Rightarrow> bool" where
  "rows_text_ok S \<longleftrightarrow>
     (\<forall>(k, q, t, st, a, b) \<in># st_election S. fits 15 k \<and> count_ok q \<and> fits 63 t \<and> fits 31 a \<and> fits 31 b) \<and>
     (\<forall>(k, i, nm) \<in># st_option S. fits 15 k \<and> count_ok i \<and> fits 31 nm) \<and>
     (\<forall>(k, c) \<in># st_eligible S. fits 15 k \<and> lead 31 c \<and> c \<noteq> []) \<and>
     (\<forall>(k, h, ix, v, sup) \<in># st_ballot S. fits 15 k \<and> lead 64 h \<and> count_ok ix \<and> count_ok v \<and> count_ok sup) \<and>
     (\<forall>(k, c, h, v) \<in># st_owner S. fits 15 k \<and> fits 31 c \<and> lead 64 h \<and> count_ok v) \<and>
     (\<forall>(k, n) \<in># st_nonce S. fits 15 k \<and> lead 32 n \<and> n \<noteq> [])"

definition keys_ok :: "store \<Rightarrow> bool" where
  "keys_ok S \<longleftrightarrow>
     (\<forall>k. size (sel k (st_election S)) \<le> 1 \<and>
          size (sel k (st_option S)) \<le> 16 \<and>
          image_mset fst (sel k (st_option S)) = mset (map int [0..<size (sel k (st_option S))]) \<and>
          size (sel k (st_eligible S)) \<le> 64 \<and>
          (\<forall>h. size (ballots_with S k h) \<le> 1) \<and>
          (\<forall>c. size (owners_with S k c) \<le> 1) \<and>
          (\<forall>n. count (sel k (st_nonce S)) n \<le> 1))"

definition store_ok :: "store \<Rightarrow> bool" where
  "store_ok S \<longleftrightarrow> rows_text_ok S \<and> keys_ok S"

definition config_ok :: "bb_config \<Rightarrow> bool" where
  "config_ok cfg \<longleftrightarrow>
     fits 63 (cfg_title cfg) \<and> fits 31 (cfg_open_time cfg) \<and> fits 31 (cfg_close_time cfg) \<and>
     length (cfg_options cfg) = 16 \<and> length (cfg_eligible cfg) = 64 \<and>
     (\<forall>i < min (nat (cfg_option_count cfg)) 16. fits 31 (cfg_options cfg ! i)) \<and>
     (\<forall>i < min (nat (cfg_eligible_count cfg)) 64. lead 31 (cfg_eligible cfg ! i) \<and> cfg_eligible cfg ! i \<noteq> [])"

definition cmd_ok :: "bb_db_cmd \<Rightarrow> bool" where
  "cmd_ok cmd \<longleftrightarrow>
     fits 15 (cmd_election_id cmd) \<and>
     (case cmd_op cmd of
        BB_DB_INSERT_ELECTION \<Rightarrow> (case cmd_config cmd of None \<Rightarrow> False | Some cfg \<Rightarrow> config_ok cfg \<and> count_ok (id_seq (cmd_election_id cmd)))
      | BB_DB_APPEND_BALLOT \<Rightarrow>
          (case cmd_hash_row cmd of None \<Rightarrow> False
           | Some row \<Rightarrow> lead 64 (bh_hash row) \<and> count_ok (bh_option_index row) \<and>
               count_ok (bh_version row) \<and> count_ok (bh_superseded row))
      | BB_DB_MARK_SUPERSEDED \<Rightarrow> lead 64 (cmd_hash cmd)
      | BB_DB_NONCE_MARK \<Rightarrow> lead 32 (cmd_nonce cmd) \<and> cmd_nonce cmd \<noteq> []
      | BB_DB_SET_OWNER \<Rightarrow> fits 31 (cmd_cert_name cmd) \<and> lead 64 (cmd_hash cmd) \<and> count_ok (cmd_version cmd)
      | BB_DB_FIND_HASH \<Rightarrow> fits 64 (cmd_hash cmd)
      | BB_DB_NONCE_SEEN \<Rightarrow> fits 32 (cmd_nonce cmd)
      | BB_DB_GET_PRIOR_BALLOT \<Rightarrow> fits 31 (cmd_cert_name cmd)
      | _ \<Rightarrow> True)"

section \<open>Meaning of the commands\<close>

definition option_rows :: "bb_config \<Rightarrow> (int \<times> string) list" where
  "option_rows cfg = map (\<lambda>i. (int i, cfg_options cfg ! i)) [0..<min (nat (cfg_option_count cfg)) BB_MAX_OPTIONS]"

definition eligible_rows :: "bb_config \<Rightarrow> string list" where
  "eligible_rows cfg = map (\<lambda>i. cfg_eligible cfg ! i) [0..<min (nat (cfg_eligible_count cfg)) BB_MAX_VOTERS]"

definition insert_election :: "string \<Rightarrow> bb_config \<Rightarrow> store \<Rightarrow> store" where
  "insert_election k cfg S = S\<lparr>
     st_election := add_mset (k, id_seq k, cfg_title cfg, BB_STATE_DRAFT, cfg_open_time cfg, cfg_close_time cfg) (st_election S),
     st_option := st_option S + image_mset (Pair k) (mset (option_rows cfg)),
     st_eligible := st_eligible S + image_mset (Pair k) (mset (eligible_rows cfg))\<rparr>"

definition set_state :: "string \<Rightarrow> bb_state \<Rightarrow> store \<Rightarrow> store" where
  "set_state k st S = S\<lparr>
     st_election := image_mset (\<lambda>(k', q, t, st', a, b). if k' = k then (k', q, t, st, a, b) else (k', q, t, st', a, b))
       (st_election S)\<rparr>"

definition add_ballot :: "string \<Rightarrow> bb_ballot_hash \<Rightarrow> store \<Rightarrow> store" where
  "add_ballot k row S = S\<lparr>
     st_ballot := add_mset (k, bh_hash row, bh_option_index row, bh_version row, bh_superseded row) (st_ballot S)\<rparr>"

definition supersede :: "string \<Rightarrow> string \<Rightarrow> store \<Rightarrow> store" where
  "supersede k h S = S\<lparr>
     st_ballot := image_mset (\<lambda>(k', h', ix, v, sup). if k' = k \<and> h' = h then (k', h', ix, v, 1) else (k', h', ix, v, sup))
       (st_ballot S)\<rparr>"

definition set_owner :: "string \<Rightarrow> string \<Rightarrow> string \<Rightarrow> int \<Rightarrow> store \<Rightarrow> store" where
  "set_owner k cert h v S = S\<lparr>
     st_owner := add_mset (k, cert, h, v) (filter_mset (\<lambda>(k', c, _). \<not> (k' = k \<and> c = cert)) (st_owner S))\<rparr>"

definition use_nonce :: "string \<Rightarrow> string \<Rightarrow> store \<Rightarrow> store" where
  "use_nonce k n S = S\<lparr>st_nonce := add_mset (k, n) (st_nonce S)\<rparr>"

definition spec_write :: "bb_db_cmd \<Rightarrow> store \<Rightarrow> store" where
  "spec_write cmd S =
     (let k = cmd_election_id cmd
      in case cmd_op cmd of
           BB_DB_INSERT_ELECTION \<Rightarrow> (case cmd_config cmd of None \<Rightarrow> S | Some cfg \<Rightarrow> insert_election k cfg S)
         | BB_DB_UPDATE_STATE \<Rightarrow> set_state k (cmd_new_state cmd) S
         | BB_DB_APPEND_BALLOT \<Rightarrow> (case cmd_hash_row cmd of None \<Rightarrow> S | Some row \<Rightarrow> add_ballot k row S)
         | BB_DB_MARK_SUPERSEDED \<Rightarrow> supersede k (cmd_hash cmd) S
         | BB_DB_NONCE_MARK \<Rightarrow> use_nonce k (cmd_nonce cmd) S
         | BB_DB_SET_OWNER \<Rightarrow> set_owner k (cmd_cert_name cmd) (cmd_hash cmd) (cmd_version cmd) S
         | _ \<Rightarrow> S)"

text \<open>What the bounded reads and the writes need to find in the store.\<close>

definition read_pre :: "bb_db_cmd \<Rightarrow> store \<Rightarrow> bool" where
  "read_pre cmd S \<longleftrightarrow>
     (cmd_op cmd \<in> {BB_DB_GET_TALLY, BB_DB_GET_HASHES} \<longrightarrow> size (live_ballots S (cmd_election_id cmd)) \<le> 64)"

definition write_pre :: "bb_db_cmd \<Rightarrow> store \<Rightarrow> bool" where
  "write_pre cmd S \<longleftrightarrow>
     (case cmd_op cmd of
        BB_DB_UPDATE_STATE \<Rightarrow> sel (cmd_election_id cmd) (st_election S) \<noteq> {#}
      | BB_DB_MARK_SUPERSEDED \<Rightarrow> ballots_with S (cmd_election_id cmd) (cmd_hash cmd) \<noteq> {#}
      | _ \<Rightarrow> True)"

definition election_is ::
    "store \<Rightarrow> string \<Rightarrow> int \<times> string \<times> bb_state \<times> string \<times> string \<Rightarrow> bb_election \<Rightarrow> bool" where
  "election_is S k row e \<longleftrightarrow>
     (case row of (q, t, st, a, b) \<Rightarrow>
        el_id e = k \<and> el_title e = t \<and> el_state e = st \<and> el_open_time e = a \<and> el_close_time e = b \<and>
        length (el_options e) = 16 \<and>
        el_option_count e = int (size (sel k (st_option S))) \<and>
        (\<forall>(i, nm) \<in># sel k (st_option S). el_options e ! nat i = nm) \<and>
        length (el_eligible e) = 64 \<and>
        el_eligible_count e = int (size (sel k (st_eligible S))) \<and>
        mset (take (nat (el_eligible_count e)) (el_eligible e)) = sel k (st_eligible S))"

definition hash_tuple :: "bb_ballot_hash \<Rightarrow> string \<times> int \<times> int \<times> int" where
  "hash_tuple b = (bh_hash b, bh_option_index b, bh_version b, bh_superseded b)"

definition read_spec :: "bb_db_cmd \<Rightarrow> store \<Rightarrow> bb_db_result \<Rightarrow> bool" where
  "read_spec cmd S res \<longleftrightarrow>
     (let k = cmd_election_id cmd
      in case cmd_op cmd of
           BB_DB_GET_ELECTION \<Rightarrow>
             (out_found res \<longleftrightarrow> sel k (st_election S) \<noteq> {#}) \<and>
             (\<forall>row \<in># sel k (st_election S). election_is S k row (out_election res))
         | BB_DB_GET_TALLY \<Rightarrow>
             length (out_tally res) = 16 \<and>
             (\<forall>i < 16. out_tally res ! i = int (size (filter_mset (\<lambda>(h, ix, v, sup). ix = int i) (live_ballots S k))))
         | BB_DB_GET_HASHES \<Rightarrow>
             length (out_hashes res) = 64 \<and> out_hash_count res = int (size (live_ballots S k)) \<and>
             image_mset hash_tuple (mset (take (nat (out_hash_count res)) (out_hashes res))) = live_ballots S k
         | BB_DB_FIND_HASH \<Rightarrow>
             (out_found res \<longleftrightarrow> live_with S k (cmd_hash cmd) \<noteq> {#}) \<and>
             (out_found res \<longrightarrow> hash_tuple (out_row res) \<in># live_with S k (cmd_hash cmd))
         | BB_DB_NONCE_SEEN \<Rightarrow> out_found res \<longleftrightarrow> cmd_nonce cmd \<in># sel k (st_nonce S)
         | BB_DB_GET_PRIOR_BALLOT \<Rightarrow>
             (out_found res \<longleftrightarrow> owners_with S k (cmd_cert_name cmd) \<noteq> {#}) \<and>
             (out_found res \<longrightarrow>
                (cmd_cert_name cmd, bh_hash (out_row res), bh_version (out_row res)) \<in># owners_with S k (cmd_cert_name cmd))
         | _ \<Rightarrow> True)"

text \<open>The id \<^verbatim>\<open>bb_alloc_id\<close> hands out: one past the largest sequence number, or the first one.\<close>

definition first_id :: string where
  "first_id = ''E-'' @ int_str 100"

definition next_id :: "store \<Rightarrow> string" where
  "next_id S =
     (if st_election S = {#} then first_id
      else ''E-'' @ int_str (wrap32 (Max (set_mset (image_mset (\<lambda>(k, q, _). q) (st_election S))) + 1)))"

section \<open>The contract of the seam\<close>

record 'w seam =
  sm_exec :: "bb_db_cmd \<Rightarrow> ('w, bb_result \<times> bb_db_result) state"
  sm_begin :: "('w, bb_result) state"
  sm_commit :: "('w, bb_result) state"
  sm_rollback :: "('w, unit) state"
  sm_alloc_id :: "('w, string) state"
  sm_log :: "string \<Rightarrow> ('w, unit) state"

abbreviation infra :: "bb_result \<Rightarrow> bool" where
  "infra r \<equiv> r = BB_ERR_DB \<or> r = BB_ERR_RETRY"

text \<open>
  \<open>idle k D w\<close>: no transaction is open and \<open>D\<close> is durable. \<open>in_txn k D S w\<close>: a transaction
  is open, \<open>D\<close> is durable and the transaction sees \<open>S\<close>. \<open>broken D w\<close>: a statement failed, so
  the transaction must be rolled back. With \<open>k\<close> no fault will strike from \<open>w\<close> on.
\<close>

locale ballot_store =
  fixes K :: "'w seam"
    and idle :: "bool \<Rightarrow> store \<Rightarrow> 'w \<Rightarrow> bool"
    and in_txn :: "bool \<Rightarrow> store \<Rightarrow> store \<Rightarrow> 'w \<Rightarrow> bool"
    and broken :: "store \<Rightarrow> 'w \<Rightarrow> bool"
  assumes idle_weaken: "idle k D w \<Longrightarrow> idle False D w"
    and begin_law: "spec (idle k D) (sm_begin K)
      (\<lambda>r w. (r = BB_OK \<and> in_txn k D D w) \<or> (r \<noteq> BB_OK \<and> \<not> k \<and> infra r \<and> idle k D w))"
    and read_txn: "store_ok S \<Longrightarrow> cmd_ok cmd \<Longrightarrow> \<not> op_is_write (cmd_op cmd) \<Longrightarrow> read_pre cmd S \<Longrightarrow>
      spec (in_txn k D S) (sm_exec K cmd)
        (\<lambda>(r, res) w. (r = BB_OK \<and> read_spec cmd S res \<and> in_txn k D S w) \<or>
                       (r \<noteq> BB_OK \<and> \<not> k \<and> infra r \<and> broken D w))"
    and write_txn: "store_ok S \<Longrightarrow> cmd_ok cmd \<Longrightarrow> op_is_write (cmd_op cmd) \<Longrightarrow> write_pre cmd S \<Longrightarrow>
      spec (in_txn k D S) (sm_exec K cmd)
        (\<lambda>(r, res) w. (r = BB_OK \<and> in_txn k D (spec_write cmd S) w) \<or>
                       (r \<noteq> BB_OK \<and> \<not> k \<and> infra r \<and> broken D w))"
    and commit_law: "spec (in_txn k D S) (sm_commit K)
      (\<lambda>r w. (r = BB_OK \<and> idle k S w) \<or>
             (r \<noteq> BB_OK \<and> \<not> k \<and> infra r \<and> (idle k D w \<or> (r = BB_ERR_DB \<and> idle k S w))))"
    and rollback_txn: "spec (in_txn k D S) (sm_rollback K) (\<lambda>_. idle k D)"
    and rollback_broken: "spec (broken D) (sm_rollback K) (\<lambda>_. idle False D)"
    and read_idle: "store_ok D \<Longrightarrow> cmd_ok cmd \<Longrightarrow> \<not> op_is_write (cmd_op cmd) \<Longrightarrow> read_pre cmd D \<Longrightarrow>
      spec (idle k D) (sm_exec K cmd)
        (\<lambda>(r, res) w. (r = BB_OK \<and> read_spec cmd D res \<and> idle k D w) \<or>
                       (r \<noteq> BB_OK \<and> \<not> k \<and> r = BB_ERR_DB \<and> idle k D w))"
    and write_idle: "store_ok D \<Longrightarrow> cmd_ok cmd \<Longrightarrow> op_is_write (cmd_op cmd) \<Longrightarrow> write_pre cmd D \<Longrightarrow>
      spec (idle k D) (sm_exec K cmd)
        (\<lambda>(r, res) w. (r = BB_OK \<and> idle k (spec_write cmd D) w) \<or>
                       (r \<noteq> BB_OK \<and> \<not> k \<and> r = BB_ERR_DB \<and> (idle k D w \<or> idle k (spec_write cmd D) w)))"
    and alloc_law: "store_ok D \<Longrightarrow>
      spec (idle k D) (sm_alloc_id K)
        (\<lambda>s w. idle k D w \<and> (s = first_id \<or> s = next_id D) \<and> (k \<longrightarrow> s = next_id D))"
    and log_idle: "spec (idle k D) (sm_log K l) (\<lambda>_. idle k D)"
    and log_txn: "spec (in_txn k D S) (sm_log K l) (\<lambda>_. in_txn k D S)"

end
