(* ===== verification/Brain_Store.thy ===== *)
theory Brain_Store
  imports Db_Socket Brain_Spec
begin

text \<open>
  The real storage seam: \<^verbatim>\<open>src/src/libballotbrain/db.c\<close>, \<^verbatim>\<open>txn.c\<close> and the id allocation of
  \<^verbatim>\<open>ballotbrain.c\<close>, down to the SQL text they send and the reply text they parse. The
  handlers of one command run over a connection and the world; \<open>db_exec\<close> and the transaction
  control run over the world. All of them are state-monad programs that follow the C
  statement by statement, early returns included.
\<close>

section \<open>Helpers of db.c\<close>

definition BODY_MAX :: nat where "BODY_MAX = 16384"
definition SQL_MAX :: nat where "SQL_MAX = 4096"
definition QUOTE_MAX :: nat where "QUOTE_MAX = 512"
definition SELF_RETRY_ATTEMPTS :: nat where "SELF_RETRY_ATTEMPTS = 3"

fun map_status :: "db_status \<Rightarrow> bb_result" where
  "map_status DB_OK = BB_OK"
| "map_status DB_RETRY = BB_ERR_RETRY"
| "map_status _ = BB_ERR_DB"

definition exec_stmt :: "env \<Rightarrow> string \<Rightarrow> nat \<Rightarrow> (conn \<times> world, bb_result \<times> string) state" where
  "exec_stmt E sql cap =
     State (\<lambda>cw. case db_socket_exec E sql cap cw of ((st, body), cw') \<Rightarrow> ((map_status st, body), cw'))"

definition unsafe :: "string \<Rightarrow> bool" where
  "unsafe s = list_ex (\<lambda>c. c = TAB \<or> c = NL \<or> c = CR) s"

definition field_copy :: "nat \<Rightarrow> string \<Rightarrow> string" where
  "field_copy cap f = take (cap - 1) f"

definition field_int :: "string \<Rightarrow> int" where
  "field_int f = atoi (field_copy 24 f)"

definition quoted :: "string \<Rightarrow> string" where
  "quoted s = [SQ] @ s @ [SQ]"

text \<open>The line \<^verbatim>\<open>log_cmd\<close> writes for a command.\<close>

definition log_cmd :: "bb_db_cmd \<Rightarrow> string" where
  "log_cmd cmd =
     (let eid = quoted (cmd_election_id cmd)
      in case cmd_op cmd of
        BB_DB_INSERT_ELECTION \<Rightarrow>
          ''[db] insert into election(id, title, state) values ('' @ eid @ '', ?, '' @ quoted ''DRAFT'' @ '')''
      | BB_DB_GET_ELECTION \<Rightarrow> ''[db] select * from election where id = '' @ eid
      | BB_DB_UPDATE_STATE \<Rightarrow>
          ''[db] election '' @ eid @ '': state -> '' @ quoted (bb_state_str (cmd_new_state cmd)) @
          '' (delete + reinsert, no UPDATE in SimpleDB)''
      | BB_DB_APPEND_BALLOT \<Rightarrow>
          ''[db] insert into ballot(election_id, hash, option_index, version, superseded) values ('' @ eid @ '', '' @
          (case cmd_hash_row cmd of
             None \<Rightarrow> quoted ''?'' @ '', -1, -1, 0''
           | Some row \<Rightarrow> quoted (bh_hash row) @ '', '' @ int_str (bh_option_index row) @ '', '' @
               int_str (bh_version row) @ '', '' @ int_str (bh_superseded row)) @ '')''
      | BB_DB_MARK_SUPERSEDED \<Rightarrow>
          ''[db] ballot '' @ quoted (cmd_hash cmd) @ '' in '' @ eid @ '': superseded -> 1 (delete + reinsert)''
      | BB_DB_NONCE_MARK \<Rightarrow>
          ''[db] insert into nonce(election_id, nonce) values ('' @ eid @ '', '' @ quoted (cmd_nonce cmd) @ '')''
      | BB_DB_SET_OWNER \<Rightarrow>
          ''[db] ballot_owner('' @ eid @ '', cert=?) -> hash='' @ quoted (cmd_hash cmd) @ '' version='' @
          int_str (cmd_version cmd)
      | BB_DB_GET_TALLY \<Rightarrow>
          ''[db] select option_index from ballot where election_id = '' @ eid @ '' and superseded = 0''
      | BB_DB_GET_HASHES \<Rightarrow>
          ''[db] select hash, option_index from ballot where election_id = '' @ eid @ '' and superseded = 0''
      | BB_DB_FIND_HASH \<Rightarrow>
          ''[db] select 1 from ballot where election_id = '' @ eid @ '' and hash = '' @ quoted (cmd_hash cmd) @
          '' and superseded = 0''
      | BB_DB_NONCE_SEEN \<Rightarrow>
          ''[db] select 1 from nonce where election_id = '' @ eid @ '' and nonce = '' @ quoted (cmd_nonce cmd)
      | BB_DB_GET_PRIOR_BALLOT \<Rightarrow>
          ''[db] select hash, version from ballot_owner where election_id = '' @ eid @ '' and cert=?'')"

section \<open>One command over a connection\<close>

fun insert_options :: "env \<Rightarrow> string \<Rightarrow> bb_config \<Rightarrow> nat list \<Rightarrow> (conn \<times> world, bb_result) state" where
  "insert_options E qid cfg [] = State_Monad.return BB_OK"
| "insert_options E qid cfg (i # is) =
     (if unsafe (cfg_options cfg ! i) then State_Monad.return BB_ERR_DB
      else do {
        (r, _) \<leftarrow> exec_stmt E (snprintf_s SQL_MAX
          (''insert into '' @ BB_DB_TABLE_OPTION @ '' values ('' @ qid @ '', '' @ int_str (int i) @ '', '' @
           db_quote QUOTE_MAX (cfg_options cfg ! i) @ '');'')) 0;
        if r \<noteq> BB_OK then State_Monad.return r else insert_options E qid cfg is
      })"

fun insert_eligible :: "env \<Rightarrow> string \<Rightarrow> bb_config \<Rightarrow> nat list \<Rightarrow> (conn \<times> world, bb_result) state" where
  "insert_eligible E qid cfg [] = State_Monad.return BB_OK"
| "insert_eligible E qid cfg (i # is) =
     (if unsafe (cfg_eligible cfg ! i) then State_Monad.return BB_ERR_DB
      else do {
        (r, _) \<leftarrow> exec_stmt E (snprintf_s SQL_MAX
          (''insert into '' @ BB_DB_TABLE_ELIGIBLE @ '' values ('' @ qid @ '', '' @
           db_quote QUOTE_MAX (cfg_eligible cfg ! i) @ '');'')) 0;
        if r \<noteq> BB_OK then State_Monad.return r else insert_eligible E qid cfg is
      })"

definition run_insert_election :: "env \<Rightarrow> bb_db_cmd \<Rightarrow> (conn \<times> world, bb_result) state" where
  "run_insert_election E cmd =
     (case cmd_config cmd of
        None \<Rightarrow> State_Monad.return BB_ERR_DB
      | Some cfg \<Rightarrow>
          if unsafe (cmd_election_id cmd) \<or> unsafe (cfg_title cfg) \<or> unsafe (cfg_open_time cfg) \<or>
             unsafe (cfg_close_time cfg)
          then State_Monad.return BB_ERR_DB
          else do {
            let qid = db_quote QUOTE_MAX (cmd_election_id cmd);
            (r, _) \<leftarrow> exec_stmt E (snprintf_s SQL_MAX
              (''insert into '' @ BB_DB_TABLE_ELECTION @ '' values ('' @
               int_str (id_seq (cmd_election_id cmd)) @ '', '' @ qid @ '', '' @
               db_quote QUOTE_MAX (cfg_title cfg) @ '', '' @ quoted ''DRAFT'' @ '', '' @
               db_quote QUOTE_MAX (cfg_open_time cfg) @ '', '' @
               db_quote QUOTE_MAX (cfg_close_time cfg) @ '');'')) 0;
            if r \<noteq> BB_OK then State_Monad.return r
            else do {
              r \<leftarrow> insert_options E qid cfg [0..<min (nat (cfg_option_count cfg)) BB_MAX_OPTIONS];
              if r \<noteq> BB_OK then State_Monad.return r
              else insert_eligible E qid cfg [0..<min (nat (cfg_eligible_count cfg)) BB_MAX_VOTERS]
            }
          })"

text \<open>The loops of \<^verbatim>\<open>run_get_election\<close> over the rows of a reply.\<close>

definition read_options :: "string \<Rightarrow> nat \<Rightarrow> string list \<Rightarrow> string list" where
  "read_options body n opts =
     foldl (\<lambda>os i. case db_row_fields body (int i) 2 of
              (k, f) \<Rightarrow> if k < 2 then os
                else let idx = field_int (f ! 0)
                     in if 0 \<le> idx \<and> idx < int BB_MAX_OPTIONS
                        then os[nat idx := field_copy BB_OPTION_LEN (f ! 1)] else os)
       opts [0..<n]"

definition read_eligible :: "string \<Rightarrow> nat \<Rightarrow> string list \<Rightarrow> string list" where
  "read_eligible body n elig =
     foldl (\<lambda>es i. case db_row_fields body (int i) 1 of
              (k, f) \<Rightarrow> if k < 1 then es else es[i := field_copy BB_CERT_LEN (f ! 0)])
       elig [0..<min n BB_MAX_VOTERS]"

definition run_get_election :: "env \<Rightarrow> bb_db_cmd \<Rightarrow> (conn \<times> world, bb_result \<times> bb_db_result) state" where
  "run_get_election E cmd = do {
     let qid = db_quote QUOTE_MAX (cmd_election_id cmd);
     (r, body) \<leftarrow> exec_stmt E (snprintf_s SQL_MAX
       (''select seq, id, title, state, open_time, close_time from '' @ BB_DB_TABLE_ELECTION @
        '' where id = '' @ qid @ '';'')) BODY_MAX;
     if r \<noteq> BB_OK then State_Monad.return (r, result0)
     else if db_row_count body < 0 then State_Monad.return (BB_ERR_DB, result0)
     else if db_row_count body = 0 then State_Monad.return (BB_OK, result0)
     else case db_row_fields body 0 6 of
       (k, f) \<Rightarrow>
         if k < 6 then State_Monad.return (BB_ERR_DB, result0)
         else case parse_state (field_copy 16 (f ! 3)) of
           None \<Rightarrow> State_Monad.return (BB_ERR_DB, result0)
         | Some st \<Rightarrow> do {
             (r, obody) \<leftarrow> exec_stmt E (snprintf_s SQL_MAX
               (''select idx, name from '' @ BB_DB_TABLE_OPTION @ '' where election_id = '' @ qid @ '';'')) BODY_MAX;
             if r \<noteq> BB_OK then State_Monad.return (r, result0)
             else do {
               (r, ebody) \<leftarrow> exec_stmt E (snprintf_s SQL_MAX
                 (''select cert_name from '' @ BB_DB_TABLE_ELIGIBLE @ '' where election_id = '' @ qid @ '';'')) BODY_MAX;
               if r \<noteq> BB_OK then State_Monad.return (r, result0)
               else do {
                 let orows = nat (db_row_count obody);
                 let erows = nat (db_row_count ebody);
                 State_Monad.return (BB_OK, result0\<lparr>
                   out_election := election0\<lparr>
                     el_id := field_copy BB_ID_LEN (f ! 1),
                     el_title := field_copy BB_TITLE_LEN (f ! 2),
                     el_state := st,
                     el_open_time := field_copy BB_TIME_LEN (f ! 4),
                     el_close_time := field_copy BB_TIME_LEN (f ! 5),
                     el_options := read_options obody orows (el_options election0),
                     el_option_count := int (min orows BB_MAX_OPTIONS),
                     el_eligible := read_eligible ebody erows (el_eligible election0),
                     el_eligible_count := int (min erows BB_MAX_VOTERS)\<rparr>,
                   out_found := True\<rparr>)
               }
             }
           }
   }"

definition run_update_state :: "env \<Rightarrow> bb_db_cmd \<Rightarrow> (conn \<times> world, bb_result) state" where
  "run_update_state E cmd = do {
     let qid = db_quote QUOTE_MAX (cmd_election_id cmd);
     (r, body) \<leftarrow> exec_stmt E (snprintf_s SQL_MAX
       (''select seq, title, open_time, close_time from '' @ BB_DB_TABLE_ELECTION @ '' where id = '' @ qid @ '';'')) BODY_MAX;
     if r \<noteq> BB_OK then State_Monad.return r
     else if db_row_count body \<le> 0 then State_Monad.return BB_ERR_DB
     else case db_row_fields body 0 4 of
       (k, f) \<Rightarrow>
         if k < 4 then State_Monad.return BB_ERR_DB
         else do {
           (r, _) \<leftarrow> exec_stmt E (snprintf_s SQL_MAX
             (''delete from '' @ BB_DB_TABLE_ELECTION @ '' where id = '' @ qid @ '';'')) 0;
           if r \<noteq> BB_OK then State_Monad.return r
           else do {
             (r, _) \<leftarrow> exec_stmt E (snprintf_s SQL_MAX
               (''insert into '' @ BB_DB_TABLE_ELECTION @ '' values ('' @ field_copy 24 (f ! 0) @ '', '' @ qid @ '', '' @
                db_quote QUOTE_MAX (field_copy BB_TITLE_LEN (f ! 1)) @ '', '' @
                quoted (bb_state_str (cmd_new_state cmd)) @ '', '' @
                db_quote QUOTE_MAX (field_copy BB_TIME_LEN (f ! 2)) @ '', '' @
                db_quote QUOTE_MAX (field_copy BB_TIME_LEN (f ! 3)) @ '');'')) 0;
             State_Monad.return r
           }
         }
   }"

definition run_append_ballot :: "env \<Rightarrow> bb_db_cmd \<Rightarrow> (conn \<times> world, bb_result) state" where
  "run_append_ballot E cmd =
     (case cmd_hash_row cmd of
        None \<Rightarrow> State_Monad.return BB_ERR_DB
      | Some row \<Rightarrow> do {
          (r, _) \<leftarrow> exec_stmt E (snprintf_s SQL_MAX
            (''insert into '' @ BB_DB_TABLE_BALLOT @ '' values ('' @ db_quote QUOTE_MAX (cmd_election_id cmd) @ '', '' @
             db_quote QUOTE_MAX (bh_hash row) @ '', '' @ int_str (bh_option_index row) @ '', '' @
             int_str (bh_version row) @ '', '' @ int_str (bh_superseded row) @ '');'')) 0;
          State_Monad.return r
        })"

definition run_mark_superseded :: "env \<Rightarrow> bb_db_cmd \<Rightarrow> (conn \<times> world, bb_result) state" where
  "run_mark_superseded E cmd = do {
     let qid = db_quote QUOTE_MAX (cmd_election_id cmd);
     let qhash = db_quote QUOTE_MAX (cmd_hash cmd);
     (r, body) \<leftarrow> exec_stmt E (snprintf_s SQL_MAX
       (''select option_index, version from '' @ BB_DB_TABLE_BALLOT @ '' where election_id = '' @ qid @
        '' and hash = '' @ qhash @ '';'')) BODY_MAX;
     if r \<noteq> BB_OK then State_Monad.return r
     else if db_row_count body \<le> 0 then State_Monad.return BB_ERR_DB
     else case db_row_fields body 0 2 of
       (k, f) \<Rightarrow>
         if k < 2 then State_Monad.return BB_ERR_DB
         else do {
           (r, _) \<leftarrow> exec_stmt E (snprintf_s SQL_MAX
             (''delete from '' @ BB_DB_TABLE_BALLOT @ '' where election_id = '' @ qid @ '' and hash = '' @ qhash @ '';'')) 0;
           if r \<noteq> BB_OK then State_Monad.return r
           else do {
             (r, _) \<leftarrow> exec_stmt E (snprintf_s SQL_MAX
               (''insert into '' @ BB_DB_TABLE_BALLOT @ '' values ('' @ qid @ '', '' @ qhash @ '', '' @
                field_copy 24 (f ! 0) @ '', '' @ field_copy 24 (f ! 1) @ '', 1);'')) 0;
             State_Monad.return r
           }
         }
   }"

definition run_nonce_mark :: "env \<Rightarrow> bb_db_cmd \<Rightarrow> (conn \<times> world, bb_result) state" where
  "run_nonce_mark E cmd = do {
     (r, _) \<leftarrow> exec_stmt E (snprintf_s SQL_MAX
       (''insert into '' @ BB_DB_TABLE_NONCE @ '' values ('' @ db_quote QUOTE_MAX (cmd_election_id cmd) @ '', '' @
        db_quote QUOTE_MAX (cmd_nonce cmd) @ '');'')) 0;
     State_Monad.return r
   }"

definition run_set_owner :: "env \<Rightarrow> bb_db_cmd \<Rightarrow> (conn \<times> world, bb_result) state" where
  "run_set_owner E cmd = do {
     let qid = db_quote QUOTE_MAX (cmd_election_id cmd);
     let qcert = db_quote QUOTE_MAX (cmd_cert_name cmd);
     (r, _) \<leftarrow> exec_stmt E (snprintf_s SQL_MAX
       (''delete from '' @ BB_DB_TABLE_OWNER @ '' where election_id = '' @ qid @ '' and cert_name = '' @ qcert @ '';'')) 0;
     if r \<noteq> BB_OK then State_Monad.return r
     else do {
       (r, _) \<leftarrow> exec_stmt E (snprintf_s SQL_MAX
         (''insert into '' @ BB_DB_TABLE_OWNER @ '' values ('' @ qid @ '', '' @ qcert @ '', '' @
          db_quote QUOTE_MAX (cmd_hash cmd) @ '', '' @ int_str (cmd_version cmd) @ '');'')) 0;
       State_Monad.return r
     }
   }"

text \<open>The loop of \<^verbatim>\<open>run_get_tally\<close>; the counters are C \<^verbatim>\<open>int\<close>s.\<close>

definition read_tally :: "string \<Rightarrow> nat \<Rightarrow> int list \<Rightarrow> int list" where
  "read_tally body n tally =
     foldl (\<lambda>tl i. case db_row_fields body (int i) 1 of
              (k, f) \<Rightarrow> if k < 1 then tl
                else let idx = field_int (f ! 0)
                     in if 0 \<le> idx \<and> idx < int BB_MAX_OPTIONS
                        then tl[nat idx := tl ! nat idx + 1] else tl)
       tally [0..<n]"

definition run_get_tally :: "env \<Rightarrow> bb_db_cmd \<Rightarrow> (conn \<times> world, bb_result \<times> bb_db_result) state" where
  "run_get_tally E cmd = do {
     (r, body) \<leftarrow> exec_stmt E (snprintf_s SQL_MAX
       (''select option_index from '' @ BB_DB_TABLE_BALLOT @ '' where election_id = '' @
        db_quote QUOTE_MAX (cmd_election_id cmd) @ '' and superseded = 0;'')) BODY_MAX;
     if r \<noteq> BB_OK then State_Monad.return (r, result0)
     else State_Monad.return (BB_OK,
       result0\<lparr>out_tally := read_tally body (nat (db_row_count body)) (out_tally result0)\<rparr>)
   }"

definition hash_of_fields :: "string list \<Rightarrow> bb_ballot_hash" where
  "hash_of_fields f = \<lparr>bh_hash = field_copy BB_HASH_LEN (f ! 0), bh_option_index = field_int (f ! 1),
     bh_version = field_int (f ! 2), bh_superseded = field_int (f ! 3)\<rparr>"

text \<open>The loop of \<^verbatim>\<open>run_get_hashes\<close>: the rows stored so far and their number.\<close>

definition read_hashes :: "string \<Rightarrow> nat \<Rightarrow> bb_ballot_hash list \<Rightarrow> bb_ballot_hash list \<times> nat" where
  "read_hashes body rows hs =
     foldl (\<lambda>(hs, n) i.
              if n < BB_MAX_VOTERS
              then case db_row_fields body (int i) 4 of
                     (k, f) \<Rightarrow> if k < 4 then (hs, n) else (hs[n := hash_of_fields f], Suc n)
              else (hs, n))
       (hs, 0) [0..<rows]"

definition run_get_hashes :: "env \<Rightarrow> bb_db_cmd \<Rightarrow> (conn \<times> world, bb_result \<times> bb_db_result) state" where
  "run_get_hashes E cmd = do {
     (r, body) \<leftarrow> exec_stmt E (snprintf_s SQL_MAX
       (''select hash, option_index, version, superseded from '' @ BB_DB_TABLE_BALLOT @ '' where election_id = '' @
        db_quote QUOTE_MAX (cmd_election_id cmd) @ '' and superseded = 0;'')) BODY_MAX;
     if r \<noteq> BB_OK then State_Monad.return (r, result0)
     else case read_hashes body (nat (db_row_count body)) (out_hashes result0) of
       (hs, n) \<Rightarrow> State_Monad.return (BB_OK, result0\<lparr>out_hashes := hs, out_hash_count := int n\<rparr>)
   }"

definition run_find_hash :: "env \<Rightarrow> bb_db_cmd \<Rightarrow> (conn \<times> world, bb_result \<times> bb_db_result) state" where
  "run_find_hash E cmd = do {
     (r, body) \<leftarrow> exec_stmt E (snprintf_s SQL_MAX
       (''select hash, option_index, version, superseded from '' @ BB_DB_TABLE_BALLOT @ '' where election_id = '' @
        db_quote QUOTE_MAX (cmd_election_id cmd) @ '' and hash = '' @ db_quote QUOTE_MAX (cmd_hash cmd) @
        '' and superseded = 0;'')) BODY_MAX;
     if r \<noteq> BB_OK then State_Monad.return (r, result0)
     else if db_row_count body \<le> 0 then State_Monad.return (BB_OK, result0)
     else case db_row_fields body 0 4 of
       (k, f) \<Rightarrow>
         if k < 4 then State_Monad.return (BB_ERR_DB, result0)
         else State_Monad.return (BB_OK, result0\<lparr>out_row := hash_of_fields f, out_found := True\<rparr>)
   }"

definition run_nonce_seen :: "env \<Rightarrow> bb_db_cmd \<Rightarrow> (conn \<times> world, bb_result \<times> bb_db_result) state" where
  "run_nonce_seen E cmd = do {
     (r, body) \<leftarrow> exec_stmt E (snprintf_s SQL_MAX
       (''select nonce from '' @ BB_DB_TABLE_NONCE @ '' where election_id = '' @
        db_quote QUOTE_MAX (cmd_election_id cmd) @ '' and nonce = '' @ db_quote QUOTE_MAX (cmd_nonce cmd) @ '';'')) BODY_MAX;
     if r \<noteq> BB_OK then State_Monad.return (r, result0)
     else State_Monad.return (BB_OK, result0\<lparr>out_found := (db_row_count body > 0)\<rparr>)
   }"

definition run_get_prior_ballot :: "env \<Rightarrow> bb_db_cmd \<Rightarrow> (conn \<times> world, bb_result \<times> bb_db_result) state" where
  "run_get_prior_ballot E cmd = do {
     (r, body) \<leftarrow> exec_stmt E (snprintf_s SQL_MAX
       (''select hash, version from '' @ BB_DB_TABLE_OWNER @ '' where election_id = '' @
        db_quote QUOTE_MAX (cmd_election_id cmd) @ '' and cert_name = '' @ db_quote QUOTE_MAX (cmd_cert_name cmd) @ '';'')) BODY_MAX;
     if r \<noteq> BB_OK then State_Monad.return (r, result0)
     else if db_row_count body \<le> 0 then State_Monad.return (BB_OK, result0)
     else case db_row_fields body 0 2 of
       (k, f) \<Rightarrow>
         if k < 2 then State_Monad.return (BB_ERR_DB, result0)
         else State_Monad.return (BB_OK, result0\<lparr>
           out_row := hash0\<lparr>bh_hash := field_copy BB_HASH_LEN (f ! 0), bh_version := field_int (f ! 1)\<rparr>,
           out_found := True\<rparr>)
   }"

definition no_out :: "(conn \<times> world, bb_result) state \<Rightarrow> (conn \<times> world, bb_result \<times> bb_db_result) state" where
  "no_out m = do { r \<leftarrow> m; State_Monad.return (r, result0) }"

definition run_op :: "env \<Rightarrow> bb_db_cmd \<Rightarrow> (conn \<times> world, bb_result \<times> bb_db_result) state" where
  "run_op E cmd =
     (case cmd_op cmd of
        BB_DB_INSERT_ELECTION \<Rightarrow> no_out (run_insert_election E cmd)
      | BB_DB_UPDATE_STATE \<Rightarrow> no_out (run_update_state E cmd)
      | BB_DB_APPEND_BALLOT \<Rightarrow> no_out (run_append_ballot E cmd)
      | BB_DB_MARK_SUPERSEDED \<Rightarrow> no_out (run_mark_superseded E cmd)
      | BB_DB_NONCE_MARK \<Rightarrow> no_out (run_nonce_mark E cmd)
      | BB_DB_SET_OWNER \<Rightarrow> no_out (run_set_owner E cmd)
      | BB_DB_GET_ELECTION \<Rightarrow> run_get_election E cmd
      | BB_DB_GET_TALLY \<Rightarrow> run_get_tally E cmd
      | BB_DB_GET_HASHES \<Rightarrow> run_get_hashes E cmd
      | BB_DB_FIND_HASH \<Rightarrow> run_find_hash E cmd
      | BB_DB_NONCE_SEEN \<Rightarrow> run_nonce_seen E cmd
      | BB_DB_GET_PRIOR_BALLOT \<Rightarrow> run_get_prior_ballot E cmd)"

section \<open>Self-owned commands\<close>

text \<open>The body of \<^verbatim>\<open>one_shot_attempt\<close> between opening and closing the connection.\<close>

definition one_shot_body ::
    "env \<Rightarrow> bb_db_cmd \<Rightarrow> bool \<Rightarrow> (conn \<times> world, bb_result \<times> bb_db_result) state" where
  "one_shot_body E cmd is_write = do {
     (r, _) \<leftarrow> (if is_write then exec_stmt E ''set transaction read write;'' 0
               else State_Monad.return (BB_OK, []));
     (r, out) \<leftarrow> (if r = BB_OK then run_op E cmd else State_Monad.return (r, result0));
     if is_write
     then if r = BB_OK
          then do { (r, _) \<leftarrow> exec_stmt E ''commit;'' 0; State_Monad.return (r, out) }
          else if r \<noteq> BB_ERR_RETRY
          then do { _ \<leftarrow> exec_stmt E ''rollback;'' 0; State_Monad.return (r, out) }
          else State_Monad.return (r, out)
     else State_Monad.return (r, out)
   }"

text \<open>Running a program over a connection that is closed afterwards.\<close>

definition with_conn :: "env \<Rightarrow> 'a \<Rightarrow> (conn \<times> world, 'a) state \<Rightarrow> (world, 'a) state" where
  "with_conn E none m = State (\<lambda>w.
     case db_socket_open E w of
       (None, w') \<Rightarrow> (none, w')
     | (Some c, w') \<Rightarrow> (case run_state m (c, w') of (a, cw) \<Rightarrow> (a, db_socket_close cw)))"

definition one_shot_attempt :: "env \<Rightarrow> bb_db_cmd \<Rightarrow> bool \<Rightarrow> (world, bb_result \<times> bb_db_result) state" where
  "one_shot_attempt E cmd is_write = with_conn E (BB_ERR_DB, result0) (one_shot_body E cmd is_write)"

text \<open>The loop of \<^verbatim>\<open>db_exec\<close>; \<open>out\<close> is what the last attempt left in the caller's buffer.\<close>

fun self_retry :: "env \<Rightarrow> bb_db_cmd \<Rightarrow> bool \<Rightarrow> nat \<Rightarrow> bb_db_result \<Rightarrow> (world, bb_result \<times> bb_db_result) state" where
  "self_retry E cmd is_write 0 out = State_Monad.return (BB_ERR_DB, out)"
| "self_retry E cmd is_write (Suc n) out = do {
     (r, out) \<leftarrow> one_shot_attempt E cmd is_write;
     if r \<noteq> BB_ERR_RETRY then State_Monad.return (r, out) else self_retry E cmd is_write n out
   }"

definition bb_log :: "string \<Rightarrow> (world, unit) state" where
  "bb_log line = State (\<lambda>w. ((), w\<lparr>w_log := w_log w @ [line]\<rparr>))"

text \<open>A command in the caller's transaction runs over the connection the context keeps.\<close>

definition on_txn_conn :: "conn \<Rightarrow> (conn \<times> world, 'a) state \<Rightarrow> (world, 'a) state" where
  "on_txn_conn c m = State (\<lambda>w.
     case run_state m (c, w) of (a, (c', w')) \<Rightarrow> (a, w'\<lparr>w_txn_conn := Some c'\<rparr>))"

definition db_exec :: "env \<Rightarrow> bb_db_cmd \<Rightarrow> (world, bb_result \<times> bb_db_result) state" where
  "db_exec E cmd = do {
     _ \<leftarrow> bb_log (log_cmd cmd);
     w \<leftarrow> State_Monad.get;
     case w_txn_conn w of
       Some c \<Rightarrow> on_txn_conn c (run_op E cmd)
     | None \<Rightarrow> self_retry E cmd (op_is_write (cmd_op cmd)) SELF_RETRY_ATTEMPTS result0
   }"

section \<open>Transaction control\<close>

definition bb_db_begin :: "env \<Rightarrow> (world, bb_result) state" where
  "bb_db_begin E = State (\<lambda>w.
     if w_txn_conn w \<noteq> None then (BB_ERR_DB, w)
     else case db_socket_open E w of
            (None, w') \<Rightarrow> (BB_ERR_DB, w')
          | (Some c, w') \<Rightarrow>
              (case run_state (exec_stmt E ''set transaction read write;'' 0) (c, w') of
                 ((r, _), (c', w'')) \<Rightarrow>
                   if r \<noteq> BB_OK then (r, db_socket_close (c', w''))
                   else (BB_OK, w''\<lparr>w_txn_conn := Some c'\<rparr>)))"

definition bb_db_commit :: "env \<Rightarrow> (world, bb_result) state" where
  "bb_db_commit E = State (\<lambda>w.
     case w_txn_conn w of
       None \<Rightarrow> (BB_ERR_DB, w)
     | Some c \<Rightarrow>
         (case run_state (exec_stmt E ''commit;'' 0) (c, w) of
            ((r, _), cw) \<Rightarrow> (r, (db_socket_close cw)\<lparr>w_txn_conn := None\<rparr>)))"

definition bb_db_rollback :: "env \<Rightarrow> (world, unit) state" where
  "bb_db_rollback E = State (\<lambda>w.
     case w_txn_conn w of
       None \<Rightarrow> ((), w)
     | Some c \<Rightarrow>
         (case run_state (exec_stmt E ''rollback;'' 0) (c, w) of
            (_, cw) \<Rightarrow> ((), (db_socket_close cw)\<lparr>w_txn_conn := None\<rparr>)))"

section \<open>Id allocation\<close>

definition max_seq_reply :: "db_status \<Rightarrow> string \<Rightarrow> int" where
  "max_seq_reply st body =
     (if st = DB_OK \<and> 0 < db_row_count body
      then case db_row_fields body 0 1 of
             (k, f) \<Rightarrow>
               if 1 \<le> k
               then case strtol (field_copy 24 (f ! 0)) of
                      (v, rest) \<Rightarrow> if rest = [] \<and> 0 \<le> v then wrap32 (wrap32 v + 1) else 100
               else 100
      else 100)"

definition bb_alloc_id :: "env \<Rightarrow> (world, string) state" where
  "bb_alloc_id E = do {
     next \<leftarrow> with_conn E 100 (State (\<lambda>cw.
       case db_socket_exec E (''select max(seq) from '' @ BB_DB_TABLE_ELECTION @ '';'') 4096 cw of
         ((st, body), cw') \<Rightarrow> (max_seq_reply st body, cw')));
     State_Monad.return (snprintf_s BB_ID_LEN (''E-'' @ int_str next))
   }"

text \<open>The seam as the daemon links it.\<close>

definition sql_seam :: "env \<Rightarrow> world seam" where
  "sql_seam E = \<lparr>sm_exec = db_exec E, sm_begin = bb_db_begin E, sm_commit = bb_db_commit E,
     sm_rollback = bb_db_rollback E, sm_alloc_id = bb_alloc_id E, sm_log = bb_log\<rparr>"

end
