(* ===== verification/Store_Rep.thy ===== *)
theory Store_Rep
  imports Brain_Store
begin

text \<open>
  How the tables of SimpleDB represent a \<open>store\<close>, and what one statement of
  \<^verbatim>\<open>libballotbrain\<close> does to a represented store, with and without a transaction. These are
  the rules the proofs about the commands of \<^verbatim>\<open>db.c\<close> are made of.
\<close>

section \<open>Representation\<close>

fun enc_election :: "string \<times> int \<times> string \<times> bb_state \<times> string \<times> string \<Rightarrow> row" where
  "enc_election (k, q, t, st, a, b) = [VInt q, VStr k, VStr t, VStr (bb_state_str st), VStr a, VStr b]"

fun enc_option :: "string \<times> int \<times> string \<Rightarrow> row" where
  "enc_option (k, i, nm) = [VStr k, VInt i, VStr nm]"

fun enc_eligible :: "string \<times> string \<Rightarrow> row" where
  "enc_eligible (k, c) = [VStr k, VStr c]"

fun enc_ballot :: "string \<times> string \<times> int \<times> int \<times> int \<Rightarrow> row" where
  "enc_ballot (k, h, ix, v, sd) = [VStr k, VStr h, VInt ix, VInt v, VInt sd]"

fun enc_owner :: "string \<times> string \<times> string \<times> int \<Rightarrow> row" where
  "enc_owner (k, c, h, v) = [VStr k, VStr c, VStr h, VInt v]"

fun enc_nonce :: "string \<times> string \<Rightarrow> row" where
  "enc_nonce (k, n) = [VStr k, VStr n]"

definition rep :: "store \<Rightarrow> tables \<Rightarrow> bool" where
  "rep S T \<longleftrightarrow>
     mset (T BB_DB_TABLE_ELECTION) = image_mset enc_election (st_election S) \<and>
     mset (T BB_DB_TABLE_OPTION) = image_mset enc_option (st_option S) \<and>
     mset (T BB_DB_TABLE_ELIGIBLE) = image_mset enc_eligible (st_eligible S) \<and>
     mset (T BB_DB_TABLE_BALLOT) = image_mset enc_ballot (st_ballot S) \<and>
     mset (T BB_DB_TABLE_OWNER) = image_mset enc_owner (st_owner S) \<and>
     mset (T BB_DB_TABLE_NONCE) = image_mset enc_nonce (st_nonce S)"

section \<open>Assertions over a connection\<close>

definition cw_ok :: "env \<Rightarrow> bool \<Rightarrow> conn \<times> world \<Rightarrow> bool" where
  "cw_ok E k cw \<longleftrightarrow>
     conn_ok (fst cw) \<and> (k \<longrightarrow> conn_calm (fst cw) \<and> (\<forall>t \<ge> w_tick (snd cw). calm_at E t))"

text \<open>
  \<open>sees E b k X D S\<close>: the connection is in use, \<open>D\<close> is durable and statements see \<open>S\<close>,
  inside a transaction if \<open>b\<close> and outside one otherwise. \<open>gone X D\<close>: only \<open>D\<close> is left.
  \<open>X\<close> is the connection the context keeps, which no statement touches.
\<close>

definition sees :: "env \<Rightarrow> bool \<Rightarrow> bool \<Rightarrow> conn option \<Rightarrow> store \<Rightarrow> store \<Rightarrow> conn \<times> world \<Rightarrow> bool" where
  "sees E b k X D S cw \<longleftrightarrow>
     cw_ok E k cw \<and> w_txn_conn (snd cw) = X \<and> rep D (committed (w_srv (snd cw))) \<and>
     (if b then \<exists>T. working (w_srv (snd cw)) = Some T \<and> rep S T
      else working (w_srv (snd cw)) = None \<and> S = D)"

definition gone :: "conn option \<Rightarrow> store \<Rightarrow> conn \<times> world \<Rightarrow> bool" where
  "gone X D cw \<longleftrightarrow> w_txn_conn (snd cw) = X \<and> rep D (committed (w_srv (snd cw)))"

lemma sees_gone: "sees E b k X D S cw \<Longrightarrow> gone X D cw"
  by (simp add: sees_def gone_def)

lemma sees_rep: "sees E b k X D S cw \<Longrightarrow> rep S (view (w_srv (snd cw)))"
  by (auto simp: sees_def view_def split: if_splits)

lemma cw_ok_step:
  "cw_ok E k (c, w) \<Longrightarrow> conn_ok c' \<Longrightarrow> (k \<Longrightarrow> conn_calm c') \<Longrightarrow> w_tick w' = Suc (w_tick w) \<Longrightarrow> cw_ok E k (c', w')"
  by (auto simp: cw_ok_def)

section \<open>Rules for one statement\<close>

definition failed_call :: "bool \<Rightarrow> conn option \<Rightarrow> store \<Rightarrow> bb_result \<Rightarrow> conn \<times> world \<Rightarrow> bool" where
  "failed_call k X D r cw \<longleftrightarrow> \<not> k \<and> infra r \<and> gone X D cw"

lemma map_status_cases:
  "map_status st = BB_OK \<longleftrightarrow> st = DB_OK" "map_status st = BB_ERR_RETRY \<longleftrightarrow> st = DB_RETRY"
  "st \<noteq> DB_OK \<Longrightarrow> infra (map_status st)"
  by (cases st; simp)+

context sdb_env
begin

lemma exec_stmt_run:
  assumes "cw_ok E k (c, w)" "stmt_clean st" "result_ok st (w_srv w)"
    and "run_state (exec_stmt E (sql_text st) cap) (c, w) = ((r, body), c', w')"
  shows "\<exists>s'. w' = w\<lparr>w_tick := Suc (w_tick w), w_srv := s'\<rparr> \<and>
     ((r = BB_OK \<and> cw_ok E k (c', w') \<and> legal st (w_srv w) \<and> s' = after E st (w_srv w) \<and>
       (is_query st \<longrightarrow> BODY_MAX \<le> cap \<longrightarrow> reads_rows body (query_rows (view (w_srv w)) st)) \<and>
       (is_query st \<longrightarrow> 4096 \<le> cap \<longrightarrow> length (query_rows (view (w_srv w)) st) \<le> 1 \<longrightarrow>
           reads_rows body (query_rows (view (w_srv w)) st))) \<or>
      (r \<noteq> BB_OK \<and> infra r \<and> \<not> (k \<and> legal st (w_srv w)) \<and>
       s' \<in> {w_srv w, abort (w_srv w), after E st (w_srv w)} \<and>
       (r = BB_ERR_RETRY \<longrightarrow> s' = abort (w_srv w))))"
proof -
  from assms(4) obtain status where
    ex: "db_socket_exec E (sql_text st) cap (c, w) = ((status, body), c', w')" "r = map_status status"
    by (auto simp: exec_stmt_def split: prod.splits)
  have c: "conn_ok c" using assms(1) by (simp add: cw_ok_def)
  from exec_stmt_cases [OF c assms(2,3) ex(1)] obtain s' where
    w': "w' = w\<lparr>w_tick := Suc (w_tick w), w_srv := s'\<rparr>" and
    cs: "(status = DB_OK \<and> conn_ok c' \<and> legal st (w_srv w) \<and> s' = after E st (w_srv w) \<and>
        (is_query st \<longrightarrow> 15452 \<le> cap \<longrightarrow> reads_rows body (query_rows (view (w_srv w)) st)) \<and>
        (is_query st \<longrightarrow> 4096 \<le> cap \<longrightarrow> length (query_rows (view (w_srv w)) st) \<le> 1 \<longrightarrow>
           reads_rows body (query_rows (view (w_srv w)) st))) \<or>
      (status \<in> {DB_RETRY, DB_ERROR} \<and> conn_ok c' \<and> s' \<in> {w_srv w, abort (w_srv w)} \<and>
        (status = DB_RETRY \<longrightarrow> s' = abort (w_srv w))) \<or>
      (status \<in> {DB_IO, DB_TIMEOUT} \<and> c_failed c' = status \<and>
        s' \<in> {w_srv w, abort (w_srv w), after E st (w_srv w)})"
    by blast
  have calm: "k \<Longrightarrow> legal st (w_srv w) \<Longrightarrow> status = DB_OK \<and> conn_calm c'"
    using exec_stmt_calm [OF _ _ assms(2,3) _ ex(1)] assms(1) by (simp add: cw_ok_def)
  have tick: "w_tick w' = Suc (w_tick w)" using w' by simp
  show ?thesis
  proof (cases "status = DB_OK")
    case True
    with cs calm tick assms(1) have "cw_ok E k (c', w')" by (auto intro: cw_ok_step)
    with True cs w' ex(2) show ?thesis by (intro exI [of _ s']) (simp add: BODY_MAX_def)
  next
    case False
    with ex(2) have "r \<noteq> BB_OK" "infra r" "r = BB_ERR_RETRY \<longrightarrow> status = DB_RETRY"
      by (cases status; simp)+
    with False cs calm w' show ?thesis by (intro exI [of _ s']) auto
  qed
qed

lemma exec_query:
  assumes "stmt_clean st" "is_query st" "length (query_cols st) \<le> 6"
    and "\<And>T. rep S T \<Longrightarrow> length (query_rows T st) \<le> 64 \<and> (\<forall>r \<in> set (query_rows T st). row_ok r)"
  shows "spec (sees E b k X D S) (exec_stmt E (sql_text st) BODY_MAX)
    (\<lambda>(r, body) cw. (r = BB_OK \<and> (\<exists>T. rep S T \<and> reads_rows body (query_rows T st)) \<and> sees E b k X D S cw) \<or>
                    (r \<noteq> BB_OK \<and> failed_call k X D r cw))"
proof (rule spec_pairI)
  fix c w r body c' w'
  assume P: "sees E b k X D S (c, w)"
    and run: "run_state (exec_stmt E (sql_text st) BODY_MAX) (c, w) = ((r, body), c', w')"
  have rp: "rep S (view (w_srv w))" using sees_rep [OF P] by simp
  have res: "result_ok st (w_srv w)" using assms(3,4) rp by (simp add: result_ok_def)
  have ok: "cw_ok E k (c, w)" using P by (simp add: sees_def)
  have aft: "after E st (w_srv w) = w_srv w" "legal st (w_srv w)"
    using assms(2) by (cases st; auto simp: is_query_def set_view_def view_def split: option.splits)+
  from exec_stmt_run [OF ok assms(1) res run] obtain s' where
    w': "w' = w\<lparr>w_tick := Suc (w_tick w), w_srv := s'\<rparr>" and
    cs: "(r = BB_OK \<and> cw_ok E k (c', w') \<and> s' = w_srv w \<and> reads_rows body (query_rows (view (w_srv w)) st)) \<or>
      (r \<noteq> BB_OK \<and> infra r \<and> \<not> k \<and> s' \<in> {w_srv w, abort (w_srv w)})"
    using aft assms(2) by blast
  from cs show "(case (r, body) of (r, body) \<Rightarrow> \<lambda>cw.
      (r = BB_OK \<and> (\<exists>T. rep S T \<and> reads_rows body (query_rows T st)) \<and> sees E b k X D S cw) \<or>
      (r \<noteq> BB_OK \<and> failed_call k X D r cw)) (c', w')"
  proof (elim disjE)
    assume "r = BB_OK \<and> cw_ok E k (c', w') \<and> s' = w_srv w \<and> reads_rows body (query_rows (view (w_srv w)) st)"
    with w' P rp show ?thesis by (auto simp: sees_def)
  next
    assume "r \<noteq> BB_OK \<and> infra r \<and> \<not> k \<and> s' \<in> {w_srv w, abort (w_srv w)}"
    with w' P show ?thesis by (auto simp: sees_def failed_call_def gone_def abort_def)
  qed
qed

text \<open>An insert or delete inside a transaction.\<close>

lemma exec_update:
  assumes "stmt_clean st" "\<not> is_query st" "\<not> is_transact st"
    and "\<And>T. rep S T \<Longrightarrow> rep S' (update_tables E T st)"
  shows "spec (sees E True k X D S) (exec_stmt E (sql_text st) cap)
    (\<lambda>(r, body) cw. (r = BB_OK \<and> sees E True k X D S' cw) \<or> (r \<noteq> BB_OK \<and> failed_call k X D r cw))"
proof (rule spec_pairI)
  fix c w r body c' w'
  assume P: "sees E True k X D S (c, w)"
    and run: "run_state (exec_stmt E (sql_text st) cap) (c, w) = ((r, body), c', w')"
  from P obtain T where T: "working (w_srv w) = Some T" "rep S T" by (auto simp: sees_def)
  have res: "result_ok st (w_srv w)"
    using assms(1,2) by (cases st) (auto simp: result_ok_def is_query_def)
  have ok: "cw_ok E k (c, w)" using P by (simp add: sees_def)
  have aft: "after E st (w_srv w) = (w_srv w)\<lparr>working := Some (update_tables E T st)\<rparr>" "legal st (w_srv w)"
    using assms(3) T by (cases st; simp add: is_transact_def set_view_def view_def)+
  from exec_stmt_run [OF ok assms(1) res run] obtain s' where
    w': "w' = w\<lparr>w_tick := Suc (w_tick w), w_srv := s'\<rparr>" and
    cs: "(r = BB_OK \<and> cw_ok E k (c', w') \<and> s' = after E st (w_srv w)) \<or>
      (r \<noteq> BB_OK \<and> infra r \<and> \<not> k \<and> s' \<in> {w_srv w, abort (w_srv w), after E st (w_srv w)})"
    using aft(2) by blast
  from cs show "(case (r, body) of (r, body) \<Rightarrow> \<lambda>cw.
      (r = BB_OK \<and> sees E True k X D S' cw) \<or> (r \<noteq> BB_OK \<and> failed_call k X D r cw)) (c', w')"
  proof (elim disjE)
    assume "r = BB_OK \<and> cw_ok E k (c', w') \<and> s' = after E st (w_srv w)"
    with w' P aft assms(4) [OF T(2)] show ?thesis by (simp add: sees_def)
  next
    assume "r \<noteq> BB_OK \<and> infra r \<and> \<not> k \<and> s' \<in> {w_srv w, abort (w_srv w), after E st (w_srv w)}"
    with w' P aft show ?thesis by (auto simp: sees_def failed_call_def gone_def abort_def)
  qed
qed

text \<open>The transaction statements.\<close>

lemma transact_ok: "is_transact st \<Longrightarrow> stmt_clean st \<and> result_ok st s"
  by (cases st) (auto simp: is_transact_def result_ok_def)

lemma exec_begin:
  "spec (sees E False k X D D) (exec_stmt E ''set transaction read write;'' cap)
    (\<lambda>(r, body) cw. (r = BB_OK \<and> sees E True k X D D cw) \<or> (r \<noteq> BB_OK \<and> failed_call k X D r cw))"
proof (rule spec_pairI)
  fix c w r body c' w'
  assume P: "sees E False k X D D (c, w)"
    and run: "run_state (exec_stmt E ''set transaction read write;'' cap) (c, w) = ((r, body), c', w')"
  have ok: "cw_ok E k (c, w)" and T: "working (w_srv w) = None" using P by (auto simp: sees_def)
  note t = transact_ok [of SBegin "w_srv w"]
  from exec_stmt_run [OF ok _ _ run [folded sql_text.simps(5)]] t T obtain s' where
    w': "w' = w\<lparr>w_tick := Suc (w_tick w), w_srv := s'\<rparr>" and
    cs: "(r = BB_OK \<and> cw_ok E k (c', w') \<and> s' = after E SBegin (w_srv w)) \<or>
      (r \<noteq> BB_OK \<and> infra r \<and> \<not> k \<and> s' \<in> {w_srv w, abort (w_srv w), after E SBegin (w_srv w)})"
    by (auto simp: is_transact_def)
  from cs show "(case (r, body) of (r, body) \<Rightarrow> \<lambda>cw.
      (r = BB_OK \<and> sees E True k X D D cw) \<or> (r \<noteq> BB_OK \<and> failed_call k X D r cw)) (c', w')"
    using w' P by (auto simp: sees_def failed_call_def gone_def abort_def)
qed

lemma exec_commit:
  "spec (sees E True k X D S) (exec_stmt E ''commit;'' cap)
    (\<lambda>(r, body) cw. (r = BB_OK \<and> gone X S cw \<and> (k \<longrightarrow> (\<forall>t \<ge> w_tick (snd cw). calm_at E t))) \<or>
       (r \<noteq> BB_OK \<and> \<not> k \<and> infra r \<and> (gone X D cw \<or> (r = BB_ERR_DB \<and> gone X S cw))))"
proof (rule spec_pairI)
  fix c w r body c' w'
  assume P: "sees E True k X D S (c, w)"
    and run: "run_state (exec_stmt E ''commit;'' cap) (c, w) = ((r, body), c', w')"
  from P obtain T where T: "working (w_srv w) = Some T" "rep S T" by (auto simp: sees_def)
  have ok: "cw_ok E k (c, w)" using P by (auto simp: sees_def)
  note t = transact_ok [of SCommit "w_srv w"]
  from exec_stmt_run [OF ok _ _ run [folded sql_text.simps(6)]] t T obtain s' where
    w': "w' = w\<lparr>w_tick := Suc (w_tick w), w_srv := s'\<rparr>" and
    cs: "(r = BB_OK \<and> cw_ok E k (c', w') \<and> s' = after E SCommit (w_srv w)) \<or>
      (r = BB_ERR_RETRY \<and> \<not> k \<and> s' = abort (w_srv w)) \<or>
      (r = BB_ERR_DB \<and> \<not> k \<and> s' \<in> {w_srv w, abort (w_srv w), after E SCommit (w_srv w)})"
    by (fastforce simp: is_transact_def)
  from cs show "(case (r, body) of (r, body) \<Rightarrow> \<lambda>cw.
      (r = BB_OK \<and> gone X S cw \<and> (k \<longrightarrow> (\<forall>t \<ge> w_tick (snd cw). calm_at E t))) \<or>
       (r \<noteq> BB_OK \<and> \<not> k \<and> infra r \<and> (gone X D cw \<or> (r = BB_ERR_DB \<and> gone X S cw)))) (c', w')"
    using w' P T by (auto simp: sees_def gone_def abort_def view_def cw_ok_def)
qed

end

end
