(* ===== verification/Store_Reads.thy ===== *)
theory Store_Reads
  imports Store_Rep
begin

text \<open>
  The reading commands of \<^verbatim>\<open>db.c\<close> meet their meaning in \<open>read_spec\<close>: the SQL text each
  sends is a clean statement, the rows it gets back are the represented ones in some order,
  and the parsing loops rebuild them. Each command runs inside a transaction or outside one.
\<close>

section \<open>Rows and multisets\<close>

lemma mset_query:
  "mset (T t) = image_mset enc M \<Longrightarrow>
   mset (query_rows T (SSelect cols t cs)) =
   image_mset (\<lambda>x. project t cols (enc x)) (filter_mset (\<lambda>x. row_matches t cs (enc x)) M)"
  by (simp add: filter_mset_image_mset image_mset.compositionality comp_def)

lemma rows_sel:
  assumes "\<And>x. x \<in># M \<Longrightarrow> P x \<longleftrightarrow> fst x = k \<and> Q (snd x)"
    and "\<And>x. x \<in># M \<Longrightarrow> P x \<Longrightarrow> f x = g (snd x)"
  shows "image_mset f (filter_mset P M) = image_mset g (filter_mset Q (sel k M))"
proof -
  have "filter_mset P M = filter_mset (\<lambda>x. Q (snd x)) (filter_mset (\<lambda>x. fst x = k) M)"
    using assms(1) by (auto simp: filter_filter_mset intro!: filter_mset_cong)
  moreover have "image_mset f (filter_mset P M) = image_mset (\<lambda>x. g (snd x)) (filter_mset P M)"
    using assms(2) by (auto intro!: image_mset_cong)
  ultimately show ?thesis
    by (simp add: sel_def filter_mset_image_mset image_mset.compositionality comp_def)
qed

lemma query_sel:
  assumes "mset (T t) = image_mset enc M"
    and "\<And>x. x \<in># M \<Longrightarrow> row_matches t cs (enc x) \<longleftrightarrow> fst x = k \<and> Q (snd x)"
    and "\<And>x. x \<in># M \<Longrightarrow> row_matches t cs (enc x) \<Longrightarrow> project t cols (enc x) = g (snd x)"
  shows "mset (query_rows T (SSelect cols t cs)) = image_mset g (filter_mset Q (sel k M))"
proof -
  have "image_mset (\<lambda>x. project t cols (enc x)) (filter_mset (\<lambda>x. row_matches t cs (enc x)) M) =
        image_mset g (filter_mset Q (sel k M))"
    using assms(2,3) by (intro rows_sel) auto
  then show ?thesis using mset_query [where enc = enc and T = T and t = t and M = M] assms(1) by simp
qed

lemma query_all:
  assumes "mset (T t) = image_mset enc M"
    and "\<And>x. x \<in># M \<Longrightarrow> row_matches t cs (enc x) \<longleftrightarrow> fst x = k"
    and "\<And>x. x \<in># M \<Longrightarrow> row_matches t cs (enc x) \<Longrightarrow> project t cols (enc x) = g (snd x)"
  shows "mset (query_rows T (SSelect cols t cs)) = image_mset g (sel k M)"
  using query_sel [where enc = enc and Q = "\<lambda>_. True" and T = T and t = t and M = M and k = k and g = g] assms
  by simp

lemmas row_eval = row_matches_def project_def get_col_def schema_def table_names STRING_LEN_def

lemma fits_take [simp]: "fits n s \<Longrightarrow> n \<le> 128 \<Longrightarrow> take STRING_LEN s = s"
  by (simp add: fits_def STRING_LEN_def)

lemma lead_fits: "lead n s \<Longrightarrow> fits n s"
  by (simp add: lead_def)

lemma mset_rows_facts:
  assumes "mset rows = image_mset g M"
  shows "length rows = size M" "set rows = g ` set_mset M"
  using assms by (metis size_mset size_image_mset, metis set_mset_mset set_image_mset)

lemma nonce_rows:
  assumes "rep S T" "fits 15 k" "fits 32 n"
  shows "mset (query_rows T (SSelect [''nonce''] BB_DB_TABLE_NONCE
           [(''election_id'', VStr k), (''nonce'', VStr n)])) =
         image_mset (\<lambda>n. [VStr n]) (filter_mset (\<lambda>n'. n' = n) (sel k (st_nonce S)))"
  using assms by (intro query_sel [where enc = enc_nonce]) (auto simp: rep_def row_eval fits_def)

lemma owner_rows:
  assumes "rep S T" "fits 15 k" "fits 31 c"
  shows "mset (query_rows T (SSelect [''hash'', ''version''] BB_DB_TABLE_OWNER
           [(''election_id'', VStr k), (''cert_name'', VStr c)])) =
         image_mset (\<lambda>(c, h, v). [VStr h, VInt v]) (owners_with S k c)"
  unfolding owners_with_def
  using assms by (intro query_sel [where enc = enc_owner]) (auto simp: rep_def row_eval fits_def)

lemma live_rows:
  assumes "rep S T" "fits 15 k"
  shows "mset (query_rows T (SSelect [''option_index''] BB_DB_TABLE_BALLOT
           [(''election_id'', VStr k), (''superseded'', VInt 0)])) =
         image_mset (\<lambda>(h, ix, v, sd). [VInt ix]) (live_ballots S k)"
    "mset (query_rows T (SSelect [''hash'', ''option_index'', ''version'', ''superseded''] BB_DB_TABLE_BALLOT
           [(''election_id'', VStr k), (''superseded'', VInt 0)])) =
         image_mset (\<lambda>(h, ix, v, sd). [VStr h, VInt ix, VInt v, VInt sd]) (live_ballots S k)"
  unfolding live_ballots_def
  using assms by (intro query_sel [where enc = enc_ballot]; auto simp: rep_def row_eval fits_def)+

lemma hash_rows:
  assumes "rep S T" "fits 15 k" "fits 64 h"
  shows "mset (query_rows T (SSelect [''hash'', ''option_index'', ''version'', ''superseded''] BB_DB_TABLE_BALLOT
           [(''election_id'', VStr k), (''hash'', VStr h), (''superseded'', VInt 0)])) =
         image_mset (\<lambda>(h, ix, v, sd). [VStr h, VInt ix, VInt v, VInt sd])
           (live_with S k h)"
    "mset (query_rows T (SSelect [''option_index'', ''version''] BB_DB_TABLE_BALLOT
           [(''election_id'', VStr k), (''hash'', VStr h)])) =
         image_mset (\<lambda>(h, ix, v, sd). [VInt ix, VInt v]) (ballots_with S k h)"
  unfolding live_with_def ballots_with_def filter_filter_mset
  using assms by (intro query_sel [where enc = enc_ballot]; auto simp: rep_def row_eval fits_def)+

lemma election_rows:
  assumes "rep S T" "fits 15 k"
  shows "mset (query_rows T (SSelect [''seq'', ''id'', ''title'', ''state'', ''open_time'', ''close_time'']
           BB_DB_TABLE_ELECTION [(''id'', VStr k)])) =
         image_mset (\<lambda>(q, t, st, a, b). [VInt q, VStr k, VStr t, VStr (bb_state_str st), VStr a, VStr b])
           (sel k (st_election S))"
    "mset (query_rows T (SSelect [''seq'', ''title'', ''open_time'', ''close_time'']
           BB_DB_TABLE_ELECTION [(''id'', VStr k)])) =
         image_mset (\<lambda>(q, t, st, a, b). [VInt q, VStr t, VStr a, VStr b]) (sel k (st_election S))"
  using assms by (intro query_all [where enc = enc_election]; auto simp: rep_def row_eval fits_def)+

lemma list_rows:
  assumes "rep S T" "fits 15 k"
  shows "mset (query_rows T (SSelect [''idx'', ''name''] BB_DB_TABLE_OPTION [(''election_id'', VStr k)])) =
         image_mset (\<lambda>(i, nm). [VInt i, VStr nm]) (sel k (st_option S))"
    "mset (query_rows T (SSelect [''cert_name''] BB_DB_TABLE_ELIGIBLE [(''election_id'', VStr k)])) =
         image_mset (\<lambda>c. [VStr c]) (sel k (st_eligible S))"
  using assms
  by (intro query_all [where enc = enc_option] query_all [where enc = enc_eligible];
      auto simp: rep_def row_eval fits_def)+

section \<open>Represented updates\<close>

context sdb_env
begin

lemma rep_insert:
  assumes "rep S T"
  shows
    "map field_val vs = enc_election x1 \<Longrightarrow>
     rep (S\<lparr>st_election := add_mset x1 (st_election S)\<rparr>) (update_tables E T (SInsert BB_DB_TABLE_ELECTION vs))"
    "map field_val vs = enc_option x2 \<Longrightarrow>
     rep (S\<lparr>st_option := add_mset x2 (st_option S)\<rparr>) (update_tables E T (SInsert BB_DB_TABLE_OPTION vs))"
    "map field_val vs = enc_eligible x3 \<Longrightarrow>
     rep (S\<lparr>st_eligible := add_mset x3 (st_eligible S)\<rparr>) (update_tables E T (SInsert BB_DB_TABLE_ELIGIBLE vs))"
    "map field_val vs = enc_ballot x4 \<Longrightarrow>
     rep (S\<lparr>st_ballot := add_mset x4 (st_ballot S)\<rparr>) (update_tables E T (SInsert BB_DB_TABLE_BALLOT vs))"
    "map field_val vs = enc_owner x5 \<Longrightarrow>
     rep (S\<lparr>st_owner := add_mset x5 (st_owner S)\<rparr>) (update_tables E T (SInsert BB_DB_TABLE_OWNER vs))"
    "map field_val vs = enc_nonce x6 \<Longrightarrow>
     rep (S\<lparr>st_nonce := add_mset x6 (st_nonce S)\<rparr>) (update_tables E T (SInsert BB_DB_TABLE_NONCE vs))"
  using assms by (simp_all add: rep_def place_adds table_names)

lemma filter_image_not:
  assumes "mset xs = image_mset enc M" "\<And>x. x \<in># M \<Longrightarrow> row_matches t cs (enc x) \<longleftrightarrow> \<not> P x"
  shows "mset (filter (\<lambda>r. \<not> row_matches t cs r) xs) = image_mset enc (filter_mset P M)"
proof -
  have "filter_mset (\<lambda>x. \<not> row_matches t cs (enc x)) M = filter_mset P M"
    using assms(2) by (auto intro: filter_mset_cong)
  then show ?thesis using assms(1) by (simp add: filter_mset_image_mset)
qed

lemma rep_delete:
  assumes "rep S T"
  shows
    "(\<And>x. x \<in># st_election S \<Longrightarrow> row_matches BB_DB_TABLE_ELECTION cs (enc_election x) \<longleftrightarrow> \<not> P1 x) \<Longrightarrow>
     rep (S\<lparr>st_election := filter_mset P1 (st_election S)\<rparr>) (update_tables E T (SDelete BB_DB_TABLE_ELECTION cs))"
    "(\<And>x. x \<in># st_ballot S \<Longrightarrow> row_matches BB_DB_TABLE_BALLOT cs (enc_ballot x) \<longleftrightarrow> \<not> P2 x) \<Longrightarrow>
     rep (S\<lparr>st_ballot := filter_mset P2 (st_ballot S)\<rparr>) (update_tables E T (SDelete BB_DB_TABLE_BALLOT cs))"
    "(\<And>x. x \<in># st_owner S \<Longrightarrow> row_matches BB_DB_TABLE_OWNER cs (enc_owner x) \<longleftrightarrow> \<not> P3 x) \<Longrightarrow>
     rep (S\<lparr>st_owner := filter_mset P3 (st_owner S)\<rparr>) (update_tables E T (SDelete BB_DB_TABLE_OWNER cs))"
  using assms filter_image_not [of "T BB_DB_TABLE_ELECTION" enc_election "st_election S" BB_DB_TABLE_ELECTION cs P1]
    filter_image_not [of "T BB_DB_TABLE_BALLOT" enc_ballot "st_ballot S" BB_DB_TABLE_BALLOT cs P2]
    filter_image_not [of "T BB_DB_TABLE_OWNER" enc_owner "st_owner S" BB_DB_TABLE_OWNER cs P3]
  by (simp_all add: rep_def table_names)

end

section \<open>Texts\<close>

lemma quote_fits: "fits n s \<Longrightarrow> n \<le> 128 \<Longrightarrow> db_quote QUOTE_MAX s = SQ # s @ [SQ]"
  using clean_string_facts [of s] by (simp add: fits_def db_quote_fits dbl_id QUOTE_MAX_def)

lemma sql_fits: "length s < 4096 \<Longrightarrow> snprintf_s SQL_MAX s = s"
  by (simp add: SQL_MAX_def)

lemma count_str_length: "count_ok i \<Longrightarrow> length (int_str i) \<le> 11"
  by (rule int_str_length) auto

lemma int_str_0 [simp]: "int_str 0 = ''0''"
  by code_simp

lemma fits_length: "fits n s \<Longrightarrow> length s \<le> n"
  by (simp add: fits_def)

lemma fits_clean: "fits n s \<Longrightarrow> val_clean (VStr s)"
  by (simp add: fits_def)

lemmas sql_eval = where_text_def quoted_def conds_ok_def schema_def table_names type_ok_def

lemma stmt_clean_query:
  assumes "fits 15 k"
  shows "stmt_clean (SSelect [''seq'', ''id'', ''title'', ''state'', ''open_time'', ''close_time'']
           BB_DB_TABLE_ELECTION [(''id'', VStr k)])"
    "stmt_clean (SSelect [''seq'', ''title'', ''open_time'', ''close_time''] BB_DB_TABLE_ELECTION [(''id'', VStr k)])"
    "stmt_clean (SSelect [''idx'', ''name''] BB_DB_TABLE_OPTION [(''election_id'', VStr k)])"
    "stmt_clean (SSelect [''cert_name''] BB_DB_TABLE_ELIGIBLE [(''election_id'', VStr k)])"
    "stmt_clean (SSelect [''option_index''] BB_DB_TABLE_BALLOT [(''election_id'', VStr k), (''superseded'', VInt 0)])"
    "stmt_clean (SSelect [''hash'', ''option_index'', ''version'', ''superseded''] BB_DB_TABLE_BALLOT
       [(''election_id'', VStr k), (''superseded'', VInt 0)])"
    "fits 64 h \<Longrightarrow> stmt_clean (SSelect [''hash'', ''option_index'', ''version'', ''superseded''] BB_DB_TABLE_BALLOT
       [(''election_id'', VStr k), (''hash'', VStr h), (''superseded'', VInt 0)])"
    "fits 64 h \<Longrightarrow> stmt_clean (SSelect [''option_index'', ''version''] BB_DB_TABLE_BALLOT
       [(''election_id'', VStr k), (''hash'', VStr h)])"
    "fits 32 n \<Longrightarrow> stmt_clean (SSelect [''nonce''] BB_DB_TABLE_NONCE [(''election_id'', VStr k), (''nonce'', VStr n)])"
    "fits 31 c \<Longrightarrow> stmt_clean (SSelect [''hash'', ''version''] BB_DB_TABLE_OWNER
       [(''election_id'', VStr k), (''cert_name'', VStr c)])"
  using assms by (simp_all add: sql_eval fits_def)

section \<open>Rows of a well-formed store\<close>

lemma row_ok_simps:
  "row_ok [VStr s] \<longleftrightarrow> s \<noteq> [] \<and> list_all clean_char s \<and> length s \<le> 200 \<and> take 6 s \<noteq> DB_MARK_END \<and> \<not> error_line s"
  "row_ok [VInt i] \<longleftrightarrow> int32_ok i \<and> length (int_str i) \<le> 200"
  "row_ok (VStr s # v # vs) \<longleftrightarrow> list_all clean_char s \<and> take 6 s \<noteq> DB_MARK_END \<and> \<not> error_line s \<and>
     list_all print_clean (v # vs) \<and> length s + 1 + length (print_row (v # vs)) \<le> 200"
  "row_ok (VInt i # v # vs) \<longleftrightarrow> int32_ok i \<and>
     list_all print_clean (v # vs) \<and> length (int_str i) + 1 + length (print_row (v # vs)) \<le> 200"
  by (auto simp: row_ok_def print_row_def)

lemma sel_member: "x \<in># sel k M \<Longrightarrow> (k, x) \<in># M"
  by (auto simp: sel_def)

lemma sel_text:
  assumes "store_ok S"
  shows "(q, t, st, a, b) \<in># sel k (st_election S) \<Longrightarrow> count_ok q \<and> fits 63 t \<and> fits 31 a \<and> fits 31 b"
    "(i, nm) \<in># sel k (st_option S) \<Longrightarrow> count_ok i \<and> fits 31 nm"
    "c \<in># sel k (st_eligible S) \<Longrightarrow> lead 31 c \<and> c \<noteq> []"
    "(h, ix, v, sd) \<in># sel k (st_ballot S) \<Longrightarrow> lead 64 h \<and> count_ok ix \<and> count_ok v \<and> count_ok sd"
    "(c, h, v) \<in># sel k (st_owner S) \<Longrightarrow> fits 31 c \<and> lead 64 h \<and> count_ok v"
    "n \<in># sel k (st_nonce S) \<Longrightarrow> lead 32 n \<and> n \<noteq> []"
  using assms by (fastforce simp: store_ok_def rows_text_ok_def dest!: sel_member)+

lemma lead_row: "lead n s \<Longrightarrow> list_all clean_char s \<and> length s \<le> n \<and> take 6 s \<noteq> DB_MARK_END \<and> \<not> error_line s"
  by (simp add: lead_def fits_def)

lemma mset_eq_map: "mset ys = image_mset g M \<Longrightarrow> \<exists>xs. mset xs = M \<and> ys = map g xs"
proof (induction ys arbitrary: M)
  case (Cons y ys)
  then obtain M1 x where "M = add_mset x M1" "g x = y" "image_mset g M1 = mset ys"
    by (metis mset.simps(2) msed_map_invR)
  with Cons.IH [of M1] obtain xs where "mset xs = M1" "ys = map g xs" by auto
  with \<open>M = add_mset x M1\<close> \<open>g x = y\<close> show ?case by (intro exI [of _ "x # xs"]) simp
qed simp

lemma reads_first:
  assumes "reads_rows body (map g xs)" "xs \<noteq> []"
  shows "\<exists>x. x \<in># mset xs \<and> 0 < db_row_count body \<and>
    db_row_fields body 0 m = (int (length (g x)), take m (map print_val (g x)))"
proof (intro exI conjI)
  show "xs ! 0 \<in># mset xs" using assms(2) by simp
  show "0 < db_row_count body" using assms by (simp add: reads_rows_def)
  have "0 < length (map g xs)" using assms(2) by simp
  with assms(1) have "db_row_fields body (int 0) m = (int (length (map g xs ! 0)), take m (map print_val (map g xs ! 0)))"
    unfolding reads_rows_def by blast
  then show "db_row_fields body 0 m = (int (length (g (xs ! 0))), take m (map print_val (g (xs ! 0))))"
    using assms(2) by (simp add: nth_map [of 0])
qed

lemma field_copy_fits: "fits n s \<Longrightarrow> n < cap \<Longrightarrow> field_copy cap s = s"
  by (auto simp: field_copy_def fits_def)

lemma field_int_count: "count_ok i \<Longrightarrow> field_int (int_str i) = i"
  using count_str_length [of i] by (simp add: field_int_def field_copy_def)

lemma mset_single: "size M \<le> 1 \<Longrightarrow> x \<in># M \<Longrightarrow> M = {#x#}"
  by (auto dest!: multi_member_split)

section \<open>The reading loops\<close>

lemma foldl_nth: "foldl (\<lambda>a i. H a (xs ! i)) a [0..<length xs] = foldl H a xs"
proof -
  have "foldl H a (map ((!) xs) [0..<length xs]) = foldl (\<lambda>a i. H a (xs ! i)) a [0..<length xs]"
    by (simp only: foldl_map)
  then show ?thesis by (simp add: map_nth)
qed

lemma rows_at:
  assumes "reads_rows body (map g xs)" "i < length xs"
  shows "db_row_fields body (int i) m = (int (length (g (xs ! i))), take m (map print_val (g (xs ! i))))"
  using assms by (simp add: reads_rows_def)

lemma rows_number: "reads_rows body (map g xs) \<Longrightarrow> nat (db_row_count body) = length xs"
  by (simp add: reads_rows_def)

lemma read_tally_rows:
  assumes "reads_rows body (map (\<lambda>(h, ix, v, sd). [VInt ix]) xs)" "\<forall>(h, ix, v, sd) \<in> set xs. count_ok ix"
  shows "read_tally body (length xs) ta =
    foldl (\<lambda>ta (h, ix, v, sd). if ix < 16 then ta[nat ix := ta ! nat ix + 1] else ta) ta xs"
proof -
  let ?H = "\<lambda>ta (h, ix, v, sd). if ix < 16 then ta[nat ix := ta ! nat ix + (1 :: int)] else ta"
  have "read_tally body (length xs) ta = foldl (\<lambda>ta i. ?H ta (xs ! i)) ta [0..<length xs]"
    unfolding read_tally_def
  proof (rule foldl_cong)
    fix ta i assume i: "i \<in> set [0..<length xs]"
    obtain h ix v sd where x: "xs ! i = (h, ix, v, sd)" by (cases "xs ! i")
    with i assms(2) have "count_ok ix" by (metis (no_types, lifting) atLeastLessThan_iff case_prodD nth_mem set_upt)
    with i x rows_at [OF assms(1), of i 1]
    show "(case db_row_fields body (int i) 1 of
            (k, f) \<Rightarrow> if k < 1 then ta
              else let idx = field_int (f ! 0)
                   in if 0 \<le> idx \<and> idx < int BB_MAX_OPTIONS then ta[nat idx := ta ! nat idx + 1] else ta) = ?H ta (xs ! i)"
      by (simp add: field_int_count BB_MAX_OPTIONS_def)
  qed simp_all
  then show ?thesis using foldl_nth [of ?H xs ta] by simp
qed

lemma tally_count:
  assumes "\<forall>(h, ix, v, sd) \<in> set xs. count_ok ix" "length ta = 16"
  shows "length (foldl (\<lambda>ta (h, ix, v, sd). if ix < 16 then ta[nat ix := ta ! nat ix + 1] else ta) ta xs) = 16 \<and>
    (\<forall>i < 16. foldl (\<lambda>ta (h, ix, v, sd). if ix < 16 then ta[nat ix := ta ! nat ix + 1] else ta) ta xs ! i =
       ta ! i + int (size (filter_mset (\<lambda>(h, ix, v, sd). ix = int i) (mset xs))))"
  using assms
proof (induction xs arbitrary: ta)
  case (Cons x xs)
  obtain h ix v sd where x: "x = (h, ix, v, sd)" by (cases x)
  show ?case
  proof (cases "ix < 16")
    case True
    with Cons.prems x Cons.IH [of "ta[nat ix := ta ! nat ix + 1]"] show ?thesis
      by (auto simp: nth_list_update)
  next
    case False
    with Cons.prems x Cons.IH [of ta] show ?thesis by auto
  qed
qed simp

text \<open>Storing the rows one after another in an array of 64.\<close>

lemma store_step:
  assumes "j < length xs" "length xs \<le> length a"
  shows "(map f (take j xs) @ drop j a)[j := f (xs ! j)] = map f (take (Suc j) xs) @ drop (Suc j) a"
proof -
  have "drop j a = a ! j # drop (Suc j) a" using assms by (simp add: Cons_nth_drop_Suc)
  then show ?thesis using assms by (simp add: take_Suc_conv_app_nth list_update_append)
qed

lemma store_rows:
  assumes "length xs \<le> length a" "\<And>a j. j < length xs \<Longrightarrow> F (a, j) j = (a[j := f (xs ! j)], Suc j)"
  shows "foldl F (a, 0) [0..<length xs] = (map f xs @ drop (length xs) a, length xs)"
proof -
  have "foldl F (a, 0) [0..<j] = (map f (take j xs) @ drop j a, j)" if "j \<le> length xs" for j
    using that
  proof (induction j)
    case (Suc j)
    then show ?case using assms store_step [of j xs a f] by simp
  qed simp
  from this [of "length xs"] show ?thesis by simp
qed

lemma store_list:
  assumes "length xs \<le> length a" "\<And>a j. j < length xs \<Longrightarrow> F a j = a[j := f (xs ! j)]"
  shows "foldl F a [0..<length xs] = map f xs @ drop (length xs) a"
proof -
  have "foldl F a [0..<j] = map f (take j xs) @ drop j a" if "j \<le> length xs" for j
    using that
  proof (induction j)
    case (Suc j)
    then show ?case using assms store_step [of j xs a f] by simp
  qed simp
  from this [of "length xs"] show ?thesis by simp
qed

fun tuple_hash :: "string \<times> int \<times> int \<times> int \<Rightarrow> bb_ballot_hash" where
  "tuple_hash (h, ix, v, sd) = \<lparr>bh_hash = h, bh_option_index = ix, bh_version = v, bh_superseded = sd\<rparr>"

lemma hash_tuple_inv [simp]: "hash_tuple (tuple_hash x) = x"
  by (cases x) (simp add: hash_tuple_def)

lemma hash_of_fields_row:
  "lead 64 h \<Longrightarrow> count_ok ix \<Longrightarrow> count_ok v \<Longrightarrow> count_ok sd \<Longrightarrow>
   hash_of_fields [h, int_str ix, int_str v, int_str sd] = tuple_hash (h, ix, v, sd)"
  by (simp add: hash_of_fields_def field_int_count field_copy_fits [OF lead_fits] BB_HASH_LEN_def)

lemma read_hashes_rows:
  assumes "reads_rows body (map (\<lambda>(h, ix, v, sd). [VStr h, VInt ix, VInt v, VInt sd]) xs)"
    and "\<forall>x \<in> set xs. case x of (h, ix, v, sd) \<Rightarrow> lead 64 h \<and> count_ok ix \<and> count_ok v \<and> count_ok sd"
    and "length xs \<le> 64"
  shows "read_hashes body (length xs) (replicate 64 hash0) =
         (map tuple_hash xs @ drop (length xs) (replicate 64 hash0), length xs)"
  unfolding read_hashes_def
proof (rule store_rows)
  show "length xs \<le> length (replicate 64 hash0)" using assms(3) by simp
  fix hs j
  assume j: "j < length xs"
  obtain h ix v sd where x: "xs ! j = (h, ix, v, sd)" by (cases "xs ! j")
  from j have "xs ! j \<in> set xs" by simp
  with x assms(2) have c: "lead 64 h" "count_ok ix" "count_ok v" "count_ok sd" by auto
  show "(case (hs, j) of (hs, n) \<Rightarrow> \<lambda>i.
      if n < BB_MAX_VOTERS
      then case db_row_fields body (int i) 4 of
             (k, f) \<Rightarrow> if k < 4 then (hs, n) else (hs[n := hash_of_fields f], Suc n)
      else (hs, n)) j = (hs[j := tuple_hash (xs ! j)], Suc j)"
    using rows_at [OF assms(1) j, of 4] x j assms(3) hash_of_fields_row [OF c]
    by (simp add: BB_MAX_VOTERS_def)
qed

lemma read_options_rows:
  assumes "reads_rows body (map (\<lambda>(i, nm). [VInt i, VStr nm]) xs)" "\<forall>(i, nm) \<in> set xs. count_ok i \<and> i < 16 \<and> fits 31 nm"
  shows "read_options body (length xs) os = foldl (\<lambda>os (i, nm). os[nat i := nm]) os xs"
proof -
  let ?H = "\<lambda>os (i, nm). os[nat i := nm]"
  have "read_options body (length xs) os = foldl (\<lambda>os i. ?H os (xs ! i)) os [0..<length xs]"
    unfolding read_options_def
  proof (rule foldl_cong)
    fix os j assume j: "j \<in> set [0..<length xs]"
    obtain i nm where x: "xs ! j = (i, nm)" by (cases "xs ! j")
    from j have "xs ! j \<in> set xs" by simp
    with x assms(2) have c: "count_ok i" "i < 16" "fits 31 nm" by auto
    with j x rows_at [OF assms(1), of j 2] field_copy_fits [OF c(3), of 32]
    show "(case db_row_fields body (int j) 2 of
            (k, f) \<Rightarrow> if k < 2 then os
              else let idx = field_int (f ! 0)
                   in if 0 \<le> idx \<and> idx < int BB_MAX_OPTIONS
                      then os[nat idx := field_copy BB_OPTION_LEN (f ! 1)] else os) = ?H os (xs ! j)"
      by (simp add: field_int_count BB_MAX_OPTIONS_def BB_OPTION_LEN_def)
  qed simp_all
  then show ?thesis using foldl_nth [of ?H xs os] by simp
qed

lemma options_stored:
  assumes "distinct (map fst xs)" "\<forall>(i, nm) \<in> set xs. 0 \<le> i \<and> i < int (length os)"
  shows "length (foldl (\<lambda>os (i, nm). os[nat i := nm]) os xs) = length os \<and>
    (\<forall>(i, nm) \<in> set xs. foldl (\<lambda>os (i, nm). os[nat i := nm]) os xs ! nat i = nm) \<and>
    (\<forall>j. int j \<notin> fst ` set xs \<longrightarrow> foldl (\<lambda>os (i, nm). os[nat i := nm]) os xs ! j = os ! j)"
  using assms
proof (induction xs arbitrary: os)
  case (Cons x xs)
  obtain i nm where x: "x = (i, nm)" by (cases x)
  with Cons.prems have "int (nat i) \<notin> fst ` set xs" by simp
  with x Cons.prems Cons.IH [of "os[nat i := nm]"] show ?case
    by (auto simp: nth_list_update)
qed simp

lemma read_eligible_rows:
  assumes "reads_rows body (map (\<lambda>c. [VStr c]) xs)" "\<forall>c \<in> set xs. fits 31 c" "length xs \<le> 64" "length es = 64"
  shows "read_eligible body (length xs) es = xs @ drop (length xs) es"
proof -
  have "foldl (\<lambda>es i. case db_row_fields body (int i) 1 of
              (k, f) \<Rightarrow> if k < 1 then es else es[i := field_copy BB_CERT_LEN (f ! 0)]) es [0..<length xs] =
        map (\<lambda>c. c) xs @ drop (length xs) es"
  proof (rule store_list)
    fix es :: "string list" and j
    assume j: "j < length xs"
    then have "field_copy BB_CERT_LEN (xs ! j) = xs ! j"
      using assms(2) by (intro field_copy_fits [of 31]) (simp_all add: BB_CERT_LEN_def)
    with rows_at [OF assms(1) j, of 1] j
    show "(case db_row_fields body (int j) 1 of
              (k, f) \<Rightarrow> if k < 1 then es else es[j := field_copy BB_CERT_LEN (f ! 0)]) = es[j := xs ! j]" by simp
  qed (use assms in simp)
  then show ?thesis using assms(3) by (simp add: read_eligible_def BB_MAX_VOTERS_def min_def)
qed

text \<open>The two lists of an election, as \<^verbatim>\<open>run_get_election\<close> fills them in.\<close>

lemma election_lists:
  assumes "store_ok S" "mset os = sel k (st_option S)" "reads_rows obody (map (\<lambda>(i, nm). [VInt i, VStr nm]) os)"
    and "mset es = sel k (st_eligible S)" "reads_rows ebody (map (\<lambda>c. [VStr c]) es)"
  defines "opts \<equiv> read_options obody (nat (db_row_count obody)) (el_options election0)"
    and "elig \<equiv> read_eligible ebody (nat (db_row_count ebody)) (el_eligible election0)"
  shows "length opts = 16" "\<forall>(i, nm) \<in># sel k (st_option S). opts ! nat i = nm"
    "min (nat (db_row_count obody)) BB_MAX_OPTIONS = size (sel k (st_option S))"
    "length elig = 64" "min (nat (db_row_count ebody)) BB_MAX_VOTERS = size (sel k (st_eligible S))"
    "mset (take (size (sel k (st_eligible S))) elig) = sel k (st_eligible S)"
proof -
  have keys: "size (sel k (st_option S)) \<le> 16" "size (sel k (st_eligible S)) \<le> 64"
    "image_mset fst (sel k (st_option S)) = mset (map int [0..<size (sel k (st_option S))])"
    using assms(1) unfolding store_ok_def keys_ok_def by blast+
  have sz: "length os = size (sel k (st_option S))" "length es = size (sel k (st_eligible S))"
    using assms(2,4) by (metis size_mset)+
  have "mset (map fst os) = mset (map int [0..<length os])" using keys(3) assms(2) sz(1) by simp
  moreover have "distinct (map int [0..<length os])" by (simp add: distinct_map)
  ultimately have d: "distinct (map fst os)" "set (map fst os) = set (map int [0..<length os])"
    by (metis mset_eq_imp_distinct_iff, metis mset_eq_setD)
  have o: "count_ok i \<and> i < 16 \<and> fits 31 nm" if "(i, nm) \<in> set os" for i nm
  proof -
    have "i \<in> set (map fst os)" using that by force
    then have "i < 16" using d(2) keys(1) sz(1) by auto
    moreover have "(i, nm) \<in># sel k (st_option S)" using that assms(2) by (metis set_mset_mset)
    ultimately show ?thesis using sel_text(2) [OF assms(1), of i nm k] by auto
  qed
  have e: "fits 31 c" if "c \<in> set es" for c
    using that assms(4) sel_text(3) [OF assms(1), of c k] by (metis lead_fits set_mset_mset)
  have opts: "opts = foldl (\<lambda>os (i, nm). os[nat i := nm]) (replicate 16 []) os"
    unfolding opts_def rows_number [OF assms(3)]
    using read_options_rows [OF assms(3), of "replicate 16 []"] o by (auto simp: election0_def bb_lens)
  have elig: "elig = es @ drop (length es) (replicate 64 [])"
    unfolding elig_def rows_number [OF assms(5)]
    using read_eligible_rows [OF assms(5), of "replicate 64 []"] e keys(2) sz(2) by (auto simp: election0_def bb_lens)
  have oo: "\<forall>(i, nm) \<in> set os. 0 \<le> i \<and> i < int (length (replicate 16 ([] :: string)))" using o by auto
  note st = options_stored [OF d(1) oo, folded opts]
  show "length opts = 16" using conjunct1 [OF st] by simp
  show "\<forall>(i, nm) \<in># sel k (st_option S). opts ! nat i = nm"
    unfolding assms(2) [symmetric] set_mset_mset by (rule conjunct1 [OF conjunct2 [OF st]])
  show "min (nat (db_row_count obody)) BB_MAX_OPTIONS = size (sel k (st_option S))"
    using rows_number [OF assms(3)] keys(1) sz(1) by (simp add: bb_lens)
  show "length elig = 64" using elig keys(2) sz(2) by simp
  show "min (nat (db_row_count ebody)) BB_MAX_VOTERS = size (sel k (st_eligible S))"
    using rows_number [OF assms(5)] keys(2) sz(2) by (simp add: bb_lens)
  show "mset (take (size (sel k (st_eligible S))) elig) = sel k (st_eligible S)"
    using elig sz(2) assms(4) by simp
qed

section \<open>The reading commands\<close>

definition read_post :: "env \<Rightarrow> bool \<Rightarrow> bool \<Rightarrow> conn option \<Rightarrow> store \<Rightarrow> store \<Rightarrow> bb_db_cmd \<Rightarrow>
    bb_result \<times> bb_db_result \<Rightarrow> conn \<times> world \<Rightarrow> bool" where
  "read_post E b k X D S cmd rr cw \<longleftrightarrow>
     (fst rr = BB_OK \<and> read_spec cmd S (snd rr) \<and> sees E b k X D S cw) \<or>
     (fst rr \<noteq> BB_OK \<and> failed_call k X D (fst rr) cw)"

context sdb_env
begin

lemma spec_fail:
  "r \<noteq> BB_OK \<Longrightarrow> spec (failed_call k X D r) (State_Monad.return (r, res)) (read_post E b k X D S cmd)"
  by (rule spec_return) (simp add: read_post_def)

lemma read_return:
  "read_spec cmd S res \<Longrightarrow> spec (sees E b k X D S) (State_Monad.return (BB_OK, res)) (read_post E b k X D S cmd)"
  by (rule spec_return) (simp add: read_post_def)

lemma reads_count: "reads_rows body (map g xs) \<Longrightarrow> 0 < db_row_count body \<longleftrightarrow> mset xs \<noteq> {#}"
  by (auto simp: reads_rows_def)

text \<open>A query whose rows are the images of a multiset of typed rows, read back in some order.\<close>

lemma query_law:
  assumes "stmt_clean st" "is_query st" "length (query_cols st) \<le> 6" "sql = sql_text st"
    and "\<And>T. rep S T \<Longrightarrow> mset (query_rows T st) = image_mset g M"
    and "size M \<le> 64" "\<And>x. x \<in># M \<Longrightarrow> row_ok (g x)"
    and "\<And>r. r \<noteq> BB_OK \<Longrightarrow> spec (failed_call k X D r) (fail r) Q"
    and "\<And>body xs. mset xs = M \<Longrightarrow> reads_rows body (map g xs) \<Longrightarrow> spec (sees E b k X D S) (cont body) Q"
  shows "spec (sees E b k X D S)
    (State_Monad.bind (exec_stmt E sql BODY_MAX) (\<lambda>(r, body). if r \<noteq> BB_OK then fail r else cont body)) Q"
  unfolding assms(4)
proof (rule spec_call [OF exec_query [OF assms(1-3)] assms(8)])
  fix T assume "rep S T"
  from mset_rows_facts [OF assms(5) [OF this]] show "length (query_rows T st) \<le> 64 \<and> (\<forall>r\<in>set (query_rows T st). row_ok r)"
    using assms(6,7) by auto
next
  fix body
  show "spec (\<lambda>cw. (\<exists>T. rep S T \<and> reads_rows body (query_rows T st)) \<and> sees E b k X D S cw) (cont body) Q"
  proof (rule spec_fact)
    assume "\<exists>T. rep S T \<and> reads_rows body (query_rows T st)"
    then obtain T where T: "rep S T" "reads_rows body (query_rows T st)" by blast
    from mset_eq_map [OF assms(5) [OF T(1)]] T(2) assms(9) show "spec (sees E b k X D S) (cont body) Q" by auto
  qed
qed

lemma nonce_seen_law:
  assumes "store_ok S" "cmd_ok cmd" "cmd_op cmd = BB_DB_NONCE_SEEN"
  shows "spec (sees E b k X D S) (run_nonce_seen E cmd) (read_post E b k X D S cmd)"
proof -
  let ?k = "cmd_election_id cmd" and ?n = "cmd_nonce cmd"
  let ?st = "SSelect [''nonce''] BB_DB_TABLE_NONCE [(''election_id'', VStr ?k), (''nonce'', VStr ?n)]"
  have f: "fits 15 ?k" "fits 32 ?n" using assms(2,3) by (auto simp: cmd_ok_def)
  have sql: "snprintf_s SQL_MAX (''select nonce from '' @ BB_DB_TABLE_NONCE @ '' where election_id = '' @
        db_quote QUOTE_MAX ?k @ '' and nonce = '' @ db_quote QUOTE_MAX ?n @ '';'') = sql_text ?st"
    using f by (subst sql_fits) (auto simp: quote_fits sql_eval dest!: fits_length)
  show ?thesis
    unfolding run_nonce_seen_def
  proof (rule query_law [OF stmt_clean_query(9) [OF f] _ _ sql nonce_rows [OF _ f]])
    show "size (filter_mset (\<lambda>n'. n' = ?n) (sel ?k (st_nonce S))) \<le> 64"
      using assms(1) by (auto simp: store_ok_def keys_ok_def filter_eq_replicate_mset intro: le_trans [of _ 1])
    show "row_ok [VStr x]" if "x \<in># filter_mset (\<lambda>n'. n' = ?n) (sel ?k (st_nonce S))" for x
      using that sel_text(6) [OF assms(1), of x ?k] by (auto simp: row_ok_simps lead_def fits_def)
    show "spec (sees E b k X D S) (State_Monad.return (BB_OK, result0\<lparr>out_found := 0 < db_row_count body\<rparr>))
            (read_post E b k X D S cmd)"
      if "mset xs = filter_mset (\<lambda>n'. n' = ?n) (sel ?k (st_nonce S))" "reads_rows body (map (\<lambda>n. [VStr n]) xs)"
      for body xs
    proof -
      have "0 < db_row_count body \<longleftrightarrow> ?n \<in># sel ?k (st_nonce S)"
        using reads_count [OF that(2)] that(1) by auto
      then show ?thesis using assms(3) by (intro read_return) (simp add: read_spec_def)
    qed
  qed (auto simp: is_query_def intro: spec_fail)
qed

lemma get_prior_law:
  assumes "store_ok S" "cmd_ok cmd" "cmd_op cmd = BB_DB_GET_PRIOR_BALLOT"
  shows "spec (sees E b k X D S) (run_get_prior_ballot E cmd) (read_post E b k X D S cmd)"
proof -
  let ?k = "cmd_election_id cmd" and ?c = "cmd_cert_name cmd"
  let ?st = "SSelect [''hash'', ''version''] BB_DB_TABLE_OWNER [(''election_id'', VStr ?k), (''cert_name'', VStr ?c)]"
  have f: "fits 15 ?k" "fits 31 ?c" using assms(2,3) by (auto simp: cmd_ok_def)
  have sql: "snprintf_s SQL_MAX (''select hash, version from '' @ BB_DB_TABLE_OWNER @ '' where election_id = '' @
        db_quote QUOTE_MAX ?k @ '' and cert_name = '' @ db_quote QUOTE_MAX ?c @ '';'') = sql_text ?st"
    using f by (subst sql_fits) (auto simp: quote_fits sql_eval dest!: fits_length)
  have own: "c = ?c \<and> lead 64 h \<and> count_ok v" if "(c, h, v) \<in># owners_with S ?k ?c" for c h v
    using that sel_text(5) [OF assms(1), of c h v ?k] by (auto simp: owners_with_def)
  show ?thesis
    unfolding run_get_prior_ballot_def
  proof (rule query_law [OF stmt_clean_query(10) [OF f] _ _ sql owner_rows [OF _ f]])
    show "size (owners_with S ?k ?c) \<le> 64"
      using assms(1) by (auto simp: store_ok_def keys_ok_def intro: le_trans [of _ 1])
    show "row_ok (case x of (c, h, v) \<Rightarrow> [VStr h, VInt v])" if "x \<in># owners_with S ?k ?c" for x
    proof -
      obtain c h v where e: "x = (c, h, v)" by (cases x)
      with that own [of c h v] show ?thesis
        using count_str_length [of v] by (auto simp: row_ok_simps print_row_def lead_def fits_def)
    qed
    fix body xs
    assume xs: "mset xs = owners_with S ?k ?c" "reads_rows body (map (\<lambda>(c, h, v). [VStr h, VInt v]) xs)"
    show "spec (sees E b k X D S)
       (if db_row_count body \<le> 0 then State_Monad.return (BB_OK, result0)
        else case db_row_fields body 0 2 of
          (ka, f) \<Rightarrow> if ka < 2 then State_Monad.return (BB_ERR_DB, result0)
            else State_Monad.return (BB_OK, result0\<lparr>
              out_row := hash0\<lparr>bh_hash := field_copy BB_HASH_LEN (f ! 0), bh_version := field_int (f ! 1)\<rparr>,
              out_found := True\<rparr>)) (read_post E b k X D S cmd)"
    proof (cases "xs = []")
      case True
      with xs reads_count [OF xs(2)] have "db_row_count body \<le> 0" "owners_with S ?k ?c = {#}" by auto
      moreover from this assms(3) have "read_spec cmd S result0"
        by (simp add: read_spec_def result0_def)
      ultimately show ?thesis by (simp add: read_return)
    next
      case False
      from reads_first [OF xs(2) False, of 2] obtain c h v where
        fs: "(c, h, v) \<in># mset xs" "0 < db_row_count body" "db_row_fields body 0 2 = (2, [h, int_str v])"
        by auto
      with own xs(1) have c: "c = ?c" "lead 64 h" "count_ok v" by auto
      have "owners_with S ?k ?c \<noteq> {#}" "(?c, h, v) \<in># owners_with S ?k ?c" using fs(1) xs(1) c(1) by auto
      then have "read_spec cmd S (result0\<lparr>out_row := hash0\<lparr>bh_hash := h, bh_version := v\<rparr>, out_found := True\<rparr>)"
        using assms(3) by (simp add: read_spec_def)
      with fs(2,3) c show ?thesis
        by (simp add: field_copy_fits [OF lead_fits] BB_HASH_LEN_def field_int_count read_return)
    qed
  qed (auto simp: is_query_def intro: spec_fail)
qed

lemma find_hash_law:
  assumes "store_ok S" "cmd_ok cmd" "cmd_op cmd = BB_DB_FIND_HASH"
  shows "spec (sees E b k X D S) (run_find_hash E cmd) (read_post E b k X D S cmd)"
proof -
  let ?k = "cmd_election_id cmd" and ?h = "cmd_hash cmd"
  let ?st = "SSelect [''hash'', ''option_index'', ''version'', ''superseded''] BB_DB_TABLE_BALLOT
       [(''election_id'', VStr ?k), (''hash'', VStr ?h), (''superseded'', VInt 0)]"
  let ?M = "live_with S ?k ?h"
  have f: "fits 15 ?k" "fits 64 ?h" using assms(2,3) by (auto simp: cmd_ok_def)
  have sql: "snprintf_s SQL_MAX (''select hash, option_index, version, superseded from '' @ BB_DB_TABLE_BALLOT @
        '' where election_id = '' @ db_quote QUOTE_MAX ?k @ '' and hash = '' @ db_quote QUOTE_MAX ?h @
        '' and superseded = 0;'') = sql_text ?st"
    using f by (subst sql_fits) (auto simp: quote_fits sql_eval dest!: fits_length)
  have bal: "lead 64 h \<and> count_ok ix \<and> count_ok v \<and> count_ok sd" if "(h, ix, v, sd) \<in># ?M" for h ix v sd
    using that sel_text(4) [OF assms(1), of h ix v sd ?k] by (auto simp: ballots_with_def live_with_def)
  show ?thesis
    unfolding run_find_hash_def
  proof (rule query_law [OF stmt_clean_query(7) [OF f] _ _ sql hash_rows(1) [OF _ f]])
    have "size ?M \<le> size (ballots_with S ?k ?h)" by (simp add: live_with_def size_filter_mset_lesseq)
    also have "... \<le> 1" using assms(1) by (simp add: store_ok_def keys_ok_def)
    finally show "size ?M \<le> 64" by simp
    show "row_ok (case x of (h, ix, v, sd) \<Rightarrow> [VStr h, VInt ix, VInt v, VInt sd])" if x: "x \<in># ?M" for x
    proof -
      obtain h ix v sd where e: "x = (h, ix, v, sd)" by (cases x)
      with x bal [of h ix v sd] show ?thesis
        using count_str_length [of ix] count_str_length [of v] count_str_length [of sd]
        by (auto simp: row_ok_simps print_row_def lead_def fits_def)
    qed
    fix body xs
    assume xs: "mset xs = ?M" "reads_rows body (map (\<lambda>(h, ix, v, sd). [VStr h, VInt ix, VInt v, VInt sd]) xs)"
    show "spec (sees E b k X D S)
       (if db_row_count body \<le> 0 then State_Monad.return (BB_OK, result0)
        else case db_row_fields body 0 4 of
          (ka, f) \<Rightarrow> if ka < 4 then State_Monad.return (BB_ERR_DB, result0)
            else State_Monad.return (BB_OK, result0\<lparr>out_row := hash_of_fields f, out_found := True\<rparr>))
       (read_post E b k X D S cmd)"
    proof (cases "xs = []")
      case True
      with xs reads_count [OF xs(2)] have "db_row_count body \<le> 0" "?M = {#}" by auto
      moreover from this assms(3) have "read_spec cmd S result0"
        by (simp add: read_spec_def result0_def)
      ultimately show ?thesis by (simp add: read_return)
    next
      case False
      from reads_first [OF xs(2) False, of 4] obtain h ix v sd where
        fs: "(h, ix, v, sd) \<in># mset xs" "0 < db_row_count body"
          "db_row_fields body 0 4 = (4, [h, int_str ix, int_str v, int_str sd])"
        by auto
      with bal [of h ix v sd] xs(1) have "lead 64 h" "count_ok ix" "count_ok v" "count_ok sd" by auto
      then have "hash_tuple (hash_of_fields [h, int_str ix, int_str v, int_str sd]) = (h, ix, v, sd)"
        by (simp add: hash_of_fields_row del: tuple_hash.simps)
      moreover have "?M \<noteq> {#}" "(h, ix, v, sd) \<in># ?M" using fs(1) xs(1) by auto
      ultimately have "read_spec cmd S (result0\<lparr>
          out_row := hash_of_fields [h, int_str ix, int_str v, int_str sd], out_found := True\<rparr>)"
        using assms(3) by (simp add: read_spec_def)
      with fs(2,3) show ?thesis by (simp add: read_return)
    qed
  qed (auto simp: is_query_def intro: spec_fail)
qed

lemma get_tally_law:
  assumes "store_ok S" "cmd_ok cmd" "cmd_op cmd = BB_DB_GET_TALLY" "read_pre cmd S"
  shows "spec (sees E b k X D S) (run_get_tally E cmd) (read_post E b k X D S cmd)"
proof -
  let ?k = "cmd_election_id cmd"
  let ?st = "SSelect [''option_index''] BB_DB_TABLE_BALLOT [(''election_id'', VStr ?k), (''superseded'', VInt 0)]"
  have f: "fits 15 ?k" using assms(2) by (simp add: cmd_ok_def)
  have sql: "snprintf_s SQL_MAX (''select option_index from '' @ BB_DB_TABLE_BALLOT @ '' where election_id = '' @
        db_quote QUOTE_MAX ?k @ '' and superseded = 0;'') = sql_text ?st"
    using f by (subst sql_fits) (auto simp: quote_fits sql_eval dest!: fits_length)
  have bal: "count_ok ix" if "(h, ix, v, sd) \<in># live_ballots S ?k" for h ix v sd
    using that sel_text(4) [OF assms(1), of h ix v sd ?k] by (auto simp: live_ballots_def)
  show ?thesis
    unfolding run_get_tally_def
  proof (rule query_law [OF stmt_clean_query(5) [OF f] _ _ sql live_rows(1) [OF _ f]])
    show "size (live_ballots S ?k) \<le> 64" using assms(3,4) by (simp add: read_pre_def)
    show "row_ok (case x of (h, ix, v, sd) \<Rightarrow> [VInt ix])" if x: "x \<in># live_ballots S ?k" for x
    proof -
      obtain h ix v sd where e: "x = (h, ix, v, sd)" by (cases x)
      with x bal [of h ix v sd] show ?thesis using count_str_length [of ix] by (auto simp: row_ok_simps)
    qed
    fix body xs
    assume xs: "mset xs = live_ballots S ?k" "reads_rows body (map (\<lambda>(h, ix, v, sd). [VInt ix]) xs)"
    have c: "\<forall>(h, ix, v, sd) \<in> set xs. count_ok ix" using bal arg_cong [OF xs(1), of set_mset] by auto
    have "read_spec cmd S (result0\<lparr>out_tally := read_tally body (nat (db_row_count body)) (out_tally result0)\<rparr>)"
      using tally_count [OF c, of "replicate 16 0"] assms(3) xs(1)
      by (simp add: rows_number [OF xs(2)] read_tally_rows [OF xs(2) c] read_spec_def result0_def BB_MAX_OPTIONS_def)
    then show "spec (sees E b k X D S) (State_Monad.return (BB_OK,
        result0\<lparr>out_tally := read_tally body (nat (db_row_count body)) (out_tally result0)\<rparr>)) (read_post E b k X D S cmd)"
      by (rule read_return)
  qed (auto simp: is_query_def intro: spec_fail)
qed

lemma get_hashes_law:
  assumes "store_ok S" "cmd_ok cmd" "cmd_op cmd = BB_DB_GET_HASHES" "read_pre cmd S"
  shows "spec (sees E b k X D S) (run_get_hashes E cmd) (read_post E b k X D S cmd)"
proof -
  let ?k = "cmd_election_id cmd"
  let ?st = "SSelect [''hash'', ''option_index'', ''version'', ''superseded''] BB_DB_TABLE_BALLOT
       [(''election_id'', VStr ?k), (''superseded'', VInt 0)]"
  have f: "fits 15 ?k" using assms(2) by (simp add: cmd_ok_def)
  have sql: "snprintf_s SQL_MAX (''select hash, option_index, version, superseded from '' @ BB_DB_TABLE_BALLOT @
        '' where election_id = '' @ db_quote QUOTE_MAX ?k @ '' and superseded = 0;'') = sql_text ?st"
    using f by (subst sql_fits) (auto simp: quote_fits sql_eval dest!: fits_length)
  have bal: "lead 64 h \<and> count_ok ix \<and> count_ok v \<and> count_ok sd" if "(h, ix, v, sd) \<in># live_ballots S ?k" for h ix v sd
    using that sel_text(4) [OF assms(1), of h ix v sd ?k] by (auto simp: live_ballots_def)
  have sz: "size (live_ballots S ?k) \<le> 64" using assms(3,4) by (simp add: read_pre_def)
  show ?thesis
    unfolding run_get_hashes_def
  proof (rule query_law [OF stmt_clean_query(6) [OF f] _ _ sql live_rows(2) [OF _ f] sz])
    show "row_ok (case x of (h, ix, v, sd) \<Rightarrow> [VStr h, VInt ix, VInt v, VInt sd])" if x: "x \<in># live_ballots S ?k" for x
    proof -
      obtain h ix v sd where e: "x = (h, ix, v, sd)" by (cases x)
      with x bal [of h ix v sd] show ?thesis
        using count_str_length [of ix] count_str_length [of v] count_str_length [of sd]
        by (auto simp: row_ok_simps print_row_def lead_def fits_def)
    qed
    fix body xs
    assume xs: "mset xs = live_ballots S ?k" "reads_rows body (map (\<lambda>(h, ix, v, sd). [VStr h, VInt ix, VInt v, VInt sd]) xs)"
    have c: "\<forall>x \<in> set xs. case x of (h, ix, v, sd) \<Rightarrow> lead 64 h \<and> count_ok ix \<and> count_ok v \<and> count_ok sd"
      using bal arg_cong [OF xs(1), of set_mset] by auto
    have len: "length xs \<le> 64" using sz xs(1) by (metis size_mset)
    let ?hs = "map tuple_hash xs @ drop (length xs) (replicate 64 hash0)"
    have r: "read_hashes body (nat (db_row_count body)) (out_hashes result0) = (?hs, length xs)"
      using read_hashes_rows [OF xs(2) c len] by (simp add: rows_number [OF xs(2)] result0_def BB_MAX_VOTERS_def)
    have "image_mset hash_tuple (mset (map tuple_hash xs)) = mset xs"
      by (simp add: image_mset.compositionality comp_def flip: mset_map)
    moreover have "size (live_ballots S ?k) = length xs" using xs(1) by (metis size_mset)
    ultimately have "read_spec cmd S (result0\<lparr>out_hashes := ?hs, out_hash_count := int (length xs)\<rparr>)"
      using assms(3) xs(1) len by (simp add: read_spec_def)
    from read_return [OF this] show "spec (sees E b k X D S)
       (case read_hashes body (nat (db_row_count body)) (out_hashes result0) of
          (hs, n) \<Rightarrow> State_Monad.return (BB_OK, result0\<lparr>out_hashes := hs, out_hash_count := int n\<rparr>))
       (read_post E b k X D S cmd)"
      by (simp add: r)
  qed (auto simp: is_query_def intro: spec_fail)
qed

lemma lists_law:
  assumes "store_ok S" "fits 15 ky"
    and "\<And>obody ebody os es. mset os = sel ky (st_option S) \<Longrightarrow> mset es = sel ky (st_eligible S) \<Longrightarrow>
      reads_rows obody (map (\<lambda>(i, nm). [VInt i, VStr nm]) os) \<Longrightarrow> reads_rows ebody (map (\<lambda>c. [VStr c]) es) \<Longrightarrow>
      spec (sees E b k X D S) (cont obody ebody) (read_post E b k X D S cmd)"
  shows "spec (sees E b k X D S) (do {
      (r, obody) \<leftarrow> exec_stmt E (snprintf_s SQL_MAX
        (''select idx, name from '' @ BB_DB_TABLE_OPTION @ '' where election_id = '' @ db_quote QUOTE_MAX ky @ '';'')) BODY_MAX;
      if r \<noteq> BB_OK then State_Monad.return (r, result0)
      else do {
        (r, ebody) \<leftarrow> exec_stmt E (snprintf_s SQL_MAX
          (''select cert_name from '' @ BB_DB_TABLE_ELIGIBLE @ '' where election_id = '' @ db_quote QUOTE_MAX ky @ '';'')) BODY_MAX;
        if r \<noteq> BB_OK then State_Monad.return (r, result0) else cont obody ebody
      }
    }) (read_post E b k X D S cmd)"
proof -
  let ?st2 = "SSelect [''idx'', ''name''] BB_DB_TABLE_OPTION [(''election_id'', VStr ky)]"
  let ?st3 = "SSelect [''cert_name''] BB_DB_TABLE_ELIGIBLE [(''election_id'', VStr ky)]"
  note f = assms(2)
  have sql2: "snprintf_s SQL_MAX (''select idx, name from '' @ BB_DB_TABLE_OPTION @ '' where election_id = '' @
        db_quote QUOTE_MAX ky @ '';'') = sql_text ?st2"
    using f by (subst sql_fits) (auto simp: quote_fits sql_eval dest!: fits_length)
  have sql3: "snprintf_s SQL_MAX (''select cert_name from '' @ BB_DB_TABLE_ELIGIBLE @ '' where election_id = '' @
        db_quote QUOTE_MAX ky @ '';'') = sql_text ?st3"
    using f by (subst sql_fits) (auto simp: quote_fits sql_eval dest!: fits_length)
  have keys: "size (sel ky (st_option S)) \<le> 64" "size (sel ky (st_eligible S)) \<le> 64"
    using assms(1) unfolding store_ok_def keys_ok_def by (meson le_trans numeral_le_iff semiring_norm order_refl)+
  have rows2: "row_ok (case x of (i, nm) \<Rightarrow> [VInt i, VStr nm])" if "x \<in># sel ky (st_option S)" for x
  proof -
    obtain i nm where e: "x = (i, nm)" by (cases x)
    with that sel_text(2) [OF assms(1), of i nm ky] show ?thesis
      using count_str_length [of i] by (auto simp: row_ok_simps print_row_def fits_def)
  qed
  have rows3: "row_ok [VStr x]" if "x \<in># sel ky (st_eligible S)" for x
    using that sel_text(3) [OF assms(1), of x ky] by (auto simp: row_ok_simps lead_def fits_def)
  show ?thesis
    by (rule query_law [OF stmt_clean_query(3) [OF f] _ _ sql2 list_rows(1) [OF _ f] keys(1) rows2 spec_fail
          query_law [OF stmt_clean_query(4) [OF f] _ _ sql3 list_rows(2) [OF _ f] keys(2) rows3 spec_fail assms(3)]])
       (simp_all add: is_query_def)
qed

lemma get_election_law:
  assumes "store_ok S" "cmd_ok cmd" "cmd_op cmd = BB_DB_GET_ELECTION"
  shows "spec (sees E b k X D S) (run_get_election E cmd) (read_post E b k X D S cmd)"
proof -
  let ?k = "cmd_election_id cmd"
  let ?st1 = "SSelect [''seq'', ''id'', ''title'', ''state'', ''open_time'', ''close_time'']
           BB_DB_TABLE_ELECTION [(''id'', VStr ?k)]"
  let ?g = "\<lambda>(q, t, st, a, b). [VInt q, VStr ?k, VStr t, VStr (bb_state_str st), VStr a, VStr b]"
  have f: "fits 15 ?k" using assms(2) by (simp add: cmd_ok_def)
  have sql1: "snprintf_s SQL_MAX (''select seq, id, title, state, open_time, close_time from '' @ BB_DB_TABLE_ELECTION @
        '' where id = '' @ db_quote QUOTE_MAX ?k @ '';'') = sql_text ?st1"
    using f by (subst sql_fits) (auto simp: quote_fits sql_eval dest!: fits_length)
  have key: "size (sel ?k (st_election S)) \<le> 1"
    using assms(1) unfolding store_ok_def keys_ok_def by blast
  have rows: "row_ok (?g x)" if x: "x \<in># sel ?k (st_election S)" for x
  proof -
    obtain q t st a b where e: "x = (q, t, st, a, b)" by (cases x)
    with x sel_text(1) [OF assms(1), of q t st a b ?k] f show ?thesis
      using count_str_length [of q] bb_state_str_length [of st] bb_state_str_clean [of st]
      by (auto simp: row_ok_simps print_row_def fits_def)
  qed
  have key64: "size (sel ?k (st_election S)) \<le> 64" using key by simp
  show ?thesis
    unfolding run_get_election_def Let_def
  proof (rule query_law [OF stmt_clean_query(1) [OF f] _ _ sql1 election_rows(1) [OF _ f] key64 rows], goal_cases)
    case (6 body xs)
    note xs = 6
    show ?case
    proof (cases "xs = []")
      case True
      with xs have "db_row_count body = 0" "sel ?k (st_election S) = {#}" by (auto simp: reads_rows_def)
      moreover from this assms(3) have "read_spec cmd S result0" by (simp add: read_spec_def result0_def)
      ultimately show ?thesis by (simp add: read_return)
    next
      case False
      from reads_first [OF xs(2) False, of 6] obtain q t st a c where
        fs: "(q, t, st, a, c) \<in># mset xs" "0 < db_row_count body"
          "db_row_fields body 0 6 = (6, [int_str q, ?k, t, bb_state_str st, a, c])"
        by auto
      then have one: "sel ?k (st_election S) = {#(q, t, st, a, c)#}"
        using key xs(1) by (auto intro: mset_single)
      have tx: "fits 63 t" "fits 31 a" "fits 31 c" using sel_text(1) [OF assms(1), of q t st a c ?k] one by auto
      have st: "parse_state (field_copy 16 (bb_state_str st)) = Some st"
        using bb_state_str_length [of st] by (simp add: field_copy_def)
      let ?f = "[int_str q, ?k, t, bb_state_str st, a, c]"
      have nths: "?f ! 1 = ?k" "?f ! 2 = t" "?f ! 3 = bb_state_str st" "?f ! 4 = a" "?f ! 5 = c" by simp_all
      have copies: "field_copy BB_ID_LEN ?k = ?k" "field_copy BB_TITLE_LEN t = t" "field_copy BB_TIME_LEN a = a"
        "field_copy BB_TIME_LEN c = c"
        using field_copy_fits [OF f, of 16] field_copy_fits [OF tx(1), of 64] field_copy_fits [OF tx(2), of 32]
          field_copy_fits [OF tx(3), of 32] by (simp_all add: bb_lens)
      have n: "(db_row_count body < 0) = False" "(db_row_count body = 0) = False" "((6 :: int) < 6) = False"
        using fs(2) by auto
      show ?thesis
        unfolding fs(3) n if_False prod.case nths st option.case copies
      proof (rule lists_law [OF assms(1) f], rule read_return)
        fix obody ebody os es
        assume os: "mset os = sel ?k (st_option S)" "reads_rows obody (map (\<lambda>(i, nm). [VInt i, VStr nm]) os)"
          and es: "mset es = sel ?k (st_eligible S)" "reads_rows ebody (map (\<lambda>c. [VStr c]) es)"
        let ?e = "election0\<lparr>el_id := ?k, el_title := t, el_state := st, el_open_time := a, el_close_time := c,
            el_options := read_options obody (nat (db_row_count obody)) (el_options election0),
            el_option_count := int (min (nat (db_row_count obody)) BB_MAX_OPTIONS),
            el_eligible := read_eligible ebody (nat (db_row_count ebody)) (el_eligible election0),
            el_eligible_count := int (min (nat (db_row_count ebody)) BB_MAX_VOTERS)\<rparr>"
        have "election_is S ?k (q, t, st, a, c) ?e"
          using election_lists [OF assms(1) os es] by (simp add: election_is_def)
        then show "read_spec cmd S (result0\<lparr>out_election := ?e, out_found := True\<rparr>)"
          using one assms(3) by (simp add: read_spec_def)
      qed
    qed
  qed (auto simp: is_query_def intro: spec_fail)
qed

end

end
