(* ===== verification/Store_Writes.thy ===== *)
theory Store_Writes
  imports Store_Reads
begin

text \<open>
  The writing commands of \<^verbatim>\<open>db.c\<close> inside a transaction: each turns the represented store
  \<open>S\<close> into \<open>spec_write cmd S\<close>, or fails and leaves only what was durable.
\<close>

definition write_post :: "env \<Rightarrow> bool \<Rightarrow> conn option \<Rightarrow> store \<Rightarrow> store \<Rightarrow> bb_result \<Rightarrow> conn \<times> world \<Rightarrow> bool" where
  "write_post E k X D S' r cw \<longleftrightarrow>
     (r = BB_OK \<and> sees E True k X D S' cw) \<or> (r \<noteq> BB_OK \<and> failed_call k X D r cw)"

section \<open>Multisets\<close>

text \<open>Replacing the one row that satisfies \<open>P\<close>.\<close>

lemma replace_one:
  assumes "filter_mset P M = {#x#}" "\<And>y. y \<in># M \<Longrightarrow> \<not> P y \<Longrightarrow> f y = y"
  shows "image_mset f M = add_mset (f x) (filter_mset (\<lambda>y. \<not> P y) M)"
proof -
  have "M = filter_mset P M + filter_mset (\<lambda>y. \<not> P y) M" by (rule multiset_partition)
  then have "image_mset f M = image_mset f (filter_mset P M) + image_mset f (filter_mset (\<lambda>y. \<not> P y) M)"
    by (metis image_mset_union)
  moreover have "image_mset f (filter_mset (\<lambda>y. \<not> P y) M) = filter_mset (\<lambda>y. \<not> P y) M"
    using assms(2) by (intro multiset.map_ident_strong) auto
  ultimately show ?thesis using assms(1) by simp
qed

lemma sel_single:
  assumes "sel k M = {#x#}"
  shows "filter_mset (\<lambda>p. fst p = k) M = {#(k, x)#}"
proof -
  from assms have "size (filter_mset (\<lambda>p. fst p = k) M) = 1" unfolding sel_def by (metis size_image_mset size_single)
  then obtain p where p: "filter_mset (\<lambda>p. fst p = k) M = {#p#}" using size_1_singleton_mset by blast
  then have "p \<in># filter_mset (\<lambda>p. fst p = k) M" by simp
  then have "fst p = k" by simp
  moreover have "snd p = x" using assms p by (simp add: sel_def)
  ultimately show ?thesis using p by auto
qed

lemma ballots_single:
  assumes "ballots_with S k h = {#x#}"
  shows "filter_mset (\<lambda>(k', h', _). k' = k \<and> h' = h) (st_ballot S) = {#(k, x)#}"
proof -
  have "filter_mset (\<lambda>(k', h', _). k' = k \<and> h' = h) (st_ballot S) =
        filter_mset (\<lambda>p. fst (snd p) = h) (filter_mset (\<lambda>p. fst p = k) (st_ballot S))"
    by (auto simp: filter_filter_mset intro!: filter_mset_cong)
  moreover have "ballots_with S k h = sel k (filter_mset (\<lambda>p. fst (snd p) = h) (st_ballot S))"
    by (auto simp: ballots_with_def sel_def filter_mset_image_mset filter_filter_mset conj_commute case_prod_beta)
  ultimately show ?thesis
    using sel_single [of k "filter_mset (\<lambda>p. fst (snd p) = h) (st_ballot S)" x] assms
    by (simp add: filter_filter_mset conj_commute)
qed

lemma set_state_replaces:
  assumes "sel k (st_election S) = {#(q, t, st', a, b)#}"
  shows "set_state k st S = S\<lparr>st_election := add_mset (k, q, t, st, a, b)
    (filter_mset (\<lambda>p. \<not> fst p = k) (st_election S))\<rparr>"
proof -
  let ?f = "\<lambda>(k', q, t, st', a, b). if k' = k then (k', q, t, st, a, b) else (k', q, t, st', a, b)"
  have "image_mset ?f (st_election S) = add_mset (?f (k, q, t, st', a, b)) (filter_mset (\<lambda>p. \<not> fst p = k) (st_election S))"
    by (rule replace_one [OF sel_single [OF assms]]) auto
  then show ?thesis by (simp add: set_state_def)
qed

lemma supersede_replaces:
  assumes "ballots_with S k h = {#(h', ix, v, sd)#}"
  shows "supersede k h S = S\<lparr>st_ballot := add_mset (k, h, ix, v, 1)
    (filter_mset (\<lambda>p. \<not> (case p of (k', h', _) \<Rightarrow> k' = k \<and> h' = h)) (st_ballot S))\<rparr>"
proof -
  let ?f = "\<lambda>(k', h', ix, v, sup). if k' = k \<and> h' = h then (k', h', ix, v, 1) else (k', h', ix, v, sup)"
  have h: "h' = h"
  proof -
    have "(h', ix, v, sd) \<in># ballots_with S k h" using assms by simp
    then show ?thesis by (simp add: ballots_with_def)
  qed
  have "image_mset ?f (st_ballot S) = add_mset (?f (k, h', ix, v, sd))
      (filter_mset (\<lambda>p. \<not> (case p of (k', h', _) \<Rightarrow> k' = k \<and> h' = h)) (st_ballot S))"
    by (rule replace_one [OF ballots_single [OF assms]]) (auto split: if_splits)
  then show ?thesis by (simp add: supersede_def h)
qed

section \<open>Rules\<close>

lemma int_str_1 [simp]: "int_str 1 = ''1''"
  by code_simp

lemma stmt_clean_update:
  assumes "fits 15 k"
  shows "count_ok q \<Longrightarrow> fits 63 t \<Longrightarrow> fits 31 a \<Longrightarrow> fits 31 b \<Longrightarrow>
      stmt_clean (SInsert BB_DB_TABLE_ELECTION [VInt q, VStr k, VStr t, VStr (bb_state_str st), VStr a, VStr b])"
    "count_ok q \<Longrightarrow> fits 31 t \<Longrightarrow> stmt_clean (SInsert BB_DB_TABLE_OPTION [VStr k, VInt q, VStr t])"
    "fits 31 c \<Longrightarrow> stmt_clean (SInsert BB_DB_TABLE_ELIGIBLE [VStr k, VStr c])"
    "fits 64 h \<Longrightarrow> count_ok ix \<Longrightarrow> count_ok v \<Longrightarrow> count_ok sd \<Longrightarrow>
      stmt_clean (SInsert BB_DB_TABLE_BALLOT [VStr k, VStr h, VInt ix, VInt v, VInt sd])"
    "fits 31 c \<Longrightarrow> fits 64 h \<Longrightarrow> count_ok v \<Longrightarrow> stmt_clean (SInsert BB_DB_TABLE_OWNER [VStr k, VStr c, VStr h, VInt v])"
    "fits 32 n \<Longrightarrow> stmt_clean (SInsert BB_DB_TABLE_NONCE [VStr k, VStr n])"
    "stmt_clean (SDelete BB_DB_TABLE_ELECTION [(''id'', VStr k)])"
    "fits 64 h \<Longrightarrow> stmt_clean (SDelete BB_DB_TABLE_BALLOT [(''election_id'', VStr k), (''hash'', VStr h)])"
    "fits 31 c \<Longrightarrow> stmt_clean (SDelete BB_DB_TABLE_OWNER [(''election_id'', VStr k), (''cert_name'', VStr c)])"
  using assms bb_state_str_clean [of st] by (simp_all add: sql_eval fits_def)

context sdb_env
begin

lemma update_law:
  assumes "stmt_clean st" "\<not> is_query st" "\<not> is_transact st" "sql = sql_text st"
    and "\<And>T. rep S T \<Longrightarrow> rep S' (update_tables E T st)"
    and "\<And>r. r \<noteq> BB_OK \<Longrightarrow> spec (failed_call k X D r) (fail r) Q"
    and "spec (sees E True k X D S') cont Q"
  shows "spec (sees E True k X D S)
    (State_Monad.bind (exec_stmt E sql 0) (\<lambda>(r, _). if r \<noteq> BB_OK then fail r else cont)) Q"
  unfolding assms(4) using assms(6,7) by (intro spec_call [OF exec_update [OF assms(1-3,5)]]) auto

lemma update_last:
  assumes "stmt_clean st" "\<not> is_query st" "\<not> is_transact st" "sql = sql_text st"
    and "\<And>T. rep S T \<Longrightarrow> rep S' (update_tables E T st)"
  shows "spec (sees E True k X D S) (do { (r, _) \<leftarrow> exec_stmt E sql 0; State_Monad.return r }) (write_post E k X D S')"
  unfolding assms(4)
  by (rule spec_bind_pair [OF exec_update [OF assms(1-3,5)]])
     (auto intro!: spec_return simp: write_post_def)

lemma write_fail: "r \<noteq> BB_OK \<Longrightarrow> spec (failed_call k X D r) (State_Monad.return r) (write_post E k X D S')"
  by (rule spec_return) (simp add: write_post_def)

lemma append_law:
  assumes "cmd_ok cmd" "cmd_op cmd = BB_DB_APPEND_BALLOT"
  shows "spec (sees E True k X D S) (run_append_ballot E cmd) (write_post E k X D (spec_write cmd S))"
proof -
  from assms obtain row where r: "cmd_hash_row cmd = Some row" "lead 64 (bh_hash row)" "count_ok (bh_option_index row)"
    "count_ok (bh_version row)" "count_ok (bh_superseded row)" and f: "fits 15 (cmd_election_id cmd)"
    by (auto simp: cmd_ok_def split: option.splits)
  let ?vs = "[VStr (cmd_election_id cmd), VStr (bh_hash row), VInt (bh_option_index row), VInt (bh_version row), VInt (bh_superseded row)]"
  note h = lead_fits [OF r(2)]
  have sql: "snprintf_s SQL_MAX (''insert into '' @ BB_DB_TABLE_BALLOT @ '' values ('' @
      db_quote QUOTE_MAX (cmd_election_id cmd) @ '', '' @ db_quote QUOTE_MAX (bh_hash row) @ '', '' @
      int_str (bh_option_index row) @ '', '' @ int_str (bh_version row) @ '', '' @ int_str (bh_superseded row) @ '');'') =
    sql_text (SInsert BB_DB_TABLE_BALLOT ?vs)"
    using f h fits_length [OF f] fits_length [OF h] r(3-5) [THEN count_str_length]
    by (subst sql_fits) (simp_all add: quote_fits sql_eval)
  have rp: "rep (spec_write cmd S) (update_tables E T (SInsert BB_DB_TABLE_BALLOT ?vs))" if "rep S T" for T
    using rep_insert(4) [OF that, of ?vs "(cmd_election_id cmd, bh_hash row, bh_option_index row, bh_version row, bh_superseded row)"]
      f h r assms(2) by (simp add: spec_write_def add_ballot_def)
  show ?thesis
    using update_last [OF stmt_clean_update(4) [OF f h r(3-5)] _ _ sql rp]
    by (simp add: run_append_ballot_def r(1) is_query_def is_transact_def)
qed

lemma nonce_mark_law:
  assumes "cmd_ok cmd" "cmd_op cmd = BB_DB_NONCE_MARK"
  shows "spec (sees E True k X D S) (run_nonce_mark E cmd) (write_post E k X D (spec_write cmd S))"
proof -
  from assms have f: "fits 15 (cmd_election_id cmd)" "fits 32 (cmd_nonce cmd)"
    by (auto simp: cmd_ok_def lead_def)
  let ?vs = "[VStr (cmd_election_id cmd), VStr (cmd_nonce cmd)]"
  have sql: "snprintf_s SQL_MAX (''insert into '' @ BB_DB_TABLE_NONCE @ '' values ('' @
      db_quote QUOTE_MAX (cmd_election_id cmd) @ '', '' @ db_quote QUOTE_MAX (cmd_nonce cmd) @ '');'') =
    sql_text (SInsert BB_DB_TABLE_NONCE ?vs)"
    using f f [THEN fits_length] by (subst sql_fits) (simp_all add: quote_fits sql_eval)
  have rp: "rep (spec_write cmd S) (update_tables E T (SInsert BB_DB_TABLE_NONCE ?vs))" if "rep S T" for T
    using rep_insert(6) [OF that, of ?vs "(cmd_election_id cmd, cmd_nonce cmd)"] f assms(2) by (simp add: spec_write_def use_nonce_def)
  show ?thesis
    using update_last [OF stmt_clean_update(6) [OF f] _ _ sql rp]
    by (simp add: run_nonce_mark_def is_query_def is_transact_def)
qed

lemma set_owner_law:
  assumes "cmd_ok cmd" "cmd_op cmd = BB_DB_SET_OWNER"
  shows "spec (sees E True k X D S) (run_set_owner E cmd) (write_post E k X D (spec_write cmd S))"
proof -
  let ?k = "cmd_election_id cmd" and ?c = "cmd_cert_name cmd" and ?h = "cmd_hash cmd" and ?v = "cmd_version cmd"
  from assms have f: "fits 15 ?k" "fits 31 ?c" "fits 64 ?h" and v: "count_ok ?v"
    by (auto simp: cmd_ok_def lead_def)
  let ?vs = "[VStr ?k, VStr ?c, VStr ?h, VInt ?v]"
  let ?cs = "[(''election_id'', VStr ?k), (''cert_name'', VStr ?c)]"
  let ?S1 = "S\<lparr>st_owner := filter_mset (\<lambda>(k', c, _). \<not> (k' = ?k \<and> c = ?c)) (st_owner S)\<rparr>"
  have sql1: "snprintf_s SQL_MAX (''delete from '' @ BB_DB_TABLE_OWNER @ '' where election_id = '' @
      db_quote QUOTE_MAX ?k @ '' and cert_name = '' @ db_quote QUOTE_MAX ?c @ '';'') =
    sql_text (SDelete BB_DB_TABLE_OWNER ?cs)"
    using f f [THEN fits_length] by (subst sql_fits) (simp_all add: quote_fits sql_eval)
  have sql2: "snprintf_s SQL_MAX (''insert into '' @ BB_DB_TABLE_OWNER @ '' values ('' @ db_quote QUOTE_MAX ?k @ '', '' @
      db_quote QUOTE_MAX ?c @ '', '' @ db_quote QUOTE_MAX ?h @ '', '' @ int_str ?v @ '');'') =
    sql_text (SInsert BB_DB_TABLE_OWNER ?vs)"
    using f f [THEN fits_length] count_str_length [OF v] by (subst sql_fits) (simp_all add: quote_fits sql_eval)
  have rp1: "rep ?S1 (update_tables E T (SDelete BB_DB_TABLE_OWNER ?cs))" if "rep S T" for T
    using f by (intro rep_delete(3) [OF that]) (auto simp: row_eval fits_def)
  have rp2: "rep (spec_write cmd S) (update_tables E T (SInsert BB_DB_TABLE_OWNER ?vs))" if "rep ?S1 T" for T
    using rep_insert(5) [OF that, of ?vs "(?k, ?c, ?h, ?v)"] f assms(2) by (simp add: spec_write_def set_owner_def Let_def)
  show ?thesis
    unfolding run_set_owner_def Let_def
    by (rule update_law [OF stmt_clean_update(9) [OF f(1,2)] _ _ sql1 rp1 write_fail
          update_last [OF stmt_clean_update(5) [OF f v] _ _ sql2 rp2]])
       (simp_all add: is_query_def is_transact_def)
qed

lemma mark_superseded_law:
  assumes "store_ok S" "cmd_ok cmd" "cmd_op cmd = BB_DB_MARK_SUPERSEDED" "write_pre cmd S"
  shows "spec (sees E True k X D S) (run_mark_superseded E cmd) (write_post E k X D (spec_write cmd S))"
proof -
  let ?k = "cmd_election_id cmd" and ?h = "cmd_hash cmd"
  from assms(2,3) have f: "fits 15 ?k" "fits 64 ?h" by (auto simp: cmd_ok_def lead_def)
  let ?q = "SSelect [''option_index'', ''version''] BB_DB_TABLE_BALLOT [(''election_id'', VStr ?k), (''hash'', VStr ?h)]"
  let ?cs = "[(''election_id'', VStr ?k), (''hash'', VStr ?h)]"
  have ne: "ballots_with S ?k ?h \<noteq> {#}" using assms(3,4) by (simp add: write_pre_def)
  have le: "size (ballots_with S ?k ?h) \<le> 1" using assms(1) unfolding store_ok_def keys_ok_def by blast
  from ne obtain x where "x \<in># ballots_with S ?k ?h" by blast
  with mset_single [OF le] obtain h ix v sd where one: "ballots_with S ?k ?h = {#(h, ix, v, sd)#}"
    by (metis prod_cases4)
  have c: "count_ok ix" "count_ok v"
    using sel_text(4) [OF assms(1), of h ix v sd ?k] one
    by (metis (no_types, lifting) ballots_with_def mset_subset_eqD multiset_filter_subset union_single_eq_member)+
  have sql: "snprintf_s SQL_MAX (''select option_index, version from '' @ BB_DB_TABLE_BALLOT @ '' where election_id = '' @
      db_quote QUOTE_MAX ?k @ '' and hash = '' @ db_quote QUOTE_MAX ?h @ '';'') = sql_text ?q"
    using f f [THEN fits_length] by (subst sql_fits) (simp_all add: quote_fits sql_eval)
  have sql1: "snprintf_s SQL_MAX (''delete from '' @ BB_DB_TABLE_BALLOT @ '' where election_id = '' @
      db_quote QUOTE_MAX ?k @ '' and hash = '' @ db_quote QUOTE_MAX ?h @ '';'') = sql_text (SDelete BB_DB_TABLE_BALLOT ?cs)"
    using f f [THEN fits_length] by (subst sql_fits) (simp_all add: quote_fits sql_eval)
  let ?vs = "[VStr ?k, VStr ?h, VInt ix, VInt v, VInt 1]"
  have sql2: "snprintf_s SQL_MAX (''insert into '' @ BB_DB_TABLE_BALLOT @ '' values ('' @ db_quote QUOTE_MAX ?k @ '', '' @
      db_quote QUOTE_MAX ?h @ '', '' @ int_str ix @ '', '' @ int_str v @ '', 1);'') = sql_text (SInsert BB_DB_TABLE_BALLOT ?vs)"
    using f f [THEN fits_length] c [THEN count_str_length] by (subst sql_fits) (simp_all add: quote_fits sql_eval)
  let ?S1 = "S\<lparr>st_ballot := filter_mset (\<lambda>p. \<not> (case p of (k', h', _) \<Rightarrow> k' = ?k \<and> h' = ?h)) (st_ballot S)\<rparr>"
  have rp1: "rep ?S1 (update_tables E T (SDelete BB_DB_TABLE_BALLOT ?cs))" if "rep S T" for T
    using f by (intro rep_delete(2) [OF that]) (auto simp: row_eval fits_def)
  have rp2: "rep (spec_write cmd S) (update_tables E T (SInsert BB_DB_TABLE_BALLOT ?vs))" if "rep ?S1 T" for T
    using rep_insert(4) [OF that, of ?vs "(?k, ?h, ix, v, 1)"] f assms(3) supersede_replaces [OF one] by (simp add: spec_write_def)
  have rows: "row_ok (case x of (h, ix, v, sd) \<Rightarrow> [VInt ix, VInt v])" if "x \<in># ballots_with S ?k ?h" for x
    using that one c c [THEN count_str_length] by (auto simp: row_ok_simps print_row_def)
  have le64: "size (ballots_with S ?k ?h) \<le> 64" using le by simp
  show ?thesis
    unfolding run_mark_superseded_def Let_def
  proof (rule query_law [OF stmt_clean_query(8) [OF f] _ _ sql hash_rows(2) [OF _ f] le64 rows], goal_cases)
    case (6 body xs)
    from 6(1) one have "xs = [(h, ix, v, sd)]" by simp
    with reads_first [OF 6(2), of 2] have fs: "0 < db_row_count body" "db_row_fields body 0 2 = (2, [int_str ix, int_str v])"
      by auto
    have n: "(db_row_count body \<le> 0) = False" "((2 :: int) < 2) = False" using fs(1) by auto
    have nths: "field_copy 24 ([int_str ix, int_str v] ! 0) = int_str ix" "field_copy 24 ([int_str ix, int_str v] ! 1) = int_str v"
      using c [THEN count_str_length] by (simp_all add: field_copy_def)
    show ?case
      unfolding fs(2) n if_False prod.case nths
      by (rule update_law [OF stmt_clean_update(8) [OF f] _ _ sql1 rp1 write_fail
            update_last [OF stmt_clean_update(4) [OF f c] _ _ sql2 rp2]])
         (simp_all add: is_query_def is_transact_def)
  qed (auto simp: is_query_def intro: write_fail)
qed

lemma update_state_law:
  assumes "store_ok S" "cmd_ok cmd" "cmd_op cmd = BB_DB_UPDATE_STATE" "write_pre cmd S"
  shows "spec (sees E True k X D S) (run_update_state E cmd) (write_post E k X D (spec_write cmd S))"
proof -
  let ?k = "cmd_election_id cmd"
  from assms(2) have f: "fits 15 ?k" by (auto simp: cmd_ok_def)
  let ?q = "SSelect [''seq'', ''title'', ''open_time'', ''close_time''] BB_DB_TABLE_ELECTION [(''id'', VStr ?k)]"
  have ne: "sel ?k (st_election S) \<noteq> {#}" using assms(3,4) by (simp add: write_pre_def)
  have le: "size (sel ?k (st_election S)) \<le> 1" using assms(1) unfolding store_ok_def keys_ok_def by blast
  from ne obtain x where "x \<in># sel ?k (st_election S)" by blast
  with mset_single [OF le] obtain q t st a b where one: "sel ?k (st_election S) = {#(q, t, st, a, b)#}"
    by (metis prod_cases5)
  have c: "count_ok q" "fits 63 t" "fits 31 a" "fits 31 b"
    using sel_text(1) [OF assms(1), of q t st a b ?k] one by auto
  have sql: "snprintf_s SQL_MAX (''select seq, title, open_time, close_time from '' @ BB_DB_TABLE_ELECTION @
      '' where id = '' @ db_quote QUOTE_MAX ?k @ '';'') = sql_text ?q"
    using f fits_length [OF f] by (subst sql_fits) (simp_all add: quote_fits sql_eval)
  have sql1: "snprintf_s SQL_MAX (''delete from '' @ BB_DB_TABLE_ELECTION @ '' where id = '' @ db_quote QUOTE_MAX ?k @ '';'') =
      sql_text (SDelete BB_DB_TABLE_ELECTION [(''id'', VStr ?k)])"
    using f fits_length [OF f] by (subst sql_fits) (simp_all add: quote_fits sql_eval)
  let ?st = "cmd_new_state cmd"
  let ?vs = "[VInt q, VStr ?k, VStr t, VStr (bb_state_str ?st), VStr a, VStr b]"
  have sql2: "snprintf_s SQL_MAX (''insert into '' @ BB_DB_TABLE_ELECTION @ '' values ('' @ int_str q @ '', '' @
      db_quote QUOTE_MAX ?k @ '', '' @ db_quote QUOTE_MAX t @ '', '' @ quoted (bb_state_str ?st) @ '', '' @
      db_quote QUOTE_MAX a @ '', '' @ db_quote QUOTE_MAX b @ '');'') = sql_text (SInsert BB_DB_TABLE_ELECTION ?vs)"
    using f fits_length [OF f] c(2-4) c(2-4) [THEN fits_length] count_str_length [OF c(1)] bb_state_str_length [of ?st]
    by (subst sql_fits) (simp_all add: quote_fits sql_eval)
  let ?S1 = "S\<lparr>st_election := filter_mset (\<lambda>p. \<not> fst p = ?k) (st_election S)\<rparr>"
  have rp1: "rep ?S1 (update_tables E T (SDelete BB_DB_TABLE_ELECTION [(''id'', VStr ?k)]))" if "rep S T" for T
    using f by (intro rep_delete(1) [OF that]) (auto simp: row_eval fits_def)
  have vs: "map field_val ?vs = enc_election (?k, q, t, ?st, a, b)"
    using f c bb_state_str_length [of ?st] by (simp add: STRING_LEN_def fits_def)
  have rp2: "rep (spec_write cmd S) (update_tables E T (SInsert BB_DB_TABLE_ELECTION ?vs))" if "rep ?S1 T" for T
    using rep_insert(1) [OF that vs] assms(3) set_state_replaces [OF one, of ?st] by (simp add: spec_write_def)
  have rows: "row_ok (case x of (q, t, st, a, b) \<Rightarrow> [VInt q, VStr t, VStr a, VStr b])" if "x \<in># sel ?k (st_election S)" for x
    using that one c count_str_length [OF c(1)] by (auto simp: row_ok_simps print_row_def fits_def)
  have le64: "size (sel ?k (st_election S)) \<le> 64" using le by simp
  show ?thesis
    unfolding run_update_state_def Let_def
  proof (rule query_law [OF stmt_clean_query(2) [OF f] _ _ sql election_rows(2) [OF _ f] le64 rows], goal_cases)
    case (6 body xs)
    from 6(1) one have "xs = [(q, t, st, a, b)]" by simp
    with reads_first [OF 6(2), of 4] have fs: "0 < db_row_count body" "db_row_fields body 0 4 = (4, [int_str q, t, a, b])"
      by auto
    have n: "(db_row_count body \<le> 0) = False" "((4 :: int) < 4) = False" using fs(1) by auto
    have nths: "field_copy 24 ([int_str q, t, a, b] ! 0) = int_str q" "field_copy BB_TITLE_LEN ([int_str q, t, a, b] ! 1) = t"
      "field_copy BB_TIME_LEN ([int_str q, t, a, b] ! 2) = a" "field_copy BB_TIME_LEN ([int_str q, t, a, b] ! 3) = b"
      using count_str_length [OF c(1)] field_copy_fits [OF c(2), of 64] field_copy_fits [OF c(3), of 32]
        field_copy_fits [OF c(4), of 32] by (simp_all add: field_copy_def bb_lens)
    show ?case
      unfolding fs(2) n if_False prod.case nths
      by (rule update_law [OF stmt_clean_update(7) [OF f] _ _ sql1 rp1 write_fail
            update_last [OF stmt_clean_update(1) [OF f c] _ _ sql2 rp2]])
         (simp_all add: is_query_def is_transact_def)
  qed (auto simp: is_query_def intro: write_fail)
qed

text \<open>The two loops of \<^verbatim>\<open>run_insert_election\<close>.\<close>

lemma clean_not_unsafe: "fits n s \<Longrightarrow> \<not> unsafe s"
  using clean_string_facts [of s] by (auto simp: fits_def unsafe_def list_ex_iff)

lemma insert_options_law:
  assumes "fits 15 ky" "\<forall>i \<in> set is. fits 31 (cfg_options cfg ! i) \<and> i < 16"
  shows "spec (sees E True k X D S) (insert_options E (db_quote QUOTE_MAX ky) cfg is)
    (write_post E k X D (S\<lparr>st_option := st_option S + image_mset (\<lambda>i. (ky, int i, cfg_options cfg ! i)) (mset is)\<rparr>))"
  using assms(2)
proof (induction "is" arbitrary: S)
  case Nil
  then show ?case by (auto intro!: spec_return simp: write_post_def)
next
  case (Cons i js)
  let ?o = "cfg_options cfg ! i"
  let ?vs = "[VStr ky, VInt (int i), VStr ?o]"
  let ?S1 = "S\<lparr>st_option := add_mset (ky, int i, ?o) (st_option S)\<rparr>"
  from Cons.prems have o: "fits 31 ?o" and i: "count_ok (int i)" by auto
  have sql: "snprintf_s SQL_MAX (''insert into '' @ BB_DB_TABLE_OPTION @ '' values ('' @ db_quote QUOTE_MAX ky @ '', '' @
      int_str (int i) @ '', '' @ db_quote QUOTE_MAX ?o @ '');'') = sql_text (SInsert BB_DB_TABLE_OPTION ?vs)"
    using assms(1) fits_length [OF assms(1)] o fits_length [OF o] count_str_length [OF i]
    by (subst sql_fits) (simp_all add: quote_fits sql_eval)
  have rp: "rep ?S1 (update_tables E T (SInsert BB_DB_TABLE_OPTION ?vs))" if "rep S T" for T
    using rep_insert(2) [OF that, of ?vs "(ky, int i, ?o)"] o assms(1) by simp
  have "spec (sees E True k X D ?S1) (insert_options E (db_quote QUOTE_MAX ky) cfg js)
    (write_post E k X D (S\<lparr>st_option := st_option S + image_mset (\<lambda>i. (ky, int i, cfg_options cfg ! i)) (mset (i # js))\<rparr>))"
    using Cons.IH [of ?S1] Cons.prems by simp
  from update_law [OF stmt_clean_update(2) [OF assms(1) i o] _ _ sql rp write_fail this] show ?case
    using clean_not_unsafe [OF o] by (simp add: is_query_def is_transact_def)
qed

lemma insert_eligible_law:
  assumes "fits 15 ky" "\<forall>i \<in> set is. fits 31 (cfg_eligible cfg ! i)"
  shows "spec (sees E True k X D S) (insert_eligible E (db_quote QUOTE_MAX ky) cfg is)
    (write_post E k X D (S\<lparr>st_eligible := st_eligible S + image_mset (\<lambda>i. (ky, cfg_eligible cfg ! i)) (mset is)\<rparr>))"
  using assms(2)
proof (induction "is" arbitrary: S)
  case Nil
  then show ?case by (auto intro!: spec_return simp: write_post_def)
next
  case (Cons i js)
  let ?o = "cfg_eligible cfg ! i"
  let ?vs = "[VStr ky, VStr ?o]"
  let ?S1 = "S\<lparr>st_eligible := add_mset (ky, ?o) (st_eligible S)\<rparr>"
  from Cons.prems have o: "fits 31 ?o" by auto
  have sql: "snprintf_s SQL_MAX (''insert into '' @ BB_DB_TABLE_ELIGIBLE @ '' values ('' @ db_quote QUOTE_MAX ky @ '', '' @
      db_quote QUOTE_MAX ?o @ '');'') = sql_text (SInsert BB_DB_TABLE_ELIGIBLE ?vs)"
    using assms(1) fits_length [OF assms(1)] o fits_length [OF o]
    by (subst sql_fits) (simp_all add: quote_fits sql_eval)
  have rp: "rep ?S1 (update_tables E T (SInsert BB_DB_TABLE_ELIGIBLE ?vs))" if "rep S T" for T
    using rep_insert(3) [OF that, of ?vs "(ky, ?o)"] o assms(1) by simp
  have "spec (sees E True k X D ?S1) (insert_eligible E (db_quote QUOTE_MAX ky) cfg js)
    (write_post E k X D (S\<lparr>st_eligible := st_eligible S + image_mset (\<lambda>i. (ky, cfg_eligible cfg ! i)) (mset (i # js))\<rparr>))"
    using Cons.IH [of ?S1] Cons.prems by simp
  from update_law [OF stmt_clean_update(3) [OF assms(1) o] _ _ sql rp write_fail this] show ?case
    using clean_not_unsafe [OF o] by (simp add: is_query_def is_transact_def)
qed

lemma insert_election_law:
  assumes "cmd_ok cmd" "cmd_op cmd = BB_DB_INSERT_ELECTION"
  shows "spec (sees E True k X D S) (run_insert_election E cmd) (write_post E k X D (spec_write cmd S))"
proof -
  let ?k = "cmd_election_id cmd"
  from assms obtain cfg where cfg: "cmd_config cmd = Some cfg" "config_ok cfg" and q: "count_ok (id_seq ?k)" and f: "fits 15 ?k"
    by (auto simp: cmd_ok_def split: option.splits)
  have c: "fits 63 (cfg_title cfg)" "fits 31 (cfg_open_time cfg)" "fits 31 (cfg_close_time cfg)"
    using cfg(2) by (auto simp: config_ok_def)
  let ?os = "[0..<min (nat (cfg_option_count cfg)) BB_MAX_OPTIONS]"
  let ?es = "[0..<min (nat (cfg_eligible_count cfg)) BB_MAX_VOTERS]"
  have os: "\<forall>i \<in> set ?os. fits 31 (cfg_options cfg ! i) \<and> i < 16" and es: "\<forall>i \<in> set ?es. fits 31 (cfg_eligible cfg ! i)"
    using cfg(2) by (auto simp: config_ok_def bb_lens lead_def)
  let ?vs = "[VInt (id_seq ?k), VStr ?k, VStr (cfg_title cfg), VStr (bb_state_str BB_STATE_DRAFT),
      VStr (cfg_open_time cfg), VStr (cfg_close_time cfg)]"
  have sql: "snprintf_s SQL_MAX (''insert into '' @ BB_DB_TABLE_ELECTION @ '' values ('' @ int_str (id_seq ?k) @ '', '' @
      db_quote QUOTE_MAX ?k @ '', '' @ db_quote QUOTE_MAX (cfg_title cfg) @ '', '' @ quoted ''DRAFT'' @ '', '' @
      db_quote QUOTE_MAX (cfg_open_time cfg) @ '', '' @ db_quote QUOTE_MAX (cfg_close_time cfg) @ '');'') =
    sql_text (SInsert BB_DB_TABLE_ELECTION ?vs)"
    using f fits_length [OF f] c c [THEN fits_length] count_str_length [OF q]
    by (subst sql_fits) (simp_all add: quote_fits sql_eval)
  let ?x = "(?k, id_seq ?k, cfg_title cfg, BB_STATE_DRAFT, cfg_open_time cfg, cfg_close_time cfg)"
  let ?S1 = "S\<lparr>st_election := add_mset ?x (st_election S)\<rparr>"
  let ?S2 = "?S1\<lparr>st_option := st_option ?S1 + image_mset (\<lambda>i. (?k, int i, cfg_options cfg ! i)) (mset ?os)\<rparr>"
  let ?S3 = "?S2\<lparr>st_eligible := st_eligible ?S2 + image_mset (\<lambda>i. (?k, cfg_eligible cfg ! i)) (mset ?es)\<rparr>"
  have vs: "map field_val ?vs = enc_election ?x"
    using f c by (simp add: STRING_LEN_def fits_def)
  have rp: "rep ?S1 (update_tables E T (SInsert BB_DB_TABLE_ELECTION ?vs))" if "rep S T" for T
    by (rule rep_insert(1) [OF that vs])
  have S3: "spec_write cmd S = ?S3"
    using assms(2) cfg(1)
    by (simp add: spec_write_def insert_election_def option_rows_def eligible_rows_def image_mset.compositionality
        comp_def Let_def)
  have tail: "spec (sees E True k X D ?S1) (do {
        r \<leftarrow> insert_options E (db_quote QUOTE_MAX ?k) cfg ?os;
        if r \<noteq> BB_OK then State_Monad.return r else insert_eligible E (db_quote QUOTE_MAX ?k) cfg ?es
      }) (write_post E k X D (spec_write cmd S))"
    unfolding S3
    by (rule spec_call1 [OF insert_options_law [OF f os, unfolded write_post_def [abs_def]] write_fail
          insert_eligible_law [OF f es]])
  show ?thesis
    using update_law [OF stmt_clean_update(1) [OF f q c] _ _ sql rp write_fail tail]
      clean_not_unsafe [OF f] c [THEN clean_not_unsafe]
    by (simp add: run_insert_election_def cfg(1) Let_def is_query_def is_transact_def)
qed

section \<open>All commands\<close>

lemma run_op_read:
  assumes "store_ok S" "cmd_ok cmd" "\<not> op_is_write (cmd_op cmd)" "read_pre cmd S"
  shows "spec (sees E b k X D S) (run_op E cmd) (read_post E b k X D S cmd)"
  using assms get_election_law [of S cmd] get_tally_law [of S cmd] get_hashes_law [of S cmd] find_hash_law [of S cmd]
    nonce_seen_law [of S cmd] get_prior_law [of S cmd]
  by (cases "cmd_op cmd") (simp_all add: run_op_def)

lemma no_out_law:
  assumes "spec P m (write_post E k X D S')"
  shows "spec P (no_out m) (\<lambda>(r, res). write_post E k X D S' r)"
  unfolding no_out_def by (rule spec_bind [OF assms]) (auto intro: spec_return)

lemma run_op_write:
  assumes "store_ok S" "cmd_ok cmd" "op_is_write (cmd_op cmd)" "write_pre cmd S"
  shows "spec (sees E True k X D S) (run_op E cmd) (\<lambda>(r, res). write_post E k X D (spec_write cmd S) r)"
  using assms insert_election_law [of cmd, THEN no_out_law] update_state_law [of S cmd, THEN no_out_law]
    append_law [of cmd, THEN no_out_law] mark_superseded_law [of S cmd, THEN no_out_law]
    nonce_mark_law [of cmd, THEN no_out_law] set_owner_law [of cmd, THEN no_out_law]
  by (cases "cmd_op cmd") (simp_all add: run_op_def)

end

end
