(* ===== verification/Brain_Txn.thy ===== *)
theory Brain_Txn
  imports Store_Writes
begin

text \<open>
  The seam of \<^verbatim>\<open>libballotbrain\<close> as \<^verbatim>\<open>db.c\<close>, \<^verbatim>\<open>txn.c\<close> and \<^verbatim>\<open>ballotbrain.c\<close> implement it meets
  the contract \<open>ballot_store\<close>, over every environment that keeps the laws of \<open>sdb_env\<close>. The
  three assertions of the contract are read off the world: \<open>w_idle\<close>, \<open>w_in_txn\<close> and
  \<open>w_broken\<close>.
\<close>

definition w_idle :: "env \<Rightarrow> bool \<Rightarrow> store \<Rightarrow> world \<Rightarrow> bool" where
  "w_idle E k D w \<longleftrightarrow>
     w_txn_conn w = None \<and> rep D (committed (w_srv w)) \<and> working (w_srv w) = None \<and>
     (k \<longrightarrow> (\<forall>t \<ge> w_tick w. calm_at E t))"

definition w_in_txn :: "env \<Rightarrow> bool \<Rightarrow> store \<Rightarrow> store \<Rightarrow> world \<Rightarrow> bool" where
  "w_in_txn E k D S w \<longleftrightarrow> (\<exists>c. w_txn_conn w = Some c \<and> sees E True k (w_txn_conn w) D S (c, w))"

definition w_broken :: "store \<Rightarrow> world \<Rightarrow> bool" where
  "w_broken D w \<longleftrightarrow> w_txn_conn w \<noteq> None \<and> rep D (committed (w_srv w))"

definition calm_from :: "env \<Rightarrow> bool \<Rightarrow> conn \<times> world \<Rightarrow> bool" where
  "calm_from E k cw \<longleftrightarrow> (k \<longrightarrow> (\<forall>t \<ge> w_tick (snd cw). calm_at E t))"

section \<open>Opening and closing\<close>

lemma close_gone: "gone None D cw \<Longrightarrow> calm_from E k cw \<Longrightarrow> w_idle E k D (db_socket_close cw)"
  by (cases cw) (simp add: gone_def calm_from_def w_idle_def db_socket_close_def abort_def)

lemma sees_calm_from: "sees E b k X D S cw \<Longrightarrow> calm_from E k cw"
  by (simp add: sees_def cw_ok_def calm_from_def)

context sdb_env
begin

lemma open_idle:
  assumes "w_idle E k D w" "db_socket_open E w = (oc, w')"
  shows "w_idle E k D w'" "oc = None \<Longrightarrow> \<not> k" "oc = Some c \<Longrightarrow> sees E False k None D D (c, w')"
proof -
  have w': "w' = w\<lparr>w_tick := Suc (w_tick w)\<rparr>" using db_socket_open_cases(1) [OF assms(2)] .
  have calm: "\<exists>c. oc = Some c \<and> conn_calm c" if k
    using open_calm [of E w] assms that by (auto simp: w_idle_def)
  show "w_idle E k D w'" using assms(1) w' by (simp add: w_idle_def)
  show "oc = None \<Longrightarrow> \<not> k" using calm by auto
  assume c: "oc = Some c"
  with db_socket_open_cases(2) [OF assms(2)] have "conn_ok c" by blast
  with c calm assms(1) w' show "sees E False k None D D (c, w')"
    by (auto simp: sees_def cw_ok_def w_idle_def)
qed

lemma with_conn_law:
  assumes "spec (sees E False k None D D) m (\<lambda>a cw. R a (db_socket_close cw))"
    and "\<And>w. \<not> k \<Longrightarrow> w_idle E k D w \<Longrightarrow> R none w"
  shows "spec (w_idle E k D) (with_conn E none m) R"
proof (rule specI)
  fix w a w2
  assume P: "w_idle E k D w" and run: "run_state (with_conn E none m) w = (a, w2)"
  obtain oc w1 where op: "db_socket_open E w = (oc, w1)" by fastforce
  note o = open_idle [OF P op]
  show "R a w2"
  proof (cases oc)
    case None
    with run op o assms(2) show ?thesis by (simp add: with_conn_def)
  next
    case (Some c)
    obtain a' cw where m: "run_state m (c, w1) = (a', cw)" by (metis prod.exhaust)
    from specD [OF assms(1) o(3) [OF Some] m] run op m Some show ?thesis by (simp add: with_conn_def)
  qed
qed

lemma rollback_stmt:
  "spec (\<lambda>cw. gone X D cw \<and> calm_from E k cw) (exec_stmt E ''rollback;'' cap)
     (\<lambda>_ cw. gone X D cw \<and> calm_from E k cw)"
proof (rule spec_pairI)
  fix c w r b c' w'
  assume P: "gone X D (c, w) \<and> calm_from E k (c, w)"
    and run: "run_state (exec_stmt E ''rollback;'' cap) (c, w) = ((r, b), c', w')"
  obtain out s where pr: "process_next_statement E (w_tick w) (w_srv w) (sql_text SRollback) = (out, s)"
    by fastforce
  have "stmt_clean SRollback" "result_ok SRollback (w_srv w)"
    using transact_ok [of SRollback "w_srv w"] by (simp_all add: is_transact_def)
  from process_cases(2) [OF this pr] have s: "committed s = committed (w_srv w)"
    by (auto simp: abort_def)
  have "w' \<in> {w, w\<lparr>w_tick := Suc (w_tick w)\<rparr>, w\<lparr>w_tick := Suc (w_tick w), w_srv := s\<rparr>}"
    using run pr by (auto simp: exec_stmt_def db_socket_exec_def Let_def split: prod.splits if_splits option.splits)
  with P s show "gone X D (c', w') \<and> calm_from E k (c', w')"
    by (auto simp: gone_def calm_from_def)
qed

section \<open>Transaction control\<close>

lemma begin_meets:
  "spec (w_idle E k D) (bb_db_begin E)
     (\<lambda>r w. (r = BB_OK \<and> w_in_txn E k D D w) \<or> (r \<noteq> BB_OK \<and> \<not> k \<and> infra r \<and> w_idle E k D w))"
proof (rule specI)
  fix w r w2
  assume P: "w_idle E k D w" and run: "run_state (bb_db_begin E) w = (r, w2)"
  obtain oc w1 where op: "db_socket_open E w = (oc, w1)" by fastforce
  note o = open_idle [OF P op]
  have none: "w_txn_conn w = None" using P by (simp add: w_idle_def)
  show "(r = BB_OK \<and> w_in_txn E k D D w2) \<or> (r \<noteq> BB_OK \<and> \<not> k \<and> infra r \<and> w_idle E k D w2)"
  proof (cases oc)
    case None
    with run op o none show ?thesis by (simp add: bb_db_begin_def)
  next
    case (Some c)
    obtain r' b c' w' where m: "run_state (exec_stmt E ''set transaction read write;'' 0) (c, w1) = ((r', b), c', w')"
      by (metis prod.exhaust)
    have R: "(r' = BB_OK \<and> sees E True k None D D (c', w')) \<or> (r' \<noteq> BB_OK \<and> failed_call k None D r' (c', w'))"
      using specD [OF exec_begin o(3) [OF Some] m] by simp
    have run': "(r, w2) = (if r' \<noteq> BB_OK then (r', db_socket_close (c', w')) else (BB_OK, w'\<lparr>w_txn_conn := Some c'\<rparr>))"
      using run none op Some m unfolding bb_db_begin_def by simp
    show ?thesis
    proof (cases "r' = BB_OK")
      case True
      with R run' show ?thesis by (auto simp: w_in_txn_def sees_def cw_ok_def)
    next
      case False
      with R run' close_gone [of D "(c', w')" E k] show ?thesis by (simp add: failed_call_def calm_from_def)
    qed
  qed
qed

lemma commit_meets:
  "spec (w_in_txn E k D S) (bb_db_commit E)
     (\<lambda>r w. (r = BB_OK \<and> w_idle E k S w) \<or>
            (r \<noteq> BB_OK \<and> \<not> k \<and> infra r \<and> (w_idle E k D w \<or> (r = BB_ERR_DB \<and> w_idle E k S w))))"
proof (rule specI)
  fix w r w2
  assume "w_in_txn E k D S w" and run: "run_state (bb_db_commit E) w = (r, w2)"
  then obtain c where c: "w_txn_conn w = Some c" "sees E True k (Some c) D S (c, w)"
    by (auto simp: w_in_txn_def)
  obtain r' b c' w' where m: "run_state (exec_stmt E ''commit;'' 0) (c, w) = ((r', b), c', w')"
    by (metis prod.exhaust)
  have eq: "r = r'" "w2 = (db_socket_close (c', w'))\<lparr>w_txn_conn := None\<rparr>"
    using run c(1) m unfolding bb_db_commit_def by simp_all
  show "(r = BB_OK \<and> w_idle E k S w2) \<or>
        (r \<noteq> BB_OK \<and> \<not> k \<and> infra r \<and> (w_idle E k D w2 \<or> (r = BB_ERR_DB \<and> w_idle E k S w2)))"
    using specD [OF exec_commit c(2) m] eq
    by (auto simp: gone_def w_idle_def db_socket_close_def abort_def)
qed

lemma rollback_meets:
  assumes "w_txn_conn w = Some c" "rep D (committed (w_srv w))" "k \<longrightarrow> (\<forall>t \<ge> w_tick w. calm_at E t)"
    and "run_state (bb_db_rollback E) w = (u, w2)"
  shows "w_idle E k D w2"
proof -
  obtain r b c' w' where m: "run_state (exec_stmt E ''rollback;'' 0) (c, w) = ((r, b), c', w')"
    by (metis prod.exhaust)
  have eq: "w2 = (db_socket_close (c', w'))\<lparr>w_txn_conn := None\<rparr>"
    using assms(1,4) m unfolding bb_db_rollback_def by simp
  have "gone (Some c) D (c, w) \<and> calm_from E k (c, w)"
    using assms(1-3) by (simp add: gone_def calm_from_def)
  from specD [OF rollback_stmt this m] eq show ?thesis
    by (simp add: gone_def calm_from_def w_idle_def db_socket_close_def abort_def)
qed

section \<open>Commands in the caller's transaction\<close>

lemma bb_log_keeps:
  "spec (w_idle E k D) (bb_log l) (\<lambda>_. w_idle E k D)"
  "spec (w_in_txn E k D S) (bb_log l) (\<lambda>_. w_in_txn E k D S)"
  by (auto simp: spec_def bb_log_def w_idle_def w_in_txn_def sees_def cw_ok_def)

lemma on_txn_conn_law:
  assumes "\<And>X. spec (sees E True k X D S) m (\<lambda>(r, res) cw. (r = BB_OK \<and> F res \<and> sees E True k X D S' cw) \<or>
                                               (r \<noteq> BB_OK \<and> failed_call k X D r cw))"
  shows "spec (\<lambda>w. w_txn_conn w = Some c \<and> sees E True k (Some c) D S (c, w)) (on_txn_conn c m)
    (\<lambda>(r, res) w. (r = BB_OK \<and> F res \<and> w_in_txn E k D S' w) \<or> (r \<noteq> BB_OK \<and> \<not> k \<and> infra r \<and> w_broken D w))"
proof (rule specI)
  fix w a w2
  assume P: "w_txn_conn w = Some c \<and> sees E True k (Some c) D S (c, w)"
    and run: "run_state (on_txn_conn c m) w = (a, w2)"
  obtain r res c' w' where m: "run_state m (c, w) = ((r, res), c', w')" by (metis prod.exhaust)
  with run have eq: "a = (r, res)" "w2 = w'\<lparr>w_txn_conn := Some c'\<rparr>" by (simp_all add: on_txn_conn_def)
  from specD [OF assms _ m] P have "(r = BB_OK \<and> F res \<and> sees E True k (Some c) D S' (c', w')) \<or>
    (r \<noteq> BB_OK \<and> failed_call k (Some c) D r (c', w'))" by blast
  then have "(r = BB_OK \<and> F res \<and> w_in_txn E k D S' w2) \<or> (r \<noteq> BB_OK \<and> \<not> k \<and> infra r \<and> w_broken D w2)"
    using eq by (auto simp: failed_call_def gone_def w_in_txn_def w_broken_def sees_def cw_ok_def)
  with eq show "(case a of (r, res) \<Rightarrow> \<lambda>w. (r = BB_OK \<and> F res \<and> w_in_txn E k D S' w) \<or>
      (r \<noteq> BB_OK \<and> \<not> k \<and> infra r \<and> w_broken D w)) w2" by simp
qed

text \<open>With a transaction open, \<^const>\<open>db_exec\<close> is \<^const>\<open>run_op\<close> over the transaction's connection.\<close>

lemma db_exec_txn:
  assumes "\<And>X. spec (sees E True k X D S) (run_op E cmd)
     (\<lambda>(r, res) cw. (r = BB_OK \<and> F res \<and> sees E True k X D S' cw) \<or> (r \<noteq> BB_OK \<and> failed_call k X D r cw))"
  shows "spec (w_in_txn E k D S) (db_exec E cmd)
    (\<lambda>(r, res) w. (r = BB_OK \<and> F res \<and> w_in_txn E k D S' w) \<or> (r \<noteq> BB_OK \<and> \<not> k \<and> infra r \<and> w_broken D w))"
proof (rule specI)
  fix w a w2
  assume P: "w_in_txn E k D S w" and run: "run_state (db_exec E cmd) w = (a, w2)"
  obtain u w1 where l: "run_state (bb_log (log_cmd cmd)) w = (u, w1)" by (metis prod.exhaust)
  from specD [OF bb_log_keeps(2) P l] obtain c where
    c: "w_txn_conn w1 = Some c \<and> sees E True k (Some c) D S (c, w1)" by (auto simp: w_in_txn_def)
  with run l have r: "run_state (on_txn_conn c (run_op E cmd)) w1 = (a, w2)"
    by (simp add: db_exec_def State_Monad.bind_def State_Monad.get_def)
  from specD [OF on_txn_conn_law [OF assms] c r]
  show "(case a of (r, res) \<Rightarrow> \<lambda>w. (r = BB_OK \<and> F res \<and> w_in_txn E k D S' w) \<or>
      (r \<noteq> BB_OK \<and> \<not> k \<and> infra r \<and> w_broken D w)) w2" .
qed

end

section \<open>Commands on their own\<close>

text \<open>
  What one attempt may leave: the command's effect, or nothing; only an attempt that lost the
  answer to its \<^verbatim>\<open>commit\<close> leaves either, and it reports \<^const>\<open>BB_ERR_DB\<close>.
\<close>

definition attempt_post :: "env \<Rightarrow> bool \<Rightarrow> store \<Rightarrow> store \<Rightarrow> (bb_db_result \<Rightarrow> bool) \<Rightarrow>
    bb_result \<times> bb_db_result \<Rightarrow> world \<Rightarrow> bool" where
  "attempt_post E k D S' F a w \<longleftrightarrow>
     (fst a = BB_OK \<and> F (snd a) \<and> w_idle E k S' w) \<or>
     (fst a \<noteq> BB_OK \<and> \<not> k \<and> infra (fst a) \<and> (w_idle E k D w \<or> (fst a = BB_ERR_DB \<and> w_idle E k S' w)))"

context sdb_env
begin

lemma close_failed: "\<not> k \<Longrightarrow> gone None D cw \<Longrightarrow> w_idle E k D (db_socket_close cw)"
  by (rule close_gone) (simp_all add: calm_from_def)

lemma attempt_read:
  assumes "store_ok D" "cmd_ok cmd" "\<not> op_is_write (cmd_op cmd)" "read_pre cmd D"
  shows "spec (w_idle E k D) (one_shot_attempt E cmd False) (attempt_post E k D D (read_spec cmd D))"
  unfolding one_shot_attempt_def
proof (rule with_conn_law)
  have c: "attempt_post E k D D (read_spec cmd D) (r, res) (db_socket_close cw)"
    if "read_post E False k None D D cmd (r, res) cw" for r res cw
    using that close_gone [of D cw E k] sees_gone [of E False k None D D cw] sees_calm_from [of E False k None D D cw]
      close_failed [of k D cw]
    by (auto simp: read_post_def attempt_post_def failed_call_def)
  show "spec (sees E False k None D D) (one_shot_body E cmd False)
      (\<lambda>a cw. attempt_post E k D D (read_spec cmd D) a (db_socket_close cw))"
    unfolding one_shot_body_def if_False
  proof (rule spec_bind_pair [where R = "\<lambda>(r, _) cw. r = BB_OK \<and> sees E False k None D D cw"])
    fix r b
    show "spec ((\<lambda>(r, _) cw. r = BB_OK \<and> sees E False k None D D cw) (r, b))
       (do { (r, out) \<leftarrow> (if r = BB_OK then run_op E cmd else State_Monad.return (r, result0));
             State_Monad.return (r, out) })
       (\<lambda>a cw. attempt_post E k D D (read_spec cmd D) a (db_socket_close cw))"
      unfolding prod.case
      by (rule spec_fact, simp only: if_True simp_thms,
          rule spec_bind_pair [OF run_op_read [OF assms, of False k None D]], rule spec_return, erule c)
  qed (rule spec_return, simp)
qed (simp add: attempt_post_def)

lemma attempt_write:
  assumes "store_ok D" "cmd_ok cmd" "op_is_write (cmd_op cmd)" "write_pre cmd D"
  shows "spec (w_idle E k D) (one_shot_attempt E cmd True) (attempt_post E k D (spec_write cmd D) (\<lambda>_. True))"
  unfolding one_shot_attempt_def
proof (rule with_conn_law)
  let ?S = "spec_write cmd D"
  let ?Q = "\<lambda>a cw. attempt_post E k D ?S (\<lambda>_. True) a (db_socket_close cw)"
  let ?M = "\<lambda>S (r, out) cw. write_post E k None D S r cw"
  have end_law: "spec (?M ?S (r, out))
     (if r = BB_OK then do { (r, _) \<leftarrow> exec_stmt E ''commit;'' 0; State_Monad.return (r, out) }
      else if r \<noteq> BB_ERR_RETRY then do { _ \<leftarrow> exec_stmt E ''rollback;'' 0; State_Monad.return (r, out) }
      else State_Monad.return (r, out)) ?Q" for r and out :: bb_db_result
  proof (intro spec_if)
    assume r: "r = BB_OK"
    have fin: "?Q (r', out) cw" if "(r' = BB_OK \<and> gone None ?S cw \<and> (k \<longrightarrow> (\<forall>t \<ge> w_tick (snd cw). calm_at E t))) \<or>
       (r' \<noteq> BB_OK \<and> \<not> k \<and> infra r' \<and> (gone None D cw \<or> (r' = BB_ERR_DB \<and> gone None ?S cw)))" for r' cw
      using that close_gone [of ?S cw E k] close_failed [of k D cw] close_failed [of k ?S cw]
      by (auto simp: attempt_post_def calm_from_def)
    have "spec (sees E True k None D ?S)
       (do { (r, _) \<leftarrow> exec_stmt E ''commit;'' 0; State_Monad.return (r, out) }) ?Q"
      by (rule spec_bind_pair [OF exec_commit], rule spec_return, rule fin, simp only: prod.case)
    then show "spec (?M ?S (r, out)) (do { (r, _) \<leftarrow> exec_stmt E ''commit;'' 0; State_Monad.return (r, out) }) ?Q"
      using r by (simp add: write_post_def [abs_def])
  next
    assume r: "r \<noteq> BB_OK"
    have fin: "?Q (r, out) cw" if "\<not> k" "infra r" "gone None D cw" for cw
      using that r close_failed [of k D cw] by (simp add: attempt_post_def)
    have pre: "\<not> k \<and> infra r \<and> gone None D cw \<and> calm_from E k cw" if "?M ?S (r, out) cw" for cw
      using that r by (auto simp: write_post_def failed_call_def calm_from_def)
    show "spec (?M ?S (r, out)) (do { _ \<leftarrow> exec_stmt E ''rollback;'' 0; State_Monad.return (r, out) }) ?Q"
    proof (rule spec_pre [OF _ pre], rule spec_fact, rule spec_fact)
      assume "\<not> k" "infra r"
      then show "spec (\<lambda>cw. gone None D cw \<and> calm_from E k cw)
          (do { _ \<leftarrow> exec_stmt E ''rollback;'' 0; State_Monad.return (r, out) }) ?Q"
        by (intro spec_bind [OF rollback_stmt] spec_return) (use fin in blast)
    qed
    show "spec (?M ?S (r, out)) (State_Monad.return (r, out)) ?Q"
      by (rule spec_return) (use pre fin in blast)
  qed
  show "spec (sees E False k None D D) (one_shot_body E cmd True) ?Q"
    unfolding one_shot_body_def if_True
  proof (rule spec_bind_pair [OF exec_begin], rule spec_bind_pair [where R = "?M ?S"])
    fix r b
    show "spec ((\<lambda>(r, body) cw. (r = BB_OK \<and> sees E True k None D D cw) \<or> (r \<noteq> BB_OK \<and> failed_call k None D r cw)) (r, b))
       (if r = BB_OK then run_op E cmd else State_Monad.return (r, result0)) (?M ?S)"
    proof (rule spec_if)
      assume "r = BB_OK"
      then show "spec ((\<lambda>(r, body) cw. (r = BB_OK \<and> sees E True k None D D cw) \<or> (r \<noteq> BB_OK \<and> failed_call k None D r cw)) (r, b))
         (run_op E cmd) (?M ?S)"
        using run_op_write [OF assms, of k None D] by simp
    qed (auto intro!: spec_return simp: write_post_def)
  next
    fix r0 b0 r out
    show "spec (?M ?S (r, out))
     (if r = BB_OK then do { (r, _) \<leftarrow> exec_stmt E ''commit;'' 0; State_Monad.return (r, out) }
      else if r \<noteq> BB_ERR_RETRY then do { _ \<leftarrow> exec_stmt E ''rollback;'' 0; State_Monad.return (r, out) }
      else State_Monad.return (r, out)) ?Q" by (rule end_law)
  qed
qed (simp add: attempt_post_def)

text \<open>The retry loop never reports \<^const>\<open>BB_ERR_RETRY\<close> and never applies a command twice.\<close>

lemma self_retry_law:
  assumes "\<And>k. spec (w_idle E k D) (one_shot_attempt E cmd wr) (attempt_post E k D S' F)"
  shows "spec (\<lambda>w. w_idle E k D w \<and> (k \<longrightarrow> 0 < n)) (self_retry E cmd wr n out)
    (\<lambda>a w. attempt_post E k D S' F a w \<and> fst a \<noteq> BB_ERR_RETRY)"
proof (induction n arbitrary: out)
  case 0
  then show ?case by (auto intro!: spec_return simp: attempt_post_def)
next
  case (Suc n)
  show ?case
    unfolding self_retry.simps
  proof (rule spec_bind_pair [OF spec_pre [OF assms [of k]]])
    fix r out'
    show "spec (attempt_post E k D S' F (r, out'))
       (if r \<noteq> BB_ERR_RETRY then State_Monad.return (r, out') else self_retry E cmd wr n out')
       (\<lambda>a w. attempt_post E k D S' F a w \<and> fst a \<noteq> BB_ERR_RETRY)"
      by (intro spec_if spec_return spec_pre [OF Suc]) (auto simp: attempt_post_def)
  qed simp
qed

lemma db_exec_idle:
  assumes "\<And>k. spec (w_idle E k D) (one_shot_attempt E cmd (op_is_write (cmd_op cmd))) (attempt_post E k D S' F)"
  shows "spec (w_idle E k D) (db_exec E cmd)
    (\<lambda>a w. attempt_post E k D S' F a w \<and> fst a \<noteq> BB_ERR_RETRY)"
proof (rule specI)
  fix w a w2
  assume P: "w_idle E k D w" and run: "run_state (db_exec E cmd) w = (a, w2)"
  obtain u w1 where l: "run_state (bb_log (log_cmd cmd)) w = (u, w1)" by (metis prod.exhaust)
  have w1: "w_idle E k D w1" using specD [OF bb_log_keeps(1) P l] .
  with run l have "run_state (self_retry E cmd (op_is_write (cmd_op cmd)) SELF_RETRY_ATTEMPTS result0) w1 = (a, w2)"
    by (simp add: db_exec_def State_Monad.bind_def State_Monad.get_def w_idle_def)
  from specD [OF self_retry_law [OF assms] _ this] w1
  show "attempt_post E k D S' F a w2 \<and> fst a \<noteq> BB_ERR_RETRY" by (simp add: SELF_RETRY_ATTEMPTS_def)
qed

end

section \<open>Allocating an id\<close>

definition max_seq :: "store \<Rightarrow> int option" where
  "max_seq D = (if st_election D = {#} then None
     else Some (Max (set_mset (image_mset (\<lambda>(k, q, _). q) (st_election D)))))"

lemma foldl_max: "foldl max v vs = Max (set (v # vs))" for v :: int
proof (induction vs arbitrary: v)
  case (Cons a vs)
  then show ?case by (cases "vs = []") (simp_all add: max.assoc)
qed simp

lemma max_rows:
  assumes "rep D T"
  shows "query_rows T (SMax ''seq'' BB_DB_TABLE_ELECTION) = (case max_seq D of None \<Rightarrow> [] | Some m \<Rightarrow> [[VInt m]])"
proof -
  let ?f = "\<lambda>r. int_of (the (get_col BB_DB_TABLE_ELECTION r ''seq''))"
  let ?q = "\<lambda>(k :: string, q :: int, _ :: string \<times> bb_state \<times> string \<times> string). q"
  have "?f (enc_election x) = ?q x" for x
    by (cases x) (simp add: row_eval)
  moreover have "mset (map ?f (T BB_DB_TABLE_ELECTION)) = image_mset ?f (image_mset enc_election (st_election D))"
    using assms by (simp add: rep_def)
  ultimately have m: "mset (map ?f (T BB_DB_TABLE_ELECTION)) = image_mset ?q (st_election D)"
    by (simp add: multiset.map_comp comp_def)
  show ?thesis
  proof (cases "map ?f (T BB_DB_TABLE_ELECTION)")
    case Nil
    with m have "st_election D = {#}" by simp
    with Nil show ?thesis by (simp add: max_seq_def)
  next
    case (Cons v vs)
    have "set (v # vs) = set_mset (image_mset ?q (st_election D))"
      using arg_cong [OF m, of set_mset] unfolding Cons by (simp only: set_mset_mset)
    moreover from this have "st_election D \<noteq> {#}" by auto
    ultimately show ?thesis unfolding query_rows.simps Cons by (simp add: max_seq_def foldl_max)
  qed
qed

lemma max_seq_bounds:
  assumes "store_ok D" "max_seq D = Some m"
  shows "count_ok m"
proof -
  let ?Q = "set_mset (image_mset (\<lambda>(k, q, _). q) (st_election D))"
  have "?Q \<noteq> {}" and m: "m = Max ?Q"
    using assms(2) by (auto simp: max_seq_def split: if_splits)
  then have "m \<in> ?Q" by (metis Max_in finite_set_mset)
  then obtain k q rest where "(k, q, rest) \<in># st_election D" "m = q" by auto
  with assms(1) show ?thesis by (cases rest) (auto simp: store_ok_def rows_text_ok_def)
qed

lemma next_id_max:
  "next_id D = ''E-'' @ int_str (case max_seq D of None \<Rightarrow> 100 | Some m \<Rightarrow> wrap32 (m + 1))"
  by (simp add: next_id_def first_id_def max_seq_def)

lemma max_seq_reply_rows:
  assumes "store_ok D" "reads_rows body (case max_seq D of None \<Rightarrow> [] | Some m \<Rightarrow> [[VInt m]])"
  shows "max_seq_reply DB_OK body = (case max_seq D of None \<Rightarrow> 100 | Some m \<Rightarrow> wrap32 (m + 1))"
proof (cases "max_seq D")
  case None
  with assms show ?thesis by (simp add: reads_rows_def max_seq_reply_def)
next
  case (Some m)
  have b: "count_ok m" using max_seq_bounds [OF assms(1) Some] .
  then have i: "int32_ok m" "wrap32 m = m" by auto
  have "length (int_str m) \<le> 11" using int_str_length [OF i(1)] .
  then have f: "field_copy 24 (int_str m) = int_str m" by (simp add: field_copy_def)
  have "strtol (int_str m) = (m, [])" using strtol_int_str [of m "[]"] b by simp
  with f Some assms(2) b i show ?thesis by (simp add: reads_rows_def max_seq_reply_def)
qed

lemma max_seq_reply_failed: "st \<noteq> DB_OK \<Longrightarrow> max_seq_reply st body = 100"
  by (simp add: max_seq_reply_def)

lemma id_text_fits: "int32_ok n \<Longrightarrow> snprintf_s BB_ID_LEN (''E-'' @ int_str n) = ''E-'' @ int_str n"
  using int_str_length [of n] by (simp add: snprintf_s_def BB_ID_LEN_def)

context sdb_env
begin

lemma max_query:
  assumes "store_ok D" "sees E False k None D D (c, w)"
    and "db_socket_exec E (''select max(seq) from '' @ BB_DB_TABLE_ELECTION @ '';'') 4096 (c, w) = ((st, body), c', w')"
  shows "w_idle E k D (db_socket_close (c', w'))"
    and "max_seq_reply st body = 100 \<or> max_seq_reply st body = (case max_seq D of None \<Rightarrow> 100 | Some m \<Rightarrow> wrap32 (m + 1))"
    and "k \<Longrightarrow> max_seq_reply st body = (case max_seq D of None \<Rightarrow> 100 | Some m \<Rightarrow> wrap32 (m + 1))"
proof -
  let ?st = "SMax ''seq'' BB_DB_TABLE_ELECTION"
  have rows: "query_rows (view (w_srv w)) ?st = (case max_seq D of None \<Rightarrow> [] | Some m \<Rightarrow> [[VInt m]])"
    using max_rows [of D] sees_rep [OF assms(2)] by simp
  have clean: "stmt_clean ?st" by (simp add: schema_def table_names)
  have "row_ok [VInt m]" if "max_seq D = Some m" for m
    using max_seq_bounds [OF assms(1) that] int_str_length [of m] by (simp add: row_ok_simps)
  then have res: "result_ok ?st (w_srv w)"
    unfolding result_ok_def rows by (simp split: option.splits)
  have ok: "cw_ok E k (c, w)" "working (w_srv w) = None" using assms(2) by (simp_all add: sees_def)
  have run: "run_state (exec_stmt E (sql_text ?st) 4096) (c, w) = ((map_status st, body), c', w')"
    using assms(3) by (simp add: exec_stmt_def)
  have aft: "after E ?st (w_srv w) = w_srv w" "legal ?st (w_srv w)" "is_query ?st"
    "length (query_rows (view (w_srv w)) ?st) \<le> 1"
    using ok(2) rows by (auto simp: set_view_def view_def is_query_def split: option.splits)
  from exec_stmt_run [OF ok(1) clean res run] aft obtain s' where
    w': "w' = w\<lparr>w_tick := Suc (w_tick w), w_srv := s'\<rparr>" "s' \<in> {w_srv w, abort (w_srv w)}" and
    cs: "(st = DB_OK \<and> reads_rows body (query_rows (view (w_srv w)) ?st)) \<or> (st \<noteq> DB_OK \<and> \<not> k)"
    unfolding map_status_cases by (metis insert_iff order_refl)
  show "w_idle E k D (db_socket_close (c', w'))"
    using w' assms(2) by (auto simp: sees_def cw_ok_def w_idle_def db_socket_close_def abort_def)
  show "max_seq_reply st body = 100 \<or> max_seq_reply st body = (case max_seq D of None \<Rightarrow> 100 | Some m \<Rightarrow> wrap32 (m + 1))"
    "k \<Longrightarrow> max_seq_reply st body = (case max_seq D of None \<Rightarrow> 100 | Some m \<Rightarrow> wrap32 (m + 1))"
    using cs [unfolded rows] max_seq_reply_rows [OF assms(1)] max_seq_reply_failed [of st body] by auto
qed

lemma alloc_meets:
  assumes "store_ok D"
  shows "spec (w_idle E k D) (bb_alloc_id E)
    (\<lambda>s w. w_idle E k D w \<and> (s = first_id \<or> s = next_id D) \<and> (k \<longrightarrow> s = next_id D))"
  unfolding bb_alloc_id_def
proof (rule spec_bind [OF with_conn_law [where R = "\<lambda>n w. w_idle E k D w \<and>
      ((n = 100 \<or> n = (case max_seq D of None \<Rightarrow> 100 | Some m \<Rightarrow> wrap32 (m + 1))) \<and>
       (k \<longrightarrow> n = (case max_seq D of None \<Rightarrow> 100 | Some m \<Rightarrow> wrap32 (m + 1))))"]])
  show "spec (sees E False k None D D)
     (State (\<lambda>cw. case db_socket_exec E (''select max(seq) from '' @ BB_DB_TABLE_ELECTION @ '';'') 4096 cw of
         ((st, body), cw') \<Rightarrow> (max_seq_reply st body, cw')))
     (\<lambda>n cw. w_idle E k D (db_socket_close cw) \<and>
      ((n = 100 \<or> n = (case max_seq D of None \<Rightarrow> 100 | Some m \<Rightarrow> wrap32 (m + 1))) \<and>
       (k \<longrightarrow> n = (case max_seq D of None \<Rightarrow> 100 | Some m \<Rightarrow> wrap32 (m + 1)))))"
  proof (rule specI)
    fix cw n cw'
    assume P: "sees E False k None D D cw" and run: "run_state (State (\<lambda>cw. case db_socket_exec E
        (''select max(seq) from '' @ BB_DB_TABLE_ELECTION @ '';'') 4096 cw of
         ((st, body), cw') \<Rightarrow> (max_seq_reply st body, cw'))) cw = (n, cw')"
    obtain c w where cw: "cw = (c, w)" by fastforce
    obtain st body c' w' where ex:
      "db_socket_exec E (''select max(seq) from '' @ BB_DB_TABLE_ELECTION @ '';'') 4096 (c, w) = ((st, body), c', w')"
      by (metis prod.exhaust)
    have eq: "n = max_seq_reply st body" "cw' = (c', w')" using run unfolding cw state.sel ex by simp_all
    show "w_idle E k D (db_socket_close cw') \<and>
      ((n = 100 \<or> n = (case max_seq D of None \<Rightarrow> 100 | Some m \<Rightarrow> wrap32 (m + 1))) \<and>
       (k \<longrightarrow> n = (case max_seq D of None \<Rightarrow> 100 | Some m \<Rightarrow> wrap32 (m + 1))))"
      unfolding eq using max_query [OF assms P [unfolded cw] ex] by blast
  qed
next
  fix n
  have r: "int32_ok 100" "int32_ok (case max_seq D of None \<Rightarrow> 100 | Some m \<Rightarrow> wrap32 (m + 1))"
    using wrap32_range by (simp_all split: option.splits)
  show "spec (\<lambda>w. w_idle E k D w \<and> ((n = 100 \<or> n = (case max_seq D of None \<Rightarrow> 100 | Some m \<Rightarrow> wrap32 (m + 1))) \<and>
       (k \<longrightarrow> n = (case max_seq D of None \<Rightarrow> 100 | Some m \<Rightarrow> wrap32 (m + 1)))))
     (State_Monad.return (snprintf_s BB_ID_LEN (''E-'' @ int_str n)))
     (\<lambda>s w. w_idle E k D w \<and> (s = first_id \<or> s = next_id D) \<and> (k \<longrightarrow> s = next_id D))"
    unfolding next_id_max first_id_def
    by (rule spec_return) (use id_text_fits [OF r(1)] id_text_fits [OF r(2)] in metis)
qed simp

end

section \<open>The seam meets its contract\<close>

sublocale sdb_env \<subseteq> sql: ballot_store "sql_seam E" "w_idle E" "w_in_txn E" w_broken
proof (unfold_locales, unfold sql_seam_def seam.simps)
  fix k D S w cmd l
  show "w_idle E k D w \<Longrightarrow> w_idle E False D w" by (simp add: w_idle_def)
  show "spec (w_idle E k D) (bb_db_begin E)
     (\<lambda>r w. (r = BB_OK \<and> w_in_txn E k D D w) \<or> (r \<noteq> BB_OK \<and> \<not> k \<and> infra r \<and> w_idle E k D w))"
    by (rule begin_meets)
  show "spec (w_in_txn E k D S) (bb_db_commit E)
     (\<lambda>r w. (r = BB_OK \<and> w_idle E k S w) \<or>
            (r \<noteq> BB_OK \<and> \<not> k \<and> infra r \<and> (w_idle E k D w \<or> (r = BB_ERR_DB \<and> w_idle E k S w))))"
    by (rule commit_meets)
  show "spec (w_in_txn E k D S) (bb_db_rollback E) (\<lambda>_. w_idle E k D)"
    by (rule specI) (auto simp: w_in_txn_def sees_def cw_ok_def intro: rollback_meets)
  show "spec (w_broken D) (bb_db_rollback E) (\<lambda>_. w_idle E False D)"
    by (rule specI) (auto simp: w_broken_def intro: rollback_meets)
  show "spec (w_idle E k D) (bb_log l) (\<lambda>_. w_idle E k D)"
    "spec (w_in_txn E k D S) (bb_log l) (\<lambda>_. w_in_txn E k D S)"
    by (rule bb_log_keeps)+
  show "spec (w_idle E k D) (bb_alloc_id E)
      (\<lambda>s w. w_idle E k D w \<and> (s = first_id \<or> s = next_id D) \<and> (k \<longrightarrow> s = next_id D))"
    if "store_ok D" using that by (rule alloc_meets)
  show "spec (w_in_txn E k D S) (db_exec E cmd)
      (\<lambda>(r, res) w. (r = BB_OK \<and> read_spec cmd S res \<and> w_in_txn E k D S w) \<or>
                     (r \<noteq> BB_OK \<and> \<not> k \<and> infra r \<and> w_broken D w))"
    if "store_ok S" "cmd_ok cmd" "\<not> op_is_write (cmd_op cmd)" "read_pre cmd S"
    by (rule db_exec_txn, rule spec_post [OF run_op_read [OF that]]) (auto simp: read_post_def)
  show "spec (w_in_txn E k D S) (db_exec E cmd)
      (\<lambda>(r, res) w. (r = BB_OK \<and> w_in_txn E k D (spec_write cmd S) w) \<or>
                     (r \<noteq> BB_OK \<and> \<not> k \<and> infra r \<and> w_broken D w))"
    if "store_ok S" "cmd_ok cmd" "op_is_write (cmd_op cmd)" "write_pre cmd S"
    using db_exec_txn [OF spec_post [OF run_op_write [OF that]], of k D "\<lambda>_. True" "spec_write cmd S"]
    by (simp add: write_post_def split_def)
  show "spec (w_idle E k D) (db_exec E cmd)
      (\<lambda>(r, res) w. (r = BB_OK \<and> read_spec cmd D res \<and> w_idle E k D w) \<or>
                     (r \<noteq> BB_OK \<and> \<not> k \<and> r = BB_ERR_DB \<and> w_idle E k D w))"
    if "store_ok D" "cmd_ok cmd" "\<not> op_is_write (cmd_op cmd)" "read_pre cmd D"
    by (rule spec_post [OF db_exec_idle [where S' = D and F = "read_spec cmd D"]])
       (use attempt_read [OF that] that(3) in \<open>auto simp: attempt_post_def\<close>)
  show "spec (w_idle E k D) (db_exec E cmd)
      (\<lambda>(r, res) w. (r = BB_OK \<and> w_idle E k (spec_write cmd D) w) \<or>
                     (r \<noteq> BB_OK \<and> \<not> k \<and> r = BB_ERR_DB \<and> (w_idle E k D w \<or> w_idle E k (spec_write cmd D) w)))"
    if "store_ok D" "cmd_ok cmd" "op_is_write (cmd_op cmd)" "write_pre cmd D"
    by (rule spec_post [OF db_exec_idle [where S' = "spec_write cmd D" and F = "\<lambda>_. True"]])
       (use attempt_write [OF that] that(3) in \<open>auto simp: attempt_post_def\<close>)
qed

end
