(* ===== verification/Names.thy ===== *)
theory Names
  imports Simple_Db
begin

text \<open>
  Player names, \<^verbatim>\<open>src/src/libtetrisutil/name.c\<close>: the allowlist, the length rule and the fold to
  lower case that every stored account name goes through.
\<close>

definition MAX_USER_NAME :: nat where "MAX_USER_NAME = 16"
definition USER_NAME_MAX :: nat where "USER_NAME_MAX = MAX_USER_NAME - 1"

definition between :: "char \<Rightarrow> char \<Rightarrow> char \<Rightarrow> bool" where
  "between lo hi c \<longleftrightarrow> (of_char lo :: nat) \<le> of_char c \<and> (of_char c :: nat) \<le> of_char hi"

definition user_name_char_ok :: "char \<Rightarrow> bool" where
  "user_name_char_ok c \<longleftrightarrow>
     between CHR ''a'' CHR ''z'' c \<or> between CHR ''A'' CHR ''Z'' c \<or> between CHR ''0'' CHR ''9'' c \<or>
     c = CHR ''_'' \<or> c = CHR ''-''"

definition user_name_ok :: "string \<Rightarrow> bool" where
  "user_name_ok s \<longleftrightarrow> 1 \<le> length s \<and> length s \<le> USER_NAME_MAX \<and> list_all user_name_char_ok s"

definition fold_char :: "char \<Rightarrow> char" where
  "fold_char ch = (if between CHR ''A'' CHR ''Z'' ch then char_of (of_char ch - 65 + 97 :: nat) else ch)"

definition user_name_fold :: "nat \<Rightarrow> string \<Rightarrow> string option" where
  "user_name_fold cap s = (if cap < MAX_USER_NAME \<or> \<not> user_name_ok s then None else Some (map fold_char s))"

lemmas name_lens = MAX_USER_NAME_def USER_NAME_MAX_def

section \<open>Lemmas\<close>

text \<open>A folded character is in the allowlist and folds to itself.\<close>

lemma fold_char_upper:
  assumes "between CHR ''A'' CHR ''Z'' c"
  shows "between CHR ''a'' CHR ''z'' (fold_char c)"
proof -
  have n: "65 \<le> (of_char c :: nat)" "of_char c \<le> (90 :: nat)" using assms by (simp_all add: between_def)
  then have "of_char (char_of (of_char c - 65 + 97 :: nat) :: char) = (of_char c - 65 + 97 :: nat)" by simp
  with n assms show ?thesis by (simp add: fold_char_def between_def)
qed

lemma lower_not_upper: "between CHR ''a'' CHR ''z'' c \<Longrightarrow> \<not> between CHR ''A'' CHR ''Z'' c"
  by (simp add: between_def)

lemma fold_char_ok: "user_name_char_ok c \<Longrightarrow> user_name_char_ok (fold_char c)"
  using fold_char_upper [of c] by (cases "between CHR ''A'' CHR ''Z'' c") (auto simp: user_name_char_ok_def fold_char_def)

lemma fold_char_idem [simp]: "fold_char (fold_char c) = fold_char c"
proof (cases "between CHR ''A'' CHR ''Z'' c")
  case True
  from lower_not_upper [OF fold_char_upper [OF True]] show ?thesis by (simp add: fold_char_def [of "fold_char c"])
qed (simp add: fold_char_def)

lemma user_name_ok_fold: "user_name_ok s \<Longrightarrow> user_name_ok (map fold_char s)"
  using fold_char_ok by (auto simp: user_name_ok_def list_all_iff)

lemma user_name_char_clean: "user_name_char_ok c \<Longrightarrow> clean_char c"
  by (auto simp: user_name_char_ok_def clean_char_def between_def)

text \<open>A legal name cannot leave its SQL literal, break a line or shift a field.\<close>

lemma user_name_clean: "user_name_ok s \<Longrightarrow> list_all clean_char s \<and> length s \<le> 15 \<and> s \<noteq> []"
  using user_name_char_clean by (auto simp: user_name_ok_def name_lens list_all_iff)

end
