(* ===== verification/Token.thy ===== *)
theory Token
  imports Prelude
begin

text \<open>
  Session tokens, \<^verbatim>\<open>src/src/libtetrisauth/lib/token.c\<close> and \<^verbatim>\<open>hex.c\<close>: a token is the claims as
  four lines of text and the MAC over them in hexadecimal. HMAC-SHA256 is OpenSSL's and an
  argument, \<open>H secret msg\<close>, with \<^const>\<open>None\<close> for a failed call. Bytes are characters and a
  64-bit \<^verbatim>\<open>long long\<close> is an \<^typ>\<open>int\<close>.
\<close>

section \<open>Hexadecimal\<close>

definition HEX :: string where "HEX = ''0123456789abcdef''"

definition auth_hex_encode :: "string \<Rightarrow> string" where
  "auth_hex_encode bs = concat (map (\<lambda>b. [HEX ! (of_char b div 16), HEX ! (of_char b mod 16)]) bs)"

definition auth_hex_nibble :: "char \<Rightarrow> nat option" where
  "auth_hex_nibble c =
     (let n = of_char c
      in if 48 \<le> n \<and> n \<le> 57 then Some (n - 48) else if 97 \<le> n \<and> n \<le> 102 then Some (n - 97 + 10) else None)"

fun auth_hex_loop :: "string \<Rightarrow> string option" where
  "auth_hex_loop (a # b # r) =
     (case (auth_hex_nibble a, auth_hex_nibble b) of
        (Some hi, Some lo) \<Rightarrow> map_option (\<lambda>bs. char_of (hi * 16 + lo) # bs) (auth_hex_loop r)
      | _ \<Rightarrow> None)"
| "auth_hex_loop _ = Some []"

definition auth_hex_decode :: "string \<Rightarrow> nat \<Rightarrow> string option" where
  "auth_hex_decode s cap = (if length s mod 2 \<noteq> 0 \<or> cap < length s div 2 then None else auth_hex_loop s)"

section \<open>Minting\<close>

definition TOKEN_SECRET_MIN_LEN :: nat where "TOKEN_SECRET_MIN_LEN = 32"
definition TOKEN_NAME_MAX :: nat where "TOKEN_NAME_MAX = 15"
definition TOKEN_SIG_LEN :: nat where "TOKEN_SIG_LEN = 32"
definition TOKEN_SIG_HEX_LEN :: nat where "TOKEN_SIG_HEX_LEN = 64"
definition TOKEN_MAX_LEN :: nat where "TOKEN_MAX_LEN = 256"
definition INT_MAX :: nat where "INT_MAX = 2 ^ 31 - 1"
definition LLONG_MAX :: int where "LLONG_MAX = 2 ^ 63 - 1"

lemmas token_lens = TOKEN_SECRET_MIN_LEN_def TOKEN_NAME_MAX_def TOKEN_SIG_LEN_def TOKEN_SIG_HEX_LEN_def TOKEN_MAX_LEN_def

type_synonym hmac = "string \<Rightarrow> string \<Rightarrow> string option"

record token_claims =
  tc_sub :: int
  tc_name :: string
  tc_iat :: int
  tc_exp :: int

definition claims0 :: token_claims where
  "claims0 = \<lparr>tc_sub = 0, tc_name = [], tc_iat = 0, tc_exp = 0\<rparr>"

datatype token_result = TOKEN_OK | TOKEN_E_MALFORMED | TOKEN_E_SIGNATURE | TOKEN_E_CLAIMS | TOKEN_E_EXPIRED

definition hmac_sha256 :: "hmac \<Rightarrow> string \<Rightarrow> string \<Rightarrow> string option" where
  "hmac_sha256 H secret msg =
     (case H secret msg of None \<Rightarrow> None | Some mac \<Rightarrow> if length mac = TOKEN_SIG_LEN then Some mac else None)"

definition token_name_char :: "char \<Rightarrow> bool" where
  "token_name_char c \<longleftrightarrow>
     (let n = of_char c :: nat
      in 65 \<le> n \<and> n \<le> 90 \<or> 97 \<le> n \<and> n \<le> 122 \<or> 48 \<le> n \<and> n \<le> 57 \<or> c = CHR ''_'' \<or> c = CHR ''-'')"

definition is_name_ok :: "string \<Rightarrow> bool" where
  "is_name_ok s \<longleftrightarrow> s \<noteq> [] \<and> length s \<le> TOKEN_NAME_MAX \<and> list_all token_name_char s"

definition secret_ok :: "string \<Rightarrow> bool" where
  "secret_ok secret \<longleftrightarrow> TOKEN_SECRET_MIN_LEN \<le> length secret \<and> length secret \<le> INT_MAX"

definition write_claims :: "nat \<Rightarrow> token_claims \<Rightarrow> string option" where
  "write_claims cap claims =
     (if TOKEN_NAME_MAX < length (tc_name claims) then None
      else if \<not> is_name_ok (tc_name claims) then None
      else let text = int_str (tc_sub claims) @ [NL] @ tc_name claims @ [NL] @ int_str (tc_iat claims) @ [NL] @
                      int_str (tc_exp claims) @ [NL]
           in if cap \<le> length text then None else Some text)"

definition write_token :: "hmac \<Rightarrow> nat \<Rightarrow> token_claims \<Rightarrow> string \<Rightarrow> string option" where
  "write_token H cap claims secret =
     (case write_claims cap claims of
        None \<Rightarrow> None
      | Some tok \<Rightarrow>
          if cap < length tok + TOKEN_SIG_HEX_LEN + 1 then None
          else case hmac_sha256 H secret tok of
                 None \<Rightarrow> None
               | Some mac \<Rightarrow> Some (tok @ auth_hex_encode mac))"

definition token_mint :: "hmac \<Rightarrow> nat \<Rightarrow> token_claims \<Rightarrow> string \<Rightarrow> string option" where
  "token_mint H out_len claims secret =
     (if out_len = 0 \<or> \<not> secret_ok secret then None
      else case write_token H TOKEN_MAX_LEN claims secret of
             None \<Rightarrow> None
           | Some tok \<Rightarrow> if out_len < length tok + 1 then None else Some tok)"

section \<open>Verifying\<close>

text \<open>The fields before each separator and the rest after the last one; at most four separators.\<close>

fun token_fields :: "nat \<Rightarrow> string \<Rightarrow> (string list \<times> string) option" where
  "token_fields n p =
     (if NL \<notin> set p then Some ([], p)
      else case n of
             0 \<Rightarrow> None
           | Suc m \<Rightarrow>
               (case token_fields m (tl (dropWhile (\<lambda>c. c \<noteq> NL) p)) of
                  None \<Rightarrow> None
                | Some (fs, r) \<Rightarrow> Some (takeWhile (\<lambda>c. c \<noteq> NL) p # fs, r)))"

declare token_fields.simps [simp del]

record token_parts =
  tp_sub :: string
  tp_name :: string
  tp_iat :: string
  tp_exp :: string
  tp_sig :: string
  tp_signing :: string

definition split_token :: "string \<Rightarrow> token_parts option" where
  "split_token token =
     (case token_fields 4 token of
        Some ([sub, name, iat, ex], sig) \<Rightarrow>
          if length sig \<noteq> TOKEN_SIG_HEX_LEN then None
          else Some \<lparr>tp_sub = sub, tp_name = name, tp_iat = iat, tp_exp = ex, tp_sig = sig,
                     tp_signing = take (length token - length sig) token\<rparr>
      | _ \<Rightarrow> None)"

definition check_signature :: "hmac \<Rightarrow> string \<Rightarrow> string \<Rightarrow> string \<Rightarrow> token_result" where
  "check_signature H signing sig secret =
     (case hmac_sha256 H secret signing of
        None \<Rightarrow> TOKEN_E_SIGNATURE
      | Some mac \<Rightarrow> if auth_hex_encode mac = sig then TOKEN_OK else TOKEN_E_SIGNATURE)"

fun pos_ll_loop :: "int \<Rightarrow> string \<Rightarrow> int option" where
  "pos_ll_loop acc [] = Some acc"
| "pos_ll_loop acc (c # r) =
     (if \<not> is_digit c then None
      else if (LLONG_MAX - int (digit_val c)) div 10 < acc then None
      else pos_ll_loop (acc * 10 + int (digit_val c)) r)"

definition parse_pos_ll :: "string \<Rightarrow> int option" where
  "parse_pos_ll s =
     (if s = [] then None else if hd s = CHR ''0'' \<and> 1 < length s then None else pos_ll_loop 0 s)"

definition read_claims :: "token_parts \<Rightarrow> token_claims option" where
  "read_claims parts =
     (case (parse_pos_ll (tp_sub parts), parse_pos_ll (tp_iat parts), parse_pos_ll (tp_exp parts)) of
        (Some sub, Some iat, Some ex) \<Rightarrow>
          if \<not> is_name_ok (tp_name parts) then None
          else Some \<lparr>tc_sub = sub, tc_name = tp_name parts, tc_iat = iat, tc_exp = ex\<rparr>
      | _ \<Rightarrow> None)"

definition token_verify :: "hmac \<Rightarrow> string \<Rightarrow> string \<Rightarrow> int \<Rightarrow> token_result \<times> token_claims" where
  "token_verify H token secret now =
     (if \<not> secret_ok secret then (TOKEN_E_MALFORMED, claims0)
      else if TOKEN_MAX_LEN \<le> length token then (TOKEN_E_MALFORMED, claims0)
      else case split_token token of
             None \<Rightarrow> (TOKEN_E_MALFORMED, claims0)
           | Some parts \<Rightarrow>
               (case check_signature H (tp_signing parts) (tp_sig parts) secret of
                  TOKEN_OK \<Rightarrow>
                    (case read_claims parts of
                       None \<Rightarrow> (TOKEN_E_CLAIMS, claims0)
                     | Some c \<Rightarrow> if tc_exp c \<le> now then (TOKEN_E_EXPIRED, claims0) else (TOKEN_OK, c))
                | rc \<Rightarrow> (rc, claims0)))"

section \<open>Lemmas\<close>

lemma hex_length [simp]: "length (auth_hex_encode bs) = 2 * length bs"
  by (induction bs) (simp_all add: auth_hex_encode_def)

lemma hex_at: "n < 16 \<Longrightarrow> auth_hex_nibble (HEX ! n) = Some n"
proof -
  have "\<forall>n \<in> {..<16}. auth_hex_nibble (HEX ! n) = Some n" by code_simp
  then show "n < 16 \<Longrightarrow> ?thesis" by simp
qed

lemma hex_roundtrip: "length bs \<le> cap \<Longrightarrow> auth_hex_decode (auth_hex_encode bs) cap = Some bs"
proof -
  have "auth_hex_loop (auth_hex_encode bs) = Some bs"
  proof (induction bs)
    case (Cons b bs)
    have "(of_char b :: nat) < 256" by simp
    then have "of_char b div 16 < (16 :: nat)" by (simp add: less_mult_imp_div_less)
    with Cons show ?case by (simp add: auth_hex_encode_def hex_at char_of_char)
  qed (simp add: auth_hex_encode_def)
  then show "length bs \<le> cap \<Longrightarrow> ?thesis" by (simp add: auth_hex_decode_def)
qed

lemma hex_plain: "NL \<notin> set (auth_hex_encode bs)"
proof -
  have "\<forall>n \<in> {..<16}. NL \<noteq> HEX ! n" by code_simp
  moreover have "of_char b div 16 < (16 :: nat)" for b :: char
  proof -
    have "(of_char b :: nat) < 256" by simp
    then show ?thesis by (simp add: less_mult_imp_div_less)
  qed
  ultimately have "NL \<noteq> HEX ! (of_char b div 16) \<and> NL \<noteq> HEX ! (of_char b mod 16)" for b :: char by simp
  then show ?thesis by (induction bs) (simp_all add: auth_hex_encode_def)
qed

lemma digit_bound: "is_digit c \<Longrightarrow> digit_val c < 10"
  by (auto simp: is_digit_def digit_val_def)

text \<open>The overflow guard is exact: the loop computes the value when it fits.\<close>

abbreviation push_digits :: "int \<Rightarrow> string \<Rightarrow> int" where
  "push_digits acc s \<equiv> foldl (\<lambda>a c. a * 10 + int (digit_val c)) acc s"

lemma push_digits_mono: "0 \<le> a \<Longrightarrow> a \<le> push_digits a r"
proof (induction r arbitrary: a)
  case (Cons x xs)
  have "a \<le> a * 10 + int (digit_val x)" using Cons.prems by simp
  also have "\<dots> \<le> push_digits (a * 10 + int (digit_val x)) xs" by (rule Cons.IH) (use Cons.prems in simp)
  finally show ?case by simp
qed simp

lemma ll_guard: "((M :: int) - d) div 10 < acc \<longleftrightarrow> M < acc * 10 + d"
proof -
  define q r where "q = (M - d) div 10" and "r = (M - d) mod 10"
  have "M - d = 10 * q + r" "0 \<le> r" "r < 10" by (simp_all add: q_def r_def)
  then show ?thesis unfolding q_def [symmetric] by linarith
qed

lemma pos_ll_loop_exact:
  assumes "list_all is_digit s" "0 \<le> acc" "acc \<le> LLONG_MAX"
  shows "pos_ll_loop acc s = (if push_digits acc s \<le> LLONG_MAX then Some (push_digits acc s) else None)"
  using assms
proof (induction s arbitrary: acc)
  case (Cons c r)
  define a where "a = acc * 10 + int (digit_val c)"
  have a: "0 \<le> a" using Cons.prems by (simp add: a_def)
  have step: "pos_ll_loop acc (c # r) = (if LLONG_MAX < a then None else pos_ll_loop a r)" "push_digits acc (c # r) = push_digits a r"
    using Cons.prems by (simp_all add: ll_guard a_def)
  show ?case
  proof (cases "LLONG_MAX < a")
    case True
    with push_digits_mono [OF a, of r] show ?thesis unfolding step by simp
  next
    case False
    with Cons.IH [of a] Cons.prems a show ?thesis unfolding step by simp
  qed
qed simp

lemma foldl_int_digits: "foldl (\<lambda>a c. a * 10 + int (digit_val c)) (int n) s = int (foldl (\<lambda>a c. a * 10 + digit_val c) n s)"
proof (induction s arbitrary: n)
  case (Cons c s)
  show ?case using Cons.IH [of "n * 10 + digit_val c"] by simp
qed simp

lemma digit_char_val: "is_digit c \<Longrightarrow> digit_char (digit_val c) = c"
  by (simp add: digit_char_def digit_val_def is_digit_def)

lemma zero_char: "digit_char 0 = CHR ''0''"
  by code_simp

lemma zero_digit: "is_digit c \<Longrightarrow> digit_val c = 0 \<longleftrightarrow> c = CHR ''0''"
proof -
  assume c: "is_digit c"
  show ?thesis using digit_char_val [OF c] zero_char by (auto simp: digit_val_def)
qed

text \<open>A digit string without a leading zero is the print of its value.\<close>

lemma digits_canonical:
  "list_all is_digit s \<Longrightarrow> s \<noteq> [] \<Longrightarrow> \<not> (hd s = CHR ''0'' \<and> 1 < length s) \<Longrightarrow> nat_str (digits_val s) = s"
proof (induction s rule: rev_induct)
  case (snoc c s)
  have c: "is_digit c" "digit_val c < 10" using snoc.prems(1) digit_bound by auto
  show ?case
  proof (cases "s = []")
    case True
    with c show ?thesis by (simp add: digits_val_def nat_str_small digit_char_val)
  next
    case False
    have hd: "hd s \<noteq> CHR ''0''" using False snoc.prems(3) by (cases s) auto
    then have IH: "nat_str (digits_val s) = s" using snoc False by simp
    have "digits_val s \<noteq> 0"
    proof
      assume "digits_val s = 0"
      with IH have "s = [CHR ''0'']" by (simp add: nat_str_small zero_char)
      with hd show False by simp
    qed
    then have "10 \<le> digits_val s * 10 + digit_val c" by simp
    moreover have "(digits_val s * 10 + digit_val c) div 10 = digits_val s" "(digits_val s * 10 + digit_val c) mod 10 = digit_val c"
      using c(2) by simp_all
    ultimately show ?thesis using IH c(1) by (simp add: digits_val_snoc nat_str_big digit_char_val)
  qed
qed simp

lemma nat_str_head: "hd (nat_str n) = CHR ''0'' \<Longrightarrow> n = 0"
proof (induction n rule: nat_str_induct)
  case (small n)
  then have "digit_char n = digit_char 0" by (simp only: nat_str_small list.sel zero_char)
  with small digit_char_inj [of n 0] show ?case by simp
next
  case (big n)
  have "hd (nat_str n) = hd (nat_str (n div 10))" unfolding nat_str_big [OF big(1)] by (rule hd_append2) simp
  with big have "n div 10 = 0" by simp
  with big(1) show ?case by (simp add: div_eq_0_iff)
qed

lemma parse_pos_ll_exact: "parse_pos_ll s = Some v \<longleftrightarrow> 0 \<le> v \<and> v \<le> LLONG_MAX \<and> s = int_str v"
proof -
  have pos: "(0 :: int) \<le> LLONG_MAX" by (simp add: LLONG_MAX_def)
  have all: "list_all is_digit s" if "pos_ll_loop acc s = Some v" for acc
    using that by (induction s arbitrary: acc) (auto split: if_splits)
  show ?thesis
  proof
    assume p: "parse_pos_ll s = Some v"
    then have s: "s \<noteq> []" "\<not> (hd s = CHR ''0'' \<and> 1 < length s)" "pos_ll_loop 0 s = Some v"
      by (auto simp: parse_pos_ll_def split: if_splits)
    note d = all [OF s(3)]
    from s(3) have v: "v = int (digits_val s)" "v \<le> LLONG_MAX"
      using pos_ll_loop_exact [OF d order_refl pos] foldl_int_digits [of 0 s]
      by (auto simp: digits_val_def split: if_splits)
    then show "0 \<le> v \<and> v \<le> LLONG_MAX \<and> s = int_str v" using digits_canonical [OF d s(1,2)] by (simp add: int_str_def)
  next
    assume "0 \<le> v \<and> v \<le> LLONG_MAX \<and> s = int_str v"
    then obtain n where n: "v = int n" "int n \<le> LLONG_MAX" "s = nat_str n"
      by (metis int_nat_eq int_str_def not_less)
    have one: "\<not> (hd (nat_str n) = CHR ''0'' \<and> 1 < length (nat_str n))"
      using nat_str_head [of n] nat_str_small [of 0] by auto
    have "push_digits 0 (nat_str n) = int n"
      using foldl_int_digits [of 0 "nat_str n"] digits_val_nat_str [of n] unfolding digits_val_def by simp
    then have "pos_ll_loop 0 (nat_str n) = Some (int n)"
      using pos_ll_loop_exact [OF nat_str_all_digits order_refl pos, of n] n(2) by simp
    then show "parse_pos_ll s = Some v" unfolding parse_pos_ll_def n(1,3) if_not_P [OF one] by simp
  qed
qed

abbreviation closed_lines :: "string list \<Rightarrow> string" where
  "closed_lines fs \<equiv> concat (map (\<lambda>f. f @ [NL]) fs)"

lemma token_fields_spec:
  "token_fields n p = Some (fs, r) \<longleftrightarrow>
     p = closed_lines fs @ r \<and> length fs \<le> n \<and> (\<forall>f \<in> set fs. NL \<notin> set f) \<and> NL \<notin> set r"
proof (induction n arbitrary: p fs)
  case 0
  show ?case by (cases fs) (auto simp: token_fields.simps [of 0])
next
  case (Suc m)
  show ?case
  proof (cases "NL \<in> set p")
    case False
    then show ?thesis by (cases fs) (auto simp: token_fields.simps [of "Suc m"])
  next
    case True
    then obtain f q where p: "p = f @ NL # q" "NL \<notin> set f" by (metis split_list_first)
    have step: "token_fields (Suc m) p = map_option (\<lambda>(gs, r). (f # gs, r)) (token_fields m q)"
      using p by (simp add: token_fields.simps [of "Suc m"] split: option.splits)
    show ?thesis
    proof (cases fs)
      case Nil
      with True step show ?thesis by auto
    next
      case (Cons g gs)
      have "f = g \<and> q = closed_lines gs @ r" if "f @ NL # q = g @ NL # closed_lines gs @ r" "NL \<notin> set g"
      proof -
        have "takeWhile (\<lambda>c. c \<noteq> NL) (f @ NL # q) = takeWhile (\<lambda>c. c \<noteq> NL) (g @ NL # closed_lines gs @ r)" using that(1) by simp
        with p(2) that(2) have "f = g" by simp
        with that(1) show ?thesis by simp
      qed
      with Cons p step Suc.IH [of q gs] show ?thesis by auto
    qed
  qed
qed

definition claims_text :: "token_claims \<Rightarrow> string" where
  "claims_text c = closed_lines [int_str (tc_sub c), tc_name c, int_str (tc_iat c), int_str (tc_exp c)]"

abbreviation ll_ok :: "int \<Rightarrow> bool" where
  "ll_ok v \<equiv> 0 \<le> v \<and> v \<le> LLONG_MAX"

lemma name_plain: "is_name_ok s \<Longrightarrow> NL \<notin> set s"
  by (auto simp: is_name_ok_def list_all_iff token_name_char_def Let_def)

lemma split_token_spec:
  "split_token tok = Some parts \<longleftrightarrow>
     tok = tp_signing parts @ tp_sig parts \<and> tp_signing parts = closed_lines [tp_sub parts, tp_name parts, tp_iat parts, tp_exp parts] \<and>
     NL \<notin> set (tp_sub parts) \<and> NL \<notin> set (tp_name parts) \<and> NL \<notin> set (tp_iat parts) \<and> NL \<notin> set (tp_exp parts) \<and>
     NL \<notin> set (tp_sig parts) \<and> length (tp_sig parts) = TOKEN_SIG_HEX_LEN" (is "_ \<longleftrightarrow> ?R")
proof
  assume "split_token tok = Some parts"
  then obtain sub name iat ex sig where f: "token_fields 4 tok = Some ([sub, name, iat, ex], sig)" "length sig = TOKEN_SIG_HEX_LEN"
    "parts = \<lparr>tp_sub = sub, tp_name = name, tp_iat = iat, tp_exp = ex, tp_sig = sig, tp_signing = take (length tok - length sig) tok\<rparr>"
    by (auto simp: split_token_def split: option.splits prod.splits list.splits if_splits)
  from f(1) have t: "tok = closed_lines [sub, name, iat, ex] @ sig" "NL \<notin> set sub" "NL \<notin> set name" "NL \<notin> set iat" "NL \<notin> set ex" "NL \<notin> set sig"
    by (auto simp: token_fields_spec)
  have "take (length (as @ bs) - length bs) (as @ bs) = as" for as bs :: string by simp
  then have "take (length tok - length sig) tok = closed_lines [sub, name, iat, ex]" unfolding t(1) .
  with t f(2,3) show ?R by simp
next
  assume r: ?R
  let ?fs = "[tp_sub parts, tp_name parts, tp_iat parts, tp_exp parts]"
  have f: "token_fields 4 tok = Some (?fs, tp_sig parts)" using r by (simp add: token_fields_spec)
  have "tok = tp_signing parts @ tp_sig parts" using r by blast
  then have "take (length tok - length (tp_sig parts)) tok = tp_signing parts" by simp
  then show "split_token tok = Some parts" using r f by (simp add: split_token_def)
qed

lemma read_claims_spec:
  "read_claims parts = Some c \<longleftrightarrow>
     is_name_ok (tc_name c) \<and> ll_ok (tc_sub c) \<and> ll_ok (tc_iat c) \<and> ll_ok (tc_exp c) \<and>
     tp_sub parts = int_str (tc_sub c) \<and> tp_name parts = tc_name c \<and> tp_iat parts = int_str (tc_iat c) \<and> tp_exp parts = int_str (tc_exp c)"
proof -
  have "read_claims parts = Some c \<longleftrightarrow>
      parse_pos_ll (tp_sub parts) = Some (tc_sub c) \<and> parse_pos_ll (tp_iat parts) = Some (tc_iat c) \<and>
      parse_pos_ll (tp_exp parts) = Some (tc_exp c) \<and> is_name_ok (tc_name c) \<and> tp_name parts = tc_name c"
    by (cases c) (auto simp: read_claims_def split: option.splits)
  then show ?thesis by (auto simp: parse_pos_ll_exact)
qed

lemma mint_spec:
  "token_mint H cap c secret = Some tok \<longleftrightarrow>
     secret_ok secret \<and> is_name_ok (tc_name c) \<and> length tok < TOKEN_MAX_LEN \<and> length tok < cap \<and>
     (\<exists>mac. hmac_sha256 H secret (claims_text c) = Some mac \<and> tok = claims_text c @ auth_hex_encode mac)"
proof -
  have len: "length mac = 32" if "hmac_sha256 H secret m = Some mac" for m mac
    using that by (auto simp: hmac_sha256_def token_lens split: option.splits if_splits)
  have body: "int_str (tc_sub c) @ [NL] @ tc_name c @ [NL] @ int_str (tc_iat c) @ [NL] @ int_str (tc_exp c) @ [NL] = claims_text c"
    by (simp add: claims_text_def)
  have short: "is_name_ok (tc_name c) \<Longrightarrow> \<not> TOKEN_NAME_MAX < length (tc_name c)" by (simp add: is_name_ok_def)
  show ?thesis
    unfolding token_mint_def write_token_def write_claims_def body Let_def
    by (auto simp: token_lens dest: len short split: option.splits if_splits)
qed

text \<open>
  C33: \<^verbatim>\<open>token_verify\<close> accepts exactly the tokens \<^verbatim>\<open>token_mint\<close> makes with the same secret: a string
  is accepted with some claims just when minting these claims gives this very string, no claim is
  negative, and the token has not expired.
\<close>

theorem token_exact:
  "token_verify H tok secret now = (TOKEN_OK, c) \<longleftrightarrow>
     token_mint H TOKEN_MAX_LEN c secret = Some tok \<and> now < tc_exp c \<and>
     0 \<le> tc_sub c \<and> tc_sub c \<le> LLONG_MAX \<and> 0 \<le> tc_iat c \<and> tc_iat c \<le> LLONG_MAX \<and> tc_exp c \<le> LLONG_MAX \<and> 0 \<le> tc_exp c"
    (is "?L \<longleftrightarrow> ?R")
proof
  assume ?L
  then obtain parts where p: "secret_ok secret" "length tok < TOKEN_MAX_LEN" "split_token tok = Some parts"
    "check_signature H (tp_signing parts) (tp_sig parts) secret = TOKEN_OK" "read_claims parts = Some c" "now < tc_exp c"
    by (auto simp: token_verify_def split: if_splits option.splits token_result.splits)
  from p(4) obtain mac where "hmac_sha256 H secret (tp_signing parts) = Some mac" "auth_hex_encode mac = tp_sig parts"
    by (auto simp: check_signature_def split: option.splits if_splits)
  with p show ?R by (auto simp: mint_spec split_token_spec read_claims_spec claims_text_def)
next
  assume r: ?R
  then obtain mac where m: "secret_ok secret" "is_name_ok (tc_name c)" "length tok < TOKEN_MAX_LEN"
    "hmac_sha256 H secret (claims_text c) = Some mac" "tok = claims_text c @ auth_hex_encode mac" by (auto simp: mint_spec)
  then have len: "length (auth_hex_encode mac) = TOKEN_SIG_HEX_LEN"
    by (auto simp: hmac_sha256_def token_lens split: option.splits if_splits)
  let ?parts = "\<lparr>tp_sub = int_str (tc_sub c), tp_name = tc_name c, tp_iat = int_str (tc_iat c), tp_exp = int_str (tc_exp c),
    tp_sig = auth_hex_encode mac, tp_signing = claims_text c\<rparr>"
  have "split_token tok = Some ?parts" using m(2,5) len by (simp add: split_token_spec claims_text_def name_plain hex_plain)
  moreover have "check_signature H (claims_text c) (auth_hex_encode mac) secret = TOKEN_OK" by (simp add: check_signature_def m(4))
  moreover have "read_claims ?parts = Some c" using r m(2) by (simp add: read_claims_spec)
  ultimately show ?L using m r by (simp add: token_verify_def)
qed

text \<open>Claims within range are minted whenever the MAC can be computed.\<close>

lemma token_minted:
  assumes "secret_ok secret" "is_name_ok (tc_name c)" "ll_ok (tc_sub c)" "ll_ok (tc_iat c)" "ll_ok (tc_exp c)"
    "\<And>m. \<exists>mac. H secret m = Some mac \<and> length mac = 32"
  shows "\<exists>tok. token_mint H TOKEN_MAX_LEN c secret = Some tok \<and> length tok \<le> 140"
proof -
  have l: "length (int_str v) \<le> 19" if "ll_ok v" for v
  proof -
    have "nat v < 10 ^ 19" using that by (simp add: LLONG_MAX_def nat_less_iff)
    then have "length (nat_str (nat v)) \<le> 19" by (rule nat_str_length) simp
    with that show ?thesis by (simp add: int_str_def)
  qed
  have "length (claims_text c) \<le> 76"
    using l [OF assms(3)] l [OF assms(4)] l [OF assms(5)] assms(2) by (simp add: claims_text_def is_name_ok_def token_lens)
  moreover obtain mac where "H secret (claims_text c) = Some mac" "length mac = 32" using assms(6) by blast
  ultimately show ?thesis using assms(1,2) by (auto simp: mint_spec hmac_sha256_def token_lens)
qed

end
