(* ===== verification/Account.thy ===== *)
theory Account
  imports Ref_Env Brain_Txn Names Token
begin

text \<open>
  Accounts, \<^verbatim>\<open>src/src/libtetrisauth/lib/account.c\<close>: logging in and registering over one
  connection to the database. PBKDF2 is OpenSSL's and an argument \<open>P password salt iters\<close>; the
  random salt, the clock and the named semaphore are arguments too.
\<close>

section \<open>Passwords\<close>

definition BODY_CAP :: nat where "BODY_CAP = 4096"
definition CRED_PASS_MIN :: nat where "CRED_PASS_MIN = 8"
definition CRED_PASS_MAX :: nat where "CRED_PASS_MAX = 128"
definition TXN_ATTEMPTS :: nat where "TXN_ATTEMPTS = 3"
definition SALT_HEX_LEN :: nat where "SALT_HEX_LEN = 32"
definition DIGEST_HEX_LEN :: nat where "DIGEST_HEX_LEN = 64"
definition HASH_SALT_BYTES :: nat where "HASH_SALT_BYTES = 16"
definition HASH_DIGEST_BYTES :: nat where "HASH_DIGEST_BYTES = 32"
definition QUOTED_MAX :: nat where "QUOTED_MAX = MAX_USER_NAME * 2 + 4"
definition REG_WAIT_MS :: nat where "REG_WAIT_MS = 5000"
definition REG_POLL_MIN_US :: nat where "REG_POLL_MIN_US = 1000"
definition REG_POLL_SPAN_US :: nat where "REG_POLL_SPAN_US = 4000"

lemmas account_lens = BODY_CAP_def CRED_PASS_MIN_def CRED_PASS_MAX_def TXN_ATTEMPTS_def SALT_HEX_LEN_def DIGEST_HEX_LEN_def
  HASH_SALT_BYTES_def HASH_DIGEST_BYTES_def QUOTED_MAX_def MAX_USER_NAME_def

type_synonym pbkdf2 = "string \<Rightarrow> string \<Rightarrow> int \<Rightarrow> string option"

record acc =
  ac_user :: string
  ac_pass :: string

definition password_hash :: "pbkdf2 \<Rightarrow> acc \<Rightarrow> string \<Rightarrow> int \<Rightarrow> string option" where
  "password_hash P c salt_hex iters =
     (if iters < 1 then None
      else case auth_hex_decode salt_hex HASH_SALT_BYTES of
             None \<Rightarrow> None
           | Some salt \<Rightarrow> if salt = [] then None else map_option auth_hex_encode (P (ac_pass c) salt iters))"

definition gen_new_salt :: "string option \<Rightarrow> string option" where
  "gen_new_salt rnd = map_option auth_hex_encode rnd"

section \<open>Logging in\<close>

definition copy_text :: "nat \<Rightarrow> string \<Rightarrow> string option" where
  "copy_text cap src = (if src = [] \<or> cap \<le> length src then None else Some src)"

text \<open>The status, or the salt, digest, iteration count and id of the row.\<close>

definition parse_login_db_result :: "db_status \<Rightarrow> string \<Rightarrow> int + string \<times> string \<times> int \<times> int" where
  "parse_login_db_result st body =
     (if st \<noteq> DB_OK then Inl 500
      else let rows = db_row_count body
           in if rows < 0 then Inl 500
              else if rows = 0 then Inl 404
              else case db_row_fields body 0 4 of
                     (nf, f) \<Rightarrow>
                       if nf \<noteq> 4 then Inl 500
                       else if length (f ! 1) \<noteq> SALT_HEX_LEN \<or> length (f ! 2) \<noteq> DIGEST_HEX_LEN then Inl 500
                       else case copy_text 32 (f ! 0) of
                              None \<Rightarrow> Inl 500
                            | Some idt \<Rightarrow>
                                (case copy_text 32 (f ! 3) of
                                   None \<Rightarrow> Inl 500
                                 | Some itt \<Rightarrow>
                                     let iters = wrap32 (fst (strtol itt))
                                     in if iters < 1 then Inl 500 else Inr (f ! 1, f ! 2, iters, fst (strtol idt))))"

definition login_sql :: "string \<Rightarrow> string" where
  "login_sql name =
     snprintf_s 256 (''select id, salt, digest, iters from '' @ TETRISAUTH_DB_TABLE @ '' where name = '' @
       db_quote QUOTED_MAX name @ '';'')"

definition check_password :: "pbkdf2 \<Rightarrow> acc \<Rightarrow> int + string \<times> string \<times> int \<times> int \<Rightarrow> int \<times> int option" where
  "check_password P c found =
     (case found of
        Inl status \<Rightarrow> (status, None)
      | Inr (salt, digest, iters, uid) \<Rightarrow>
          (case password_hash P c salt iters of
             None \<Rightarrow> (500, None)
           | Some want \<Rightarrow>
               if take DIGEST_HEX_LEN want \<noteq> take DIGEST_HEX_LEN digest then (401, None) else (200, Some uid)))"

definition account_login :: "env \<Rightarrow> pbkdf2 \<Rightarrow> string \<Rightarrow> acc \<Rightarrow> world \<Rightarrow> (int \<times> int option) \<times> world" where
  "account_login E P name c w =
     (case db_socket_open E w of
        (None, w) \<Rightarrow> ((500, None), w)
      | (Some conn, w) \<Rightarrow>
          (case db_socket_exec E (login_sql name) BODY_CAP (conn, w) of
             ((st, body), cw) \<Rightarrow>
               (case if st = DB_RETRY then db_socket_exec E (login_sql name) BODY_CAP cw else ((st, body), cw) of
                  ((st, body), cw) \<Rightarrow> (check_password P c (parse_login_db_result st body), db_socket_close cw))))"

section \<open>Registering\<close>

text \<open>The outcome of one transaction: the status, whether the name is taken, and the new id.\<close>

definition insert_sql :: "int \<Rightarrow> string \<Rightarrow> string \<Rightarrow> string \<Rightarrow> int \<Rightarrow> int \<Rightarrow> string" where
  "insert_sql i qname salt_hex digest_hex iters now =
     snprintf_s 512 (''insert into '' @ TETRISAUTH_DB_TABLE @ '' values ('' @ int_str i @ '', '' @ qname @ '', '' @
       [SQ] @ salt_hex @ [SQ] @ '', '' @ [SQ] @ digest_hex @ [SQ] @ '', '' @ int_str iters @ '', '' @ int_str now @ '');'')"

definition insert_user ::
    "env \<Rightarrow> int \<Rightarrow> string \<Rightarrow> string \<Rightarrow> string \<Rightarrow> int \<Rightarrow> int \<Rightarrow> conn \<times> world \<Rightarrow> (db_status \<times> bool \<times> int option) \<times> conn \<times> world" where
  "insert_user E i qname salt_hex digest_hex iters now cw =
     (case db_socket_exec E (insert_sql i qname salt_hex digest_hex iters now) 0 cw of ((st, _), cw) \<Rightarrow>
        if st \<noteq> DB_OK then ((st, False, None), cw)
        else case db_socket_exec E ''commit;'' 0 cw of ((st, _), cw) \<Rightarrow>
          if st \<noteq> DB_OK then ((st, False, None), cw) else ((DB_OK, False, Some i), cw))"

definition register_txn ::
    "env \<Rightarrow> string \<Rightarrow> string \<Rightarrow> string \<Rightarrow> int \<Rightarrow> int \<Rightarrow> conn \<times> world \<Rightarrow> (db_status \<times> bool \<times> int option) \<times> conn \<times> world" where
  "register_txn E qname salt_hex digest_hex iters now cw =
     (case db_socket_exec E ''set transaction read write;'' 0 cw of ((st, _), cw) \<Rightarrow>
        if st \<noteq> DB_OK then ((st, False, None), cw)
        else case db_socket_exec E (''select max(id) from '' @ TETRISAUTH_DB_TABLE @ '';'') BODY_CAP cw of ((st, body), cw) \<Rightarrow>
          if st \<noteq> DB_OK then ((st, False, None), cw)
          else let i = db_next_id body
               in if i < 0 then ((DB_ERROR, False, None), cw)
                  else case db_socket_exec E (snprintf_s 512 (''select id from '' @ TETRISAUTH_DB_TABLE @ '' where name = '' @
                           qname @ '';'')) BODY_CAP cw of ((st, body), cw) \<Rightarrow>
                    if st \<noteq> DB_OK then ((st, False, None), cw)
                    else let rows = db_row_count body
                         in if rows < 0 then ((DB_ERROR, False, None), cw)
                            else if 0 < rows
                            then case db_socket_exec E ''rollback;'' 0 cw of (_, cw) \<Rightarrow> ((DB_OK, True, None), cw)
                            else insert_user E i qname salt_hex digest_hex iters now cw)"

text \<open>The turn at the semaphore: \<open>tries n\<close> is the answer to the n-th \<^verbatim>\<open>sem_trywait\<close>.\<close>

definition poll_delay_us :: "nat \<Rightarrow> nat" where
  "poll_delay_us pid = REG_POLL_MIN_US + pid mod REG_POLL_SPAN_US"

function reg_wait :: "(nat \<Rightarrow> bool) \<Rightarrow> nat \<Rightarrow> nat \<Rightarrow> nat \<Rightarrow> bool \<times> nat" where
  "reg_wait tries pid n waited_us =
     (if waited_us < REG_WAIT_MS * 1000
      then if tries n then (True, Suc n) else reg_wait tries pid (Suc n) (waited_us + poll_delay_us pid)
      else (False, n))"
  by auto
termination
  by (relation "measure (\<lambda>(_, _, _, waited). REG_WAIT_MS * 1000 - waited)")
     (auto simp: poll_delay_us_def REG_POLL_MIN_US_def)

definition reg_acquire :: "bool \<Rightarrow> (nat \<Rightarrow> bool) \<Rightarrow> nat \<Rightarrow> bool" where
  "reg_acquire opened tries pid = (opened \<and> fst (reg_wait tries pid 0 0))"

text \<open>The attempts of one registration; \<open>clock\<close> tells the time at each.\<close>

fun register_attempts ::
    "env \<Rightarrow> string \<Rightarrow> string \<Rightarrow> string \<Rightarrow> int \<Rightarrow> (nat \<Rightarrow> int) \<Rightarrow> nat \<Rightarrow> conn \<times> world \<Rightarrow> (int \<times> int option) \<times> conn \<times> world" where
  "register_attempts E qname salt_hex digest_hex iters clock 0 cw = ((500, None), cw)"
| "register_attempts E qname salt_hex digest_hex iters clock (Suc n) cw =
     (case register_txn E qname salt_hex digest_hex iters (clock n) cw of ((st, taken, ident), cw) \<Rightarrow>
        if st = DB_RETRY then register_attempts E qname salt_hex digest_hex iters clock n cw
        else if st \<noteq> DB_OK then ((500, None), cw)
        else ((if taken then 409 else 200, ident), cw))"

definition account_register ::
    "env \<Rightarrow> pbkdf2 \<Rightarrow> int \<Rightarrow> string option \<Rightarrow> bool \<Rightarrow> (nat \<Rightarrow> int) \<Rightarrow> string \<Rightarrow> acc \<Rightarrow> world \<Rightarrow> (int \<times> int option) \<times> world" where
  "account_register E P iters rnd turn clock name c w =
     (if length (ac_pass c) < CRED_PASS_MIN \<or> CRED_PASS_MAX < length (ac_pass c) then ((400, None), w)
      else case gen_new_salt rnd of
             None \<Rightarrow> ((500, None), w)
           | Some salt_hex \<Rightarrow>
               (case password_hash P c salt_hex iters of
                  None \<Rightarrow> ((500, None), w)
                | Some digest_hex \<Rightarrow>
                    if \<not> turn then ((500, None), w)
                    else case db_socket_open E w of
                           (None, w) \<Rightarrow> ((500, None), w)
                         | (Some conn, w) \<Rightarrow>
                             (case register_attempts E (db_quote QUOTED_MAX name) salt_hex digest_hex iters clock TXN_ATTEMPTS (conn, w) of
                                (r, cw) \<Rightarrow> (r, db_socket_close cw))))"

section \<open>The account table\<close>

text \<open>A row: name, id, salt, digest, iteration count and time of creation.\<close>

type_synonym user_row = "string \<times> int \<times> string \<times> string \<times> int \<times> int"

fun enc_user :: "user_row \<Rightarrow> row" where
  "enc_user (n, i, s, d, it, cr) = [VInt i, VStr n, VStr s, VStr d, VInt it, VInt cr]"

definition hex_text :: "nat \<Rightarrow> string \<Rightarrow> bool" where
  "hex_text n s \<longleftrightarrow> length s = n \<and> list_all clean_char s"

fun user_ok :: "user_row \<Rightarrow> bool" where
  "user_ok (n, i, s, d, it, cr) \<longleftrightarrow>
     user_name_ok n \<and> count_ok i \<and> hex_text 32 s \<and> hex_text 64 d \<and> 1 \<le> it \<and> it < 2 ^ 31 \<and> count_ok cr"

definition users_ok :: "user_row multiset \<Rightarrow> bool" where
  "users_ok U \<longleftrightarrow> (\<forall>u \<in># U. user_ok u) \<and> (\<forall>n. size (sel n U) \<le> 1)"

definition users_rep :: "user_row multiset \<Rightarrow> tables \<Rightarrow> bool" where
  "users_rep U T \<longleftrightarrow> mset (T TETRISAUTH_DB_TABLE) = image_mset enc_user U"

text \<open>No transaction is open, \<open>U\<close> is durable, and with \<open>k\<close> no fault will strike.\<close>

definition u_idle :: "env \<Rightarrow> bool \<Rightarrow> user_row multiset \<Rightarrow> world \<Rightarrow> bool" where
  "u_idle E k U w \<longleftrightarrow>
     users_rep U (committed (w_srv w)) \<and> working (w_srv w) = None \<and> (k \<longrightarrow> (\<forall>t \<ge> w_tick w. calm_at E t))"

lemma name_text: "user_name_ok n \<Longrightarrow> list_all clean_char n \<and> length n \<le> 15 \<and> n \<noteq> []"
  using user_name_clean by (auto simp: user_name_ok_def name_lens)

lemma login_rows:
  assumes "users_rep U T" "users_ok U" "user_name_ok n"
  shows "mset (query_rows T (SSelect [''id'', ''salt'', ''digest'', ''iters''] TETRISAUTH_DB_TABLE [(''name'', VStr n)])) =
      image_mset (\<lambda>(i, s, d, it, cr). [VInt i, VStr s, VStr d, VInt it]) (sel n U)"
    "mset (query_rows T (SSelect [''id''] TETRISAUTH_DB_TABLE [(''name'', VStr n)])) =
      image_mset (\<lambda>(i, s, d, it, cr). [VInt i]) (sel n U)"
  using assms name_text [OF assms(3)]
  by (intro query_all [where enc = enc_user]; force simp: users_rep_def users_ok_def row_eval)+

lemma sel_user:
  assumes "users_ok U" "x \<in># sel n U"
  shows "user_ok (n, x)"
  using assms by (auto simp: sel_def users_ok_def)

lemma count_text: "count_ok i \<Longrightarrow> length (int_str i) \<le> 11" "1 \<le> i \<Longrightarrow> i < 2 ^ 31 \<Longrightarrow> length (int_str i) \<le> 11"
  by (rule int_str_length; simp)+

lemma login_row_ok:
  assumes "user_ok (n, i, s, d, it, cr)"
  shows "row_ok [VInt i, VStr s, VStr d, VInt it]" "row_ok [VInt i]"
  using assms count_text(1) [of i] count_text(2) [of it]
  by (auto simp: row_ok_simps print_row_def hex_text_def)

lemma user_stmts_clean:
  assumes "user_name_ok n"
  shows "stmt_clean (SSelect [''id'', ''salt'', ''digest'', ''iters''] TETRISAUTH_DB_TABLE [(''name'', VStr n)])"
    "stmt_clean (SSelect [''id''] TETRISAUTH_DB_TABLE [(''name'', VStr n)])" "stmt_clean (SMax ''id'' TETRISAUTH_DB_TABLE)"
    "user_ok (n, i, s, d, it, cr) \<Longrightarrow> stmt_clean (SInsert TETRISAUTH_DB_TABLE [VInt i, VStr n, VStr s, VStr d, VInt it, VInt cr])"
  using name_text [OF assms] by (auto simp: sql_eval hex_text_def)

lemma user_sql:
  assumes "user_name_ok n"
  shows "login_sql n = sql_text (SSelect [''id'', ''salt'', ''digest'', ''iters''] TETRISAUTH_DB_TABLE [(''name'', VStr n)])"
    "db_quote QUOTED_MAX n = SQ # n @ [SQ]"
    "snprintf_s 512 (''select id from '' @ TETRISAUTH_DB_TABLE @ '' where name = '' @ db_quote QUOTED_MAX n @ '';'') =
       sql_text (SSelect [''id''] TETRISAUTH_DB_TABLE [(''name'', VStr n)])"
    "user_ok (n, i, s, d, it, cr) \<Longrightarrow> insert_sql i (db_quote QUOTED_MAX n) s d it cr =
       sql_text (SInsert TETRISAUTH_DB_TABLE [VInt i, VStr n, VStr s, VStr d, VInt it, VInt cr])"
proof -
  note n = name_text [OF assms]
  have "SQ \<notin> set n" using n clean_string_facts [of n] by auto
  then show q: "db_quote QUOTED_MAX n = SQ # n @ [SQ]" using n by (simp add: db_quote_fits dbl_id account_lens)
  show "login_sql n = sql_text (SSelect [''id'', ''salt'', ''digest'', ''iters''] TETRISAUTH_DB_TABLE [(''name'', VStr n)])"
    using n by (simp add: login_sql_def q sql_eval)
  show "snprintf_s 512 (''select id from '' @ TETRISAUTH_DB_TABLE @ '' where name = '' @ db_quote QUOTED_MAX n @ '';'') =
       sql_text (SSelect [''id''] TETRISAUTH_DB_TABLE [(''name'', VStr n)])"
    using n by (simp add: q sql_eval)
  show "insert_sql i (db_quote QUOTED_MAX n) s d it cr =
       sql_text (SInsert TETRISAUTH_DB_TABLE [VInt i, VStr n, VStr s, VStr d, VInt it, VInt cr])"
    if u: "user_ok (n, i, s, d, it, cr)"
    using n u count_text(1) [of i] count_text(2) [of it] count_text(1) [of cr]
    by (auto simp: insert_sql_def q sql_eval hex_text_def)
qed

text \<open>The statements of an account read the table and nothing else of the world changes.\<close>

definition u_sees :: "env \<Rightarrow> bool \<Rightarrow> user_row multiset \<Rightarrow> user_row multiset \<Rightarrow> bool \<Rightarrow> conn \<times> world \<Rightarrow> bool" where
  "u_sees E k U V b cw \<longleftrightarrow>
     cw_ok E k cw \<and> users_rep U (committed (w_srv (snd cw))) \<and>
     (if b then \<exists>T. working (w_srv (snd cw)) = Some T \<and> users_rep V T else working (w_srv (snd cw)) = None \<and> V = U)"

text \<open>All that is left to do with the connection is to close it.\<close>

definition u_left :: "env \<Rightarrow> bool \<Rightarrow> user_row multiset \<Rightarrow> conn \<times> world \<Rightarrow> bool" where
  "u_left E k U cw \<longleftrightarrow> users_rep U (committed (w_srv (snd cw))) \<and> calm_from E k cw"

lemma u_sees_left: "u_sees E k U V b cw \<Longrightarrow> u_left E k U cw"
  by (auto simp: u_sees_def u_left_def cw_ok_def calm_from_def)

lemma u_left_close: "u_left E k U (c, w) \<Longrightarrow> u_idle E k U (db_socket_close (c, w))"
  by (simp add: u_left_def u_idle_def db_socket_close_def abort_def calm_from_def)

section \<open>One statement\<close>

context sdb_env
begin

lemma ask:
  assumes "cw_ok E k (c, w)" "stmt_clean st" "result_ok st (w_srv w)" "legal st (w_srv w)"
    and "db_socket_exec E (sql_text st) cap (c, w) = ((r, body), c', w')"
  shows "\<exists>s'. w' = w\<lparr>w_tick := Suc (w_tick w), w_srv := s'\<rparr> \<and>
    ((r = DB_OK \<and> cw_ok E k (c', w') \<and> s' = after E st (w_srv w) \<and>
       (is_query st \<longrightarrow> 4096 \<le> cap \<longrightarrow> length (query_rows (view (w_srv w)) st) \<le> 1 \<longrightarrow>
          reads_rows body (query_rows (view (w_srv w)) st))) \<or>
     (r \<noteq> DB_OK \<and> \<not> k \<and> s' \<in> {w_srv w, abort (w_srv w), after E st (w_srv w)} \<and>
       (r = DB_RETRY \<longrightarrow> cw_ok E k (c', w') \<and> s' = abort (w_srv w))))"
proof -
  have c: "conn_ok c" using assms(1) by (simp add: cw_ok_def)
  have calm: "r = DB_OK \<and> conn_calm c'" if k
    using exec_stmt_calm [of w c st cap r body c' w'] assms that by (simp add: cw_ok_def)
  from exec_stmt_cases [OF c assms(2,3,5)] obtain s' where
    w': "w' = w\<lparr>w_tick := Suc (w_tick w), w_srv := s'\<rparr>" and
    cs: "(r = DB_OK \<and> conn_ok c' \<and> legal st (w_srv w) \<and> s' = after E st (w_srv w) \<and>
        (is_query st \<longrightarrow> 15452 \<le> cap \<longrightarrow> reads_rows body (query_rows (view (w_srv w)) st)) \<and>
        (is_query st \<longrightarrow> 4096 \<le> cap \<longrightarrow> length (query_rows (view (w_srv w)) st) \<le> 1 \<longrightarrow>
           reads_rows body (query_rows (view (w_srv w)) st))) \<or>
      (r \<in> {DB_RETRY, DB_ERROR} \<and> conn_ok c' \<and> s' \<in> {w_srv w, abort (w_srv w)} \<and>
        (r = DB_RETRY \<longrightarrow> s' = abort (w_srv w))) \<or>
      (r \<in> {DB_IO, DB_TIMEOUT} \<and> c_failed c' = r \<and> s' \<in> {w_srv w, abort (w_srv w), after E st (w_srv w)})" by blast
  have nxt: "cw_ok E k (c', w')" if "conn_ok c'" "k \<Longrightarrow> conn_calm c'" using assms(1) that w' by (auto simp: cw_ok_def)
  show ?thesis
  proof (cases "r = DB_OK")
    case True
    with cs calm nxt w' show ?thesis by (intro exI [of _ s']) auto
  next
    case False
    then have "\<not> k" using calm by blast
    with False cs nxt w' show ?thesis by (intro exI [of _ s']) auto
  qed
qed

lemma u_sees_rep: "u_sees E k U V b (c, w) \<Longrightarrow> users_rep V (view (w_srv w))"
  by (auto simp: u_sees_def view_def split: if_splits)

lemma one_row_result:
  assumes "users_ok U" "mset (query_rows (view sv) st) = image_mset f (sel n U)" "\<And>x. x \<in># sel n U \<Longrightarrow> row_ok (f x)"
    "length (query_cols st) \<le> 6"
  shows "result_ok st sv \<and> length (query_rows (view sv) st) \<le> 1"
proof -
  note m = mset_rows_facts [OF assms(2)]
  have "size (sel n U) \<le> 1" using assms(1) by (simp add: users_ok_def)
  with m assms(3,4) show ?thesis by (auto simp: result_ok_def)
qed

lemma query_keeps: "is_query st \<Longrightarrow> after E st sv = sv \<and> legal st sv"
  by (cases st) (auto simp: is_query_def set_view_def view_def split: option.splits)

text \<open>A query: its rows are read, or the call fails and the open transaction is gone or still there.\<close>

lemma user_query:
  assumes "u_sees E k U V b (c, w)" "is_query st" "stmt_clean st" "result_ok st (w_srv w)"
    "length (query_rows (view (w_srv w)) st) \<le> 1"
    and "db_socket_exec E (sql_text st) BODY_CAP (c, w) = ((r, body), c', w')"
  shows "(r = DB_OK \<and> u_sees E k U V b (c', w') \<and> reads_rows body (query_rows (view (w_srv w)) st)) \<or>
    (r \<noteq> DB_OK \<and> \<not> k \<and> u_left E k U (c', w') \<and> (r = DB_RETRY \<longrightarrow> u_sees E k U U False (c', w')))"
proof -
  have ok: "cw_ok E k (c, w)" using assms(1) by (simp add: u_sees_def)
  note q = query_keeps [OF assms(2), of "w_srv w"]
  from ask [OF ok assms(3,4) conjunct2 [OF q] assms(6)] obtain s' where
    w': "w' = w\<lparr>w_tick := Suc (w_tick w), w_srv := s'\<rparr>" and
    cs: "(r = DB_OK \<and> cw_ok E k (c', w') \<and> s' = after E st (w_srv w) \<and>
       (is_query st \<longrightarrow> 4096 \<le> BODY_CAP \<longrightarrow> length (query_rows (view (w_srv w)) st) \<le> 1 \<longrightarrow>
          reads_rows body (query_rows (view (w_srv w)) st))) \<or>
     (r \<noteq> DB_OK \<and> \<not> k \<and> s' \<in> {w_srv w, abort (w_srv w), after E st (w_srv w)} \<and>
       (r = DB_RETRY \<longrightarrow> cw_ok E k (c', w') \<and> s' = abort (w_srv w)))" by blast
  from cs show ?thesis
  proof
    assume "r = DB_OK \<and> cw_ok E k (c', w') \<and> s' = after E st (w_srv w) \<and>
       (is_query st \<longrightarrow> 4096 \<le> BODY_CAP \<longrightarrow> length (query_rows (view (w_srv w)) st) \<le> 1 \<longrightarrow>
          reads_rows body (query_rows (view (w_srv w)) st))"
    with w' q assms(1,2,5) show ?thesis by (auto simp: u_sees_def BODY_CAP_def split: if_splits)
  next
    assume "r \<noteq> DB_OK \<and> \<not> k \<and> s' \<in> {w_srv w, abort (w_srv w), after E st (w_srv w)} \<and>
       (r = DB_RETRY \<longrightarrow> cw_ok E k (c', w') \<and> s' = abort (w_srv w))"
    with w' q assms(1) show ?thesis by (auto simp: u_sees_def u_left_def calm_from_def abort_def cw_ok_def split: if_splits)
  qed
qed

lemma login_query:
  assumes "u_sees E k U U False (c, w)" "users_ok U" "user_name_ok n"
    and "db_socket_exec E (login_sql n) BODY_CAP (c, w) = ((r, body), c', w')"
  shows "(r = DB_OK \<and> u_sees E k U U False (c', w') \<and>
      (\<exists>rows. mset rows = image_mset (\<lambda>(i, s, d, it, cr). [VInt i, VStr s, VStr d, VInt it]) (sel n U) \<and> reads_rows body rows)) \<or>
    (r \<noteq> DB_OK \<and> \<not> k \<and> u_left E k U (c', w') \<and> (r = DB_RETRY \<longrightarrow> u_sees E k U U False (c', w')))"
proof -
  let ?st = "SSelect [''id'', ''salt'', ''digest'', ''iters''] TETRISAUTH_DB_TABLE [(''name'', VStr n)]"
  note rows = login_rows(1) [OF u_sees_rep [OF assms(1)] assms(2,3)]
  have "row_ok ((\<lambda>(i, s, d, it, cr). [VInt i, VStr s, VStr d, VInt it]) x)" if "x \<in># sel n U" for x
    using sel_user [OF assms(2) that] login_row_ok(1) by (cases x) (auto simp del: user_ok.simps)
  from one_row_result [OF assms(2) rows this] have res: "result_ok ?st (w_srv w)" "length (query_rows (view (w_srv w)) ?st) \<le> 1" by simp_all
  have "is_query ?st" by (simp add: is_query_def)
  from user_query [OF assms(1) this user_stmts_clean(1) [OF assms(3)] res assms(4) [unfolded user_sql(1) [OF assms(3)]]] rows
  show ?thesis by blast
qed

lemma open_sees:
  assumes "u_idle E k U w" "db_socket_open E w = (oc, w1)"
  shows "(oc = None \<and> \<not> k \<and> u_idle E k U w1) \<or> (\<exists>c. oc = Some c \<and> u_sees E k U U False (c, w1))"
proof -
  note op = db_socket_open_cases [OF assms(2)]
  have calm: "\<exists>c. oc = Some c \<and> conn_calm c" if k
    using open_calm [of E w] assms that by (auto simp: u_idle_def)
  show ?thesis
  proof (cases oc)
    case None
    with calm op assms(1) show ?thesis by (auto simp: u_idle_def)
  next
    case (Some c)
    with calm op assms(1) show ?thesis by (auto simp: u_idle_def u_sees_def cw_ok_def)
  qed
qed

end

section \<open>Logging in\<close>

text \<open>What the rows of the account make of a password.\<close>

definition login_verdict :: "pbkdf2 \<Rightarrow> acc \<Rightarrow> user_row multiset \<Rightarrow> string \<Rightarrow> int \<times> int option \<Rightarrow> bool" where
  "login_verdict P c U n sr \<longleftrightarrow>
     (sel n U = {#} \<and> sr = (404, None)) \<or>
     (\<exists>i s d it cr. sel n U = {#(i, s, d, it, cr)#} \<and>
        sr = (case password_hash P c s it of None \<Rightarrow> (500, None)
              | Some h \<Rightarrow> if take 64 h = d then (200, Some i) else (401, None)))"

lemma login_reply:
  assumes "users_ok U" "mset rows = image_mset (\<lambda>(i, s, d, it, cr). [VInt i, VStr s, VStr d, VInt it]) (sel n U)" "reads_rows body rows"
  shows "login_verdict P c U n (check_password P c (parse_login_db_result DB_OK body))"
proof (cases "sel n U")
  case empty
  with assms(2,3) show ?thesis by (simp add: login_verdict_def parse_login_db_result_def check_password_def reads_rows_def)
next
  case (add x M)
  have "size (sel n U) \<le> 1" using assms(1) by (simp add: users_ok_def)
  with add have M: "sel n U = {#x#}" by simp
  obtain i s d it cr where x: "x = (i, s, d, it, cr)" by (metis prod.exhaust)
  have u: "user_ok (n, i, s, d, it, cr)" using sel_user [OF assms(1), of x n] M x by simp
  from assms(2) M x have rows: "rows = [[VInt i, VStr s, VStr d, VInt it]]" by (simp add: mset_single_iff)
  have "strtol (int_str i) = (i, [])" "strtol (int_str it) = (it, [])" using strtol_int_str [of i "[]"] strtol_int_str [of it "[]"] u by simp_all
  moreover have "length (int_str i) < 32" "length (int_str it) < 32" "wrap32 it = it"
    using u count_text(1) [of i] count_text(2) [of it] by auto
  ultimately have "parse_login_db_result DB_OK body = Inr (s, d, it, i)"
    using assms(3) u unfolding rows by (simp add: parse_login_db_result_def reads_rows_def copy_text_def hex_text_def account_lens numeral_eq_Suc)
  with M x u show ?thesis
    by (auto simp: login_verdict_def check_password_def hex_text_def account_lens split: option.splits)
qed

context sdb_env
begin

lemma login_outcome:
  assumes "users_ok U" "user_name_ok n" "u_idle E k U w" "account_login E P n c w = (sr, w')"
  shows "u_idle E k U w' \<and> (login_verdict P c U n sr \<or> (\<not> k \<and> sr = (500, None)))"
proof -
  obtain oc w1 where op: "db_socket_open E w = (oc, w1)" by fastforce
  from open_sees [OF assms(3) op] show ?thesis
  proof (elim disjE exE conjE)
    assume "oc = None" "\<not> k" "u_idle E k U w1"
    with assms(4) op show ?thesis by (simp add: account_login_def)
  next
    fix conn
    assume oc: "oc = Some conn" and sees: "u_sees E k U U False (conn, w1)"
    obtain st body c2 w2 where e1: "db_socket_exec E (login_sql n) BODY_CAP (conn, w1) = ((st, body), c2, w2)" by (metis prod.exhaust)
    have last: "u_idle E k U (db_socket_close (c3, w3)) \<and>
        (login_verdict P c U n (check_password P c (parse_login_db_result st' body')) \<or> (\<not> k \<and> st' \<noteq> DB_OK))"
      if "u_sees E k U U False (c1, w1)" "db_socket_exec E (login_sql n) BODY_CAP (c1, w1) = ((st', body'), c3, w3)" for c1 w1 st' body' c3 w3
      using login_query [OF that(1) assms(1,2) that(2)] login_reply [OF assms(1)] u_left_close u_sees_left by blast
    have bad: "check_password P c (parse_login_db_result st' body') = (500, None)" if "st' \<noteq> DB_OK" for st' body'
      using that by (simp add: parse_login_db_result_def check_password_def)
    show ?thesis
    proof (cases "st = DB_RETRY")
      case False
      then have "sr = check_password P c (parse_login_db_result st body)" "w' = db_socket_close (c2, w2)"
        using assms(4) op oc e1 by (simp_all add: account_login_def)
      with last [OF sees e1] bad [of st body] show ?thesis by auto
    next
      case True
      obtain st' body' c3 w3 where e2: "db_socket_exec E (login_sql n) BODY_CAP (c2, w2) = ((st', body'), c3, w3)" by (metis prod.exhaust)
      have "u_sees E k U U False (c2, w2)" using login_query [OF sees assms(1,2) e1] True by auto
      moreover have "sr = check_password P c (parse_login_db_result st' body')" "w' = db_socket_close (c3, w3)"
        using assms(4) op oc e1 e2 True by (simp_all add: account_login_def)
      ultimately show ?thesis using last [OF _ e2] bad [of st' body'] by auto
    qed
  qed
qed

end

section \<open>Registering\<close>

definition next_user_id :: "user_row multiset \<Rightarrow> int" where
  "next_user_id U = (if U = {#} then 1 else Max (set_mset (image_mset (\<lambda>(n, i, _). i) U)) + 1)"

lemma user_ids:
  assumes "users_ok U" "U \<noteq> {#}"
  shows "count_ok (next_user_id U - 1)"
proof -
  let ?Q = "set_mset (image_mset (\<lambda>(n, i, _). i) U)"
  have "Max ?Q \<in> ?Q" by (rule Max_in) (use assms(2) in auto)
  then obtain u where "u \<in># U" "Max ?Q = (case u of (n, i, _) \<Rightarrow> i)" by auto
  then show ?thesis using assms by (cases u) (auto simp: users_ok_def next_user_id_def)
qed

lemma max_id_rows:
  assumes "users_rep U T"
  shows "query_rows T (SMax ''id'' TETRISAUTH_DB_TABLE) = (if U = {#} then [] else [[VInt (next_user_id U - 1)]])"
proof -
  let ?f = "\<lambda>r. int_of (the (get_col TETRISAUTH_DB_TABLE r ''id''))" and ?q = "\<lambda>(n :: string, i :: int, _ :: string \<times> string \<times> int \<times> int). i"
  have "?f (enc_user x) = ?q x" for x by (cases x) (simp add: row_eval)
  moreover have "mset (map ?f (T TETRISAUTH_DB_TABLE)) = image_mset ?f (image_mset enc_user U)"
    using assms by (simp add: users_rep_def)
  ultimately have m: "mset (map ?f (T TETRISAUTH_DB_TABLE)) = image_mset ?q U" by (simp add: multiset.map_comp comp_def)
  show ?thesis
  proof (cases "map ?f (T TETRISAUTH_DB_TABLE)")
    case Nil
    with m show ?thesis by simp
  next
    case (Cons v vs)
    have "set (v # vs) = set_mset (image_mset ?q U)" using arg_cong [OF m, of set_mset] unfolding Cons by (simp only: set_mset_mset)
    moreover from this have "U \<noteq> {#}" by auto
    ultimately show ?thesis unfolding query_rows.simps Cons by (simp add: next_user_id_def foldl_max)
  qed
qed

lemma next_id_reply:
  assumes "users_ok U" "reads_rows body (if U = {#} then [] else [[VInt (next_user_id U - 1)]])"
  shows "db_next_id body = next_user_id U"
proof (cases "U = {#}")
  case True
  with assms(2) show ?thesis by (simp add: reads_rows_def db_next_id_def next_user_id_def)
next
  case False
  note b = user_ids [OF assms(1) False]
  have "strtol (int_str (next_user_id U - 1)) = (next_user_id U - 1, [])" using strtol_int_str [of "next_user_id U - 1" "[]"] b by simp
  moreover have "length (int_str (next_user_id U - 1)) < 32" using count_text(1) [OF b] by simp
  ultimately show ?thesis using False assms(2) b by (simp add: reads_rows_def db_next_id_def)
qed

text \<open>What one transaction may come to.\<close>

definition txn_post ::
    "env \<Rightarrow> bool \<Rightarrow> user_row multiset \<Rightarrow> user_row \<Rightarrow> db_status \<times> bool \<times> int option \<Rightarrow> conn \<times> world \<Rightarrow> bool" where
  "txn_post E k U new sti cw \<longleftrightarrow>
     (sti = (DB_OK, True, None) \<and> sel (fst new) U \<noteq> {#} \<and> u_left E k U cw) \<or>
     (sti = (DB_OK, False, Some (fst (snd new))) \<and> sel (fst new) U = {#} \<and> u_left E k (add_mset new U) cw) \<or>
     (fst sti \<noteq> DB_OK \<and> snd sti = (False, None) \<and> \<not> k \<and>
      (u_left E k U cw \<or> sel (fst new) U = {#} \<and> fst sti \<noteq> DB_RETRY \<and> u_left E k (add_mset new U) cw) \<and>
      (fst sti = DB_RETRY \<longrightarrow> u_sees E k U U False cw))"

context sdb_env
begin

lemma begin_txn:
  assumes "u_sees E k U U False (c, w)" "db_socket_exec E ''set transaction read write;'' 0 (c, w) = ((r, body), c', w')"
  shows "(r = DB_OK \<and> u_sees E k U U True (c', w')) \<or>
    (r \<noteq> DB_OK \<and> \<not> k \<and> u_left E k U (c', w') \<and> (r = DB_RETRY \<longrightarrow> u_sees E k U U False (c', w')))"
proof -
  have ok: "cw_ok E k (c, w)" "stmt_clean SBegin" "result_ok SBegin (w_srv w)" "legal SBegin (w_srv w)"
    using assms(1) by (simp_all add: u_sees_def result_ok_def)
  have e: "db_socket_exec E (sql_text SBegin) 0 (c, w) = ((r, body), c', w')" using assms(2) by simp
  from ask [OF ok e] obtain s' where
    "w' = w\<lparr>w_tick := Suc (w_tick w), w_srv := s'\<rparr>"
    "(r = DB_OK \<and> cw_ok E k (c', w') \<and> s' = after E SBegin (w_srv w)) \<or>
     (r \<noteq> DB_OK \<and> \<not> k \<and> s' \<in> {w_srv w, abort (w_srv w), after E SBegin (w_srv w)} \<and>
       (r = DB_RETRY \<longrightarrow> cw_ok E k (c', w') \<and> s' = abort (w_srv w)))" by blast
  with assms(1) show ?thesis by (elim disjE) (auto simp: u_sees_def u_left_def calm_from_def abort_def cw_ok_def)
qed

lemma rollback_txn:
  assumes "u_sees E k U V True (c, w)" "db_socket_exec E ''rollback;'' 0 (c, w) = ((r, body), c', w')"
  shows "u_left E k U (c', w')"
proof -
  have ok: "cw_ok E k (c, w)" "stmt_clean SRollback" "result_ok SRollback (w_srv w)" "legal SRollback (w_srv w)"
    using assms(1) by (auto simp: u_sees_def result_ok_def)
  have e: "db_socket_exec E (sql_text SRollback) 0 (c, w) = ((r, body), c', w')" using assms(2) by simp
  from ask [OF ok e] obtain s' where
    w': "w' = w\<lparr>w_tick := Suc (w_tick w), w_srv := s'\<rparr>" and "s' \<in> {w_srv w, abort (w_srv w), after E SRollback (w_srv w)}" by blast
  with assms(1) show ?thesis by (auto simp: u_sees_def u_left_def calm_from_def abort_def cw_ok_def)
qed

lemma insert_step:
  assumes "u_sees E k U U True (c, w)" "user_ok (n, i, s, d, it, cr)"
    and "insert_user E i (db_quote QUOTED_MAX n) s d it cr (c, w) = (sti, cw')" "sel n U = {#}"
  shows "txn_post E k U (n, i, s, d, it, cr) sti cw'"
proof -
  let ?vs = "[VInt i, VStr n, VStr s, VStr d, VInt it, VInt cr]" and ?new = "(n, i, s, d, it, cr)"
  let ?st = "SInsert TETRISAUTH_DB_TABLE ?vs"
  have nm: "user_name_ok n" using assms(2) by simp
  obtain T where T: "cw_ok E k (c, w)" "users_rep U (committed (w_srv w))" "working (w_srv w) = Some T" "users_rep U T"
    using assms(1) by (auto simp: u_sees_def)
  obtain r1 b1 c1 w1 where e1: "db_socket_exec E (sql_text ?st) 0 (c, w) = ((r1, b1), c1, w1)" by (metis prod.exhaust)
  have "legal ?st (w_srv w)" "result_ok ?st (w_srv w)" by (simp_all add: result_ok_def)
  from ask [OF T(1) user_stmts_clean(4) [OF nm assms(2)] this(2,1) e1] obtain s1 where
    w1: "w1 = w\<lparr>w_tick := Suc (w_tick w), w_srv := s1\<rparr>"
      "(r1 = DB_OK \<and> cw_ok E k (c1, w1) \<and> s1 = after E ?st (w_srv w)) \<or>
       (r1 \<noteq> DB_OK \<and> \<not> k \<and> s1 \<in> {w_srv w, abort (w_srv w), after E ?st (w_srv w)} \<and>
        (r1 = DB_RETRY \<longrightarrow> cw_ok E k (c1, w1) \<and> s1 = abort (w_srv w)))" by blast
  have fv: "map field_val ?vs = ?vs" using assms(2) name_text [OF nm] by (simp add: hex_text_def STRING_LEN_def)
  let ?T = "T(TETRISAUTH_DB_TABLE := place E ?vs (T TETRISAUTH_DB_TABLE))"
  have aft: "after E ?st (w_srv w) = (w_srv w)\<lparr>working := Some ?T\<rparr>"
    using T(3) by (simp add: set_view_def view_def fv del: field_val.simps list.map)
  have rp: "users_rep (add_mset ?new U) ?T" using T(4) by (simp add: users_rep_def place_adds)
  have com: "committed s1 = committed (w_srv w)" using w1(2) aft by (auto simp: abort_def)
  obtain r2 b2 c2 w2 where e2: "db_socket_exec E ''commit;'' 0 (c1, w1) = ((r2, b2), c2, w2)" by (metis prod.exhaust)
  note sqls = user_sql(4) [OF nm assms(2)]
  show ?thesis
  proof (cases "r1 = DB_OK")
    case False
    then have "sti = (r1, False, None)" "cw' = (c1, w1)" using assms(3) e1 by (simp_all add: insert_user_def sqls)
    with False w1 com T show ?thesis
      by (auto simp: txn_post_def u_left_def u_sees_def calm_from_def abort_def cw_ok_def)
  next
    case True
    then have s1: "cw_ok E k (c1, w1)" "w_srv w1 = (w_srv w)\<lparr>working := Some ?T\<rparr>" using w1 aft by auto
    have ok: "stmt_clean SCommit" "result_ok SCommit (w_srv w1)" "legal SCommit (w_srv w1)"
      using s1(2) by (simp_all add: result_ok_def)
    have e2': "db_socket_exec E (sql_text SCommit) 0 (c1, w1) = ((r2, b2), c2, w2)" using e2 by simp
    have fin: "after E SCommit (w_srv w1) = (w_srv w)\<lparr>committed := ?T, working := None\<rparr>" using s1(2) by (simp add: view_def)
    from ask [OF s1(1) ok e2'] obtain s2 where
      w2: "w2 = w1\<lparr>w_tick := Suc (w_tick w1), w_srv := s2\<rparr>"
        "(r2 = DB_OK \<and> cw_ok E k (c2, w2) \<and> s2 = after E SCommit (w_srv w1)) \<or>
         (r2 \<noteq> DB_OK \<and> \<not> k \<and> s2 \<in> {w_srv w1, abort (w_srv w1), after E SCommit (w_srv w1)} \<and>
          (r2 = DB_RETRY \<longrightarrow> cw_ok E k (c2, w2) \<and> s2 = abort (w_srv w1)))" by blast
    show ?thesis
    proof (cases "r2 = DB_OK")
      case True
      then have r: "sti = (DB_OK, False, Some i)" "cw' = (c2, w2)" using assms(3) e1 e2 \<open>r1 = DB_OK\<close> by (simp_all add: insert_user_def sqls)
      from True w2 fin have "committed (w_srv w2) = ?T" "cw_ok E k (c2, w2)" by auto
      with r rp assms(4) show ?thesis by (auto simp: txn_post_def u_left_def calm_from_def cw_ok_def)
    next
      case False
      then have r: "sti = (r2, False, None)" "cw' = (c2, w2)" using assms(3) e1 e2 \<open>r1 = DB_OK\<close> by (simp_all add: insert_user_def sqls)
      from False w2 have nk: "\<not> k" and s2: "s2 \<in> {w_srv w1, abort (w_srv w1), after E SCommit (w_srv w1)}"
        and rt: "r2 = DB_RETRY \<longrightarrow> cw_ok E k (c2, w2) \<and> s2 = abort (w_srv w1)" by blast+
      have left: "u_left E k U (c2, w2) \<or> (s2 = after E SCommit (w_srv w1) \<and> u_left E k (add_mset ?new U) (c2, w2))"
        using s2 w2(1) s1(2) fin rp T(2) nk by (auto simp: u_left_def calm_from_def abort_def)
      have "r2 = DB_RETRY \<longrightarrow> u_sees E k U U False (c2, w2)" using rt w2(1) s1(2) T(2) by (auto simp: u_sees_def abort_def)
      with r False nk left assms(4) show ?thesis
        using u_sees_left by (auto simp: txn_post_def)
    qed
  qed
qed

lemma txn_outcome:
  assumes "u_sees E k U U False (c, w)" "users_ok U" "user_ok (n, next_user_id U, s, d, it, cr)"
    and "register_txn E (db_quote QUOTED_MAX n) s d it cr (c, w) = (sti, cw')"
  shows "txn_post E k U (n, next_user_id U, s, d, it, cr) sti cw'"
proof -
  let ?new = "(n, next_user_id U, s, d, it, cr)"
  have nm: "user_name_ok n" using assms(3) by simp
  have failed: "txn_post E k U ?new (r, False, None) cw"
    if "r \<noteq> DB_OK \<and> \<not> k \<and> u_left E k U cw \<and> (r = DB_RETRY \<longrightarrow> u_sees E k U U False cw)" for r cw
    using that by (auto simp: txn_post_def)
  obtain r1 b1 c1 w1 where e1: "db_socket_exec E ''set transaction read write;'' 0 (c, w) = ((r1, b1), c1, w1)" by (metis prod.exhaust)
  let ?mx = "SMax ''id'' TETRISAUTH_DB_TABLE" and ?se = "SSelect [''id''] TETRISAUTH_DB_TABLE [(''name'', VStr n)]"
  obtain r2 b2 c2 w2 where e2: "db_socket_exec E (sql_text ?mx) BODY_CAP (c1, w1) = ((r2, b2), c2, w2)" by (metis prod.exhaust)
  obtain r3 b3 c3 w3 where e3: "db_socket_exec E (sql_text ?se) BODY_CAP (c2, w2) = ((r3, b3), c3, w3)" by (metis prod.exhaust)
  have mx: "''select max(id) from '' @ TETRISAUTH_DB_TABLE @ '';'' = sql_text ?mx" by simp
  note run = assms(4) [unfolded register_txn_def mx user_sql(3) [OF nm] e1 prod.case]
  show ?thesis
  proof (cases "r1 = DB_OK")
    case False
    with begin_txn [OF assms(1) e1] run failed show ?thesis by auto
  next
    case r1: True
    with begin_txn [OF assms(1) e1] have s1: "u_sees E k U U True (c1, w1)" by blast
    note rows1 = max_id_rows [OF u_sees_rep [OF s1]]
    have "count_ok (next_user_id U - 1)" if "U \<noteq> {#}" by (rule user_ids [OF assms(2) that])
    then have res1: "result_ok ?mx (w_srv w1)" "length (query_rows (view (w_srv w1)) ?mx) \<le> 1"
      using count_text(1) [of "next_user_id U - 1"] unfolding result_ok_def rows1 by (auto simp: row_ok_simps)
    have "is_query ?mx" by (simp add: is_query_def)
    note q1 = user_query [OF s1 this user_stmts_clean(3) [OF nm] res1 e2, unfolded rows1]
    show ?thesis
    proof (cases "r2 = DB_OK")
      case False
      with q1 run r1 e2 failed show ?thesis by auto
    next
      case r2: True
      with q1 have s2: "u_sees E k U U True (c2, w2)" and nid: "db_next_id b2 = next_user_id U" using next_id_reply [OF assms(2)] by auto
      note rows2 = login_rows(2) [OF u_sees_rep [OF s2] assms(2) nm]
      have "row_ok ((\<lambda>(i, s, d, it, cr). [VInt i]) x)" if "x \<in># sel n U" for x
        using sel_user [OF assms(2) that] login_row_ok(2) by (cases x) (auto simp del: user_ok.simps)
      from one_row_result [OF assms(2) rows2 this] have res2: "result_ok ?se (w_srv w2)" "length (query_rows (view (w_srv w2)) ?se) \<le> 1" by simp_all
      have "is_query ?se" by (simp add: is_query_def)
      note q2 = user_query [OF s2 this user_stmts_clean(2) [OF nm] res2 e3]
      have pos: "\<not> next_user_id U < 0" using assms(3) by simp
      show ?thesis
      proof (cases "r3 = DB_OK")
        case False
        with q2 run r1 r2 e2 e3 nid pos failed show ?thesis by auto
      next
        case r3: True
        with q2 have s3: "u_sees E k U U True (c3, w3)" and rr: "reads_rows b3 (query_rows (view (w_srv w2)) ?se)" by auto
        have count: "db_row_count b3 = int (size (sel n U))" using rr mset_rows_facts(1) [OF rows2] by (simp add: reads_rows_def)
        obtain r4 b4 c4 w4 where e4: "db_socket_exec E ''rollback;'' 0 (c3, w3) = ((r4, b4), c4, w4)" by (metis prod.exhaust)
        show ?thesis
        proof (cases "sel n U = {#}")
          case False
          then have "0 < size (sel n U)" by (simp add: nonempty_has_size)
          with count run r1 r2 r3 e2 e3 e4 nid pos have "sti = (DB_OK, True, None)" "cw' = (c4, w4)" by simp_all
          with False rollback_txn [OF s3 e4] show ?thesis by (simp add: txn_post_def)
        next
          case True
          with count run r1 r2 r3 e2 e3 nid pos
          have "insert_user E (next_user_id U) (db_quote QUOTED_MAX n) s d it cr (c3, w3) = (sti, cw')" by simp
          then show ?thesis by (rule insert_step [OF s3 assms(3) _ True])
        qed
      qed
    qed
  qed
qed

text \<open>What a registration may come to.\<close>

lemma attempts_outcome:
  assumes "u_sees E k U U False (c, w)" "users_ok U" "\<And>t. user_ok (n, next_user_id U, s, d, it, clock t)" "0 < m"
    and "register_attempts E (db_quote QUOTED_MAX n) s d it clock m (c, w) = (r, cw')"
  shows "(r = (409, None) \<and> sel n U \<noteq> {#} \<and> u_left E k U cw') \<or>
    (\<exists>t. r = (200, Some (next_user_id U)) \<and> sel n U = {#} \<and> u_left E k (add_mset (n, next_user_id U, s, d, it, clock t) U) cw') \<or>
    (r = (500, None) \<and> \<not> k \<and>
     (u_left E k U cw' \<or> (\<exists>t. sel n U = {#} \<and> u_left E k (add_mset (n, next_user_id U, s, d, it, clock t) U) cw')))"
  using assms(1,4,5)
proof (induction m arbitrary: c w)
  case (Suc m)
  let ?q = "db_quote QUOTED_MAX n"
  obtain st taken ident cw1 where t: "register_txn E ?q s d it (clock m) (c, w) = ((st, taken, ident), cw1)" by (metis prod.exhaust)
  note post = txn_outcome [OF Suc.prems(1) assms(2,3) t, unfolded txn_post_def fst_conv snd_conv]
  show ?case
  proof (cases "st = DB_RETRY")
    case False
    with Suc.prems(3) t post show ?thesis by (auto split: if_splits)
  next
    case True
    with post have s1: "u_sees E k U U False (fst cw1, snd cw1)" and nk: "\<not> k" by auto
    from True Suc.prems(3) t have run: "register_attempts E ?q s d it clock m (fst cw1, snd cw1) = (r, cw')" by simp
    show ?thesis
    proof (cases m)
      case 0
      with run nk u_sees_left [OF s1] show ?thesis by auto
    next
      case (Suc j)
      with Suc.IH [OF s1 _ run] show ?thesis by simp
    qed
  qed
qed simp

end

lemma hex_clean: "list_all clean_char (auth_hex_encode bs)"
proof -
  have "\<forall>n \<in> {..<16}. clean_char (HEX ! n)" by code_simp
  moreover have "of_char b div 16 < (16 :: nat)" for b :: char
  proof -
    have "(of_char b :: nat) < 256" by simp
    then show ?thesis by (simp add: less_mult_imp_div_less)
  qed
  ultimately have "clean_char (HEX ! (of_char b div 16)) \<and> clean_char (HEX ! (of_char b mod 16))" for b :: char by simp
  then show ?thesis by (induction bs) (simp_all add: auth_hex_encode_def)
qed

lemma salted:
  assumes "length salt = 16" "1 \<le> iters" "P (ac_pass c) salt iters = Some digest" "length digest = 32"
  shows "password_hash P c (auth_hex_encode salt) iters = Some (auth_hex_encode digest)"
    "hex_text 32 (auth_hex_encode salt)" "hex_text 64 (auth_hex_encode digest)"
proof -
  have "salt \<noteq> []" using assms(1) by auto
  with assms show "password_hash P c (auth_hex_encode salt) iters = Some (auth_hex_encode digest)"
    by (simp add: password_hash_def hex_roundtrip HASH_SALT_BYTES_def)
  show "hex_text 32 (auth_hex_encode salt)" "hex_text 64 (auth_hex_encode digest)" using assms by (simp_all add: hex_text_def hex_clean)
qed

lemma users_ok_add:
  assumes "users_ok U" "user_ok new" "sel (fst new) U = {#}"
  shows "users_ok (add_mset new U)"
proof -
  have "size (sel n (add_mset new U)) \<le> 1" for n
    using assms by (cases new; cases "n = fst new") (auto simp: users_ok_def sel_def)
  with assms(1,2) show ?thesis by (simp add: users_ok_def)
qed

definition register_row :: "user_row multiset \<Rightarrow> string \<Rightarrow> string \<Rightarrow> string \<Rightarrow> int \<Rightarrow> int \<Rightarrow> user_row" where
  "register_row U name salt digest iters now = (name, next_user_id U, auth_hex_encode salt, auth_hex_encode digest, iters, now)"

lemma register_outcome:
  assumes "sdb_env E" "users_ok U" "user_name_ok name" "u_idle E k U w"
    and "8 \<le> length (ac_pass c)" "length (ac_pass c) \<le> 128" "length salt = 16" "P (ac_pass c) salt iters = Some digest" "length digest = 32"
    and "1 \<le> iters" "iters < 2 ^ 31" "next_user_id U < 2 ^ 31" "\<And>t. 0 \<le> clock t \<and> clock t < 2 ^ 31"
    and "account_register E P iters (Some salt) True clock name c w = ((status, ident), w')"
  shows "\<exists>U' t. users_ok U' \<and> u_idle E k U' w' \<and>
    (status = 409 \<and> ident = None \<and> sel name U \<noteq> {#} \<and> U' = U \<or>
     status = 200 \<and> ident = Some (next_user_id U) \<and> sel name U = {#} \<and> U' = add_mset (register_row U name salt digest iters (clock t)) U \<or>
     status = 500 \<and> ident = None \<and> \<not> k \<and>
       (U' = U \<or> sel name U = {#} \<and> U' = add_mset (register_row U name salt digest iters (clock t)) U))"
proof -
  note h = salted [where P = P and c = c, OF assms(7,10,8,9)]
  have id: "0 \<le> next_user_id U"
  proof (cases "U = {#}")
    case False
    from user_ids [OF assms(2) this] show ?thesis by simp
  qed (simp add: next_user_id_def)
  have new: "user_ok (name, next_user_id U, auth_hex_encode salt, auth_hex_encode digest, iters, clock t)" for t
    using assms(3,10,11,12) assms(13) [of t] h(2,3) id by simp
  have add: "users_ok (add_mset (register_row U name salt digest iters (clock t)) U)" if "sel name U = {#}" for t
    using users_ok_add [OF assms(2) new [of t]] that by (simp add: register_row_def)
  obtain oc w1 where op: "db_socket_open E w = (oc, w1)" by fastforce
  from sdb_env.open_sees [OF assms(1,4) op] show ?thesis
  proof (elim disjE exE conjE)
    assume "oc = None" "\<not> k" "u_idle E k U w1"
    with assms(2,5,6,14) op h(1) show ?thesis by (auto simp: account_register_def gen_new_salt_def account_lens intro!: exI [of _ U])
  next
    fix conn
    assume oc: "oc = Some conn" and sees: "u_sees E k U U False (conn, w1)"
    obtain r c2 w2 where at: "register_attempts E (db_quote QUOTED_MAX name) (auth_hex_encode salt) (auth_hex_encode digest) iters clock 3 (conn, w1) = (r, c2, w2)"
      by (metis prod.exhaust)
    have out: "r = (status, ident)" "w' = db_socket_close (c2, w2)"
      using assms(5,6,14) op oc h(1) at by (auto simp: account_register_def gen_new_salt_def account_lens)
    note close = u_left_close [of E k _ c2 w2, folded out(2)]
    have m: "0 < (3 :: nat)" by simp
    from sdb_env.attempts_outcome [OF assms(1) sees assms(2) new m at, folded register_row_def] out(1) show ?thesis
      using close add assms(2) by (elim disjE exE conjE) blast+
  qed
qed

text \<open>
  C31: \<^verbatim>\<open>account_register\<close> gives out a name once: with a password of allowed length it answers 409
  and changes nothing when the name is taken, and otherwise adds one row with the next id, the salt
  and the digest of the password. Under faults it may answer 500, with the row there or not, but
  never half of it, and the table keeps one account per name.
\<close>

theorem register_decides:
  assumes "sdb_env E" "users_ok U" "user_name_ok name" "u_idle E k U w"
    and "8 \<le> length (ac_pass c)" "length (ac_pass c) \<le> 128" "length salt = 16" "P (ac_pass c) salt iters = Some digest" "length digest = 32"
    and "1 \<le> iters" "iters < 2 ^ 31" "next_user_id U < 2 ^ 31" "\<And>t. 0 \<le> clock t \<and> clock t < 2 ^ 31"
    and "account_register E P iters (Some salt) True clock name c w = ((status, ident), w')"
  shows "\<exists>U' t. users_ok U' \<and> u_idle E k U' w' \<and>
    (status = 409 \<and> ident = None \<and> sel name U \<noteq> {#} \<and> U' = U \<or>
     status = 200 \<and> ident = Some (next_user_id U) \<and> sel name U = {#} \<and> U' = add_mset (register_row U name salt digest iters (clock t)) U \<or>
     status = 500 \<and> ident = None \<and> \<not> k \<and>
       (U' = U \<or> sel name U = {#} \<and> U' = add_mset (register_row U name salt digest iters (clock t)) U))"
  by (rule register_outcome [where P = P and c = c, OF assms])

text \<open>A reference PBKDF2 for witnesses: it depends on all its arguments.\<close>

definition demo_pbkdf2 :: pbkdf2 where
  "demo_pbkdf2 pass salt iters = Some (take 32 (pass @ salt @ replicate 32 CHR ''0''))"

definition empty_world :: world where
  "empty_world = \<lparr>w_srv = \<lparr>committed = (\<lambda>_. []), working = None\<rparr>, w_tick = 0, w_log = [], w_txn_conn = None\<rparr>"

definition demo_account :: acc where
  "demo_account = \<lparr>ac_user = ''alice'', ac_pass = ''sesame-1''\<rparr>"

lemma empty_idle: "u_idle (ref_env (\<lambda>_. Runs)) k {#} empty_world"
  using ref_env_calm by (simp add: u_idle_def empty_world_def users_rep_def)

lemma demo_name: "user_name_ok ''alice''"
  by (simp add: user_name_ok_def name_lens user_name_char_ok_def between_def)

lemma no_users: "users_ok {#}" "next_user_id {#} = 1" "sel n {#} = ({#} :: (int \<times> string \<times> string \<times> int \<times> int) multiset)"
  by (simp_all add: users_ok_def next_user_id_def sel_def)

theorem register_decides_witness:
  "\<exists>w'. account_register (ref_env (\<lambda>_. Runs)) demo_pbkdf2 1000 (Some (replicate 16 CHR ''s'')) True (\<lambda>_. 5) ''alice'' demo_account empty_world =
     ((200, Some 1), w')"
proof -
  let ?salt = "replicate 16 CHR ''s''" and ?E = "ref_env (\<lambda>_. Runs)"
  let ?d = "take 32 (ac_pass demo_account @ ?salt @ replicate 32 CHR ''0'')"
  obtain status ident w' where run: "account_register ?E demo_pbkdf2 1000 (Some ?salt) True (\<lambda>_. 5) ''alice'' demo_account empty_world =
     ((status, ident), w')" by (metis prod.exhaust)
  have p: "8 \<le> length (ac_pass demo_account)" "length (ac_pass demo_account) \<le> 128" "length ?salt = 16"
    "demo_pbkdf2 (ac_pass demo_account) ?salt 1000 = Some ?d" "length ?d = 32" "1 \<le> (1000 :: int)" "(1000 :: int) < 2 ^ 31"
    "next_user_id {#} < 2 ^ 31" "\<And>t :: nat. 0 \<le> (5 :: int) \<and> (5 :: int) < 2 ^ 31"
    by (simp_all add: demo_account_def demo_pbkdf2_def no_users)
  from register_decides [where P = demo_pbkdf2 and c = demo_account, OF ref.sdb_env_axioms no_users(1) demo_name empty_idle [of True] p run]
  have "status = 200 \<and> ident = Some 1" by (auto simp: no_users)
  with run show ?thesis by auto
qed

text \<open>
  \<^verbatim>\<open>account_login\<close> changes nothing and, without a fault, lets in exactly the password whose
  digest under the stored salt and iteration count is the stored one: 404 for a name without an
  account, 401 for another password. A fault can turn any answer into 500 and nothing else.
\<close>

theorem login_decides:
  assumes "sdb_env E" "users_ok U" "user_name_ok name" "u_idle E k U w" "account_login E P name c w = ((status, ident), w')"
  shows "u_idle E k U w' \<and>
    (sel name U = {#} \<and> status = 404 \<and> ident = None \<or>
     (\<exists>i s d it cr. sel name U = {#(i, s, d, it, cr)#} \<and>
        (status, ident) = (case password_hash P c s it of None \<Rightarrow> (500, None)
           | Some h \<Rightarrow> if take 64 h = d then (200, Some i) else (401, None))) \<or>
     \<not> k \<and> status = 500 \<and> ident = None)"
  using sdb_env.login_outcome [OF assms] unfolding login_verdict_def by blast

theorem login_decides_witness:
  "\<exists>w'. account_login (ref_env (\<lambda>_. Runs)) demo_pbkdf2 ''alice'' demo_account empty_world = ((404, None), w')"
proof -
  let ?E = "ref_env (\<lambda>_. Runs)"
  obtain status ident w' where run: "account_login ?E demo_pbkdf2 ''alice'' demo_account empty_world = ((status, ident), w')" by (metis prod.exhaust)
  from login_decides [OF ref.sdb_env_axioms no_users(1) demo_name empty_idle [of True] run] have "status = 404 \<and> ident = None" by (auto simp: no_users)
  with run show ?thesis by auto
qed

lemma hex_inj: "auth_hex_encode a = auth_hex_encode b \<Longrightarrow> a = b"
  by (metis hex_roundtrip le_refl max.cobounded1 max.cobounded2 option.inject)

text \<open>
  C32: who registers can log in: after a successful registration, without faults, the same password
  is let in with the id of the registration and a password with another digest is refused.
\<close>

theorem register_then_login:
  assumes "sdb_env E" "users_ok U" "user_name_ok name" "u_idle E True U w"
    and "8 \<le> length (ac_pass c)" "length (ac_pass c) \<le> 128" "length salt = 16" "P (ac_pass c) salt iters = Some digest"
    and "\<And>p d. P p salt iters = Some d \<Longrightarrow> length d = 32"
    and "1 \<le> iters" "iters < 2 ^ 31" "next_user_id U < 2 ^ 31" "\<And>t. 0 \<le> clock t \<and> clock t < 2 ^ 31"
    and "account_register E P iters (Some salt) True clock name c w = ((200, ident), w1)"
    and "account_login E P name c2 w1 = ((status, ident2), w2)"
  shows "(status, ident2) = (case P (ac_pass c2) salt iters of None \<Rightarrow> (500, None)
    | Some d \<Rightarrow> if d = digest then (200, ident) else (401, None))"
proof -
  note len = assms(9) [OF assms(8)]
  from register_outcome [where P = P and c = c, OF assms(1-8) len assms(10-14)] obtain t where
    r: "users_ok (add_mset (register_row U name salt digest iters (clock t)) U)"
      "u_idle E True (add_mset (register_row U name salt digest iters (clock t)) U) w1" "ident = Some (next_user_id U)" "sel name U = {#}" by auto
  let ?U = "add_mset (register_row U name salt digest iters (clock t)) U"
  have sel: "sel name ?U = {#(next_user_id U, auth_hex_encode salt, auth_hex_encode digest, iters, clock t)#}"
    using r(4) by (simp add: register_row_def sel_def)
  from sdb_env.login_outcome [OF assms(1) r(1) assms(3) r(2) assms(15)] sel
  have v: "(status, ident2) = (case password_hash P c2 (auth_hex_encode salt) iters of None \<Rightarrow> (500, None)
      | Some h \<Rightarrow> if take 64 h = auth_hex_encode digest then (200, ident) else (401, None))" unfolding r(3) by (simp add: login_verdict_def)
  have "salt \<noteq> []" using assms(7) by auto
  then have "password_hash P c2 (auth_hex_encode salt) iters = map_option auth_hex_encode (P (ac_pass c2) salt iters)"
    using assms(7,10) by (simp add: password_hash_def hex_roundtrip HASH_SALT_BYTES_def)
  with v assms(9) [of "ac_pass c2"] show ?thesis by (auto split: option.splits dest: hex_inj)
qed

theorem register_then_login_witness:
  "\<exists>w1 w2. account_register (ref_env (\<lambda>_. Runs)) demo_pbkdf2 1000 (Some (replicate 16 CHR ''s'')) True (\<lambda>_. 5) ''alice'' demo_account empty_world =
     ((200, Some 1), w1) \<and>
    account_login (ref_env (\<lambda>_. Runs)) demo_pbkdf2 ''alice'' \<lparr>ac_user = ''alice'', ac_pass = ''sesame-2''\<rparr> w1 = ((401, None), w2)"
proof -
  let ?salt = "replicate 16 CHR ''s''" and ?E = "ref_env (\<lambda>_. Runs)" and ?c2 = "\<lparr>ac_user = ''alice'', ac_pass = ''sesame-2''\<rparr>"
  let ?d = "take 32 (ac_pass demo_account @ ?salt @ replicate 32 CHR ''0'')"
  obtain status ident w1 where run: "account_register ?E demo_pbkdf2 1000 (Some ?salt) True (\<lambda>_. 5) ''alice'' demo_account empty_world =
     ((status, ident), w1)" by (metis prod.exhaust)
  obtain st2 id2 w2 where run2: "account_login ?E demo_pbkdf2 ''alice'' ?c2 w1 = ((st2, id2), w2)" by (metis prod.exhaust)
  have p: "8 \<le> length (ac_pass demo_account)" "length (ac_pass demo_account) \<le> 128" "length ?salt = 16"
    "demo_pbkdf2 (ac_pass demo_account) ?salt 1000 = Some ?d" "1 \<le> (1000 :: int)" "(1000 :: int) < 2 ^ 31"
    "next_user_id {#} < 2 ^ 31" "\<And>t :: nat. 0 \<le> (5 :: int) \<and> (5 :: int) < 2 ^ 31"
    and l: "length ?d = 32" "\<And>p d. demo_pbkdf2 p ?salt 1000 = Some d \<Longrightarrow> length d = 32"
    by (auto simp: demo_account_def demo_pbkdf2_def no_users)
  from register_outcome [where P = demo_pbkdf2 and c = demo_account, OF ref.sdb_env_axioms no_users(1) demo_name empty_idle [of True] p(1-4) l(1) p(5-8) run]
  have r: "status = 200" "ident = Some 1" by (auto simp: no_users)
  from register_then_login [where P = demo_pbkdf2 and c = demo_account, OF ref.sdb_env_axioms no_users(1) demo_name empty_idle p(1-4) l(2) p(5-8) run [unfolded r(1)] run2]
  have "(st2, id2) = (401, None)" by (simp add: demo_pbkdf2_def demo_account_def)
  with run run2 r show ?thesis by auto
qed

end
