(* ===== verification/Rc.thy ===== *)
theory Rc
  imports Names
begin

text \<open>
  Directives of the file \<^verbatim>\<open>.tetrishrc\<close>, \<^verbatim>\<open>src/src/libtetrisutil/rc.c\<close>: the cached copy of the file,
  the scan for one key and the typed readers. \<open>file\<close> is what the file holds when it is read, if
  it can be opened, and \<open>alloc n\<close> tells whether an allocation of \<open>n\<close> bytes succeeds.
\<close>

section \<open>The cached file\<close>

datatype rc_get_status = RC_VALUE_FOUND | RC_VALUE_ABSENT | RC_VALUE_INVALID | RC_NO_FILE | RC_OUT_NULL_POINTER

record rc_cache =
  content_ptr :: "string option"
  file_not_found :: bool

record rc_file =
  rf_file :: "string option"
  rf_alloc :: "nat \<Rightarrow> bool"

definition PATH_MAX :: nat where "PATH_MAX = 4096"

definition lstrip :: "string \<Rightarrow> string" where
  "lstrip s = dropWhile is_space s"

definition rstrip :: "string \<Rightarrow> string" where
  "rstrip s = rev (dropWhile is_space (rev s))"

definition rc_root :: "string option \<Rightarrow> string" where
  "rc_root env = (case env of Some r \<Rightarrow> if r \<noteq> [] then r else ''.'' | None \<Rightarrow> ''.'')"

text \<open>The read loop: the buffer of \<open>cap\<close> bytes doubles until the file and a terminator fit.\<close>

function snapshot_loop :: "(nat \<Rightarrow> bool) \<Rightarrow> string \<Rightarrow> nat \<Rightarrow> string option" where
  "snapshot_loop alloc data cap =
     (if length data + 1 < cap then Some data
      else if cap = 0 \<or> \<not> alloc (2 * cap) then None
      else snapshot_loop alloc data (2 * cap))"
  by auto
termination by (relation "measure (\<lambda>(_, data, cap). length data + 2 - cap)") auto

declare snapshot_loop.simps [simp del]

definition snapshot :: "rc_file \<Rightarrow> rc_cache \<Rightarrow> rc_cache" where
  "snapshot F rc =
     (if content_ptr rc \<noteq> None \<or> file_not_found rc then rc
      else case rf_file F of
             None \<Rightarrow> rc\<lparr>file_not_found := True\<rparr>
           | Some data \<Rightarrow>
               (case if rf_alloc F 4096 then snapshot_loop (rf_alloc F) data 4096 else None of
                  None \<Rightarrow> rc\<lparr>content_ptr := None, file_not_found := True\<rparr>
                | Some content \<Rightarrow> rc\<lparr>content_ptr := Some (cstr content)\<rparr>))"

definition rc_reload :: "rc_cache \<Rightarrow> rc_cache" where
  "rc_reload rc = rc\<lparr>content_ptr := None, file_not_found := False\<rparr>"

section \<open>Looking a key up\<close>

text \<open>A line that is no directive for the key leaves the result of the earlier lines.\<close>

definition rc_line :: "string \<Rightarrow> nat \<Rightarrow> string \<Rightarrow> rc_get_status \<times> string \<Rightarrow> rc_get_status \<times> string" where
  "rc_line key cap at r =
     (if \<not> length at < PATH_MAX + 64 then r
      else let line = takeWhile (\<lambda>c. c \<noteq> CR) at; name = lstrip line; pre = takeWhile (\<lambda>c. c \<noteq> CHR ''='') name
           in if name = [] \<or> hd name = CHR ''#'' \<or> CHR ''='' \<notin> set name then r
              else if rstrip pre \<noteq> key then r
              else let val = rstrip (lstrip (drop (length pre + 1) name))
                   in if val = [] \<or> cap \<le> length val then (RC_VALUE_INVALID, snd r) else (RC_VALUE_FOUND, val))"

function lookup_loop :: "string \<Rightarrow> nat \<Rightarrow> string \<Rightarrow> rc_get_status \<times> string \<Rightarrow> rc_get_status \<times> string" where
  "lookup_loop key cap at r =
     (if at = [] then r
      else let r = rc_line key cap (takeWhile (\<lambda>c. c \<noteq> NL) at) r
           in case dropWhile (\<lambda>c. c \<noteq> NL) at of [] \<Rightarrow> r | _ # at \<Rightarrow> lookup_loop key cap at r)"
  by auto
termination
  by (relation "measure (\<lambda>(_, _, at, _). length at)") (auto dest!: dropWhile_shorter )

declare lookup_loop.simps [simp del]

definition rc_lookup :: "rc_file \<Rightarrow> string \<Rightarrow> string \<Rightarrow> nat \<Rightarrow> rc_cache \<Rightarrow> (rc_get_status \<times> string) \<times> rc_cache" where
  "rc_lookup F key out cap rc =
     (let rc = snapshot F rc
      in (case content_ptr rc of
            None \<Rightarrow> (RC_NO_FILE, out)
          | Some content \<Rightarrow> lookup_loop key cap content (RC_VALUE_ABSENT, out), rc))"

text \<open>\<open>None\<close> as the destination is the null pointer; \<open>None\<close> as the fallback leaves the destination.\<close>

definition rc_get ::
    "rc_file \<Rightarrow> string \<Rightarrow> string option \<Rightarrow> string option \<Rightarrow> nat \<Rightarrow> rc_cache \<Rightarrow> (rc_get_status \<times> string option) \<times> rc_cache" where
  "rc_get F key fallback dst cap rc =
     (case dst of
        None \<Rightarrow> ((RC_OUT_NULL_POINTER, None), rc)
      | Some out \<Rightarrow>
          (case rc_lookup F key out cap rc of
             ((found, out), rc) \<Rightarrow>
               ((found, Some (case fallback of Some f \<Rightarrow> if found \<noteq> RC_VALUE_FOUND then snprintf_s cap f else out
                                             | None \<Rightarrow> out)), rc)))"

definition rc_get_int ::
    "rc_file \<Rightarrow> string \<Rightarrow> int \<Rightarrow> int \<Rightarrow> int \<Rightarrow> int option \<Rightarrow> rc_cache \<Rightarrow> (rc_get_status \<times> int option) \<times> rc_cache" where
  "rc_get_int F key fallback lo hi dst rc =
     (case dst of
        None \<Rightarrow> ((RC_OUT_NULL_POINTER, None), rc)
      | Some _ \<Rightarrow>
          (case rc_lookup F key [] 64 rc of
             ((found, val), rc) \<Rightarrow>
               if found \<noteq> RC_VALUE_FOUND then ((found, Some fallback), rc)
               else case strtol val of
                      (n, endp) \<Rightarrow>
                        if endp = val \<or> endp \<noteq> [] \<or> n < lo \<or> hi < n then ((RC_VALUE_INVALID, Some fallback), rc)
                        else ((RC_VALUE_FOUND, Some (wrap32 n)), rc)))"

definition rc_yes :: "string list" where "rc_yes = [''on'', ''yes'', ''true'', ''1'']"
definition rc_no :: "string list" where "rc_no = [''off'', ''no'', ''false'', ''0'']"

definition strcasecmp_eq :: "string \<Rightarrow> string \<Rightarrow> bool" where
  "strcasecmp_eq a b \<longleftrightarrow> map fold_char a = map fold_char b"

fun rc_bool_loop :: "string \<Rightarrow> (string \<times> string) list \<Rightarrow> bool option" where
  "rc_bool_loop val [] = None"
| "rc_bool_loop val ((y, n) # ps) =
     (if strcasecmp_eq val y then Some True else if strcasecmp_eq val n then Some False else rc_bool_loop val ps)"

definition rc_get_bool ::
    "rc_file \<Rightarrow> string \<Rightarrow> int \<Rightarrow> int option \<Rightarrow> rc_cache \<Rightarrow> (rc_get_status \<times> int option) \<times> rc_cache" where
  "rc_get_bool F key fallback dst rc =
     (case dst of
        None \<Rightarrow> ((RC_OUT_NULL_POINTER, None), rc)
      | Some _ \<Rightarrow>
          (case rc_lookup F key [] 16 rc of
             ((found, val), rc) \<Rightarrow>
               if found \<noteq> RC_VALUE_FOUND then ((found, Some fallback), rc)
               else case rc_bool_loop val (zip rc_yes rc_no) of
                      Some b \<Rightarrow> ((RC_VALUE_FOUND, Some (of_bool b)), rc)
                    | None \<Rightarrow> ((RC_VALUE_INVALID, Some fallback), rc)))"

section \<open>Lemmas\<close>

lemma snapshot_loop_all: "0 < cap \<Longrightarrow> (\<And>n. alloc n) \<Longrightarrow> snapshot_loop alloc data cap = Some data"
  by (induction alloc data cap rule: snapshot_loop.induct) (subst snapshot_loop.simps, auto)

lemma snapshot_loop_exact: "snapshot_loop alloc data cap = Some content \<Longrightarrow> content = data"
  by (induction alloc data cap rule: snapshot_loop.induct) (subst (asm) (2) snapshot_loop.simps, auto split: if_splits)

text \<open>A number read from the file is within its bounds; anything else is the fallback.\<close>

lemma rc_get_int_bounds:
  assumes "rc_get_int F key fallback lo hi (Some d) rc = ((st, out), rc')" "- (2 ^ 31) \<le> lo" "hi < 2 ^ 31"
  shows "\<exists>v. out = Some v \<and> (if st = RC_VALUE_FOUND then lo \<le> v \<and> v \<le> hi else v = fallback)"
  using assms by (auto simp: rc_get_int_def split: prod.splits if_splits)

text \<open>A file of directives: the written form and what makes one readable.\<close>

definition rc_key_ok :: "string \<Rightarrow> bool" where
  "rc_key_ok k \<longleftrightarrow> k \<noteq> [] \<and> hd k \<noteq> CHR ''#'' \<and> \<not> is_space (hd k) \<and> \<not> is_space (last k) \<and>
     set k \<inter> {CHR ''='', NL, CR, NUL} = {}"

definition rc_val_ok :: "string \<Rightarrow> bool" where
  "rc_val_ok v \<longleftrightarrow> (v \<noteq> [] \<longrightarrow> \<not> is_space (hd v) \<and> \<not> is_space (last v)) \<and> set v \<inter> {NL, CR, NUL} = {}"

definition directive_ok :: "string \<times> string \<Rightarrow> bool" where
  "directive_ok d \<longleftrightarrow> rc_key_ok (fst d) \<and> rc_val_ok (snd d) \<and> length (fst d) + length (snd d) + 1 < PATH_MAX + 64"

definition rc_text :: "(string \<times> string) list \<Rightarrow> string" where
  "rc_text ds = concat (map (\<lambda>(k, v). k @ CHR ''='' # v @ [NL]) ds)"

lemma strip_id:
  "s \<noteq> [] \<Longrightarrow> \<not> is_space (hd s) \<Longrightarrow> lstrip s = s" "s \<noteq> [] \<Longrightarrow> \<not> is_space (last s) \<Longrightarrow> rstrip s = s"
  "lstrip [] = []" "rstrip [] = []"
proof -
  show "lstrip s = s" if "s \<noteq> []" "\<not> is_space (hd s)" using that by (cases s) (auto simp: lstrip_def)
  show "rstrip s = s" if "s \<noteq> []" "\<not> is_space (last s)" using that by (cases s rule: rev_cases) (auto simp: rstrip_def)
qed (auto simp: lstrip_def rstrip_def)

lemma rc_line_directive:
  assumes "directive_ok (k, v)"
  shows "rc_line key cap (k @ CHR ''='' # v) r =
    (if k = key then if v = [] \<or> cap \<le> length v then (RC_VALUE_INVALID, snd r) else (RC_VALUE_FOUND, v) else r)"
proof -
  have k: "k \<noteq> []" "hd k \<noteq> CHR ''#''" "\<not> is_space (hd k)" "\<not> is_space (last k)" "CHR ''='' \<notin> set k" "CR \<notin> set k" "CR \<notin> set v"
    "length (k @ CHR ''='' # v) < PATH_MAX + 64"
    using assms by (auto simp: directive_ok_def rc_key_ok_def rc_val_ok_def)
  have "CR \<notin> set (k @ CHR ''='' # v)" using k by auto
  then have line: "takeWhile (\<lambda>c. c \<noteq> CR) (k @ CHR ''='' # v) = k @ CHR ''='' # v" by simp
  have name: "lstrip (k @ CHR ''='' # v) = k @ CHR ''='' # v" using k by (intro strip_id) auto
  have val: "rstrip (lstrip v) = v"
    using assms by (cases "v = []") (auto simp: directive_ok_def rc_val_ok_def strip_id)
  have pre: "takeWhile (\<lambda>c. c \<noteq> CHR ''='') (k @ CHR ''='' # v) = k" "drop (length k + 1) (k @ CHR ''='' # v) = v" using k by simp_all
  show ?thesis
    unfolding rc_line_def line name Let_def pre val using k by (simp add: strip_id(2))
qed

lemma lookup_loop_step:
  assumes "directive_ok d"
  shows "lookup_loop key cap (rc_text (d # ds)) r = lookup_loop key cap (rc_text ds)
    (if fst d = key then if snd d = [] \<or> cap \<le> length (snd d) then (RC_VALUE_INVALID, snd r) else (RC_VALUE_FOUND, snd d) else r)"
proof -
  obtain k v where d: "d = (k, v)" by (cases d)
  have nl: "NL \<notin> set (k @ CHR ''='' # v)" using assms by (auto simp: d directive_ok_def rc_key_ok_def rc_val_ok_def)
  have t: "rc_text (d # ds) = (k @ CHR ''='' # v) @ NL # rc_text ds" by (simp add: rc_text_def d)
  show ?thesis
    unfolding t by (subst lookup_loop.simps)
      (simp add: takeWhile_sep [OF nl, simplified] dropWhile_sep [OF nl, simplified] Let_def rc_line_directive [OF assms [unfolded d], simplified] d)
qed

lemma lookup_loop_keep:
  "list_all directive_ok ds \<Longrightarrow> key \<notin> fst ` set ds \<Longrightarrow> lookup_loop key cap (rc_text ds) r = r"
proof (induction ds)
  case (Cons d ds)
  then show ?case by (auto simp: lookup_loop_step)
qed (simp add: rc_text_def lookup_loop.simps)

text \<open>The last directive for the key is the one in force, a bad value included.\<close>

definition rc_verdict :: "nat \<Rightarrow> string \<Rightarrow> rc_get_status" where
  "rc_verdict cap v = (if v = [] \<or> cap \<le> length v then RC_VALUE_INVALID else RC_VALUE_FOUND)"

lemma lookup_last_wins:
  assumes "list_all directive_ok ds" "list_all directive_ok es" "directive_ok (key, v)" "key \<notin> fst ` set es"
  shows "\<exists>out'. lookup_loop key cap (rc_text (ds @ (key, v) # es)) (st, out) = (rc_verdict cap v, out') \<and>
    (rc_verdict cap v = RC_VALUE_FOUND \<longrightarrow> out' = v)"
  using assms(1)
proof (induction ds arbitrary: st out)
  case Nil
  then show ?case using assms(2-) by (simp add: lookup_loop_step lookup_loop_keep rc_verdict_def)
next
  case (Cons d ds)
  then show ?case by (simp add: lookup_loop_step)
qed

text \<open>The cache a process has before its first lookup, and what a lookup then reads.\<close>

definition rc_fresh :: rc_cache where
  "rc_fresh = \<lparr>content_ptr = None, file_not_found = False\<rparr>"

lemma snapshot_fresh:
  assumes "rf_file F = Some data" "\<And>n. rf_alloc F n"
  shows "content_ptr (snapshot F rc_fresh) = Some (cstr data)"
  using assms by (simp add: snapshot_def rc_fresh_def snapshot_loop_all)

lemma snapshot_idem: "snapshot G (snapshot F rc) = snapshot F rc"
  by (auto simp: snapshot_def split: option.splits)

lemma rc_text_no_nul: "list_all directive_ok ds \<Longrightarrow> NUL \<notin> set (rc_text ds)"
  by (induction ds) (auto simp: rc_text_def directive_ok_def rc_key_ok_def rc_val_ok_def)

text \<open>
  The last line for a key is the one in force: a number in range on it is what the reader
  gets, and without such a number the reader gets its fallback.
\<close>

theorem rc_int_last_wins:
  assumes "rf_file F = Some (rc_text (ds @ (key, v) # es))" "\<And>n. rf_alloc F n"
    and "list_all directive_ok ds" "list_all directive_ok es" "directive_ok (key, v)" "key \<notin> fst ` set es"
    and "- (2 ^ 31) \<le> lo" "hi < 2 ^ 31"
  shows "fst (rc_get_int F key fallback lo hi (Some d) rc_fresh) =
    (if \<exists>n. strtol v = (n, []) \<and> lo \<le> n \<and> n \<le> hi \<and> v \<noteq> [] \<and> length v < 64
     then (RC_VALUE_FOUND, Some (fst (strtol v))) else (RC_VALUE_INVALID, Some fallback))"
proof -
  have "list_all directive_ok (ds @ (key, v) # es)" using assms(3-5) by simp
  then have "cstr (rc_text (ds @ (key, v) # es)) = rc_text (ds @ (key, v) # es)" by (rule cstr_id [OF rc_text_no_nul])
  with snapshot_fresh [OF assms(1,2)] have c: "content_ptr (snapshot F rc_fresh) = Some (rc_text (ds @ (key, v) # es))" by simp
  from lookup_last_wins [OF assms(3-6), of 64 RC_VALUE_ABSENT "[]"] obtain out where
    l: "lookup_loop key 64 (rc_text (ds @ (key, v) # es)) (RC_VALUE_ABSENT, []) = (rc_verdict 64 v, out)"
      "rc_verdict 64 v = RC_VALUE_FOUND \<longrightarrow> out = v" by blast
  obtain n r where n: "strtol v = (n, r)" by (metis prod.exhaust)
  show ?thesis
    using l(2) n assms(7,8) unfolding rc_get_int_def rc_lookup_def Let_def c option.case l(1) prod.case
    by (auto simp: rc_verdict_def)
qed

theorem rc_int_last_wins_witness:
  "let F = \<lparr>rf_file = Some (rc_text [(''auth_max_attempts'', ''9''), (''log'', ''on''), (''auth_max_attempts'', ''7'')]), rf_alloc = \<lambda>_. True\<rparr>
   in fst (rc_get_int F ''auth_max_attempts'' 5 1 100 (Some 0) rc_fresh) = (RC_VALUE_FOUND, Some 7)"
proof -
  let ?F = "\<lparr>rf_file = Some (rc_text ([(''auth_max_attempts'', ''9''), (''log'', ''on'')] @ (''auth_max_attempts'', ''7'') # [])),
    rf_alloc = \<lambda>_. True\<rparr>"
  have ok: "list_all directive_ok [(''auth_max_attempts'', ''9''), (''log'', ''on'')]" "list_all directive_ok []"
    "directive_ok (''auth_max_attempts'', ''7'')" by code_simp+
  have "strtol ''7'' = (7, [])" by code_simp
  with rc_int_last_wins [of ?F _ _ _ "[]" 1 100 5 0, OF _ _ ok] show ?thesis by simp
qed

end
