(* ===== verification/Secret.thy ===== *)
theory Secret
  imports Token Rc
begin

text \<open>
  The signing secret on disk, \<^verbatim>\<open>src/src/libtetrisauth/lib/secret.c\<close>: loading it with the checks on
  its file and creating it once. The file system is a map from paths to files; a short or
  interrupted \<^verbatim>\<open>read\<close> or \<^verbatim>\<open>write\<close> is an event, and after the events every call is complete.
\<close>

section \<open>Loading\<close>

definition AUTH_SECRET_REL :: string where "AUTH_SECRET_REL = ''auth/jwt_secret''"
definition AUTH_SECRET_MIN :: nat where "AUTH_SECRET_MIN = 32"
definition AUTH_SECRET_MAX :: nat where "AUTH_SECRET_MAX = 64"

record sfile =
  sf_regular :: bool
  sf_mode :: nat
  sf_uid :: nat
  sf_data :: string

type_synonym disk = "string \<Rightarrow> sfile option"

text \<open>A call moves at least one and at most so many bytes, is interrupted, or fails.\<close>

datatype io_event = Moved nat | Interrupted | Failed

definition secret_path :: "nat \<Rightarrow> string \<Rightarrow> string option" where
  "secret_path cap r =
     (let p = r @ ''/'' @ AUTH_SECRET_REL in if length p = 0 \<or> cap \<le> length p then None else Some p)"

text \<open>\<open>readable\<close> covers \<^verbatim>\<open>open\<close> and \<^verbatim>\<open>fstat\<close>; the mode bits below 077 are those of group and others.\<close>

definition secret_open :: "bool \<Rightarrow> nat \<Rightarrow> disk \<Rightarrow> string \<Rightarrow> (sfile \<times> nat) option" where
  "secret_open readable euid fs path =
     (case fs path of
        None \<Rightarrow> None
      | Some f \<Rightarrow>
          if \<not> readable then None
          else if \<not> sf_regular f then None
          else if sf_mode f mod 64 \<noteq> 0 then None
          else if sf_uid f \<noteq> euid then None
          else if length (sf_data f) < AUTH_SECRET_MIN \<or> AUTH_SECRET_MAX < length (sf_data f) then None
          else Some (f, length (sf_data f)))"

fun secret_read_loop :: "nat \<Rightarrow> string \<Rightarrow> io_event list \<Rightarrow> string \<Rightarrow> string option" where
  "secret_read_loop 0 data evs got = Some got"
| "secret_read_loop len data [] got = (if len \<le> length data then Some (got @ take len data) else None)"
| "secret_read_loop len data (Interrupted # evs) got = secret_read_loop len data evs got"
| "secret_read_loop len data (Failed # evs) got = None"
| "secret_read_loop len data (Moved k # evs) got =
     (let n = min len (min (max 1 k) (length data))
      in if n = 0 then None else secret_read_loop (len - n) (drop n data) evs (got @ take n data))"

definition secret_read :: "nat \<Rightarrow> sfile \<Rightarrow> nat \<Rightarrow> io_event list \<Rightarrow> string option" where
  "secret_read outlen f len evs = (if outlen < len then None else secret_read_loop len (sf_data f) evs [])"

definition auth_secret_load :: "bool \<Rightarrow> nat \<Rightarrow> disk \<Rightarrow> io_event list \<Rightarrow> string \<Rightarrow> nat \<Rightarrow> string option" where
  "auth_secret_load readable euid fs evs r outlen =
     (case secret_path PATH_MAX r of
        None \<Rightarrow> None
      | Some path \<Rightarrow>
          (case secret_open readable euid fs path of
             None \<Rightarrow> None
           | Some (f, len) \<Rightarrow> secret_read outlen f len evs))"

section \<open>Creating\<close>

fun secret_write_loop :: "string \<Rightarrow> io_event list \<Rightarrow> bool \<times> string" where
  "secret_write_loop [] evs = (True, [])"
| "secret_write_loop buf [] = (True, buf)"
| "secret_write_loop buf (Interrupted # evs) = secret_write_loop buf evs"
| "secret_write_loop buf (Failed # evs) = (False, [])"
| "secret_write_loop buf (Moved k # evs) =
     (case secret_write_loop (drop (max 1 k) buf) evs of (ok, w) \<Rightarrow> (ok, take (max 1 k) buf @ w))"

text \<open>
  What the system answers: whether \<^verbatim>\<open>stat\<close> finds out, whether the directory is there or can be
  made, the random bytes, whether the file can be created with mode 0600 under the umask.
\<close>

record provision_env =
  pe_stat :: bool
  pe_mkdir :: bool
  pe_rand :: "string option"
  pe_create :: bool
  pe_umask :: nat
  pe_writes :: "io_event list"
  pe_readable :: bool

definition write_secret :: "provision_env \<Rightarrow> nat \<Rightarrow> string \<Rightarrow> string \<Rightarrow> disk \<Rightarrow> bool \<times> disk" where
  "write_secret V euid r path fs =
     (if PATH_MAX \<le> length (r @ ''/auth'') then (False, fs)
      else if \<not> pe_mkdir V then (False, fs)
      else case pe_rand V of
             None \<Rightarrow> (False, fs)
           | Some buf \<Rightarrow>
               if \<not> pe_create V then (False, fs)
               else case secret_write_loop buf (pe_writes V) of
                      (ok, w) \<Rightarrow> (ok, fs(path \<mapsto> \<lparr>sf_regular = True, sf_mode = 384 - Bit_Operations.and 384 (pe_umask V), sf_uid = euid, sf_data = w\<rparr>)))"

definition auth_secret_provision :: "provision_env \<Rightarrow> nat \<Rightarrow> string \<Rightarrow> disk \<Rightarrow> bool \<times> disk" where
  "auth_secret_provision V euid r fs =
     (case secret_path PATH_MAX r of
        None \<Rightarrow> (False, fs)
      | Some path \<Rightarrow>
          (case if pe_stat V \<and> fs path = None then write_secret V euid r path fs else (True, fs) of
             (ok, fs) \<Rightarrow> if \<not> ok then (False, fs) else (secret_open (pe_readable V) euid fs path \<noteq> None, fs)))"

section \<open>Lemmas\<close>

lemma read_loop_exact: "secret_read_loop len data evs got = Some out \<Longrightarrow> out = got @ take len data \<and> len \<le> length data"
proof (induction len data evs got rule: secret_read_loop.induct)
  case (5 v data k evs got)
  let ?n = "min (Suc v) (min (max 1 k) (length data))"
  from "5.prems" have "?n \<noteq> 0" "secret_read_loop (Suc v - ?n) (drop ?n data) evs (got @ take ?n data) = Some out"
    by (auto simp: Let_def split: if_splits)
  from "5.IH" [OF refl this] show ?case
    by (auto simp: take_add [symmetric] le_diff_conv2)
qed (auto split: if_splits)

lemma read_loop_total: "len \<le> length data \<Longrightarrow> Failed \<notin> set evs \<Longrightarrow> secret_read_loop len data evs got \<noteq> None"
proof (induction len data evs got rule: secret_read_loop.induct)
  case (5 v data k evs got)
  let ?n = "min (Suc v) (min (max 1 k) (length data))"
  have "?n \<noteq> 0" using "5.prems"(1) by auto
  moreover have "secret_read_loop (Suc v - ?n) (drop ?n data) evs (got @ take ?n data) \<noteq> None"
    using "5.prems" by (intro "5.IH" [OF refl \<open>?n \<noteq> 0\<close>]) auto
  ultimately show ?case by (simp add: Let_def)
qed auto

lemma write_loop_all: "secret_write_loop buf evs = (True, w) \<Longrightarrow> w = buf"
proof (induction buf evs arbitrary: w rule: secret_write_loop.induct)
  case (5 c cs k evs)
  then show ?case by (auto split: prod.splits)
qed auto

text \<open>A private file: the owner's alone, of the right size.\<close>

definition private_secret :: "nat \<Rightarrow> sfile \<Rightarrow> bool" where
  "private_secret euid f \<longleftrightarrow> sf_regular f \<and> sf_mode f mod 64 = 0 \<and> sf_uid f = euid \<and> 32 \<le> length (sf_data f) \<and> length (sf_data f) \<le> 64"

lemma secret_open_exact:
  "secret_open readable euid fs path = Some (f, len) \<longleftrightarrow>
     readable \<and> fs path = Some f \<and> private_secret euid f \<and> len = length (sf_data f)"
  by (auto simp: secret_open_def private_secret_def AUTH_SECRET_MIN_def AUTH_SECRET_MAX_def split: option.splits if_splits)

lemma secret_load_exact:
  assumes "auth_secret_load readable euid fs evs r outlen = Some secret"
  shows "\<exists>path f. secret_path PATH_MAX r = Some path \<and> fs path = Some f \<and> private_secret euid f \<and> secret = sf_data f"
proof -
  from assms obtain path f len where p: "secret_path PATH_MAX r = Some path" "secret_open readable euid fs path = Some (f, len)"
    "secret_read_loop len (sf_data f) evs [] = Some secret"
    by (auto simp: auth_secret_load_def secret_read_def split: option.splits if_splits)
  from p(2) have f: "fs path = Some f" "private_secret euid f" "len = length (sf_data f)" by (auto simp: secret_open_exact)
  from read_loop_exact [OF p(3)] f(3) have "secret = sf_data f" by simp
  with p(1) f show ?thesis by blast
qed

lemma secret_load_total:
  assumes "secret_path PATH_MAX r = Some path" "fs path = Some f" "private_secret euid f" "64 \<le> outlen" "Failed \<notin> set evs"
  shows "auth_secret_load True euid fs evs r outlen = Some (sf_data f)"
proof -
  have "secret_open True euid fs path = Some (f, length (sf_data f))" using assms(2,3) by (simp add: secret_open_exact)
  moreover have "secret_read_loop (length (sf_data f)) (sf_data f) evs [] = Some (sf_data f)"
    using read_loop_total [of "length (sf_data f)" "sf_data f" evs "[]"] assms(5) read_loop_exact [of "length (sf_data f)" "sf_data f" evs "[]"]
    by auto
  ultimately show ?thesis using assms by (simp add: auth_secret_load_def secret_read_def private_secret_def)
qed

text \<open>
  A secret that was provisioned can be loaded: provisioning leaves a file that is there
  alone, refuses one that others can reach, and otherwise what it wrote is what a load reads,
  good enough to sign with.
\<close>

theorem provisioned_secret_loads:
  assumes "auth_secret_provision V euid r fs = (True, fs')" "Failed \<notin> set evs" "pe_stat V"
    and "\<And>b. pe_rand V = Some b \<Longrightarrow> length b = 32"
  shows "\<exists>path f. secret_path PATH_MAX r = Some path \<and> fs' path = Some f \<and> private_secret euid f \<and>
    (fs path = None \<longrightarrow> pe_rand V = Some (sf_data f)) \<and> (fs path \<noteq> None \<longrightarrow> fs' = fs) \<and>
    auth_secret_load True euid fs' evs r 64 = Some (sf_data f) \<and> secret_ok (sf_data f)"
proof -
  from assms(1) obtain path where p: "secret_path PATH_MAX r = Some path" by (auto simp: auth_secret_provision_def split: option.splits)
  from assms(1) p obtain f len where f: "secret_open (pe_readable V) euid fs' path = Some (f, len)"
    by (auto simp: auth_secret_provision_def split: prod.splits if_splits)
  then have g: "fs' path = Some f" "private_secret euid f" by (auto simp: secret_open_exact)
  have "pe_rand V = Some (sf_data f)" if "fs path = None"
  proof -
    have "write_secret V euid r path fs = (True, fs')"
      using assms(1,3) p that by (auto simp: auth_secret_provision_def split: prod.splits if_splits)
    then obtain buf w where "pe_rand V = Some buf" "secret_write_loop buf (pe_writes V) = (True, w)"
      "fs' = fs(path \<mapsto> \<lparr>sf_regular = True, sf_mode = 384 - Bit_Operations.and 384 (pe_umask V), sf_uid = euid, sf_data = w\<rparr>)"
      by (auto simp: write_secret_def split: if_splits option.splits prod.splits)
    with g(1) write_loop_all show ?thesis by fastforce
  qed
  moreover have "fs' = fs" if "fs path \<noteq> None"
    using assms(1) p that by (auto simp: auth_secret_provision_def split: prod.splits if_splits)
  moreover have "secret_ok (sf_data f)" using g(2) by (simp add: private_secret_def secret_ok_def TOKEN_SECRET_MIN_LEN_def INT_MAX_def)
  ultimately show ?thesis using p g secret_load_total [where fs = fs', OF p g le_refl assms(2)]
    by (intro exI [of _ path], intro exI [of _ f]) simp
qed

definition demo_provision :: provision_env where
  "demo_provision = \<lparr>pe_stat = True, pe_mkdir = True, pe_rand = Some (replicate 32 CHR ''k''), pe_create = True, pe_umask = 18,
     pe_writes = [Moved 5, Interrupted], pe_readable = True\<rparr>"

theorem provisioned_secret_loads_witness:
  "\<exists>fs'. auth_secret_provision demo_provision 1000 ''.'' Map.empty = (True, fs') \<and>
    auth_secret_load True 1000 fs' [Interrupted, Moved 3] ''.'' 64 = Some (replicate 32 CHR ''k'')"
proof -
  obtain fs' where r: "auth_secret_provision demo_provision 1000 ''.'' Map.empty = (True, fs')"
  proof -
    have "fst (auth_secret_provision demo_provision 1000 ''.'' Map.empty)" by code_simp
    then show thesis using that by (metis prod.collapse)
  qed
  from provisioned_secret_loads [OF r, of "[Interrupted, Moved 3]"] r show ?thesis by (auto simp: demo_provision_def)
qed

end
