(* ===== verification/Bytes.thy ===== *)
theory Bytes
  imports Db_Wire
begin

text \<open>
  Bytes on a stream: the conversions between \<^verbatim>\<open>uint8_t\<close>, \<^verbatim>\<open>uint32_t\<close> and \<^verbatim>\<open>uint64_t\<close> that the
  framing code uses, big-endian numbers, and the sequence of bytes a list of read events
  delivers. A byte is a \<^typ>\<open>char\<close>.
\<close>

unbundle bit_operations_syntax

section \<open>Conversions\<close>

definition to_byte :: "32 word \<Rightarrow> char" where
  "to_byte w = char_of (unat w)"

definition of_byte :: "char \<Rightarrow> 32 word" where
  "of_byte c = word_of_nat (of_char c)"

lemma to_of_byte: "of_byte (to_byte w) = take_bit 8 w"
proof -
  have "of_byte (to_byte w) = word_of_nat (unat w mod 256)" by (simp add: of_byte_def to_byte_def)
  also have "\<dots> = word_of_nat (take_bit 8 (unat w))" by (simp add: take_bit_eq_mod)
  also have "\<dots> = take_bit 8 w" by (simp add: unsigned_take_bit_eq [symmetric])
  finally show ?thesis .
qed

lemma unat_of_byte: "unat (of_byte c) = of_char c"
proof -
  have "(of_char c :: nat) < 2 ^ LENGTH(32)" using nat_of_char_less_256 [of c] by (rule less_trans) simp
  then show ?thesis by (simp add: of_byte_def unat_of_nat)
qed

lemma take_bit_of_byte: "take_bit 8 (of_byte c) = of_byte c"
proof -
  have "unat (take_bit 8 (of_byte c)) = unat (of_byte c)"
    unfolding unsigned_take_bit_eq unat_of_byte by (simp add: take_bit_eq_mod)
  then show ?thesis by (rule unsigned_word_eqI)
qed

lemma bit_of_byte: "bit (of_byte c) n \<Longrightarrow> n < 8"
  using take_bit_of_byte [of c] by (metis bit_take_bit_iff)

lemma to_byte_low: "take_bit 8 w = of_byte c \<Longrightarrow> to_byte w = c"
proof -
  assume "take_bit 8 w = of_byte c"
  then have "unat (take_bit 8 w) = of_char c" by (simp only: unat_of_byte)
  then have "unat w mod 256 = of_char c" unfolding unsigned_take_bit_eq by (simp add: take_bit_eq_mod)
  then have "char_of (unat w mod 256) = c" by simp
  then show ?thesis by (simp add: to_byte_def)
qed

section \<open>Four big-endian bytes\<close>

definition be32 :: "32 word \<Rightarrow> string" where
  "be32 w = [to_byte (drop_bit 24 w), to_byte (drop_bit 16 w), to_byte (drop_bit 8 w), to_byte w]"

definition be32_val :: "string \<Rightarrow> 32 word" where
  "be32_val p = (push_bit 24 (of_byte (p ! 0)) OR push_bit 16 (of_byte (p ! 1))) OR
     push_bit 8 (of_byte (p ! 2)) OR of_byte (p ! 3)"

lemma bytes_join:
  "(push_bit 24 (take_bit 8 (drop_bit 24 w)) OR push_bit 16 (take_bit 8 (drop_bit 16 w))) OR
     push_bit 8 (take_bit 8 (drop_bit 8 w)) OR take_bit 8 w = w" for w :: "32 word"
proof (rule bit_word_eqI)
  fix n
  assume "n < LENGTH(32)"
  then consider "n < 8" | "8 \<le> n" "n < 16" | "16 \<le> n" "n < 24" | "24 \<le> n" "n < 32" by force
  then show "bit ((push_bit 24 (take_bit 8 (drop_bit 24 w)) OR push_bit 16 (take_bit 8 (drop_bit 16 w))) OR
     push_bit 8 (take_bit 8 (drop_bit 8 w)) OR take_bit 8 w) n = bit w n"
    by cases (auto simp: bit_simps)
qed

lemma be32_length [simp]: "length (be32 w) = 4"
  by (simp add: be32_def)

lemma be32_val_be32 [simp]: "be32_val (be32 w) = w"
  unfolding be32_val_def be32_def by (simp add: to_of_byte bytes_join)

lemma be32_be32_val:
  assumes "length p = 4"
  shows "be32 (be32_val p) = p"
proof -
  obtain a b c d where p: "p = [a, b, c, d]"
    using assms by (auto simp: numeral_eq_Suc length_Suc_conv)
  let ?w = "(push_bit 24 (of_byte a) OR push_bit 16 (of_byte b)) OR push_bit 8 (of_byte c) OR of_byte d"
  have "take_bit 8 (drop_bit 24 ?w) = of_byte a" "take_bit 8 (drop_bit 16 ?w) = of_byte b"
    "take_bit 8 (drop_bit 8 ?w) = of_byte c" "take_bit 8 ?w = of_byte d"
    by (rule bit_word_eqI; auto simp: bit_simps dest: bit_of_byte)+
  then show ?thesis by (simp add: p be32_val_def be32_def to_byte_low)
qed

lemma unat_length: "n < 2 ^ 32 \<Longrightarrow> unat (word_of_nat n :: 32 word) = n"
  by (simp add: unat_of_nat)

section \<open>Eight big-endian bytes\<close>

definition INT_BYTES :: nat where "INT_BYTES = 8"

text \<open>The loop of \<^verbatim>\<open>int_to_bytes\<close>, filling the buffer from its end.\<close>

fun int_loop :: "nat \<Rightarrow> 64 word \<Rightarrow> string \<Rightarrow> string" where
  "int_loop 0 x buf = buf"
| "int_loop (Suc i) x buf = int_loop i (drop_bit 8 x) (buf[i := char_of (unat (x AND 0xFF))])"

definition int_to_bytes :: "64 word \<Rightarrow> string" where
  "int_to_bytes x = int_loop INT_BYTES x (replicate INT_BYTES NUL)"

definition bytes_to_int :: "string \<Rightarrow> 64 word" where
  "bytes_to_int buf = foldl (\<lambda>result c. push_bit 8 result OR word_of_nat (of_char c)) 0 (take INT_BYTES buf)"

lemma int_to_bytes_eq:
  "int_to_bytes x = map (\<lambda>i. char_of (unat (drop_bit (8 * i) x AND 0xFF))) [7, 6, 5, 4, 3, 2, 1, 0]"
  by (simp add: int_to_bytes_def INT_BYTES_def numeral_eq_Suc drop_bit_drop_bit)

lemma int_to_bytes_length [simp]: "length (int_to_bytes x) = 8"
  by (simp add: int_to_bytes_eq)

lemma low_byte: "word_of_nat (unat (x AND 0xFF) mod 256) = take_bit 8 (x :: 64 word)"
proof -
  have m: "x AND 0xFF = take_bit 8 x" by (simp add: take_bit_eq_mask mask_eq_exp_minus_1)
  have "unat (take_bit 8 x) = take_bit 8 (unat x)" by (rule unsigned_take_bit_eq)
  also have "\<dots> = unat x mod 256" by (simp add: take_bit_eq_mod)
  finally have "unat (take_bit 8 x) mod 256 = unat (take_bit 8 x)" by simp
  then have "word_of_nat (unat (take_bit 8 x) mod 256) = (word_of_nat (unat (take_bit 8 x)) :: 64 word)" by (simp only:)
  also have "\<dots> = take_bit 8 x" by simp
  finally show ?thesis unfolding m .
qed

lemma byte_step: "push_bit 8 (drop_bit (8 + k) x) OR take_bit 8 (drop_bit k x) = drop_bit k x" for x :: "64 word"
  by (rule bit_word_eqI) (auto simp: bit_simps add.commute)

lemma bytes_to_int_to_bytes [simp]: "bytes_to_int (int_to_bytes x) = x"
proof -
  have top: "(0 :: 64 word) = drop_bit (8 + 56) x" by (rule bit_word_eqI) (auto simp: bit_simps dest: bit_imp_le_length)
  have "bytes_to_int (int_to_bytes x) = foldl (\<lambda>r i. push_bit 8 r OR take_bit 8 (drop_bit (8 * i) x)) (drop_bit (8 + 56) x) [7, 6, 5, 4, 3, 2, 1, 0]"
    unfolding bytes_to_int_def int_to_bytes_eq INT_BYTES_def top [symmetric]
    by (simp add: low_byte)
  also have "\<dots> = x"
    using byte_step [of 56 x] byte_step [of 48 x] byte_step [of 40 x] byte_step [of 32 x] byte_step [of 24 x]
      byte_step [of 16 x] byte_step [of 8 x] byte_step [of 0 x] by simp
  finally show ?thesis .
qed

section \<open>What reads deliver\<close>

text \<open>The bytes a sequence of reads delivers before it ends or fails.\<close>

fun bytes_of :: "rd_event list \<Rightarrow> string" where
  "bytes_of (Again # evs) = bytes_of evs"
| "bytes_of (Data (c # cs) # evs) = (c # cs) @ bytes_of evs"
| "bytes_of evs = []"

end
