(* ===== verification/Tetrissh.thy ===== *)
theory Tetrissh
  imports Bytes
begin

text \<open>
  The secure channel of \<^verbatim>\<open>src/src/libtetrissh\<close>: byte transport and sealing of messages
  (\<^verbatim>\<open>common.c\<close>), the handshake of both sides and the traffic frames (\<^verbatim>\<open>tetrissh.c\<close>). A socket is
  the events its reads and writes meet and the bytes written so far. OpenSSL is the record
  \<open>ossl\<close> of the operations the code calls, each without a result when the library reports an
  error; what \<^verbatim>\<open>RAND_bytes\<close> returns is an argument. The locale \<open>openssl\<close> names what the code
  relies on.
\<close>

section \<open>Sockets\<close>

record sock =
  sk_in :: "rd_event list"
  sk_evs :: "wr_event list"
  sk_sent :: string

text \<open>\<^verbatim>\<open>recv\<close> is asked for at most 1024 bytes at a time; any error or end of file ends the loop.\<close>

function recv_loop :: "nat \<Rightarrow> string \<Rightarrow> rd_event list \<Rightarrow> string option \<times> rd_event list" where
  "recv_loop len got evs =
     (if len = 0 then (Some got, evs)
      else case evs of
             Data (c # cs) # evs \<Rightarrow>
               let chunk = min len 1024; n = min chunk (Suc (length cs))
               in recv_loop (len - n) (got @ take n (c # cs))
                    (if n < Suc (length cs) then Data (drop n (c # cs)) # evs else evs)
           | _ \<Rightarrow> (None, tl evs))"
  by pat_completeness auto
termination by (relation "measure (\<lambda>(n, got, evs). n)") auto

declare recv_loop.simps [simp del]

definition read_bytes :: "nat \<Rightarrow> sock \<Rightarrow> string option \<times> sock" where
  "read_bytes len sk = (case recv_loop len [] (sk_in sk) of (r, evs) \<Rightarrow> (r, sk\<lparr>sk_in := evs\<rparr>))"

fun send_loop :: "string \<Rightarrow> wr_event list \<Rightarrow> bool \<times> string \<times> wr_event list" where
  "send_loop [] evs = (True, [], evs)"
| "send_loop (b # bs) (Took (Suc n) # evs) =
     (case send_loop (drop n bs) evs of (ok, sent, es) \<Rightarrow> (ok, b # take n bs @ sent, es))"
| "send_loop (b # bs) evs = (False, [], tl evs)"

definition send_all :: "string \<Rightarrow> sock \<Rightarrow> bool \<times> sock" where
  "send_all buf sk =
     (case send_loop buf (sk_evs sk) of (ok, sent, evs) \<Rightarrow> (ok, sk\<lparr>sk_evs := evs, sk_sent := sk_sent sk @ sent\<rparr>))"

definition send_int :: "64 word \<Rightarrow> sock \<Rightarrow> bool \<times> sock" where
  "send_int value sk = send_all (int_to_bytes value) sk"

definition send_u32 :: "32 word \<Rightarrow> sock \<Rightarrow> bool \<times> sock" where
  "send_u32 value sk = send_all (be32 value) sk"

definition read_u32 :: "sock \<Rightarrow> 32 word option \<times> sock" where
  "read_u32 sk = (case read_bytes 4 sk of (None, sk) \<Rightarrow> (None, sk) | (Some buf, sk) \<Rightarrow> (Some (be32_val buf), sk))"

section \<open>Sealing a message\<close>

record ('pub, 'priv, 'cert) ossl =
  o_cert_bytes :: "string \<Rightarrow> 'cert option"
  o_cert_file :: "string \<Rightarrow> 'cert option"
  o_verify_cert :: "'cert \<Rightarrow> 'cert \<Rightarrow> bool"
  o_pubkey :: "'cert \<Rightarrow> 'pub option"
  o_pss_sign :: "nat \<Rightarrow> 'priv \<Rightarrow> string \<Rightarrow> string option"
  o_pss_verify :: "'pub \<Rightarrow> string \<Rightarrow> string \<Rightarrow> bool"
  o_oaep_encrypt :: "nat \<Rightarrow> 'pub \<Rightarrow> string \<Rightarrow> string option"
  o_oaep_decrypt :: "'priv \<Rightarrow> string \<Rightarrow> string option"
  o_aes_encrypt :: "string \<Rightarrow> string \<Rightarrow> string \<Rightarrow> string option"
  o_aes_decrypt :: "string \<Rightarrow> string \<Rightarrow> string \<Rightarrow> string option"
  o_hmac :: "string \<Rightarrow> string \<Rightarrow> string option"

definition AES_IV_LEN :: nat where "AES_IV_LEN = 16"
definition AES_BLOCK :: nat where "AES_BLOCK = 16"
definition HMAC_KEY_LEN :: nat where "HMAC_KEY_LEN = 16"
definition HMAC_LEN :: nat where "HMAC_LEN = 32"
definition SESSION_KEY_LEN :: nat where "SESSION_KEY_LEN = 32"
definition RSA_KEY_BYTES :: nat where "RSA_KEY_BYTES = 128"

lemmas seal_lens = AES_IV_LEN_def AES_BLOCK_def HMAC_KEY_LEN_def HMAC_LEN_def SESSION_KEY_LEN_def RSA_KEY_BYTES_def

definition session_encrypt :: "('pub, 'priv, 'cert) ossl \<Rightarrow> string option \<Rightarrow> string \<Rightarrow> string \<Rightarrow> string option" where
  "session_encrypt X iv key plain =
     (case iv of
        None \<Rightarrow> None
      | Some iv \<Rightarrow>
          (case o_aes_encrypt X (drop HMAC_KEY_LEN key) iv plain of
             None \<Rightarrow> None
           | Some ct \<Rightarrow>
               (case o_hmac X (take HMAC_KEY_LEN key) (iv @ ct) of
                  None \<Rightarrow> None
                | Some mac \<Rightarrow> Some (iv @ ct @ mac))))"

definition session_decrypt :: "('pub, 'priv, 'cert) ossl \<Rightarrow> string \<Rightarrow> string \<Rightarrow> string option" where
  "session_decrypt X key token =
     (if length token < AES_IV_LEN + AES_BLOCK + HMAC_LEN then None
      else let ct_len = length token - AES_IV_LEN - HMAC_LEN;
               iv = take AES_IV_LEN token;
               ct = take ct_len (drop AES_IV_LEN token);
               hmac_received = drop (AES_IV_LEN + ct_len) token
           in case o_hmac X (take HMAC_KEY_LEN key) (take (AES_IV_LEN + ct_len) token) of
                None \<Rightarrow> None
              | Some hmac_computed \<Rightarrow>
                  if hmac_computed \<noteq> hmac_received then None
                  else o_aes_decrypt X (drop HMAC_KEY_LEN key) iv ct)"

definition verify_server_cert :: "('pub, 'priv, 'cert) ossl \<Rightarrow> 'cert \<Rightarrow> string \<Rightarrow> bool" where
  "verify_server_cert X server_cert ca_path =
     (case o_cert_file X ca_path of None \<Rightarrow> False | Some ca \<Rightarrow> o_verify_cert X ca server_cert)"

definition verify_message_pss :: "('pub, 'priv, 'cert) ossl \<Rightarrow> 'cert \<Rightarrow> string \<Rightarrow> string \<Rightarrow> bool" where
  "verify_message_pss X cert sig msg =
     (case o_pubkey X cert of None \<Rightarrow> False | Some pub \<Rightarrow> o_pss_verify X pub sig msg)"

section \<open>The handshake\<close>

datatype session_err =
  SESSION_OK | SESSION_ERR_IO | SESSION_ERR_AUTH | SESSION_ERR_CRYPTO | SESSION_ERR_TOOBIG | SESSION_ERR_PROTO |
  SESSION_ERR_NOSPACE

record session =
  ss_key :: string
  ss_established :: bool
  ss_recv_dead :: bool

definition session0 :: session where
  "session0 = \<lparr>ss_key = replicate SESSION_KEY_LEN NUL, ss_established = False, ss_recv_dead = False\<rparr>"

definition SESSION_MAX_FRAME :: nat where "SESSION_MAX_FRAME = 64 * 1024"
definition TSSH_MAX_NONCE_LEN :: nat where "TSSH_MAX_NONCE_LEN = 64"
definition TSSH_MAX_SIG_LEN :: nat where "TSSH_MAX_SIG_LEN = 512"
definition TSSH_MAX_CERT_LEN :: nat where "TSSH_MAX_CERT_LEN = 8192"

text \<open>
  A field of the handshake: eight bytes of length, then the bytes. \<open>bad\<close> is the check on the
  announced length.
\<close>

definition send_field :: "string \<Rightarrow> sock \<Rightarrow> bool \<times> sock" where
  "send_field bs sk =
     (case send_int (word_of_nat (length bs)) sk of (ok, sk) \<Rightarrow> if \<not> ok then (False, sk) else send_all bs sk)"

definition read_field :: "(nat \<Rightarrow> bool) \<Rightarrow> sock \<Rightarrow> (session_err + string) \<times> sock" where
  "read_field bad sk =
     (case read_bytes INT_BYTES sk of
        (None, sk) \<Rightarrow> (Inl SESSION_ERR_IO, sk)
      | (Some len_buf, sk) \<Rightarrow>
          let len = unat (bytes_to_int len_buf)
          in if bad len then (Inl SESSION_ERR_PROTO, sk)
             else case read_bytes len sk of
                    (None, sk) \<Rightarrow> (Inl SESSION_ERR_IO, sk)
                  | (Some bs, sk) \<Rightarrow> (Inr bs, sk))"

text \<open>The random values of one handshake: nonce, session key and the coins of the RSA padding.\<close>

record draws =
  dr_nonce :: "string option"
  dr_key :: "string option"
  dr_coin :: nat

definition send_session_key ::
    "('pub, 'priv, 'cert) ossl \<Rightarrow> draws \<Rightarrow> 'cert \<Rightarrow> sock \<Rightarrow> session_err \<times> session \<times> sock" where
  "send_session_key X R server_cert sk =
     (case o_pubkey X server_cert of
        None \<Rightarrow> (SESSION_ERR_CRYPTO, session0, sk)
      | Some server_pub \<Rightarrow>
          (case dr_key R of
             None \<Rightarrow> (SESSION_ERR_CRYPTO, session0, sk)
           | Some session_key \<Rightarrow>
               (case o_oaep_encrypt X (dr_coin R) server_pub session_key of
                  None \<Rightarrow> (SESSION_ERR_CRYPTO, session0, sk)
                | Some sym_key \<Rightarrow>
                    (case send_field sym_key sk of
                       (ok, sk) \<Rightarrow>
                         if \<not> ok then (SESSION_ERR_IO, session0, sk)
                         else (SESSION_OK, session0\<lparr>ss_key := session_key, ss_established := True\<rparr>, sk)))))"

definition check_server ::
    "('pub, 'priv, 'cert) ossl \<Rightarrow> draws \<Rightarrow> string \<Rightarrow> string \<Rightarrow> sock \<Rightarrow> session_err \<times> session \<times> sock" where
  "check_server X R ca_path nonce sk =
     (case read_field (\<lambda>n. n = 0 \<or> TSSH_MAX_SIG_LEN < n) sk of
        (Inl e, sk) \<Rightarrow> (e, session0, sk)
      | (Inr signed_nonce, sk) \<Rightarrow>
     (case read_field (\<lambda>n. n = 0 \<or> TSSH_MAX_CERT_LEN < n) sk of
        (Inl e, sk) \<Rightarrow> (e, session0, sk)
      | (Inr cert_buf, sk) \<Rightarrow>
     (case o_cert_bytes X cert_buf of
        None \<Rightarrow> (SESSION_ERR_AUTH, session0, sk)
      | Some server_cert \<Rightarrow>
     if \<not> verify_server_cert X server_cert ca_path then (SESSION_ERR_AUTH, session0, sk)
     else if \<not> verify_message_pss X server_cert signed_nonce nonce then (SESSION_ERR_AUTH, session0, sk)
     else send_session_key X R server_cert sk)))"

definition session_connect ::
    "('pub, 'priv, 'cert) ossl \<Rightarrow> draws \<Rightarrow> string \<Rightarrow> sock \<Rightarrow> session_err \<times> session \<times> sock" where
  "session_connect X R ca_path sk =
     (case dr_nonce R of
        None \<Rightarrow> (SESSION_ERR_CRYPTO, session0, sk)
      | Some nonce \<Rightarrow>
          (case send_field nonce sk of
             (ok, sk) \<Rightarrow> if \<not> ok then (SESSION_ERR_IO, session0, sk) else check_server X R ca_path nonce sk))"

definition recv_session_key :: "('pub, 'priv, 'cert) ossl \<Rightarrow> 'priv \<Rightarrow> sock \<Rightarrow> session_err \<times> session \<times> sock" where
  "recv_session_key X priv sk =
     (case read_field (\<lambda>n. n \<noteq> RSA_KEY_BYTES) sk of
        (Inl e, sk) \<Rightarrow> (e, session0, sk)
      | (Inr symkey_buf, sk) \<Rightarrow>
          (case o_oaep_decrypt X priv symkey_buf of
             None \<Rightarrow> (SESSION_ERR_CRYPTO, session0, sk)
           | Some key_buf \<Rightarrow>
               if length key_buf \<noteq> SESSION_KEY_LEN then (SESSION_ERR_CRYPTO, session0, sk)
               else (SESSION_OK, session0\<lparr>ss_key := key_buf, ss_established := True\<rparr>, sk)))"

text \<open>\<open>cert_file\<close> is what the certificate file holds, if it can be opened and read.\<close>

definition session_accept ::
    "('pub, 'priv, 'cert) ossl \<Rightarrow> nat \<Rightarrow> 'priv \<Rightarrow> string option \<Rightarrow> sock \<Rightarrow> session_err \<times> session \<times> sock" where
  "session_accept X coin priv cert_file sk =
     (case read_field (\<lambda>n. n = 0 \<or> TSSH_MAX_NONCE_LEN < n) sk of
        (Inl e, sk) \<Rightarrow> (e, session0, sk)
      | (Inr nonce, sk) \<Rightarrow>
     (case o_pss_sign X coin priv nonce of
        None \<Rightarrow> (SESSION_ERR_CRYPTO, session0, sk)
      | Some signed_nonce \<Rightarrow>
     (case send_field signed_nonce sk of
        (ok, sk) \<Rightarrow>
     if \<not> ok then (SESSION_ERR_IO, session0, sk)
     else
     (case cert_file of
        None \<Rightarrow> (SESSION_ERR_IO, session0, sk)
      | Some cert_data \<Rightarrow>
     if cert_data = [] then (SESSION_ERR_IO, session0, sk)
     else
     (case send_field cert_data sk of
        (ok, sk) \<Rightarrow> if \<not> ok then (SESSION_ERR_IO, session0, sk) else recv_session_key X priv sk)))))"

section \<open>Traffic\<close>

definition session_send ::
    "('pub, 'priv, 'cert) ossl \<Rightarrow> string option \<Rightarrow> session \<Rightarrow> string \<Rightarrow> sock \<Rightarrow> session_err \<times> sock" where
  "session_send X iv s buf sk =
     (if \<not> ss_established s then (SESSION_ERR_PROTO, sk)
      else if SESSION_MAX_FRAME < length buf then (SESSION_ERR_TOOBIG, sk)
      else case session_encrypt X iv (ss_key s) buf of
             None \<Rightarrow> (SESSION_ERR_CRYPTO, sk)
           | Some message \<Rightarrow>
               if SESSION_MAX_FRAME < length message then (SESSION_ERR_TOOBIG, sk)
               else case send_u32 (word_of_nat (length message)) sk of
                      (ok, sk) \<Rightarrow>
                        if \<not> ok then (SESSION_ERR_IO, sk)
                        else case send_all message sk of
                               (ok, sk) \<Rightarrow> (if ok then SESSION_OK else SESSION_ERR_IO, sk))"

definition session_recv ::
    "('pub, 'priv, 'cert) ossl \<Rightarrow> nat \<Rightarrow> session \<Rightarrow> sock \<Rightarrow> (session_err \<times> string) \<times> session \<times> sock" where
  "session_recv X cap s sk =
     (if \<not> ss_established s \<or> ss_recv_dead s then ((SESSION_ERR_PROTO, []), s, sk)
      else case read_u32 sk of
             (None, sk) \<Rightarrow> ((SESSION_ERR_IO, []), s, sk)
           | (Some token_len, sk) \<Rightarrow>
               if SESSION_MAX_FRAME < unat token_len
               then ((SESSION_ERR_TOOBIG, []), s\<lparr>ss_recv_dead := True\<rparr>, sk)
               else case read_bytes (unat token_len) sk of
                      (None, sk) \<Rightarrow> ((SESSION_ERR_IO, []), s, sk)
                    | (Some token, sk) \<Rightarrow>
                        (case session_decrypt X (ss_key s) token of
                           None \<Rightarrow> ((SESSION_ERR_CRYPTO, []), s, sk)
                         | Some plain \<Rightarrow>
                             if cap < length plain then ((SESSION_ERR_NOSPACE, []), s, sk)
                             else ((SESSION_OK, plain), s, sk)))"

definition session_close :: "session \<Rightarrow> session" where
  "session_close s = s\<lparr>ss_key := replicate SESSION_KEY_LEN NUL, ss_established := False\<rparr>"


section \<open>Lemmas on the transport\<close>

text \<open>\<^verbatim>\<open>read_bytes\<close> does not retry an interrupted call: it sees the bytes before the first event that brings none.\<close>

fun plain_bytes :: "rd_event list \<Rightarrow> string" where
  "plain_bytes (Data (c # cs) # evs) = (c # cs) @ plain_bytes evs"
| "plain_bytes evs = []"

lemma recv_loop_spec:
  "recv_loop n got evs = (r, evs') \<Longrightarrow>
     (if n \<le> length (plain_bytes evs)
      then r = Some (got @ take n (plain_bytes evs)) \<and> plain_bytes evs' = drop n (plain_bytes evs)
      else r = None)"
proof (induction n got evs arbitrary: r evs' rule: recv_loop.induct)
  case (1 n got evs)
  show ?case
  proof (cases "n = 0")
    case True
    with "1.prems" show ?thesis by (simp add: recv_loop.simps)
  next
    case False
    show ?thesis
    proof (cases evs rule: plain_bytes.cases)
      case (1 c cs es)
      let ?n = "min (min n 1024) (Suc (length cs))"
      let ?evs = "if ?n < Suc (length cs) then Data (drop ?n (c # cs)) # es else es"
      have b: "plain_bytes ?evs = drop ?n (plain_bytes evs)"
      proof (cases "?n < Suc (length cs)")
        case True
        then obtain d ds where d: "drop ?n (c # cs) = d # ds" by (cases "drop ?n (c # cs)") auto
        from True have "plain_bytes ?evs = drop ?n (c # cs) @ plain_bytes es" by (simp only: d if_True plain_bytes.simps)
        also have "\<dots> = drop ?n (plain_bytes evs)" unfolding 1 plain_bytes.simps drop_append by simp
        finally show ?thesis .
      next
        case False
        then have "?n = length (c # cs)" by simp
        with False show ?thesis unfolding 1 plain_bytes.simps drop_append by simp
      qed
      have t: "take ?n (c # cs) = take ?n (plain_bytes evs)" unfolding 1 plain_bytes.simps take_append by simp
      have l: "Suc (length cs) \<le> length (plain_bytes evs)" by (simp add: 1)
      have run: "recv_loop (n - ?n) (got @ take ?n (c # cs)) ?evs = (r, evs')"
        using "1.prems" False 1 by (subst (asm) recv_loop.simps) (simp add: Let_def)
      from "1.IH" [OF False 1 refl refl refl refl run] show ?thesis
        unfolding b t using False l by (auto simp: take_add [symmetric] le_diff_conv2 min_def split: if_splits)
    qed (use "1.prems" False in \<open>auto simp: recv_loop.simps\<close>)
  qed
qed


lemma read_bytes_spec:
  "read_bytes n sk = (r, sk') \<Longrightarrow>
     sk_evs sk' = sk_evs sk \<and> sk_sent sk' = sk_sent sk \<and>
     (if n \<le> length (plain_bytes (sk_in sk))
      then r = Some (take n (plain_bytes (sk_in sk))) \<and> plain_bytes (sk_in sk') = drop n (plain_bytes (sk_in sk))
      else r = None)"
  using recv_loop_spec [of n "[]" "sk_in sk"] by (auto simp: read_bytes_def split: prod.splits)

lemma read_bytes_ok:
  assumes "plain_bytes (sk_in sk) = bs @ rest" "n = length bs"
  shows "\<exists>sk'. read_bytes n sk = (Some bs, sk') \<and> plain_bytes (sk_in sk') = rest \<and>
    sk_evs sk' = sk_evs sk \<and> sk_sent sk' = sk_sent sk"
proof -
  obtain r sk' where r: "read_bytes n sk = (r, sk')" by (metis prod.exhaust)
  from read_bytes_spec [OF r] assms show ?thesis using r by (intro exI [of _ sk']) simp
qed

lemma send_loop_spec: "send_loop bs evs = (ok, sent, evs') \<Longrightarrow> \<exists>r. bs = sent @ r \<and> (ok \<longleftrightarrow> r = [])"
proof (induction bs evs arbitrary: ok sent evs' rule: send_loop.induct)
  case (2 b bs n evs)
  obtain ok1 s1 e1 where r: "send_loop (drop n bs) evs = (ok1, s1, e1)" by (metis prod.exhaust)
  from "2.IH" [OF r] obtain t where t: "drop n bs = s1 @ t" "ok1 \<longleftrightarrow> t = []" by blast
  from "2.prems" r have "ok = ok1" "sent = b # take n bs @ s1" by auto
  with t show ?case by (metis append.assoc append_Cons append_take_drop_id)
qed auto

lemma send_all_spec:
  assumes "send_all bs sk = (ok, sk')"
  shows "\<exists>sent r. bs = sent @ r \<and> (ok \<longleftrightarrow> r = []) \<and> sk_sent sk' = sk_sent sk @ sent \<and> sk_in sk' = sk_in sk"
proof -
  obtain ok1 sent evs where l: "send_loop bs (sk_evs sk) = (ok1, sent, evs)" by (metis prod.exhaust)
  from send_loop_spec [OF l] assms l show ?thesis by (auto simp: send_all_def)
qed

text \<open>Writes that take at least one byte each go through.\<close>

definition writes_ready :: "nat \<Rightarrow> wr_event list \<Rightarrow> bool" where
  "writes_ready n evs \<longleftrightarrow> n \<le> length evs \<and> list_all (\<lambda>e. \<exists>k. e = Took (Suc k)) (take n evs)"

lemma ready_tl: "writes_ready (Suc n) evs \<Longrightarrow> \<exists>k es. evs = Took (Suc k) # es \<and> writes_ready n es"
  by (cases evs) (auto simp: writes_ready_def)

lemma ready_mono: "writes_ready n evs \<Longrightarrow> m \<le> n \<Longrightarrow> writes_ready m evs"
  unfolding writes_ready_def list_all_iff by (meson le_trans set_take_subset_set_take subsetD)

lemma send_loop_ready:
  "writes_ready (length bs + m) evs \<Longrightarrow> \<exists>evs'. send_loop bs evs = (True, bs, evs') \<and> writes_ready m evs'"
proof (induction "length bs" arbitrary: bs evs rule: less_induct)
  case less
  show ?case
  proof (cases bs)
    case Nil
    with less.prems show ?thesis by simp
  next
    case (Cons b r)
    with less.prems obtain k es where es: "evs = Took (Suc k) # es" "writes_ready (length r + m) es"
      using ready_tl by fastforce
    have "writes_ready (length (drop k r) + m) es" by (rule ready_mono [OF es(2)]) simp
    moreover have "length (drop k r) < length bs" using Cons by simp
    ultimately obtain evs' where "send_loop (drop k r) es = (True, drop k r, evs')" "writes_ready m evs'"
      using less.hyps by blast
    with Cons es(1) show ?thesis by simp
  qed
qed

lemma send_all_ready:
  assumes "writes_ready (length bs + m) (sk_evs sk)"
  shows "\<exists>sk'. send_all bs sk = (True, sk') \<and> writes_ready m (sk_evs sk') \<and> sk_sent sk' = sk_sent sk @ bs \<and> sk_in sk' = sk_in sk"
  using send_loop_ready [OF assms] by (auto simp: send_all_def)

section \<open>What the code relies on\<close>

text \<open>
  \<open>pairs\<close> relates the two halves of a 1024-bit RSA key pair, the size the handshake is written
  for. CBC with PKCS7 padding adds between one byte and a whole block.
\<close>

locale openssl =
  fixes X :: "('pub, 'priv, 'cert) ossl" and pairs :: "'pub \<Rightarrow> 'priv \<Rightarrow> bool"
  assumes aes_encrypt: "length k = 16 \<Longrightarrow> length iv = 16 \<Longrightarrow> length p < 2 ^ 31 \<Longrightarrow>
      \<exists>c. o_aes_encrypt X k iv p = Some c \<and> length c = 16 * (length p div 16 + 1) \<and> o_aes_decrypt X k iv c = Some p"
    and hmac: "length k = 16 \<Longrightarrow> \<exists>d. o_hmac X k m = Some d \<and> length d = 32"
    and pss: "pairs pub priv \<Longrightarrow> \<exists>s. o_pss_sign X coin priv m = Some s \<and> s \<noteq> [] \<and> length s \<le> 512 \<and> o_pss_verify X pub s m"
    and oaep: "pairs pub priv \<Longrightarrow> length m = 32 \<Longrightarrow>
      \<exists>c. o_oaep_encrypt X coin pub m = Some c \<and> length c = 128 \<and> o_oaep_decrypt X priv c = Some m"
begin

lemma seal_opens:
  assumes "length key = 32" "length iv = 16" "length p < 2 ^ 31"
  shows "\<exists>t. session_encrypt X (Some iv) key p = Some t \<and> length t = 64 + 16 * (length p div 16) \<and>
    session_decrypt X key t = Some p"
proof -
  have k: "length (drop 16 key) = 16" "length (take 16 key) = 16" using assms(1) by simp_all
  from aes_encrypt [OF k(1) assms(2,3)] obtain c where
    c: "o_aes_encrypt X (drop 16 key) iv p = Some c" "length c = 16 * (length p div 16 + 1)"
      "o_aes_decrypt X (drop 16 key) iv c = Some p" by blast
  from hmac [OF k(2)] obtain d where d: "o_hmac X (take 16 key) (iv @ c) = Some d" "length d = 32" by blast
  have e: "session_encrypt X (Some iv) key p = Some (iv @ c @ d)"
    by (simp add: session_encrypt_def HMAC_KEY_LEN_def c d)
  have "session_decrypt X key (iv @ c @ d) = Some p"
    using assms(2) c(2) d(2) by (simp add: session_decrypt_def seal_lens Let_def d(1) c(3))
  with e c(2) d(2) assms(2) show ?thesis by simp
qed

end

section \<open>Frames on the wire\<close>

definition sealed_frame :: "string \<Rightarrow> string" where
  "sealed_frame token = be32 (word_of_nat (length token)) @ token"

lemma session_send_sent:
  assumes "session_send X iv s buf sk = (SESSION_OK, sk')"
  shows "\<exists>m. session_encrypt X iv (ss_key s) buf = Some m \<and> length m \<le> SESSION_MAX_FRAME \<and>
    sk_sent sk' = sk_sent sk @ sealed_frame m \<and> sk_in sk' = sk_in sk"
proof -
  from assms obtain m where m: "ss_established s" "session_encrypt X iv (ss_key s) buf = Some m" "length m \<le> SESSION_MAX_FRAME"
    by (auto simp: session_send_def split: if_splits option.splits)
  obtain ok1 sk1 where s1: "send_u32 (word_of_nat (length m)) sk = (ok1, sk1)" by (metis prod.exhaust)
  obtain ok2 sk2 where s2: "send_all m sk1 = (ok2, sk2)" by (metis prod.exhaust)
  from assms m s1 s2 have ok: "ok1" "ok2" "sk' = sk2" by (auto simp: session_send_def split: if_splits)
  from send_all_spec [OF s1 [unfolded send_u32_def]] send_all_spec [OF s2] ok m show ?thesis
    by (auto simp: sealed_frame_def)
qed

lemma session_send_ready:
  assumes "ss_established s" "session_encrypt X iv (ss_key s) buf = Some m" "length m \<le> SESSION_MAX_FRAME"
    "length buf \<le> SESSION_MAX_FRAME" "writes_ready (4 + length m + n) (sk_evs sk)"
  shows "\<exists>sk'. session_send X iv s buf sk = (SESSION_OK, sk') \<and> writes_ready n (sk_evs sk') \<and>
    sk_sent sk' = sk_sent sk @ sealed_frame m \<and> sk_in sk' = sk_in sk"
proof -
  have "writes_ready (length (be32 (word_of_nat (length m))) + (length m + n)) (sk_evs sk)" using assms(5) by (simp add: add.assoc)
  from send_all_ready [OF this] obtain sk1 where s1: "send_all (be32 (word_of_nat (length m))) sk = (True, sk1)"
    "writes_ready (length m + n) (sk_evs sk1)" "sk_sent sk1 = sk_sent sk @ be32 (word_of_nat (length m))" "sk_in sk1 = sk_in sk" by blast
  from send_all_ready [OF s1(2)] obtain sk2 where s2: "send_all m sk1 = (True, sk2)" "writes_ready n (sk_evs sk2)"
    "sk_sent sk2 = sk_sent sk1 @ m" "sk_in sk2 = sk_in sk1" by blast
  from assms(1-4) s1 s2 show ?thesis by (auto simp: session_send_def send_u32_def sealed_frame_def)
qed

lemma frame_len: "n \<le> SESSION_MAX_FRAME \<Longrightarrow> unat (word_of_nat n :: 32 word) = n"
  by (simp add: SESSION_MAX_FRAME_def unat_of_nat)

lemma session_recv_frame:
  assumes "ss_established s" "\<not> ss_recv_dead s" "plain_bytes (sk_in sk) = sealed_frame token @ rest"
    "length token \<le> SESSION_MAX_FRAME" "session_decrypt X (ss_key s) token = Some plain" "length plain \<le> cap"
  shows "\<exists>sk'. session_recv X cap s sk = ((SESSION_OK, plain), s, sk') \<and> plain_bytes (sk_in sk') = rest \<and>
    sk_evs sk' = sk_evs sk \<and> sk_sent sk' = sk_sent sk"
proof -
  have "plain_bytes (sk_in sk) = be32 (word_of_nat (length token)) @ token @ rest" using assms(3) by (simp add: sealed_frame_def)
  from read_bytes_ok [OF this, of 4] obtain sk1 where s1: "read_bytes 4 sk = (Some (be32 (word_of_nat (length token))), sk1)"
    "plain_bytes (sk_in sk1) = token @ rest" "sk_evs sk1 = sk_evs sk" "sk_sent sk1 = sk_sent sk" by auto
  from read_bytes_ok [OF s1(2) refl] obtain sk2 where s2: "read_bytes (length token) sk1 = (Some token, sk2)"
    "plain_bytes (sk_in sk2) = rest" "sk_evs sk2 = sk_evs sk1" "sk_sent sk2 = sk_sent sk1" by auto
  from assms s1 s2 show ?thesis by (simp add: session_recv_def read_u32_def frame_len)
qed

lemma session_recv_authentic:
  assumes "session_recv X cap s sk = ((SESSION_OK, plain), s', sk')"
  shows "s' = s \<and> ss_established s \<and> \<not> ss_recv_dead s \<and> length plain \<le> cap \<and>
    (\<exists>token. plain_bytes (sk_in sk) = sealed_frame token @ plain_bytes (sk_in sk') \<and> length token \<le> SESSION_MAX_FRAME \<and>
       session_decrypt X (ss_key s) token = Some plain)"
proof -
  obtain r1 sk1 where s1: "read_bytes 4 sk = (r1, sk1)" by (metis prod.exhaust)
  from assms s1 obtain b where b: "ss_established s" "\<not> ss_recv_dead s" "r1 = Some b"
    by (cases r1) (auto simp: session_recv_def read_u32_def split: if_splits)
  obtain r2 sk2 where s2: "read_bytes (unat (be32_val b)) sk1 = (r2, sk2)" by (metis prod.exhaust)
  from assms s1 s2 b obtain token where t: "r2 = Some token" "session_decrypt X (ss_key s) token = Some plain"
    "unat (be32_val b) \<le> SESSION_MAX_FRAME" "length plain \<le> cap" "s' = s" "sk' = sk2"
    by (cases r2) (auto simp: session_recv_def read_u32_def split: if_splits option.splits)
  from read_bytes_spec [OF s1] b(3) have p: "b = take 4 (plain_bytes (sk_in sk))" "4 \<le> length (plain_bytes (sk_in sk))"
    "plain_bytes (sk_in sk1) = drop 4 (plain_bytes (sk_in sk))" by (auto split: if_splits)
  from read_bytes_spec [OF s2] t(1) have q: "token = take (unat (be32_val b)) (plain_bytes (sk_in sk1))"
    "unat (be32_val b) \<le> length (plain_bytes (sk_in sk1))"
    "plain_bytes (sk_in sk2) = drop (unat (be32_val b)) (plain_bytes (sk_in sk1))" by (auto split: if_splits)
  have len: "length token = unat (be32_val b)" using q(1,2) by simp
  have "be32 (word_of_nat (length token)) = b" unfolding len using p(1,2) by (simp add: be32_be32_val)
  then have "plain_bytes (sk_in sk) = sealed_frame token @ plain_bytes (sk_in sk2)"
    using p q unfolding sealed_frame_def by (metis append.assoc append_take_drop_id)
  with b t len show ?thesis by auto
qed


section \<open>The two sides of a handshake\<close>

definition hs_field :: "string \<Rightarrow> string" where
  "hs_field bs = int_to_bytes (word_of_nat (length bs)) @ bs"

lemma field_nonempty [simp]: "hs_field bs \<noteq> []"
  by (simp add: hs_field_def int_to_bytes_eq)

lemma plain_bytes_one: "bs \<noteq> [] \<Longrightarrow> plain_bytes [Data bs] = bs"
  by (cases bs) simp_all

lemma send_field_spec:
  assumes "send_field bs sk = (ok, sk')"
  shows "\<exists>sent r. hs_field bs = sent @ r \<and> (ok \<longleftrightarrow> r = []) \<and> sk_sent sk' = sk_sent sk @ sent \<and> sk_in sk' = sk_in sk"
proof -
  obtain ok1 sk1 where s1: "send_all (int_to_bytes (word_of_nat (length bs))) sk = (ok1, sk1)" by (metis prod.exhaust)
  from send_all_spec [OF s1] obtain sent1 r1 where 1: "int_to_bytes (word_of_nat (length bs)) = sent1 @ r1" "ok1 \<longleftrightarrow> r1 = []"
    "sk_sent sk1 = sk_sent sk @ sent1" "sk_in sk1 = sk_in sk" by blast
  show ?thesis
  proof (cases ok1)
    case True
    with assms s1 have "send_all bs sk1 = (ok, sk')" by (simp add: send_field_def send_int_def)
    from send_all_spec [OF this] 1 True show ?thesis by (auto simp: hs_field_def)
  next
    case False
    with assms s1 have "\<not> ok" "sk' = sk1" by (auto simp: send_field_def send_int_def)
    with 1 False show ?thesis by (intro exI [of _ sent1] exI [of _ "r1 @ bs"]) (auto simp: hs_field_def)
  qed
qed

lemma send_field_ready:
  assumes "writes_ready (8 + length bs + n) (sk_evs sk)"
  shows "\<exists>sk'. send_field bs sk = (True, sk') \<and> writes_ready n (sk_evs sk') \<and> sk_sent sk' = sk_sent sk @ hs_field bs \<and> sk_in sk' = sk_in sk"
proof -
  have "writes_ready (length (int_to_bytes (word_of_nat (length bs))) + (length bs + n)) (sk_evs sk)" using assms by (simp add: add.assoc)
  from send_all_ready [OF this] obtain sk1 where s1: "send_all (int_to_bytes (word_of_nat (length bs))) sk = (True, sk1)"
    "writes_ready (length bs + n) (sk_evs sk1)" "sk_sent sk1 = sk_sent sk @ int_to_bytes (word_of_nat (length bs))" "sk_in sk1 = sk_in sk"
    by blast
  from send_all_ready [OF s1(2)] s1 show ?thesis by (auto simp: send_field_def send_int_def hs_field_def)
qed

lemma read_field_kept:
  assumes "read_field bad sk = (r, sk')"
  shows "sk_sent sk' = sk_sent sk" "sk_evs sk' = sk_evs sk" "r \<noteq> Inl SESSION_OK"
proof -
  obtain r1 sk1 where b1: "read_bytes INT_BYTES sk = (r1, sk1)" by (metis prod.exhaust)
  obtain r2 sk2 where b2: "read_bytes (unat (bytes_to_int (the r1))) sk1 = (r2, sk2)" by (metis prod.exhaust)
  have s: "(sk' = sk1 \<or> sk' = sk2) \<and> r \<noteq> Inl SESSION_OK"
    using assms b1 b2 by (cases r1; cases r2) (auto simp: read_field_def Let_def split: if_splits)
  have "sk_sent sk1 = sk_sent sk" "sk_evs sk1 = sk_evs sk" using read_bytes_spec [OF b1] by blast+
  moreover have "sk_sent sk2 = sk_sent sk1" "sk_evs sk2 = sk_evs sk1" using read_bytes_spec [OF b2] by blast+
  ultimately show "sk_sent sk' = sk_sent sk" "sk_evs sk' = sk_evs sk" "r \<noteq> Inl SESSION_OK" using s by auto
qed

lemma read_field_ok:
  assumes "plain_bytes (sk_in sk) = hs_field bs @ rest" "\<not> bad (length bs)" "length bs < 2 ^ 64"
  shows "\<exists>sk'. read_field bad sk = (Inr bs, sk') \<and> plain_bytes (sk_in sk') = rest"
proof -
  have "plain_bytes (sk_in sk) = int_to_bytes (word_of_nat (length bs)) @ bs @ rest" using assms(1) by (simp add: hs_field_def)
  from read_bytes_ok [OF this, of 8] obtain sk1 where s1: "read_bytes 8 sk = (Some (int_to_bytes (word_of_nat (length bs))), sk1)"
    "plain_bytes (sk_in sk1) = bs @ rest" by auto
  from read_bytes_ok [OF s1(2) refl] obtain sk2 where s2: "read_bytes (length bs) sk1 = (Some bs, sk2)" "plain_bytes (sk_in sk2) = rest"
    by auto
  have n: "unat (word_of_nat (length bs) :: 64 word) = length bs" using assms(3) by (simp add: unat_of_nat)
  from s1 s2 assms(2) show ?thesis by (simp add: read_field_def INT_BYTES_def n)
qed

text \<open>What the client has checked before the session key leaves it.\<close>

definition trusted_key :: "('pub, 'priv, 'cert) ossl \<Rightarrow> draws \<Rightarrow> string \<Rightarrow> string \<Rightarrow> string \<Rightarrow> string \<Rightarrow> bool" where
  "trusted_key X R ca_path nonce key wrapped \<longleftrightarrow>
     (\<exists>sig cert ca pub. o_cert_file X ca_path = Some ca \<and> o_verify_cert X ca cert \<and> o_pubkey X cert = Some pub \<and>
        o_pss_verify X pub sig nonce \<and> dr_key R = Some key \<and> o_oaep_encrypt X (dr_coin R) pub key = Some wrapped)"

lemma send_session_key_spec:
  assumes "send_session_key X R cert sk = (rc, s, sk')" "verify_server_cert X cert ca" "verify_message_pss X cert sig nonce"
  shows "(rc = SESSION_OK \<longleftrightarrow> ss_established s) \<and> (sk_sent sk' = sk_sent sk \<and> rc \<noteq> SESSION_OK \<or>
    (\<exists>key wrapped sent r. trusted_key X R ca nonce key wrapped \<and> hs_field wrapped = sent @ r \<and> sk_sent sk' = sk_sent sk @ sent \<and>
       (rc = SESSION_OK \<longleftrightarrow> r = []) \<and> (rc = SESSION_OK \<longrightarrow> ss_key s = key)))"
proof -
  from assms(2,3) obtain ca' pub where c: "o_cert_file X ca = Some ca'" "o_verify_cert X ca' cert" "o_pubkey X cert = Some pub"
    "o_pss_verify X pub sig nonce" by (auto simp: verify_server_cert_def verify_message_pss_def split: option.splits)
  show ?thesis
  proof (cases "\<exists>key wrapped. dr_key R = Some key \<and> o_oaep_encrypt X (dr_coin R) pub key = Some wrapped")
    case False
    with assms(1) c show ?thesis by (auto simp: send_session_key_def session0_def split: option.splits)
  next
    case True
    then obtain key wrapped where k: "dr_key R = Some key" "o_oaep_encrypt X (dr_coin R) pub key = Some wrapped" by blast
    obtain ok sk1 where f: "send_field wrapped sk = (ok, sk1)" by (metis prod.exhaust)
    have t: "trusted_key X R ca nonce key wrapped" using c k by (auto simp: trusted_key_def)
    from assms(1) c k f have "rc = (if ok then SESSION_OK else SESSION_ERR_IO)" "sk' = sk1"
      "s = (if ok then session0\<lparr>ss_key := key, ss_established := True\<rparr> else session0)"
      by (auto simp: send_session_key_def split: if_splits)
    with send_field_spec [OF f] t show ?thesis by (auto simp: session0_def split: if_splits)
  qed
qed

lemma check_server_spec:
  assumes "check_server X R ca nonce sk = (rc, s, sk')"
  shows "(rc = SESSION_OK \<longleftrightarrow> ss_established s) \<and> (sk_sent sk' = sk_sent sk \<and> rc \<noteq> SESSION_OK \<or>
    (\<exists>key wrapped sent r. trusted_key X R ca nonce key wrapped \<and> hs_field wrapped = sent @ r \<and> sk_sent sk' = sk_sent sk @ sent \<and>
       (rc = SESSION_OK \<longleftrightarrow> r = []) \<and> (rc = SESSION_OK \<longrightarrow> ss_key s = key)))"
proof -
  obtain r1 sk1 where f1: "read_field (\<lambda>n. n = 0 \<or> TSSH_MAX_SIG_LEN < n) sk = (r1, sk1)" by (metis prod.exhaust)
  obtain r2 sk2 where f2: "read_field (\<lambda>n. n = 0 \<or> TSSH_MAX_CERT_LEN < n) sk1 = (r2, sk2)" by (metis prod.exhaust)
  have sent: "sk_sent sk2 = sk_sent sk" "sk_sent sk1 = sk_sent sk"
    using read_field_kept(1) [OF f1] read_field_kept(1) [OF f2] by simp_all
  note err = read_field_kept(3) [OF f1] read_field_kept(3) [OF f2]
  show ?thesis
  proof (cases "\<exists>sig buf cert. r1 = Inr sig \<and> r2 = Inr buf \<and> o_cert_bytes X buf = Some cert \<and> verify_server_cert X cert ca \<and>
      verify_message_pss X cert sig nonce")
    case True
    then obtain sig buf cert where c: "r1 = Inr sig" "r2 = Inr buf" "o_cert_bytes X buf = Some cert" "verify_server_cert X cert ca"
      "verify_message_pss X cert sig nonce" by blast
    with assms f1 f2 have "send_session_key X R cert sk2 = (rc, s, sk')" by (simp add: check_server_def)
    from send_session_key_spec [OF this c(4,5)] show ?thesis unfolding sent .
  next
    case False
    with assms f1 f2 sent err have "sk_sent sk' = sk_sent sk" "rc \<noteq> SESSION_OK" "s = session0"
      by (auto simp: check_server_def split: sum.splits option.splits if_splits)
    then show ?thesis by (simp add: session0_def)
  qed
qed


context openssl
begin

lemma send_then_recv:
  assumes "length (ss_key s) = 32" "ss_established s" "length iv = 16" "length buf \<le> 65487"
    "writes_ready (68 + length buf + n) (sk_evs sk)"
  shows "\<exists>sk' m. session_send X (Some iv) s buf sk = (SESSION_OK, sk') \<and> sk_sent sk' = sk_sent sk @ sealed_frame m \<and>
    sk_in sk' = sk_in sk \<and> writes_ready n (sk_evs sk') \<and> length m \<le> SESSION_MAX_FRAME \<and> session_decrypt X (ss_key s) m = Some buf"
proof -
  have "length buf < 2 ^ 31" by (rule le_less_trans [OF assms(4)]) simp
  from seal_opens [OF assms(1,3) this] obtain m where m: "session_encrypt X (Some iv) (ss_key s) buf = Some m"
    "length m = 64 + 16 * (length buf div 16)" "session_decrypt X (ss_key s) m = Some buf" by blast
  have le: "16 * (length buf div 16) \<le> length buf" by (rule times_div_less_eq_dividend)
  have "length buf div 16 \<le> 65487 div 16" by (rule div_le_mono [OF assms(4)])
  then have len: "length m \<le> SESSION_MAX_FRAME" by (simp add: m(2) SESSION_MAX_FRAME_def)
  have b: "length buf \<le> SESSION_MAX_FRAME" using assms(4) by (simp add: SESSION_MAX_FRAME_def)
  have r: "writes_ready (4 + length m + n) (sk_evs sk)" by (rule ready_mono [OF assms(5)]) (use le m(2) in simp)
  from session_send_ready [OF assms(2) m(1) len b r] m(3) len show ?thesis by blast
qed

lemma accept_runs:
  assumes "pairs pub priv" "plain_bytes (sk_in sk) = hs_field nonce @ rest" "nonce \<noteq> []" "length nonce \<le> 64"
    "cert \<noteq> []" "writes_ready (528 + length cert) (sk_evs sk)"
  shows "\<exists>sig sk1. o_pss_sign X coin priv nonce = Some sig \<and> sig \<noteq> [] \<and> length sig \<le> 512 \<and> o_pss_verify X pub sig nonce \<and>
    session_accept X coin priv (Some cert) sk = recv_session_key X priv sk1 \<and> plain_bytes (sk_in sk1) = rest \<and>
    sk_sent sk1 = sk_sent sk @ hs_field sig @ hs_field cert"
proof -
  have "length nonce < 2 ^ 64" by (rule le_less_trans [OF assms(4)]) simp
  with assms(2,3,4) obtain sk1 where f1: "read_field (\<lambda>n. n = 0 \<or> TSSH_MAX_NONCE_LEN < n) sk = (Inr nonce, sk1)"
    "plain_bytes (sk_in sk1) = rest"
    using read_field_ok [of sk nonce rest "\<lambda>n. n = 0 \<or> TSSH_MAX_NONCE_LEN < n"] by (auto simp: TSSH_MAX_NONCE_LEN_def)
  from pss [OF assms(1)] obtain sig where sig: "o_pss_sign X coin priv nonce = Some sig" "sig \<noteq> []" "length sig \<le> 512"
    "o_pss_verify X pub sig nonce" by blast
  note kept = read_field_kept [OF f1(1)]
  have "writes_ready (8 + length sig + (8 + length cert + 0)) (sk_evs sk1)"
    by (rule ready_mono [of "528 + length cert"]) (use assms(6) kept sig(3) in simp_all)
  from send_field_ready [OF this] obtain sk2 where f2: "send_field sig sk1 = (True, sk2)" "writes_ready (8 + length cert + 0) (sk_evs sk2)"
    "sk_sent sk2 = sk_sent sk1 @ hs_field sig" "sk_in sk2 = sk_in sk1" by blast
  from send_field_ready [OF f2(2)] obtain sk3 where f3: "send_field cert sk2 = (True, sk3)"
    "sk_sent sk3 = sk_sent sk2 @ hs_field cert" "sk_in sk3 = sk_in sk2" by blast
  have "session_accept X coin priv (Some cert) sk = recv_session_key X priv sk3"
    by (simp add: session_accept_def f1 f2 f3 sig assms(5))
  with sig f1 f2 f3 kept show ?thesis by auto
qed

lemma check_server_runs:
  assumes "plain_bytes (sk_in sk) = hs_field sig @ hs_field cert @ rest" "sig \<noteq> []" "length sig \<le> 512" "cert \<noteq> []" "length cert \<le> 8192"
    "o_cert_bytes X cert = Some c" "verify_server_cert X c ca" "o_pubkey X c = Some pub" "o_pss_verify X pub sig nonce"
    "dr_key R = Some key" "length key = 32" "pairs pub priv" "writes_ready 136 (sk_evs sk)"
  shows "\<exists>wrapped sk'. check_server X R ca nonce sk = (SESSION_OK, session0\<lparr>ss_key := key, ss_established := True\<rparr>, sk') \<and>
    sk_sent sk' = sk_sent sk @ hs_field wrapped \<and> length wrapped = 128 \<and> o_oaep_decrypt X priv wrapped = Some key"
proof -
  have big: "length sig < 2 ^ 64" "length cert < 2 ^ 64" using assms(3,5) by (auto intro: le_less_trans)
  from read_field_ok [OF assms(1) _ big(1), of "\<lambda>n. n = 0 \<or> TSSH_MAX_SIG_LEN < n"] assms(2,3) obtain sk1 where
    f1: "read_field (\<lambda>n. n = 0 \<or> TSSH_MAX_SIG_LEN < n) sk = (Inr sig, sk1)" "plain_bytes (sk_in sk1) = hs_field cert @ rest"
    by (auto simp: TSSH_MAX_SIG_LEN_def)
  from read_field_ok [OF f1(2) _ big(2), of "\<lambda>n. n = 0 \<or> TSSH_MAX_CERT_LEN < n"] assms(4,5) obtain sk2 where
    f2: "read_field (\<lambda>n. n = 0 \<or> TSSH_MAX_CERT_LEN < n) sk1 = (Inr cert, sk2)" by (auto simp: TSSH_MAX_CERT_LEN_def)
  note kept = read_field_kept [OF f1(1)] read_field_kept [OF f2]
  from oaep [OF assms(12,11)] obtain w where w: "o_oaep_encrypt X (dr_coin R) pub key = Some w" "length w = 128"
    "o_oaep_decrypt X priv w = Some key" by blast
  have "writes_ready (8 + length w + 0) (sk_evs sk2)" using assms(13) kept w(2) by simp
  from send_field_ready [OF this] obtain sk3 where f3: "send_field w sk2 = (True, sk3)" "sk_sent sk3 = sk_sent sk2 @ hs_field w" by blast
  have "check_server X R ca nonce sk = (SESSION_OK, session0\<lparr>ss_key := key, ss_established := True\<rparr>, sk3)"
    by (simp add: check_server_def send_session_key_def f1 f2 f3 w assms verify_message_pss_def)
  with w f3 kept show ?thesis by auto
qed

lemma recv_session_key_runs:
  assumes "plain_bytes (sk_in sk) = hs_field wrapped @ rest" "length wrapped = 128" "o_oaep_decrypt X priv wrapped = Some key" "length key = 32"
  shows "\<exists>sk'. recv_session_key X priv sk = (SESSION_OK, session0\<lparr>ss_key := key, ss_established := True\<rparr>, sk') \<and> sk_sent sk' = sk_sent sk"
proof -
  from read_field_ok [OF assms(1), of "\<lambda>n. n \<noteq> RSA_KEY_BYTES"] assms(2) obtain sk' where
    f: "read_field (\<lambda>n. n \<noteq> RSA_KEY_BYTES) sk = (Inr wrapped, sk')" by (auto simp: RSA_KEY_BYTES_def)
  with read_field_kept [OF f] assms(3,4) show ?thesis by (simp add: recv_session_key_def SESSION_KEY_LEN_def)
qed

end

lemma recv_session_key_sent: "recv_session_key X priv sk = (rc, s, sk') \<Longrightarrow> sk_sent sk' = sk_sent sk"
  using read_field_kept(1) [of "\<lambda>n. n \<noteq> RSA_KEY_BYTES" sk]
  by (auto simp: recv_session_key_def split: prod.splits sum.splits option.splits if_splits)


section \<open>A concrete library\<close>

text \<open>One instance of the laws: PKCS7 padding with no cipher under it, and keyed copies for the rest.\<close>

definition pkcs7 :: "string \<Rightarrow> string" where
  "pkcs7 p = (let n = 16 - length p mod 16 in p @ replicate n (char_of n))"

definition ref_ssl :: "(string, string, string) ossl" where
  "ref_ssl = \<lparr>o_cert_bytes = Some, o_cert_file = Some, o_verify_cert = (\<lambda>ca c. take 2 c = take 2 ca), o_pubkey = Some,
     o_pss_sign = (\<lambda>coin priv m. Some (CHR ''S'' # take 64 m)), o_pss_verify = (\<lambda>pub s m. s = CHR ''S'' # take 64 m),
     o_oaep_encrypt = (\<lambda>coin pub m. Some (m @ replicate 96 CHR ''.'')), o_oaep_decrypt = (\<lambda>priv c. Some (take 32 c)),
     o_aes_encrypt = (\<lambda>k iv p. Some (pkcs7 p)), o_aes_decrypt = (\<lambda>k iv c. Some (take (length c - of_char (last c)) c)),
     o_hmac = (\<lambda>k m. Some (take 32 (k @ m @ replicate 32 CHR ''.'')))\<rparr>"

lemma pkcs7_length: "length (pkcs7 p) = 16 * (length p div 16 + 1)"
proof -
  have "length p = 16 * (length p div 16) + length p mod 16" by simp
  moreover have "length p mod 16 < 16" by simp
  ultimately show ?thesis unfolding pkcs7_def Let_def by (simp only: length_append length_replicate) arith
qed

lemma pkcs7_strip: "take (length (pkcs7 p) - of_char (last (pkcs7 p))) (pkcs7 p) = p"
proof -
  define n where "n = 16 - length p mod 16"
  have n: "0 < n" "n < 256" by (simp_all add: n_def)
  have p: "pkcs7 p = p @ replicate n (char_of n)" by (simp add: pkcs7_def n_def Let_def)
  with n(1) have "last (pkcs7 p) = char_of n" by (simp add: last_append)
  with n(2) have "of_char (last (pkcs7 p)) = n" by simp
  then show ?thesis by (simp add: p)
qed

interpretation ref_ssl: openssl ref_ssl "\<lambda>_ _. True"
  by unfold_locales (simp_all add: ref_ssl_def pkcs7_length pkcs7_strip [unfolded pkcs7_length, simplified])

section \<open>Properties\<close>

text \<open>
  A message of up to 65487 bytes sent on an established session reaches the other end of the
  session unchanged, however writes and reads cut the stream, and leaves the stream at the next
  frame.
\<close>

theorem secure_frame_survives:
  assumes "openssl X pairs" "length (ss_key s) = 32" "ss_established s" "length iv = 16" "length buf \<le> 65487"
    and "writes_ready (68 + length buf) (sk_evs sk)"
  shows "\<exists>sk' bytes. session_send X (Some iv) s buf sk = (SESSION_OK, sk') \<and> sk_sent sk' = sk_sent sk @ bytes \<and>
    (\<forall>s2 rk rest cap. ss_key s2 = ss_key s \<longrightarrow> ss_established s2 \<longrightarrow> \<not> ss_recv_dead s2 \<longrightarrow> length buf \<le> cap \<longrightarrow>
       plain_bytes (sk_in rk) = bytes @ rest \<longrightarrow>
       (\<exists>rk'. session_recv X cap s2 rk = ((SESSION_OK, buf), s2, rk') \<and> plain_bytes (sk_in rk') = rest))"
proof -
  have "writes_ready (68 + length buf + 0) (sk_evs sk)" using assms(6) by simp
  from openssl.send_then_recv [OF assms(1-5) this] obtain sk' m where
    m: "session_send X (Some iv) s buf sk = (SESSION_OK, sk')" "sk_sent sk' = sk_sent sk @ sealed_frame m"
      "length m \<le> SESSION_MAX_FRAME" "session_decrypt X (ss_key s) m = Some buf" by blast
  have "\<exists>rk'. session_recv X cap s2 rk = ((SESSION_OK, buf), s2, rk') \<and> plain_bytes (sk_in rk') = rest"
    if "ss_key s2 = ss_key s" "ss_established s2" "\<not> ss_recv_dead s2" "length buf \<le> cap" "plain_bytes (sk_in rk) = sealed_frame m @ rest"
    for s2 rk rest cap
    using session_recv_frame [of s2 rk m rest X buf cap] that m(3,4) by auto
  with m(1,2) show ?thesis by (intro exI [of _ sk'] exI [of _ "sealed_frame m"]) auto
qed

definition demo_session :: session where
  "demo_session = \<lparr>ss_key = replicate 32 CHR ''k'', ss_established = True, ss_recv_dead = False\<rparr>"

definition demo_sock :: "rd_event list \<Rightarrow> sock" where
  "demo_sock evs = \<lparr>sk_in = evs, sk_evs = replicate 9000 (Took 1), sk_sent = []\<rparr>"

lemma demo_ready: "n \<le> 9000 \<Longrightarrow> writes_ready n (sk_evs (demo_sock evs))"
  by (simp add: writes_ready_def demo_sock_def list_all_iff)

theorem secure_frame_survives_witness:
  "\<exists>sk' bytes. session_send ref_ssl (Some ''0123456789abcdef'') demo_session ''CAST'' (demo_sock []) = (SESSION_OK, sk') \<and>
    bytes \<noteq> [] \<and> sk_sent sk' = bytes \<and>
    fst (session_recv ref_ssl 65536 demo_session (demo_sock [Data (take 1 bytes), Data (drop 1 bytes)])) = (SESSION_OK, ''CAST'')"
proof -
  have s: "length (ss_key demo_session) = 32" "ss_established demo_session" "length ''0123456789abcdef'' = 16"
    "length ''CAST'' \<le> 65487" "\<not> ss_recv_dead demo_session" "length ''CAST'' \<le> 65536" by (simp_all add: demo_session_def)
  have "writes_ready (68 + length ''CAST'') (sk_evs (demo_sock []))" by (rule demo_ready) simp
  from secure_frame_survives [OF ref_ssl.openssl_axioms s(1-4) this] obtain sk' bytes where
    b: "session_send ref_ssl (Some ''0123456789abcdef'') demo_session ''CAST'' (demo_sock []) = (SESSION_OK, sk')"
      "sk_sent sk' = sk_sent (demo_sock []) @ bytes"
      "\<forall>s2 rk rest cap. ss_key s2 = ss_key demo_session \<longrightarrow> ss_established s2 \<longrightarrow> \<not> ss_recv_dead s2 \<longrightarrow> length ''CAST'' \<le> cap \<longrightarrow>
         plain_bytes (sk_in rk) = bytes @ rest \<longrightarrow>
         (\<exists>rk'. session_recv ref_ssl cap s2 rk = ((SESSION_OK, ''CAST''), s2, rk') \<and> plain_bytes (sk_in rk') = rest)" by blast
  from session_send_sent [OF b(1)] b(2) have "1 < length bytes" by (auto simp: sealed_frame_def)
  then obtain c d ds where c: "bytes = c # d # ds" by (metis One_nat_def Suc_less_eq less_nat_zero_code list.exhaust list.size(3,4) Suc_eq_plus1)
  have "plain_bytes (sk_in (demo_sock [Data (take 1 bytes), Data (drop 1 bytes)])) = bytes @ []" by (simp add: demo_sock_def c)
  with b(3) s(2,5,6) have "fst (session_recv ref_ssl 65536 demo_session (demo_sock [Data (take 1 bytes), Data (drop 1 bytes)])) =
      (SESSION_OK, ''CAST'')" by (metis fst_conv)
  with b c show ?thesis by (intro exI [of _ sk'] exI [of _ bytes]) (simp add: demo_sock_def)
qed

text \<open>
  C27: \<^verbatim>\<open>session_recv\<close> hands out a message only if the next frame of the stream carries a valid
  authentication code under the session key over its initialisation vector and ciphertext.
\<close>

theorem received_is_authentic:
  assumes "session_recv X cap s sk = ((SESSION_OK, plain), s', sk')"
  shows "ss_established s \<and> length plain \<le> cap \<and>
    (\<exists>iv ct mac. plain_bytes (sk_in sk) = sealed_frame (iv @ ct @ mac) @ plain_bytes (sk_in sk') \<and> length iv = 16 \<and> length mac = 32 \<and>
       o_hmac X (take 16 (ss_key s)) (iv @ ct) = Some mac \<and> o_aes_decrypt X (drop 16 (ss_key s)) iv ct = Some plain)"
proof -
  from session_recv_authentic [OF assms] obtain token where t: "ss_established s" "length plain \<le> cap"
    "plain_bytes (sk_in sk) = sealed_frame token @ plain_bytes (sk_in sk')" "session_decrypt X (ss_key s) token = Some plain" by blast
  define ct_len where "ct_len = length token - 16 - 32"
  from t(4) have len: "64 \<le> length token" by (auto simp: session_decrypt_def seal_lens split: if_splits)
  let ?iv = "take 16 token" and ?ct = "take ct_len (drop 16 token)" and ?mac = "drop (16 + ct_len) token"
  have split: "token = ?iv @ ?ct @ ?mac" by (metis append_take_drop_id drop_drop add.commute)
  have "o_hmac X (take 16 (ss_key s)) (take (16 + ct_len) token) = Some ?mac" "o_aes_decrypt X (drop 16 (ss_key s)) ?iv ?ct = Some plain"
    using t(4) by (auto simp: session_decrypt_def seal_lens ct_len_def Let_def split: if_splits option.splits)
  moreover have "take (16 + ct_len) token = ?iv @ ?ct" by (simp add: take_add)
  moreover have "length ?iv = 16" "length ?mac = 32" using len by (simp_all add: ct_len_def)
  ultimately show ?thesis using t(1-3) split by (metis (no_types))
qed

theorem received_is_authentic_witness:
  "\<exists>iv ct mac. sealed_frame (''0123456789abcdef'' @ pkcs7 ''hi'' @ replicate 16 CHR ''k'' @ ''0123456789abcdef'') = sealed_frame (iv @ ct @ mac) \<and>
    o_hmac ref_ssl (replicate 16 CHR ''k'') (iv @ ct) = Some mac"
proof -
  let ?token = "''0123456789abcdef'' @ pkcs7 ''hi'' @ replicate 16 CHR ''k'' @ ''0123456789abcdef''"
  have d: "session_decrypt ref_ssl (ss_key demo_session) ?token = Some ''hi''" by code_simp
  have l: "length ?token \<le> SESSION_MAX_FRAME" by (simp add: SESSION_MAX_FRAME_def pkcs7_length)
  have s: "ss_established demo_session" "\<not> ss_recv_dead demo_session" "take 16 (ss_key demo_session) = replicate 16 CHR ''k''"
    by (simp_all add: demo_session_def)
  have p: "plain_bytes (sk_in (demo_sock [Data (sealed_frame ?token)])) = sealed_frame ?token @ []"
    by (simp add: demo_sock_def plain_bytes_one sealed_frame_def)
  from session_recv_frame [OF s(1,2) p l d, of 100] obtain sk' where
    r: "session_recv ref_ssl 100 demo_session (demo_sock [Data (sealed_frame ?token)]) = ((SESSION_OK, ''hi''), demo_session, sk')"
      "plain_bytes (sk_in sk') = []" by auto
  from received_is_authentic [OF r(1)] p r(2) s(3) show ?thesis by (metis append_Nil2)
qed



definition demo_draws :: draws where
  "demo_draws = \<lparr>dr_nonce = Some (replicate 32 CHR ''n''), dr_key = Some (replicate 32 CHR ''k''), dr_coin = 0\<rparr>"

definition demo_cert :: string where "demo_cert = ''CA server''"

abbreviation demo_reply :: string where
  "demo_reply \<equiv> hs_field (CHR ''S'' # replicate 32 CHR ''n'') @ hs_field demo_cert"

lemma demo_check:
  "\<exists>wrapped sk'. session_connect ref_ssl demo_draws ''CA'' (demo_sock [Data demo_reply]) =
      (SESSION_OK, session0\<lparr>ss_key := replicate 32 CHR ''k'', ss_established := True\<rparr>, sk') \<and>
    sk_sent sk' = hs_field (replicate 32 CHR ''n'') @ hs_field wrapped \<and> length wrapped = 128 \<and>
    o_oaep_decrypt ref_ssl ''priv'' wrapped = Some (replicate 32 CHR ''k'')"
proof -
  let ?n = "replicate 32 CHR ''n''" and ?k = "replicate 32 CHR ''k''"
  let ?sk = "demo_sock [Data demo_reply]"
  have "writes_ready (8 + length ?n + 136) (sk_evs ?sk)" by (rule demo_ready) simp
  from send_field_ready [OF this] obtain sk1 where
    n: "send_field ?n ?sk = (True, sk1)" "writes_ready 136 (sk_evs sk1)" "sk_sent sk1 = sk_sent ?sk @ hs_field ?n" "sk_in sk1 = sk_in ?sk" by blast
  have p: "plain_bytes (sk_in sk1) = hs_field (CHR ''S'' # ?n) @ hs_field demo_cert @ []"
    unfolding n(4) by (simp add: demo_sock_def plain_bytes_one)
  have "\<exists>wrapped sk'. check_server ref_ssl demo_draws ''CA'' ?n sk1 = (SESSION_OK, session0\<lparr>ss_key := ?k, ss_established := True\<rparr>, sk') \<and>
      sk_sent sk' = sk_sent sk1 @ hs_field wrapped \<and> length wrapped = 128 \<and> o_oaep_decrypt ref_ssl ''priv'' wrapped = Some ?k"
    by (rule ref_ssl.check_server_runs [OF p, where c = demo_cert and pub = demo_cert])
       (use n(2) in \<open>simp_all add: ref_ssl_def verify_server_cert_def demo_draws_def demo_cert_def\<close>)
  then obtain wrapped sk' where w: "check_server ref_ssl demo_draws ''CA'' ?n sk1 = (SESSION_OK, session0\<lparr>ss_key := ?k, ss_established := True\<rparr>, sk')"
      "sk_sent sk' = sk_sent sk1 @ hs_field wrapped" "length wrapped = 128" "o_oaep_decrypt ref_ssl ''priv'' wrapped = Some ?k" by blast
  have "session_connect ref_ssl demo_draws ''CA'' ?sk = (SESSION_OK, session0\<lparr>ss_key := ?k, ss_established := True\<rparr>, sk')"
    using n(1) w(1) by (simp add: session_connect_def demo_draws_def)
  with w n(3) show ?thesis by (auto simp: demo_sock_def)
qed


text \<open>
  C25: a client and a server that read what the other one writes complete the handshake and hold the
  same session key, provided the certificate is one the client's authority vouches for and belongs
  to the server's private key.
\<close>

theorem handshake_agrees:
  assumes "openssl X pairs" "pairs pub priv"
    and "dr_nonce R = Some nonce" "nonce \<noteq> []" "length nonce \<le> 64" "dr_key R = Some key" "length key = 32"
    and "o_cert_bytes X cert = Some c" "o_pubkey X c = Some pub" "verify_server_cert X c ca_path" "cert \<noteq> []" "length cert \<le> 8192"
    and "writes_ready (144 + length nonce) (sk_evs skc)" "writes_ready (528 + length cert) (sk_evs sks)"
    and "session_connect X R ca_path skc = (rc, sc, skc')" "session_accept X coin priv (Some cert) sks = (rs, ss, sks')"
    and "sk_sent skc = []" "sk_sent sks = []"
    and "plain_bytes (sk_in skc) = sk_sent sks' @ rest" "plain_bytes (sk_in sks) = sk_sent skc' @ rest'"
  shows "rc = SESSION_OK \<and> rs = SESSION_OK \<and> ss_established sc \<and> ss_established ss \<and> ss_key sc = key \<and> ss_key ss = key"
proof -
  have "writes_ready (8 + length nonce + 136) (sk_evs skc)" using assms(13) by (simp add: add.commute)
  from send_field_ready [OF this] obtain sk1 where
    n: "send_field nonce skc = (True, sk1)" "writes_ready 136 (sk_evs sk1)" "sk_sent sk1 = hs_field nonce" "sk_in sk1 = sk_in skc"
    using assms(17) by auto
  have chk: "check_server X R ca_path nonce sk1 = (rc, sc, skc')" using assms(3,15) n(1) by (simp add: session_connect_def)
  from check_server_spec [OF chk] obtain p where p: "sk_sent skc' = hs_field nonce @ p" unfolding n(3) by (metis append_Nil2)
  from assms(20) p have "plain_bytes (sk_in sks) = hs_field nonce @ (p @ rest')" by simp
  from openssl.accept_runs [OF assms(1,2) this assms(4,5,11,14), of coin] obtain sig sk2 where
    a: "sig \<noteq> []" "length sig \<le> 512" "o_pss_verify X pub sig nonce"
      "session_accept X coin priv (Some cert) sks = recv_session_key X priv sk2"
      "plain_bytes (sk_in sk2) = p @ rest'" "sk_sent sk2 = hs_field sig @ hs_field cert" using assms(18) by auto
  have acc: "recv_session_key X priv sk2 = (rs, ss, sks')" using a(4) assms(16) by simp
  then have "sk_sent sks' = hs_field sig @ hs_field cert" using recv_session_key_sent a(6) by metis
  with assms(19) n(4) have "plain_bytes (sk_in sk1) = hs_field sig @ hs_field cert @ rest" by simp
  from openssl.check_server_runs [OF assms(1) this a(1,2) assms(11,12,8,10,9) a(3) assms(6,7,2) n(2)] chk obtain wrapped where
    w: "rc = SESSION_OK" "sc = session0\<lparr>ss_key := key, ss_established := True\<rparr>" "sk_sent skc' = hs_field nonce @ hs_field wrapped"
      "length wrapped = 128" "o_oaep_decrypt X priv wrapped = Some key" unfolding n(3) by auto
  from w(3) p have "plain_bytes (sk_in sk2) = hs_field wrapped @ rest'" using a(5) by simp
  from openssl.recv_session_key_runs [OF assms(1) this w(4,5) assms(7)] acc w(1,2) show ?thesis by auto
qed


theorem handshake_agrees_witness:
  "\<exists>cb sc ss skc' sks'. session_connect ref_ssl demo_draws ''CA'' (demo_sock [Data demo_reply]) = (SESSION_OK, sc, skc') \<and>
    session_accept ref_ssl 0 ''priv'' (Some demo_cert) (demo_sock [Data cb]) = (SESSION_OK, ss, sks') \<and>
    sk_sent skc' = cb \<and> sk_sent sks' = demo_reply \<and> ss_key ss = ss_key sc \<and> ss_key sc = replicate 32 CHR ''k''"
proof -
  let ?n = "replicate 32 CHR ''n''" and ?k = "replicate 32 CHR ''k''"
  from demo_check obtain wrapped skc' where
    c: "session_connect ref_ssl demo_draws ''CA'' (demo_sock [Data demo_reply]) =
        (SESSION_OK, session0\<lparr>ss_key := ?k, ss_established := True\<rparr>, skc')" "sk_sent skc' = hs_field ?n @ hs_field wrapped" by blast
  define cb where "cb = hs_field ?n @ hs_field wrapped"
  have p: "plain_bytes (sk_in (demo_sock [Data cb])) = hs_field ?n @ hs_field wrapped" by (simp add: demo_sock_def cb_def plain_bytes_one)
  have r: "writes_ready (528 + length demo_cert) (sk_evs (demo_sock [Data cb]))" "writes_ready (144 + length ?n) (sk_evs (demo_sock [Data demo_reply]))"
    by (rule demo_ready; simp add: demo_cert_def)+
  obtain rs ss sks' where a: "session_accept ref_ssl 0 ''priv'' (Some demo_cert) (demo_sock [Data cb]) = (rs, ss, sks')"
    by (metis prod.exhaust)
  have "\<exists>sig sk1. o_pss_sign ref_ssl 0 ''priv'' ?n = Some sig \<and> sig \<noteq> [] \<and> length sig \<le> 512 \<and> o_pss_verify ref_ssl demo_cert sig ?n \<and>
      session_accept ref_ssl 0 ''priv'' (Some demo_cert) (demo_sock [Data cb]) = recv_session_key ref_ssl ''priv'' sk1 \<and>
      plain_bytes (sk_in sk1) = hs_field wrapped \<and> sk_sent sk1 = sk_sent (demo_sock [Data cb]) @ hs_field sig @ hs_field demo_cert"
    by (rule ref_ssl.accept_runs [OF _ p(1) _ _ _ r(1)]) (simp_all add: demo_cert_def)
  then obtain sk1 where "session_accept ref_ssl 0 ''priv'' (Some demo_cert) (demo_sock [Data cb]) = recv_session_key ref_ssl ''priv'' sk1"
    "sk_sent sk1 = demo_reply" by (auto simp: ref_ssl_def demo_sock_def)
  with a have s: "sk_sent sks' = demo_reply" using recv_session_key_sent by metis
  have "SESSION_OK = SESSION_OK \<and> rs = SESSION_OK \<and> ss_established (session0\<lparr>ss_key := ?k, ss_established := True\<rparr>) \<and>
      ss_established ss \<and> ss_key (session0\<lparr>ss_key := ?k, ss_established := True\<rparr>) = ?k \<and> ss_key ss = ?k"
    by (rule handshake_agrees [where R = demo_draws and nonce = ?n and c = demo_cert and pub = demo_cert and rest = "[]" and rest' = "[]",
          OF ref_ssl.openssl_axioms _ _ _ _ _ _ _ _ _ _ _ r(2,1) c(1) a])
       (simp_all add: demo_draws_def ref_ssl_def verify_server_cert_def demo_cert_def s c(2) demo_sock_def cb_def plain_bytes_one)
  with a c(1,2) s show ?thesis unfolding cb_def by auto
qed

end
