(* ===== verification/Htttp.thy ===== *)
theory Htttp
  imports Prelude "HOL-Library.Word"
begin

text \<open>
  The message grammar of \<^verbatim>\<open>src/src/libhtttp/htttp.c\<close>: HTTTP/1.0 requests and responses, parsed
  from one complete frame and serialised into a caller's buffer. A frame is a list of bytes;
  positions in it are the indices of the C code. A fixed \<^verbatim>\<open>char\<close> field is the C string it holds,
  so a NUL byte copied from the wire ends it. A body is the bytes \<^verbatim>\<open>body\<close> and \<^verbatim>\<open>body_len\<close> describe.
\<close>

section \<open>Results and structures\<close>

datatype htttp_err =
    HTTTP_OK
  | HTTTP_ERR_MALFORMED
  | HTTTP_ERR_TOOLONG
  | HTTTP_ERR_LENGTH
  | HTTTP_ERR_NOSPACE

definition HTTTP_VERSION :: string where "HTTTP_VERSION = ''HTTTP/1.0''"
definition VERSION_LEN :: nat where "VERSION_LEN = 9"
definition HTTTP_MAX_METHOD :: nat where "HTTTP_MAX_METHOD = 16"
definition HTTTP_MAX_PATH :: nat where "HTTTP_MAX_PATH = 256"
definition HTTTP_MAX_HEADERS :: nat where "HTTTP_MAX_HEADERS = 32"
definition HTTTP_MAX_KEY :: nat where "HTTTP_MAX_KEY = 64"
definition HTTTP_MAX_VALUE :: nat where "HTTTP_MAX_VALUE = 256"

lemmas htttp_lens = VERSION_LEN_def HTTTP_MAX_METHOD_def HTTTP_MAX_PATH_def HTTTP_MAX_HEADERS_def
  HTTTP_MAX_KEY_def HTTTP_MAX_VALUE_def

type_synonym htttp_header = "string \<times> string"

record htttp_request =
  rq_method :: string
  rq_path :: string
  rq_headers :: "htttp_header list"
  rq_body :: string

record htttp_response =
  rp_status :: int
  rp_headers :: "htttp_header list"
  rp_body :: string

definition request0 :: htttp_request where
  "request0 = \<lparr>rq_method = [], rq_path = [], rq_headers = [], rq_body = []\<rparr>"

definition response0 :: htttp_response where
  "response0 = \<lparr>rp_status = 0, rp_headers = [], rp_body = []\<rparr>"

section \<open>Helpers\<close>

definition lower :: "char \<Rightarrow> char" where
  "lower c = (if 65 \<le> (of_char c :: nat) \<and> (of_char c :: nat) \<le> 90
              then char_of ((of_char c :: nat) + 32) else c)"

fun ci_eq :: "string \<Rightarrow> string \<Rightarrow> bool" where
  "ci_eq (a # as) (b # bs) = (if lower a \<noteq> lower b then False else ci_eq as bs)"
| "ci_eq as bs = (as = [] \<and> bs = [])"

function find_crlf :: "string \<Rightarrow> nat \<Rightarrow> nat option" where
  "find_crlf buf index =
     (if index + 1 < length buf
      then if buf ! index = CR \<and> buf ! (index + 1) = NL then Some index else find_crlf buf (index + 1)
      else None)"
  by pat_completeness auto
termination by (relation "measure (\<lambda>(buf, index). length buf - index)") auto

declare find_crlf.simps [simp del]

definition copy_token :: "nat \<Rightarrow> string \<Rightarrow> htttp_err + string" where
  "copy_token cap src = (if cap \<le> length src then Inl HTTTP_ERR_TOOLONG else Inr (cstr src))"

fun uint_loop :: "32 word \<Rightarrow> string \<Rightarrow> htttp_err + 32 word" where
  "uint_loop val [] = Inr val"
| "uint_loop val (c # cs) =
     (if \<not> is_digit c then Inl HTTTP_ERR_MALFORMED
      else let digit = word_of_nat (digit_val c)
           in if (4294967295 - digit) div 10 < val then Inl HTTTP_ERR_TOOLONG
              else uint_loop (val * 10 + digit) cs)"

definition parse_uint :: "string \<Rightarrow> htttp_err + 32 word" where
  "parse_uint src =
     (if src = [] then Inl HTTTP_ERR_MALFORMED
      else if 32 < length src then Inl HTTTP_ERR_TOOLONG
      else uint_loop 0 src)"

definition htttp_header_get :: "htttp_header list \<Rightarrow> string \<Rightarrow> string option" where
  "htttp_header_get headers key = map_option snd (find (\<lambda>(k, v). ci_eq k key) headers)"

section \<open>Parsing\<close>

definition slice :: "string \<Rightarrow> nat \<Rightarrow> nat \<Rightarrow> string" where
  "slice buf a b = take (b - a) (drop a buf)"

text \<open>\<^verbatim>\<open>while (i < eol && buf[i] != c) i++;\<close>\<close>

function scan_to :: "string \<Rightarrow> char \<Rightarrow> nat \<Rightarrow> nat \<Rightarrow> nat" where
  "scan_to buf c eol i = (if i < eol \<and> buf ! i \<noteq> c then scan_to buf c eol (Suc i) else i)"
  by pat_completeness auto
termination by (relation "measure (\<lambda>(buf, c, eol, i). eol - i)") auto

declare scan_to.simps [simp del]

lemma find_crlf_bounds: "find_crlf buf i = Some e \<Longrightarrow> i \<le> e \<and> e + 1 < length buf"
  by (induction buf i rule: find_crlf.induct) (auto simp: find_crlf.simps split: if_splits)

text \<open>The header loop of \<^verbatim>\<open>parse_tail\<close>: the headers read and, on success, where the body starts.\<close>

function parse_headers :: "string \<Rightarrow> nat \<Rightarrow> htttp_header list \<Rightarrow> htttp_err \<times> htttp_header list \<times> nat" where
  "parse_headers buf off headers =
     (case find_crlf buf off of
        None \<Rightarrow> (HTTTP_ERR_MALFORMED, headers, off)
      | Some eol \<Rightarrow>
          if eol = off then (HTTTP_OK, headers, off + 2)
          else
            let colon = scan_to buf CHR '':'' eol off
            in if colon = off \<or> eol \<le> colon \<or> eol \<le> colon + 1 \<or> buf ! (colon + 1) \<noteq> CHR '' ''
               then (HTTTP_ERR_MALFORMED, headers, off)
               else if HTTTP_MAX_HEADERS \<le> length headers then (HTTTP_ERR_TOOLONG, headers, off)
               else case copy_token HTTTP_MAX_KEY (slice buf off colon) of
                      Inl rc \<Rightarrow> (rc, headers, off)
                    | Inr key \<Rightarrow>
                        (case copy_token HTTTP_MAX_VALUE (slice buf (colon + 2) eol) of
                           Inl rc \<Rightarrow> (rc, headers, off)
                         | Inr val \<Rightarrow> parse_headers buf (eol + 2) (headers @ [(key, val)])))"
  by pat_completeness auto
termination
  by (relation "measure (\<lambda>(buf, off, headers). length buf - off)") (auto dest: find_crlf_bounds)

declare parse_headers.simps [simp del]

definition parse_tail :: "string \<Rightarrow> nat \<Rightarrow> htttp_err \<times> htttp_header list \<times> string" where
  "parse_tail buf off =
     (case parse_headers buf off [] of
        (rc, headers, off) \<Rightarrow>
          if rc \<noteq> HTTTP_OK then (rc, headers, [])
          else
            let remaining = length buf - off
            in case htttp_header_get headers ''Content-Length'' of
                 None \<Rightarrow> if remaining \<noteq> 0 then (HTTTP_ERR_LENGTH, headers, []) else (HTTTP_OK, headers, [])
               | Some cl \<Rightarrow>
                   (case parse_uint cl of
                      Inl _ \<Rightarrow> (HTTTP_ERR_MALFORMED, headers, [])
                    | Inr declared \<Rightarrow>
                        if unat declared \<noteq> remaining then (HTTTP_ERR_LENGTH, headers, [])
                        else (HTTTP_OK, headers, drop off buf)))"

definition htttp_parse_request :: "string \<Rightarrow> htttp_err \<times> htttp_request" where
  "htttp_parse_request buf =
     (case find_crlf buf 0 of
        None \<Rightarrow> (HTTTP_ERR_MALFORMED, request0)
      | Some eol \<Rightarrow>
          let sp1 = scan_to buf CHR '' '' eol 0
          in if sp1 = 0 \<or> eol \<le> sp1 then (HTTTP_ERR_MALFORMED, request0)
             else case copy_token HTTTP_MAX_METHOD (slice buf 0 sp1) of
               Inl _ \<Rightarrow> (HTTTP_ERR_TOOLONG, request0)
             | Inr method \<Rightarrow>
                 let req = request0\<lparr>rq_method := method\<rparr>;
                     sp2 = scan_to buf CHR '' '' eol (sp1 + 1)
                 in if sp2 = sp1 + 1 \<or> eol \<le> sp2 then (HTTTP_ERR_MALFORMED, req)
                    else case copy_token HTTTP_MAX_PATH (slice buf (sp1 + 1) sp2) of
                      Inl _ \<Rightarrow> (HTTTP_ERR_TOOLONG, req)
                    | Inr path \<Rightarrow>
                        let req = req\<lparr>rq_path := path\<rparr>
                        in if eol - sp2 - 1 \<noteq> VERSION_LEN \<or> slice buf (sp2 + 1) (sp2 + 1 + VERSION_LEN) \<noteq> HTTTP_VERSION
                           then (HTTTP_ERR_MALFORMED, req)
                           else case parse_tail buf (eol + 2) of
                                  (rc, headers, body) \<Rightarrow> (rc, req\<lparr>rq_headers := headers, rq_body := body\<rparr>))"

definition htttp_parse_response :: "string \<Rightarrow> htttp_err \<times> htttp_response" where
  "htttp_parse_response buf =
     (case find_crlf buf 0 of
        None \<Rightarrow> (HTTTP_ERR_MALFORMED, response0)
      | Some eol \<Rightarrow>
          if eol \<le> VERSION_LEN \<or> take VERSION_LEN buf \<noteq> HTTTP_VERSION \<or> buf ! VERSION_LEN \<noteq> CHR '' ''
          then (HTTTP_ERR_MALFORMED, response0)
          else
            let sp1 = scan_to buf CHR '' '' eol (VERSION_LEN + 1)
            in if sp1 = VERSION_LEN + 1 \<or> eol \<le> sp1 then (HTTTP_ERR_MALFORMED, response0)
               else case parse_uint (slice buf (VERSION_LEN + 1) sp1) of
                 Inl _ \<Rightarrow> (HTTTP_ERR_MALFORMED, response0)
               | Inr status \<Rightarrow>
                   if status < 100 \<or> 599 < status then (HTTTP_ERR_MALFORMED, response0)
                   else case parse_tail buf (eol + 2) of
                          (rc, headers, body) \<Rightarrow>
                            (rc, response0\<lparr>rp_status := uint status, rp_headers := headers, rp_body := body\<rparr>))"

section \<open>Serialising\<close>

definition valid_field :: "bool \<Rightarrow> string \<Rightarrow> bool" where
  "valid_field allow_space s =
     list_all (\<lambda>c. (33 \<le> (of_char c :: nat) \<and> (of_char c :: nat) \<le> 126) \<or> (allow_space \<and> c = CHR '' '')) s"

text \<open>The buffer is the bytes written so far; the first failing append ends the chain.\<close>

definition buf_append :: "nat \<Rightarrow> string \<Rightarrow> htttp_err + string \<Rightarrow> htttp_err + string" where
  "buf_append cap src r =
     (case r of
        Inl rc \<Rightarrow> Inl rc
      | Inr out \<Rightarrow> if src = [] then Inr out
                   else if cap - length out < length src then Inl HTTTP_ERR_NOSPACE
                   else Inr (out @ src))"

definition emit_header :: "nat \<Rightarrow> string \<Rightarrow> string \<Rightarrow> htttp_err + string \<Rightarrow> htttp_err + string" where
  "emit_header cap key val r =
     buf_append cap [CR, NL] (buf_append cap val (buf_append cap '': '' (buf_append cap key r)))"

fun emit_each :: "nat \<Rightarrow> bool \<Rightarrow> htttp_header list \<Rightarrow> htttp_err + string \<Rightarrow> htttp_err + string" where
  "emit_each cap skip_date [] r = r"
| "emit_each cap skip_date ((key, val) # hs) r =
     (case r of
        Inl rc \<Rightarrow> Inl rc
      | Inr out \<Rightarrow>
          if ci_eq key ''Content-Length'' then emit_each cap skip_date hs r
          else if skip_date \<and> ci_eq key ''Date'' then emit_each cap skip_date hs r
          else if key = [] then Inl HTTTP_ERR_MALFORMED
          else if \<not> valid_field False key \<or> \<not> valid_field True val then Inl HTTTP_ERR_MALFORMED
          else emit_each cap skip_date hs (emit_header cap key val r))"

definition emit_headers :: "nat \<Rightarrow> bool \<Rightarrow> htttp_header list \<Rightarrow> htttp_err + string \<Rightarrow> htttp_err + string" where
  "emit_headers cap skip_date headers r =
     (case r of
        Inl rc \<Rightarrow> Inl rc
      | Inr out \<Rightarrow>
          if HTTTP_MAX_HEADERS < length headers then Inl HTTTP_ERR_TOOLONG
          else emit_each cap skip_date headers r)"

definition emit_body :: "nat \<Rightarrow> string \<Rightarrow> htttp_err + string \<Rightarrow> htttp_err + string" where
  "emit_body cap body r =
     buf_append cap body (buf_append cap [CR, NL]
       (if 0 < length body then emit_header cap ''Content-Length'' (nat_str (length body)) r else r))"

definition htttp_serialize_request :: "htttp_request \<Rightarrow> nat \<Rightarrow> htttp_err + string" where
  "htttp_serialize_request req cap =
     (if rq_method req = [] \<or> rq_path req = [] then Inl HTTTP_ERR_MALFORMED
      else if \<not> valid_field False (rq_method req) \<or> \<not> valid_field False (rq_path req) then Inl HTTTP_ERR_MALFORMED
      else emit_body cap (rq_body req) (emit_headers cap False (rq_headers req)
             (buf_append cap [CR, NL] (buf_append cap HTTTP_VERSION (buf_append cap '' ''
                (buf_append cap (rq_path req) (buf_append cap '' '' (buf_append cap (rq_method req) (Inr [])))))))))"

definition htttp_reason :: "int \<Rightarrow> string option" where
  "htttp_reason status =
     (if status = 200 then Some ''OK''
      else if status = 201 then Some ''Created''
      else if status = 400 then Some ''Bad Request''
      else if status = 401 then Some ''Unauthorized''
      else if status = 403 then Some ''Forbidden''
      else if status = 404 then Some ''Not Found''
      else if status = 409 then Some ''Conflict''
      else if status = 413 then Some ''Payload Too Large''
      else if status = 429 then Some ''Too Many Requests''
      else if status = 500 then Some ''Internal Server Error''
      else if status = 501 then Some ''Not Implemented''
      else None)"

text \<open>The broken-down time \<^verbatim>\<open>gmtime_r\<close> returns, and \<^verbatim>\<open>strftime\<close> with the format of the source.\<close>

record tm =
  tm_sec :: nat
  tm_min :: nat
  tm_hour :: nat
  tm_mday :: nat
  tm_mon :: nat
  tm_year :: nat
  tm_wday :: nat

definition two_digits :: "nat \<Rightarrow> string" where
  "two_digits n = [digit_char (n div 10 mod 10), digit_char (n mod 10)]"

definition http_date :: "tm \<Rightarrow> string" where
  "http_date t =
     [''Sun'', ''Mon'', ''Tue'', ''Wed'', ''Thu'', ''Fri'', ''Sat''] ! tm_wday t @ '', '' @
     two_digits (tm_mday t) @ '' '' @
     [''Jan'', ''Feb'', ''Mar'', ''Apr'', ''May'', ''Jun'', ''Jul'', ''Aug'', ''Sep'', ''Oct'', ''Nov'', ''Dec''] ! tm_mon t @
     '' '' @ nat_str (1900 + tm_year t) @ '' '' @ two_digits (tm_hour t) @ '':'' @ two_digits (tm_min t) @
     '':'' @ two_digits (tm_sec t) @ '' GMT''"

definition htttp_serialize_response :: "tm \<Rightarrow> htttp_response \<Rightarrow> nat \<Rightarrow> htttp_err + string" where
  "htttp_serialize_response now res cap =
     (case htttp_reason (rp_status res) of
        None \<Rightarrow> Inl HTTTP_ERR_MALFORMED
      | Some reason \<Rightarrow>
          let date = http_date now
          in if 48 \<le> length date then Inl HTTTP_ERR_MALFORMED
             else emit_body cap (rp_body res) (emit_headers cap True (rp_headers res) (emit_header cap ''Date'' date
               (buf_append cap [CR, NL] (buf_append cap reason (buf_append cap '' '' (buf_append cap (int_str (rp_status res))
                  (buf_append cap '' '' (buf_append cap HTTTP_VERSION (Inr []))))))))))"

definition htttp_header_set :: "htttp_header list \<Rightarrow> string \<Rightarrow> string \<Rightarrow> htttp_err + htttp_header list" where
  "htttp_header_set headers key val =
     (if key = [] then Inl HTTTP_ERR_MALFORMED
      else if \<not> valid_field False key \<or> \<not> valid_field True val then Inl HTTTP_ERR_MALFORMED
      else if HTTTP_MAX_HEADERS \<le> length headers then Inl HTTTP_ERR_TOOLONG
      else if HTTTP_MAX_KEY \<le> length key then Inl HTTTP_ERR_TOOLONG
      else if HTTTP_MAX_VALUE \<le> length val then Inl HTTTP_ERR_TOOLONG
      else Inr (headers @ [(key, val)]))"

section \<open>Numbers\<close>

lemma digit_val_lt: "is_digit c \<Longrightarrow> digit_val c < 10"
  by (auto simp: is_digit_def digit_val_def)

text \<open>The guard before the multiplication is exact: it fires when the next value would not fit.\<close>

lemma uint_guard:
  assumes "d < 10"
  shows "(4294967295 - word_of_nat d) div 10 < (v :: 32 word) \<longleftrightarrow> 2 ^ 32 \<le> unat v * 10 + d"
proof -
  have d: "unat (word_of_nat d :: 32 word) = d" using assms by (simp add: unat_of_nat)
  have "word_of_nat d \<le> (4294967295 :: 32 word)" using assms d by (simp add: word_le_nat_alt)
  then have "unat ((4294967295 :: 32 word) - word_of_nat d) = 4294967295 - d"
    by (simp add: unat_sub d)
  then have "(4294967295 - word_of_nat d) div 10 < v \<longleftrightarrow> (4294967295 - d) div 10 < unat v"
    by (simp add: word_less_nat_alt unat_div)
  also have "\<dots> \<longleftrightarrow> 4294967295 - d < unat v * 10" by (simp add: div_less_iff_less_mult)
  also have "\<dots> \<longleftrightarrow> 2 ^ 32 \<le> unat v * 10 + d" using assms by auto
  finally show ?thesis .
qed

lemma uint_step:
  assumes "d < 10" "unat v * 10 + d < 2 ^ 32"
  shows "unat ((v :: 32 word) * 10 + word_of_nat d) = unat v * 10 + d"
  using assms by (simp add: unat_word_ariths unat_of_nat)

lemma digits_from_Cons:
  "foldl (\<lambda>acc c. acc * 10 + digit_val c) v (c # cs) = foldl (\<lambda>acc c. acc * 10 + digit_val c) (v * 10 + digit_val c) cs"
  by simp

lemma digits_from_mono: "v \<le> foldl (\<lambda>acc c. acc * 10 + digit_val c) v cs" for v :: nat
proof (induction cs arbitrary: v)
  case (Cons c cs)
  have "v \<le> v * 10 + digit_val c" by simp
  also have "\<dots> \<le> foldl (\<lambda>acc c. acc * 10 + digit_val c) (v * 10 + digit_val c) cs" by (rule Cons)
  finally show ?case by simp
qed simp

lemma uint_loop_spec:
  "uint_loop v cs = Inr r \<longleftrightarrow>
     list_all is_digit cs \<and> foldl (\<lambda>acc c. acc * 10 + digit_val c) (unat v) cs < 2 ^ 32 \<and>
     unat r = foldl (\<lambda>acc c. acc * 10 + digit_val c) (unat v) cs"
proof (induction v cs rule: uint_loop.induct)
  case (1 v)
  then show ?case using unsigned_less [of v, where 'a = nat] by (auto simp: word_unat_eq_iff)
next
  case (2 v c cs)
  show ?case
  proof (cases "is_digit c \<and> unat v * 10 + digit_val c < 2 ^ 32")
    case True
    then have d: "digit_val c < 10" by (simp add: digit_val_lt)
    have g: "\<not> (4294967295 - word_of_nat (digit_val c)) div 10 < v"
      using True by (subst uint_guard [OF d]) simp
    show ?thesis
      using 2 [OF _ refl g] True g uint_step [OF d, of v] by (simp add: Let_def)
  next
    case False
    show ?thesis
    proof (cases "is_digit c")
      case dig: True
      with False have big: "2 ^ 32 \<le> unat v * 10 + digit_val c" by simp
      then have "(4294967295 - word_of_nat (digit_val c)) div 10 < v"
        using uint_guard [OF digit_val_lt [OF dig]] by simp
      moreover have "2 ^ 32 \<le> foldl (\<lambda>acc c. acc * 10 + digit_val c) (unat v * 10 + digit_val c) cs"
        using big digits_from_mono order.trans by blast
      ultimately show ?thesis using dig by (simp add: Let_def)
    qed simp
  qed
qed

lemma parse_uint_spec:
  "parse_uint s = Inr r \<longleftrightarrow>
     s \<noteq> [] \<and> length s \<le> 32 \<and> list_all is_digit s \<and> digits_val s < 2 ^ 32 \<and> unat r = digits_val s"
  by (auto simp: parse_uint_def uint_loop_spec digits_val_def)

section \<open>Text and positions\<close>

lemma lower_inj_on_key: "ci_eq a b \<longleftrightarrow> map lower a = map lower b"
  by (induction a b rule: ci_eq.induct) auto

lemma valid_field_plain:
  assumes "valid_field sp s"
  shows "CR \<notin> set s" "NL \<notin> set s" "NUL \<notin> set s" "\<not> sp \<Longrightarrow> CHR '' '' \<notin> set s"
  using assms by (auto simp: valid_field_def list_all_iff)

lemma drop_ConsD:
  assumes "drop i buf = x # r"
  shows "i < length buf" "buf ! i = x" "drop (Suc i) buf = r"
proof -
  show l: "i < length buf" using assms by (metis drop_eq_Nil2 linorder_not_less list.distinct(1))
  then show "buf ! i = x" "drop (Suc i) buf = r" using assms by (simp_all add: Cons_nth_drop_Suc [symmetric])
qed

lemma find_crlf_at:
  "CR \<notin> set l \<Longrightarrow> drop off buf = l @ CR # NL # r \<Longrightarrow> find_crlf buf off = Some (off + length l)"
proof (induction l arbitrary: off)
  case Nil
  then show ?case
    using drop_ConsD [of off buf CR "NL # r"] drop_ConsD [of "Suc off" buf NL r]
    by (simp add: find_crlf.simps [of buf off])
next
  case (Cons c l)
  note d = drop_ConsD [OF Cons.prems(2) [unfolded append_Cons]]
  have "Suc off < length buf" using d(3) by (metis Nil_is_append_conv drop_eq_Nil2 linorder_not_less list.distinct(1))
  moreover have "c \<noteq> CR" "CR \<notin> set l" using Cons.prems(1) by auto
  ultimately show ?case using Cons.IH [OF _ d(3)] d(2) by (simp add: find_crlf.simps [of buf off])
qed

lemma scan_to_at:
  "c \<notin> set w \<Longrightarrow> drop i buf = w @ c # r \<Longrightarrow> i + length w \<le> eol \<Longrightarrow> scan_to buf c eol i = i + length w"
proof (induction w arbitrary: i)
  case Nil
  then show ?case using drop_ConsD [of i buf c r] by (simp add: scan_to.simps)
next
  case (Cons x w)
  note d = drop_ConsD [OF Cons.prems(2) [unfolded append_Cons]]
  have "x \<noteq> c" using Cons.prems(1) by auto
  with Cons.IH [OF _ d(3)] Cons.prems(1,3) d(2) show ?case by (simp add: scan_to.simps [of buf c eol i])
qed

lemma slice_at: "drop a buf = w @ r \<Longrightarrow> slice buf a (a + length w) = w"
  by (simp add: slice_def)

lemma drop_past: "drop a buf = w @ r \<Longrightarrow> drop (a + length w) buf = r"
  by (metis add.commute append_eq_conv_conj drop_drop)

section \<open>A header line and its parse\<close>

definition header_bytes :: "htttp_header \<Rightarrow> string" where
  "header_bytes h = fst h @ '': '' @ snd h @ [CR, NL]"

definition good_header :: "htttp_header \<Rightarrow> bool" where
  "good_header h \<longleftrightarrow>
     fst h \<noteq> [] \<and> valid_field False (fst h) \<and> valid_field True (snd h) \<and> CHR '':'' \<notin> set (fst h) \<and>
     length (fst h) < HTTTP_MAX_KEY \<and> length (snd h) < HTTTP_MAX_VALUE"

lemma parse_headers_blank:
  "drop off buf = CR # NL # r \<Longrightarrow> parse_headers buf off acc = (HTTTP_OK, acc, off + 2)"
  using find_crlf_at [of "[]" off buf r] by (simp add: parse_headers.simps)

lemma parse_headers_line:
  assumes "good_header (k, v)" "drop off buf = header_bytes (k, v) @ r" "length acc < HTTTP_MAX_HEADERS"
  shows "parse_headers buf off acc = parse_headers buf (off + length (header_bytes (k, v))) (acc @ [(k, v)])"
proof -
  have kv: "k \<noteq> []" "CR \<notin> set k" "CR \<notin> set v" "CHR '':'' \<notin> set k" "NUL \<notin> set k" "NUL \<notin> set v"
    "length k < 64" "length v < 256"
    using assms(1) valid_field_plain [of False k] valid_field_plain [of True v]
    by (auto simp: good_header_def htttp_lens)
  let ?eol = "off + length (k @ '': '' @ v)"
  have d: "drop off buf = (k @ '': '' @ v) @ CR # NL # r" using assms(2) by (simp add: header_bytes_def)
  have crlf: "find_crlf buf off = Some ?eol" using kv by (intro find_crlf_at [OF _ d]) auto
  have d2: "drop off buf = k @ CHR '':'' # ('' '' @ v @ CR # NL # r)" using d by simp
  have colon: "scan_to buf CHR '':'' ?eol off = off + length k" using kv by (intro scan_to_at [OF _ d2]) auto
  have d3: "drop (off + length k) buf = CHR '':'' # CHR '' '' # v @ CR # NL # r" using drop_past [OF d2] by simp
  note c1 = drop_ConsD [OF d3]
  note c2 = drop_ConsD [OF c1(3)]
  have key: "copy_token HTTTP_MAX_KEY (slice buf off (off + length k)) = Inr k"
    using slice_at [OF d2] kv by (simp add: copy_token_def htttp_lens)
  have "slice buf (off + length k + 2) ?eol = v"
    using slice_at [OF c2(3)] by (simp add: add.assoc)
  then have val: "copy_token HTTTP_MAX_VALUE (slice buf (off + length k + 2) ?eol) = Inr v"
    using kv by (simp add: copy_token_def htttp_lens)
  have "?eol \<noteq> off" "off + length k \<noteq> off" "\<not> ?eol \<le> off + length k" "\<not> ?eol \<le> off + length k + 1"
    using kv(1) by simp_all
  then show ?thesis
    using crlf colon key val c2(2) assms(3) kv(1)
    by (simp add: parse_headers.simps [of buf off acc] header_bytes_def Let_def add.assoc)
qed

lemma parse_headers_at:
  assumes "drop off buf = concat (map header_bytes hs) @ CR # NL # r" "list_all good_header hs"
    "length acc + length hs \<le> HTTTP_MAX_HEADERS"
  shows "parse_headers buf off acc = (HTTTP_OK, acc @ hs, off + length (concat (map header_bytes hs)) + 2)"
  using assms
proof (induction hs arbitrary: off acc)
  case Nil
  then show ?case using parse_headers_blank [of off buf r acc] by simp
next
  case (Cons h hs)
  obtain k v where h: "h = (k, v)" by (cases h)
  let ?rest = "concat (map header_bytes hs) @ CR # NL # r"
  have d: "drop off buf = header_bytes (k, v) @ ?rest" using Cons.prems(1) h by simp
  have "parse_headers buf off acc = parse_headers buf (off + length (header_bytes (k, v))) (acc @ [(k, v)])"
    using Cons.prems(2,3) h by (intro parse_headers_line [OF _ d]) auto
  also have "\<dots> = (HTTTP_OK, acc @ [(k, v)] @ hs, off + length (header_bytes (k, v)) + length (concat (map header_bytes hs)) + 2)"
    using Cons.IH [OF drop_past [OF d], of "acc @ [(k, v)]"] Cons.prems(2,3) by simp
  finally show ?case using h by simp
qed

section \<open>What the serialisers write\<close>

definition kept :: "bool \<Rightarrow> htttp_header list \<Rightarrow> htttp_header list" where
  "kept skip_date hs =
     filter (\<lambda>(k, v). \<not> ci_eq k ''Content-Length'' \<and> \<not> (skip_date \<and> ci_eq k ''Date'')) hs"

definition length_header :: "string \<Rightarrow> htttp_header list" where
  "length_header body = (if body = [] then [] else [(''Content-Length'', nat_str (length body))])"

definition tail_bytes :: "htttp_header list \<Rightarrow> string \<Rightarrow> string" where
  "tail_bytes hs body = concat (map header_bytes hs) @ CR # NL # body"

definition sendable :: "htttp_header \<Rightarrow> bool" where
  "sendable h \<longleftrightarrow> fst h \<noteq> [] \<and> valid_field False (fst h) \<and> valid_field True (snd h)"

lemma buf_append_Inr:
  "buf_append cap src r = Inr out \<longleftrightarrow> (\<exists>o1. r = Inr o1 \<and> out = o1 @ src \<and> (src = [] \<or> length o1 + length src \<le> cap))"
proof -
  have "src \<noteq> [] \<Longrightarrow> cap - n < length src \<longleftrightarrow> \<not> n + length src \<le> cap" for n by (cases src) auto
  then show ?thesis by (auto simp: buf_append_def split: sum.splits)
qed

lemma emit_header_Inr:
  "emit_header cap k v r = Inr out \<longleftrightarrow>
     (\<exists>o1. r = Inr o1 \<and> out = o1 @ header_bytes (k, v) \<and> length out \<le> cap)"
  by (auto simp: emit_header_def buf_append_Inr header_bytes_def)

lemma emit_each_Inr:
  "emit_each cap sd hs r = Inr out \<longleftrightarrow>
     (\<exists>o1. r = Inr o1 \<and> list_all sendable (kept sd hs) \<and> out = o1 @ concat (map header_bytes (kept sd hs)) \<and>
           (kept sd hs = [] \<or> length out \<le> cap))"
proof (induction cap sd hs r rule: emit_each.induct)
  case (2 cap sd k v hs r)
  show ?case
  proof (cases r)
    case (Inr o1)
    show ?thesis
    proof (cases "ci_eq k ''Content-Length'' \<or> (sd \<and> ci_eq k ''Date'')")
      case True
      with 2(1,2) [OF Inr] Inr show ?thesis by (auto simp: kept_def)
    next
      case False
      then have k: "kept sd ((k, v) # hs) = (k, v) # kept sd hs" by (simp add: kept_def)
      show ?thesis
      proof (cases "sendable (k, v)")
        case True
        with False Inr have "emit_each cap sd ((k, v) # hs) r = emit_each cap sd hs (emit_header cap k v r)"
          by (auto simp: sendable_def)
        with 2(3) [OF Inr] False True Inr k show ?thesis
          by (auto simp: emit_header_Inr sendable_def)
      next
        case bad: False
        with False Inr k show ?thesis by (auto simp: sendable_def)
      qed
    qed
  qed simp
qed (auto simp: kept_def)

lemma emit_headers_Inr:
  "emit_headers cap sd hs r = Inr out \<longleftrightarrow>
     (\<exists>o1. r = Inr o1 \<and> length hs \<le> HTTTP_MAX_HEADERS \<and> list_all sendable (kept sd hs) \<and>
           out = o1 @ concat (map header_bytes (kept sd hs)) \<and> (kept sd hs = [] \<or> length out \<le> cap))"
  by (auto simp: emit_headers_def emit_each_Inr split: sum.splits if_splits)

lemma emit_body_Inr:
  "emit_body cap body r = Inr out \<longleftrightarrow>
     (\<exists>o1. r = Inr o1 \<and> out = o1 @ tail_bytes (length_header body) body \<and> length out \<le> cap)"
  by (auto simp: emit_body_def buf_append_Inr emit_header_Inr tail_bytes_def length_header_def)

definition request_line :: "htttp_request \<Rightarrow> string" where
  "request_line req = rq_method req @ '' '' @ rq_path req @ '' '' @ HTTTP_VERSION"

definition request_bytes :: "htttp_request \<Rightarrow> string" where
  "request_bytes req = request_line req @ [CR, NL] @
     tail_bytes (kept False (rq_headers req) @ length_header (rq_body req)) (rq_body req)"

lemma concat_Nil: "xs = [] \<Longrightarrow> concat (map f xs) = []"
  by simp

lemma serialize_request_spec:
  "htttp_serialize_request req cap = Inr out \<longleftrightarrow>
     rq_method req \<noteq> [] \<and> rq_path req \<noteq> [] \<and> valid_field False (rq_method req) \<and> valid_field False (rq_path req) \<and>
     length (rq_headers req) \<le> HTTTP_MAX_HEADERS \<and> list_all sendable (kept False (rq_headers req)) \<and>
     out = request_bytes req \<and> length out \<le> cap"
  unfolding htttp_serialize_request_def
  by (auto simp: emit_body_Inr emit_headers_Inr buf_append_Inr request_bytes_def request_line_def tail_bytes_def
      HTTTP_VERSION_def)

definition status_line :: "int \<Rightarrow> string" where
  "status_line st = HTTTP_VERSION @ '' '' @ int_str st @ '' '' @ the (htttp_reason st)"

definition response_bytes :: "tm \<Rightarrow> htttp_response \<Rightarrow> string" where
  "response_bytes now res = status_line (rp_status res) @ [CR, NL] @
     tail_bytes ((''Date'', http_date now) # kept True (rp_headers res) @ length_header (rp_body res)) (rp_body res)"

lemma serialize_response_spec:
  "htttp_serialize_response now res cap = Inr out \<longleftrightarrow>
     htttp_reason (rp_status res) \<noteq> None \<and> length (http_date now) < 48 \<and>
     length (rp_headers res) \<le> HTTTP_MAX_HEADERS \<and> list_all sendable (kept True (rp_headers res)) \<and>
     out = response_bytes now res \<and> length out \<le> cap"
proof (cases "htttp_reason (rp_status res)")
  case (Some reason)
  then have "reason \<noteq> []" by (auto simp: htttp_reason_def split: if_splits)
  with Some show ?thesis
    unfolding htttp_serialize_response_def
    by (auto simp: Let_def emit_body_Inr emit_headers_Inr emit_header_Inr buf_append_Inr response_bytes_def
        status_line_def tail_bytes_def HTTTP_VERSION_def)
qed (simp add: htttp_serialize_response_def)

section \<open>Round trips\<close>

lemma header_get_skip:
  "(\<And>k v. (k, v) \<in> set hs \<Longrightarrow> \<not> ci_eq k key) \<Longrightarrow> htttp_header_get (hs @ hs') key = htttp_header_get hs' key"
  by (induction hs) (auto simp: htttp_header_get_def)

lemma kept_no_length: "(k, v) \<in> set (kept sd hs) \<Longrightarrow> \<not> ci_eq k ''Content-Length''"
  by (auto simp: kept_def)

lemma nat_str_length32: "n < 2 ^ 32 \<Longrightarrow> length (nat_str n) \<le> 10"
  by (rule nat_str_length) simp_all

lemma length_header_good: "length body < 2 ^ 32 \<Longrightarrow> list_all good_header (length_header body)"
proof -
  assume "length body < 2 ^ 32"
  then have "length (nat_str (length body)) \<le> 10" by (rule nat_str_length32)
  moreover have "valid_field True (nat_str (length body))"
    using nat_str_digits [of _ "length body"] by (force simp: valid_field_def list_all_iff is_digit_def)
  ultimately show ?thesis
    by (auto simp: length_header_def good_header_def htttp_lens valid_field_def)
qed

lemma parse_uint_nat_str: "n < 2 ^ 32 \<Longrightarrow> parse_uint (nat_str n) = Inr (word_of_nat n)"
  using nat_str_length32 [of n] nat_str_all_digits [of n]
  by (subst parse_uint_spec) (simp add: unat_of_nat)

text \<open>What both parsers make of the part after the first line.\<close>

lemma parse_tail_at:
  assumes "drop off buf = tail_bytes (hs @ length_header body) body" "list_all good_header hs"
    "length (hs @ length_header body) \<le> HTTTP_MAX_HEADERS" "length body < 2 ^ 32"
    "\<And>k v. (k, v) \<in> set hs \<Longrightarrow> \<not> ci_eq k ''Content-Length''"
  shows "parse_tail buf off = (HTTTP_OK, hs @ length_header body, body)"
proof -
  let ?hs = "hs @ length_header body"
  let ?off = "off + length (concat (map header_bytes ?hs)) + 2"
  have ph: "parse_headers buf off [] = (HTTTP_OK, ?hs, ?off)"
    using parse_headers_at [of off buf ?hs body "[]"] assms(1,2,3) length_header_good [OF assms(4)]
    by (simp add: tail_bytes_def)
  have "drop off buf = (concat (map header_bytes ?hs) @ [CR, NL]) @ body" using assms(1) by (simp add: tail_bytes_def)
  from drop_past [OF this] have d: "drop ?off buf = body" by (simp add: add.assoc)
  then have rem: "length buf - ?off = length body" by (metis length_drop)
  have cl: "htttp_header_get ?hs ''Content-Length'' = (if body = [] then None else Some (nat_str (length body)))"
    using header_get_skip [OF assms(5)]
    by (simp add: length_header_def htttp_header_get_def lower_inj_on_key)
  show ?thesis
    unfolding parse_tail_def ph prod.case Let_def cl rem
    using d parse_uint_nat_str [OF assms(4)] assms(4) by (simp add: unat_of_nat)
qed

text \<open>The fields of a request fit the arrays of \<^verbatim>\<open>htttp_request_t\<close>, and no key holds a colon.\<close>

definition request_fits :: "htttp_request \<Rightarrow> bool" where
  "request_fits req \<longleftrightarrow>
     length (rq_method req) < HTTTP_MAX_METHOD \<and> length (rq_path req) < HTTTP_MAX_PATH \<and>
     length (kept False (rq_headers req) @ length_header (rq_body req)) \<le> HTTTP_MAX_HEADERS \<and>
     list_all (\<lambda>(k, v). length k < HTTTP_MAX_KEY \<and> length v < HTTTP_MAX_VALUE \<and> CHR '':'' \<notin> set k)
       (kept False (rq_headers req)) \<and>
     length (rq_body req) < 2 ^ 32"

lemma request_roundtrip:
  assumes "htttp_serialize_request req cap = Inr out" "request_fits req"
  shows "htttp_parse_request out =
    (HTTTP_OK, req\<lparr>rq_headers := kept False (rq_headers req) @ length_header (rq_body req)\<rparr>)"
proof -
  let ?m = "rq_method req" and ?p = "rq_path req" and ?hs = "kept False (rq_headers req)"
  let ?tail = "tail_bytes (?hs @ length_header (rq_body req)) (rq_body req)"
  from assms(1) have s: "?m \<noteq> []" "?p \<noteq> []" "valid_field False ?m" "valid_field False ?p"
    "list_all sendable ?hs" "out = request_bytes req" by (simp_all add: serialize_request_spec)
  from assms(2) have f: "length ?m < 16" "length ?p < 256" "length (?hs @ length_header (rq_body req)) \<le> 32"
    "list_all (\<lambda>(k, v). length k < HTTTP_MAX_KEY \<and> length v < HTTTP_MAX_VALUE \<and> CHR '':'' \<notin> set k) ?hs"
    "length (rq_body req) < 2 ^ 32" by (simp_all add: request_fits_def htttp_lens)
  have good: "list_all good_header ?hs"
    using s(5) f(4) by (auto simp: list_all_iff sendable_def good_header_def)
  note pm = valid_field_plain [OF s(3)] and pp = valid_field_plain [OF s(4)]
  let ?eol = "length (request_line req)"
  have d0: "drop 0 out = request_line req @ CR # NL # ?tail" using s(6) by (simp add: request_bytes_def)
  have crlf: "find_crlf out 0 = Some ?eol"
    using find_crlf_at [OF _ d0] pm pp by (simp add: request_line_def HTTTP_VERSION_def)
  have d1: "drop 0 out = ?m @ CHR '' '' # (?p @ '' '' @ HTTTP_VERSION @ CR # NL # ?tail)"
    using d0 by (simp add: request_line_def)
  have sp1: "scan_to out CHR '' '' ?eol 0 = length ?m"
    using scan_to_at [OF pm(4) d1] by (simp add: request_line_def)
  have d2: "drop (length ?m + 1) out = ?p @ CHR '' '' # (HTTTP_VERSION @ CR # NL # ?tail)"
    using drop_past [OF d1] drop_ConsD(3) by fastforce
  have sp2: "scan_to out CHR '' '' ?eol (length ?m + 1) = length ?m + 1 + length ?p"
    using scan_to_at [OF pp(4) d2] by (simp add: request_line_def)
  have d3: "drop (length ?m + 1 + length ?p + 1) out = HTTTP_VERSION @ (CR # NL # ?tail)"
    using drop_past [OF d2] drop_ConsD(3) by fastforce
  have m: "copy_token HTTTP_MAX_METHOD (slice out 0 (length ?m)) = Inr ?m"
    using slice_at [OF d1] f(1) pm(3) by (simp add: copy_token_def htttp_lens)
  have p: "copy_token HTTTP_MAX_PATH (slice out (length ?m + 1) (length ?m + 1 + length ?p)) = Inr ?p"
    using slice_at [OF d2] f(2) pp(3) by (simp add: copy_token_def htttp_lens)
  have v: "slice out (length ?m + 1 + length ?p + 1) (length ?m + 1 + length ?p + 1 + VERSION_LEN) = HTTTP_VERSION"
  proof -
    have "length HTTTP_VERSION = VERSION_LEN" by (simp add: HTTTP_VERSION_def VERSION_LEN_def)
    then show ?thesis using slice_at [OF d3] by (simp only:)
  qed
  have "drop (?eol + 2) out = ?tail" using drop_past [of 0 out "request_line req @ [CR, NL]" ?tail] d0 by simp
  then have tail: "parse_tail out (?eol + 2) = (HTTTP_OK, ?hs @ length_header (rq_body req), rq_body req)"
    by (rule parse_tail_at) (use good f kept_no_length in \<open>auto simp: htttp_lens\<close>)
  have e: "?eol = length ?m + 1 + length ?p + 1 + 9" by (simp add: request_line_def HTTTP_VERSION_def)
  show ?thesis
    unfolding htttp_parse_request_def crlf option.case Let_def sp1 m sum.case sp2 p v tail prod.case
    using s(1,2) e by (simp add: VERSION_LEN_def request0_def)
qed

definition response_fits :: "htttp_response \<Rightarrow> bool" where
  "response_fits res \<longleftrightarrow>
     length (kept True (rp_headers res) @ length_header (rp_body res)) < HTTTP_MAX_HEADERS \<and>
     list_all (\<lambda>(k, v). length k < HTTTP_MAX_KEY \<and> length v < HTTTP_MAX_VALUE \<and> CHR '':'' \<notin> set k)
       (kept True (rp_headers res)) \<and>
     length (rp_body res) < 2 ^ 32"

definition tm_ok :: "tm \<Rightarrow> bool" where
  "tm_ok t \<longleftrightarrow> tm_wday t < 7 \<and> tm_mon t < 12 \<and> tm_year t < 8100"

lemma two_digits_valid: "valid_field True (two_digits n)"
  using digit_char_props(1) [of "n div 10 mod 10"] digit_char_props(1) [of "n mod 10"]
  by (auto simp: two_digits_def valid_field_def is_digit_def)

lemma valid_field_append: "valid_field sp (a @ b) \<longleftrightarrow> valid_field sp a \<and> valid_field sp b"
  by (simp add: valid_field_def)

lemma list_all_nth: "list_all P xs \<Longrightarrow> i < length xs \<Longrightarrow> P (xs ! i)"
  by (simp add: list_all_length)

abbreviation name3 :: "string \<Rightarrow> bool" where
  "name3 s \<equiv> valid_field True s \<and> length s = 3"

lemma date_good:
  assumes "tm_ok t"
  shows "length (http_date t) < 48" "good_header (''Date'', http_date t)"
proof -
  have names: "name3 ([''Sun'', ''Mon'', ''Tue'', ''Wed'', ''Thu'', ''Fri'', ''Sat''] ! tm_wday t)"
    by (rule list_all_nth) (use assms in \<open>simp_all add: tm_ok_def valid_field_def\<close>)
  have months: "name3 ([''Jan'', ''Feb'', ''Mar'', ''Apr'', ''May'', ''Jun'', ''Jul'', ''Aug'', ''Sep'', ''Oct'',
      ''Nov'', ''Dec''] ! tm_mon t)"
    by (rule list_all_nth) (use assms in \<open>simp_all add: tm_ok_def valid_field_def\<close>)
  have "valid_field True (nat_str (1900 + tm_year t))"
    using nat_str_digits [of _ "1900 + tm_year t"] by (force simp: valid_field_def list_all_iff is_digit_def)
  moreover have "length (nat_str (1900 + tm_year t)) \<le> 4"
    using assms by (intro nat_str_length) (simp_all add: tm_ok_def)
  moreover have "length (two_digits n) = 2" for n by (simp add: two_digits_def)
  moreover have "valid_field True '', ''" "valid_field True '' ''" "valid_field True '':''" "valid_field True '' GMT''"
    by (simp_all add: valid_field_def)
  ultimately have d: "valid_field True (http_date t)" and l: "length (http_date t) < 48"
    using names months two_digits_valid unfolding http_date_def valid_field_append
    by (simp_all only: length_append) simp_all
  show "length (http_date t) < 48" by (rule l)
  show "good_header (''Date'', http_date t)" using d l by (simp add: good_header_def htttp_lens valid_field_def)
qed

lemma reason_status:
  assumes "htttp_reason st \<noteq> None"
  shows "200 \<le> st" "st \<le> 599" "int_str st = nat_str (nat st)"
    "CR \<notin> set (the (htttp_reason st))" "parse_uint (int_str st) = Inr (word_of_int st)"
proof -
  show b: "200 \<le> st" "st \<le> 599" using assms by (auto simp: htttp_reason_def split: if_splits)
  then show i: "int_str st = nat_str (nat st)" by (simp add: int_str_def)
  show "CR \<notin> set (the (htttp_reason st))" using assms by (auto simp: htttp_reason_def split: if_splits)
  show "parse_uint (int_str st) = Inr (word_of_int st)"
    unfolding i using b by (subst parse_uint_nat_str) simp_all
qed

lemma response_roundtrip:
  assumes "htttp_serialize_response now res cap = Inr out" "response_fits res" "tm_ok now"
  shows "htttp_parse_response out = (HTTTP_OK, res\<lparr>rp_headers :=
    (''Date'', http_date now) # kept True (rp_headers res) @ length_header (rp_body res)\<rparr>)"
proof -
  let ?st = "rp_status res" and ?hs = "(''Date'', http_date now) # kept True (rp_headers res)"
  let ?tail = "tail_bytes (?hs @ length_header (rp_body res)) (rp_body res)"
  from assms(1) have s: "htttp_reason ?st \<noteq> None" "list_all sendable (kept True (rp_headers res))"
    "out = response_bytes now res" by (simp_all add: serialize_response_spec)
  note r = reason_status [OF s(1)]
  have good: "list_all good_header ?hs"
    using s(2) assms(2) date_good(2) [OF assms(3)]
    by (auto simp: list_all_iff sendable_def good_header_def response_fits_def)
  let ?eol = "length (status_line ?st)"
  have d0: "drop 0 out = status_line ?st @ CR # NL # ?tail" using s(3) by (simp add: response_bytes_def)
  have sp: "CR \<notin> set (int_str ?st)" "CHR '' '' \<notin> set (int_str ?st)"
    unfolding r(3) using nat_str_digits [of _ "nat ?st"] by (force simp: is_digit_def)+
  have crlf: "find_crlf out 0 = Some ?eol"
    using find_crlf_at [OF _ d0] sp(1) r(4) by (simp add: status_line_def HTTTP_VERSION_def)
  have d1: "drop 0 out = HTTTP_VERSION @ CHR '' '' # (int_str ?st @ CHR '' '' # the (htttp_reason ?st) @ CR # NL # ?tail)"
    using d0 by (simp add: status_line_def)
  have v: "length HTTTP_VERSION = VERSION_LEN" by (simp add: HTTTP_VERSION_def VERSION_LEN_def)
  have d2: "drop VERSION_LEN out = CHR '' '' # (int_str ?st @ CHR '' '' # the (htttp_reason ?st) @ CR # NL # ?tail)"
    using drop_past [OF d1] v by simp
  note c = drop_ConsD [OF d2]
  have d3: "drop (VERSION_LEN + 1) out = int_str ?st @ CHR '' '' # (the (htttp_reason ?st) @ CR # NL # ?tail)"
    using c(3) by simp
  have sp1: "scan_to out CHR '' '' ?eol (VERSION_LEN + 1) = VERSION_LEN + 1 + length (int_str ?st)"
    using scan_to_at [OF sp(2) d3] v by (simp add: status_line_def)
  have ver: "take VERSION_LEN out = HTTTP_VERSION" using d1 v by simp
  have num: "parse_uint (slice out (VERSION_LEN + 1) (VERSION_LEN + 1 + length (int_str ?st))) = Inr (word_of_int ?st)"
    using slice_at [OF d3] r(5) by simp
  have "drop (?eol + 2) out = ?tail" using drop_past [of 0 out "status_line ?st @ [CR, NL]" ?tail] d0 by simp
  moreover have "\<not> ci_eq k ''Content-Length''" if "(k, v) \<in> set ?hs" for k v
    using that kept_no_length [of k v True "rp_headers res"] by (auto simp: lower_def)
  ultimately have tail: "parse_tail out (?eol + 2) = (HTTTP_OK, ?hs @ length_header (rp_body res), rp_body res)"
    by (intro parse_tail_at) (use good assms(2) in \<open>simp_all add: htttp_lens response_fits_def\<close>)
  have e: "?eol = VERSION_LEN + 1 + length (int_str ?st) + 1 + length (the (htttp_reason ?st))"
    using v by (simp add: status_line_def)
  have w: "uint (word_of_int ?st :: 32 word) = ?st" using r(1,2) by (simp add: uint_word_of_int)
  then have "\<not> (word_of_int ?st < (100 :: 32 word) \<or> 599 < (word_of_int ?st :: 32 word))"
    using r(1,2) by (simp add: word_less_def)
  then show ?thesis
    unfolding htttp_parse_response_def crlf option.case Let_def ver sp1 num sum.case tail prod.case
    using e c(2) w by (simp add: response0_def)
qed

section \<open>What an accepted message guarantees\<close>

lemma copy_token_Inr: "copy_token cap s = Inr t \<Longrightarrow> t = cstr s \<and> length t < cap"
  using cstr_length [of s] by (auto simp: copy_token_def split: if_splits)

lemma copy_token_not_ok: "copy_token cap s \<noteq> Inl HTTTP_OK"
  by (simp add: copy_token_def)

lemma parse_headers_step:
  assumes "parse_headers buf off acc = (HTTTP_OK, hs, off')"
  shows "(find_crlf buf off = Some off \<and> hs = acc \<and> off' = off + 2) \<or>
    (\<exists>eol k v. find_crlf buf off = Some eol \<and> length acc < HTTTP_MAX_HEADERS \<and> length k < HTTTP_MAX_KEY \<and>
       length v < HTTTP_MAX_VALUE \<and> parse_headers buf (eol + 2) (acc @ [(k, v)]) = (HTTTP_OK, hs, off'))"
  using assms unfolding parse_headers.simps [of buf off acc] Let_def
  by (auto split: option.splits if_splits sum.splits simp: not_le copy_token_not_ok dest!: copy_token_Inr)

abbreviation headers_fit :: "htttp_header list \<Rightarrow> bool" where
  "headers_fit hs \<equiv> length hs \<le> HTTTP_MAX_HEADERS \<and>
     list_all (\<lambda>(k, v). length k < HTTTP_MAX_KEY \<and> length v < HTTTP_MAX_VALUE) hs"

lemma parse_headers_ok:
  "parse_headers buf off acc = (HTTTP_OK, hs, off') \<Longrightarrow> headers_fit acc \<Longrightarrow> headers_fit hs \<and> off' \<le> length buf"
proof (induction "length buf - off" arbitrary: off acc rule: less_induct)
  case less
  from parse_headers_step [OF less.prems(1)] show ?case
  proof (elim disjE exE conjE)
    assume "find_crlf buf off = Some off" "hs = acc" "off' = off + 2"
    then show ?thesis using less.prems(2) find_crlf_bounds [of buf off off] by simp
  next
    fix eol k v
    assume c: "find_crlf buf off = Some eol" and acc: "length acc < HTTTP_MAX_HEADERS" "length k < HTTTP_MAX_KEY"
      "length v < HTTTP_MAX_VALUE" and p: "parse_headers buf (eol + 2) (acc @ [(k, v)]) = (HTTTP_OK, hs, off')"
    have "length buf - (eol + 2) < length buf - off" using find_crlf_bounds [OF c] by linarith
    moreover have "headers_fit (acc @ [(k, v)])" using acc less.prems(2) by simp
    ultimately show ?thesis using less.hyps p by blast
  qed
qed

lemma parse_tail_ok:
  assumes "parse_tail buf off = (HTTTP_OK, hs, body)"
  shows "headers_fit hs" "\<exists>pre. buf = pre @ body"
    "case htttp_header_get hs ''Content-Length'' of None \<Rightarrow> body = []
     | Some cl \<Rightarrow> list_all is_digit cl \<and> digits_val cl = length body"
proof -
  obtain rc hs' off' where ph: "parse_headers buf off [] = (rc, hs', off')" by (metis prod_cases3)
  from assms ph have rc: "rc = HTTTP_OK" "hs' = hs"
    by (auto simp: parse_tail_def Let_def split: if_splits option.splits sum.splits)
  from parse_headers_ok [OF ph [unfolded rc]] show "headers_fit hs" by simp
  have off: "off' \<le> length buf" using parse_headers_ok [OF ph [unfolded rc]] by simp
  from assms show "\<exists>pre. buf = pre @ body"
    unfolding parse_tail_def ph rc prod.case Let_def
    by (auto split: if_splits option.splits sum.splits intro: exI [of _ "take off' buf"])
  show "case htttp_header_get hs ''Content-Length'' of None \<Rightarrow> body = []
     | Some cl \<Rightarrow> list_all is_digit cl \<and> digits_val cl = length body"
    using assms off parse_uint_spec unfolding parse_tail_def ph rc prod.case Let_def
    by (auto split: if_splits option.splits sum.splits)
qed

lemma parse_request_ok:
  assumes "htttp_parse_request buf = (HTTTP_OK, req)"
  shows "length (rq_method req) < HTTTP_MAX_METHOD" "length (rq_path req) < HTTTP_MAX_PATH"
    "headers_fit (rq_headers req)" "\<exists>pre. buf = pre @ rq_body req"
    "case htttp_header_get (rq_headers req) ''Content-Length'' of None \<Rightarrow> rq_body req = []
     | Some cl \<Rightarrow> list_all is_digit cl \<and> digits_val cl = length (rq_body req)"
proof -
  from assms obtain eol sp1 sp2 mt pt where
    m: "copy_token HTTTP_MAX_METHOD (slice buf 0 sp1) = Inr mt"
    and p: "copy_token HTTTP_MAX_PATH (slice buf (sp1 + 1) sp2) = Inr pt"
    and t: "parse_tail buf (eol + 2) = (HTTTP_OK, rq_headers req, rq_body req)"
    and req: "rq_method req = mt" "rq_path req = pt"
    unfolding htttp_parse_request_def Let_def
    by (auto split: option.splits if_splits sum.splits prod.splits simp: request0_def)
  show "length (rq_method req) < HTTTP_MAX_METHOD" "length (rq_path req) < HTTTP_MAX_PATH"
    unfolding req using copy_token_Inr [OF m] copy_token_Inr [OF p] by blast+
  show "headers_fit (rq_headers req)" "\<exists>pre. buf = pre @ rq_body req"
    "case htttp_header_get (rq_headers req) ''Content-Length'' of None \<Rightarrow> rq_body req = []
     | Some cl \<Rightarrow> list_all is_digit cl \<and> digits_val cl = length (rq_body req)"
    using parse_tail_ok [OF t] by auto
qed

section \<open>Properties\<close>

lemma header_get_simps [simp]:
  "htttp_header_get [] k = None"
  "htttp_header_get ((k', v) # hs) k = (if ci_eq k' k then Some v else htttp_header_get hs k)"
  by (simp_all add: htttp_header_get_def)

lemma header_get_append:
  "htttp_header_get (hs @ hs') k = (case htttp_header_get hs k of None \<Rightarrow> htttp_header_get hs' k | Some v \<Rightarrow> Some v)"
  by (induction hs) auto

lemma ci_eq_sym: "ci_eq a b \<longleftrightarrow> ci_eq b a"
  by (auto simp: lower_inj_on_key)

lemma ci_eq_swap: "ci_eq a b \<Longrightarrow> ci_eq a c \<longleftrightarrow> ci_eq b c"
  by (simp add: lower_inj_on_key)

lemma header_get_kept:
  assumes "\<not> ci_eq k ''Content-Length''" "sd \<Longrightarrow> \<not> ci_eq k ''Date''"
  shows "htttp_header_get (kept sd hs) k = htttp_header_get hs k"
  unfolding kept_def
proof (induction hs)
  case (Cons h hs)
  obtain k' v where h: "h = (k', v)" by (cases h)
  from ci_eq_swap [of k' k] assms
  have "ci_eq k' k \<Longrightarrow> \<not> ci_eq k' ''Content-Length'' \<and> \<not> (sd \<and> ci_eq k' ''Date'')" by blast
  with Cons.IH show ?case unfolding h by (auto simp del: ci_eq.simps)
qed simp

lemma header_get_length:
  assumes "\<not> ci_eq k ''Content-Length''"
  shows "htttp_header_get (length_header body) k = None"
  using assms ci_eq_sym [of k "''Content-Length''"] by (auto simp: length_header_def simp del: ci_eq.simps)

text \<open>
  A request that \<^verbatim>\<open>htttp_serialize_request\<close> writes is read back by \<^verbatim>\<open>htttp_parse_request\<close> with the
  same method, path and body, and with the same value under every header name except
  Content-Length, which the serialiser computes from the body.
\<close>

theorem request_survives:
  assumes "htttp_serialize_request req cap = Inr out" "request_fits req"
  shows "\<exists>got. htttp_parse_request out = (HTTTP_OK, got) \<and>
    rq_method got = rq_method req \<and> rq_path got = rq_path req \<and> rq_body got = rq_body req \<and>
    (\<forall>key. \<not> ci_eq key ''Content-Length'' \<longrightarrow>
       htttp_header_get (rq_headers got) key = htttp_header_get (rq_headers req) key)"
  using request_roundtrip [OF assms] header_get_kept [of _ False] header_get_length
  by (auto simp: header_get_append simp del: ci_eq.simps split: option.splits)

theorem request_survives_witness:
  "\<exists>out got. htttp_serialize_request \<lparr>rq_method = ''CAST'', rq_path = ''/election/E-100'',
       rq_headers = [(''Host'', ''x''), (''content-length'', ''99'')], rq_body = ''cert=alice''\<rparr> 200 = Inr out \<and>
     htttp_parse_request out = (HTTTP_OK, got) \<and> rq_body got = ''cert=alice'' \<and>
     htttp_header_get (rq_headers got) ''host'' = Some ''x''"
proof -
  let ?r = "\<lparr>rq_method = ''CAST'', rq_path = ''/election/E-100'',
       rq_headers = [(''Host'', ''x''), (''content-length'', ''99'')], rq_body = ''cert=alice''\<rparr>"
  have "\<not> isl (htttp_serialize_request ?r 200)" by code_simp
  then obtain out where out: "htttp_serialize_request ?r 200 = Inr out" by (metis sum.collapse(2))
  have "request_fits ?r" by (simp add: request_fits_def htttp_lens kept_def length_header_def lower_def)
  note got = request_survives [OF out this]
  have h: "\<not> ci_eq ''host'' ''Content-Length''" "htttp_header_get (rq_headers ?r) ''host'' = Some ''x''" by code_simp+
  from got h(1) obtain g where g: "htttp_parse_request out = (HTTTP_OK, g)" "rq_body g = rq_body ?r"
    "htttp_header_get (rq_headers g) ''host'' = htttp_header_get (rq_headers ?r) ''host''" by blast
  show ?thesis by (intro exI conjI, rule out, rule g(1)) (simp only: g(2) htttp_request.simps, simp only: g(3) h(2))
qed

text \<open>
  A response that \<^verbatim>\<open>htttp_serialize_response\<close> writes is read back with the same status and body,
  and with the same value under every header name except Content-Length and Date, which the
  serialiser sets itself, for every time of day up to the year 9999.
\<close>

theorem response_survives:
  assumes "htttp_serialize_response now res cap = Inr out" "response_fits res" "tm_ok now"
  shows "\<exists>got. htttp_parse_response out = (HTTTP_OK, got) \<and>
    rp_status got = rp_status res \<and> rp_body got = rp_body res \<and>
    (\<forall>key. \<not> ci_eq key ''Content-Length'' \<longrightarrow> \<not> ci_eq key ''Date'' \<longrightarrow>
       htttp_header_get (rp_headers got) key = htttp_header_get (rp_headers res) key)"
proof -
  have "htttp_header_get ((''Date'', http_date now) # kept True (rp_headers res) @ length_header (rp_body res)) key =
      htttp_header_get (rp_headers res) key" if "\<not> ci_eq key ''Content-Length''" "\<not> ci_eq key ''Date''" for key
    using header_get_kept [OF that(1), of True] header_get_length [OF that(1)] that ci_eq_sym [of key "''Date''"]
    by (auto simp: header_get_append simp del: ci_eq.simps split: option.splits)
  then show ?thesis
    unfolding response_roundtrip [OF assms]
    by (intro exI [of _ "res\<lparr>rp_headers := (''Date'', http_date now) # kept True (rp_headers res) @ length_header (rp_body res)\<rparr>"])
       simp
qed

theorem response_survives_witness:
  "\<exists>out got. htttp_serialize_response \<lparr>tm_sec = 5, tm_min = 4, tm_hour = 3, tm_mday = 2, tm_mon = 0, tm_year = 126, tm_wday = 5\<rparr>
       \<lparr>rp_status = 404, rp_headers = [(''Host'', ''x''), (''Date'', ''never'')], rp_body = ''result=NOT_FOUND''\<rparr> 200 = Inr out \<and>
     htttp_parse_response out = (HTTTP_OK, got) \<and> rp_status got = 404 \<and> rp_body got = ''result=NOT_FOUND'' \<and>
     htttp_header_get (rp_headers got) ''host'' = Some ''x''"
proof -
  let ?t = "\<lparr>tm_sec = 5, tm_min = 4, tm_hour = 3, tm_mday = 2, tm_mon = 0, tm_year = 126, tm_wday = 5\<rparr>"
  let ?r = "\<lparr>rp_status = 404, rp_headers = [(''Host'', ''x''), (''Date'', ''never'')], rp_body = ''result=NOT_FOUND''\<rparr>"
  have "\<not> isl (htttp_serialize_response ?t ?r 200)" by code_simp
  then obtain out where out: "htttp_serialize_response ?t ?r 200 = Inr out" by (metis sum.collapse(2))
  have "response_fits ?r" "tm_ok ?t" by (simp_all add: response_fits_def tm_ok_def htttp_lens kept_def length_header_def lower_def)
  note got = response_survives [OF out this]
  have h: "\<not> ci_eq ''host'' ''Content-Length''" "\<not> ci_eq ''host'' ''Date''"
    "htttp_header_get (rp_headers ?r) ''host'' = Some ''x''" by code_simp+
  from got h(1,2) obtain g where g: "htttp_parse_response out = (HTTTP_OK, g)" "rp_status g = rp_status ?r" "rp_body g = rp_body ?r"
    "htttp_header_get (rp_headers g) ''host'' = htttp_header_get (rp_headers ?r) ''host''" by blast
  show ?thesis by (intro exI conjI, rule out, rule g(1))
    (simp only: g(2) htttp_response.simps, simp only: g(3) htttp_response.simps, simp only: g(4) h(3))
qed

text \<open>
  What an accepted request guarantees to its reader: method and path fit their fields, at
  most 32 headers fit theirs, the body is the last part of the frame, and its length is exactly
  the number the Content-Length header spells in decimal digits (no header: no body).
\<close>

theorem accepted_request_bounded:
  assumes "htttp_parse_request buf = (HTTTP_OK, req)"
  shows "length (rq_method req) < HTTTP_MAX_METHOD \<and> length (rq_path req) < HTTTP_MAX_PATH \<and>
    length (rq_headers req) \<le> HTTTP_MAX_HEADERS \<and>
    list_all (\<lambda>(k, v). length k < HTTTP_MAX_KEY \<and> length v < HTTTP_MAX_VALUE) (rq_headers req) \<and>
    (\<exists>pre. buf = pre @ rq_body req) \<and>
    (case htttp_header_get (rq_headers req) ''Content-Length'' of None \<Rightarrow> rq_body req = []
     | Some cl \<Rightarrow> list_all is_digit cl \<and> digits_val cl = length (rq_body req))"
  using parse_request_ok [OF assms] by simp

theorem accepted_request_bounded_witness:
  "\<exists>req. htttp_parse_request (''JOIN /a HTTTP/1.0'' @ [CR, NL] @ ''Content-Length: 2'' @ [CR, NL, CR, NL] @ ''hi'') = (HTTTP_OK, req) \<and>
     length (rq_method req) < HTTTP_MAX_METHOD"
proof -
  have "fst (htttp_parse_request (''JOIN /a HTTTP/1.0'' @ [CR, NL] @ ''Content-Length: 2'' @ [CR, NL, CR, NL] @ ''hi'')) = HTTTP_OK"
    by code_simp
  then obtain req where "htttp_parse_request (''JOIN /a HTTTP/1.0'' @ [CR, NL] @ ''Content-Length: 2'' @ [CR, NL, CR, NL] @ ''hi'') =
      (HTTTP_OK, req)" by (metis prod.collapse)
  with accepted_request_bounded [OF this] show ?thesis by blast
qed

text \<open>
  A declared length is read exactly or not at all: \<^verbatim>\<open>parse_uint\<close> accepts 1 to 32 decimal digits
  whose value fits 32 bits, without wrapping, and rejects every other field.
\<close>

theorem parse_uint_exact:
  "parse_uint s = Inr r \<longleftrightarrow>
     s \<noteq> [] \<and> length s \<le> 32 \<and> list_all is_digit s \<and> digits_val s < 2 ^ 32 \<and> unat r = digits_val s"
  by (rule parse_uint_spec)

end
