(* ===== verification/Auth.thy ===== *)
theory Auth
  imports Account Secret Tetrissh Htttp Rc
begin

text \<open>
  The exchange before a session is anyone's, \<^verbatim>\<open>src/src/libtetrisauth/auth.c\<close>, and its settings,
  \<^verbatim>\<open>lib/conf.c\<close>. The static variables of the library are a record; the database, PBKDF2, HMAC,
  OpenSSL and the settings file are an environment, and what the clock, the random generator,
  the semaphore and the disk answer during one exchange is a record of draws. Log records are
  not modelled here.
\<close>

section \<open>Settings\<close>

definition AUTH_DEFAULT_MAX_ATTEMPTS :: int where "AUTH_DEFAULT_MAX_ATTEMPTS = 5"
definition AUTH_DEFAULT_TOKEN_TTL :: int where "AUTH_DEFAULT_TOKEN_TTL = 604800"
definition AUTH_DEFAULT_PBKDF2_ITERS :: int where "AUTH_DEFAULT_PBKDF2_ITERS = 600000"
definition DB_DEFAULT_IPC :: string where "DB_DEFAULT_IPC = ''var/run/tetrisdb.sock''"
definition DB_DEFAULT_TIMEOUT_MS :: int where "DB_DEFAULT_TIMEOUT_MS = 2000"
definition DB_TIMEOUT_MIN_MS :: int where "DB_TIMEOUT_MIN_MS = 100"
definition DB_TIMEOUT_MAX_MS :: int where "DB_TIMEOUT_MAX_MS = 60000"

record auth_conf =
  max_attempts :: int
  token_ttl :: int
  pbkdf2_iters :: int
  db_timeout_ms :: int
  db_sock :: string

definition glb_conf :: auth_conf where
  "glb_conf = \<lparr>max_attempts = AUTH_DEFAULT_MAX_ATTEMPTS, token_ttl = AUTH_DEFAULT_TOKEN_TTL,
     pbkdf2_iters = AUTH_DEFAULT_PBKDF2_ITERS, db_timeout_ms = DB_DEFAULT_TIMEOUT_MS, db_sock = DB_DEFAULT_IPC\<rparr>"

record auth_state =
  au_conf :: auth_conf
  au_frozen :: bool
  au_rc :: rc_cache
  au_name :: string
  au_sh :: bool

definition auth_state0 :: auth_state where
  "auth_state0 = \<lparr>au_conf = glb_conf, au_frozen = False, au_rc = rc_fresh, au_name = [], au_sh = False\<rparr>"

definition auth_conf_load :: "rc_file \<Rightarrow> auth_state \<Rightarrow> auth_state" where
  "auth_conf_load F st =
     (if au_frozen st then st
      else let c = au_conf st in
        case rc_get_int F ''auth_max_attempts'' AUTH_DEFAULT_MAX_ATTEMPTS 1 100 (Some (max_attempts c)) (au_rc st) of ((_, a), rc) \<Rightarrow>
        case rc_get_int F ''auth_token_ttl'' AUTH_DEFAULT_TOKEN_TTL 60 31536000 (Some (token_ttl c)) rc of ((_, t), rc) \<Rightarrow>
        case rc_get_int F ''auth_pbkdf2_iters'' AUTH_DEFAULT_PBKDF2_ITERS 1 10000000 (Some (pbkdf2_iters c)) rc of ((_, p), rc) \<Rightarrow>
        case rc_get_int F ''db_timeout'' DB_DEFAULT_TIMEOUT_MS DB_TIMEOUT_MIN_MS DB_TIMEOUT_MAX_MS (Some (db_timeout_ms c)) rc of ((_, m), rc) \<Rightarrow>
        case rc_get F ''db_ipc'' (Some DB_DEFAULT_IPC) (Some (db_sock c)) 108 rc of ((_, s), rc) \<Rightarrow>
          st\<lparr>au_conf := \<lparr>max_attempts = the a, token_ttl = the t, pbkdf2_iters = the p, db_timeout_ms = the m, db_sock = the s\<rparr>,
             au_frozen := True, au_rc := rc\<rparr>)"

section \<open>One exchange\<close>

datatype auth_method = AUTH_NONE | AUTH_GUEST | AUTH_LOGIN | AUTH_REGISTER

record ('pub, 'priv, 'cert) auth_env =
  ae_db :: env
  ae_pbkdf2 :: pbkdf2
  ae_hmac :: hmac
  ae_ossl :: "('pub, 'priv, 'cert) ossl"
  ae_rc :: rc_file
  ae_euid :: nat

record auth_draw =
  ad_iv :: "string option"
  ad_tm :: tm
  ad_salt :: "string option"
  ad_turn :: bool
  ad_clock :: "nat \<Rightarrow> int"
  ad_now :: int
  ad_readable :: bool
  ad_disk :: disk
  ad_reads :: "io_event list"

record auth_run =
  ar_state :: auth_state
  ar_session :: session
  ar_sock :: sock
  ar_world :: world

definition SECRET_MAX :: nat where "SECRET_MAX = 64"
definition REPLY_MAX :: nat where "REPLY_MAX = 1024"

definition auth_reply :: "('pub, 'priv, 'cert) ossl \<Rightarrow> auth_draw \<Rightarrow> int \<Rightarrow> string \<Rightarrow> auth_run \<Rightarrow> auth_run" where
  "auth_reply X d status body r =
     (case htttp_serialize_response (ad_tm d) \<lparr>rp_status = status, rp_headers = [], rp_body = body\<rparr> REPLY_MAX of
        Inl _ \<Rightarrow> r
      | Inr out \<Rightarrow> r\<lparr>ar_sock := snd (session_send X (ad_iv d) (ar_session r) out (ar_sock r))\<rparr>)"

definition accept_guest :: "auth_state \<Rightarrow> auth_state" where
  "accept_guest st = st\<lparr>au_name := []\<rparr>"

definition auth_method_of :: "htttp_request \<Rightarrow> auth_method" where
  "auth_method_of req =
     (if rq_method req = ''GUEST'' then AUTH_GUEST
      else if rq_method req = ''LOGIN'' then AUTH_LOGIN
      else if rq_method req = ''REGISTER'' then AUTH_REGISTER
      else AUTH_NONE)"

definition req_body_split :: "string \<Rightarrow> acc option" where
  "req_body_split body =
     (if body = [] then None
      else if NL \<notin> set body then None
      else let user = takeWhile (\<lambda>c. c \<noteq> NL) body; pass = drop (length user + 1) body
           in if length user = 0 \<or> length pass = 0 then None else Some \<lparr>ac_user = user, ac_pass = pass\<rparr>)"

definition handle_guest_and_invalid_method :: "auth_method \<Rightarrow> auth_state \<Rightarrow> int \<times> auth_state" where
  "handle_guest_and_invalid_method m st =
     (case m of AUTH_GUEST \<Rightarrow> (200, accept_guest st) | AUTH_NONE \<Rightarrow> (401, st) | _ \<Rightarrow> (0, st))"

definition auth_session_parser ::
    "('pub, 'priv, 'cert) auth_env \<Rightarrow> auth_run \<Rightarrow> (int + auth_method \<times> acc) \<times> auth_run" where
  "auth_session_parser A r =
     (case session_recv (ae_ossl A) SESSION_MAX_FRAME (ar_session r) (ar_sock r) of
        ((rc, buf), s, sk) \<Rightarrow>
          let r = r\<lparr>ar_session := s, ar_sock := sk\<rparr>
          in if rc = SESSION_ERR_IO \<or> rc = SESSION_ERR_TOOBIG then (Inl (- 1), r)
             else if rc \<noteq> SESSION_OK then (Inl 400, r)
             else case htttp_parse_request buf of
                    (prc, req) \<Rightarrow>
                      if prc \<noteq> HTTTP_OK then (Inl 400, r)
                      else case handle_guest_and_invalid_method (auth_method_of req) (ar_state r) of
                             (status, st) \<Rightarrow>
                               if status \<noteq> 0 then (Inl status, r\<lparr>ar_state := st\<rparr>)
                               else let r = r\<lparr>ar_state := auth_conf_load (ae_rc A) st\<rparr>
                                    in case req_body_split (rq_body req) of
                                         None \<Rightarrow> (Inl 400, r)
                                       | Some c \<Rightarrow> (Inr (auth_method_of req, c), r))"

definition token_handler ::
    "('pub, 'priv, 'cert) auth_env \<Rightarrow> auth_draw \<Rightarrow> string \<Rightarrow> int \<Rightarrow> auth_state \<Rightarrow> int \<times> string \<times> auth_state" where
  "token_handler A d name i st =
     (case auth_secret_load (ad_readable d) (ae_euid A) (ad_disk d) (ad_reads d) ''.'' SECRET_MAX of
        None \<Rightarrow> (500, [], st)
      | Some secret \<Rightarrow>
          (case token_mint (ae_hmac A) TOKEN_MAX_LEN
                  \<lparr>tc_sub = i, tc_name = snprintf_s (TOKEN_NAME_MAX + 1) name, tc_iat = ad_now d,
                   tc_exp = ad_now d + token_ttl (au_conf st)\<rparr> secret of
             None \<Rightarrow> (500, [], st)
           | Some token \<Rightarrow> (200, token, st\<lparr>au_name := snprintf_s MAX_USER_NAME name\<rparr>)))"

text \<open>The account operations and the token, for credentials that were parsed.\<close>

definition auth_account ::
    "('pub, 'priv, 'cert) auth_env \<Rightarrow> auth_draw \<Rightarrow> auth_method \<Rightarrow> acc \<Rightarrow> auth_run \<Rightarrow> int \<times> string \<times> auth_run" where
  "auth_account A d m c r =
     (case user_name_fold MAX_USER_NAME (ac_user c) of
        None \<Rightarrow> (400, [], r)
      | Some name \<Rightarrow>
          (case (case m of
                   AUTH_LOGIN \<Rightarrow> account_login (ae_db A) (ae_pbkdf2 A) name c (ar_world r)
                 | AUTH_REGISTER \<Rightarrow> account_register (ae_db A) (ae_pbkdf2 A) (pbkdf2_iters (au_conf (ar_state r)))
                     (ad_salt d) (ad_turn d) (ad_clock d) name c (ar_world r)
                 | _ \<Rightarrow> ((500, None), ar_world r)) of
             ((status, ident), w) \<Rightarrow>
               let r = r\<lparr>ar_world := w\<rparr>
               in if status \<noteq> 200 then (status, [], r)
                  else case token_handler A d name (case ident of None \<Rightarrow> 0 | Some i \<Rightarrow> i) (ar_state r) of
                         (status, token, st) \<Rightarrow> (status, token, r\<lparr>ar_state := st\<rparr>)))"

definition auth_handler :: "('pub, 'priv, 'cert) auth_env \<Rightarrow> auth_draw \<Rightarrow> auth_run \<Rightarrow> int \<times> auth_run" where
  "auth_handler A d r =
     (let r = r\<lparr>ar_state := (ar_state r)\<lparr>au_sh := True\<rparr>\<rparr>
      in case (case auth_session_parser A r of
                 (Inl status, r) \<Rightarrow> (status, [], r)
               | (Inr (m, c), r) \<Rightarrow> auth_account A d m c r) of
           (status, token, r) \<Rightarrow>
             (status, if 0 < status then auth_reply (ae_ossl A) d status (if status = 200 then token else []) r else r))"

section \<open>The whole exchange\<close>

datatype auth_outcome = AUTH_OK | AUTH_DROP

text \<open>\<open>n\<close> counts the exchanges and \<open>i\<close> those that are charged.\<close>

partial_function (option) auth_retry_loop ::
    "('pub, 'priv, 'cert) auth_env \<Rightarrow> (nat \<Rightarrow> auth_draw) \<Rightarrow> nat \<Rightarrow> int \<Rightarrow> auth_run \<Rightarrow> (auth_outcome \<times> auth_run) option" where
  "auth_retry_loop A draws n i r =
     (if \<not> i < max_attempts (au_conf (ar_state r)) then Some (AUTH_DROP, r)
      else case auth_handler A (draws n) r of
             (status, r) \<Rightarrow>
               if status = 200 then Some (AUTH_OK, r)
               else if status < 0 then Some (AUTH_DROP, r)
               else auth_retry_loop A draws (Suc n) (if status \<noteq> 400 then i + 1 else i) r)"

definition auth_retry_handler ::
    "('pub, 'priv, 'cert) auth_env \<Rightarrow> (nat \<Rightarrow> auth_draw) \<Rightarrow> auth_run \<Rightarrow> (auth_outcome \<times> auth_run) option" where
  "auth_retry_handler A draws r = auth_retry_loop A draws 0 0 r"

definition auth_offer ::
    "('pub, 'priv, 'cert) ossl \<Rightarrow> auth_draw \<Rightarrow> htttp_request \<Rightarrow> auth_run \<Rightarrow> bool \<times> auth_run" where
  "auth_offer X d req r =
     (if auth_method_of req = AUTH_NONE then (False, r)
      else if \<not> au_sh (ar_state r) then (False, r)
      else (True, auth_reply X d 409 [] r))"

definition auth_get_name :: "nat \<Rightarrow> auth_state \<Rightarrow> string" where
  "auth_get_name cap st = (if cap = 0 then [] else snprintf_s cap (au_name st))"

section \<open>The exchange ends\<close>

text \<open>The bytes still to come on a socket; every exchange on a usable session takes some.\<close>

fun in_bytes :: "rd_event list \<Rightarrow> nat" where
  "in_bytes [] = 0"
| "in_bytes (Data bs # evs) = length bs + in_bytes evs"
| "in_bytes (_ # evs) = in_bytes evs"

definition usable :: "session \<Rightarrow> bool" where
  "usable s \<longleftrightarrow> ss_established s \<and> \<not> ss_recv_dead s"

lemma recv_loop_bytes: "recv_loop n got evs = (Some out, evs') \<Longrightarrow> in_bytes evs' + n = in_bytes evs"
proof (induction n got evs arbitrary: evs' rule: recv_loop.induct)
  case (1 n got evs)
  show ?case
  proof (cases "n = 0")
    case True
    with "1.prems" show ?thesis by (simp add: recv_loop.simps)
  next
    case False
    then obtain c cs es where e: "evs = Data (c # cs) # es"
      using "1.prems" by (subst (asm) recv_loop.simps) (auto split: list.splits rd_event.splits)
    let ?n = "min (min n 1024) (Suc (length cs))"
    let ?evs = "if ?n < Suc (length cs) then Data (drop ?n (c # cs)) # es else es"
    have run: "recv_loop (n - ?n) (got @ take ?n (c # cs)) ?evs = (Some out, evs')"
      using "1.prems" False e by (subst (asm) recv_loop.simps) (simp add: Let_def)
    from "1.IH" [OF False e refl refl refl refl run] have "in_bytes evs' + (n - ?n) = in_bytes ?evs" .
    then show ?thesis by (auto simp: e min_def split: if_splits)
  qed
qed

lemma read_bytes_taken: "read_bytes n sk = (Some out, sk') \<Longrightarrow> in_bytes (sk_in sk') + n = in_bytes (sk_in sk)"
  by (auto simp: read_bytes_def dest: recv_loop_bytes split: prod.splits)

lemma session_recv_progress:
  assumes "usable s" "session_recv X cap s sk = ((rc, buf), s', sk')"
  shows "rc = SESSION_ERR_IO \<or> rc = SESSION_ERR_TOOBIG \<or> s' = s \<and> in_bytes (sk_in sk') < in_bytes (sk_in sk)"
proof -
  obtain l sk1 where 1: "read_bytes 4 sk = (l, sk1)" by (metis prod.exhaust)
  show ?thesis
  proof (cases l)
    case None
    with assms 1 show ?thesis by (auto simp: session_recv_def usable_def read_u32_def)
  next
    case (Some lb)
    obtain t sk2 where 2: "read_bytes (unat (be32_val lb)) sk1 = (t, sk2)" by (metis prod.exhaust)
    show ?thesis
    proof (cases t)
      case None
      with assms 1 Some 2 show ?thesis by (auto simp: session_recv_def usable_def read_u32_def split: if_splits)
    next
      case (Some tok)
      from read_bytes_taken [OF 1 [unfolded \<open>l = Some lb\<close>]] read_bytes_taken [OF 2 [unfolded Some]]
      have "in_bytes (sk_in sk2) < in_bytes (sk_in sk)" by simp
      with assms 1 \<open>l = Some lb\<close> 2 Some show ?thesis
        by (auto simp: session_recv_def usable_def read_u32_def split: if_splits option.splits)
    qed
  qed
qed

lemma session_recv_unusable:
  "\<not> usable s \<Longrightarrow> session_recv X cap s sk = ((SESSION_ERR_PROTO, []), s, sk)"
  by (auto simp: session_recv_def usable_def)

lemma send_all_in: "send_all bs sk = (ok, sk') \<Longrightarrow> sk_in sk' = sk_in sk"
  using send_all_spec by blast

lemma send_keeps_in: "sk_in (snd (session_send X iv s buf sk)) = sk_in sk"
  by (auto simp: session_send_def send_u32_def dest!: send_all_in split: option.splits prod.splits)

lemma reply_keeps [simp]:
  "ar_session (auth_reply X d status body r) = ar_session r" "ar_state (auth_reply X d status body r) = ar_state r"
  "ar_world (auth_reply X d status body r) = ar_world r" "sk_in (ar_sock (auth_reply X d status body r)) = sk_in (ar_sock r)"
  by (simp_all add: auth_reply_def send_keeps_in split: sum.splits)

lemma account_keeps:
  "auth_account A d m c r = (status, token, r') \<Longrightarrow> ar_session r' = ar_session r \<and> ar_sock r' = ar_sock r"
  by (auto simp: auth_account_def Let_def split: option.splits prod.splits if_splits auth_method.splits)

lemma parser_progress:
  assumes "usable (ar_session r)" "auth_session_parser A r = (x, r')"
  shows "x = Inl (- 1) \<or> ar_session r' = ar_session r \<and> in_bytes (sk_in (ar_sock r')) < in_bytes (sk_in (ar_sock r))"
proof -
  obtain rc buf s sk where e: "session_recv (ae_ossl A) SESSION_MAX_FRAME (ar_session r) (ar_sock r) = ((rc, buf), s, sk)"
    by (metis prod.exhaust)
  from session_recv_progress [OF assms(1) e] show ?thesis
  proof (elim disjE conjE)
    assume "s = ar_session r" "in_bytes (sk_in sk) < in_bytes (sk_in (ar_sock r))"
    then show ?thesis using assms(2) e
      by (auto simp: auth_session_parser_def Let_def split: if_splits prod.splits option.splits)
  qed (use assms(2) e in \<open>auto simp: auth_session_parser_def Let_def\<close>)
qed

lemma handler_progress:
  assumes "usable (ar_session r)" "auth_handler A d r = (status, r')"
  shows "status = - 1 \<or> ar_session r' = ar_session r \<and> in_bytes (sk_in (ar_sock r')) < in_bytes (sk_in (ar_sock r))"
proof -
  let ?r = "r\<lparr>ar_state := (ar_state r)\<lparr>au_sh := True\<rparr>\<rparr>"
  obtain x r1 where p: "auth_session_parser A ?r = (x, r1)" by (metis prod.exhaust)
  from parser_progress [OF _ p] assms(1) have x: "x = Inl (- 1) \<or> ar_session r1 = ar_session r \<and> in_bytes (sk_in (ar_sock r1)) < in_bytes (sk_in (ar_sock r))"
    by simp
  show ?thesis
  proof (cases x)
    case (Inl st)
    with assms(2) p x show ?thesis by (auto simp: auth_handler_def Let_def)
  next
    case (Inr mc)
    obtain m c where mc: "mc = (m, c)" by (cases mc)
    obtain st tok r2 where a: "auth_account A d m c r1 = (st, tok, r2)" by (metis prod.exhaust)
    from account_keeps [OF a] assms(2) p x Inr mc a show ?thesis by (auto simp: auth_handler_def Let_def)
  qed
qed

lemma handler_stuck:
  assumes "\<not> usable (ar_session r)" "auth_handler A d r = (status, r')"
  shows "status = 400 \<and> ar_session r' = ar_session r \<and> au_conf (ar_state r') = au_conf (ar_state r)"
  using assms by (auto simp: auth_handler_def auth_session_parser_def session_recv_unusable Let_def)

lemma retry_returns: "usable (ar_session r) \<Longrightarrow> \<exists>res. auth_retry_loop A draws n i r = Some res"
proof (induction "in_bytes (sk_in (ar_sock r))" arbitrary: n i r rule: less_induct)
  case less
  obtain status r' where h: "auth_handler A (draws n) r = (status, r')" by (metis prod.exhaust)
  show ?case
  proof (cases "i < max_attempts (au_conf (ar_state r)) \<and> status \<noteq> 200 \<and> \<not> status < 0")
    case True
    from handler_progress [OF less.prems h] True have "usable (ar_session r')" "in_bytes (sk_in (ar_sock r')) < in_bytes (sk_in (ar_sock r))"
      using less.prems by auto
    from less.hyps [OF this(2) this(1)] show ?thesis using True h by (subst auth_retry_loop.simps) simp
  qed (subst auth_retry_loop.simps, auto simp: h)
qed

lemma retry_hangs:
  assumes "auth_retry_loop A draws n i r = Some res"
  shows "usable (ar_session r) \<or> max_attempts (au_conf (ar_state r)) \<le> i"
proof (rule auth_retry_loop.raw_induct
    [where P = "\<lambda>A draws n i r res. usable (ar_session r) \<or> max_attempts (au_conf (ar_state r)) \<le> i", OF _ assms])
  fix loop :: "('a, 'b, 'c) auth_env \<Rightarrow> (nat \<Rightarrow> auth_draw) \<Rightarrow> nat \<Rightarrow> int \<Rightarrow> auth_run \<Rightarrow> (auth_outcome \<times> auth_run) option"
    and A draws n i r res
  assume ih: "\<And>A draws n i r y. loop A draws n i r = Some y \<Longrightarrow> usable (ar_session r) \<or> max_attempts (au_conf (ar_state r)) \<le> i"
    and run: "(if \<not> i < max_attempts (au_conf (ar_state r)) then Some (AUTH_DROP, r)
      else case auth_handler A (draws n) r of (status, r) \<Rightarrow>
        if status = 200 then Some (AUTH_OK, r) else if status < 0 then Some (AUTH_DROP, r)
        else loop A draws (Suc n) (if status \<noteq> 400 then i + 1 else i) r) = Some res"
  obtain status r' where h: "auth_handler A (draws n) r = (status, r')" by (metis prod.exhaust)
  show "usable (ar_session r) \<or> max_attempts (au_conf (ar_state r)) \<le> i"
  proof (rule ccontr)
    assume n: "\<not> ?thesis"
    from handler_stuck [OF _ h] n have st: "status = 400" "ar_session r' = ar_session r" "au_conf (ar_state r') = au_conf (ar_state r)" by auto
    with run n h have "loop A draws (Suc n) i r' = Some res" by simp
    from ih [OF this] st n show False by simp
  qed
qed

text \<open>
  C30: the authentication exchange returns exactly when the session can be read from: every
  exchange then takes bytes off a finite stream, and on a session that cannot be read from the
  answer is an uncharged 400 for ever.
\<close>

theorem auth_retry_terminates:
  assumes "0 < max_attempts (au_conf (ar_state r))"
  shows "(\<exists>res. auth_retry_handler A draws r = Some res) \<longleftrightarrow> ss_established (ar_session r) \<and> \<not> ss_recv_dead (ar_session r)"
  using assms retry_returns [of r A draws 0 0] retry_hangs [of A draws 0 0 r]
  by (auto simp: auth_retry_handler_def usable_def)

section \<open>Whom the exchange admits\<close>

definition conf_ok :: "auth_conf \<Rightarrow> bool" where
  "conf_ok c \<longleftrightarrow> 1 \<le> max_attempts c \<and> max_attempts c \<le> 100 \<and> 60 \<le> token_ttl c \<and> token_ttl c \<le> 31536000 \<and>
     1 \<le> pbkdf2_iters c \<and> pbkdf2_iters c \<le> 10000000 \<and> 100 \<le> db_timeout_ms c \<and> db_timeout_ms c \<le> 60000"

lemmas conf_consts = AUTH_DEFAULT_MAX_ATTEMPTS_def AUTH_DEFAULT_TOKEN_TTL_def AUTH_DEFAULT_PBKDF2_ITERS_def
  DB_DEFAULT_TIMEOUT_MS_def DB_TIMEOUT_MIN_MS_def DB_TIMEOUT_MAX_MS_def

lemma rc_int_within:
  assumes "rc_get_int F key fallback lo hi (Some d) rc = ((st, out), rc')" "- (2 ^ 31) \<le> lo" "hi < 2 ^ 31" "lo \<le> fallback" "fallback \<le> hi"
  shows "lo \<le> the out \<and> the out \<le> hi"
  using rc_get_int_bounds [OF assms(1-3)] assms(4,5) by (auto split: if_splits)

lemma conf_load_ok:
  assumes "conf_ok (au_conf st)"
  shows "conf_ok (au_conf (auth_conf_load F st))"
proof (cases "au_frozen st")
  case False
  let ?c = "au_conf st"
  obtain s1 a r1 where 1: "rc_get_int F ''auth_max_attempts'' AUTH_DEFAULT_MAX_ATTEMPTS 1 100 (Some (max_attempts ?c)) (au_rc st) = ((s1, a), r1)"
    by (metis prod.exhaust)
  obtain s2 t r2 where 2: "rc_get_int F ''auth_token_ttl'' AUTH_DEFAULT_TOKEN_TTL 60 31536000 (Some (token_ttl ?c)) r1 = ((s2, t), r2)"
    by (metis prod.exhaust)
  obtain s3 p r3 where 3: "rc_get_int F ''auth_pbkdf2_iters'' AUTH_DEFAULT_PBKDF2_ITERS 1 10000000 (Some (pbkdf2_iters ?c)) r2 = ((s3, p), r3)"
    by (metis prod.exhaust)
  obtain s4 m r4 where 4: "rc_get_int F ''db_timeout'' DB_DEFAULT_TIMEOUT_MS DB_TIMEOUT_MIN_MS DB_TIMEOUT_MAX_MS (Some (db_timeout_ms ?c)) r3 = ((s4, m), r4)"
    by (metis prod.exhaust)
  obtain s5 n r5 where 5: "rc_get F ''db_ipc'' (Some DB_DEFAULT_IPC) (Some (db_sock ?c)) 108 r4 = ((s5, n), r5)" by (metis prod.exhaust)
  have "auth_conf_load F st = st\<lparr>au_conf := \<lparr>max_attempts = the a, token_ttl = the t, pbkdf2_iters = the p, db_timeout_ms = the m, db_sock = the n\<rparr>,
       au_frozen := True, au_rc := r5\<rparr>"
    unfolding auth_conf_load_def Let_def 1 prod.case 2 3 4 5 using False by simp
  then show ?thesis
    using rc_int_within [OF 1] rc_int_within [OF 2] rc_int_within [OF 3] rc_int_within [OF 4] by (simp add: conf_ok_def conf_consts)
qed (use assms in \<open>simp add: auth_conf_load_def\<close>)

text \<open>Whatever a registration answers, the accounts are in order and only its own can be new.\<close>

definition grown :: "user_row multiset \<Rightarrow> int \<Rightarrow> user_row multiset \<Rightarrow> bool" where
  "grown U n U' \<longleftrightarrow> users_ok U' \<and> U \<subseteq># U' \<and> next_user_id U' \<le> next_user_id U + n"

lemma grown_refl: "users_ok U \<Longrightarrow> 0 \<le> n \<Longrightarrow> grown U n U"
  by (simp add: grown_def)

lemma grown_trans: "grown U m U1 \<Longrightarrow> grown U1 n U2 \<Longrightarrow> grown U (m + n) U2"
  by (auto simp: grown_def intro: subset_mset.order_trans)

lemma id_below: "i \<in># image_mset (\<lambda>(n, i, _). i) U \<Longrightarrow> i \<le> next_user_id U"
proof -
  assume i: "i \<in># image_mset (\<lambda>(n, i, _). i) U"
  then have "i \<le> Max (set_mset (image_mset (\<lambda>(n, i, _). i) U))" by (intro Max_ge) simp_all
  moreover have "U \<noteq> {#}" using i by auto
  ultimately show ?thesis by (simp add: next_user_id_def)
qed

lemma grown_row:
  assumes "users_ok (add_mset (register_row U name salt digest iters t) U)"
  shows "grown U 1 (add_mset (register_row U name salt digest iters t) U)"
proof -
  let ?ids = "set_mset (image_mset (\<lambda>(n, i, _). i) (add_mset (register_row U name salt digest iters t) U))"
  have "Max ?ids \<in> ?ids" by (rule Max_in) simp_all
  then have "Max ?ids = next_user_id U \<or> Max ?ids \<in># image_mset (\<lambda>(n, i, _). i) U" by (simp add: register_row_def)
  then have "Max ?ids \<le> next_user_id U" using id_below [of "Max ?ids" U] by (elim disjE) simp_all
  with assms show ?thesis unfolding grown_def next_user_id_def [of "add_mset _ _"] by simp
qed

definition proves_account :: "pbkdf2 \<Rightarrow> user_row multiset \<Rightarrow> acc \<Rightarrow> string \<Rightarrow> bool" where
  "proves_account P U c name \<longleftrightarrow> user_name_fold MAX_USER_NAME (ac_user c) = Some name \<and>
     (\<exists>i s d it cr h. sel name U = {#(i, s, d, it, cr)#} \<and> password_hash P c s it = Some h \<and> take 64 h = d)"

definition draw_ok :: "auth_draw \<Rightarrow> bool" where
  "draw_ok d \<longleftrightarrow> (\<forall>s. ad_salt d = Some s \<longrightarrow> length s = 16) \<and> (\<forall>t. 0 \<le> ad_clock d t \<and> ad_clock d t < 2 ^ 31)"

text \<open>PBKDF2 is asked for 32 bytes.\<close>

definition digest_len :: "pbkdf2 \<Rightarrow> bool" where
  "digest_len P \<longleftrightarrow> (\<forall>p s n d. P p s n = Some d \<longrightarrow> length d = 32)"

lemma register_safe:
  assumes "sdb_env E" "users_ok U" "user_name_fold MAX_USER_NAME (ac_user c) = Some name" "u_idle E k U w"
    and "draw_ok d" "digest_len P"
    and "1 \<le> iters" "iters < 2 ^ 31" "next_user_id U < 2 ^ 31"
    and "account_register E P iters (ad_salt d) turn (ad_clock d) name c w = ((status, ident), w')"
  shows "\<exists>U'. grown U (if status = 400 then 0 else 1) U' \<and> u_idle E k U' w' \<and> (status = 200 \<longrightarrow> proves_account P U' c name)"
proof (cases "\<exists>salt digest. ad_salt d = Some salt \<and> P (ac_pass c) salt iters = Some digest \<and> turn \<and> 8 \<le> length (ac_pass c) \<and> length (ac_pass c) \<le> 128")
  case True
  then obtain salt digest where t: "ad_salt d = Some salt" "P (ac_pass c) salt iters = Some digest" "turn" "8 \<le> length (ac_pass c)" "length (ac_pass c) \<le> 128"
    by blast
  have len: "length salt = 16" "length digest = 32" using assms(5,6) t(1,2) by (auto simp: draw_ok_def digest_len_def)
  have clock: "\<And>t. 0 \<le> ad_clock d t \<and> ad_clock d t < 2 ^ 31" using assms(5) by (simp add: draw_ok_def)
  have name: "user_name_ok name" using assms(3) by (auto simp: user_name_fold_def user_name_ok_fold split: if_splits)
  have run: "account_register E P iters (Some salt) True (ad_clock d) name c w = ((status, ident), w')" using assms(10) t by simp
  note hash = salted [where P = P and c = c, OF len(1) assms(7) t(2) len(2)]
  from register_outcome [where P = P and c = c, OF assms(1,2) name assms(4) t(4,5) len(1) t(2) len(2) assms(7-9) clock run]
  obtain U' u where u: "users_ok U'" "u_idle E k U' w'" "status \<noteq> 400"
    "U' = U \<and> status \<noteq> 200 \<or> sel name U = {#} \<and> U' = add_mset (register_row U name salt digest iters (ad_clock d u)) U"
    by auto
  from u(4) show ?thesis
  proof (elim disjE conjE)
    assume "U' = U" "status \<noteq> 200"
    then show ?thesis using u(2) grown_refl [OF assms(2)] by (intro exI [of _ U]) simp
  next
    assume e: "sel name U = {#}" "U' = add_mset (register_row U name salt digest iters (ad_clock d u)) U"
    from grown_row [of U] u(1) e(2) have "grown U 1 U'" by simp
    moreover have "proves_account P U' c name"
      using e assms(3) hash len by (auto simp: proves_account_def register_row_def sel_def)
    ultimately show ?thesis using u(2,3) by auto
  qed
next
  case False
  have "auth_hex_decode (auth_hex_encode s) 16 = Some s" if "ad_salt d = Some s" for s
    using assms(5) that by (simp add: draw_ok_def hex_roundtrip)
  with False have "status \<noteq> 200 \<and> w' = w"
    using assms(10) by (auto simp: account_register_def gen_new_salt_def password_hash_def account_lens split: if_splits option.splits)
  then show ?thesis using assms(2,4) grown_refl [OF assms(2)] by (intro exI [of _ U]) simp
qed

text \<open>The request a frame of the session carries.\<close>

definition frame_of :: "('pub, 'priv, 'cert) auth_env \<Rightarrow> auth_run \<Rightarrow> htttp_request \<Rightarrow> bool" where
  "frame_of A r req \<longleftrightarrow> (\<exists>buf s sk. session_recv (ae_ossl A) SESSION_MAX_FRAME (ar_session r) (ar_sock r) = ((SESSION_OK, buf), s, sk) \<and>
     htttp_parse_request buf = (HTTTP_OK, req))"

lemma parser_cases:
  assumes "auth_session_parser A r = (x, r')" "conf_ok (au_conf (ar_state r))"
  shows "ar_world r' = ar_world r \<and> conf_ok (au_conf (ar_state r')) \<and>
    (x = Inl 200 \<longrightarrow> au_name (ar_state r') = []) \<and>
    (\<forall>m c. x = Inr (m, c) \<longrightarrow> (m = AUTH_LOGIN \<or> m = AUTH_REGISTER) \<and> (\<exists>req. frame_of A r req \<and> req_body_split (rq_body req) = Some c))"
proof -
  obtain rc buf s sk where e: "session_recv (ae_ossl A) SESSION_MAX_FRAME (ar_session r) (ar_sock r) = ((rc, buf), s, sk)"
    by (metis prod.exhaust)
  obtain prc req where q: "htttp_parse_request buf = (prc, req)" by (metis prod.exhaust)
  show ?thesis
  proof (cases "rc = SESSION_OK \<and> prc = HTTTP_OK")
    case True
    then have f: "frame_of A r req" using e q by (auto simp: frame_of_def)
    note c = conf_load_ok [OF assms(2), of "ae_rc A"]
    show ?thesis
      using assms True e q f c
      by (cases "auth_method_of req"; cases "req_body_split (rq_body req)")
         (auto simp: auth_session_parser_def handle_guest_and_invalid_method_def accept_guest_def Let_def)
  qed (use assms e q in \<open>auto simp: auth_session_parser_def Let_def split: if_splits\<close>)
qed

lemma account_safe:
  assumes "sdb_env (ae_db A)" "users_ok U" "u_idle (ae_db A) k U (ar_world r)" "conf_ok (au_conf (ar_state r))"
    and "draw_ok d" "digest_len (ae_pbkdf2 A)" "next_user_id U < 2 ^ 31"
    and "m = AUTH_LOGIN \<or> m = AUTH_REGISTER" "auth_account A d m c r = (status, tok, r')"
  shows "\<exists>U'. grown U (if status = 400 then 0 else 1) U' \<and> u_idle (ae_db A) k U' (ar_world r') \<and> conf_ok (au_conf (ar_state r')) \<and>
    (status = 200 \<longrightarrow> proves_account (ae_pbkdf2 A) U' c (au_name (ar_state r')))"
proof (cases "user_name_fold MAX_USER_NAME (ac_user c)")
  case None
  with assms show ?thesis by (auto simp: auth_account_def intro!: exI [of _ U] grown_refl)
next
  case (Some name)
  have name: "user_name_ok name" using Some by (auto simp: user_name_fold_def user_name_ok_fold split: if_splits)
  let ?P = "ae_pbkdf2 A" and ?E = "ae_db A"
  obtain st ident w where run: "(case m of AUTH_LOGIN \<Rightarrow> account_login ?E ?P name c (ar_world r)
      | AUTH_REGISTER \<Rightarrow> account_register ?E ?P (pbkdf2_iters (au_conf (ar_state r))) (ad_salt d) (ad_turn d) (ad_clock d) name c (ar_world r)
      | _ \<Rightarrow> ((500, None), ar_world r)) = ((st, ident), w)" by (metis prod.exhaust)
  have "\<exists>U'. grown U (if st = 400 then 0 else 1) U' \<and> u_idle ?E k U' w \<and> (st = 200 \<longrightarrow> proves_account ?P U' c name)"
    using assms(8)
  proof
    assume "m = AUTH_LOGIN"
    then have l: "account_login ?E ?P name c (ar_world r) = ((st, ident), w)" using run by simp
    from sdb_env.login_outcome [OF assms(1,2) name assms(3) l]
    have "u_idle ?E k U w" "st = 200 \<longrightarrow> proves_account ?P U c name"
      using Some by (auto simp: login_verdict_def proves_account_def split: option.splits if_splits)
    then show ?thesis using grown_refl [OF assms(2)] by (intro exI [of _ U]) simp
  next
    assume "m = AUTH_REGISTER"
    then have l: "account_register ?E ?P (pbkdf2_iters (au_conf (ar_state r))) (ad_salt d) (ad_turn d) (ad_clock d) name c (ar_world r) = ((st, ident), w)"
      using run by simp
    have "1 \<le> pbkdf2_iters (au_conf (ar_state r))" "pbkdf2_iters (au_conf (ar_state r)) < 2 ^ 31" using assms(4) by (simp_all add: conf_ok_def)
    from register_safe [where P = ?P and d = d, OF assms(1,2) Some assms(3,5,6) this assms(7) l] show ?thesis by blast
  qed
  then obtain U' where u: "grown U (if st = 400 then 0 else 1) U'" "u_idle ?E k U' w" "st = 200 \<longrightarrow> proves_account ?P U' c name" by blast
  obtain st2 tok2 s2 where t: "token_handler A d name (case ident of None \<Rightarrow> 0 | Some i \<Rightarrow> i) (ar_state r) = (st2, tok2, s2)" by (metis prod.exhaust)
  have keep: "au_conf s2 = au_conf (ar_state r) \<and> (st2 = 200 \<and> au_name s2 = name \<or> st2 = 500)"
    using t name_text [OF name] by (auto simp: token_handler_def name_lens split: option.splits)
  have out: "(status, tok, r') = (if st \<noteq> 200 then (st, [], r\<lparr>ar_world := w\<rparr>) else (st2, tok2, r\<lparr>ar_world := w, ar_state := s2\<rparr>))"
    using assms(9) unfolding auth_account_def Some option.case run prod.case Let_def using t by auto
  show ?thesis using u keep out assms(4) by (intro exI [of _ U']) (auto split: if_splits)
qed

definition admitted :: "('pub, 'priv, 'cert) auth_env \<Rightarrow> session \<Rightarrow> user_row multiset \<Rightarrow> string \<Rightarrow> bool" where
  "admitted A s U name \<longleftrightarrow> name = [] \<or>
     (\<exists>r req c. ar_session r = s \<and> frame_of A r req \<and> req_body_split (rq_body req) = Some c \<and> proves_account (ae_pbkdf2 A) U c name)"

lemma handler_safe:
  assumes "sdb_env (ae_db A)" "users_ok U" "u_idle (ae_db A) k U (ar_world r)" "conf_ok (au_conf (ar_state r))"
    and "draw_ok d" "digest_len (ae_pbkdf2 A)" "next_user_id U < 2 ^ 31"
    and "auth_handler A d r = (status, r')"
  shows "\<exists>U'. grown U (if status = 400 then 0 else 1) U' \<and> u_idle (ae_db A) k U' (ar_world r') \<and> conf_ok (au_conf (ar_state r')) \<and>
    (status = 200 \<longrightarrow> admitted A (ar_session r) U' (au_name (ar_state r')))"
proof -
  let ?r = "r\<lparr>ar_state := (ar_state r)\<lparr>au_sh := True\<rparr>\<rparr>"
  have fr: "frame_of A ?r = frame_of A r" by (simp add: frame_of_def fun_eq_iff)
  obtain x r1 where p: "auth_session_parser A ?r = (x, r1)" by (metis prod.exhaust)
  from parser_cases [OF p] assms(4) have c: "ar_world r1 = ar_world r" "conf_ok (au_conf (ar_state r1))"
    "x = Inl 200 \<longrightarrow> au_name (ar_state r1) = []"
    "\<forall>m c. x = Inr (m, c) \<longrightarrow> (m = AUTH_LOGIN \<or> m = AUTH_REGISTER) \<and> (\<exists>req. frame_of A r req \<and> req_body_split (rq_body req) = Some c)"
    by (auto simp: fr)
  show ?thesis
  proof (cases x)
    case (Inl st)
    then have "status = st \<and> ar_world r' = ar_world r \<and> ar_state r' = ar_state r1" using assms(8) p c(1) by (auto simp: auth_handler_def Let_def)
    then show ?thesis using Inl c assms(3) grown_refl [OF assms(2)] by (intro exI [of _ U]) (simp add: admitted_def)
  next
    case (Inr mc)
    obtain m cc where mc: "mc = (m, cc)" by (cases mc)
    from c(4) Inr mc obtain req where req: "m = AUTH_LOGIN \<or> m = AUTH_REGISTER" "frame_of A r req" "req_body_split (rq_body req) = Some cc" by auto
    obtain st tok r2 where a: "auth_account A d m cc r1 = (st, tok, r2)" by (metis prod.exhaust)
    have e: "status = st" "ar_world r' = ar_world r2" "ar_state r' = ar_state r2"
      using assms(8) p Inr mc a by (auto simp: auth_handler_def Let_def)
    from account_safe [where A = A, OF assms(1,2) assms(3) [folded c(1)] c(2) assms(5-7) req(1) a] req(2,3) show ?thesis
      unfolding e admitted_def by blast
  qed
qed

lemma handler_session:
  assumes "auth_handler A d r = (status, r')" "0 \<le> status"
  shows "ar_session r' = ar_session r"
  using handler_progress [OF _ assms(1)] handler_stuck [OF _ assms(1)] assms(2) by (cases "usable (ar_session r)") auto

lemma grown_more: "grown U m U' \<Longrightarrow> m \<le> n \<Longrightarrow> grown U n U'"
  by (simp add: grown_def)

lemma retry_safe:
  assumes "auth_retry_loop A draws n i r = Some (out, r')"
    and "sdb_env (ae_db A)" "users_ok U" "u_idle (ae_db A) k U (ar_world r)" "conf_ok (au_conf (ar_state r))"
    and "\<And>n. draw_ok (draws n)" "digest_len (ae_pbkdf2 A)" "i \<le> 100" "next_user_id U + (100 - i) < 2 ^ 31"
  shows "\<exists>U'. grown U (100 - i) U' \<and> u_idle (ae_db A) k U' (ar_world r') \<and> (out = AUTH_OK \<longrightarrow> admitted A (ar_session r) U' (au_name (ar_state r')))"
proof -
  let ?Q = "\<lambda>A draws n i r (out, r'). \<forall>U. sdb_env (ae_db A) \<longrightarrow> users_ok U \<longrightarrow> u_idle (ae_db A) k U (ar_world r) \<longrightarrow>
    conf_ok (au_conf (ar_state r)) \<longrightarrow> (\<forall>n. draw_ok (draws n)) \<longrightarrow> digest_len (ae_pbkdf2 A) \<longrightarrow> i \<le> 100 \<longrightarrow> next_user_id U + (100 - i) < 2 ^ 31 \<longrightarrow>
    (\<exists>U'. grown U (100 - i) U' \<and> u_idle (ae_db A) k U' (ar_world r') \<and> (out = AUTH_OK \<longrightarrow> admitted A (ar_session r) U' (au_name (ar_state r'))))"
  have "?Q A draws n i r (out, r')"
  proof (rule auth_retry_loop.raw_induct [where P = ?Q, OF _ assms(1)])
    fix loop :: "('a, 'b, 'c) auth_env \<Rightarrow> (nat \<Rightarrow> auth_draw) \<Rightarrow> nat \<Rightarrow> int \<Rightarrow> auth_run \<Rightarrow> (auth_outcome \<times> auth_run) option"
      and A draws n i r res
    assume ih: "\<And>A draws n i r y. loop A draws n i r = Some y \<Longrightarrow> ?Q A draws n i r y"
      and run: "(if \<not> i < max_attempts (au_conf (ar_state r)) then Some (AUTH_DROP, r)
        else case auth_handler A (draws n) r of (status, r) \<Rightarrow>
          if status = 200 then Some (AUTH_OK, r) else if status < 0 then Some (AUTH_DROP, r)
          else loop A draws (Suc n) (if status \<noteq> 400 then i + 1 else i) r) = Some res"
    obtain out r' where res: "res = (out, r')" by (cases res)
    obtain status r1 where h: "auth_handler A (draws n) r = (status, r1)" by (metis prod.exhaust)
    have "\<exists>U'. grown U (100 - i) U' \<and> u_idle (ae_db A) k U' (ar_world r') \<and> (out = AUTH_OK \<longrightarrow> admitted A (ar_session r) U' (au_name (ar_state r')))"
      if hyps: "sdb_env (ae_db A)" "users_ok U" "u_idle (ae_db A) k U (ar_world r)" "conf_ok (au_conf (ar_state r))" "\<forall>n. draw_ok (draws n)"
        "digest_len (ae_pbkdf2 A)" "i \<le> 100" "next_user_id U + (100 - i) < 2 ^ 31" for U
    proof (cases "i < max_attempts (au_conf (ar_state r))")
      case False
      then show ?thesis using run res hyps by (auto intro!: exI [of _ U] grown_refl)
    next
      case True
      then have i: "i < 100" using hyps(4) by (simp add: conf_ok_def)
      from handler_safe [OF hyps(1-4) _ hyps(6) _ h] hyps(5,8) i obtain U1 where
        u: "grown U (if status = 400 then 0 else 1) U1" "u_idle (ae_db A) k U1 (ar_world r1)" "conf_ok (au_conf (ar_state r1))"
          "status = 200 \<longrightarrow> admitted A (ar_session r) U1 (au_name (ar_state r1))"
        by auto
      show ?thesis
      proof (cases "status = 200 \<or> status < 0")
        case stop: True
        then have "r' = r1 \<and> (out = AUTH_OK \<longrightarrow> status = 200)" using run res h True by (auto split: if_splits)
        then show ?thesis using u i grown_more [OF u(1), of "100 - i"] by (intro exI [of _ U1]) simp
      next
        case goes_on: False
        let ?i = "if status \<noteq> 400 then i + 1 else i"
        have rec: "loop A draws (Suc n) ?i r1 = Some (out, r')" using run res h True goes_on by simp
        have b: "users_ok U1" "?i \<le> 100" "next_user_id U1 + (100 - ?i) < 2 ^ 31" using u(1) hyps(8) i by (auto simp: grown_def)
        from ih [OF rec] hyps(1,5,6) u(2,3) b obtain U2 where
          v: "grown U1 (100 - ?i) U2" "u_idle (ae_db A) k U2 (ar_world r')" "out = AUTH_OK \<longrightarrow> admitted A (ar_session r1) U2 (au_name (ar_state r'))"
          by auto
        have "ar_session r1 = ar_session r" using handler_session [OF h] goes_on by simp
        moreover have "grown U (100 - i) U2" using grown_trans [OF u(1) v(1)] by (simp split: if_splits)
        ultimately show ?thesis using v by auto
      qed
    qed
    then show "?Q A draws n i r res" unfolding res by blast
  qed
  then show ?thesis using assms by auto
qed


section \<open>Instances\<close>

definition demo_auth :: "(string, string, string) auth_env" where
  "demo_auth = \<lparr>ae_db = ref_env (\<lambda>_. Runs), ae_pbkdf2 = demo_pbkdf2, ae_hmac = (\<lambda>k m. Some (take 32 k)), ae_ossl = ref_ssl,
     ae_rc = \<lparr>rf_file = None, rf_alloc = (\<lambda>_. True)\<rparr>, ae_euid = 7\<rparr>"

definition demo_draw :: auth_draw where
  "demo_draw = \<lparr>ad_iv = None, ad_tm = \<lparr>tm_sec = 0, tm_min = 0, tm_hour = 0, tm_mday = 1, tm_mon = 0, tm_year = 126, tm_wday = 4\<rparr>,
     ad_salt = Some (replicate 16 CHR ''s''), ad_turn = True, ad_clock = (\<lambda>_. 5), ad_now = 1000, ad_readable = True,
     ad_disk = (\<lambda>_. Some \<lparr>sf_regular = True, sf_mode = 384, sf_uid = 7, sf_data = replicate 32 CHR ''k''\<rparr>), ad_reads = []\<rparr>"

definition demo_start :: "rd_event list \<Rightarrow> auth_run" where
  "demo_start evs = \<lparr>ar_state = auth_state0, ar_session = demo_session, ar_sock = demo_sock evs, ar_world = empty_world\<rparr>"

theorem auth_retry_terminates_witness:
  "(\<exists>res. auth_retry_handler demo_auth (\<lambda>_. demo_draw) (demo_start [Data ''noise'']) = Some res) \<and>
   \<not> (\<exists>res. auth_retry_handler demo_auth (\<lambda>_. demo_draw) ((demo_start [])\<lparr>ar_session := session0\<rparr>) = Some res)"
proof -
  have m: "0 < max_attempts (au_conf (ar_state (demo_start [Data ''noise''])))" "0 < max_attempts (au_conf (ar_state ((demo_start [])\<lparr>ar_session := session0\<rparr>)))"
    by (simp_all add: demo_start_def auth_state0_def glb_conf_def conf_consts)
  show ?thesis unfolding auth_retry_terminates [OF m(1)] auth_retry_terminates [OF m(2)]
    by (simp add: demo_start_def demo_session_def session0_def)
qed

definition demo_frame :: string where
  "demo_frame = ''REGISTER /auth HTTTP/1.0'' @ [CR, NL] @ ''Content-Length: 14'' @ [CR, NL, CR, NL] @ ''Alice'' @ [NL] @ ''sesame-1''"

definition demo_token :: string where
  "demo_token = ''0123456789abcdef'' @ pkcs7 demo_frame @ replicate 16 CHR ''k'' @ ''0123456789abcdef''"

lemma demo_parse:
  "\<exists>req. htttp_parse_request demo_frame = (HTTTP_OK, req) \<and> rq_method req = ''REGISTER'' \<and> rq_body req = ''Alice'' @ [NL] @ ''sesame-1''"
proof -
  have "fst (htttp_parse_request demo_frame) = HTTTP_OK \<and> rq_method (snd (htttp_parse_request demo_frame)) = ''REGISTER'' \<and>
    rq_body (snd (htttp_parse_request demo_frame)) = ''Alice'' @ [NL] @ ''sesame-1''" by code_simp
  then show ?thesis by (metis prod.collapse)
qed

lemma demo_seal: "session_decrypt ref_ssl (ss_key demo_session) demo_token = Some demo_frame"
  by code_simp

lemma demo_conf: "au_conf (auth_conf_load (ae_rc demo_auth) (auth_state0\<lparr>au_sh := True\<rparr>)) = glb_conf"
  by (simp add: auth_conf_load_def auth_state0_def demo_auth_def rc_get_int_def rc_get_def rc_lookup_def snapshot_def rc_fresh_def
    glb_conf_def DB_DEFAULT_IPC_def)

lemma demo_registers:
  "\<exists>r. auth_retry_handler demo_auth (\<lambda>_. demo_draw) (demo_start [Data (sealed_frame demo_token)]) = Some (AUTH_OK, r) \<and>
    au_name (ar_state r) = ''alice''"
proof -
  let ?start = "demo_start [Data (sealed_frame demo_token)]"
  let ?r = "?start\<lparr>ar_state := (ar_state ?start)\<lparr>au_sh := True\<rparr>\<rparr>"
  let ?c = "\<lparr>ac_user = ''Alice'', ac_pass = ''sesame-1''\<rparr>"
  have s: "ss_established demo_session" "\<not> ss_recv_dead demo_session" by (simp_all add: demo_session_def)
  have l: "length demo_token \<le> SESSION_MAX_FRAME" "length demo_frame \<le> SESSION_MAX_FRAME"
    by (simp_all add: demo_token_def demo_frame_def SESSION_MAX_FRAME_def pkcs7_length)
  have "demo_token \<noteq> []" by (simp add: demo_token_def)
  then have p: "plain_bytes (sk_in (demo_sock [Data (sealed_frame demo_token)])) = sealed_frame demo_token @ []"
    by (simp add: demo_sock_def plain_bytes_one sealed_frame_def)
  from session_recv_frame [OF s p l(1) demo_seal l(2)] obtain sk where
    recv: "session_recv ref_ssl SESSION_MAX_FRAME demo_session (demo_sock [Data (sealed_frame demo_token)]) = ((SESSION_OK, demo_frame), demo_session, sk)"
    by auto
  obtain req where req: "htttp_parse_request demo_frame = (HTTTP_OK, req)" "rq_method req = ''REGISTER''" "rq_body req = ''Alice'' @ [NL] @ ''sesame-1''"
    using demo_parse by blast
  have split: "req_body_split (rq_body req) = Some ?c" unfolding req(3) by code_simp
  have m: "auth_method_of req = AUTH_REGISTER" using req(2) by (simp add: auth_method_of_def)
  obtain st1 where st1: "auth_conf_load (ae_rc demo_auth) (auth_state0\<lparr>au_sh := True\<rparr>) = st1" "au_conf st1 = glb_conf" using demo_conf by blast
  have parse: "auth_session_parser demo_auth ?r = (Inr (AUTH_REGISTER, ?c), ?start\<lparr>ar_sock := sk, ar_state := st1\<rparr>)"
    using recv req(1) m split st1(1)
    by (simp add: auth_session_parser_def demo_start_def demo_auth_def handle_guest_and_invalid_method_def Let_def)
  have fold: "user_name_fold MAX_USER_NAME (ac_user ?c) = Some ''alice''" by code_simp
  let ?salt = "replicate 16 CHR ''s''" and ?E = "ref_env (\<lambda>_. Runs)" and ?d = "take 32 (''sesame-1'' @ replicate 16 CHR ''s'' @ replicate 32 CHR ''0'')"
  obtain status ident w where reg: "account_register ?E demo_pbkdf2 600000 (Some ?salt) True (\<lambda>_. 5) ''alice'' ?c empty_world = ((status, ident), w)"
    by (metis prod.exhaust)
  have q: "8 \<le> length (ac_pass ?c)" "length (ac_pass ?c) \<le> 128" "length ?salt = 16" "demo_pbkdf2 (ac_pass ?c) ?salt 600000 = Some ?d" "length ?d = 32"
    "1 \<le> (600000 :: int)" "(600000 :: int) < 2 ^ 31" "next_user_id {#} < 2 ^ 31" "\<And>t :: nat. 0 \<le> (5 :: int) \<and> (5 :: int) < 2 ^ 31"
    by (simp_all add: demo_pbkdf2_def no_users)
  from register_outcome [where P = demo_pbkdf2 and c = ?c, OF ref.sdb_env_axioms no_users(1) demo_name empty_idle [of True] q reg]
  have r: "status = 200" "ident = Some 1" by (auto simp: no_users)
  have load: "auth_secret_load True 7 (ad_disk demo_draw) [] ''.'' SECRET_MAX = Some (replicate 32 CHR ''k'')" by code_simp
  have mint: "\<exists>tok. token_mint (ae_hmac demo_auth) TOKEN_MAX_LEN \<lparr>tc_sub = 1, tc_name = ''alice'', tc_iat = 1000, tc_exp = 605800\<rparr> (replicate 32 CHR ''k'') = Some tok"
    using token_minted [of "replicate 32 CHR ''k''" "\<lparr>tc_sub = 1, tc_name = ''alice'', tc_iat = 1000, tc_exp = 605800\<rparr>" "ae_hmac demo_auth"]
    by (auto simp: demo_auth_def secret_ok_def token_lens INT_MAX_def LLONG_MAX_def is_name_ok_def token_name_char_def)
  then obtain tok where tok: "token_mint (ae_hmac demo_auth) TOKEN_MAX_LEN \<lparr>tc_sub = 1, tc_name = ''alice'', tc_iat = 1000, tc_exp = 605800\<rparr> (replicate 32 CHR ''k'') = Some tok"
    by blast
  have th: "token_handler demo_auth demo_draw ''alice'' 1 st1 = (200, tok, st1\<lparr>au_name := ''alice''\<rparr>)"
    using load tok st1(2) by (simp add: token_handler_def demo_draw_def demo_auth_def glb_conf_def conf_consts token_lens name_lens)
  have acc: "auth_account demo_auth demo_draw AUTH_REGISTER ?c (?start\<lparr>ar_sock := sk, ar_state := st1\<rparr>) =
      (200, tok, ?start\<lparr>ar_sock := sk, ar_state := st1\<lparr>au_name := ''alice''\<rparr>, ar_world := w\<rparr>)"
    using reg r th st1(2) unfolding auth_account_def fold option.case auth_method.case
    by (simp add: demo_auth_def demo_draw_def demo_start_def glb_conf_def conf_consts)
  have "0 < max_attempts (au_conf (ar_state ?start))" by (simp add: demo_start_def auth_state0_def glb_conf_def conf_consts)
  moreover have "\<exists>r. auth_handler demo_auth demo_draw ?start = (200, r) \<and> au_name (ar_state r) = ''alice''"
    unfolding auth_handler_def Let_def parse prod.case sum.case acc by simp
  ultimately show ?thesis unfolding auth_retry_handler_def by (subst auth_retry_loop.simps) auto
qed


end
