(* ===== verification/Logmsg.thy ===== *)
theory Logmsg
  imports Rc "HOL-Library.Word" "HOL-Library.State_Monad"
begin

text \<open>
  The sending side of the log, \<^verbatim>\<open>src/src/libtetrisutil/logmsg.c\<close>: levels, the datagram socket that is
  opened again when the logger went away, and the two counters of dropped records. Time passes
  in calls: what the system answers during a call (whether the lock is free, the results of
  \<^verbatim>\<open>connect\<close> and \<^verbatim>\<open>send\<close>) is an argument, and \<open>others\<close> counts the calls of other threads that find
  the lock taken while this one holds it.
\<close>

section \<open>Levels\<close>

datatype log_level = LOG_INFO | LOG_WARN | LOG_ERROR | LOG_DEBUG | LOG_UNKNOWN

fun log_level_rank :: "log_level \<Rightarrow> nat" where
  "log_level_rank LOG_DEBUG = 0"
| "log_level_rank LOG_INFO = 1"
| "log_level_rank LOG_WARN = 2"
| "log_level_rank LOG_ERROR = 3"
| "log_level_rank LOG_UNKNOWN = 4"

definition log_level_names :: "(string \<times> log_level) list" where
  "log_level_names = [(''info'', LOG_INFO), (''warn'', LOG_WARN), (''error'', LOG_ERROR), (''debug'', LOG_DEBUG)]"

definition log_level_parse :: "string option \<Rightarrow> log_level option" where
  "log_level_parse name =
     (case name of
        None \<Rightarrow> None
      | Some n \<Rightarrow> map_option snd (find (\<lambda>(m, _). strcasecmp_eq n m) log_level_names))"

section \<open>The sender\<close>

definition LOG_MSG_MAX :: nat where "LOG_MSG_MAX = 256"
definition SUN_PATH_MAX :: nat where "SUN_PATH_MAX = 108"

record log_msg =
  lm_pid :: int
  lm_level :: log_level
  lm_dropped :: "64 word"
  lm_msg :: string

record sender =
  ls_open :: bool
  ls_path :: string
  ls_dropped :: "64 word"
  ls_unreported :: "64 word"
  ls_max_attempts :: int

datatype send_event = Send_Whole | Peer_Gone | Send_Failed

record log_call =
  lc_fmt :: "string option"
  lc_level :: log_level
  lc_busy :: bool
  lc_others :: nat
  lc_connects :: "bool list"
  lc_sends :: "send_event list"

text \<open>The address has to be set; \<open>ok\<close> tells whether the socket can be made and connected.\<close>

definition sender_connect_socket :: "bool list \<Rightarrow> sender \<Rightarrow> bool \<times> bool list \<times> sender" where
  "sender_connect_socket cs s =
     (if ls_path s = [] then (False, cs, s)
      else case cs of True # cs \<Rightarrow> (True, cs, s\<lparr>ls_open := True\<rparr>) | _ \<Rightarrow> (False, tl cs, s))"

definition sender_disconnect_socket :: "sender \<Rightarrow> sender" where
  "sender_disconnect_socket s = s\<lparr>ls_open := False\<rparr>"

definition get_log_dropped :: "sender \<Rightarrow> 64 word" where
  "get_log_dropped s = ls_dropped s"

definition drop_one :: "sender \<Rightarrow> sender" where
  "drop_one s =
     s\<lparr>ls_dropped := ls_dropped s + 1,
       ls_unreported := (if ls_unreported s < - 1 then ls_unreported s + 1 else ls_unreported s)\<rparr>"

text \<open>The attempts to send \<open>m\<close>; the threads that find the lock taken count their drops meanwhile.\<close>

fun send_attempts :: "log_msg \<Rightarrow> nat \<Rightarrow> nat \<Rightarrow> send_event list \<Rightarrow> bool list \<Rightarrow> sender \<Rightarrow> log_msg option \<times> sender" where
  "send_attempts m others 0 sends cs s = (None, drop_one ((drop_one ^^ others) s))"
| "send_attempts m others (Suc n) (Send_Whole # sends) cs s =
     (let s = (drop_one ^^ others) s in (Some m, s\<lparr>ls_unreported := ls_unreported s - lm_dropped m\<rparr>))"
| "send_attempts m others (Suc n) (Peer_Gone # sends) cs s =
     (case sender_connect_socket cs (sender_disconnect_socket s) of
        (ok, cs, s) \<Rightarrow>
          if \<not> ok then (None, drop_one ((drop_one ^^ others) s)) else send_attempts m others n sends cs s)"
| "send_attempts m others (Suc n) sends cs s = (None, drop_one ((drop_one ^^ others) s))"

definition log_vsend :: "int \<Rightarrow> log_call \<Rightarrow> sender \<Rightarrow> log_msg option \<times> sender" where
  "log_vsend pid c s =
     (case lc_fmt c of
        None \<Rightarrow> (None, drop_one s)
      | Some txt \<Rightarrow>
          if lc_busy c then (None, drop_one s)
          else let m = \<lparr>lm_pid = pid, lm_level = lc_level c, lm_dropped = ls_unreported s, lm_msg = snprintf_s LOG_MSG_MAX txt\<rparr>
               in if ls_open s then send_attempts m (lc_others c) (nat (ls_max_attempts s)) (lc_sends c) (lc_connects c) s
                  else case sender_connect_socket (lc_connects c) s of
                         (ok, cs, s) \<Rightarrow>
                           if \<not> ok then (None, drop_one ((drop_one ^^ lc_others c) s))
                           else send_attempts m (lc_others c) (nat (ls_max_attempts s)) (lc_sends c) cs s)"

definition log_send :: "int \<Rightarrow> log_call \<Rightarrow> sender \<Rightarrow> log_msg option \<times> sender" where
  "log_send pid c s = log_vsend pid c s"

text \<open>The text of the farewell is \<open>fmt\<close> of the count; \<open>c\<close> is what its sending meets.\<close>

definition log_close :: "int \<Rightarrow> log_call \<Rightarrow> sender \<Rightarrow> log_msg option \<times> sender" where
  "log_close pid c s =
     (let r = (if 0 < ls_unreported s
               then log_send pid (c\<lparr>lc_fmt := Some (''sender exiting with '' @ nat_str (unat (ls_unreported s)) @ '' dropped records''),
                                    lc_level := LOG_WARN\<rparr>) s
               else (None, s))
      in (fst r, sender_disconnect_socket (snd r)))"

definition log_open ::
    "int \<Rightarrow> rc_file \<Rightarrow> log_call \<Rightarrow> bool list \<Rightarrow> string option \<Rightarrow> rc_cache \<Rightarrow> sender \<Rightarrow> bool \<times> log_msg option \<times> rc_cache \<times> sender" where
  "log_open pid F c cs socket_path rc s =
     (case socket_path of
        None \<Rightarrow> (False, None, rc, s)
      | Some p \<Rightarrow>
          if p = [] then (False, None, rc, s)
          else if SUN_PATH_MAX \<le> length p then (False, None, rc, s)
          else case log_close pid c s of
                 (m, s) \<Rightarrow>
                   (case rc_get_int F ''log_send_attempts'' 2 1 1000 (Some (ls_max_attempts s)) rc of
                      ((_, n), rc) \<Rightarrow>
                        (case sender_connect_socket cs (s\<lparr>ls_path := p, ls_max_attempts := the n\<rparr>) of
                           (ok, _, s) \<Rightarrow> (ok, m, rc, s))))"

section \<open>Every drop is reported once\<close>

text \<open>The drops a call counts: its own if nothing was sent, and those of the threads it kept out.\<close>

definition kept_out :: "log_call \<Rightarrow> nat" where
  "kept_out c = (if lc_fmt c = None \<or> lc_busy c then 0 else lc_others c)"

definition drops_of :: "log_call \<Rightarrow> log_msg option \<Rightarrow> nat" where
  "drops_of c m = kept_out c + (if m = None then 1 else 0)"

lemma unat_Suc64: "unat w + 1 < 2 ^ 64 \<Longrightarrow> unat (w + 1 :: 64 word) = unat w + 1"
  by (simp add: unat_word_ariths)

lemma max_word64: "unat (- 1 :: 64 word) = 2 ^ 64 - 1"
  by (simp add: unsigned_minus_1_eq_mask mask_eq_exp_minus_1)

lemma drop_one_count:
  assumes "unat (ls_dropped s) + n < 2 ^ 64" "unat (ls_unreported s) + n < 2 ^ 64"
  shows "unat (ls_dropped ((drop_one ^^ n) s)) = unat (ls_dropped s) + n \<and>
    unat (ls_unreported ((drop_one ^^ n) s)) = unat (ls_unreported s) + n"
  using assms
proof (induction n)
  case (Suc n)
  then have ih: "unat (ls_dropped ((drop_one ^^ n) s)) = unat (ls_dropped s) + n"
    "unat (ls_unreported ((drop_one ^^ n) s)) = unat (ls_unreported s) + n" by auto
  have "ls_unreported ((drop_one ^^ n) s) < - 1" using ih(2) Suc.prems(2) by (simp add: word_less_nat_alt max_word64)
  then show ?case using ih Suc.prems by (simp add: drop_one_def [of "(drop_one ^^ n) s"] unat_Suc64)
qed simp

definition counted :: "nat \<Rightarrow> nat \<Rightarrow> sender \<Rightarrow> bool" where
  "counted all told s \<longleftrightarrow> unat (ls_dropped s) = all \<and> all = told + unat (ls_unreported s)"

definition reported :: "log_msg option \<Rightarrow> nat" where
  "reported m = (case m of None \<Rightarrow> 0 | Some m \<Rightarrow> unat (lm_dropped m))"

lemma counted_drops: "counted t r s \<Longrightarrow> t + n < 2 ^ 64 \<Longrightarrow> counted (t + n) r ((drop_one ^^ n) s)"
  using drop_one_count [of s n] by (auto simp: counted_def)

lemma counted_same:
  "ls_dropped s' = ls_dropped s \<Longrightarrow> ls_unreported s' = ls_unreported s \<Longrightarrow> counted t r s \<Longrightarrow> counted t r s'"
  by (simp add: counted_def)

lemma counted_drop_one: "counted t r s \<Longrightarrow> t + n + 1 < 2 ^ 64 \<Longrightarrow> counted (t + n + 1) r (drop_one ((drop_one ^^ n) s))"
  using counted_drops [of t r s "Suc n"] by simp

lemma connect_counts:
  "sender_connect_socket cs s = (ok, cs', s') \<Longrightarrow> ls_dropped s' = ls_dropped s \<and> ls_unreported s' = ls_unreported s"
  by (auto simp: sender_connect_socket_def split: if_splits list.splits bool.splits)

lemma disconnect_counts [simp]:
  "ls_dropped (sender_disconnect_socket s) = ls_dropped s" "ls_unreported (sender_disconnect_socket s) = ls_unreported s"
  by (simp_all add: sender_disconnect_socket_def)

lemma send_attempts_counts:
  "send_attempts m others n sends cs s = (x, s') \<Longrightarrow> counted t r s \<Longrightarrow> lm_dropped m = ls_unreported s \<Longrightarrow>
   t + others + 1 < 2 ^ 64 \<Longrightarrow> counted (t + others + (if x = None then 1 else 0)) (r + reported x) s'"
proof (induction m others n sends cs s arbitrary: x s' rule: send_attempts.induct)
  case (1 m others sends cs s)
  then show ?case using counted_drop_one [of t r s others] by (auto simp: reported_def)
next
  case (2 m others n sends cs s)
  let ?s = "(drop_one ^^ others) s"
  from 2 have c: "counted (t + others) r ?s" "unat (ls_unreported ?s) = unat (ls_unreported s) + others"
    using counted_drops [of t r s others] drop_one_count [of s others] by (auto simp: counted_def)
  then have "unat (ls_unreported ?s - lm_dropped m) = others" using 2(3)
    by (simp add: unat_sub word_le_nat_alt)
  with 2 c show ?case by (auto simp: counted_def reported_def Let_def)
next
  case (3 m others n sends cs s)
  obtain ok cs1 s1 where k: "sender_connect_socket cs (sender_disconnect_socket s) = (ok, cs1, s1)" by (metis prod.exhaust)
  from connect_counts [OF k] 3(4) have d: "ls_dropped s1 = ls_dropped s" "ls_unreported s1 = ls_unreported s" by simp_all
  from counted_same [OF this 3(3)] have c: "counted t r s1" .
  show ?case
  proof (cases ok)
    case True
    with 3(2) k have "send_attempts m others n sends cs1 s1 = (x, s')" by simp
    from 3(1) [OF k [symmetric] refl _ this c] True 3(4,5) d show ?thesis by simp
  next
    case False
    with 3(2) k have "x = None" "s' = drop_one ((drop_one ^^ others) s1)" by simp_all
    with counted_drop_one [OF c 3(5)] show ?thesis by (simp add: reported_def)
  qed
qed (use counted_drop_one in \<open>auto simp: reported_def\<close>)

lemma log_vsend_counts:
  assumes "log_vsend pid c s = (x, s')" "counted t r s" "t + kept_out c + 1 < 2 ^ 64"
  shows "counted (t + drops_of c x) (r + reported x) s'"
proof (cases "lc_fmt c = None \<or> lc_busy c")
  case True
  then have "x = None" "s' = drop_one s" "kept_out c = 0" using assms(1) by (auto simp: log_vsend_def kept_out_def split: option.splits)
  then show ?thesis using counted_drop_one [of t r s 0] assms(2,3) by (simp add: drops_of_def reported_def)
next
  case False
  then obtain tx where f: "lc_fmt c = Some tx" "\<not> lc_busy c" by auto
  let ?m = "\<lparr>lm_pid = pid, lm_level = lc_level c, lm_dropped = ls_unreported s, lm_msg = snprintf_s LOG_MSG_MAX tx\<rparr>"
  have k: "t + lc_others c + 1 < 2 ^ 64" using assms(3) f by (simp add: kept_out_def)
  note fin = send_attempts_counts [of ?m "lc_others c", OF _ _ _ k]
  show ?thesis
  proof (cases "ls_open s")
    case True
    with assms(1) f have "send_attempts ?m (lc_others c) (nat (ls_max_attempts s)) (lc_sends c) (lc_connects c) s = (x, s')"
      by (simp add: log_vsend_def)
    from fin [OF this assms(2)] f show ?thesis by (simp add: drops_of_def kept_out_def add.assoc split: if_splits)
  next
    case False
    obtain ok cs1 s1 where c: "sender_connect_socket (lc_connects c) s = (ok, cs1, s1)" by (metis prod.exhaust)
    from connect_counts [OF c] have d: "ls_dropped s1 = ls_dropped s" "ls_unreported s1 = ls_unreported s" by simp_all
    note s1 = counted_same [OF d assms(2)]
    show ?thesis
    proof (cases ok)
      case True
      with assms(1) f False c have "send_attempts ?m (lc_others c) (nat (ls_max_attempts s1)) (lc_sends c) cs1 s1 = (x, s')"
        by (simp add: log_vsend_def)
      from fin [OF this s1] d f show ?thesis by (simp add: drops_of_def kept_out_def add.assoc split: if_splits)
    next
      case False
      with assms(1) f \<open>\<not> ls_open s\<close> c have "x = None" "s' = drop_one ((drop_one ^^ lc_others c) s1)" by (simp_all add: log_vsend_def)
      with counted_drop_one [OF s1 k] f show ?thesis by (simp add: drops_of_def kept_out_def reported_def)
    qed
  qed
qed

fun log_run :: "int \<Rightarrow> log_call list \<Rightarrow> sender \<Rightarrow> log_msg option list \<times> sender" where
  "log_run pid [] s = ([], s)"
| "log_run pid (c # cs) s = (case log_send pid c s of (x, s) \<Rightarrow> (case log_run pid cs s of (xs, s) \<Rightarrow> (x # xs, s)))"

lemma log_run_counts:
  "log_run pid cs s = (xs, s') \<Longrightarrow> counted t r s \<Longrightarrow> t + (\<Sum>c\<leftarrow>cs. kept_out c + 1) < 2 ^ 64 \<Longrightarrow>
   counted (t + (\<Sum>(c, x)\<leftarrow>zip cs xs. drops_of c x)) (r + (\<Sum>x\<leftarrow>xs. reported x)) s'"
proof (induction cs arbitrary: s t r xs s')
  case (Cons c cs)
  obtain x s1 where 1: "log_send pid c s = (x, s1)" by (metis prod.exhaust)
  obtain ys s2 where 2: "log_run pid cs s1 = (ys, s2)" by (metis prod.exhaust)
  have e: "xs = x # ys" "s' = s2" using Cons.prems(1) 1 2 by simp_all
  have b: "t + kept_out c + 1 < 2 ^ 64" using Cons.prems(3) by simp
  from log_vsend_counts [OF 1 [unfolded log_send_def] Cons.prems(2) b]
  have c1: "counted (t + drops_of c x) (r + reported x) s1" .
  have "drops_of c x \<le> kept_out c + 1" by (simp add: drops_of_def)
  then have b1: "t + drops_of c x + (\<Sum>c\<leftarrow>cs. kept_out c + 1) < 2 ^ 64"
    using Cons.prems(3) by (simp only: list.map sum_list.Cons)
  from Cons.IH [OF 2 c1 b1] show ?case by (simp add: e add.assoc)
qed simp

text \<open>
  C34: no drop is lost and none is told twice: after any run of calls, whatever the lock, the
  socket and the other threads did, the drops counted are the drops told in the records sent
  and those still to be told.
\<close>

theorem drops_told_once:
  assumes "log_run pid cs s = (xs, s')" "ls_dropped s = 0" "ls_unreported s = 0"
    and "(\<Sum>c\<leftarrow>cs. kept_out c + 1) < 2 ^ 64"
  shows "unat (get_log_dropped s') = (\<Sum>(c, x)\<leftarrow>zip cs xs. drops_of c x) \<and>
    unat (get_log_dropped s') = (\<Sum>x\<leftarrow>xs. reported x) + unat (ls_unreported s')"
  using log_run_counts [OF assms(1), of 0 0] assms(2-) by (simp_all add: counted_def get_log_dropped_def)

text \<open>A logger that is away for the first record and back for the second.\<close>

definition demo_sender :: sender where
  "demo_sender = \<lparr>ls_open = True, ls_path = ''s'', ls_dropped = 0, ls_unreported = 0, ls_max_attempts = 2\<rparr>"

definition demo_calls :: "log_call list" where
  "demo_calls =
     [\<lparr>lc_fmt = Some ''a'', lc_level = LOG_INFO, lc_busy = False, lc_others = 1, lc_connects = [False], lc_sends = [Peer_Gone]\<rparr>,
      \<lparr>lc_fmt = Some ''b'', lc_level = LOG_INFO, lc_busy = False, lc_others = 1, lc_connects = [True], lc_sends = [Send_Whole]\<rparr>]"

lemma demo_less: "(0 :: 64 word) < - 1" "(1 :: 64 word) < - 1" "(1 :: 64 word) + 1 < - 1"
  by (simp_all add: word_less_nat_alt max_word64)

lemma demo_run:
  "log_run 7 demo_calls demo_sender =
     ([None, Some \<lparr>lm_pid = 7, lm_level = LOG_INFO, lm_dropped = 2, lm_msg = ''b''\<rparr>],
      demo_sender\<lparr>ls_dropped := 3, ls_unreported := 1\<rparr>)"
  by (simp add: demo_calls_def demo_sender_def log_send_def log_vsend_def sender_connect_socket_def sender_disconnect_socket_def
    drop_one_def LOG_MSG_MAX_def Let_def numeral_2_eq_2 demo_less)

theorem drops_told_once_witness:
  "unat (get_log_dropped (snd (log_run 7 demo_calls demo_sender))) = 3 \<and>
   map reported (fst (log_run 7 demo_calls demo_sender)) = [0, 2]"
proof -
  have k: "(\<Sum>c\<leftarrow>demo_calls. kept_out c + 1) < 2 ^ 64" by (simp add: demo_calls_def kept_out_def)
  have "ls_dropped demo_sender = 0" "ls_unreported demo_sender = 0" by (simp_all add: demo_sender_def)
  from drops_told_once [OF demo_run this k] show ?thesis unfolding demo_run by (simp add: demo_sender_def reported_def)
qed

end
