(* ===== verification/Db_Pipe.thy ===== *)
theory Db_Pipe
  imports Db_Wire "HOL-Library.Word"
begin

text \<open>
  The statement queue of a daemon, \<^verbatim>\<open>src/src/libtetrisdb/pipe/queue.c\<close>, and the PipeRunner child it
  feeds, \<^verbatim>\<open>src/src/libtetrisdb/pipe/proc.c\<close>. The child is what it will print; what the kernel answers
  to starting it and to each write is an argument. The mutex makes every access to the queue one
  step, so a run of the program is a list of such steps of the submitting threads and the worker.
\<close>

section \<open>The child\<close>

definition PIPE_READY :: string where "PIPE_READY = ''<<READY>>''"
definition DB_HANDSHAKE_MAX :: nat where "DB_HANDSHAKE_MAX = 256"
definition DB_RESPAWN_MAX :: nat where "DB_RESPAWN_MAX = 3"

record db_proc =
  pr_live :: bool
  pr_buf :: string
  pr_out :: "rd_event list"

text \<open>The answers to one start: a data directory is set, Java and the jar are there, the pipes and
  the fork succeed, and what the new child prints.\<close>

record spawn_env =
  sp_dir :: string
  sp_jvm :: bool
  sp_pipes :: bool
  sp_fork :: bool
  sp_out :: "rd_event list"

definition db_proc_kill :: "db_proc \<Rightarrow> db_proc" where
  "db_proc_kill p = (if pr_live p then \<lparr>pr_live = False, pr_buf = [], pr_out = []\<rparr> else p)"

fun handshake_loop :: "nat \<Rightarrow> string \<Rightarrow> rd_event list \<Rightarrow> bool \<times> string \<times> rd_event list" where
  "handshake_loop 0 buf evs = (False, buf, evs)"
| "handshake_loop (Suc n) buf evs =
     (case db_wire_line 512 buf evs of
        (WLine line, buf, evs) \<Rightarrow> if take 9 (cstr line) = PIPE_READY then (True, buf, evs) else handshake_loop n buf evs
      | (_, buf, evs) \<Rightarrow> (False, buf, evs))"

definition db_proc_spawn :: "spawn_env \<Rightarrow> bool \<times> db_proc" where
  "db_proc_spawn sp =
     (let p = \<lparr>pr_live = False, pr_buf = [], pr_out = []\<rparr>
      in if sp_dir sp = [] then (False, p)
         else if \<not> sp_jvm sp then (False, p)
         else if \<not> sp_pipes sp then (False, p)
         else if \<not> sp_fork sp then (False, p)
         else case handshake_loop DB_HANDSHAKE_MAX [] (sp_out sp) of
                (True, buf, evs) \<Rightarrow> (True, \<lparr>pr_live = True, pr_buf = buf, pr_out = evs\<rparr>)
              | (False, buf, evs) \<Rightarrow> (False, db_proc_kill \<lparr>pr_live = True, pr_buf = buf, pr_out = evs\<rparr>))"

text \<open>One statement; the two event lists are what the writes of the statement and the newline meet.\<close>

definition db_proc_exec :: "string \<Rightarrow> nat \<Rightarrow> wr_event list \<times> wr_event list \<Rightarrow> db_proc \<Rightarrow> (int \<times> string) \<times> db_proc" where
  "db_proc_exec sql cap ws p =
     (if fst (db_wire_write sql (fst ws)) \<noteq> None \<or> fst (db_wire_write [NL] (snd ws)) \<noteq> None then ((- 1, []), p)
      else case db_wire_response cap (pr_buf p) (pr_out p) of
             (st, body, buf, evs) \<Rightarrow>
               let p = p\<lparr>pr_buf := buf, pr_out := evs\<rparr>
               in case st of
                    DB_OK \<Rightarrow> ((1, body), p)
                  | DB_IO \<Rightarrow> ((- 1, body), p)
                  | DB_TIMEOUT \<Rightarrow> ((- 1, body), p)
                  | _ \<Rightarrow> ((0, body), p))"

definition db_proc_close :: "db_proc \<Rightarrow> db_proc" where
  "db_proc_close p = (if pr_live p then \<lparr>pr_live = False, pr_buf = [], pr_out = []\<rparr> else p)"

section \<open>The queue\<close>

record db =
  dq_proc :: db_proc
  dq_items :: "string list"
  dq_cap :: nat
  dq_head :: nat
  dq_tail :: nat
  dq_count :: nat
  dq_stopping :: bool
  dq_dead :: bool
  dq_dropped :: "64 word"
  dq_errors :: "64 word"
  dq_worker_live :: bool

definition ring_put :: "string \<Rightarrow> db \<Rightarrow> db" where
  "ring_put sql q = q\<lparr>dq_items := (dq_items q)[dq_tail q := sql], dq_tail := (dq_tail q + 1) mod dq_cap q, dq_count := dq_count q + 1\<rparr>"

definition ring_get :: "db \<Rightarrow> string \<times> db" where
  "ring_get q = (dq_items q ! dq_head q, q\<lparr>dq_head := (dq_head q + 1) mod dq_cap q, dq_count := dq_count q - 1\<rparr>)"

text \<open>The wait of \<^verbatim>\<open>dequeue\<close> is a result of its own: the worker sleeps until someone signals.\<close>

datatype dequeued = Waiting | Finished | Taken string

definition dequeue :: "db \<Rightarrow> dequeued \<times> db" where
  "dequeue q =
     (if dq_count q = 0 then (if dq_stopping q then Finished else Waiting, q)
      else case ring_get q of (sql, q) \<Rightarrow> (Taken sql, q))"

definition db_submit :: "bool \<Rightarrow> string \<Rightarrow> db \<Rightarrow> int \<times> db" where
  "db_submit copied sql q =
     (if \<not> copied then (- 1, q\<lparr>dq_dropped := dq_dropped q + 1\<rparr>)
      else if dq_count q = dq_cap q \<or> dq_stopping q \<or> dq_dead q then (- 1, q\<lparr>dq_dropped := dq_dropped q + 1\<rparr>)
      else (0, ring_put sql q))"

text \<open>What becomes of a statement, and what one attempt to run it meets.\<close>

datatype outcome = Ran string | Rejected string | Lost string

record attempt_env =
  at_writes :: "wr_event list \<times> wr_event list"
  at_spawn :: spawn_env

fun execute_loop :: "nat \<Rightarrow> (nat \<Rightarrow> attempt_env) \<Rightarrow> string \<Rightarrow> db \<Rightarrow> outcome \<times> db" where
  "execute_loop left env sql q =
     (if dq_dead q then (Lost sql, q\<lparr>dq_dropped := dq_dropped q + 1\<rparr>)
      else case db_proc_exec sql DB_BODY_MAX (at_writes (env left)) (dq_proc q) of
             ((r, body), p) \<Rightarrow>
               if 0 < r then (Ran sql, q\<lparr>dq_proc := p\<rparr>)
               else if r = 0 then (Rejected sql, q\<lparr>dq_proc := p, dq_errors := dq_errors q + 1\<rparr>)
               else if left = 0 then (Lost sql, q\<lparr>dq_proc := db_proc_kill p, dq_dead := True, dq_dropped := dq_dropped q + 1\<rparr>)
               else case db_proc_spawn (at_spawn (env left)) of
                      (ok, p) \<Rightarrow>
                        if \<not> ok then (Lost sql, q\<lparr>dq_proc := p, dq_dead := True, dq_dropped := dq_dropped q + 1\<rparr>)
                        else execute_loop (left - 1) env sql (q\<lparr>dq_proc := p\<rparr>))"

declare execute_loop.simps [simp del]

definition execute :: "(nat \<Rightarrow> attempt_env) \<Rightarrow> string \<Rightarrow> db \<Rightarrow> outcome \<times> db" where
  "execute env sql q = execute_loop DB_RESPAWN_MAX env sql q"

definition get_db_dropped :: "db option \<Rightarrow> 64 word" where
  "get_db_dropped h = (case h of None \<Rightarrow> 0 | Some q \<Rightarrow> dq_dropped q)"

definition get_db_errors :: "db option \<Rightarrow> 64 word" where
  "get_db_errors h = (case h of None \<Rightarrow> 0 | Some q \<Rightarrow> dq_errors q)"

text \<open>\<open>mem\<close> and \<open>thread\<close> tell whether the allocations and the thread creation succeed.\<close>

definition db_start :: "bool \<Rightarrow> bool \<Rightarrow> nat \<Rightarrow> spawn_env \<Rightarrow> string option \<Rightarrow> wr_event list \<times> wr_event list \<Rightarrow> nat \<Rightarrow> db option \<times> string" where
  "db_start mem thread queue_cap sp probe ws body_cap =
     (if \<not> mem then (None, [])
      else let cap = (if 0 < queue_cap then queue_cap else 256)
           in case db_proc_spawn sp of
                (ok, p) \<Rightarrow>
                  if \<not> ok then (None, [])
                  else case (case probe of None \<Rightarrow> ((1, []), p) | Some sql \<Rightarrow> db_proc_exec sql body_cap ws p) of
                         ((r, body), p) \<Rightarrow>
                           if r < 0 then (None, body)
                           else if \<not> thread then (None, body)
                           else (Some \<lparr>dq_proc = p, dq_items = replicate cap [], dq_cap = cap, dq_head = 0, dq_tail = 0, dq_count = 0,
                                    dq_stopping = False, dq_dead = False, dq_dropped = 0, dq_errors = 0, dq_worker_live = True\<rparr>, body))"

definition stop_request :: "db \<Rightarrow> db" where
  "stop_request q = q\<lparr>dq_stopping := True\<rparr>"

text \<open>The second half of \<^verbatim>\<open>db_stop\<close>, once the worker is gone.\<close>

fun stop_drain :: "nat \<Rightarrow> db \<Rightarrow> db" where
  "stop_drain 0 q = q"
| "stop_drain (Suc n) q = (case ring_get q of (_, q) \<Rightarrow> stop_drain n (q\<lparr>dq_dropped := dq_dropped q + 1\<rparr>))"

definition stop_finish :: "db \<Rightarrow> db" where
  "stop_finish q = (let q = q\<lparr>dq_proc := db_proc_close (dq_proc q)\<rparr> in stop_drain (dq_count q) q)"

definition db_stop :: "(db \<Rightarrow> db) \<Rightarrow> db option \<Rightarrow> 64 word \<times> 64 word" where
  "db_stop work h =
     (case h of
        None \<Rightarrow> (0, 0)
      | Some q \<Rightarrow>
          let q = stop_request q;
              q = (if dq_worker_live q then work q else q);
              q = stop_finish q
          in (dq_dropped q, dq_errors q))"

section \<open>Runs\<close>

datatype pipe_act = Submit bool string | Wake | Run "nat \<Rightarrow> attempt_env" | Stop

record pipe_sys =
  ps_db :: db
  ps_cur :: "string option"
  ps_accepted :: "string list"
  ps_refused :: nat
  ps_log :: "outcome list"

text \<open>\<open>Wake\<close> and \<open>Run\<close> are the two halves of one turn of \<^verbatim>\<open>worker_main\<close>.\<close>

fun pipe_step :: "pipe_act \<Rightarrow> pipe_sys \<Rightarrow> pipe_sys" where
  "pipe_step (Submit copied sql) y =
     (case db_submit copied sql (ps_db y) of
        (rc, q) \<Rightarrow> if rc = 0 then y\<lparr>ps_db := q, ps_accepted := ps_accepted y @ [sql]\<rparr>
                   else y\<lparr>ps_db := q, ps_refused := ps_refused y + 1\<rparr>)"
| "pipe_step Wake y =
     (if ps_cur y \<noteq> None then y
      else case dequeue (ps_db y) of
             (Taken sql, q) \<Rightarrow> y\<lparr>ps_db := q, ps_cur := Some sql\<rparr>
           | (_, q) \<Rightarrow> y\<lparr>ps_db := q\<rparr>)"
| "pipe_step (Run env) y =
     (case ps_cur y of
        None \<Rightarrow> y
      | Some sql \<Rightarrow> (case execute env sql (ps_db y) of (r, q) \<Rightarrow> y\<lparr>ps_db := q, ps_cur := None, ps_log := ps_log y @ [r]\<rparr>))"
| "pipe_step Stop y = y\<lparr>ps_db := stop_request (ps_db y)\<rparr>"

definition pipe_run :: "pipe_act list \<Rightarrow> pipe_sys \<Rightarrow> pipe_sys" where
  "pipe_run acts y = fold pipe_step acts y"

definition pipe_begin :: "db \<Rightarrow> pipe_sys" where
  "pipe_begin q = \<lparr>ps_db = q, ps_cur = None, ps_accepted = [], ps_refused = 0, ps_log = []\<rparr>"

section \<open>The queue is a list\<close>

text \<open>A bounded queue: what a client may count on.\<close>

locale bounded_fifo =
  fixes inv :: "'q \<Rightarrow> bool" and abs :: "'q \<Rightarrow> 'a list" and full :: "'q \<Rightarrow> bool" and put :: "'a \<Rightarrow> 'q \<Rightarrow> 'q" and get :: "'q \<Rightarrow> 'a \<times> 'q"
  assumes put_law: "inv q \<Longrightarrow> \<not> full q \<Longrightarrow> inv (put x q) \<and> abs (put x q) = abs q @ [x]"
    and get_law: "inv q \<Longrightarrow> abs q \<noteq> [] \<Longrightarrow> inv (snd (get q)) \<and> abs q = fst (get q) # abs (snd (get q))"
begin

text \<open>What went in is what came out and what is still inside, in order.\<close>

lemma through_put: "inv q \<and> ins = outs @ abs q \<Longrightarrow> \<not> full q \<Longrightarrow> inv (put x q) \<and> ins @ [x] = outs @ abs (put x q)"
  using put_law [of q x] by simp

lemma through_get:
  "inv q \<and> ins = outs @ abs q \<Longrightarrow> abs q \<noteq> [] \<Longrightarrow> inv (snd (get q)) \<and> ins = (outs @ [fst (get q)]) @ abs (snd (get q))"
  using get_law [of q] by auto

end

definition ring_ok :: "db \<Rightarrow> bool" where
  "ring_ok q \<longleftrightarrow> 0 < dq_cap q \<and> length (dq_items q) = dq_cap q \<and> dq_head q < dq_cap q \<and>
     dq_tail q = (dq_head q + dq_count q) mod dq_cap q \<and> dq_count q \<le> dq_cap q"

definition ring_list :: "db \<Rightarrow> string list" where
  "ring_list q = map (\<lambda>i. dq_items q ! ((dq_head q + i) mod dq_cap q)) [0..<dq_count q]"

lemma ring_slot_free: "i < n \<Longrightarrow> n < cap \<Longrightarrow> h < cap \<Longrightarrow> (h + n) mod cap \<noteq> (h + i) mod (cap :: nat)"
proof
  assume h: "i < n" "n < cap" "(h + n) mod cap = (h + i) mod cap"
  then have "cap dvd (h + n) - (h + i)" by (simp add: mod_eq_dvd_iff_nat)
  then have "cap dvd n - i" by simp
  with h(1,2) show False by (auto dest!: dvd_imp_le)
qed

lemma ring_put_law:
  assumes "ring_ok q" "dq_count q \<noteq> dq_cap q"
  shows "ring_ok (ring_put x q) \<and> ring_list (ring_put x q) = ring_list q @ [x]"
proof -
  have b: "dq_count q < dq_cap q" "dq_head q < dq_cap q" "length (dq_items q) = dq_cap q" "dq_tail q = (dq_head q + dq_count q) mod dq_cap q"
    using assms by (auto simp: ring_ok_def)
  have "ring_ok (ring_put x q)" using assms by (auto simp: ring_ok_def ring_put_def mod_Suc_eq)
  moreover have "(dq_items q)[dq_tail q := x] ! ((dq_head q + i) mod dq_cap q) = dq_items q ! ((dq_head q + i) mod dq_cap q)" if "i < dq_count q" for i
    using ring_slot_free [OF that b(1,2)] b(4) by simp
  moreover have "(dq_items q)[dq_tail q := x] ! ((dq_head q + dq_count q) mod dq_cap q) = x" using b by simp
  ultimately show ?thesis by (simp add: ring_list_def ring_put_def)
qed

lemma ring_get_law:
  assumes "ring_ok q" "ring_list q \<noteq> []"
  shows "ring_ok (snd (ring_get q)) \<and> ring_list q = fst (ring_get q) # ring_list (snd (ring_get q))"
proof -
  have c: "0 < dq_count q" using assms(2) by (auto simp: ring_list_def)
  then obtain n where n: "dq_count q = Suc n" by (cases "dq_count q") auto
  have "[0..<Suc n] = 0 # map Suc [0..<n]" by (simp add: upt_conv_Cons map_Suc_upt del: upt_Suc)
  then have "ring_list q = dq_items q ! (dq_head q mod dq_cap q) # map (\<lambda>i. dq_items q ! ((dq_head q + Suc i) mod dq_cap q)) [0..<n]"
    by (simp add: ring_list_def n)
  moreover have "dq_head q mod dq_cap q = dq_head q" using assms(1) by (simp add: ring_ok_def)
  moreover have "((dq_head q + 1) mod dq_cap q + i) mod dq_cap q = (dq_head q + Suc i) mod dq_cap q" for i by (simp add: mod_add_left_eq)
  ultimately have "ring_list q = fst (ring_get q) # ring_list (snd (ring_get q))" by (simp add: ring_get_def ring_list_def n)
  moreover have "ring_ok (snd (ring_get q))" using assms(1) n by (auto simp: ring_ok_def ring_get_def mod_add_left_eq)
  ultimately show ?thesis by simp
qed

interpretation ring: bounded_fifo ring_ok ring_list "\<lambda>q. dq_count q = dq_cap q" ring_put ring_get
  by unfold_locales (fact ring_put_law, fact ring_get_law)

section \<open>No statement is lost unseen\<close>

fun stmt_of :: "outcome \<Rightarrow> string" where
  "stmt_of (Ran sql) = sql"
| "stmt_of (Rejected sql) = sql"
| "stmt_of (Lost sql) = sql"

definition lost_in :: "outcome list \<Rightarrow> nat" where
  "lost_in rs = length (filter (\<lambda>r. \<exists>s. r = Lost s) rs)"

definition rejected_in :: "outcome list \<Rightarrow> nat" where
  "rejected_in rs = length (filter (\<lambda>r. \<exists>s. r = Rejected s) rs)"

text \<open>Running a statement touches the counters and the child only.\<close>

lemma execute_loop_keeps:
  "execute_loop n env sql q = (r, q') \<Longrightarrow> stmt_of r = sql \<and> ring_list q' = ring_list q \<and> (ring_ok q' \<longleftrightarrow> ring_ok q) \<and>
     dq_stopping q' = dq_stopping q \<and>
     dq_dropped q' = dq_dropped q + of_nat (lost_in [r]) \<and> dq_errors q' = dq_errors q + of_nat (rejected_in [r])"
proof (induction n env sql q arbitrary: r q' rule: execute_loop.induct)
  case (1 n env sql q)
  obtain x body p where e: "db_proc_exec sql DB_BODY_MAX (at_writes (env n)) (dq_proc q) = ((x, body), p)" by (metis prod.exhaust)
  obtain ok p2 where s: "db_proc_spawn (at_spawn (env n)) = (ok, p2)" by (metis prod.exhaust)
  consider "dq_dead q \<or> 0 \<le> x \<or> n = 0 \<or> \<not> ok" | "\<not> dq_dead q" "x < 0" "n \<noteq> 0" ok by linarith
  then show ?case
  proof cases
    case 1
    with "1.prems" e s show ?thesis
      by (subst (asm) execute_loop.simps)
         (auto simp: lost_in_def rejected_in_def ring_list_def ring_ok_def split: if_splits)
  next
    case 2
    with "1.prems" e s have "execute_loop (n - 1) env sql (q\<lparr>dq_proc := p2\<rparr>) = (r, q')" by (subst (asm) execute_loop.simps) simp
    from "1.IH" [OF 2(1) e [symmetric] refl _ _ 2(3) s [symmetric] _ this] 2 s show ?thesis
      by (simp add: ring_list_def ring_ok_def)
  qed
qed

definition pipe_inv :: "pipe_sys \<Rightarrow> bool" where
  "pipe_inv y \<longleftrightarrow> ring_ok (ps_db y) \<and>
     ps_accepted y = (map stmt_of (ps_log y) @ (case ps_cur y of None \<Rightarrow> [] | Some s \<Rightarrow> [s])) @ ring_list (ps_db y) \<and>
     dq_dropped (ps_db y) = of_nat (ps_refused y + lost_in (ps_log y)) \<and> dq_errors (ps_db y) = of_nat (rejected_in (ps_log y))"

lemma ring_list_Nil: "ring_list q = [] \<longleftrightarrow> dq_count q = 0"
  by (simp add: ring_list_def)

lemma pipe_step_inv: "pipe_inv y \<Longrightarrow> pipe_inv (pipe_step a y)"
proof (cases a)
  case (Submit copied sql)
  assume i: "pipe_inv y"
  show ?thesis
  proof (cases "copied \<and> dq_count (ps_db y) \<noteq> dq_cap (ps_db y) \<and> \<not> dq_stopping (ps_db y) \<and> \<not> dq_dead (ps_db y)")
    case True
    with i ring.through_put [of "ps_db y" "ps_accepted y" _ sql] Submit show ?thesis
      by (simp add: pipe_inv_def db_submit_def) (simp add: ring_put_def)
  next
    case False
    with i Submit show ?thesis by (auto simp: pipe_inv_def db_submit_def ring_ok_def ring_list_def)
  qed
next
  case Wake
  assume i: "pipe_inv y"
  show ?thesis
  proof (cases "ps_cur y = None \<and> dq_count (ps_db y) \<noteq> 0")
    case True
    with i Wake ring.through_get [of "ps_db y" "ps_accepted y" "map stmt_of (ps_log y)"] show ?thesis
      by (auto simp: pipe_inv_def dequeue_def ring_list_Nil split: prod.splits) (auto simp: ring_get_def)
  next
    case False
    with i Wake show ?thesis by (auto simp: dequeue_def)
  qed
next
  case (Run env)
  assume i: "pipe_inv y"
  show ?thesis
  proof (cases "ps_cur y")
    case (Some sql)
    obtain r q where e: "execute env sql (ps_db y) = (r, q)" by (metis prod.exhaust)
    from execute_loop_keeps [OF e [unfolded execute_def]] i Run Some e show ?thesis
      by (auto simp: pipe_inv_def lost_in_def rejected_in_def)
  qed (use i Run in simp)
next
  case Stop
  assume "pipe_inv y"
  with Stop show ?thesis by (simp add: pipe_inv_def stop_request_def ring_ok_def ring_list_def)
qed

lemma pipe_run_inv: "pipe_inv y \<Longrightarrow> pipe_inv (pipe_run acts y)"
  by (induction acts arbitrary: y) (simp_all add: pipe_run_def pipe_step_inv)

lemma started_inv: "db_start mem thread cap sp probe ws body_cap = (Some q, body) \<Longrightarrow> pipe_inv (pipe_begin q)"
  by (auto simp: db_start_def Let_def pipe_begin_def pipe_inv_def ring_ok_def ring_list_def lost_in_def rejected_in_def
      split: if_splits prod.splits option.splits)

text \<open>
  C35: whatever submitters, worker, child and kernel do, the statements the queue accepted are,
  in order, those the worker has dealt with, the one it is at and those still queued; and the
  counters tell how many were refused or given up and how many the database rejected.
\<close>

theorem statements_accounted:
  assumes "db_start mem thread cap sp probe ws body_cap = (Some q, body)" "y = pipe_run acts (pipe_begin q)"
    and "ps_refused y + length (ps_log y) < 2 ^ 64"
  shows "ps_accepted y = map stmt_of (ps_log y) @ (case ps_cur y of None \<Rightarrow> [] | Some s \<Rightarrow> [s]) @ ring_list (ps_db y) \<and>
    unat (get_db_dropped (Some (ps_db y))) = ps_refused y + lost_in (ps_log y) \<and>
    unat (get_db_errors (Some (ps_db y))) = rejected_in (ps_log y) \<and> length (ring_list (ps_db y)) \<le> dq_cap (ps_db y)"
proof -
  from pipe_run_inv [OF started_inv [OF assms(1)]] assms(2) have i: "pipe_inv y" by simp
  have "lost_in (ps_log y) \<le> length (ps_log y)" "rejected_in (ps_log y) \<le> length (ps_log y)"
    by (simp_all add: lost_in_def rejected_in_def)
  then have b: "ps_refused y + lost_in (ps_log y) < 2 ^ 64" "rejected_in (ps_log y) < 2 ^ 64" using assms(3) by linarith+
  have "unat (of_nat n :: 64 word) = n" if "n < 2 ^ 64" for n using that by (simp add: unat_of_nat)
  with b i show ?thesis
    by (simp add: pipe_inv_def get_db_dropped_def get_db_errors_def ring_ok_def ring_list_def del: of_nat_add)
qed

text \<open>A queue of two places, three statements, a child that answers the first and dies.\<close>

definition demo_spawn :: spawn_env where
  "demo_spawn = \<lparr>sp_dir = ''d'', sp_jvm = True, sp_pipes = True, sp_fork = True,
     sp_out = [Data (''<<READY>>'' @ [NL] @ ''<<END ok>>'' @ [NL]), Eof]\<rparr>"

definition demo_attempt :: attempt_env where
  "demo_attempt = \<lparr>at_writes = ([Took 1], [Took 1]), at_spawn = demo_spawn\<lparr>sp_jvm := False\<rparr>\<rparr>"

definition demo_acts :: "pipe_act list" where
  "demo_acts = [Submit True ''a'', Submit True ''b'', Submit True ''c'', Wake, Run (\<lambda>_. demo_attempt), Wake, Run (\<lambda>_. demo_attempt)]"

theorem statements_accounted_witness:
  "\<exists>q body. db_start True True 2 demo_spawn None ([], []) 100 = (Some q, body) \<and>
    ps_log (pipe_run demo_acts (pipe_begin q)) = [Ran ''a'', Lost ''b''] \<and>
    unat (get_db_dropped (Some (ps_db (pipe_run demo_acts (pipe_begin q))))) = 2"
proof -
  let ?s = "db_start True True 2 demo_spawn None ([], []) 100"
  have 1: "case fst ?s of None \<Rightarrow> False | Some q \<Rightarrow> ps_log (pipe_run demo_acts (pipe_begin q)) = [Ran ''a'', Lost ''b''] \<and>
      ps_refused (pipe_run demo_acts (pipe_begin q)) = 1" by code_simp
  then obtain q body where q: "?s = (Some q, body)" by (cases ?s) (auto split: option.splits)
  with 1 have l: "ps_log (pipe_run demo_acts (pipe_begin q)) = [Ran ''a'', Lost ''b'']" "ps_refused (pipe_run demo_acts (pipe_begin q)) = 1" by simp_all
  have "ps_refused (pipe_run demo_acts (pipe_begin q)) + length (ps_log (pipe_run demo_acts (pipe_begin q))) < 2 ^ 64" by (simp add: l)
  from statements_accounted [OF q refl this] q l show ?thesis by (simp add: lost_in_def)
qed

end
