(* ===== verification/Logd.thy ===== *)
theory Logd
  imports Logmsg Db_Pipe
begin

text \<open>
  The log daemon, \<^verbatim>\<open>src/src/tetrislogd\<close>: its settings, one record from the socket to the log file
  and to the database mirror, the periodic summary and the main loop. A datagram is what
  \<^verbatim>\<open>recvfrom\<close> delivers; the log file is the text written to it, and whether a write succeeds, the
  time and its printed form are arguments. The echo to the terminal is not modelled.
\<close>

section \<open>Settings\<close>

record logd_opts =
  lo_socket_path :: string
  lo_log_path :: string
  lo_min_level :: log_level
  lo_summary_secs :: int
  lo_db_enable :: int
  lo_db_dir :: string
  lo_db_jar :: string
  lo_db_java :: string
  lo_queue_cap :: nat

definition logd_config :: "rc_file \<Rightarrow> logd_opts \<Rightarrow> rc_cache \<Rightarrow> bool \<times> logd_opts \<times> rc_cache" where
  "logd_config F o1 rc =
     (case rc_get F ''log_path'' None (Some (lo_log_path o1)) PATH_MAX rc of ((st, v), rc) \<Rightarrow>
      let o1 = o1\<lparr>lo_log_path := the v\<rparr>
      in if st \<noteq> RC_VALUE_FOUND then (False, o1, rc)
         else case rc_get F ''log_ipc'' None (Some (lo_socket_path o1)) SUN_PATH_MAX rc of ((st, v), rc) \<Rightarrow>
         let o1 = o1\<lparr>lo_socket_path := the v\<rparr>
         in if st \<noteq> RC_VALUE_FOUND then (False, o1, rc)
            else case rc_get F ''log_db_dir'' (Some ''var/db_log'') (Some (lo_db_dir o1)) PATH_MAX rc of ((_, dir), rc) \<Rightarrow>
                 case rc_get F ''log_db_jar'' (Some ''db/dist/simpledb.jar'') (Some (lo_db_jar o1)) PATH_MAX rc of ((_, jar), rc) \<Rightarrow>
                 case rc_get F ''log_db_java'' (Some ''java'') (Some (lo_db_java o1)) PATH_MAX rc of ((_, java), rc) \<Rightarrow>
                 case rc_get_int F ''log_summary_secs'' 30 0 3600 (Some (lo_summary_secs o1)) rc of ((_, secs), rc) \<Rightarrow>
                 case rc_get_bool F ''db'' 0 (Some (lo_db_enable o1)) rc of ((_, en), rc) \<Rightarrow>
                 case rc_get_int F ''log_db_queue'' 256 1 (2 ^ 31 - 1) (Some 0) rc of ((_, cap), rc) \<Rightarrow>
                 case rc_get F ''log_level'' (Some ''info'') (Some []) 16 rc of ((_, level), rc) \<Rightarrow>
                   (True, o1\<lparr>lo_min_level := (case log_level_parse level of Some l \<Rightarrow> l | None \<Rightarrow> LOG_INFO), lo_summary_secs := the secs,
                     lo_db_enable := the en, lo_db_dir := the dir, lo_db_jar := the jar, lo_db_java := the java, lo_queue_cap := nat (the cap)\<rparr>, rc))"

section \<open>The mirror in the database\<close>

definition LOGD_DROP_CLAIM_MAX :: nat where "LOGD_DROP_CLAIM_MAX = 2 ^ 24"
definition LOGD_DRAIN_MAX :: nat where "LOGD_DRAIN_MAX = 100000"
definition LOGD_DB_TABLE :: string where "LOGD_DB_TABLE = ''log''"
definition LOGD_DB_STRING_MAX :: nat where "LOGD_DB_STRING_MAX = 128"

record logd_mirror =
  mi_db :: "db option"
  mi_next_id :: int

text \<open>\<^verbatim>\<open>strtol\<close> is given the whole rest of the reply, not just the line.\<close>

function seed_loop :: "bool \<Rightarrow> string \<Rightarrow> int" where
  "seed_loop after_rule p =
     (if p = [] then 1
      else let line = takeWhile (\<lambda>c. c \<noteq> NL) p; rest = dropWhile (\<lambda>c. c \<noteq> NL) p
           in if after_rule \<and> snd (strtol p) \<noteq> p \<and> 0 \<le> fst (strtol p) then fst (strtol p) + 1
              else case rest of
                     [] \<Rightarrow> 1
                   | _ # p2 \<Rightarrow> seed_loop (after_rule \<or> 3 \<le> length line \<and> take 3 line = ''---'') p2)"
  by pat_completeness auto
termination by (relation "measure (\<lambda>(_, p). length p)") (auto dest!: dropWhile_shorter [OF sym])

declare seed_loop.simps [simp del]

definition db_seed_id :: "string \<Rightarrow> int" where
  "db_seed_id body = seed_loop False body"

text \<open>\<open>table\<close> tells whether \<^verbatim>\<open>db_ensure_table\<close> succeeds; \<open>start\<close> is the answer of \<^verbatim>\<open>db_start\<close> to the probe.\<close>

definition open_db :: "bool \<Rightarrow> db option \<times> string \<Rightarrow> logd_opts \<Rightarrow> logd_mirror" where
  "open_db table start o1 =
     (if lo_db_enable o1 = 0 then \<lparr>mi_db = None, mi_next_id = 1\<rparr>
      else if \<not> table then \<lparr>mi_db = None, mi_next_id = 1\<rparr>
      else case start of
             (None, _) \<Rightarrow> \<lparr>mi_db = None, mi_next_id = 1\<rparr>
           | (Some q, body) \<Rightarrow> \<lparr>mi_db = Some q, mi_next_id = db_seed_id body\<rparr>)"

fun log_level_to_str :: "log_level \<Rightarrow> string" where
  "log_level_to_str LOG_INFO = ''INFO ''"
| "log_level_to_str LOG_WARN = ''WARN ''"
| "log_level_to_str LOG_ERROR = ''ERROR''"
| "log_level_to_str LOG_DEBUG = ''DEBUG''"
| "log_level_to_str LOG_UNKNOWN = ''?????''"

definition remove_level_word_padding :: "log_level \<Rightarrow> nat \<Rightarrow> string" where
  "remove_level_word_padding level cap = rev (dropWhile (\<lambda>c. c = CHR '' '') (rev (snprintf_s cap (log_level_to_str level))))"

definition mirror_sql :: "int \<Rightarrow> log_msg \<Rightarrow> int \<Rightarrow> string" where
  "mirror_sql i m now =
     snprintf_s (LOGD_DB_STRING_MAX * 2 + 256)
       (''insert into '' @ LOGD_DB_TABLE @ '' values ('' @ int_str i @ '', '' @ int_str (lm_pid m) @ '', '' @ int_str now @ '', '' @
        db_quote (16 * 2 + 3) (remove_level_word_padding (lm_level m) 16) @ '', '' @
        db_quote ((LOGD_DB_STRING_MAX + 1) * 2 + 3) (snprintf_s (LOGD_DB_STRING_MAX + 1) (lm_msg m)) @ '');'')"

definition mirror_log_to_db :: "bool \<Rightarrow> log_msg \<Rightarrow> int \<Rightarrow> logd_mirror \<Rightarrow> logd_mirror" where
  "mirror_log_to_db copied m now mi =
     (case mi_db mi of
        None \<Rightarrow> mi
      | Some q \<Rightarrow> \<lparr>mi_db = Some (snd (db_submit copied (mirror_sql (mi_next_id mi) m now) q)), mi_next_id = mi_next_id mi + 1\<rparr>)"

section \<open>One record\<close>

record logd_stats =
  ls_received :: "64 word"
  ls_filtered :: "64 word"
  ls_malformed :: "64 word"
  ls_truncated :: "64 word"
  ls_told :: "64 word"
  ls_db_dropped :: "64 word"
  ls_db_errors :: "64 word"

record logd =
  lg_file :: string
  lg_mirror :: logd_mirror
  lg_stats :: logd_stats

text \<open>The clock, its printed form, whether the write to the log succeeds and the copy for the queue.\<close>

record emit_env =
  ee_now :: int
  ee_stamp :: string
  ee_written :: bool
  ee_copied :: bool

definition emit :: "emit_env \<Rightarrow> log_msg \<Rightarrow> logd \<Rightarrow> bool \<times> logd" where
  "emit v m d =
     (if \<not> ee_written v then (False, d)
      else (True, d\<lparr>lg_file := lg_file d @ ''['' @ ee_stamp v @ ''] ['' @ log_level_to_str (lm_level m) @ ''] pid='' @ int_str (lm_pid m) @
                               '': '' @ lm_msg m @ [NL],
                    lg_mirror := mirror_log_to_db (ee_copied v) m (ee_now v) (lg_mirror d)\<rparr>))"

definition emit_self :: "int \<Rightarrow> emit_env \<Rightarrow> log_level \<Rightarrow> string \<Rightarrow> logd \<Rightarrow> bool \<times> logd" where
  "emit_self pid v level tx d =
     emit v \<lparr>lm_pid = pid, lm_level = level, lm_dropped = 0, lm_msg = snprintf_s LOG_MSG_MAX tx\<rparr> d"

definition sanitise :: "string \<Rightarrow> string" where
  "sanitise s = map (\<lambda>c. if of_char c < (0x20 :: nat) \<or> of_char c = (0x7f :: nat) then CHR ''.'' else c) s"

text \<open>A whole record carries 256 bytes of text, terminated or not.\<close>

datatype datagram = Nothing_There | Recv_Failed | Odd_Size | Whole int log_level "64 word" string

definition serve_one :: "logd_opts \<Rightarrow> emit_env \<Rightarrow> datagram \<Rightarrow> logd \<Rightarrow> int \<times> logd" where
  "serve_one o1 v g d =
     (case g of
        Nothing_There \<Rightarrow> (0, d)
      | Recv_Failed \<Rightarrow> (- 1, d)
      | Odd_Size \<Rightarrow> (1, d\<lparr>lg_stats := (lg_stats d)\<lparr>ls_malformed := ls_malformed (lg_stats d) + 1\<rparr>\<rparr>)
      | Whole pid level dropped raw \<Rightarrow>
          let s = lg_stats d;
              s = (if LOGD_DROP_CLAIM_MAX < unat dropped then s\<lparr>ls_malformed := ls_malformed s + 1\<rparr>
                   else s\<lparr>ls_told := ls_told s + dropped\<rparr>);
              (raw, s) = (if NUL \<notin> set raw then (raw[LOG_MSG_MAX - 1 := NUL], s\<lparr>ls_truncated := ls_truncated s + 1\<rparr>) else (raw, s));
              m = \<lparr>lm_pid = pid, lm_level = level, lm_dropped = dropped, lm_msg = sanitise (cstr raw)\<rparr>
          in if log_level_rank level \<le> log_level_rank LOG_ERROR \<and> log_level_rank level < log_level_rank (lo_min_level o1)
             then (1, d\<lparr>lg_stats := s\<lparr>ls_filtered := ls_filtered s + 1\<rparr>\<rparr>)
             else let s = (if log_level_rank LOG_ERROR < log_level_rank level then s\<lparr>ls_malformed := ls_malformed s + 1\<rparr> else s)
                  in case emit v m (d\<lparr>lg_stats := s\<rparr>) of
                       (ok, d) \<Rightarrow>
                         if \<not> ok then (- 1, d)
                         else (1, d\<lparr>lg_stats := (lg_stats d)\<lparr>ls_received := ls_received (lg_stats d) + 1\<rparr>\<rparr>))"

section \<open>Summaries\<close>

record summary_window =
  sw_opened :: int
  sw_at_open :: logd_stats

definition db_snapshot :: "logd_mirror \<Rightarrow> logd_stats \<Rightarrow> logd_stats" where
  "db_snapshot mi s = s\<lparr>ls_db_dropped := get_db_dropped (mi_db mi), ls_db_errors := get_db_errors (mi_db mi)\<rparr>"

definition stats_diff :: "logd_stats \<Rightarrow> logd_stats \<Rightarrow> logd_stats" where
  "stats_diff a b = \<lparr>ls_received = ls_received a - ls_received b, ls_filtered = ls_filtered a - ls_filtered b,
     ls_malformed = ls_malformed a - ls_malformed b, ls_truncated = ls_truncated a - ls_truncated b, ls_told = ls_told a - ls_told b,
     ls_db_dropped = ls_db_dropped a - ls_db_dropped b, ls_db_errors = ls_db_errors a - ls_db_errors b\<rparr>"

definition quiet :: "logd_stats \<Rightarrow> bool" where
  "quiet s \<longleftrightarrow> ls_received s = 0 \<and> ls_filtered s = 0 \<and> ls_malformed s = 0 \<and> ls_truncated s = 0 \<and> ls_told s = 0 \<and>
     ls_db_dropped s = 0 \<and> ls_db_errors s = 0"

abbreviation ulong_str :: "64 word \<Rightarrow> string" where
  "ulong_str w \<equiv> nat_str (unat w)"

definition stats_text :: "logd_stats \<Rightarrow> string" where
  "stats_text s = ''received='' @ ulong_str (ls_received s) @ '' filtered='' @ ulong_str (ls_filtered s) @ '' malformed='' @
     ulong_str (ls_malformed s) @ '' truncated='' @ ulong_str (ls_truncated s) @ '' dropped='' @ ulong_str (ls_told s) @ '' db_dropped='' @
     ulong_str (ls_db_dropped s) @ '' db_errors='' @ ulong_str (ls_db_errors s)"

definition summarise :: "int \<Rightarrow> logd_opts \<Rightarrow> emit_env \<Rightarrow> int \<Rightarrow> logd \<times> summary_window \<Rightarrow> bool \<times> logd \<times> summary_window" where
  "summarise pid o1 v now dw =
     (case dw of (d, w) \<Rightarrow>
        if lo_summary_secs o1 \<le> 0 then (True, d, w)
        else if now - sw_opened w < lo_summary_secs o1 then (True, d, if now < sw_opened w then w\<lparr>sw_opened := now\<rparr> else w)
        else let cur = db_snapshot (lg_mirror d) (lg_stats d);
                 diff = stats_diff cur (sw_at_open w);
                 elapsed = wrap32 (now - sw_opened w);
                 w = \<lparr>sw_opened = now, sw_at_open = cur\<rparr>
             in if quiet diff then (True, d, w)
                else let level = (if ls_malformed diff \<noteq> 0 \<or> ls_truncated diff \<noteq> 0 \<or> ls_told diff \<noteq> 0 \<or> ls_db_dropped diff \<noteq> 0 \<or>
                                     ls_db_errors diff \<noteq> 0 then LOG_WARN else LOG_INFO)
                     in case emit_self pid v level (snprintf_s LOG_MSG_MAX (stats_text diff @ '' in last '' @ int_str elapsed @ ''s'')) d of
                          (ok, d) \<Rightarrow> (ok, d, w))"

section \<open>The main loop\<close>

text \<open>One turn: a hangup may have come in, then one receive and one look at the window.\<close>

record logd_turn =
  tu_reopen :: bool
  tu_reopened :: bool
  tu_reopen_env :: emit_env
  tu_datagram :: datagram
  tu_env :: emit_env
  tu_now :: int
  tu_sum_env :: emit_env

definition logd_turn_step :: "int \<Rightarrow> logd_opts \<Rightarrow> logd_turn \<Rightarrow> logd \<times> summary_window \<Rightarrow> bool \<times> logd \<times> summary_window" where
  "logd_turn_step pid o1 t dw =
     (case dw of (d, w) \<Rightarrow>
        let d = (if tu_reopen t \<and> tu_reopened t then snd (emit_self pid (tu_reopen_env t) LOG_INFO ''log file reopened (SIGHUP)'' d) else d)
        in case serve_one o1 (tu_env t) (tu_datagram t) d of
             (r, d) \<Rightarrow> if r < 0 then (False, d, w) else summarise pid o1 (tu_sum_env t) (tu_now t) (d, w))"

fun logd_loop :: "int \<Rightarrow> logd_opts \<Rightarrow> logd_turn list \<Rightarrow> logd \<times> summary_window \<Rightarrow> bool \<times> logd \<times> summary_window" where
  "logd_loop pid o1 [] dw = (True, dw)"
| "logd_loop pid o1 (t # ts) dw =
     (case logd_turn_step pid o1 t dw of (ok, dw) \<Rightarrow> if \<not> ok then (False, dw) else logd_loop pid o1 ts dw)"

text \<open>After a stop signal the queued datagrams are still taken, up to a bound.\<close>

fun logd_drain :: "nat \<Rightarrow> logd_opts \<Rightarrow> (datagram \<times> emit_env) list \<Rightarrow> logd \<Rightarrow> bool \<times> logd" where
  "logd_drain 0 o1 gs d = (True, d)"
| "logd_drain (Suc n) o1 [] d = (True, d)"
| "logd_drain (Suc n) o1 ((g, v) # gs) d =
     (case serve_one o1 v g d of (r, d) \<Rightarrow> if r = 1 then logd_drain n o1 gs d else (\<not> r < 0, d))"

definition stats0 :: logd_stats where
  "stats0 = \<lparr>ls_received = 0, ls_filtered = 0, ls_malformed = 0, ls_truncated = 0, ls_told = 0, ls_db_dropped = 0, ls_db_errors = 0\<rparr>"

record logd_env =
  le_pid :: int
  le_bound :: bool
  le_file :: "string option"
  le_table :: bool
  le_start :: "db option \<times> string"
  le_opened :: int
  le_hello :: emit_env
  le_turns :: "logd_turn list"
  le_queued :: "(datagram \<times> emit_env) list"
  le_bye :: emit_env
  le_work :: "db \<Rightarrow> db"

definition logd_run :: "logd_env \<Rightarrow> logd_opts \<Rightarrow> bool \<times> logd_stats \<times> string option" where
  "logd_run v o1 =
     (if \<not> le_bound v then (False, stats0, le_file v)
      else case le_file v of
             None \<Rightarrow> (False, stats0, None)
           | Some txt \<Rightarrow>
               let mi = open_db (le_table v) (le_start v) o1;
                   hello = snprintf_s LOG_MSG_MAX (''tetrislogd started: socket='' @ lo_socket_path o1 @ '' level>='' @
                     remove_level_word_padding (lo_min_level o1) 16 @ '' summary='' @ int_str (lo_summary_secs o1) @ ''s db='' @
                     (if mi_db mi \<noteq> None then lo_db_dir o1 else ''off''));
                   d = snd (emit_self (le_pid v) (le_hello v) LOG_INFO hello \<lparr>lg_file = txt, lg_mirror = mi, lg_stats = stats0\<rparr>);
                   w = \<lparr>sw_opened = le_opened v, sw_at_open = db_snapshot (lg_mirror d) (lg_stats d)\<rparr>
               in case logd_loop (le_pid v) o1 (le_turns v) (d, w) of
                    (ok, d, w) \<Rightarrow>
                      (case (if ok then logd_drain LOGD_DRAIN_MAX o1 (le_queued v) d else (False, d)) of
                         (ok, d) \<Rightarrow>
                           let s = db_snapshot (lg_mirror d) (lg_stats d);
                               d = snd (emit_self (le_pid v) (le_bye v) LOG_INFO (snprintf_s LOG_MSG_MAX (''tetrislogd stopping: '' @ stats_text s)) d);
                               (dropped, errors) = db_stop (le_work v) (mi_db (lg_mirror d))
                           in (ok, s\<lparr>ls_db_dropped := dropped, ls_db_errors := errors\<rparr>, Some (lg_file d))))"

section \<open>One record, one line\<close>

definition ctl_free :: "string \<Rightarrow> bool" where
  "ctl_free s \<longleftrightarrow> (\<forall>c \<in> set s. (0x20 :: nat) \<le> of_char c \<and> of_char c \<noteq> (0x7f :: nat))"

lemma ctl_free_append [simp]: "ctl_free (a @ b) \<longleftrightarrow> ctl_free a \<and> ctl_free b"
  by (auto simp: ctl_free_def)

lemma ctl_free_Cons [simp]: "ctl_free (c # s) \<longleftrightarrow> (0x20 :: nat) \<le> of_char c \<and> of_char c \<noteq> (0x7f :: nat) \<and> ctl_free s"
  by (auto simp: ctl_free_def)

lemma ctl_free_Nil [simp]: "ctl_free []"
  by (simp add: ctl_free_def)

lemma ctl_free_take: "ctl_free s \<Longrightarrow> ctl_free (snprintf_s n s)"
  by (auto simp: ctl_free_def snprintf_s_def dest: in_set_takeD)

lemma ctl_free_nat [simp]: "ctl_free (nat_str n)"
proof -
  have "(0x20 :: nat) \<le> of_char c \<and> of_char c \<noteq> (0x7f :: nat)" if "is_digit c" for c using that by (simp add: is_digit_def)
  then show ?thesis using nat_str_digits by (auto simp: ctl_free_def)
qed

lemma ctl_free_int [simp]: "ctl_free (int_str i)"
  by (simp add: int_str_def)

lemma ctl_free_level [simp]: "ctl_free (log_level_to_str level)"
  by (cases level) simp_all

lemma ctl_free_sanitise [simp]: "ctl_free (sanitise s)"
  by (auto simp: ctl_free_def sanitise_def)

lemma ctl_free_word [simp]: "ctl_free (remove_level_word_padding level n)"
  using ctl_free_take [OF ctl_free_level [of level], of n]
  by (auto simp: ctl_free_def remove_level_word_padding_def dest!: set_dropWhileD)

lemma ctl_free_stats [simp]: "ctl_free (stats_text s)"
  by (simp add: stats_text_def)

text \<open>The lines of the log: what a text was extended by.\<close>

definition log_line :: "string \<Rightarrow> bool" where
  "log_line l \<longleftrightarrow> ctl_free l \<and>
     (\<exists>ts level pid m. l = ''['' @ ts @ ''] ['' @ log_level_to_str level @ ''] pid='' @ int_str pid @ '': '' @ m)"

definition grew :: "nat \<Rightarrow> string \<Rightarrow> string \<Rightarrow> bool" where
  "grew n a b \<longleftrightarrow> (\<exists>ls. length ls = n \<and> list_all log_line ls \<and> b = a @ concat (map (\<lambda>l. l @ [NL]) ls))"

lemma grew_0: "grew 0 a a"
  by (simp add: grew_def)

lemma grew_trans: "grew m a b \<Longrightarrow> grew n b c \<Longrightarrow> grew (m + n) a c"
  unfolding grew_def
proof (elim exE conjE)
  fix xs ys
  assume "length xs = m" "list_all log_line xs" "b = a @ concat (map (\<lambda>l. l @ [NL]) xs)"
    "length ys = n" "list_all log_line ys" "c = b @ concat (map (\<lambda>l. l @ [NL]) ys)"
  then show "\<exists>ls. length ls = m + n \<and> list_all log_line ls \<and> c = a @ concat (map (\<lambda>l. l @ [NL]) ls)"
    by (intro exI [of _ "xs @ ys"]) simp
qed

lemma emit_grew:
  assumes "emit v m d = (ok, d')" "ctl_free (ee_stamp v)" "ctl_free (lm_msg m)"
  shows "grew (if ok then 1 else 0) (lg_file d) (lg_file d') \<and> lg_stats d' = lg_stats d"
proof (cases "ee_written v")
  case True
  let ?l = "''['' @ ee_stamp v @ ''] ['' @ log_level_to_str (lm_level m) @ ''] pid='' @ int_str (lm_pid m) @ '': '' @ lm_msg m"
  have "ctl_free ?l" using assms(2,3) by simp
  then have "log_line ?l" unfolding log_line_def by blast
  then have "grew 1 (lg_file d) (lg_file d @ ?l @ [NL])" unfolding grew_def by (intro exI [of _ "[?l]"]) simp
  with assms True show ?thesis by (auto simp: emit_def)
qed (use assms grew_0 in \<open>auto simp: emit_def\<close>)

lemma serve_one_grew:
  assumes "serve_one o1 v g d = (r, d')" "ctl_free (ee_stamp v)"
  shows "\<exists>n \<le> 1. grew n (lg_file d) (lg_file d') \<and> ls_received (lg_stats d') = ls_received (lg_stats d) + of_nat n"
proof (cases g)
  case (Whole pid level dropped raw)
  define s1 where "s1 = (if LOGD_DROP_CLAIM_MAX < unat dropped then (lg_stats d)\<lparr>ls_malformed := ls_malformed (lg_stats d) + 1\<rparr>
    else (lg_stats d)\<lparr>ls_told := ls_told (lg_stats d) + dropped\<rparr>)"
  obtain raw2 s2 where r2: "(if NUL \<notin> set raw then (raw[LOG_MSG_MAX - 1 := NUL], s1\<lparr>ls_truncated := ls_truncated s1 + 1\<rparr>) else (raw, s1)) = (raw2, s2)"
    by (metis prod.exhaust)
  define s3 where "s3 = (if log_level_rank LOG_ERROR < log_level_rank level then s2\<lparr>ls_malformed := ls_malformed s2 + 1\<rparr> else s2)"
  define m where "m = \<lparr>lm_pid = pid, lm_level = level, lm_dropped = dropped, lm_msg = sanitise (cstr raw2)\<rparr>"
  have rec: "ls_received s1 = ls_received (lg_stats d)" "ls_received s2 = ls_received (lg_stats d)" "ls_received s3 = ls_received (lg_stats d)"
    using r2 by (auto simp: s1_def s3_def split: if_splits)
  obtain ok d2 where e: "emit v m (d\<lparr>lg_stats := s3\<rparr>) = (ok, d2)" by (metis prod.exhaust)
  have run: "(r, d') = (if log_level_rank level \<le> log_level_rank LOG_ERROR \<and> log_level_rank level < log_level_rank (lo_min_level o1)
      then (1, d\<lparr>lg_stats := s2\<lparr>ls_filtered := ls_filtered s2 + 1\<rparr>\<rparr>)
      else if \<not> ok then (- 1, d2) else (1, d2\<lparr>lg_stats := (lg_stats d2)\<lparr>ls_received := ls_received (lg_stats d2) + 1\<rparr>\<rparr>))"
    using assms(1) unfolding serve_one_def Whole datagram.case Let_def s1_def [symmetric] r2 prod.case s3_def [symmetric] m_def [symmetric] e by auto
  have "ctl_free (lm_msg m)" by (simp add: m_def)
  from emit_grew [OF e assms(2) this] have g: "grew (if ok then 1 else 0) (lg_file d) (lg_file d2)" "lg_stats d2 = s3" by simp_all
  show ?thesis
  proof (cases "log_level_rank level \<le> log_level_rank LOG_ERROR \<and> log_level_rank level < log_level_rank (lo_min_level o1) \<or> \<not> ok")
    case True
    with run g rec grew_0 show ?thesis by (intro exI [of _ 0]) (auto split: if_splits)
  next
    case False
    with run g rec show ?thesis by (intro exI [of _ 1]) auto
  qed
qed (use assms grew_0 in \<open>auto simp: serve_one_def intro!: exI [of _ 0]\<close>)

lemma emit_self_grew:
  assumes "emit_self pid v level tx d = (ok, d')" "ctl_free (ee_stamp v)" "ctl_free tx"
  shows "\<exists>n. grew n (lg_file d) (lg_file d') \<and> lg_stats d' = lg_stats d"
  using emit_grew [OF assms(1) [unfolded emit_self_def] assms(2)] ctl_free_take [OF assms(3)] by auto

lemma summarise_grew:
  assumes "summarise pid o1 v now (d, w) = (ok, d', w')" "ctl_free (ee_stamp v)"
  shows "\<exists>n. grew n (lg_file d) (lg_file d') \<and> lg_stats d' = lg_stats d"
proof -
  have "ctl_free (snprintf_s LOG_MSG_MAX (stats_text x @ '' in last '' @ int_str y @ ''s''))" for x y by (rule ctl_free_take) simp
  with assms show ?thesis
    by (auto simp: summarise_def Let_def split: if_splits prod.splits intro: grew_0 dest!: emit_self_grew)
qed

definition turn_clean :: "logd_turn \<Rightarrow> bool" where
  "turn_clean t \<longleftrightarrow> ctl_free (ee_stamp (tu_reopen_env t)) \<and> ctl_free (ee_stamp (tu_env t)) \<and> ctl_free (ee_stamp (tu_sum_env t))"

text \<open>The counter of received records counts lines, and only lines were added.\<close>

definition logged :: "logd \<Rightarrow> logd \<Rightarrow> bool" where
  "logged d d' \<longleftrightarrow> (\<exists>n m. m \<le> n \<and> grew n (lg_file d) (lg_file d') \<and> ls_received (lg_stats d') = ls_received (lg_stats d) + of_nat m)"

lemma logged_refl: "logged d d"
  using grew_0 by (force simp: logged_def)

lemma logged_trans:
  assumes "logged a b" "logged b c"
  shows "logged a c"
proof -
  from assms obtain n m i j where g: "m \<le> n" "grew n (lg_file a) (lg_file b)" "ls_received (lg_stats b) = ls_received (lg_stats a) + of_nat m"
    "j \<le> i" "grew i (lg_file b) (lg_file c)" "ls_received (lg_stats c) = ls_received (lg_stats b) + of_nat j" unfolding logged_def by blast
  show ?thesis unfolding logged_def
    by (rule exI [of _ "n + i"], rule exI [of _ "m + j"]) (use g grew_trans [OF g(2,5)] in \<open>simp add: add.assoc\<close>)
qed

lemma logged_same: "grew n (lg_file d) (lg_file d') \<Longrightarrow> lg_stats d' = lg_stats d \<Longrightarrow> logged d d'"
  unfolding logged_def by (rule exI [of _ n], rule exI [of _ 0]) simp

lemma logged_serve: "serve_one o1 v g d = (r, d') \<Longrightarrow> ctl_free (ee_stamp v) \<Longrightarrow> logged d d'"
  using serve_one_grew [of o1 v g d r d'] by (auto simp: logged_def)

lemma logged_self: "emit_self pid v level tx d = (ok, d') \<Longrightarrow> ctl_free (ee_stamp v) \<Longrightarrow> ctl_free tx \<Longrightarrow> logged d d'"
  using emit_self_grew [of pid v level tx d ok d'] logged_same by blast

lemma turn_logged:
  assumes "logd_turn_step pid o1 t (d, w) = (ok, d', w')" "turn_clean t"
  shows "logged d d'"
proof -
  define d1 where "d1 = (if tu_reopen t \<and> tu_reopened t then snd (emit_self pid (tu_reopen_env t) LOG_INFO ''log file reopened (SIGHUP)'' d) else d)"
  have c: "ctl_free (ee_stamp (tu_reopen_env t))" "ctl_free (ee_stamp (tu_env t))" "ctl_free (ee_stamp (tu_sum_env t))" using assms(2) by (simp_all add: turn_clean_def)
  have 1: "logged d d1"
  proof (cases "tu_reopen t \<and> tu_reopened t")
    case True
    obtain b e where x: "emit_self pid (tu_reopen_env t) LOG_INFO ''log file reopened (SIGHUP)'' d = (b, e)" by (metis prod.exhaust)
    from logged_self [OF x c(1)] x True show ?thesis by (simp add: d1_def)
  qed (auto simp: d1_def intro: logged_refl)
  obtain r d2 where s: "serve_one o1 (tu_env t) (tu_datagram t) d1 = (r, d2)" by (metis prod.exhaust)
  note 2 = logged_serve [OF s c(2)]
  have "logged d2 d'"
  proof (cases "r < 0")
    case True
    with assms(1) s show ?thesis by (auto simp: logd_turn_step_def d1_def [symmetric] intro: logged_refl)
  next
    case False
    with assms(1) s have "summarise pid o1 (tu_sum_env t) (tu_now t) (d2, w) = (ok, d', w')"
      by (simp add: logd_turn_step_def d1_def [symmetric])
    from summarise_grew [OF this c(3)] show ?thesis using logged_same by blast
  qed
  with 1 2 show ?thesis by (blast intro: logged_trans)
qed

lemma loop_logged: "logd_loop pid o1 ts (d, w) = (ok, d', w') \<Longrightarrow> list_all turn_clean ts \<Longrightarrow> logged d d'"
proof (induction ts arbitrary: d w)
  case (Cons t ts)
  obtain b d1 w1 where t: "logd_turn_step pid o1 t (d, w) = (b, d1, w1)" by (metis prod.exhaust)
  have "logged d d1" using turn_logged [OF t] Cons.prems by simp
  moreover have "logged d1 d'" using Cons t logged_refl by (cases b) auto
  ultimately show ?case by (rule logged_trans)
qed (simp add: logged_refl)

lemma drain_logged: "logd_drain n o1 gs d = (ok, d') \<Longrightarrow> list_all (\<lambda>(g, v). ctl_free (ee_stamp v)) gs \<Longrightarrow> logged d d'"
proof (induction n o1 gs d rule: logd_drain.induct)
  case (3 n o1 g v gs d)
  obtain r d1 where s: "serve_one o1 v g d = (r, d1)" by (metis prod.exhaust)
  have "logged d d1" using logged_serve [OF s] 3(3) by simp
  moreover have "logged d1 d'" using 3 s logged_refl by (cases "r = 1") auto
  ultimately show ?case by (rule logged_trans)
qed (simp_all add: logged_refl)


text \<open>A record that tries to pass for two lines.\<close>

definition demo_emit :: emit_env where
  "demo_emit = \<lparr>ee_now = 5, ee_stamp = ''2026-01-01 00:00:05'', ee_written = True, ee_copied = True\<rparr>"

definition demo_logd :: logd_env where
  "demo_logd = \<lparr>le_pid = 9, le_bound = True, le_file = Some [], le_table = False, le_start = (None, []), le_opened = 5, le_hello = demo_emit,
     le_turns = [\<lparr>tu_reopen = False, tu_reopened = False, tu_reopen_env = demo_emit,
       tu_datagram = Whole 4 LOG_ERROR 0 (''a'' @ [NL] @ ''[x] [INFO ] pid=1: forged'' @ [NUL]), tu_env = demo_emit, tu_now = 5, tu_sum_env = demo_emit\<rparr>],
     le_queued = [], le_bye = demo_emit, le_work = id\<rparr>"

definition demo_opts :: logd_opts where
  "demo_opts = \<lparr>lo_socket_path = ''s'', lo_log_path = ''l'', lo_min_level = LOG_INFO, lo_summary_secs = 0, lo_db_enable = 0,
     lo_db_dir = ''d'', lo_db_jar = [], lo_db_java = [], lo_queue_cap = 1\<rparr>"


text \<open>The statement of the mirror is never cut, so it always ends as it should.\<close>

lemma mirror_sql_whole:
  assumes "\<bar>i\<bar> < 10 ^ 19" "int32_ok (lm_pid m)" "\<bar>now\<bar> < 10 ^ 19"
  shows "mirror_sql i m now =
    ''insert into log values ('' @ int_str i @ '', '' @ int_str (lm_pid m) @ '', '' @ int_str now @ '', '' @
      db_quote 35 (remove_level_word_padding (lm_level m) 16) @ '', '' @ db_quote 261 (snprintf_s 129 (lm_msg m)) @ '');''"
proof -
  have n: "length (int_str k) \<le> 20" if "\<bar>k\<bar> < 10 ^ 19" for k
  proof -
    have "nat \<bar>k\<bar> < 10 ^ 19" using that by (simp add: nat_less_iff)
    then have "length (nat_str (nat \<bar>k\<bar>)) \<le> 19" by (rule nat_str_length) simp
    then show ?thesis by (auto simp: int_str_def)
  qed
  have q: "length (db_quote cap x) < cap" if "3 \<le> cap" for cap x
    using quote_loop_length [of 1 cap x] that by (simp add: db_quote_def)
  show ?thesis
    unfolding mirror_sql_def LOGD_DB_TABLE_def LOGD_DB_STRING_MAX_def
    using n [OF assms(1)] n [OF assms(3)] int_str_length [OF assms(2)] q [of 35 "remove_level_word_padding (lm_level m) 16"]
      q [of 261 "snprintf_s 129 (lm_msg m)"] by simp
qed

end
