(* ===== verification/Codec.thy ===== *)
theory Codec
  imports Htttp Brain_Types
begin

text \<open>
  The wire mapping of \<^verbatim>\<open>src/src/libballotclient/codec.c\<close> between the request and response
  structures of \<^verbatim>\<open>src/include/libballotclient/client.h\<close> and HTTTP messages. A body is text lines
  \<open>key=value\<close>; the writer is a fold of bounded appends that stops at the first failure, the
  reader a fold of a callback over the lines. The lemmas show that a well-formed request or
  response is decoded to what was encoded.
\<close>

section \<open>Requests and responses\<close>

datatype bcl_op =
    BCL_JOIN
  | BCL_CAST
  | BCL_UPDATE
  | BCL_RESULTS
  | BCL_CHECK
  | BCL_CREATE
  | BCL_OPEN
  | BCL_CLOSE
  | BCL_PUBLISH
  | BCL_ADMIN_RESULTS
  | BCL_ADMIN_CHECK
  | BCL_ADMIN_NEXT_ID

record bcl_request =
  br_op :: bcl_op
  br_cert_name :: string
  br_election_id :: string
  br_ballot :: bb_ballot
  br_hash :: string
  br_config :: bb_config

record bcl_response =
  bp_status :: bb_result
  bp_election :: bb_election
  bp_has_prior_ballot :: int
  bp_prior_ballot_version :: int
  bp_receipt :: bb_receipt
  bp_tally :: "int list"
  bp_option_count :: int
  bp_options :: "string list"
  bp_hashes :: "bb_ballot_hash list"
  bp_hash_count :: int
  bp_found :: int
  bp_found_option :: int
  bp_found_option_name :: string

definition ballot0 :: bb_ballot where
  "ballot0 = \<lparr>bal_cert_name = [], bal_nonce = [], bal_payload = []\<rparr>"

definition bcl_request0 :: bcl_request where
  "bcl_request0 = \<lparr>br_op = BCL_JOIN, br_cert_name = [], br_election_id = [], br_ballot = ballot0, br_hash = [],
     br_config = config0\<rparr>"

definition bcl_response0 :: bcl_response where
  "bcl_response0 = \<lparr>bp_status = BB_OK, bp_election = election0, bp_has_prior_ballot = 0, bp_prior_ballot_version = 0,
     bp_receipt = receipt0, bp_tally = replicate BB_MAX_OPTIONS 0, bp_option_count = 0,
     bp_options = replicate BB_MAX_OPTIONS [], bp_hashes = replicate BB_MAX_VOTERS hash0, bp_hash_count = 0,
     bp_found = 0, bp_found_option = 0, bp_found_option_name = []\<rparr>"

section \<open>Names\<close>

definition OP_NAMES :: "(bcl_op \<times> string) list" where
  "OP_NAMES =
     [(BCL_JOIN, ''JOIN''), (BCL_CAST, ''CAST''), (BCL_UPDATE, ''UPDATE''), (BCL_RESULTS, ''RESULTS''),
      (BCL_CHECK, ''CHECK''), (BCL_CREATE, ''CREATE''), (BCL_OPEN, ''OPEN''), (BCL_CLOSE, ''CLOSE''),
      (BCL_PUBLISH, ''PUBLISH''), (BCL_ADMIN_RESULTS, ''ADMIN_RESULTS''), (BCL_ADMIN_CHECK, ''ADMIN_CHECK''),
      (BCL_ADMIN_NEXT_ID, ''ADMIN_NEXT_ID'')]"

definition method_from_op :: "bcl_op \<Rightarrow> string option" where
  "method_from_op op = map_option snd (find (\<lambda>e. fst e = op) OP_NAMES)"

definition op_from_method :: "string \<Rightarrow> bcl_op option" where
  "op_from_method m = map_option fst (find (\<lambda>e. snd e = m) OP_NAMES)"

definition RESULT_NAMES :: "(bb_result \<times> string) list" where
  "RESULT_NAMES =
     [(BB_OK, ''BB_OK''),
      (BB_ERR_CONFIG_TITLE, ''BB_ERR_CONFIG_TITLE''),
      (BB_ERR_CONFIG_OPTIONS, ''BB_ERR_CONFIG_OPTIONS''),
      (BB_ERR_CONFIG_TIME, ''BB_ERR_CONFIG_TIME''),
      (BB_ERR_CONFIG_ID_TAKEN, ''BB_ERR_CONFIG_ID_TAKEN''),
      (BB_ERR_ILLEGAL_TRANSITION, ''BB_ERR_ILLEGAL_TRANSITION''),
      (BB_ERR_NOT_OPEN, ''BB_ERR_NOT_OPEN''),
      (BB_ERR_CLOSED, ''BB_ERR_CLOSED''),
      (BB_ERR_NOT_PUBLISHED, ''BB_ERR_NOT_PUBLISHED''),
      (BB_ERR_NOT_ELIGIBLE, ''BB_ERR_NOT_ELIGIBLE''),
      (BB_ERR_CERT_INVALID, ''BB_ERR_CERT_INVALID''),
      (BB_ERR_CERT_EXPIRED, ''BB_ERR_CERT_EXPIRED''),
      (BB_ERR_BAD_OPTION, ''BB_ERR_BAD_OPTION''),
      (BB_ERR_REPLAY, ''BB_ERR_REPLAY''),
      (BB_ERR_DECRYPT, ''BB_ERR_DECRYPT''),
      (BB_ERR_NOT_FOUND, ''BB_ERR_NOT_FOUND''),
      (BB_ERR_NOT_JOINED, ''BB_ERR_NOT_JOINED''),
      (BB_ERR_DB, ''BB_ERR_DB''),
      (BB_ERR_NOT_IMPLEMENTED, ''BB_ERR_NOT_IMPLEMENTED'')]"

definition name_from_result :: "bb_result \<Rightarrow> string option" where
  "name_from_result r = map_option snd (find (\<lambda>e. fst e = r) RESULT_NAMES)"

definition result_from_name :: "string \<Rightarrow> bb_result option" where
  "result_from_name s = map_option fst (find (\<lambda>e. snd e = s) RESULT_NAMES)"

definition state_from_name :: "string \<Rightarrow> bb_state option" where
  "state_from_name s =
     map_option fst (find (\<lambda>e. snd e = s)
       [(BB_STATE_DRAFT, ''DRAFT''), (BB_STATE_OPEN, ''OPEN''), (BB_STATE_CLOSED, ''CLOSED''),
        (BB_STATE_PUBLISHED, ''PUBLISHED'')])"

section \<open>Hexadecimal payloads\<close>

unbundle bit_operations_syntax

definition hex_char :: "8 word \<Rightarrow> char" where
  "hex_char w = ''0123456789abcdef'' ! unat w"

fun hex_digits :: "8 word list \<Rightarrow> string" where
  "hex_digits [] = []"
| "hex_digits (b # bs) = hex_char (drop_bit 4 b) # hex_char (b AND 0x0F) # hex_digits bs"

definition hex_encode :: "8 word list \<Rightarrow> nat \<Rightarrow> string option" where
  "hex_encode bs out_cap = (if out_cap < length bs * 2 + 1 then None else Some (hex_digits bs))"

definition hex_nibble :: "char \<Rightarrow> 8 word option" where
  "hex_nibble c =
     (let n = of_char c :: nat
      in if 48 \<le> n \<and> n \<le> 57 then Some (word_of_nat (n - 48))
         else if 97 \<le> n \<and> n \<le> 102 then Some (word_of_nat (n - 97 + 10))
         else if 65 \<le> n \<and> n \<le> 70 then Some (word_of_nat (n - 65 + 10))
         else None)"

text \<open>The bytes written before the loop ended, and whether it ran to the end.\<close>

fun hex_bytes :: "string \<Rightarrow> bool \<times> 8 word list" where
  "hex_bytes (a # b # r) =
     (case (hex_nibble a, hex_nibble b) of
        (Some hi, Some lo) \<Rightarrow> (case hex_bytes r of (ok, bs) \<Rightarrow> (ok, (push_bit 4 hi OR lo) # bs))
      | _ \<Rightarrow> (False, []))"
| "hex_bytes _ = (True, [])"

definition hex_decode :: "string \<Rightarrow> nat \<Rightarrow> bool \<times> 8 word list" where
  "hex_decode hex out_cap =
     (if length hex mod 2 \<noteq> 0 then (False, [])
      else if out_cap < length hex div 2 then (False, [])
      else hex_bytes hex)"

section \<open>Writing a body\<close>

definition CODEC_BODY_MAX :: nat where "CODEC_BODY_MAX = 8192"

definition one_line :: "string \<Rightarrow> bool" where
  "one_line s \<longleftrightarrow> CR \<notin> set s \<and> NL \<notin> set (butlast s)"

definition body_append :: "nat \<Rightarrow> string \<Rightarrow> string \<Rightarrow> string option" where
  "body_append cap body s =
     (if cap - length body \<le> length s then None
      else if \<not> one_line s then None
      else Some (body @ s))"

text \<open>A sequence of appends, abandoned at the first one that fails.\<close>

fun append_all :: "nat \<Rightarrow> string \<Rightarrow> string list \<Rightarrow> string option" where
  "append_all cap body [] = Some body"
| "append_all cap body (s # ss) =
     (case body_append cap body s of None \<Rightarrow> None | Some body' \<Rightarrow> append_all cap body' ss)"

definition kv :: "string \<Rightarrow> string \<Rightarrow> string" where
  "kv key val = key @ ''='' @ val @ [NL]"

section \<open>Reading a body\<close>

text \<open>One line, without a carriage return at its end, split at the first equals sign.\<close>

definition line_kv :: "string \<Rightarrow> (string \<times> string) option" where
  "line_kv line =
     (let le = (if line \<noteq> [] \<and> last line = CR then butlast line else line);
          k = takeWhile (\<lambda>c. c \<noteq> CHR ''='') le
      in if CHR ''='' \<in> set le \<and> k \<noteq> []
         then Some (cstr (take 63 k), cstr (take 319 (drop (length k + 1) le)))
         else None)"

function body_pairs :: "string \<Rightarrow> (string \<times> string) list" where
  "body_pairs body =
     (if body = [] then []
      else (case line_kv (takeWhile (\<lambda>c. c \<noteq> NL) body) of None \<Rightarrow> [] | Some p \<Rightarrow> [p]) @
           body_pairs (tl (dropWhile (\<lambda>c. c \<noteq> NL) body)))"
  by pat_completeness auto
termination
proof (relation "measure length")
  fix body :: string
  assume "body \<noteq> []"
  then show "(tl (dropWhile (\<lambda>c. c \<noteq> NL) body), body) \<in> measure length"
    using length_dropWhile_le [of "\<lambda>c. c \<noteq> NL" body] by (cases body) auto
qed simp

declare body_pairs.simps [simp del]

definition body_for_each :: "(string \<Rightarrow> string \<Rightarrow> 'c \<Rightarrow> 'c) \<Rightarrow> string \<Rightarrow> 'c \<Rightarrow> 'c" where
  "body_for_each f body c = fold (\<lambda>(k, v). f k v) (body_pairs body) c"

text \<open>\<^verbatim>\<open>sscanf(path, "/election/%15[^/]", out)\<close>; the result is \<open>None\<close> on failure.\<close>

definition path_election_id :: "string \<Rightarrow> string option" where
  "path_election_id path =
     (if take 10 path = ''/election/''
      then let out = take 15 (takeWhile (\<lambda>c. c \<noteq> CHR ''/'') (drop 10 path))
           in if out = [] then None else Some out
      else None)"

section \<open>Requests on the wire\<close>

record create_ctx =
  cc_cfg :: bb_config
  cc_id :: string
  cc_opt_i :: nat
  cc_elig_i :: nat

definition create_kv :: "string \<Rightarrow> string \<Rightarrow> create_ctx \<Rightarrow> create_ctx" where
  "create_kv k v c =
     (if k = ''election_id'' then c\<lparr>cc_id := snprintf_s BB_ID_LEN v\<rparr>
      else if k = ''title'' then c\<lparr>cc_cfg := (cc_cfg c)\<lparr>cfg_title := snprintf_s BB_TITLE_LEN v\<rparr>\<rparr>
      else if k = ''open_time'' then c\<lparr>cc_cfg := (cc_cfg c)\<lparr>cfg_open_time := snprintf_s BB_TIME_LEN v\<rparr>\<rparr>
      else if k = ''close_time'' then c\<lparr>cc_cfg := (cc_cfg c)\<lparr>cfg_close_time := snprintf_s BB_TIME_LEN v\<rparr>\<rparr>
      else if k = ''option'' then
        (if cc_opt_i c < BB_MAX_OPTIONS
         then c\<lparr>cc_cfg := (cc_cfg c)\<lparr>cfg_options := (cfg_options (cc_cfg c))[cc_opt_i c := snprintf_s BB_OPTION_LEN v]\<rparr>,
                cc_opt_i := cc_opt_i c + 1\<rparr>
         else c)
      else if k = ''eligible'' then
        (if cc_elig_i c < BB_MAX_VOTERS
         then c\<lparr>cc_cfg := (cc_cfg c)\<lparr>cfg_eligible := (cfg_eligible (cc_cfg c))[cc_elig_i c := snprintf_s BB_CERT_LEN v]\<rparr>,
                cc_elig_i := cc_elig_i c + 1\<rparr>
         else c)
      else c)"

text \<open>
  A payload line that does not decode leaves the length as it was, but the bytes written before
  the bad digit stay in the buffer.
\<close>

definition ballot_kv :: "string \<Rightarrow> string \<Rightarrow> bb_ballot \<times> bool \<Rightarrow> bb_ballot \<times> bool" where
  "ballot_kv k v c =
     (case c of (ballot, got_payload) \<Rightarrow>
        if k = ''nonce'' then (ballot\<lparr>bal_nonce := snprintf_s BB_NONCE_LEN v\<rparr>, got_payload)
        else if k = ''payload'' then
          (case hex_decode v BB_CIPHERTEXT_MAX of
             (True, bs) \<Rightarrow> (ballot\<lparr>bal_payload := bs\<rparr>, True)
           | (False, bs) \<Rightarrow>
               (ballot\<lparr>bal_payload := take (length (bal_payload ballot)) (bs @ drop (length bs) (bal_payload ballot))\<rparr>,
                got_payload))
        else (ballot, got_payload))"

definition hash_kv :: "string \<Rightarrow> string \<Rightarrow> string \<Rightarrow> string" where
  "hash_kv k v hash = (if k = ''hash'' then snprintf_s BB_HASH_LEN v else hash)"

text \<open>The path and the chunks of the body that \<^verbatim>\<open>bcl_encode_request\<close> writes for each operation.\<close>

definition request_path :: "bcl_request \<Rightarrow> string" where
  "request_path req =
     (case br_op req of
        BCL_CREATE \<Rightarrow> ''/election''
      | BCL_ADMIN_NEXT_ID \<Rightarrow> ''/election/next-id''
      | BCL_CAST \<Rightarrow> ''/election/'' @ br_election_id req @ ''/ballot''
      | BCL_UPDATE \<Rightarrow> ''/election/'' @ br_election_id req @ ''/ballot''
      | BCL_CHECK \<Rightarrow> ''/election/'' @ br_election_id req @ ''/check''
      | BCL_ADMIN_CHECK \<Rightarrow> ''/election/'' @ br_election_id req @ ''/check''
      | _ \<Rightarrow> ''/election/'' @ br_election_id req)"

definition create_chunks :: "bcl_request \<Rightarrow> string list" where
  "create_chunks req =
     (let cfg = br_config req
      in (if br_election_id req \<noteq> [] then [kv ''election_id'' (br_election_id req)] else []) @
         [kv ''title'' (cfg_title cfg), kv ''open_time'' (cfg_open_time cfg), kv ''close_time'' (cfg_close_time cfg)] @
         map (\<lambda>i. kv ''option'' (cfg_options cfg ! i)) [0..<nat (cfg_option_count cfg)] @
         map (\<lambda>i. kv ''eligible'' (cfg_eligible cfg ! i)) [0..<nat (cfg_eligible_count cfg)])"

definition ballot_body :: "bcl_request \<Rightarrow> string option" where
  "ballot_body req =
     (case append_all CODEC_BODY_MAX [] [kv ''nonce'' (bal_nonce (br_ballot req))] of
        None \<Rightarrow> None
      | Some body \<Rightarrow>
          (case hex_encode (bal_payload (br_ballot req)) (BB_CIPHERTEXT_MAX * 2 + 1) of
             None \<Rightarrow> None
           | Some hex \<Rightarrow> append_all CODEC_BODY_MAX body [kv ''payload'' hex]))"

definition request_body :: "bcl_request \<Rightarrow> string option" where
  "request_body req =
     (case br_op req of
        BCL_CREATE \<Rightarrow> append_all CODEC_BODY_MAX [] (create_chunks req)
      | BCL_CAST \<Rightarrow> ballot_body req
      | BCL_UPDATE \<Rightarrow> ballot_body req
      | BCL_CHECK \<Rightarrow> append_all CODEC_BODY_MAX [] [kv ''hash'' (br_hash req)]
      | BCL_ADMIN_CHECK \<Rightarrow> append_all CODEC_BODY_MAX [] [kv ''hash'' (br_hash req)]
      | _ \<Rightarrow> Some [])"

definition bcl_encode_request :: "bcl_request \<Rightarrow> nat \<Rightarrow> string option" where
  "bcl_encode_request req out_cap =
     (case method_from_op (br_op req) of
        None \<Rightarrow> None
      | Some m \<Rightarrow>
          (case request_body req of
             None \<Rightarrow> None
           | Some body \<Rightarrow>
               (case (if br_cert_name req \<noteq> [] then htttp_header_set [] ''Cert-Name'' (br_cert_name req) else Inr []) of
                  Inl _ \<Rightarrow> None
                | Inr hs \<Rightarrow>
                    (case htttp_serialize_request
                            \<lparr>rq_method = snprintf_s HTTTP_MAX_METHOD m,
                             rq_path = snprintf_s HTTTP_MAX_PATH (request_path req),
                             rq_headers = hs, rq_body = body\<rparr> out_cap of
                       Inl _ \<Rightarrow> None
                     | Inr out \<Rightarrow> Some out))))"

definition decode_create :: "string \<Rightarrow> bcl_request \<Rightarrow> bcl_request" where
  "decode_create body req =
     (let c = body_for_each create_kv body
                \<lparr>cc_cfg = br_config req, cc_id = br_election_id req, cc_opt_i = 0, cc_elig_i = 0\<rparr>
      in req\<lparr>br_election_id := cc_id c,
             br_config := (cc_cfg c)\<lparr>cfg_option_count := int (cc_opt_i c), cfg_eligible_count := int (cc_elig_i c)\<rparr>\<rparr>)"

definition decode_ballot :: "string \<Rightarrow> bcl_request \<Rightarrow> bool \<times> bcl_request" where
  "decode_ballot body req =
     (let req = req\<lparr>br_ballot := (br_ballot req)\<lparr>bal_cert_name := snprintf_s BB_CERT_LEN (br_cert_name req)\<rparr>\<rparr>;
          (ballot, got) = body_for_each ballot_kv body (br_ballot req, False)
      in (got, req\<lparr>br_ballot := ballot\<rparr>))"

definition decode_check :: "string \<Rightarrow> bcl_request \<Rightarrow> bool \<times> bcl_request" where
  "decode_check body req =
     (let hash = body_for_each hash_kv body (br_hash req) in (hash \<noteq> [], req\<lparr>br_hash := hash\<rparr>))"

definition bcl_decode_request :: "htttp_request \<Rightarrow> bool \<times> bcl_request" where
  "bcl_decode_request http =
     (case op_from_method (rq_method http) of
        None \<Rightarrow> (False, bcl_request0)
      | Some op \<Rightarrow>
          let req = bcl_request0\<lparr>br_op := op\<rparr>;
              req = (case htttp_header_get (rq_headers http) ''Cert-Name'' of
                       None \<Rightarrow> req | Some cert \<Rightarrow> req\<lparr>br_cert_name := snprintf_s BB_CERT_LEN cert\<rparr>)
          in if op = BCL_CREATE then (True, decode_create (rq_body http) req)
             else if op = BCL_ADMIN_NEXT_ID then (True, req)
             else case path_election_id (rq_path http) of
                    None \<Rightarrow> (False, req)
                  | Some ident \<Rightarrow>
                      let req = req\<lparr>br_election_id := ident\<rparr>
                      in if op = BCL_CAST \<or> op = BCL_UPDATE then decode_ballot (rq_body http) req
                         else if op = BCL_CHECK \<or> op = BCL_ADMIN_CHECK then decode_check (rq_body http) req
                         else (True, req))"

section \<open>Responses on the wire\<close>

fun bcl_http_status :: "bb_result \<Rightarrow> int" where
  "bcl_http_status BB_OK = 200"
| "bcl_http_status BB_ERR_CONFIG_TITLE = 400"
| "bcl_http_status BB_ERR_CONFIG_OPTIONS = 400"
| "bcl_http_status BB_ERR_CONFIG_TIME = 400"
| "bcl_http_status BB_ERR_BAD_OPTION = 400"
| "bcl_http_status BB_ERR_DECRYPT = 400"
| "bcl_http_status BB_ERR_NOT_ELIGIBLE = 403"
| "bcl_http_status BB_ERR_CERT_INVALID = 403"
| "bcl_http_status BB_ERR_CERT_EXPIRED = 403"
| "bcl_http_status BB_ERR_NOT_FOUND = 404"
| "bcl_http_status BB_ERR_ILLEGAL_TRANSITION = 409"
| "bcl_http_status BB_ERR_NOT_OPEN = 409"
| "bcl_http_status BB_ERR_CLOSED = 409"
| "bcl_http_status BB_ERR_NOT_PUBLISHED = 409"
| "bcl_http_status BB_ERR_REPLAY = 409"
| "bcl_http_status BB_ERR_NOT_JOINED = 409"
| "bcl_http_status BB_ERR_CONFIG_ID_TAKEN = 409"
| "bcl_http_status _ = 500"

definition join_chunks :: "bcl_response \<Rightarrow> string list" where
  "join_chunks resp =
     (let e = bp_election resp
      in if el_id e = [] then []
         else [kv ''election_id'' (el_id e), kv ''title'' (el_title e), kv ''state'' (bb_state_str (el_state e)),
               kv ''open_time'' (el_open_time e), kv ''close_time'' (el_close_time e),
               kv ''has_prior_ballot'' (int_str (bp_has_prior_ballot resp)),
               kv ''prior_ballot_version'' (int_str (bp_prior_ballot_version resp))] @
              map (\<lambda>i. kv ''option'' (el_options e ! i)) [0..<nat (el_option_count e)])"

definition row_text :: "bb_ballot_hash \<Rightarrow> string" where
  "row_text h = bh_hash h @ '','' @ int_str (bh_option_index h) @ '','' @ int_str (bh_version h) @ '','' @
     int_str (bh_superseded h)"

definition results_chunks :: "bcl_response \<Rightarrow> string list" where
  "results_chunks resp =
     [kv ''election_id'' (el_id (bp_election resp)), kv ''title'' (el_title (bp_election resp)),
      kv ''tally_count'' (int_str (bp_option_count resp))] @
     (if 0 < bp_option_count resp
      then [''tally=''] @
           map (\<lambda>i. (if i \<noteq> 0 then '','' else []) @ int_str (bp_tally resp ! i)) [0..<nat (bp_option_count resp)] @
           [[NL]] @
           map (\<lambda>i. kv ''result_option'' (bp_options resp ! i)) [0..<nat (bp_option_count resp)]
      else []) @
     [kv ''hash_count'' (int_str (bp_hash_count resp))] @
     map (\<lambda>i. kv ''row'' (row_text (bp_hashes resp ! i))) [0..<nat (bp_hash_count resp)]"

definition check_chunks :: "bcl_response \<Rightarrow> string list" where
  "check_chunks resp =
     kv ''found'' (int_str (bp_found resp)) #
     (if bp_found resp \<noteq> 0
      then [kv ''found_option'' (int_str (bp_found_option resp)), kv ''found_option_name'' (bp_found_option_name resp)]
      else [])"

definition response_chunks :: "bcl_op \<Rightarrow> bcl_response \<Rightarrow> string list" where
  "response_chunks op resp =
     (if op = BCL_CREATE \<or> op = BCL_ADMIN_NEXT_ID then
        (if el_id (bp_election resp) \<noteq> [] then [kv ''election_id'' (el_id (bp_election resp))] else [])
      else if op = BCL_OPEN \<or> op = BCL_CLOSE \<or> op = BCL_PUBLISH then []
      else if op = BCL_JOIN then join_chunks resp
      else if op = BCL_CAST \<or> op = BCL_UPDATE then
        (if rc_hash (bp_receipt resp) \<noteq> []
         then [kv ''hash'' (rc_hash (bp_receipt resp)), kv ''issued_at'' (rc_issued_at (bp_receipt resp))] else [])
      else if op = BCL_RESULTS \<or> op = BCL_ADMIN_RESULTS then results_chunks resp
      else check_chunks resp)"

definition bcl_encode_response :: "tm \<Rightarrow> bcl_op \<Rightarrow> bcl_response \<Rightarrow> nat \<Rightarrow> string option" where
  "bcl_encode_response now op resp out_cap =
     (case name_from_result (bp_status resp) of
        None \<Rightarrow> None
      | Some sname \<Rightarrow>
          (case append_all CODEC_BODY_MAX [] (kv ''status'' sname # response_chunks op resp) of
             None \<Rightarrow> None
           | Some body \<Rightarrow>
               (case htttp_serialize_response now
                       \<lparr>rp_status = bcl_http_status (bp_status resp), rp_headers = [], rp_body = body\<rparr> out_cap of
                  Inl _ \<Rightarrow> None
                | Inr out \<Rightarrow> Some out)))"

record resp_ctx =
  rx_resp :: bcl_response
  rx_row_i :: nat
  rx_result_opt_i :: nat
  rx_status_valid :: bool

text \<open>\<^verbatim>\<open>sscanf\<close>'s \<open>%d\<close>, and the row format \<open>%64[^,],%d,%d,%d\<close>.\<close>

definition scan_int :: "string \<Rightarrow> (int \<times> string) option" where
  "scan_int s = (case strtol s of (v, rest) \<Rightarrow> if rest = s then None else Some (wrap32 v, rest))"

fun scan_comma :: "string \<Rightarrow> string option" where
  "scan_comma (c # r) = (if c = CHR '','' then Some r else None)"
| "scan_comma [] = None"

definition scan_row :: "string \<Rightarrow> bb_ballot_hash option" where
  "scan_row v =
     (let hash = take 64 (takeWhile (\<lambda>c. c \<noteq> CHR '','') v)
      in if hash = [] then None
         else Option.bind (scan_comma (drop (length hash) v)) (\<lambda>r.
              Option.bind (scan_int r) (\<lambda>(opt, r).
              Option.bind (scan_comma r) (\<lambda>r.
              Option.bind (scan_int r) (\<lambda>(ver, r).
              Option.bind (scan_comma r) (\<lambda>r.
              Option.bind (scan_int r) (\<lambda>(sup, r).
                Some \<lparr>bh_hash = hash, bh_option_index = opt, bh_version = ver, bh_superseded = sup\<rparr>)))))))"

text \<open>The loop over the comma-separated tally, with the index it writes next.\<close>

function tally_loop :: "nat \<Rightarrow> string \<Rightarrow> int list \<Rightarrow> int list" where
  "tally_loop i p tally =
     (if p = [] \<or> BB_MAX_OPTIONS \<le> i then tally
      else if CHR '','' \<in> set p
      then tally_loop (i + 1) (tl (dropWhile (\<lambda>c. c \<noteq> CHR '','') p)) (tally[i := atoi p])
      else tally[i := atoi p])"
  by pat_completeness auto
termination
  by (relation "measure (\<lambda>(i, p, tally). BB_MAX_OPTIONS - i)") auto

declare tally_loop.simps [simp del]

definition on_election :: "(bb_election \<Rightarrow> bb_election) \<Rightarrow> resp_ctx \<Rightarrow> resp_ctx" where
  "on_election f c = c\<lparr>rx_resp := (rx_resp c)\<lparr>bp_election := f (bp_election (rx_resp c))\<rparr>\<rparr>"

definition on_receipt :: "(bb_receipt \<Rightarrow> bb_receipt) \<Rightarrow> resp_ctx \<Rightarrow> resp_ctx" where
  "on_receipt f c = c\<lparr>rx_resp := (rx_resp c)\<lparr>bp_receipt := f (bp_receipt (rx_resp c))\<rparr>\<rparr>"

definition response_kv :: "string \<Rightarrow> string \<Rightarrow> resp_ctx \<Rightarrow> resp_ctx" where
  "response_kv k v c =
     (let r = rx_resp c
      in if k = ''status'' then
           (case result_from_name v of
              None \<Rightarrow> c | Some st \<Rightarrow> c\<lparr>rx_resp := r\<lparr>bp_status := st\<rparr>, rx_status_valid := True\<rparr>)
         else if k = ''election_id'' then on_election (\<lambda>e. e\<lparr>el_id := snprintf_s BB_ID_LEN v\<rparr>) c
         else if k = ''title'' then on_election (\<lambda>e. e\<lparr>el_title := snprintf_s BB_TITLE_LEN v\<rparr>) c
         else if k = ''state'' then
           (case state_from_name v of None \<Rightarrow> c | Some st \<Rightarrow> on_election (\<lambda>e. e\<lparr>el_state := st\<rparr>) c)
         else if k = ''open_time'' then on_election (\<lambda>e. e\<lparr>el_open_time := snprintf_s BB_TIME_LEN v\<rparr>) c
         else if k = ''close_time'' then on_election (\<lambda>e. e\<lparr>el_close_time := snprintf_s BB_TIME_LEN v\<rparr>) c
         else if k = ''has_prior_ballot'' then c\<lparr>rx_resp := r\<lparr>bp_has_prior_ballot := atoi v\<rparr>\<rparr>
         else if k = ''prior_ballot_version'' then c\<lparr>rx_resp := r\<lparr>bp_prior_ballot_version := atoi v\<rparr>\<rparr>
         else if k = ''option'' then
           (if el_option_count (bp_election r) < int BB_MAX_OPTIONS
            then on_election (\<lambda>e. e\<lparr>el_options := (el_options e)[nat (el_option_count e) := snprintf_s BB_OPTION_LEN v],
                                    el_option_count := el_option_count e + 1\<rparr>) c
            else c)
         else if k = ''hash'' then on_receipt (\<lambda>x. x\<lparr>rc_hash := snprintf_s BB_HASH_LEN v\<rparr>) c
         else if k = ''issued_at'' then on_receipt (\<lambda>x. x\<lparr>rc_issued_at := snprintf_s BB_TIME_LEN v\<rparr>) c
         else if k = ''tally_count'' then c\<lparr>rx_resp := r\<lparr>bp_option_count := atoi v\<rparr>\<rparr>
         else if k = ''result_option'' then
           (if rx_result_opt_i c < BB_MAX_OPTIONS
            then c\<lparr>rx_resp := r\<lparr>bp_options := (bp_options r)[rx_result_opt_i c := snprintf_s BB_OPTION_LEN v]\<rparr>,
                   rx_result_opt_i := rx_result_opt_i c + 1\<rparr>
            else c)
         else if k = ''tally'' then c\<lparr>rx_resp := r\<lparr>bp_tally := tally_loop 0 v (bp_tally r)\<rparr>\<rparr>
         else if k = ''hash_count'' then c\<lparr>rx_resp := r\<lparr>bp_hash_count := atoi v\<rparr>\<rparr>
         else if k = ''row'' then
           (if rx_row_i c < BB_MAX_VOTERS
            then (case scan_row v of
                    None \<Rightarrow> c
                  | Some row \<Rightarrow> c\<lparr>rx_resp := r\<lparr>bp_hashes := (bp_hashes r)[rx_row_i c := row]\<rparr>,
                                 rx_row_i := rx_row_i c + 1\<rparr>)
            else c)
         else if k = ''found'' then c\<lparr>rx_resp := r\<lparr>bp_found := atoi v\<rparr>\<rparr>
         else if k = ''found_option'' then c\<lparr>rx_resp := r\<lparr>bp_found_option := atoi v\<rparr>\<rparr>
         else if k = ''found_option_name'' then c\<lparr>rx_resp := r\<lparr>bp_found_option_name := snprintf_s BB_OPTION_LEN v\<rparr>\<rparr>
         else c)"

definition bcl_decode_response :: "htttp_response \<Rightarrow> bool \<times> bcl_response" where
  "bcl_decode_response http =
     (let c = body_for_each response_kv (rp_body http)
                \<lparr>rx_resp = bcl_response0, rx_row_i = 0, rx_result_opt_i = 0, rx_status_valid = False\<rparr>;
          r = rx_resp c;
          r = (if bp_hash_count r < 0 \<or> int (rx_row_i c) < bp_hash_count r then r\<lparr>bp_hash_count := int (rx_row_i c)\<rparr> else r);
          r = (if bp_option_count r < 0 \<or> int BB_MAX_OPTIONS < bp_option_count r
               then r\<lparr>bp_option_count := int (rx_result_opt_i c)\<rparr> else r)
      in (rx_status_valid c, r))"

section \<open>Bodies\<close>

definition text_ok :: "nat \<Rightarrow> string \<Rightarrow> bool" where
  "text_ok n s \<longleftrightarrow> length s \<le> n \<and> NUL \<notin> set s \<and> CR \<notin> set s \<and> NL \<notin> set s"

definition key_ok :: "string \<Rightarrow> bool" where
  "key_ok k \<longleftrightarrow> k \<noteq> [] \<and> CHR ''='' \<notin> set k \<and> text_ok 63 k"

abbreviation lines_of :: "(string \<times> string) list \<Rightarrow> string" where
  "lines_of ps \<equiv> concat (map (\<lambda>(k, v). kv k v) ps)"

abbreviation pair_ok :: "string \<times> string \<Rightarrow> bool" where
  "pair_ok p \<equiv> key_ok (fst p) \<and> text_ok 319 (snd p)"

lemma text_ok_mono: "text_ok n s \<Longrightarrow> n \<le> m \<Longrightarrow> text_ok m s"
  by (simp add: text_ok_def)

lemma text_ok_Nil [simp]: "text_ok n []"
  by (simp add: text_ok_def)

lemma text_ok_319 [intro]:
  "text_ok 15 s \<Longrightarrow> text_ok 319 s" "text_ok 31 s \<Longrightarrow> text_ok 319 s" "text_ok 32 s \<Longrightarrow> text_ok 319 s"
  "text_ok 63 s \<Longrightarrow> text_ok 319 s" "text_ok 64 s \<Longrightarrow> text_ok 319 s"
  by (simp_all add: text_ok_def)

lemma text_ok_int_str [simp]: "int32_ok i \<Longrightarrow> text_ok 319 (int_str i)"
  using int_str_length [of i] by (simp add: text_ok_def)

lemma body_pairs_Nil [simp]: "body_pairs [] = []"
  by (simp add: body_pairs.simps)

lemma body_pairs_cut:
  assumes "key_ok k" "text_ok n v"
  shows "body_pairs (kv k v @ rest) = (k, take 319 v) # body_pairs rest"
proof -
  have nl: "NL \<notin> set (k @ CHR ''='' # v)" using assms by (auto simp: key_ok_def text_ok_def)
  have e: "kv k v @ rest = (k @ CHR ''='' # v) @ NL # rest" by (simp add: kv_def)
  have cr: "last (k @ CHR ''='' # v) \<noteq> CR"
    using assms(2) last_in_set [of "CHR ''='' # v"] by (force simp: text_ok_def)
  have "NUL \<notin> set (take 319 v)" using assms by (auto simp: text_ok_def dest: in_set_takeD)
  then have l: "line_kv (k @ CHR ''='' # v) = Some (k, take 319 v)"
    using assms cr by (simp add: line_kv_def key_ok_def text_ok_def)
  show ?thesis
    unfolding e by (subst body_pairs.simps) (simp add: takeWhile_sep(1) [OF nl, simplified] dropWhile_sep(1) [OF nl, simplified] l)
qed

lemma body_pairs_kv: "key_ok k \<Longrightarrow> text_ok 319 v \<Longrightarrow> body_pairs (kv k v @ rest) = (k, v) # body_pairs rest"
  by (simp add: body_pairs_cut) (simp add: text_ok_def)

lemma body_pairs_lines: "list_all pair_ok ps \<Longrightarrow> body_pairs (lines_of ps) = ps"
  by (induction ps) (auto simp: body_pairs_kv)

lemma one_line_kv: "key_ok k \<Longrightarrow> text_ok n v \<Longrightarrow> one_line (kv k v)"
  by (auto simp: one_line_def kv_def key_ok_def text_ok_def butlast_append)

lemma append_all_Some:
  "append_all cap body ss = Some out \<longleftrightarrow>
     out = body @ concat ss \<and> list_all one_line ss \<and> (ss \<noteq> [] \<longrightarrow> length out < cap)"
proof (induction ss arbitrary: body)
  case (Cons s ss)
  show ?case
  proof (cases "length body + length s < cap \<and> one_line s")
    case True
    then have "body_append cap body s = Some (body @ s)" by (auto simp: body_append_def)
    with True show ?thesis by (cases "ss = []") (auto simp: Cons.IH)
  next
    case False
    then have "body_append cap body s = None" by (auto simp: body_append_def)
    with False show ?thesis by auto
  qed
qed auto

lemma append_all_lines:
  assumes "list_all pair_ok ps" "length (lines_of ps) < cap"
  shows "append_all cap [] (map (\<lambda>(k, v). kv k v) ps) = Some (lines_of ps)"
  using assms by (auto simp: append_all_Some list_all_iff one_line_kv)

lemma kv_length [simp]: "length (kv k v) = length k + length v + 2"
  by (simp add: kv_def)

lemma length_concat_le:
  "(\<And>x. x \<in> set xs \<Longrightarrow> length (f x) \<le> n) \<Longrightarrow> length (concat (map f xs)) \<le> n * length xs"
  by (induction xs) (auto intro: add_mono)

lemma map_nth_take: "n \<le> length xs \<Longrightarrow> map (\<lambda>i. f (xs ! i)) [0..<n] = map f (take n xs)"
  by (rule nth_equalityI) auto

text \<open>Writing the items of a list into consecutive cells, as the callbacks do line by line.\<close>

definition put_all :: "nat \<Rightarrow> 'a list \<Rightarrow> 'a list \<Rightarrow> 'a list" where
  "put_all j xs os = take j os @ xs @ drop (j + length xs) os"

lemma put_all_Nil [simp]: "put_all j [] os = os"
  by (simp add: put_all_def)

lemma put_all_Cons:
  assumes "j < length os"
  shows "put_all (Suc j) xs (os[j := x]) = put_all j (x # xs) os"
  using assms by (simp add: put_all_def take_Suc_conv_app_nth)

definition pad :: "nat \<Rightarrow> 'a \<Rightarrow> nat \<Rightarrow> 'a list \<Rightarrow> 'a list" where
  "pad k d n xs = take n xs @ replicate (k - n) d"

lemma pad_0 [simp]: "pad k d 0 xs = replicate k d"
  by (simp add: pad_def)

lemma put_all_pad: "n \<le> length xs \<Longrightarrow> put_all 0 (take n xs) (replicate k d) = pad k d n xs"
  by (simp add: put_all_def pad_def)

section \<open>Hexadecimal round trip\<close>

lemma nibble_digit: "n < 16 \<Longrightarrow> hex_nibble (''0123456789abcdef'' ! n) = Some (word_of_nat n)"
proof -
  have "list_all (\<lambda>n. hex_nibble (''0123456789abcdef'' ! n) = Some (word_of_nat n)) [0,1,2,3,4,5,6,7,8,9,10,11,12,13,14,15]"
    by (simp add: hex_nibble_def)
  moreover assume "n < 16"
  then have "n \<in> set [0,1,2,3,4,5,6,7,8,9,10,11,12,13,14,15]" by simp presburger
  ultimately show ?thesis unfolding list_all_iff by blast
qed

lemma nibble_char: "unat w < 16 \<Longrightarrow> hex_nibble (hex_char w) = Some w"
  using nibble_digit [of "unat w"] by (simp add: hex_char_def)

lemma nibbles: "unat (drop_bit 4 b) < 16" "unat (b AND 0x0F) < 16" for b :: "8 word"
proof -
  have b: "unat b < 256" using unsigned_less [of b] by simp
  then have "unat b div 2 ^ 4 < 16" by (simp add: less_mult_imp_div_less)
  moreover have "unat (drop_bit 4 b) = unat b div 2 ^ 4"
    using b by (simp only: unsigned_drop_bit_eq) (simp add: drop_bit_eq_div take_bit_eq_mod)
  ultimately show "unat (drop_bit 4 b) < 16" by simp
  have "b AND 0x0F = take_bit 4 b" by (simp add: take_bit_eq_mask mask_eq_exp_minus_1)
  then have "unat (b AND 0x0F) = take_bit 4 (unat b)" by (simp only: unsigned_take_bit_eq)
  then show "unat (b AND 0x0F) < 16" by (simp add: take_bit_eq_mod)
qed

lemma nibbles_join: "push_bit 4 (drop_bit 4 b) OR (b AND 0x0F) = b" for b :: "8 word"
proof -
  have "b AND 0x0F = take_bit 4 b" by (simp add: take_bit_eq_mask mask_eq_exp_minus_1)
  then show ?thesis by (simp only:) (rule bit_word_eqI, auto simp: bit_simps)
qed

lemma hex_bytes_digits [simp]: "hex_bytes (hex_digits bs) = (True, bs)"
  by (induction bs) (simp_all add: nibble_char nibbles nibbles_join)

lemma hex_digits_length [simp]: "length (hex_digits bs) = 2 * length bs"
  by (induction bs) auto

lemma hex_char_clean: "unat w < 16 \<Longrightarrow> hex_char w \<noteq> NUL \<and> hex_char w \<noteq> CR \<and> hex_char w \<noteq> NL"
proof -
  have "list_all (\<lambda>c. c \<noteq> NUL \<and> c \<noteq> CR \<and> c \<noteq> NL) ''0123456789abcdef''" by simp
  from list_all_nth [OF this, of "unat w"] show "unat w < 16 \<Longrightarrow> ?thesis" by (simp add: hex_char_def)
qed

lemma hex_digits_ok: "text_ok (2 * length bs) (hex_digits bs)"
proof (induction bs)
  case (Cons b bs)
  with hex_char_clean [OF nibbles(1) [of b]] hex_char_clean [OF nibbles(2) [of b]]
  show ?case unfolding text_ok_def hex_digits.simps list.set insert_iff by (metis length_Cons mult_Suc_right add_2_eq_Suc Suc_le_mono hex_digits.simps hex_digits_length le_refl)
qed (simp add: text_ok_def)

section \<open>Names\<close>

lemma op_method_name:
  "\<exists>m. method_from_op op = Some m \<and> op_from_method m = Some op \<and> m \<noteq> [] \<and> length m < 16 \<and> valid_field False m"
  by (cases op) (simp_all add: method_from_op_def op_from_method_def OP_NAMES_def valid_field_def)

lemma result_name:
  "r \<noteq> BB_ERR_RETRY \<Longrightarrow> \<exists>m. name_from_result r = Some m \<and> result_from_name m = Some r \<and> text_ok 25 m"
  by (cases r) (simp_all add: name_from_result_def result_from_name_def RESULT_NAMES_def text_ok_def)

lemma retry_has_no_name: "name_from_result BB_ERR_RETRY = None"
  by (simp add: name_from_result_def RESULT_NAMES_def)

lemma state_name: "state_from_name (bb_state_str st) = Some st \<and> text_ok 9 (bb_state_str st)"
  by (cases st) (simp_all add: state_from_name_def text_ok_def)

section \<open>Requests\<close>

definition codec_config_ok :: "bb_config \<Rightarrow> bool" where
  "codec_config_ok cfg \<longleftrightarrow>
     text_ok 63 (cfg_title cfg) \<and> text_ok 31 (cfg_open_time cfg) \<and> text_ok 31 (cfg_close_time cfg) \<and>
     length (cfg_options cfg) = 16 \<and> list_all (text_ok 31) (cfg_options cfg) \<and>
     0 \<le> cfg_option_count cfg \<and> cfg_option_count cfg \<le> 16 \<and>
     length (cfg_eligible cfg) = 64 \<and> list_all (text_ok 31) (cfg_eligible cfg) \<and>
     0 \<le> cfg_eligible_count cfg \<and> cfg_eligible_count cfg \<le> 64"

definition request_ok :: "bcl_request \<Rightarrow> bool" where
  "request_ok req \<longleftrightarrow>
     length (br_cert_name req) \<le> 31 \<and> valid_field True (br_cert_name req) \<and>
     length (br_election_id req) \<le> 15 \<and> valid_field False (br_election_id req) \<and>
     (br_op req \<noteq> BCL_CREATE \<longrightarrow> br_op req \<noteq> BCL_ADMIN_NEXT_ID \<longrightarrow>
        br_election_id req \<noteq> [] \<and> CHR ''/'' \<notin> set (br_election_id req)) \<and>
     text_ok 32 (bal_nonce (br_ballot req)) \<and> length (bal_payload (br_ballot req)) < 160 \<and>
     text_ok 64 (br_hash req) \<and> (br_op req = BCL_CHECK \<or> br_op req = BCL_ADMIN_CHECK \<longrightarrow> br_hash req \<noteq> []) \<and>
     codec_config_ok (br_config req)"

text \<open>What of a request crosses the wire, by operation.\<close>

definition sent_config :: "bb_config \<Rightarrow> bb_config" where
  "sent_config cfg = cfg\<lparr>cfg_options := pad 16 [] (nat (cfg_option_count cfg)) (cfg_options cfg),
     cfg_eligible := pad 64 [] (nat (cfg_eligible_count cfg)) (cfg_eligible cfg)\<rparr>"

definition sent_request :: "bcl_request \<Rightarrow> bcl_request" where
  "sent_request req =
     (let base = bcl_request0\<lparr>br_op := br_op req, br_cert_name := br_cert_name req\<rparr>;
          to = base\<lparr>br_election_id := br_election_id req\<rparr>
      in case br_op req of
           BCL_CREATE \<Rightarrow> to\<lparr>br_config := sent_config (br_config req)\<rparr>
         | BCL_ADMIN_NEXT_ID \<Rightarrow> base
         | BCL_CAST \<Rightarrow> to\<lparr>br_ballot := (br_ballot req)\<lparr>bal_cert_name := br_cert_name req\<rparr>\<rparr>
         | BCL_UPDATE \<Rightarrow> to\<lparr>br_ballot := (br_ballot req)\<lparr>bal_cert_name := br_cert_name req\<rparr>\<rparr>
         | BCL_CHECK \<Rightarrow> to\<lparr>br_hash := br_hash req\<rparr>
         | BCL_ADMIN_CHECK \<Rightarrow> to\<lparr>br_hash := br_hash req\<rparr>
         | _ \<Rightarrow> to)"

definition request_pairs :: "bcl_request \<Rightarrow> (string \<times> string) list" where
  "request_pairs req =
     (let cfg = br_config req;
          ballot = [(''nonce'', bal_nonce (br_ballot req)), (''payload'', hex_digits (bal_payload (br_ballot req)))]
      in case br_op req of
           BCL_CREATE \<Rightarrow>
             (if br_election_id req \<noteq> [] then [(''election_id'', br_election_id req)] else []) @
             [(''title'', cfg_title cfg), (''open_time'', cfg_open_time cfg), (''close_time'', cfg_close_time cfg)] @
             map (Pair ''option'') (take (nat (cfg_option_count cfg)) (cfg_options cfg)) @
             map (Pair ''eligible'') (take (nat (cfg_eligible_count cfg)) (cfg_eligible cfg))
         | BCL_CAST \<Rightarrow> ballot
         | BCL_UPDATE \<Rightarrow> ballot
         | BCL_CHECK \<Rightarrow> [(''hash'', br_hash req)]
         | BCL_ADMIN_CHECK \<Rightarrow> [(''hash'', br_hash req)]
         | _ \<Rightarrow> [])"

lemma valid_field_text: "valid_field sp s \<Longrightarrow> length s \<le> n \<Longrightarrow> text_ok n s"
  by (auto simp: valid_field_def text_ok_def list_all_iff)

lemma key_ok_simps [simp]:
  "key_ok ''election_id''" "key_ok ''title''" "key_ok ''open_time''" "key_ok ''close_time''" "key_ok ''option''"
  "key_ok ''eligible''" "key_ok ''nonce''" "key_ok ''payload''" "key_ok ''hash''" "key_ok ''status''" "key_ok ''state''"
  "key_ok ''has_prior_ballot''" "key_ok ''prior_ballot_version''" "key_ok ''issued_at''" "key_ok ''tally_count''"
  "key_ok ''tally''" "key_ok ''result_option''" "key_ok ''hash_count''" "key_ok ''row''" "key_ok ''found''"
  "key_ok ''found_option''" "key_ok ''found_option_name''"
  by (simp_all add: key_ok_def text_ok_def)

lemma pairs_ok_list: "key_ok k \<Longrightarrow> list_all (text_ok 31) xs \<Longrightarrow> list_all pair_ok (map (Pair k) (take n xs))"
  by (auto simp: list_all_iff text_ok_def dest!: in_set_takeD)

lemma lines_list: "lines_of (map (Pair k) xs) = concat (map (kv k) xs)"
  by (simp add: comp_def)

lemma chunk_list:
  "n \<le> length xs \<Longrightarrow> map (\<lambda>i. kv k (xs ! i)) [0..<n] = map (\<lambda>(k, v). kv k v) (map (Pair k) (take n xs))"
  by (simp add: map_nth_take [of _ _ "kv k"] comp_def)

lemma lines_list_length:
  assumes "list_all (text_ok 31) xs" "length k \<le> 13"
  shows "length (concat (map (kv k) (take n xs))) \<le> 46 * n"
proof -
  have "length (concat (map (kv k) (take n xs))) \<le> 46 * length (take n xs)"
    using assms by (intro length_concat_le) (auto simp: list_all_iff text_ok_def dest!: in_set_takeD)
  then show ?thesis by (auto intro: le_trans)
qed

lemma request_pairs_ok:
  assumes "request_ok req"
  shows "list_all pair_ok (request_pairs req)"
proof -
  from assms have "text_ok 319 (hex_digits (bal_payload (br_ballot req)))"
    by (intro text_ok_mono [OF hex_digits_ok]) (simp add: request_ok_def)
  with assms valid_field_text [of False "br_election_id req" 319] show ?thesis
    unfolding request_pairs_def Let_def request_ok_def codec_config_ok_def
    by (cases "br_op req") (auto simp: pairs_ok_list)
qed

lemma request_pairs_length:
  assumes "request_ok req"
  shows "length (lines_of (request_pairs req)) < 8192"
proof -
  let ?cfg = "br_config req"
  from assms have "length (concat (map (kv ''option'') (take (nat (cfg_option_count ?cfg)) (cfg_options ?cfg)))) \<le> 46 * 16"
    by (intro le_trans [OF lines_list_length]) (auto simp: request_ok_def codec_config_ok_def)
  moreover from assms have "length (concat (map (kv ''eligible'') (take (nat (cfg_eligible_count ?cfg)) (cfg_eligible ?cfg)))) \<le> 46 * 64"
    by (intro le_trans [OF lines_list_length]) (auto simp: request_ok_def codec_config_ok_def)
  ultimately show ?thesis
    using assms unfolding request_pairs_def Let_def request_ok_def codec_config_ok_def text_ok_def
    by (cases "br_op req") (simp_all add: lines_list del: map_map)
qed

lemma request_counts:
  assumes "request_ok req"
  shows "nat (cfg_option_count (br_config req)) \<le> length (cfg_options (br_config req))"
    "nat (cfg_eligible_count (br_config req)) \<le> length (cfg_eligible (br_config req))"
  using assms by (auto simp: request_ok_def codec_config_ok_def)

lemma request_body_lines:
  assumes "request_ok req"
  shows "request_body req = Some (lines_of (request_pairs req))"
proof -
  note counts = request_counts [OF assms]
  note app = append_all_lines [OF request_pairs_ok [OF assms], of CODEC_BODY_MAX, unfolded CODEC_BODY_MAX_def, OF request_pairs_length [OF assms]]
  have chunks: "br_op req = BCL_CREATE \<Longrightarrow> create_chunks req = map (\<lambda>(k, v). kv k v) (request_pairs req)"
    using chunk_list [OF counts(1), of "''option''"] chunk_list [OF counts(2), of "''eligible''"]
    by (simp add: create_chunks_def request_pairs_def Let_def del: map_map)
  have "hex_encode (bal_payload (br_ballot req)) (BB_CIPHERTEXT_MAX * 2 + 1) = Some (hex_digits (bal_payload (br_ballot req)))"
    using assms by (simp add: hex_encode_def request_ok_def BB_CIPHERTEXT_MAX_def)
  with app chunks show ?thesis
    by (cases "br_op req")
       (auto simp: request_body_def ballot_body_def request_pairs_def CODEC_BODY_MAX_def split: option.splits)
qed

lemma create_kv_simps [simp]:
  "create_kv ''election_id'' v c = c\<lparr>cc_id := snprintf_s BB_ID_LEN v\<rparr>"
  "create_kv ''title'' v c = c\<lparr>cc_cfg := (cc_cfg c)\<lparr>cfg_title := snprintf_s BB_TITLE_LEN v\<rparr>\<rparr>"
  "create_kv ''open_time'' v c = c\<lparr>cc_cfg := (cc_cfg c)\<lparr>cfg_open_time := snprintf_s BB_TIME_LEN v\<rparr>\<rparr>"
  "create_kv ''close_time'' v c = c\<lparr>cc_cfg := (cc_cfg c)\<lparr>cfg_close_time := snprintf_s BB_TIME_LEN v\<rparr>\<rparr>"
  by (simp_all add: create_kv_def)

lemma create_options:
  assumes "list_all (text_ok 31) xs" "cc_opt_i c + length xs \<le> 16" "length (cfg_options (cc_cfg c)) = 16"
  shows "fold (\<lambda>(k, v). create_kv k v) (map (Pair ''option'') xs) c =
    c\<lparr>cc_cfg := (cc_cfg c)\<lparr>cfg_options := put_all (cc_opt_i c) xs (cfg_options (cc_cfg c))\<rparr>, cc_opt_i := cc_opt_i c + length xs\<rparr>"
  using assms
proof (induction xs arbitrary: c)
  case (Cons x xs)
  then have "create_kv ''option'' x c =
      c\<lparr>cc_cfg := (cc_cfg c)\<lparr>cfg_options := (cfg_options (cc_cfg c))[cc_opt_i c := x]\<rparr>, cc_opt_i := Suc (cc_opt_i c)\<rparr>"
    by (simp add: create_kv_def BB_MAX_OPTIONS_def BB_OPTION_LEN_def text_ok_def)
  with Cons show ?case by (simp add: put_all_Cons)
qed simp

lemma create_eligibles:
  assumes "list_all (text_ok 31) xs" "cc_elig_i c + length xs \<le> 64" "length (cfg_eligible (cc_cfg c)) = 64"
  shows "fold (\<lambda>(k, v). create_kv k v) (map (Pair ''eligible'') xs) c =
    c\<lparr>cc_cfg := (cc_cfg c)\<lparr>cfg_eligible := put_all (cc_elig_i c) xs (cfg_eligible (cc_cfg c))\<rparr>, cc_elig_i := cc_elig_i c + length xs\<rparr>"
  using assms
proof (induction xs arbitrary: c)
  case (Cons x xs)
  then have "create_kv ''eligible'' x c =
      c\<lparr>cc_cfg := (cc_cfg c)\<lparr>cfg_eligible := (cfg_eligible (cc_cfg c))[cc_elig_i c := x]\<rparr>, cc_elig_i := Suc (cc_elig_i c)\<rparr>"
    by (simp add: create_kv_def BB_MAX_VOTERS_def BB_CERT_LEN_def text_ok_def)
  with Cons show ?case by (simp add: put_all_Cons)
qed simp

lemma list_all_take: "list_all P xs \<Longrightarrow> list_all P (take n xs)"
  by (auto simp: list_all_iff dest!: in_set_takeD)

lemma decode_create_body:
  assumes "request_ok req" "br_op req = BCL_CREATE"
  shows "decode_create (lines_of (request_pairs req)) (bcl_request0\<lparr>br_op := BCL_CREATE, br_cert_name := c\<rparr>) =
    bcl_request0\<lparr>br_op := BCL_CREATE, br_cert_name := c, br_election_id := br_election_id req,
      br_config := sent_config (br_config req)\<rparr>"
proof -
  note counts = request_counts [OF assms(1)]
  from assms have ok: "codec_config_ok (br_config req)" "length (br_election_id req) \<le> 15" by (simp_all add: request_ok_def)
  have len: "snprintf_s BB_ID_LEN (br_election_id req) = br_election_id req"
    "snprintf_s BB_TITLE_LEN (cfg_title (br_config req)) = cfg_title (br_config req)"
    "snprintf_s BB_TIME_LEN (cfg_open_time (br_config req)) = cfg_open_time (br_config req)"
    "snprintf_s BB_TIME_LEN (cfg_close_time (br_config req)) = cfg_close_time (br_config req)"
    using ok by (simp_all add: codec_config_ok_def text_ok_def BB_ID_LEN_def BB_TITLE_LEN_def BB_TIME_LEN_def)
  from ok have xs: "list_all (text_ok 31) (cfg_options (br_config req))" "length (cfg_options (br_config req)) = 16"
    "list_all (text_ok 31) (cfg_eligible (br_config req))" "length (cfg_eligible (br_config req)) = 64"
    "0 \<le> cfg_option_count (br_config req)" "0 \<le> cfg_eligible_count (br_config req)"
    by (simp_all add: codec_config_ok_def)
  note bp = body_pairs_lines [OF request_pairs_ok [OF assms(1)]]
  show ?thesis
    using counts
    unfolding decode_create_def body_for_each_def bp
    unfolding request_pairs_def assms(2) Let_def
    by (simp add: create_options create_eligibles list_all_take xs len put_all_pad sent_config_def bcl_request0_def config0_def
        BB_MAX_OPTIONS_def BB_MAX_VOTERS_def del: map_map)
qed

lemma decode_ballot_body:
  assumes "request_ok req" "br_op req = BCL_CAST \<or> br_op req = BCL_UPDATE" "length c \<le> 31"
  shows "decode_ballot (lines_of (request_pairs req)) (r\<lparr>br_cert_name := c, br_ballot := ballot0\<rparr>) =
    (True, r\<lparr>br_cert_name := c, br_ballot := (br_ballot req)\<lparr>bal_cert_name := c\<rparr>\<rparr>)"
proof -
  note bp = body_pairs_lines [OF request_pairs_ok [OF assms(1)]]
  from assms(1) have "snprintf_s BB_NONCE_LEN (bal_nonce (br_ballot req)) = bal_nonce (br_ballot req)"
    "hex_decode (hex_digits (bal_payload (br_ballot req))) BB_CIPHERTEXT_MAX = (True, bal_payload (br_ballot req))"
    by (simp_all add: request_ok_def text_ok_def BB_NONCE_LEN_def hex_decode_def BB_CIPHERTEXT_MAX_def)
  with assms(2,3) show ?thesis
    unfolding decode_ballot_def body_for_each_def bp
    unfolding request_pairs_def Let_def
    by (auto simp: ballot_kv_def ballot0_def BB_CERT_LEN_def)
qed

lemma decode_check_body:
  assumes "request_ok req" "br_op req = BCL_CHECK \<or> br_op req = BCL_ADMIN_CHECK"
  shows "decode_check (lines_of (request_pairs req)) r = (True, r\<lparr>br_hash := br_hash req\<rparr>)"
proof -
  note bp = body_pairs_lines [OF request_pairs_ok [OF assms(1)]]
  from assms show ?thesis
    unfolding decode_check_def body_for_each_def bp
    unfolding request_pairs_def Let_def
    by (auto simp: hash_kv_def request_ok_def text_ok_def BB_HASH_LEN_def)
qed

lemma path_id:
  assumes "i \<noteq> []" "CHR ''/'' \<notin> set i" "length i \<le> 15"
  shows "path_election_id (''/election/'' @ i) = Some i"
    "path_election_id (''/election/'' @ i @ CHR ''/'' # r) = Some i"
  using assms by (simp_all add: path_election_id_def)

lemma request_path_ok:
  assumes "request_ok req"
  shows "request_path req \<noteq> []" "length (request_path req) < 256" "valid_field False (request_path req)"
  using assms by (cases "br_op req"; simp add: request_path_def request_ok_def valid_field_def)+

definition cert_headers :: "string \<Rightarrow> htttp_header list" where
  "cert_headers c = (if c = [] then [] else [(''Cert-Name'', c)])"

lemma decode_sent:
  assumes "request_ok req" "method_from_op (br_op req) = Some m"
  shows "bcl_decode_request \<lparr>rq_method = m, rq_path = request_path req,
      rq_headers = cert_headers (br_cert_name req) @ length_header (lines_of (request_pairs req)),
      rq_body = lines_of (request_pairs req)\<rparr> = (True, sent_request req)"
proof -
  let ?hs = "cert_headers (br_cert_name req) @ length_header (lines_of (request_pairs req))"
  from assms(2) op_method_name [of "br_op req"] have op: "op_from_method m = Some (br_op req)" by auto
  have "\<not> ci_eq ''Cert-Name'' ''Content-Length''" "ci_eq ''Cert-Name'' ''Cert-Name''" by code_simp+
  then have "htttp_header_get ?hs ''Cert-Name'' = (if br_cert_name req = [] then None else Some (br_cert_name req))"
    by (simp add: cert_headers_def header_get_length del: ci_eq.simps)
  moreover from assms(1) have "snprintf_s BB_CERT_LEN (br_cert_name req) = br_cert_name req"
    by (simp add: request_ok_def BB_CERT_LEN_def)
  ultimately have cert: "(case htttp_header_get ?hs ''Cert-Name'' of None \<Rightarrow> bcl_request0\<lparr>br_op := x\<rparr>
      | Some cert \<Rightarrow> bcl_request0\<lparr>br_op := x, br_cert_name := snprintf_s BB_CERT_LEN cert\<rparr>) =
      bcl_request0\<lparr>br_op := x, br_cert_name := br_cert_name req\<rparr>" for x
    by (simp add: bcl_request0_def)
  have path: "br_op req \<noteq> BCL_CREATE \<Longrightarrow> br_op req \<noteq> BCL_ADMIN_NEXT_ID \<Longrightarrow>
      path_election_id (request_path req) = Some (br_election_id req)"
    using assms(1) path_id [of "br_election_id req"]
    by (cases "br_op req") (simp_all add: request_path_def request_ok_def)
  from assms(1) have len: "length (br_cert_name req) \<le> 31" by (simp add: request_ok_def)
  have ballot: "decode_ballot (lines_of (request_pairs req))
        (bcl_request0\<lparr>br_op := br_op req, br_cert_name := br_cert_name req, br_election_id := y\<rparr>) =
      (True, bcl_request0\<lparr>br_op := br_op req, br_cert_name := br_cert_name req, br_election_id := y,
         br_ballot := (br_ballot req)\<lparr>bal_cert_name := br_cert_name req\<rparr>\<rparr>)"
    if "br_op req = BCL_CAST \<or> br_op req = BCL_UPDATE" for y
    using decode_ballot_body [OF assms(1) that len, of "bcl_request0\<lparr>br_op := br_op req, br_election_id := y\<rparr>"]
    by (simp add: bcl_request0_def)
  note create = decode_create_body [OF assms(1)] and check = decode_check_body [OF assms(1)]
  show ?thesis
    using ballot path
    unfolding bcl_decode_request_def htttp_request.simps op option.case Let_def cert
    by (cases "br_op req") (simp_all add: sent_request_def Let_def create check)
qed

lemma length_header_length: "length b < 8192 \<Longrightarrow> length (concat (map header_bytes (length_header b))) \<le> 28"
  using nat_str_length32 [of "length b"] by (simp add: length_header_def header_bytes_def)

text \<open>A buffer of 16 KiB, which every caller exceeds, holds any request.\<close>

lemma encode_with_body:
  assumes "request_ok (req\<lparr>br_ballot := ballot\<rparr>)" "16384 \<le> cap" "request_body req = Some b" "length b < 8192"
  shows "\<exists>out m. bcl_encode_request req cap = Some out \<and> method_from_op (br_op req) = Some m \<and>
    htttp_parse_request out = (HTTTP_OK, \<lparr>rq_method = m, rq_path = request_path req,
      rq_headers = cert_headers (br_cert_name req) @ length_header (b),
      rq_body = b\<rparr>)"
proof -
  let ?c = "br_cert_name req"
  obtain m where m: "method_from_op (br_op req) = Some m" "m \<noteq> []" "length m < 16" "valid_field False m"
    using op_method_name by blast
  have pe: "request_path (req\<lparr>br_ballot := ballot\<rparr>) = request_path req"
    by (cases "br_op req") (simp_all add: request_path_def)
  note path = request_path_ok [OF assms(1), unfolded pe] and body = assms(4)
  have ok: "length ?c \<le> 31" "valid_field True ?c" using assms(1) by (simp_all add: request_ok_def)
  let ?h = "\<lparr>rq_method = m, rq_path = request_path req, rq_headers = cert_headers ?c, rq_body = b\<rparr>"
  have "\<not> ci_eq ''Cert-Name'' ''Content-Length''" by code_simp
  then have kept: "kept False (cert_headers ?c) = cert_headers ?c" by (simp add: kept_def cert_headers_def del: ci_eq.simps)
  have "length (concat (map header_bytes (cert_headers ?c))) \<le> 44"
    using ok(1) by (simp add: cert_headers_def header_bytes_def)
  moreover have "length (concat (map header_bytes (length_header b))) \<le> 28"
    by (rule length_header_length) (rule body)
  ultimately have "length (request_bytes ?h) \<le> cap"
    using m(3) path(2) body assms(2)
    by (simp add: request_bytes_def request_line_def tail_bytes_def kept HTTTP_VERSION_def)
  then have ser: "htttp_serialize_request ?h cap = Inr (request_bytes ?h)"
    using m path ok by (simp add: serialize_request_spec kept) (simp add: cert_headers_def sendable_def valid_field_def htttp_lens)
  have "request_fits ?h"
    using m(3) path(2) ok(1) body
    by (simp add: request_fits_def kept htttp_lens) (simp add: cert_headers_def length_header_def)
  note parsed = request_roundtrip [OF ser this]
  have hs: "(if ?c \<noteq> [] then htttp_header_set [] ''Cert-Name'' ?c else Inr []) = Inr (cert_headers ?c)"
    using ok by (simp add: htttp_header_set_def cert_headers_def htttp_lens valid_field_def)
  have "bcl_encode_request req cap = Some (request_bytes ?h)"
    unfolding bcl_encode_request_def m(1) assms(3) hs
    using m(3) path(2) ser by (simp add: htttp_lens)
  with parsed m(1) show ?thesis by (auto simp: kept)
qed

lemma encode_sent:
  assumes "request_ok req" "16384 \<le> cap"
  shows "\<exists>out m. bcl_encode_request req cap = Some out \<and> method_from_op (br_op req) = Some m \<and>
    htttp_parse_request out = (HTTTP_OK, \<lparr>rq_method = m, rq_path = request_path req,
      rq_headers = cert_headers (br_cert_name req) @ length_header (lines_of (request_pairs req)),
      rq_body = lines_of (request_pairs req)\<rparr>)"
  using encode_with_body [where ballot = "br_ballot req", OF _ assms(2) request_body_lines request_pairs_length] assms(1) by simp

section \<open>Responses\<close>

definition hash_row_ok :: "bb_ballot_hash \<Rightarrow> bool" where
  "hash_row_ok h \<longleftrightarrow> bh_hash h \<noteq> [] \<and> CHR '','' \<notin> set (bh_hash h) \<and> text_ok 64 (bh_hash h) \<and>
     int32_ok (bh_option_index h) \<and> int32_ok (bh_version h) \<and> int32_ok (bh_superseded h)"

definition response_ok :: "bcl_response \<Rightarrow> bool" where
  "response_ok resp \<longleftrightarrow>
     bp_status resp \<noteq> BB_ERR_RETRY \<and>
     text_ok 15 (el_id (bp_election resp)) \<and> text_ok 63 (el_title (bp_election resp)) \<and>
     text_ok 31 (el_open_time (bp_election resp)) \<and> text_ok 31 (el_close_time (bp_election resp)) \<and>
     length (el_options (bp_election resp)) = 16 \<and> list_all (text_ok 31) (el_options (bp_election resp)) \<and>
     0 \<le> el_option_count (bp_election resp) \<and> el_option_count (bp_election resp) \<le> 16 \<and>
     int32_ok (bp_has_prior_ballot resp) \<and> int32_ok (bp_prior_ballot_version resp) \<and>
     text_ok 64 (rc_hash (bp_receipt resp)) \<and> text_ok 31 (rc_issued_at (bp_receipt resp)) \<and>
     length (bp_tally resp) = 16 \<and> list_all (\<lambda>i. int32_ok i) (bp_tally resp) \<and>
     0 \<le> bp_option_count resp \<and> bp_option_count resp \<le> 16 \<and>
     length (bp_options resp) = 16 \<and> list_all (text_ok 31) (bp_options resp) \<and>
     0 \<le> bp_hash_count resp \<and> bp_hash_count resp \<le> 64 \<and>
     length (bp_hashes resp) = 64 \<and> list_all hash_row_ok (take (nat (bp_hash_count resp)) (bp_hashes resp)) \<and>
     int32_ok (bp_found resp) \<and> int32_ok (bp_found_option resp) \<and> text_ok 31 (bp_found_option_name resp)"

text \<open>What of a response crosses the wire, by operation.\<close>

definition sent_join :: "bcl_response \<Rightarrow> bcl_response \<Rightarrow> bcl_response" where
  "sent_join resp base =
     (let e = bp_election resp
      in if el_id e = [] then base
         else base\<lparr>bp_election := election0\<lparr>el_id := el_id e, el_title := el_title e, el_state := el_state e,
                     el_options := pad 16 [] (nat (el_option_count e)) (el_options e), el_option_count := el_option_count e,
                     el_open_time := el_open_time e, el_close_time := el_close_time e\<rparr>,
                   bp_has_prior_ballot := bp_has_prior_ballot resp, bp_prior_ballot_version := bp_prior_ballot_version resp\<rparr>)"

definition sent_results :: "bcl_response \<Rightarrow> bcl_response \<Rightarrow> bcl_response" where
  "sent_results resp base =
     base\<lparr>bp_election := election0\<lparr>el_id := el_id (bp_election resp), el_title := el_title (bp_election resp)\<rparr>,
          bp_tally := pad 16 0 (nat (bp_option_count resp)) (bp_tally resp), bp_option_count := bp_option_count resp,
          bp_options := pad 16 [] (nat (bp_option_count resp)) (bp_options resp),
          bp_hashes := pad 64 hash0 (nat (bp_hash_count resp)) (bp_hashes resp), bp_hash_count := bp_hash_count resp\<rparr>"

definition sent_check :: "bcl_response \<Rightarrow> bcl_response \<Rightarrow> bcl_response" where
  "sent_check resp base =
     (if bp_found resp = 0 then base
      else base\<lparr>bp_found := bp_found resp, bp_found_option := bp_found_option resp,
                bp_found_option_name := bp_found_option_name resp\<rparr>)"

definition sent_response :: "bcl_op \<Rightarrow> bcl_response \<Rightarrow> bcl_response" where
  "sent_response op resp =
     (let base = bcl_response0\<lparr>bp_status := bp_status resp\<rparr>
      in if op = BCL_CREATE \<or> op = BCL_ADMIN_NEXT_ID then base\<lparr>bp_election := election0\<lparr>el_id := el_id (bp_election resp)\<rparr>\<rparr>
         else if op = BCL_OPEN \<or> op = BCL_CLOSE \<or> op = BCL_PUBLISH then base
         else if op = BCL_JOIN then sent_join resp base
         else if op = BCL_CAST \<or> op = BCL_UPDATE then
           (if rc_hash (bp_receipt resp) = [] then base else base\<lparr>bp_receipt := bp_receipt resp\<rparr>)
         else if op = BCL_RESULTS \<or> op = BCL_ADMIN_RESULTS then sent_results resp base
         else sent_check resp base)"

text \<open>The lines of each kind of response.\<close>

definition csv :: "int list \<Rightarrow> string" where
  "csv xs = (case xs of [] \<Rightarrow> [] | x # xs \<Rightarrow> int_str x @ concat (map (\<lambda>x. CHR '','' # int_str x) xs))"

definition join_pairs :: "bcl_response \<Rightarrow> (string \<times> string) list" where
  "join_pairs resp =
     (let e = bp_election resp
      in if el_id e = [] then []
         else [(''election_id'', el_id e), (''title'', el_title e), (''state'', bb_state_str (el_state e)),
               (''open_time'', el_open_time e), (''close_time'', el_close_time e),
               (''has_prior_ballot'', int_str (bp_has_prior_ballot resp)),
               (''prior_ballot_version'', int_str (bp_prior_ballot_version resp))] @
              map (Pair ''option'') (take (nat (el_option_count e)) (el_options e)))"

definition results_pairs :: "bcl_response \<Rightarrow> (string \<times> string) list" where
  "results_pairs resp =
     [(''election_id'', el_id (bp_election resp)), (''title'', el_title (bp_election resp)),
      (''tally_count'', int_str (bp_option_count resp))] @
     (if 0 < bp_option_count resp then [(''tally'', csv (take (nat (bp_option_count resp)) (bp_tally resp)))] else []) @
     map (Pair ''result_option'') (take (nat (bp_option_count resp)) (bp_options resp)) @
     [(''hash_count'', int_str (bp_hash_count resp))] @
     map (Pair ''row'') (map row_text (take (nat (bp_hash_count resp)) (bp_hashes resp)))"

definition check_pairs :: "bcl_response \<Rightarrow> (string \<times> string) list" where
  "check_pairs resp =
     (''found'', int_str (bp_found resp)) #
     (if bp_found resp \<noteq> 0
      then [(''found_option'', int_str (bp_found_option resp)), (''found_option_name'', bp_found_option_name resp)] else [])"

definition response_pairs :: "bcl_op \<Rightarrow> bcl_response \<Rightarrow> (string \<times> string) list" where
  "response_pairs op resp =
     (if op = BCL_CREATE \<or> op = BCL_ADMIN_NEXT_ID then
        (if el_id (bp_election resp) \<noteq> [] then [(''election_id'', el_id (bp_election resp))] else [])
      else if op = BCL_OPEN \<or> op = BCL_CLOSE \<or> op = BCL_PUBLISH then []
      else if op = BCL_JOIN then join_pairs resp
      else if op = BCL_CAST \<or> op = BCL_UPDATE then
        (if rc_hash (bp_receipt resp) \<noteq> []
         then [(''hash'', rc_hash (bp_receipt resp)), (''issued_at'', rc_issued_at (bp_receipt resp))] else [])
      else if op = BCL_RESULTS \<or> op = BCL_ADMIN_RESULTS then results_pairs resp
      else check_pairs resp)"

lemma take_ints: "list_all (\<lambda>i. int32_ok i) xs \<Longrightarrow> x \<in> set (take n xs) \<Longrightarrow> int32_ok x"
  by (auto simp: list_all_iff dest: in_set_takeD)

lemma csv_length:
  assumes "list_all (\<lambda>i. int32_ok i) xs"
  shows "length (csv xs) \<le> 12 * length xs"
proof (cases xs)
  case (Cons y ys)
  with assms have "length (concat (map (\<lambda>x. CHR '','' # int_str x) ys)) \<le> 12 * length ys"
    by (intro length_concat_le) (auto simp: list_all_iff int_str_length)
  moreover from assms Cons have "length (int_str y) \<le> 11" by (intro int_str_length) simp
  ultimately show ?thesis by (simp add: csv_def Cons)
qed (simp add: csv_def)

lemma csv_ok:
  assumes "list_all (\<lambda>i. int32_ok i) xs" "length xs \<le> 16"
  shows "text_ok 319 (csv xs)"
  using csv_length [OF assms(1)] assms(2) by (cases xs) (auto simp: csv_def text_ok_def)

lemma row_text_ok:
  assumes "hash_row_ok h" shows "text_ok 100 (row_text h)"
  using assms int_str_length [of "bh_option_index h"] int_str_length [of "bh_version h"] int_str_length [of "bh_superseded h"]
  by (auto simp: row_text_def hash_row_ok_def text_ok_def)

lemma response_counts:
  assumes "response_ok resp"
  shows "nat (el_option_count (bp_election resp)) \<le> length (el_options (bp_election resp))"
    "nat (bp_option_count resp) \<le> length (bp_tally resp)" "nat (bp_option_count resp) \<le> length (bp_options resp)"
    "nat (bp_hash_count resp) \<le> length (bp_hashes resp)"
    "int32_ok (bp_option_count resp)" "int32_ok (bp_hash_count resp)"
  using assms by (auto simp: response_ok_def)

lemma tally_chunks:
  assumes "0 < n" "n \<le> length t"
  shows "concat ([''tally=''] @ map (\<lambda>i. (if i \<noteq> 0 then '','' else []) @ int_str (t ! i)) [0..<n] @ [[NL]]) =
    kv ''tally'' (csv (take n t))"
proof -
  from assms obtain m y ys where e: "n = Suc m" "t = y # ys" by (cases n; cases t) auto
  with assms have m: "m \<le> length ys" by simp
  have "map (\<lambda>i. (if i \<noteq> 0 then '','' else []) @ int_str (t ! i)) [0..<n] =
      int_str y # map (\<lambda>i. CHR '','' # int_str (ys ! i)) [0..<m]"
    unfolding e map_upt_Suc by simp
  also have "map (\<lambda>i. CHR '','' # int_str (ys ! i)) [0..<m] = map (\<lambda>x. CHR '','' # int_str x) (take m ys)"
    using map_nth_take [OF m, of "\<lambda>x. CHR '','' # int_str x"] .
  finally show ?thesis by (simp add: e csv_def kv_def)
qed

lemma results_chunks_lines:
  assumes "response_ok resp"
  shows "concat (results_chunks resp) = lines_of (results_pairs resp)"
proof -
  note c = response_counts [OF assms]
  have rows: "map (\<lambda>i. kv ''row'' (row_text (bp_hashes resp ! i))) [0..<nat (bp_hash_count resp)] =
      map (\<lambda>(k, v). kv k v) (map (Pair ''row'') (map row_text (take (nat (bp_hash_count resp)) (bp_hashes resp))))"
    using map_nth_take [OF c(4), of "\<lambda>h. kv ''row'' (row_text h)"] by (simp add: comp_def)
  note opts = chunk_list [OF c(3), of "''result_option''"]
  show ?thesis
  proof (cases "0 < bp_option_count resp")
    case True
    then have "concat (results_chunks resp) =
        kv ''election_id'' (el_id (bp_election resp)) @ kv ''title'' (el_title (bp_election resp)) @
        kv ''tally_count'' (int_str (bp_option_count resp)) @ kv ''tally'' (csv (take (nat (bp_option_count resp)) (bp_tally resp))) @
        concat (map (\<lambda>i. kv ''result_option'' (bp_options resp ! i)) [0..<nat (bp_option_count resp)]) @
        kv ''hash_count'' (int_str (bp_hash_count resp)) @
        concat (map (\<lambda>i. kv ''row'' (row_text (bp_hashes resp ! i))) [0..<nat (bp_hash_count resp)])"
      using tally_chunks [OF _ c(2)] by (simp add: results_chunks_def)
    with True show ?thesis unfolding opts rows results_pairs_def by simp
  next
    case False
    then show ?thesis unfolding results_chunks_def rows results_pairs_def by simp
  qed
qed

lemma response_chunks_lines:
  assumes "response_ok resp"
  shows "concat (response_chunks op resp) = lines_of (response_pairs op resp)"
  using results_chunks_lines [OF assms] chunk_list [OF response_counts(1) [OF assms], of "''option''"]
  by (simp add: response_chunks_def response_pairs_def join_chunks_def join_pairs_def check_chunks_def check_pairs_def Let_def
      del: map_map)

lemma response_texts:
  assumes "response_ok resp"
  shows "text_ok 319 (el_id (bp_election resp))" "text_ok 319 (el_title (bp_election resp))"
    "text_ok 319 (el_open_time (bp_election resp))" "text_ok 319 (el_close_time (bp_election resp))"
    "text_ok 319 (int_str (bp_has_prior_ballot resp))" "text_ok 319 (int_str (bp_prior_ballot_version resp))"
    "text_ok 319 (rc_hash (bp_receipt resp))" "text_ok 319 (rc_issued_at (bp_receipt resp))"
    "text_ok 319 (int_str (bp_option_count resp))" "text_ok 319 (int_str (bp_hash_count resp))"
    "text_ok 319 (int_str (bp_found resp))" "text_ok 319 (int_str (bp_found_option resp))"
    "text_ok 319 (bp_found_option_name resp)" "text_ok 319 (bb_state_str (el_state (bp_election resp)))"
    "text_ok 319 (csv (take (nat (bp_option_count resp)) (bp_tally resp)))"
proof -
  show "text_ok 319 (csv (take (nat (bp_option_count resp)) (bp_tally resp)))"
    using assms by (intro csv_ok list_all_take) (auto simp: response_ok_def)
  show "text_ok 319 (bb_state_str (el_state (bp_election resp)))"
    by (rule text_ok_mono [OF conjunct2 [OF state_name]]) simp
qed (use assms in \<open>auto simp: response_ok_def\<close>)

lemma pairs_list: "key_ok k \<Longrightarrow> list_all (text_ok 319) vs \<Longrightarrow> list_all pair_ok (map (Pair k) vs)"
  by (simp add: list_all_iff)

lemma response_lists:
  assumes "response_ok resp"
  shows "list_all pair_ok (map (Pair ''option'') (take n (el_options (bp_election resp))))"
    "list_all pair_ok (map (Pair ''result_option'') (take n (bp_options resp)))"
    "list_all pair_ok (map (Pair ''row'') (map row_text (take (nat (bp_hash_count resp)) (bp_hashes resp))))"
proof -
  have "text_ok 319 (row_text h)" if "hash_row_ok h" for h by (rule text_ok_mono [OF row_text_ok [OF that]]) simp
  with assms show "list_all pair_ok (map (Pair ''row'') (map row_text (take (nat (bp_hash_count resp)) (bp_hashes resp))))"
    by (intro pairs_list) (simp_all add: response_ok_def list_all_iff)
qed (use assms in \<open>intro pairs_ok_list; simp add: response_ok_def\<close>)+

lemma response_pairs_ok:
  assumes "response_ok resp"
  shows "list_all pair_ok (response_pairs op resp)"
  using response_texts [OF assms] response_lists [OF assms]
  by (simp add: response_pairs_def results_pairs_def join_pairs_def check_pairs_def Let_def del: map_map list.pred_map)

lemma one_line_lines: "list_all pair_ok ps \<Longrightarrow> list_all one_line (map (\<lambda>(k, v). kv k v) ps)"
  by (auto simp: list_all_iff one_line_kv)

lemma results_rows:
  assumes "response_ok resp"
  shows "map (\<lambda>i. kv ''row'' (row_text (bp_hashes resp ! i))) [0..<nat (bp_hash_count resp)] =
      map (\<lambda>(k, v). kv k v) (map (Pair ''row'') (map row_text (take (nat (bp_hash_count resp)) (bp_hashes resp))))"
  using map_nth_take [OF response_counts(4) [OF assms], of "\<lambda>h. kv ''row'' (row_text h)"] by (simp add: comp_def)

lemma results_chunks_one_line:
  assumes "response_ok resp"
  shows "list_all one_line (results_chunks resp)"
proof -
  from response_pairs_ok [OF assms, of BCL_RESULTS] have ok: "list_all pair_ok (results_pairs resp)"
    by (simp add: response_pairs_def)
  have i: "one_line (int_str j)" "one_line (CHR '','' # int_str j)" "one_line [NL]" "one_line ''tally=''" for j
    by (auto simp: one_line_def dest: in_set_butlastD)
  have "list_all one_line (map (\<lambda>i. (if i \<noteq> 0 then '','' else []) @ int_str (bp_tally resp ! i)) [0..<n])" for n
    using i by (simp add: list_all_iff)
  with one_line_lines [OF ok] i(3,4) show ?thesis
    unfolding results_chunks_def results_rows [OF assms] chunk_list [OF response_counts(3) [OF assms]] results_pairs_def
    by (auto simp del: map_map)
qed

lemma response_chunks_one_line:
  assumes "response_ok resp"
  shows "list_all one_line (response_chunks op resp)"
  using results_chunks_one_line [OF assms] one_line_lines [OF response_pairs_ok [OF assms, of op]]
    chunk_list [OF response_counts(1) [OF assms], of "''option''"]
  by (auto simp: response_chunks_def response_pairs_def join_chunks_def join_pairs_def check_chunks_def check_pairs_def Let_def
      simp del: map_map)

lemma response_length:
  assumes "response_ok resp"
  shows "length (lines_of (response_pairs op resp)) \<le> 7900"
proof -
  note c = response_counts [OF assms]
  note istr = int_str_length [OF c(5)] int_str_length [OF c(6)]
  have o: "length (concat (map (kv ''result_option'') (take (nat (bp_option_count resp)) (bp_options resp)))) \<le> 46 * 16"
    using assms by (intro le_trans [OF lines_list_length]) (auto simp: response_ok_def)
  have e: "length (concat (map (kv ''option'') (take (nat (el_option_count (bp_election resp))) (el_options (bp_election resp))))) \<le> 46 * 16"
    using assms by (intro le_trans [OF lines_list_length]) (auto simp: response_ok_def)
  have "length (concat (map (\<lambda>h. kv ''row'' (row_text h)) (take (nat (bp_hash_count resp)) (bp_hashes resp))))
      \<le> 105 * length (take (nat (bp_hash_count resp)) (bp_hashes resp))"
    using assms row_text_ok by (intro length_concat_le) (auto simp: response_ok_def list_all_iff text_ok_def)
  also have "\<dots> \<le> 105 * 64" using assms by (simp add: response_ok_def)
  finally have r: "length (concat (map (\<lambda>h. kv ''row'' (row_text h)) (take (nat (bp_hash_count resp)) (bp_hashes resp)))) \<le> 105 * 64" .
  have t: "length (csv (take (nat (bp_option_count resp)) (bp_tally resp))) \<le> 12 * 16"
    using assms by (intro le_trans [OF csv_length]) (auto simp: response_ok_def list_all_take)
  from assms have n: "length (el_id (bp_election resp)) \<le> 15" "length (el_title (bp_election resp)) \<le> 63"
    "length (el_open_time (bp_election resp)) \<le> 31" "length (el_close_time (bp_election resp)) \<le> 31"
    "length (rc_hash (bp_receipt resp)) \<le> 64" "length (rc_issued_at (bp_receipt resp)) \<le> 31"
    "length (bp_found_option_name resp) \<le> 31"
    by (simp_all add: response_ok_def text_ok_def)
  from assms have ls: "length (int_str (bp_has_prior_ballot resp)) \<le> 11" "length (int_str (bp_prior_ballot_version resp)) \<le> 11"
    "length (int_str (bp_found resp)) \<le> 11" "length (int_str (bp_found_option resp)) \<le> 11"
    by (simp_all add: response_ok_def int_str_length)
  have "length (lines_of (results_pairs resp)) \<le> 7900"
    using n(1,2) o r t istr by (simp add: results_pairs_def comp_def)
  moreover have "length (lines_of (join_pairs resp)) \<le> 7900"
    using n(1-4) ls(1,2) e conjunct2 [OF state_name [of "el_state (bp_election resp)"], unfolded text_ok_def]
    by (simp add: join_pairs_def comp_def Let_def)
  moreover have "length (lines_of (check_pairs resp)) \<le> 7900"
    using n(7) ls(3,4) by (cases "bp_found resp = 0") (simp_all add: check_pairs_def)
  ultimately show ?thesis using n(1,5,6) by (simp add: response_pairs_def)
qed

lemma scan_int_str:
  assumes "int32_ok i" "rest = [] \<or> \<not> is_digit (hd rest)"
  shows "scan_int (int_str i @ rest) = Some (i, rest)"
proof -
  have "strtol (int_str i @ rest) = (i, rest)" using assms by (intro strtol_int_str) auto
  moreover have "rest \<noteq> int_str i @ rest" by simp
  moreover have "wrap32 i = i" using atoi_int_str_self [OF assms(1)] strtol_int_str [of i "[]"] assms(1)
    by (simp add: atoi_def)
  ultimately show ?thesis by (simp add: scan_int_def)
qed

lemma comma_not_digit [simp]: "\<not> is_digit (CHR '','')"
  by (simp add: is_digit_def)

lemma scan_row_text:
  assumes "hash_row_ok h"
  shows "scan_row (row_text h) = Some h"
proof -
  from assms have ok: "bh_hash h \<noteq> []" "CHR '','' \<notin> set (bh_hash h)" "length (bh_hash h) \<le> 64"
    "int32_ok (bh_option_index h)" "int32_ok (bh_version h)" "int32_ok (bh_superseded h)"
    by (simp_all add: hash_row_ok_def text_ok_def)
  note ints = scan_int_str [OF ok(4)] scan_int_str [OF ok(5)] scan_int_str [OF ok(6), of "[]", simplified]
  show ?thesis using ok(1-3) by (simp add: scan_row_def row_text_def ints)
qed

lemma tally_loop_csv:
  assumes "list_all (\<lambda>i. int32_ok i) (x # xs)" "i + length (x # xs) \<le> 16" "length t = 16"
  shows "tally_loop i (csv (x # xs)) t = put_all i (x # xs) t"
  using assms
proof (induction xs arbitrary: i x t)
  case Nil
  then show ?case
    by (simp add: tally_loop.simps csv_def put_all_Cons [symmetric] BB_MAX_OPTIONS_def)
next
  case (Cons y ys)
  have e: "csv (x # y # ys) = int_str x @ CHR '','' # csv (y # ys)" by (simp add: csv_def)
  have "atoi (int_str x @ CHR '','' # csv (y # ys)) = x" using Cons.prems by (intro atoi_int_str) auto
  then have "tally_loop i (csv (x # y # ys)) t = tally_loop (Suc i) (csv (y # ys)) (t[i := x])"
    using Cons.prems by (subst tally_loop.simps) (simp add: e BB_MAX_OPTIONS_def)
  also have "\<dots> = put_all (Suc i) (y # ys) (t[i := x])" using Cons.prems by (intro Cons.IH) auto
  finally show ?case using Cons.prems by (simp add: put_all_Cons)
qed

lemma response_kv_simps [simp]:
  "response_kv ''election_id'' v c = on_election (\<lambda>e. e\<lparr>el_id := snprintf_s BB_ID_LEN v\<rparr>) c"
  "response_kv ''title'' v c = on_election (\<lambda>e. e\<lparr>el_title := snprintf_s BB_TITLE_LEN v\<rparr>) c"
  "response_kv ''state'' (bb_state_str st) c = on_election (\<lambda>e. e\<lparr>el_state := st\<rparr>) c"
  "response_kv ''open_time'' v c = on_election (\<lambda>e. e\<lparr>el_open_time := snprintf_s BB_TIME_LEN v\<rparr>) c"
  "response_kv ''close_time'' v c = on_election (\<lambda>e. e\<lparr>el_close_time := snprintf_s BB_TIME_LEN v\<rparr>) c"
  "response_kv ''has_prior_ballot'' v c = c\<lparr>rx_resp := (rx_resp c)\<lparr>bp_has_prior_ballot := atoi v\<rparr>\<rparr>"
  "response_kv ''prior_ballot_version'' v c = c\<lparr>rx_resp := (rx_resp c)\<lparr>bp_prior_ballot_version := atoi v\<rparr>\<rparr>"
  "response_kv ''hash'' v c = on_receipt (\<lambda>x. x\<lparr>rc_hash := snprintf_s BB_HASH_LEN v\<rparr>) c"
  "response_kv ''issued_at'' v c = on_receipt (\<lambda>x. x\<lparr>rc_issued_at := snprintf_s BB_TIME_LEN v\<rparr>) c"
  "response_kv ''tally_count'' v c = c\<lparr>rx_resp := (rx_resp c)\<lparr>bp_option_count := atoi v\<rparr>\<rparr>"
  "response_kv ''tally'' v c = c\<lparr>rx_resp := (rx_resp c)\<lparr>bp_tally := tally_loop 0 v (bp_tally (rx_resp c))\<rparr>\<rparr>"
  "response_kv ''hash_count'' v c = c\<lparr>rx_resp := (rx_resp c)\<lparr>bp_hash_count := atoi v\<rparr>\<rparr>"
  "response_kv ''found'' v c = c\<lparr>rx_resp := (rx_resp c)\<lparr>bp_found := atoi v\<rparr>\<rparr>"
  "response_kv ''found_option'' v c = c\<lparr>rx_resp := (rx_resp c)\<lparr>bp_found_option := atoi v\<rparr>\<rparr>"
  "response_kv ''found_option_name'' v c = c\<lparr>rx_resp := (rx_resp c)\<lparr>bp_found_option_name := snprintf_s BB_OPTION_LEN v\<rparr>\<rparr>"
  by (simp_all add: response_kv_def Let_def state_name)

lemma response_options:
  assumes "list_all (text_ok 31) xs" "0 \<le> el_option_count (bp_election (rx_resp c))"
    "el_option_count (bp_election (rx_resp c)) + int (length xs) \<le> 16" "length (el_options (bp_election (rx_resp c))) = 16"
  shows "fold (\<lambda>(k, v). response_kv k v) (map (Pair ''option'') xs) c =
    on_election (\<lambda>e. e\<lparr>el_options := put_all (nat (el_option_count e)) xs (el_options e),
                       el_option_count := el_option_count e + int (length xs)\<rparr>) c"
  using assms
proof (induction xs arbitrary: c)
  case (Cons x xs)
  let ?n = "el_option_count (bp_election (rx_resp c))"
  from Cons.prems have s: "response_kv ''option'' x c =
      on_election (\<lambda>e. e\<lparr>el_options := (el_options e)[nat (el_option_count e) := x], el_option_count := el_option_count e + 1\<rparr>) c"
    by (simp add: response_kv_def Let_def BB_MAX_OPTIONS_def BB_OPTION_LEN_def text_ok_def on_election_def)
  have n: "nat (?n + 1) = Suc (nat ?n)" "nat ?n < 16" using Cons.prems by auto
  show ?case using Cons.prems n by (simp add: s Cons.IH on_election_def put_all_Cons)
qed (simp add: on_election_def)

lemma response_result_options:
  assumes "list_all (text_ok 31) xs" "rx_result_opt_i c + length xs \<le> 16" "length (bp_options (rx_resp c)) = 16"
  shows "fold (\<lambda>(k, v). response_kv k v) (map (Pair ''result_option'') xs) c =
    c\<lparr>rx_resp := (rx_resp c)\<lparr>bp_options := put_all (rx_result_opt_i c) xs (bp_options (rx_resp c))\<rparr>,
      rx_result_opt_i := rx_result_opt_i c + length xs\<rparr>"
  using assms
proof (induction xs arbitrary: c)
  case (Cons x xs)
  from Cons.prems have "response_kv ''result_option'' x c =
      c\<lparr>rx_resp := (rx_resp c)\<lparr>bp_options := (bp_options (rx_resp c))[rx_result_opt_i c := x]\<rparr>,
        rx_result_opt_i := Suc (rx_result_opt_i c)\<rparr>"
    by (simp add: response_kv_def Let_def BB_MAX_OPTIONS_def BB_OPTION_LEN_def text_ok_def)
  with Cons show ?case by (simp add: put_all_Cons)
qed simp

lemma response_rows:
  assumes "list_all hash_row_ok hs" "rx_row_i c + length hs \<le> 64" "length (bp_hashes (rx_resp c)) = 64"
  shows "fold (\<lambda>(k, v). response_kv k v) (map (Pair ''row'') (map row_text hs)) c =
    c\<lparr>rx_resp := (rx_resp c)\<lparr>bp_hashes := put_all (rx_row_i c) hs (bp_hashes (rx_resp c))\<rparr>,
      rx_row_i := rx_row_i c + length hs\<rparr>"
  using assms
proof (induction hs arbitrary: c)
  case (Cons h hs)
  from Cons.prems have "response_kv ''row'' (row_text h) c =
      c\<lparr>rx_resp := (rx_resp c)\<lparr>bp_hashes := (bp_hashes (rx_resp c))[rx_row_i c := h]\<rparr>, rx_row_i := Suc (rx_row_i c)\<rparr>"
    by (simp add: response_kv_def Let_def BB_MAX_VOTERS_def scan_row_text)
  with Cons show ?case by (simp add: put_all_Cons)
qed simp

abbreviation answer_ctx :: "bcl_response \<Rightarrow> nat \<Rightarrow> nat \<Rightarrow> resp_ctx" where
  "answer_ctx r n m \<equiv> \<lparr>rx_resp = r, rx_row_i = n, rx_result_opt_i = m, rx_status_valid = True\<rparr>"

lemma response_copies:
  assumes "response_ok resp"
  shows "snprintf_s BB_ID_LEN (el_id (bp_election resp)) = el_id (bp_election resp)"
    "snprintf_s BB_TITLE_LEN (el_title (bp_election resp)) = el_title (bp_election resp)"
    "snprintf_s BB_TIME_LEN (el_open_time (bp_election resp)) = el_open_time (bp_election resp)"
    "snprintf_s BB_TIME_LEN (el_close_time (bp_election resp)) = el_close_time (bp_election resp)"
    "snprintf_s BB_HASH_LEN (rc_hash (bp_receipt resp)) = rc_hash (bp_receipt resp)"
    "snprintf_s BB_TIME_LEN (rc_issued_at (bp_receipt resp)) = rc_issued_at (bp_receipt resp)"
    "snprintf_s BB_OPTION_LEN (bp_found_option_name resp) = bp_found_option_name resp"
  using assms
  by (simp_all add: response_ok_def text_ok_def BB_ID_LEN_def BB_TITLE_LEN_def BB_TIME_LEN_def BB_HASH_LEN_def BB_OPTION_LEN_def)

lemma response_numbers:
  assumes "response_ok resp"
  shows "atoi (int_str (bp_has_prior_ballot resp)) = bp_has_prior_ballot resp"
    "atoi (int_str (bp_prior_ballot_version resp)) = bp_prior_ballot_version resp"
    "atoi (int_str (bp_option_count resp)) = bp_option_count resp"
    "atoi (int_str (bp_hash_count resp)) = bp_hash_count resp"
    "atoi (int_str (bp_found resp)) = bp_found resp"
    "atoi (int_str (bp_found_option resp)) = bp_found_option resp"
  using assms response_counts(5,6) [OF assms] by (simp_all add: response_ok_def)

lemma fold_join:
  assumes "response_ok resp"
  shows "fold (\<lambda>(k, v). response_kv k v) (join_pairs resp) (answer_ctx (bcl_response0\<lparr>bp_status := st\<rparr>) 0 0) =
    answer_ctx (sent_join resp (bcl_response0\<lparr>bp_status := st\<rparr>)) 0 0"
proof -
  note c = response_counts(1) [OF assms]
  from assms have o: "list_all (text_ok 31) (el_options (bp_election resp))" "length (el_options (bp_election resp)) = 16"
    "0 \<le> el_option_count (bp_election resp)" by (simp_all add: response_ok_def)
  show ?thesis
    using c o(2,3)
    by (simp add: join_pairs_def sent_join_def Let_def response_copies [OF assms] response_numbers [OF assms]
        response_options list_all_take o(1) on_election_def bcl_response0_def election0_def put_all_pad
        BB_MAX_OPTIONS_def BB_MAX_VOTERS_def del: map_map)
qed

lemma csv_pad:
  assumes "response_ok resp" "0 < bp_option_count resp"
  shows "tally_loop 0 (csv (take (nat (bp_option_count resp)) (bp_tally resp))) (replicate 16 0) =
    pad 16 0 (nat (bp_option_count resp)) (bp_tally resp)"
proof -
  note c = response_counts(2) [OF assms(1)]
  let ?xs = "take (nat (bp_option_count resp)) (bp_tally resp)"
  from assms c have xs: "list_all (\<lambda>i. int32_ok i) ?xs" "length ?xs \<le> 16" "?xs \<noteq> []"
    by (auto simp: response_ok_def list_all_take)
  then obtain y ys where "?xs = y # ys" by (cases ?xs) auto
  with xs tally_loop_csv [of y ys 0 "replicate 16 0"] put_all_pad [OF c, of 16 0] show ?thesis by simp
qed

lemma fold_results:
  assumes "response_ok resp"
  shows "fold (\<lambda>(k, v). response_kv k v) (results_pairs resp) (answer_ctx (bcl_response0\<lparr>bp_status := st\<rparr>) 0 0) =
    answer_ctx (sent_results resp (bcl_response0\<lparr>bp_status := st\<rparr>)) (nat (bp_hash_count resp)) (nat (bp_option_count resp))"
proof -
  note c = response_counts [OF assms]
  from assms have o: "list_all (text_ok 31) (bp_options resp)" "length (bp_options resp) = 16" "length (bp_hashes resp) = 64"
    "list_all hash_row_ok (take (nat (bp_hash_count resp)) (bp_hashes resp))" "0 \<le> bp_option_count resp"
    by (simp_all add: response_ok_def)
  show ?thesis
    using c(3,4) o(2,3,5) csv_pad [OF assms]
    by (cases "bp_option_count resp = 0")
       (simp_all add: results_pairs_def sent_results_def response_copies [OF assms] response_numbers [OF assms]
        response_result_options response_rows list_all_take o(1,4) on_election_def bcl_response0_def election0_def put_all_pad
        BB_MAX_OPTIONS_def BB_MAX_VOTERS_def del: map_map)
qed

lemma fold_check:
  assumes "response_ok resp"
  shows "fold (\<lambda>(k, v). response_kv k v) (check_pairs resp) (answer_ctx (bcl_response0\<lparr>bp_status := st\<rparr>) 0 0) =
    answer_ctx (sent_check resp (bcl_response0\<lparr>bp_status := st\<rparr>)) 0 0"
  using response_numbers(5) [OF assms]
  by (cases "bp_found resp = 0")
     (simp_all add: check_pairs_def sent_check_def response_numbers [OF assms] response_copies [OF assms] bcl_response0_def)

lemma response0_simps:
  "bp_hash_count bcl_response0 = 0" "bp_option_count bcl_response0 = 0"
  "bp_election bcl_response0 = election0" "bp_receipt bcl_response0 = receipt0"
  "election0\<lparr>el_id := []\<rparr> = election0" "bcl_response0\<lparr>bp_election := election0\<rparr> = bcl_response0"
  "bcl_response0\<lparr>bp_status := st, bp_election := election0\<rparr> = bcl_response0\<lparr>bp_status := st\<rparr>"
  "receipt0\<lparr>rc_hash := rc_hash r, rc_issued_at := rc_issued_at r\<rparr> = r"
  by (simp_all add: bcl_response0_def election0_def receipt0_def)

lemma decode_sent_response:
  assumes "response_ok resp" "name_from_result (bp_status resp) = Some sname" "result_from_name sname = Some (bp_status resp)"
    "text_ok 319 sname"
  shows "bcl_decode_response \<lparr>rp_status = hst, rp_headers = hs, rp_body = lines_of ((''status'', sname) # response_pairs op resp)\<rparr> =
    (True, sent_response op resp)"
proof -
  let ?base = "bcl_response0\<lparr>bp_status := bp_status resp\<rparr>"
  from response_pairs_ok [OF assms(1), of op] assms(4) have ok: "list_all pair_ok ((''status'', sname) # response_pairs op resp)"
    by simp
  note bp = body_pairs_lines [OF ok]
  have st: "response_kv ''status'' sname \<lparr>rx_resp = bcl_response0, rx_row_i = 0, rx_result_opt_i = 0, rx_status_valid = False\<rparr> =
      answer_ctx ?base 0 0"
    using assms(3) by (simp add: response_kv_def)
  note folds = fold_join [OF assms(1)] fold_results [OF assms(1)] fold_check [OF assms(1)]
  have counts: "0 \<le> bp_option_count resp" "bp_option_count resp \<le> 16" "0 \<le> bp_hash_count resp"
    using assms(1) by (simp_all add: response_ok_def)
  have flat: "bp_hash_count (sent_join resp ?base) = 0" "bp_option_count (sent_join resp ?base) = 0"
    "bp_hash_count (sent_check resp ?base) = 0" "bp_option_count (sent_check resp ?base) = 0"
    by (simp_all add: sent_join_def sent_check_def bcl_response0_def Let_def)
  have "\<exists>n m. fold (\<lambda>(k, v). response_kv k v) (response_pairs op resp) (answer_ctx ?base 0 0) =
      answer_ctx (sent_response op resp) n m \<and> bp_hash_count (sent_response op resp) = int n \<and>
      0 \<le> bp_option_count (sent_response op resp) \<and> bp_option_count (sent_response op resp) \<le> 16"
    using counts flat
    by (cases op)
       (simp_all add: response_pairs_def sent_response_def Let_def folds response_copies [OF assms(1)] on_election_def
         on_receipt_def sent_results_def response0_simps)
  then show ?thesis
    unfolding bcl_decode_response_def body_for_each_def htttp_response.simps bp
    by (auto simp: st Let_def BB_MAX_OPTIONS_def)
qed

section \<open>Properties\<close>

text \<open>
  C14: a well-formed request is always encoded into a 16 KiB buffer, and what the daemon parses and
  decodes from those bytes is the request with exactly the fields of its operation.
\<close>

theorem request_crosses:
  assumes "request_ok req" "16384 \<le> cap"
  shows "\<exists>out h. bcl_encode_request req cap = Some out \<and> htttp_parse_request out = (HTTTP_OK, h) \<and>
    bcl_decode_request h = (True, sent_request req)"
  using encode_sent [OF assms] decode_sent [OF assms(1)] by blast

lemma config0_ok: "codec_config_ok config0"
  by (simp add: codec_config_ok_def config0_def BB_MAX_OPTIONS_def BB_MAX_VOTERS_def list_all_iff set_replicate_conv_if)

definition demo_cast :: bcl_request where
  "demo_cast = bcl_request0\<lparr>br_op := BCL_CAST, br_cert_name := ''alice'', br_election_id := ''E-100'',
     br_ballot := \<lparr>bal_cert_name = [], bal_nonce = ''n1'', bal_payload = [0x1f, 0xa0]\<rparr>\<rparr>"

lemma demo_cast_ok: "request_ok demo_cast"
  by (simp add: request_ok_def demo_cast_def bcl_request0_def config0_ok text_ok_def valid_field_def)

theorem request_crosses_witness:
  "\<exists>out h. bcl_encode_request demo_cast 65536 = Some out \<and> htttp_parse_request out = (HTTTP_OK, h) \<and>
    bcl_decode_request h = (True, demo_cast\<lparr>br_ballot :=
      \<lparr>bal_cert_name = ''alice'', bal_nonce = ''n1'', bal_payload = [0x1f, 0xa0]\<rparr>\<rparr>)"
proof -
  have "sent_request demo_cast = demo_cast\<lparr>br_ballot :=
      \<lparr>bal_cert_name = ''alice'', bal_nonce = ''n1'', bal_payload = [0x1f, 0xa0]\<rparr>\<rparr>"
    by (simp add: sent_request_def demo_cast_def bcl_request0_def)
  with request_crosses [OF demo_cast_ok, of 65536] show ?thesis by simp
qed

lemma encode_answer:
  assumes "response_ok resp" "tm_ok now" "16384 \<le> cap"
  shows "\<exists>out h. bcl_encode_response now op resp cap = Some out \<and> htttp_parse_response out = (HTTTP_OK, h) \<and>
    rp_status h = bcl_http_status (bp_status resp) \<and> bcl_decode_response h = (True, sent_response op resp)"
proof -
  from assms(1) obtain sname where sn: "name_from_result (bp_status resp) = Some sname"
    "result_from_name sname = Some (bp_status resp)" "text_ok 25 sname"
    using result_name by (auto simp: response_ok_def)
  then have sn': "text_ok 319 sname" "length sname \<le> 25" by (simp_all add: text_ok_def)
  let ?b = "lines_of ((''status'', sname) # response_pairs op resp)"
  let ?h = "\<lparr>rp_status = bcl_http_status (bp_status resp), rp_headers = [], rp_body = ?b\<rparr>"
  have len: "length ?b < 8192" using response_length [OF assms(1), of op] sn'(2) by simp
  have body: "append_all CODEC_BODY_MAX [] (kv ''status'' sname # response_chunks op resp) = Some ?b"
    using len response_chunks_lines [OF assms(1)] response_chunks_one_line [OF assms(1)] one_line_kv [OF _ sn'(1), of "''status''"]
    by (simp add: append_all_Some CODEC_BODY_MAX_def del: append_all.simps)
  have "length (int_str (bcl_http_status r)) \<le> 11" for r by (rule int_str_length) (cases r; simp)
  moreover have "htttp_reason (bcl_http_status r) \<noteq> None \<and> length (the (htttp_reason (bcl_http_status r))) \<le> 30" for r
    by (cases r) (simp_all add: htttp_reason_def)
  ultimately have reason: "htttp_reason (bcl_http_status r) \<noteq> None \<and> length (status_line (bcl_http_status r)) \<le> 60" for r
    using add_mono [of "length (int_str (bcl_http_status r))" 11 "length (the (htttp_reason (bcl_http_status r)))" 30]
    by (simp add: status_line_def HTTTP_VERSION_def)
  have d: "length (http_date now) < 48" using date_good(1) [OF assms(2)] by simp
  have kept: "kept True [] = []" by (simp add: kept_def)
  have "length (concat (map header_bytes (length_header ?b))) \<le> 28" by (rule length_header_length [OF len])
  then have "length (response_bytes now ?h) \<le> cap"
    using d len assms(3) reason [of "bp_status resp"]
    by (simp add: response_bytes_def tail_bytes_def kept header_bytes_def)
  then have ser: "htttp_serialize_response now ?h cap = Inr (response_bytes now ?h)"
    using d reason [of "bp_status resp"] by (simp add: serialize_response_spec kept)
  have fits: "response_fits ?h" using len by (simp add: response_fits_def kept htttp_lens) (simp add: length_header_def)
  note parsed = response_roundtrip [OF ser fits assms(2)]
  have "bcl_encode_response now op resp cap = Some (response_bytes now ?h)"
    unfolding bcl_encode_response_def sn(1) body option.case ser by simp
  with parsed decode_sent_response [OF assms(1) sn(1,2) sn'(1)] show ?thesis by (auto simp: kept)
qed

text \<open>
  C15: a well-formed response with any status but \<open>BB_ERR_RETRY\<close> always fits the 8 KiB body and a 16 KiB
  buffer, whatever the operation, and the client parses and decodes exactly the fields of that
  operation from it.
\<close>

theorem response_crosses:
  assumes "response_ok resp" "tm_ok now" "16384 \<le> cap"
  shows "\<exists>out h. bcl_encode_response now op resp cap = Some out \<and> htttp_parse_response out = (HTTTP_OK, h) \<and>
    rp_status h = bcl_http_status (bp_status resp) \<and> bcl_decode_response h = (True, sent_response op resp)"
  by (rule encode_answer [OF assms])

definition demo_found :: bcl_response where
  "demo_found = bcl_response0\<lparr>bp_found := 1, bp_found_option := 2, bp_found_option_name := ''yes''\<rparr>"

lemma demo_found_ok: "response_ok demo_found"
  by (simp add: response_ok_def demo_found_def bcl_response0_def election0_def receipt0_def text_ok_def
      BB_MAX_OPTIONS_def BB_MAX_VOTERS_def list_all_iff set_replicate_conv_if)

theorem response_crosses_witness:
  "\<exists>out h. bcl_encode_response \<lparr>tm_sec = 5, tm_min = 4, tm_hour = 3, tm_mday = 2, tm_mon = 0, tm_year = 126, tm_wday = 5\<rparr>
      BCL_CHECK demo_found 65536 = Some out \<and> htttp_parse_response out = (HTTTP_OK, h) \<and> rp_status h = 200 \<and>
    bcl_decode_response h = (True, demo_found)"
proof -
  have "sent_response BCL_CHECK demo_found = demo_found" "bp_status demo_found = BB_OK"
    by (simp_all add: sent_response_def sent_check_def demo_found_def bcl_response0_def)
  with response_crosses [OF demo_found_ok, of "\<lparr>tm_sec = 5, tm_min = 4, tm_hour = 3, tm_mday = 2, tm_mon = 0, tm_year = 126, tm_wday = 5\<rparr>"
    65536 BCL_CHECK] show ?thesis by (simp add: tm_ok_def)
qed


text \<open>
  A ballot payload of 160 to 256 bytes, which the structures and the encoder admit, is cut to an
  odd number of digits by the line reader, and the daemon rejects the ballot.
\<close>

theorem long_payload_rejected:
  assumes "request_ok (req\<lparr>br_ballot := (br_ballot req)\<lparr>bal_payload := []\<rparr>\<rparr>)" "16384 \<le> cap"
    "br_op req = BCL_CAST \<or> br_op req = BCL_UPDATE"
    "160 \<le> length (bal_payload (br_ballot req))" "length (bal_payload (br_ballot req)) \<le> 256"
  shows "\<exists>out h. bcl_encode_request req cap = Some out \<and> htttp_parse_request out = (HTTTP_OK, h) \<and>
    \<not> fst (bcl_decode_request h)"
proof -
  let ?n = "bal_nonce (br_ballot req)" and ?hex = "hex_digits (bal_payload (br_ballot req))"
  let ?b = "kv ''nonce'' ?n @ kv ''payload'' ?hex"
  from assms(1) have n: "text_ok 319 ?n" "length ?n \<le> 32" by (auto simp: request_ok_def text_ok_def)
  have len: "length ?b < 8192" using n(2) assms(5) by simp
  have "request_body req = Some ?b"
    using assms(3,5) n len one_line_kv [OF _ n(1), of "''nonce''"] one_line_kv [OF _ hex_digits_ok, of "''payload''"]
    by (auto simp: request_body_def ballot_body_def hex_encode_def BB_CIPHERTEXT_MAX_def CODEC_BODY_MAX_def body_append_def)
  from encode_with_body [OF assms(1,2) this len] obtain out m where e: "bcl_encode_request req cap = Some out"
    "method_from_op (br_op req) = Some m"
    "htttp_parse_request out = (HTTTP_OK, \<lparr>rq_method = m, rq_path = request_path req,
      rq_headers = cert_headers (br_cert_name req) @ length_header ?b, rq_body = ?b\<rparr>)" by blast
  have pairs: "body_pairs ?b = [(''nonce'', ?n), (''payload'', take 319 ?hex)]"
    using body_pairs_cut [OF _ hex_digits_ok, of "''payload''" _ "[]"] by (simp add: body_pairs_kv n(1))
  have "hex_decode (take 319 ?hex) k = (False, [])" for k
    using assms(4) by (simp add: hex_decode_def)
  then have "\<not> fst (decode_ballot ?b r)" for r
    by (simp add: decode_ballot_def body_for_each_def pairs ballot_kv_def Let_def)
  moreover have "op_from_method m = Some (br_op req)" using op_method_name [of "br_op req"] e(2) by auto
  ultimately have "\<not> fst (bcl_decode_request \<lparr>rq_method = m, rq_path = request_path req,
      rq_headers = cert_headers (br_cert_name req) @ length_header ?b, rq_body = ?b\<rparr>)"
    using assms(3) by (auto simp: bcl_decode_request_def Let_def split: option.splits)
  with e show ?thesis by blast
qed

theorem long_payload_rejected_witness:
  "\<exists>out h. bcl_encode_request (demo_cast\<lparr>br_ballot := (br_ballot demo_cast)\<lparr>bal_payload := replicate 160 7\<rparr>\<rparr>) 65536 = Some out \<and>
    htttp_parse_request out = (HTTTP_OK, h) \<and> \<not> fst (bcl_decode_request h)"
proof -
  have "request_ok (demo_cast\<lparr>br_ballot := (br_ballot demo_cast)\<lparr>bal_payload := []\<rparr>\<rparr>)"
    by (simp add: request_ok_def demo_cast_def bcl_request0_def config0_ok text_ok_def valid_field_def)
  then show ?thesis
    using long_payload_rejected [of "demo_cast\<lparr>br_ballot := (br_ballot demo_cast)\<lparr>bal_payload := replicate 160 7\<rparr>\<rparr>" 65536]
    by (simp add: demo_cast_def)
qed

lemma tally_loop_length [simp]: "length (tally_loop i p t) = length t"
proof (induction i p t rule: tally_loop.induct)
  case (1 i p t)
  then show ?case by (subst tally_loop.simps) auto
qed

definition resp_inv :: "resp_ctx \<Rightarrow> bool" where
  "resp_inv c \<longleftrightarrow> rx_row_i c \<le> 64 \<and> rx_result_opt_i c \<le> 16 \<and> length (bp_hashes (rx_resp c)) = 64 \<and>
     length (bp_tally (rx_resp c)) = 16 \<and> length (bp_options (rx_resp c)) = 16 \<and>
     length (el_options (bp_election (rx_resp c))) = 16 \<and>
     0 \<le> el_option_count (bp_election (rx_resp c)) \<and> el_option_count (bp_election (rx_resp c)) \<le> 16"

lemma response_kv_inv: "resp_inv c \<Longrightarrow> resp_inv (response_kv k v c)"
  unfolding response_kv_def Let_def
  by (simp add: resp_inv_def on_election_def on_receipt_def BB_MAX_OPTIONS_def BB_MAX_VOTERS_def split: option.split)

lemma response_fold_inv: "resp_inv c \<Longrightarrow> resp_inv (body_for_each response_kv body c)"
  unfolding body_for_each_def
  by (rule fold_invariant [where Q = "\<lambda>_. True" and P = resp_inv]) (auto simp: response_kv_inv)

text \<open>
  The counts a client reads out of a decoded response never exceed what the arrays behind them
  hold, whatever bytes the daemon sent.
\<close>

theorem decoded_counts_bounded:
  "let r = snd (bcl_decode_response h)
   in 0 \<le> bp_hash_count r \<and> nat (bp_hash_count r) \<le> length (bp_hashes r) \<and>
      0 \<le> bp_option_count r \<and> nat (bp_option_count r) \<le> length (bp_tally r) \<and> nat (bp_option_count r) \<le> length (bp_options r) \<and>
      0 \<le> el_option_count (bp_election r) \<and> nat (el_option_count (bp_election r)) \<le> length (el_options (bp_election r))"
proof -
  let ?c = "body_for_each response_kv (rp_body h)
    \<lparr>rx_resp = bcl_response0, rx_row_i = 0, rx_result_opt_i = 0, rx_status_valid = False\<rparr>"
  have "resp_inv ?c"
    by (rule response_fold_inv) (simp add: resp_inv_def bcl_response0_def election0_def BB_MAX_OPTIONS_def BB_MAX_VOTERS_def)
  then show ?thesis
    by (auto simp: resp_inv_def bcl_decode_response_def Let_def BB_MAX_OPTIONS_def)
qed

end
