(* ===== verification/Brain_Crypto.thy ===== *)
theory Brain_Crypto
  imports Brain_Spec
begin

text \<open>
  The crypto seam of \<^verbatim>\<open>src/src/libballotbrain/crypto.c\<close>: certificate check, ballot decryption
  and receipts, all placeholders in the source. Arithmetic on \<^verbatim>\<open>unsigned int\<close> is arithmetic on
  32-bit words. The lemmas give the shape of a receipt and bound the number of distinct ones.
\<close>

unbundle bit_operations_syntax

definition hex_digit :: "32 word \<Rightarrow> char" where
  "hex_digit i = ''0123456789abcdef'' ! unat i"

fun hash_digits :: "nat \<Rightarrow> 32 word \<Rightarrow> string" where
  "hash_digits 0 state = []"
| "hash_digits (Suc n) state =
     (let state' = state * 1103515245 + 12345
      in hex_digit (drop_bit 16 state' AND 0xF) # hash_digits n state')"

definition hash_from_seed :: "32 word \<Rightarrow> string" where
  "hash_from_seed seed = hash_digits (BB_HASH_LEN - 1) (seed * 2654435761 + 1)"

definition fold_name :: "string \<Rightarrow> 32 word" where
  "fold_name s = foldl (\<lambda>h c. h * 33 + of_char c) 5381 s"

definition bb_verify_cert :: "'w seam \<Rightarrow> string \<Rightarrow> ('w, bb_cert_status) state" where
  "bb_verify_cert K cert_name =
     (if cert_name = [] then State_Monad.return BB_CERT_INVALID
      else do {
        _ \<leftarrow> sm_log K (''[cert] verify '' @ [SQ] @ cert_name @ [SQ] @ '' (placeholder -> VALID)'');
        State_Monad.return BB_CERT_VALID
      })"

definition bb_decrypt_ballot :: "'w seam \<Rightarrow> bb_ballot \<Rightarrow> ('w, bb_result \<times> int) state" where
  "bb_decrypt_ballot K ballot = do {
     _ \<leftarrow> sm_log K (''[crypto] decrypt ballot (placeholder, nonce='' @ bal_nonce ballot @ '')'');
     State_Monad.return (BB_OK, case bal_payload ballot of [] \<Rightarrow> 0 | b # _ \<Rightarrow> uint b)
   }"

definition receipt_of :: "string \<Rightarrow> int \<Rightarrow> bb_receipt" where
  "receipt_of nonce version =
     \<lparr>rc_hash = hash_from_seed (fold_name nonce XOR (word_of_int version * 2246822519)),
      rc_issued_at = ''1970-01-01T00:00:00Z''\<rparr>"

definition bb_issue_receipt :: "'w seam \<Rightarrow> bb_ballot \<Rightarrow> int \<Rightarrow> ('w, bb_result \<times> bb_receipt) state" where
  "bb_issue_receipt K ballot version = do {
     let out = receipt_of (bal_nonce ballot) version;
     _ \<leftarrow> sm_log K (''[crypto] issue receipt v'' @ int_str version @ '' -> '' @ rc_hash out @ '' (placeholder)'');
     State_Monad.return (BB_OK, out)
   }"

section \<open>The shape of a receipt\<close>

lemma nibble_take: "w AND (0xF :: 32 word) = take_bit 4 w"
  by (simp add: take_bit_eq_mask mask_eq_exp_minus_1)

lemma unat_take_bit: "unat (take_bit n w) = unat (w :: 32 word) mod 2 ^ n"
  unfolding unsigned_take_bit_eq by (simp add: take_bit_eq_mod)

lemma nibble_bound: "unat (w AND (0xF :: 32 word)) < 16"
  by (simp add: nibble_take unat_take_bit)

lemma hex_digit_in: "unat i < 16 \<Longrightarrow> hex_digit i \<in> set ''0123456789abcdef''"
  unfolding hex_digit_def by (rule nth_mem) simp

lemma hash_digits_length [simp]: "length (hash_digits n st) = n"
  by (induction n arbitrary: st) (simp_all add: Let_def)

lemma hash_digits_hex: "set (hash_digits n st) \<subseteq> set ''0123456789abcdef''"
proof (induction n arbitrary: st)
  case (Suc n)
  then show ?case using hex_digit_in [OF nibble_bound] by (simp only: hash_digits.simps Let_def set_simps insert_subset)
qed simp

lemma hash_from_seed_length [simp]: "length (hash_from_seed s) = 64"
  by (simp add: hash_from_seed_def BB_HASH_LEN_def)

lemma hash_from_seed_lead: "lead 64 (hash_from_seed s)"
proof -
  let ?h = "hash_from_seed s"
  have hex: "set ?h \<subseteq> set ''0123456789abcdef''" unfolding hash_from_seed_def by (rule hash_digits_hex)
  have "list_all clean_char ''0123456789abcdef''" by (simp add: clean_char_def)
  with hex have clean: "list_all clean_char ?h" by (auto simp only: list_all_iff)
  obtain c cs where c: "?h = c # cs" by (cases ?h) (use hash_from_seed_length [of s] in simp_all)
  with hex have "c \<noteq> CHR ''<''" "c \<noteq> CHR ''I''" "c \<noteq> CHR ''C''" by auto
  with c clean show ?thesis
    using hash_from_seed_length [of s] by (simp add: lead_def fits_def DB_MARK_END_def error_line_def)
qed

lemma receipt_hash [simp]: "rc_hash (receipt_of n v) = hash_from_seed (fold_name n XOR (word_of_int v * 2246822519))"
  by (simp add: receipt_of_def)

section \<open>How many receipts there are\<close>

text \<open>Only the low twenty bits of the generator's state reach a digit.\<close>

lemma take_bit_step:
  assumes "take_bit 20 a = take_bit 20 (b :: 32 word)"
  shows "take_bit 20 (a * c + d) = take_bit 20 (b * c + d)"
proof -
  have low: "unat (x * c + d) mod 2 ^ 20 = (unat x mod 2 ^ 20 * unat c + unat d) mod 2 ^ 20" for x
  proof -
    have "unat (x * c + d) mod 2 ^ 20 = (unat x * unat c + unat d) mod 2 ^ 20"
      by (simp add: unat_word_ariths mod_mod_cancel mod_add_left_eq)
    then show ?thesis by (metis mod_add_left_eq mod_mult_left_eq)
  qed
  have "unat a mod 2 ^ 20 = unat b mod 2 ^ 20" using assms unat_take_bit by metis
  then have "unat (take_bit 20 (a * c + d)) = unat (take_bit 20 (b * c + d))"
    unfolding unat_take_bit low by simp
  then show ?thesis by (rule unsigned_word_eqI)
qed

lemma nibble_low: "drop_bit 16 w AND 0xF = drop_bit 16 (take_bit 20 (w :: 32 word))"
  by (simp add: nibble_take drop_bit_take_bit)

lemma hash_digits_low: "take_bit 20 a = take_bit 20 b \<Longrightarrow> hash_digits n a = hash_digits n b"
proof (induction n arbitrary: a b)
  case (Suc n)
  have s: "take_bit 20 (a * 1103515245 + 12345) = take_bit 20 (b * 1103515245 + 12345)"
    using Suc.prems by (rule take_bit_step)
  then show ?case by (simp only: hash_digits.simps Let_def nibble_low Suc.IH [OF s])
qed simp

lemma hash_from_seed_low: "take_bit 20 a = take_bit 20 b \<Longrightarrow> hash_from_seed a = hash_from_seed b"
  unfolding hash_from_seed_def by (rule hash_digits_low, rule take_bit_step)

lemma hash_from_seed_count: "card (range hash_from_seed) \<le> 2 ^ 20"
proof -
  have "range hash_from_seed \<subseteq> (\<lambda>n. hash_from_seed (word_of_nat n)) ` {..<2 ^ 20}"
  proof (rule image_subsetI)
    fix s :: "32 word"
    have "hash_from_seed s = hash_from_seed (take_bit 20 s)" by (rule hash_from_seed_low) simp
    moreover have "take_bit 20 s = word_of_nat (unat (take_bit 20 s))" by simp
    moreover have "unat (take_bit 20 s) < 2 ^ 20" by (simp add: unat_take_bit)
    ultimately show "hash_from_seed s \<in> (\<lambda>n. hash_from_seed (word_of_nat n)) ` {..<2 ^ 20}"
      by (metis imageI lessThan_iff)
  qed
  then have "card (range hash_from_seed) \<le> card ((\<lambda>n. hash_from_seed (word_of_nat n)) ` {..<2 ^ 20 :: nat})"
    by (intro card_mono) auto
  also have "\<dots> \<le> card {..<2 ^ 20 :: nat}" by (rule card_image_le) simp
  finally show ?thesis by simp
qed

section \<open>Properties\<close>

text \<open>
  C13: the receipt hash has far fewer values than its 64 hexadecimal digits suggest: each digit
  depends on 20 bits of the 32-bit seed only, so at most \<open>2 ^ 20\<close> different hashes exist.
\<close>

theorem receipt_hash_space: "card (range hash_from_seed) \<le> 2 ^ 20"
  by (rule hash_from_seed_count)

end
