(* ===== verification/Brain.thy ===== *)
theory Brain
  imports Brain_Crypto
begin

text \<open>
  The request handlers of \<^verbatim>\<open>src/src/libballotbrain/handlers.c\<close> and the lifecycle of
  \<^verbatim>\<open>lifecycle.c\<close>, over an arbitrary storage seam \<open>K\<close>. A pointer the code writes through is an
  argument with the old contents and a component of the result with the new ones; pointers are
  not NULL, except a missing \<^verbatim>\<open>desired_id\<close>, which is the empty string.
\<close>

section \<open>Reading an election\<close>

definition id_cmd :: "bb_db_op \<Rightarrow> string \<Rightarrow> bb_db_cmd" where
  "id_cmd op election_id = (cmd0 op)\<lparr>cmd_election_id := snprintf_s BB_ID_LEN election_id\<rparr>"

definition load_election :: "'w seam \<Rightarrow> string \<Rightarrow> ('w, bb_result \<times> bb_election) state" where
  "load_election K election_id = do {
     (r, res) \<leftarrow> sm_exec K (id_cmd BB_DB_GET_ELECTION election_id);
     if r \<noteq> BB_OK then State_Monad.return (r, election0)
     else if \<not> out_found res then State_Monad.return (BB_ERR_NOT_FOUND, election0)
     else State_Monad.return (BB_OK, out_election res)
   }"

section \<open>Creating an election\<close>

definition insert_cmd :: "string \<Rightarrow> bb_config \<Rightarrow> bb_db_cmd" where
  "insert_cmd ident config = (id_cmd BB_DB_INSERT_ELECTION ident)\<lparr>cmd_config := Some config\<rparr>"

definition store_election :: "'w seam \<Rightarrow> bb_config \<Rightarrow> string \<Rightarrow> string \<Rightarrow> ('w, bb_result \<times> string) state" where
  "store_election K config ident out_id = do {
     (dr, _) \<leftarrow> sm_exec K (insert_cmd ident config);
     if dr \<noteq> BB_OK then State_Monad.return (dr, out_id)
     else State_Monad.return (BB_OK, snprintf_s BB_ID_LEN ident)
   }"

definition bb_create_election ::
    "'w seam \<Rightarrow> bb_config \<Rightarrow> string \<Rightarrow> string \<Rightarrow> ('w, bb_result \<times> string) state" where
  "bb_create_election K config desired_id out_id =
     (let vr = bb_validate_config config
      in if vr \<noteq> BB_OK then do {
           _ \<leftarrow> sm_log K (''[create] rejected config (err='' @ int_str (bb_result_code vr) @ '')'');
           State_Monad.return (vr, out_id)
         }
         else if desired_id \<noteq> [] then do {
           (er, _) \<leftarrow> load_election K desired_id;
           if er = BB_OK then do {
             _ \<leftarrow> sm_log K (''[create] rejected: id '' @ [SQ] @ desired_id @ [SQ] @ '' already exists'');
             State_Monad.return (BB_ERR_CONFIG_ID_TAKEN, out_id)
           }
           else if er \<noteq> BB_ERR_NOT_FOUND then State_Monad.return (er, out_id)
           else store_election K config (snprintf_s BB_ID_LEN desired_id) out_id
         }
         else do {
           ident \<leftarrow> sm_alloc_id K;
           store_election K config ident out_id
         })"

section \<open>Joining\<close>

fun log_lines :: "'w seam \<Rightarrow> string list \<Rightarrow> ('w, unit) state" where
  "log_lines K [] = State_Monad.return ()"
| "log_lines K (l # ls) = do { _ \<leftarrow> sm_log K l; log_lines K ls }"

text \<open>The lines logged when a certificate is not on the list; \<open>tag\<close> is \<^verbatim>\<open>join\<close> or \<^verbatim>\<open>cast\<close>.\<close>

definition refusal_lines :: "string \<Rightarrow> string \<Rightarrow> string \<Rightarrow> bb_election \<Rightarrow> string list" where
  "refusal_lines tag election_id cert_name election =
     (''['' @ tag @ ''] '' @ [SQ] @ election_id @ [SQ] @ '': cert ['' @ cert_name @ ''] not on the '' @
      int_str (el_eligible_count election) @ ''-entry eligible list'') #
     map (\<lambda>i. ''['' @ tag @ '']   eligible['' @ int_str (int i) @ ''] = ['' @ el_eligible election ! i @ '']'')
       [0..<nat (el_eligible_count election)]"

definition prior_cmd :: "string \<Rightarrow> string \<Rightarrow> bb_db_cmd" where
  "prior_cmd election_id cert_name =
     (id_cmd BB_DB_GET_PRIOR_BALLOT election_id)\<lparr>cmd_cert_name := snprintf_s BB_CERT_LEN cert_name\<rparr>"

record join_out =
  jo_election :: bb_election
  jo_has_ballot :: bool
  jo_version :: int

text \<open>The rest of \<^verbatim>\<open>bb_join\<close> once the election is read and the certificate verified.\<close>

definition join_election ::
    "'w seam \<Rightarrow> string \<Rightarrow> string \<Rightarrow> bb_election \<Rightarrow> join_out \<Rightarrow> ('w, bb_result \<times> join_out) state" where
  "join_election K election_id cert_name election out =
     (if \<not> bb_check_eligibility election cert_name then do {
        _ \<leftarrow> log_lines K (refusal_lines ''join'' election_id cert_name election);
        State_Monad.return (BB_ERR_NOT_ELIGIBLE, out)
      }
      else if el_state election \<noteq> BB_STATE_OPEN then do {
        _ \<leftarrow> sm_log K (''[join] '' @ [SQ] @ election_id @ [SQ] @ '' is '' @ bb_state_str (el_state election) @
                       '', not OPEN'');
        State_Monad.return (BB_ERR_NOT_OPEN, out)
      }
      else do {
        (pr, prior_res) \<leftarrow> sm_exec K (prior_cmd election_id cert_name);
        if pr \<noteq> BB_OK then State_Monad.return (pr, out\<lparr>jo_election := election\<rparr>)
        else State_Monad.return (BB_OK, out\<lparr>jo_election := election,
          jo_has_ballot := out_found prior_res,
          jo_version := (if out_found prior_res then bh_version (out_row prior_res) else 0)\<rparr>)
      })"

definition bb_join :: "'w seam \<Rightarrow> string \<Rightarrow> string \<Rightarrow> join_out \<Rightarrow> ('w, bb_result \<times> join_out) state" where
  "bb_join K election_id cert_name out = do {
     (r, election) \<leftarrow> load_election K election_id;
     if r \<noteq> BB_OK then State_Monad.return (r, out)
     else do {
       cert \<leftarrow> bb_verify_cert K cert_name;
       if cert = BB_CERT_INVALID then State_Monad.return (BB_ERR_CERT_INVALID, out)
       else if cert = BB_CERT_EXPIRED then State_Monad.return (BB_ERR_CERT_EXPIRED, out)
       else if cert \<noteq> BB_CERT_VALID then State_Monad.return (BB_ERR_NOT_ELIGIBLE, out)
       else join_election K election_id cert_name election out
     }
   }"

section \<open>Recording a ballot\<close>

definition seen_cmd :: "string \<Rightarrow> string \<Rightarrow> bb_db_cmd" where
  "seen_cmd election_id nonce = (id_cmd BB_DB_NONCE_SEEN election_id)\<lparr>cmd_nonce := snprintf_s BB_NONCE_LEN nonce\<rparr>"

definition append_cmd :: "string \<Rightarrow> bb_ballot_hash \<Rightarrow> bb_db_cmd" where
  "append_cmd election_id row = (id_cmd BB_DB_APPEND_BALLOT election_id)\<lparr>cmd_hash_row := Some row\<rparr>"

definition mark_cmd :: "string \<Rightarrow> string \<Rightarrow> bb_db_cmd" where
  "mark_cmd election_id hash = (id_cmd BB_DB_MARK_SUPERSEDED election_id)\<lparr>cmd_hash := snprintf_s BB_HASH_LEN hash\<rparr>"

definition owner_cmd :: "string \<Rightarrow> string \<Rightarrow> string \<Rightarrow> int \<Rightarrow> bb_db_cmd" where
  "owner_cmd election_id cert_name hash version =
     (id_cmd BB_DB_SET_OWNER election_id)\<lparr>cmd_cert_name := snprintf_s BB_CERT_LEN cert_name,
        cmd_hash := snprintf_s BB_HASH_LEN hash, cmd_version := version\<rparr>"

definition consume_cmd :: "string \<Rightarrow> string \<Rightarrow> bb_db_cmd" where
  "consume_cmd election_id nonce =
     (id_cmd BB_DB_NONCE_MARK election_id)\<lparr>cmd_nonce := snprintf_s BB_NONCE_LEN nonce\<rparr>"

text \<open>The writes of \<^verbatim>\<open>record_ballot_locked\<close>, from the receipt on.\<close>

definition hash_row :: "string \<Rightarrow> int \<Rightarrow> int \<Rightarrow> bb_ballot_hash" where
  "hash_row hash option_index version =
     \<lparr>bh_hash = snprintf_s BB_HASH_LEN hash, bh_option_index = option_index, bh_version = version,
      bh_superseded = 0\<rparr>"

definition write_ballot ::
    "'w seam \<Rightarrow> string \<Rightarrow> bb_ballot \<Rightarrow> int \<Rightarrow> bb_db_result \<Rightarrow> bb_receipt \<Rightarrow> ('w, bb_result \<times> bb_receipt) state" where
  "write_ballot K election_id ballot option_index prior_res out = do {
     let version = (if out_found prior_res then wrap32 (bh_version (out_row prior_res) + 1) else 1);
     (rr, rcpt) \<leftarrow> bb_issue_receipt K ballot version;
     if rr \<noteq> BB_OK then State_Monad.return (rr, out)
     else do {
       (ar, _) \<leftarrow> sm_exec K (append_cmd election_id (hash_row (rc_hash rcpt) option_index version));
       if ar \<noteq> BB_OK then State_Monad.return (ar, rcpt)
       else do {
         (mr, _) \<leftarrow> (if out_found prior_res
                     then sm_exec K (mark_cmd election_id (bh_hash (out_row prior_res)))
                     else State_Monad.return (BB_OK, result0));
         if mr \<noteq> BB_OK then State_Monad.return (mr, rcpt)
         else do {
           (owner_r, _) \<leftarrow> sm_exec K (owner_cmd election_id (bal_cert_name ballot) (rc_hash rcpt) version);
           if owner_r \<noteq> BB_OK then State_Monad.return (owner_r, rcpt)
           else do {
             (cr, _) \<leftarrow> sm_exec K (consume_cmd election_id (bal_nonce ballot));
             State_Monad.return (cr, rcpt)
           }
         }
       }
     }
   }"

text \<open>The anti-replay check and the look at the prior ballot, before the writes.\<close>

definition check_nonce ::
    "'w seam \<Rightarrow> string \<Rightarrow> bb_ballot \<Rightarrow> int \<Rightarrow> bb_receipt \<Rightarrow> ('w, bb_result \<times> bb_receipt) state" where
  "check_nonce K election_id ballot option_index out = do {
     (sr, seen_res) \<leftarrow> sm_exec K (seen_cmd election_id (bal_nonce ballot));
     if sr \<noteq> BB_OK then State_Monad.return (sr, out)
     else if out_found seen_res then State_Monad.return (BB_ERR_REPLAY, out)
     else do {
       (pr, prior_res) \<leftarrow> sm_exec K (prior_cmd election_id (bal_cert_name ballot));
       if pr \<noteq> BB_OK then State_Monad.return (pr, out)
       else write_ballot K election_id ballot option_index prior_res out
     }
   }"

text \<open>The checks against the election that was read: state, eligibility and option.\<close>

definition check_ballot ::
    "'w seam \<Rightarrow> string \<Rightarrow> bb_ballot \<Rightarrow> bb_election \<Rightarrow> bb_receipt \<Rightarrow> ('w, bb_result \<times> bb_receipt) state" where
  "check_ballot K election_id ballot election out =
     (if el_state election = BB_STATE_CLOSED \<or> el_state election = BB_STATE_PUBLISHED
      then State_Monad.return (BB_ERR_CLOSED, out)
      else if el_state election \<noteq> BB_STATE_OPEN then State_Monad.return (BB_ERR_NOT_OPEN, out)
      else if \<not> bb_check_eligibility election (bal_cert_name ballot) then do {
        _ \<leftarrow> log_lines K (refusal_lines ''cast'' election_id (bal_cert_name ballot) election);
        State_Monad.return (BB_ERR_NOT_ELIGIBLE, out)
      }
      else do {
        (cr, option_index) \<leftarrow> bb_decrypt_ballot K ballot;
        if cr \<noteq> BB_OK then State_Monad.return (cr, out)
        else if option_index < 0 \<or> el_option_count election \<le> option_index
        then State_Monad.return (BB_ERR_BAD_OPTION, out)
        else check_nonce K election_id ballot option_index out
      })"

definition record_ballot_locked ::
    "'w seam \<Rightarrow> string \<Rightarrow> bb_ballot \<Rightarrow> bb_receipt \<Rightarrow> ('w, bb_result \<times> bb_receipt) state" where
  "record_ballot_locked K election_id ballot out = do {
     (r, election) \<leftarrow> load_election K election_id;
     if r \<noteq> BB_OK then State_Monad.return (r, out)
     else check_ballot K election_id ballot election out
   }"

definition BB_TXN_ATTEMPTS :: nat where "BB_TXN_ATTEMPTS = 3"

text \<open>The loop of \<^verbatim>\<open>bb_record_ballot\<close>; \<open>r\<close> is the result of the last round.\<close>

fun record_attempts ::
    "'w seam \<Rightarrow> string \<Rightarrow> bb_ballot \<Rightarrow> nat \<Rightarrow> bb_result \<Rightarrow> bb_receipt \<Rightarrow> ('w, bb_result \<times> bb_receipt) state" where
  "record_attempts K election_id ballot 0 r out = State_Monad.return (r, out)"
| "record_attempts K election_id ballot (Suc n) r out = do {
     br \<leftarrow> sm_begin K;
     if br \<noteq> BB_OK then State_Monad.return (br, out)
     else do {
       (r, out) \<leftarrow> record_ballot_locked K election_id ballot out;
       if r = BB_ERR_RETRY then do {
         _ \<leftarrow> sm_rollback K;
         record_attempts K election_id ballot n r out
       }
       else if r \<noteq> BB_OK then do {
         _ \<leftarrow> sm_rollback K;
         State_Monad.return (r, out)
       }
       else do {
         r \<leftarrow> sm_commit K;
         if r = BB_ERR_RETRY then record_attempts K election_id ballot n r out
         else State_Monad.return (r, out)
       }
     }
   }"

definition bb_record_ballot ::
    "'w seam \<Rightarrow> string \<Rightarrow> bb_ballot \<Rightarrow> bb_receipt \<Rightarrow> ('w, bb_result \<times> bb_receipt) state" where
  "bb_record_ballot K election_id ballot out =
     record_attempts K election_id ballot BB_TXN_ATTEMPTS BB_ERR_DB out"

section \<open>Lifecycle\<close>

definition state_cmd :: "string \<Rightarrow> bb_state \<Rightarrow> bb_db_cmd" where
  "state_cmd election_id to_st = (id_cmd BB_DB_UPDATE_STATE election_id)\<lparr>cmd_new_state := to_st\<rparr>"

definition bb_transition_state :: "'w seam \<Rightarrow> string \<Rightarrow> bb_state \<Rightarrow> ('w, bb_result) state" where
  "bb_transition_state K election_id to_st = do {
     (gr, res) \<leftarrow> sm_exec K (id_cmd BB_DB_GET_ELECTION election_id);
     if gr \<noteq> BB_OK then State_Monad.return gr
     else if \<not> out_found res then State_Monad.return BB_ERR_NOT_FOUND
     else if \<not> bb_is_legal_transition (el_state (out_election res)) to_st then do {
       _ \<leftarrow> sm_log K (''[lifecycle] reject '' @ bb_state_str (el_state (out_election res)) @ '' -> '' @
                      bb_state_str to_st @ '' on '' @ [SQ] @ election_id @ [SQ]);
       State_Monad.return BB_ERR_ILLEGAL_TRANSITION
     }
     else do {
       (r, _) \<leftarrow> sm_exec K (state_cmd election_id to_st);
       State_Monad.return r
     }
   }"

definition bb_publish_results :: "'w seam \<Rightarrow> string \<Rightarrow> ('w, bb_result) state" where
  "bb_publish_results K election_id = bb_transition_state K election_id BB_STATE_PUBLISHED"

section \<open>Results and receipts\<close>

text \<open>The two copy loops of \<^verbatim>\<open>fetch_results\<close>, over arrays of full length.\<close>

definition fill_results :: "bb_election \<Rightarrow> bb_db_result \<Rightarrow> bb_db_result \<Rightarrow> bb_results" where
  "fill_results election tally_res hash_res =
     (let n = min (nat (el_option_count election)) BB_MAX_OPTIONS;
          hc = (if out_hash_count hash_res < int BB_MAX_VOTERS then out_hash_count hash_res else int BB_MAX_VOTERS)
      in results0\<lparr>
        rs_title := snprintf_s BB_TITLE_LEN (el_title election),
        rs_option_count := el_option_count election,
        rs_tally := map (\<lambda>i. if i < n then out_tally tally_res ! i else 0) [0..<BB_MAX_OPTIONS],
        rs_options := map (\<lambda>i. if i < n then snprintf_s BB_OPTION_LEN (el_options election ! i) else [])
          [0..<BB_MAX_OPTIONS],
        rs_hash_count := hc,
        rs_hashes := map (\<lambda>i. if i < nat hc then out_hashes hash_res ! i else hash0) [0..<BB_MAX_VOTERS]\<rparr>)"

definition fetch_results :: "'w seam \<Rightarrow> string \<Rightarrow> bb_election \<Rightarrow> bb_results \<Rightarrow> ('w, bb_result \<times> bb_results) state" where
  "fetch_results K election_id election out = do {
     (tr, tally_res) \<leftarrow> sm_exec K (id_cmd BB_DB_GET_TALLY election_id);
     if tr \<noteq> BB_OK then State_Monad.return (tr, out)
     else do {
       (hr, hash_res) \<leftarrow> sm_exec K (id_cmd BB_DB_GET_HASHES election_id);
       if hr \<noteq> BB_OK then State_Monad.return (hr, out)
       else State_Monad.return (BB_OK, fill_results election tally_res hash_res)
     }
   }"

definition bb_get_results :: "'w seam \<Rightarrow> string \<Rightarrow> string \<Rightarrow> bb_results \<Rightarrow> ('w, bb_result \<times> bb_results) state" where
  "bb_get_results K election_id cert_name out = do {
     (r, election) \<leftarrow> load_election K election_id;
     if r \<noteq> BB_OK then State_Monad.return (r, out)
     else if el_state election \<noteq> BB_STATE_PUBLISHED then State_Monad.return (BB_ERR_NOT_PUBLISHED, out)
     else if \<not> bb_check_eligibility election cert_name then State_Monad.return (BB_ERR_NOT_ELIGIBLE, out)
     else fetch_results K election_id election out
   }"

definition bb_get_results_admin :: "'w seam \<Rightarrow> string \<Rightarrow> bb_results \<Rightarrow> ('w, bb_result \<times> bb_results) state" where
  "bb_get_results_admin K election_id out = do {
     (r, election) \<leftarrow> load_election K election_id;
     if r \<noteq> BB_OK then State_Monad.return (r, out)
     else if el_state election \<noteq> BB_STATE_PUBLISHED then State_Monad.return (BB_ERR_NOT_PUBLISHED, out)
     else fetch_results K election_id election out
   }"

definition find_cmd :: "string \<Rightarrow> string \<Rightarrow> bb_db_cmd" where
  "find_cmd election_id hash = (id_cmd BB_DB_FIND_HASH election_id)\<lparr>cmd_hash := snprintf_s BB_HASH_LEN hash\<rparr>"

definition bb_lookup_hash ::
    "'w seam \<Rightarrow> string \<Rightarrow> string \<Rightarrow> bb_ballot_hash \<times> string \<Rightarrow> ('w, bb_result \<times> bb_ballot_hash \<times> string) state" where
  "bb_lookup_hash K election_id hash out = do {
     (er, election) \<leftarrow> load_election K election_id;
     if er \<noteq> BB_OK then State_Monad.return (er, out)
     else do {
       (r, res) \<leftarrow> sm_exec K (find_cmd election_id hash);
       if r \<noteq> BB_OK then State_Monad.return (r, out)
       else if \<not> out_found res then State_Monad.return (BB_ERR_NOT_FOUND, out)
       else State_Monad.return (BB_OK, out_row res,
              let idx = bh_option_index (out_row res)
              in if 0 \<le> idx \<and> idx < el_option_count election
                 then snprintf_s BB_OPTION_LEN (el_options election ! nat idx) else [])
     }
   }"

end
