(* ===== verification/Ballotd.thy ===== *)
theory Ballotd
  imports Codec Brain Tetrissh
begin

text \<open>
  The daemon of \<^verbatim>\<open>src/src/ballotd\<close>: routing a request to its handler (\<^verbatim>\<open>dispatch.c\<close>), the voter
  channel (\<^verbatim>\<open>session.c\<close>), the administrator's channel (\<^verbatim>\<open>control_plane.c\<close> with the framing of
  \<^verbatim>\<open>ctl_frame.h\<close>), the messages between the processes (\<^verbatim>\<open>adminmsg.h\<close>) and the thread that owns the
  storage (\<^verbatim>\<open>main.c\<close>). Reads and writes on a file descriptor are event lists as for the
  database stream; what \<^verbatim>\<open>poll\<close> reports is an argument of a pass.
\<close>

section \<open>Routing\<close>

definition results_resp :: "string \<Rightarrow> bb_results \<Rightarrow> bcl_response \<Rightarrow> bcl_response" where
  "results_resp election_id results resp =
     resp\<lparr>bp_election := (bp_election resp)\<lparr>el_id := snprintf_s BB_ID_LEN election_id,
                                        el_title := snprintf_s BB_TITLE_LEN (rs_title results)\<rparr>,
          bp_option_count := rs_option_count results, bp_tally := rs_tally results, bp_options := rs_options results,
          bp_hash_count := rs_hash_count results, bp_hashes := rs_hashes results\<rparr>"

definition ballotd_dispatch :: "'w seam \<Rightarrow> bcl_request \<Rightarrow> ('w, bcl_response) state" where
  "ballotd_dispatch K req =
     (let resp = bcl_response0
      in case br_op req of
           BCL_CREATE \<Rightarrow> do {
             (r, ident) \<leftarrow> bb_create_election K (br_config req) (br_election_id req) [];
             let resp = resp\<lparr>bp_status := r\<rparr>;
             State_Monad.return
               (if r = BB_OK then resp\<lparr>bp_election := (bp_election resp)\<lparr>el_id := snprintf_s BB_ID_LEN ident\<rparr>\<rparr> else resp)
           }
         | BCL_ADMIN_NEXT_ID \<Rightarrow> do {
             ident \<leftarrow> sm_alloc_id K;
             State_Monad.return (resp\<lparr>bp_election := (bp_election resp)\<lparr>el_id := snprintf_s BB_ID_LEN ident\<rparr>, bp_status := BB_OK\<rparr>)
           }
         | BCL_OPEN \<Rightarrow> do {
             r \<leftarrow> bb_transition_state K (br_election_id req) BB_STATE_OPEN;
             State_Monad.return (resp\<lparr>bp_status := r\<rparr>)
           }
         | BCL_CLOSE \<Rightarrow> do {
             r \<leftarrow> bb_transition_state K (br_election_id req) BB_STATE_CLOSED;
             State_Monad.return (resp\<lparr>bp_status := r\<rparr>)
           }
         | BCL_PUBLISH \<Rightarrow> do {
             r \<leftarrow> bb_publish_results K (br_election_id req);
             State_Monad.return (resp\<lparr>bp_status := r\<rparr>)
           }
         | BCL_JOIN \<Rightarrow> do {
             (r, out) \<leftarrow> bb_join K (br_election_id req) (br_cert_name req)
                           \<lparr>jo_election = bp_election resp, jo_has_ballot = False, jo_version = bp_prior_ballot_version resp\<rparr>;
             State_Monad.return (resp\<lparr>bp_status := r, bp_election := jo_election out,
               bp_has_prior_ballot := (if jo_has_ballot out then 1 else 0), bp_prior_ballot_version := jo_version out\<rparr>)
           }
         | BCL_CAST \<Rightarrow> do {
             (r, out) \<leftarrow> bb_record_ballot K (br_election_id req) (br_ballot req) (bp_receipt resp);
             State_Monad.return (resp\<lparr>bp_status := r, bp_receipt := out\<rparr>)
           }
         | BCL_UPDATE \<Rightarrow> do {
             (r, out) \<leftarrow> bb_record_ballot K (br_election_id req) (br_ballot req) (bp_receipt resp);
             State_Monad.return (resp\<lparr>bp_status := r, bp_receipt := out\<rparr>)
           }
         | BCL_RESULTS \<Rightarrow> do {
             (r, results) \<leftarrow> bb_get_results K (br_election_id req) (br_cert_name req) results0;
             let resp = resp\<lparr>bp_status := r\<rparr>;
             State_Monad.return (if r = BB_OK then results_resp (br_election_id req) results resp else resp)
           }
         | BCL_ADMIN_RESULTS \<Rightarrow> do {
             (r, results) \<leftarrow> bb_get_results_admin K (br_election_id req) results0;
             let resp = resp\<lparr>bp_status := r\<rparr>;
             State_Monad.return (if r = BB_OK then results_resp (br_election_id req) results resp else resp)
           }
         | _ \<Rightarrow> do {
             (r, row, name) \<leftarrow> bb_lookup_hash K (br_election_id req) (br_hash req) (hash0, bp_found_option_name resp);
             let resp = resp\<lparr>bp_status := r, bp_found_option_name := name, bp_found := (if r = BB_OK then 1 else 0)\<rparr>;
             State_Monad.return (if bp_found resp \<noteq> 0 then resp\<lparr>bp_found_option := bh_option_index row\<rparr> else resp)
           })"

section \<open>Messages on a stream\<close>

text \<open>The loops that move exactly \<open>len\<close> bytes. A read takes what is there, up to what is missing.\<close>

fun read_loop :: "nat \<Rightarrow> string \<Rightarrow> rd_event list \<Rightarrow> int \<times> string \<times> rd_event list" where
  "read_loop 0 got evs = (0, got, evs)"
| "read_loop (Suc n) got [] = (- 1, got, [])"
| "read_loop (Suc n) got (Again # evs) = read_loop (Suc n) got evs"
| "read_loop (Suc n) got (Data [] # evs) = (if got = [] then - 2 else - 1, got, evs)"
| "read_loop (Suc n) got (Data (c # cs) # evs) =
     (if length cs \<le> n then read_loop (n - length cs) (got @ c # cs) evs
      else (0, got @ c # take n cs, Data (drop n cs) # evs))"
| "read_loop (Suc n) got (Eof # evs) = (if got = [] then - 2 else - 1, got, evs)"
| "read_loop (Suc n) got (Broken # evs) = (- 1, got, evs)"
| "read_loop (Suc n) got (Late # evs) = (- 1, got, evs)"

definition ctl_read_all :: "nat \<Rightarrow> rd_event list \<Rightarrow> int \<times> string \<times> rd_event list" where
  "ctl_read_all len evs = read_loop len [] evs"

fun ctl_write_all :: "string \<Rightarrow> wr_event list \<Rightarrow> bool \<times> string \<times> wr_event list" where
  "ctl_write_all [] evs = (True, [], evs)"
| "ctl_write_all (b # bs) (WIntr # evs) = ctl_write_all (b # bs) evs"
| "ctl_write_all (b # bs) (Took (Suc n) # evs) =
     (case ctl_write_all (drop n bs) evs of (ok, sent, es) \<Rightarrow> (ok, b # take n bs @ sent, es))"
| "ctl_write_all (b # bs) evs = (False, [], tl evs)"

definition CTL_MAX_FRAME :: nat where "CTL_MAX_FRAME = 65536"
definition CTL_PREFIX_LEN :: nat where "CTL_PREFIX_LEN = 4"

unbundle bit_operations_syntax

definition frame_prefix :: "32 word \<Rightarrow> string" where
  "frame_prefix len = [to_byte (drop_bit 24 len), to_byte (drop_bit 16 len), to_byte (drop_bit 8 len), to_byte len]"

definition ctl_frame_write :: "string \<Rightarrow> wr_event list \<Rightarrow> bool \<times> string" where
  "ctl_frame_write buf evs =
     (case ctl_write_all (frame_prefix (word_of_nat (length buf))) evs of
        (ok, sent, evs) \<Rightarrow>
          if \<not> ok then (False, sent)
          else case ctl_write_all buf evs of (ok, sent', _) \<Rightarrow> (ok, sent @ sent'))"

definition prefix_val :: "string \<Rightarrow> 32 word" where
  "prefix_val p = (push_bit 24 (of_byte (p ! 0)) OR push_bit 16 (of_byte (p ! 1))) OR
     push_bit 8 (of_byte (p ! 2)) OR of_byte (p ! 3)"

definition ctl_frame_read :: "nat \<Rightarrow> rd_event list \<Rightarrow> int \<times> string" where
  "ctl_frame_read cap evs =
     (case ctl_read_all CTL_PREFIX_LEN evs of
        (rc, prefix, evs) \<Rightarrow>
          if rc \<noteq> 0 then (rc, [])
          else let n = unat (prefix_val prefix)
               in if n = 0 \<or> cap < n then (- 1, [])
                  else case ctl_read_all n evs of
                         (rc, buf, _) \<Rightarrow> if rc \<noteq> 0 then (- 1, []) else (0, buf))"

section \<open>The voter channel\<close>

definition session_reply_raw :: "tm \<Rightarrow> int \<Rightarrow> string option" where
  "session_reply_raw now status =
     (case htttp_serialize_response now \<lparr>rp_status = status, rp_headers = [], rp_body = []\<rparr> 512 of
        Inl _ \<Rightarrow> None | Inr out \<Rightarrow> Some out)"

definition is_voter_op :: "bcl_op \<Rightarrow> bool" where
  "is_voter_op op \<longleftrightarrow> op = BCL_JOIN \<or> op = BCL_CAST \<or> op = BCL_UPDATE \<or> op = BCL_RESULTS \<or> op = BCL_CHECK"

text \<open>
  One request on a session whose verified account is \<open>cert_name\<close>. \<open>admin\<close> is the exchange with
  the administrator thread, without a result when that thread is gone. The result is the
  frame sent back, if any.
\<close>

definition handle_request ::
    "tm \<Rightarrow> string \<Rightarrow> (bcl_request \<Rightarrow> ('w, bcl_response option) state) \<Rightarrow> string \<Rightarrow> ('w, string option) state" where
  "handle_request now cert_name admin buf =
     (case htttp_parse_request buf of (rc, http) \<Rightarrow>
        if rc \<noteq> HTTTP_OK then State_Monad.return (session_reply_raw now 400)
        else case bcl_decode_request http of (ok, req) \<Rightarrow>
          if \<not> ok then State_Monad.return (session_reply_raw now 400)
          else if \<not> is_voter_op (br_op req) then State_Monad.return (session_reply_raw now 400)
          else do {
            let req = req\<lparr>br_cert_name := snprintf_s BB_CERT_LEN cert_name,
                          br_ballot := (br_ballot req)\<lparr>bal_cert_name := snprintf_s BB_CERT_LEN cert_name\<rparr>\<rparr>;
            answer \<leftarrow> admin req;
            State_Monad.return (case answer of
              None \<Rightarrow> None
            | Some resp \<Rightarrow> bcl_encode_response now (br_op req) resp SESSION_MAX_FRAME)
          })"

text \<open>What \<^verbatim>\<open>session_recv\<close> delivers.\<close>

datatype recv = Received string | Session_Io | Session_Toobig | Session_Other

fun session_loop ::
    "tm \<Rightarrow> string \<Rightarrow> (bcl_request \<Rightarrow> ('w, bcl_response option) state) \<Rightarrow> recv list \<Rightarrow> ('w, string list) state" where
  "session_loop now cert admin [] = State_Monad.return []"
| "session_loop now cert admin (Received buf # rs) = do {
     sent \<leftarrow> handle_request now cert admin buf;
     more \<leftarrow> session_loop now cert admin rs;
     State_Monad.return ((case sent of None \<Rightarrow> [] | Some out \<Rightarrow> [out]) @ more)
   }"
| "session_loop now cert admin (Session_Io # rs) = State_Monad.return []"
| "session_loop now cert admin (Session_Toobig # rs) = State_Monad.return []"
| "session_loop now cert admin (Session_Other # rs) = session_loop now cert admin rs"

text \<open>
  The session process: the key loads or not, the handshake succeeds or not, and the
  authentication exchange ends with the name of an account or without one.
\<close>

definition session_main ::
    "tm \<Rightarrow> bool \<Rightarrow> bool \<Rightarrow> string option \<Rightarrow> (bcl_request \<Rightarrow> ('w, bcl_response option) state) \<Rightarrow> recv list \<Rightarrow>
     ('w, string list) state" where
  "session_main now key handshake account admin rs =
     (if \<not> key then State_Monad.return []
      else if \<not> handshake then State_Monad.return []
      else case account of
             None \<Rightarrow> State_Monad.return []
           | Some cert_name \<Rightarrow> session_loop now cert_name admin rs)"

section \<open>The administrator's channel\<close>

datatype ctl_act = Hang_Up | Raw_Reply int | Forward bcl_request

definition is_admin_op :: "bcl_op \<Rightarrow> bool" where
  "is_admin_op op \<longleftrightarrow> \<not> (op \<noteq> BCL_CREATE \<and> op \<noteq> BCL_OPEN \<and> op \<noteq> BCL_CLOSE \<and> op \<noteq> BCL_PUBLISH \<and>
     op \<noteq> BCL_ADMIN_RESULTS \<and> op \<noteq> BCL_ADMIN_CHECK \<and> op \<noteq> BCL_ADMIN_NEXT_ID)"

text \<open>\<open>queued\<close> tells whether the write to the administrator thread's pipe takes the whole message.\<close>

definition handle_conn :: "bool \<Rightarrow> rd_event list \<Rightarrow> ctl_act" where
  "handle_conn queued evs =
     (case ctl_frame_read CTL_MAX_FRAME evs of (rc, frame) \<Rightarrow>
        if rc \<noteq> 0 then Hang_Up
        else case htttp_parse_request frame of (prc, http) \<Rightarrow>
          if prc \<noteq> HTTTP_OK then Raw_Reply 400
          else case bcl_decode_request http of (ok, req) \<Rightarrow>
            if \<not> ok then Raw_Reply 400
            else if \<not> is_admin_op (br_op req) then Raw_Reply 400
            else if \<not> queued then Raw_Reply 500
            else Forward req)"

definition ctl_reply_raw :: "tm \<Rightarrow> int \<Rightarrow> wr_event list \<Rightarrow> string" where
  "ctl_reply_raw now status evs =
     (case htttp_serialize_response now \<lparr>rp_status = status, rp_headers = [], rp_body = []\<rparr> 512 of
        Inl _ \<Rightarrow> [] | Inr out \<Rightarrow> snd (ctl_frame_write out evs))"

text \<open>The bytes written to the administrator's connection for one forwarded request.\<close>

definition handle_ctl_req :: "'w seam \<Rightarrow> tm \<Rightarrow> bcl_request \<Rightarrow> wr_event list \<Rightarrow> ('w, string) state" where
  "handle_ctl_req K now req evs = do {
     resp \<leftarrow> ballotd_dispatch K req;
     State_Monad.return (case bcl_encode_response now (br_op req) resp CTL_MAX_FRAME of
       None \<Rightarrow> [] | Some out \<Rightarrow> snd (ctl_frame_write out evs))
   }"

section \<open>The administrator thread\<close>

definition MAX_WORKERS :: nat where "MAX_WORKERS = 254"

definition ballotmsg_read_all :: "nat \<Rightarrow> rd_event list \<Rightarrow> int \<times> string" where
  "ballotmsg_read_all len evs =
     (case read_loop len [] evs of (rc, got, _) \<Rightarrow> (if rc = 0 then 1 else if rc = - 2 then 0 else - 1, got))"

definition ballotmsg_write_all :: "string \<Rightarrow> wr_event list \<Rightarrow> bool \<times> string" where
  "ballotmsg_write_all buf evs = (case ctl_write_all buf evs of (ok, sent, _) \<Rightarrow> (ok, sent))"

text \<open>
  What a pass finds on a worker's descriptor: nothing, a whole request, or an end of file or
  error. A message is the memory image of the request structure, \<open>len\<close> bytes that
  \<open>layout\<close> reads.
\<close>

datatype worker_event = Quiet | Asks bcl_request | Gone

definition worker_read :: "nat \<Rightarrow> (string \<Rightarrow> bcl_request) \<Rightarrow> bool \<Rightarrow> rd_event list \<Rightarrow> worker_event" where
  "worker_read len layout revents evs =
     (if \<not> revents then Quiet
      else case ballotmsg_read_all len evs of (r, got) \<Rightarrow> if r = 1 then Asks (layout got) else Gone)"

record slot =
  sl_fd :: int
  sl_pid :: int
  sl_ready :: worker_event

datatype daemon_out = Answer int bcl_response | Ctl_Bytes int string | Close int | Term int | Reap int

definition drop_worker :: "nat \<Rightarrow> slot list \<Rightarrow> slot list" where
  "drop_worker i slots = butlast (slots[i := last slots])"

definition register_worker :: "int \<times> int \<Rightarrow> slot list \<times> daemon_out list \<Rightarrow> slot list \<times> daemon_out list" where
  "register_worker nw st =
     (case (nw, st) of ((pid, fd), (slots, outs)) \<Rightarrow>
        if length slots < MAX_WORKERS
        then (slots @ [\<lparr>sl_fd = fd, sl_pid = pid, sl_ready = Quiet\<rparr>], outs)
        else (slots, outs @ [Close fd]))"

fun ctl_requests :: "'w seam \<Rightarrow> tm \<Rightarrow> (int \<times> bcl_request \<times> wr_event list) list \<Rightarrow> ('w, daemon_out list) state" where
  "ctl_requests K now [] = State_Monad.return []"
| "ctl_requests K now ((fd, req, evs) # crs) = do {
     bytes \<leftarrow> handle_ctl_req K now req evs;
     outs \<leftarrow> ctl_requests K now crs;
     State_Monad.return (Ctl_Bytes fd bytes # Close fd # outs)
   }"

function serve_workers :: "'w seam \<Rightarrow> nat \<Rightarrow> slot list \<Rightarrow> ('w, slot list \<times> daemon_out list) state" where
  "serve_workers K i slots =
     (if length slots \<le> i then State_Monad.return (slots, [])
      else case sl_ready (slots ! i) of
             Quiet \<Rightarrow> serve_workers K (i + 1) slots
           | Asks req \<Rightarrow> do {
               resp \<leftarrow> ballotd_dispatch K req;
               (slots', outs) \<leftarrow> serve_workers K (i + 1) slots;
               State_Monad.return (slots', Answer (sl_fd (slots ! i)) resp # outs)
             }
           | Gone \<Rightarrow> do {
               (slots', outs) \<leftarrow> serve_workers K i (drop_worker i slots);
               State_Monad.return (slots', Close (sl_fd (slots ! i)) # Reap (sl_pid (slots ! i)) # outs)
             })"
  by pat_completeness auto
termination
  by (relation "measure (\<lambda>(K, i, slots). length slots - i)") (auto simp: drop_worker_def)

declare serve_workers.simps [simp del]

definition admin_teardown :: "(int \<times> int) list \<Rightarrow> int list \<Rightarrow> slot list \<Rightarrow> daemon_out list" where
  "admin_teardown news ctls slots =
     concat (map (\<lambda>(pid, fd). [Close fd, Term pid, Reap pid]) news) @
     map Close ctls @
     concat (map (\<lambda>s. [Close (sl_fd s), Term (sl_pid s), Reap (sl_pid s)]) (rev slots))"

text \<open>
  One return of \<^verbatim>\<open>poll\<close>: interrupted, failed (with what is still in the two pipes), or the
  readiness of every descriptor.
\<close>

record wake =
  wk_quit :: bool
  wk_new :: "(int \<times> int) list"
  wk_ctl :: "(int \<times> bcl_request \<times> wr_event list) list"
  wk_ready :: "int \<Rightarrow> worker_event"

datatype poll_result = Poll_Intr | Poll_Fail "(int \<times> int) list" "int list" | Poll_Ready wake

definition mark_ready :: "wake \<Rightarrow> slot list \<Rightarrow> slot list" where
  "mark_ready wk slots = map (\<lambda>s. s\<lparr>sl_ready := wk_ready wk (sl_fd s)\<rparr>) slots"

definition admin_pass :: "'w seam \<Rightarrow> tm \<Rightarrow> wake \<Rightarrow> slot list \<Rightarrow> ('w, slot list \<times> daemon_out list) state" where
  "admin_pass K now wk slots = (
     let (slots1, outs1) = fold register_worker (wk_new wk) (mark_ready wk slots, [])
     in do {
       outs2 \<leftarrow> ctl_requests K now (wk_ctl wk);
       (slots2, outs3) \<leftarrow> serve_workers K 0 slots1;
       State_Monad.return (slots2, outs1 @ outs2 @ outs3)
     })"

fun admin_thread :: "'w seam \<Rightarrow> tm \<Rightarrow> poll_result list \<Rightarrow> slot list \<Rightarrow> ('w, slot list \<times> daemon_out list) state" where
  "admin_thread K now [] slots = State_Monad.return (slots, [])"
| "admin_thread K now (Poll_Intr # ps) slots = admin_thread K now ps slots"
| "admin_thread K now (Poll_Fail news ctls # ps) slots = State_Monad.return ([], admin_teardown news ctls slots)"
| "admin_thread K now (Poll_Ready wk # ps) slots =
     (if wk_quit wk then State_Monad.return ([], admin_teardown (wk_new wk) (map fst (wk_ctl wk)) slots)
      else do {
        (slots, outs) \<leftarrow> admin_pass K now wk slots;
        (slots, outs') \<leftarrow> admin_thread K now ps slots;
        State_Monad.return (slots, outs @ outs')
      })"

section \<open>Frames\<close>

lemma read_loop_spec:
  "read_loop n got evs = (rc, out, evs') \<Longrightarrow>
     (rc = 0 \<longleftrightarrow> n \<le> length (bytes_of evs)) \<and>
     (rc = 0 \<longrightarrow> out = got @ take n (bytes_of evs) \<and> bytes_of evs' = drop n (bytes_of evs))"
proof (induction n got evs rule: read_loop.induct)
  case (5 n got c cs evs)
  show ?case
  proof (cases "length cs \<le> n")
    case True
    with 5 show ?thesis by auto
  next
    case False
    then obtain d ds where d: "drop n cs = d # ds" by (cases "drop n cs") auto
    from 5 False have "rc = 0" "out = got @ c # take n cs" "evs' = Data (d # ds) # evs" by (simp_all add: d)
    with False show ?thesis by (simp add: d)
  qed
qed (auto split: if_splits)

lemma prefix_be32: "frame_prefix w = be32 w" "prefix_val p = be32_val p"
  by (simp_all add: frame_prefix_def be32_def prefix_val_def be32_val_def)

lemma prefix_val_prefix: "prefix_val (frame_prefix w) = w"
  by (simp add: prefix_be32)

lemma frame_prefix_val: "length p = 4 \<Longrightarrow> frame_prefix (prefix_val p) = p"
  by (simp add: prefix_be32 be32_be32_val)

lemma frame_read_exact:
  assumes "cap < 2 ^ 32"
  shows "ctl_frame_read cap evs = (0, buf) \<longleftrightarrow>
    buf \<noteq> [] \<and> length buf \<le> cap \<and> (\<exists>rest. bytes_of evs = frame_prefix (word_of_nat (length buf)) @ buf @ rest)"
proof -
  obtain rc p evs1 where r1: "read_loop 4 [] evs = (rc, p, evs1)" by (metis prod.exhaust)
  note s1 = read_loop_spec [OF r1]
  obtain rc2 b evs2 where r2: "read_loop (unat (prefix_val p)) [] evs1 = (rc2, b, evs2)" by (metis prod.exhaust)
  note s2 = read_loop_spec [OF r2]
  have read: "ctl_frame_read cap evs = (0, buf) \<longleftrightarrow>
      rc = 0 \<and> unat (prefix_val p) \<noteq> 0 \<and> unat (prefix_val p) \<le> cap \<and> rc2 = 0 \<and> b = buf"
    by (auto simp: ctl_frame_read_def ctl_read_all_def CTL_PREFIX_LEN_def r1 r2 Let_def)
  show ?thesis
  proof
    assume "ctl_frame_read cap evs = (0, buf)"
    then have h: "rc = 0" "unat (prefix_val p) \<noteq> 0" "unat (prefix_val p) \<le> cap" "rc2 = 0" "b = buf" by (simp_all add: read)
    from h s1 have p: "p = take 4 (bytes_of evs)" "bytes_of evs1 = drop 4 (bytes_of evs)" "4 \<le> length (bytes_of evs)" by auto
    from h s2 have b: "buf = take (unat (prefix_val p)) (bytes_of evs1)" "unat (prefix_val p) \<le> length (bytes_of evs1)" by auto
    then have len: "length buf = unat (prefix_val p)" by simp
    have "bytes_of evs = p @ buf @ drop (unat (prefix_val p)) (bytes_of evs1)" using p b by (metis append_take_drop_id)
    moreover have "frame_prefix (word_of_nat (length buf)) = p" using p by (simp add: len frame_prefix_val)
    ultimately show "buf \<noteq> [] \<and> length buf \<le> cap \<and> (\<exists>rest. bytes_of evs = frame_prefix (word_of_nat (length buf)) @ buf @ rest)"
      using h(2,3) len by auto
  next
    assume "buf \<noteq> [] \<and> length buf \<le> cap \<and> (\<exists>rest. bytes_of evs = frame_prefix (word_of_nat (length buf)) @ buf @ rest)"
    then obtain rest where h: "buf \<noteq> []" "length buf \<le> cap" "bytes_of evs = frame_prefix (word_of_nat (length buf)) @ buf @ rest" by blast
    have l4: "length (frame_prefix w) = 4" for w by (simp add: frame_prefix_def)
    from s1 h(3) have p: "rc = 0" "p = frame_prefix (word_of_nat (length buf))" "bytes_of evs1 = buf @ rest" by (auto simp: l4)
    have n: "unat (prefix_val p) = length buf"
      using h(2) assms by (simp add: p(2) prefix_val_prefix unat_of_nat)
    from s2 n p(3) have "rc2 = 0" "b = buf" by auto
    with n p(1) h(1,2) show "ctl_frame_read cap evs = (0, buf)" by (simp add: read)
  qed
qed

lemma write_all_prefix: "ctl_write_all bs evs = (ok, sent, evs') \<Longrightarrow> \<exists>r. bs = sent @ r \<and> (ok \<longleftrightarrow> r = [])"
proof (induction bs evs arbitrary: ok sent evs' rule: ctl_write_all.induct)
  case (3 b bs n evs)
  obtain ok1 s1 e1 where w: "ctl_write_all (drop n bs) evs = (ok1, s1, e1)" by (metis prod.exhaust)
  from "3.IH" [OF w] obtain r where r: "drop n bs = s1 @ r" "ok1 \<longleftrightarrow> r = []" by blast
  have "bs = take n bs @ s1 @ r" using r(1) by (metis append_take_drop_id)
  with "3.prems" w r(2) show ?case by auto
qed auto

section \<open>The worker table\<close>

lemma run_bind: "run_state (State_Monad.bind m f) w = (case run_state m w of (a, w1) \<Rightarrow> run_state (f a) w1)"
  by (simp add: State_Monad.bind_def split: prod.splits)

lemma run_return: "run_state (State_Monad.return a) w = (a, w)"
  by (simp add: State_Monad.return_def)

lemma drop_worker_shape:
  assumes "i < length slots"
  shows "take i (drop_worker i slots) = take i slots \<and>
    mset (drop i slots) = add_mset (slots ! i) (mset (drop i (drop_worker i slots)))"
proof -
  obtain xs x ys where e: "slots = xs @ x # ys" "length xs = i"
    using assms id_take_nth_drop [OF assms] by (metis length_take min.absorb4)
  show ?thesis
  proof (cases ys rule: rev_cases)
    case Nil
    then have "drop_worker i slots = xs" using e by (simp add: drop_worker_def list_update_append)
    with e Nil show ?thesis by (simp add: nth_append)
  next
    case (snoc zs l)
    then have "slots[i := last slots] = (xs @ l # zs) @ [l]" using e by (simp add: list_update_append)
    then have d: "drop_worker i slots = xs @ l # zs" unfolding drop_worker_def by (simp only: butlast_snoc)
    from e snoc show ?thesis unfolding d by (simp add: nth_append)
  qed
qed

fun dispatch_all :: "'w seam \<Rightarrow> bcl_request list \<Rightarrow> ('w, bcl_response list) state" where
  "dispatch_all K [] = State_Monad.return []"
| "dispatch_all K (r # rs) = do {
     resp \<leftarrow> ballotd_dispatch K r; resps \<leftarrow> dispatch_all K rs; State_Monad.return (resp # resps) }"

definition answers :: "daemon_out list \<Rightarrow> (int \<times> bcl_response) list" where
  "answers outs = List.map_filter (\<lambda>out. case out of Answer fd resp \<Rightarrow> Some (fd, resp) | _ \<Rightarrow> None) outs"

definition requests_of :: "slot multiset \<Rightarrow> (int \<times> bcl_request) multiset" where
  "requests_of M = (\<Sum>s \<in># M. case sl_ready s of Asks req \<Rightarrow> {#(sl_fd s, req)#} | _ \<Rightarrow> {#})"

lemma answers_simps [simp]:
  "answers [] = []" "answers (Answer fd resp # outs) = (fd, resp) # answers outs"
  "answers (Close fd # outs) = answers outs" "answers (Reap p # outs) = answers outs"
  by (simp_all add: answers_def map_filter_simps)

lemma serve_workers_spec:
  assumes "run_state (serve_workers K i slots) w = ((slots', outs), w')"
  shows "\<exists>reqs resps. mset reqs = requests_of (mset (drop i slots)) \<and>
    run_state (dispatch_all K (map snd reqs)) w = (resps, w') \<and> answers outs = zip (map fst reqs) resps \<and>
    mset slots' = mset (take i slots) + filter_mset (\<lambda>s. sl_ready s \<noteq> Gone) (mset (drop i slots))"
  using assms
proof (induction K i slots arbitrary: w slots' outs w' rule: serve_workers.induct)
  case (1 K i slots)
  show ?case
  proof (cases "length slots \<le> i")
    case True
    with "1.prems" show ?thesis
      by (subst (asm) serve_workers.simps) (simp add: run_return requests_of_def)
  next
    case False
    then have i: "i < length slots" by simp
    then have d: "drop i slots = slots ! i # drop (Suc i) slots" "take (Suc i) slots = take i slots @ [slots ! i]"
      by (simp_all add: Cons_nth_drop_Suc take_Suc_conv_app_nth)
    show ?thesis
    proof (cases "sl_ready (slots ! i)")
      case Quiet
      with "1.prems" i have "run_state (serve_workers K (i + 1) slots) w = ((slots', outs), w')"
        by (subst (asm) serve_workers.simps) simp
      from "1.IH"(1) [OF False Quiet this] Quiet show ?thesis by (auto simp: d requests_of_def)
    next
      case (Asks req)
      obtain resp w1 where r: "run_state (ballotd_dispatch K req) w = (resp, w1)" by (metis prod.exhaust)
      obtain s2 o2 w2 where t: "run_state (serve_workers K (i + 1) slots) w1 = ((s2, o2), w2)" by (metis prod.exhaust)
      from "1.prems" i Asks r t have e: "slots' = s2" "w' = w2" "outs = Answer (sl_fd (slots ! i)) resp # o2"
        by (subst (asm) serve_workers.simps, simp add: run_bind run_return)+
      from "1.IH"(2) [OF False Asks t] obtain reqs resps where ih: "mset reqs = requests_of (mset (drop (i + 1) slots))"
        "run_state (dispatch_all K (map snd reqs)) w1 = (resps, w2)" "answers o2 = zip (map fst reqs) resps"
        "mset s2 = mset (take (i + 1) slots) + filter_mset (\<lambda>s. sl_ready s \<noteq> Gone) (mset (drop (i + 1) slots))" by blast
      show ?thesis
        by (rule exI [of _ "(sl_fd (slots ! i), req) # reqs"], rule exI [of _ "resp # resps"])
           (use ih r Asks in \<open>simp add: e d requests_of_def run_bind run_return\<close>)
    next
      case Gone
      obtain s2 o2 w2 where t: "run_state (serve_workers K i (drop_worker i slots)) w = ((s2, o2), w2)" by (metis prod.exhaust)
      from "1.prems" i Gone t have e: "slots' = s2" "w' = w2" "answers outs = answers o2"
        by (subst (asm) serve_workers.simps, auto simp add: run_bind run_return)+
      from "1.IH"(3) [OF False Gone t] drop_worker_shape [OF i] Gone show ?thesis
        unfolding e by (auto simp: requests_of_def)
    qed
  qed
qed

section \<open>Properties\<close>

lemma answers_append: "answers (a @ b) = answers a @ answers b"
  by (simp add: answers_def map_filter_def)

text \<open>
  C20: a control frame written in any number of pieces is read back in any number of pieces as
  the same message, and a frame that is cut short anywhere is never taken for a message.
\<close>

theorem frame_survives:
  assumes "ctl_frame_write msg wevs = (True, out)" "msg \<noteq> []" "length msg \<le> CTL_MAX_FRAME"
  shows "(\<forall>revs rest. bytes_of revs = out @ rest \<longrightarrow> ctl_frame_read CTL_MAX_FRAME revs = (0, msg)) \<and>
    (\<forall>revs more. out = bytes_of revs @ more \<longrightarrow> more \<noteq> [] \<longrightarrow> fst (ctl_frame_read CTL_MAX_FRAME revs) \<noteq> 0)"
proof -
  have cap: "CTL_MAX_FRAME < 2 ^ 32" by (simp add: CTL_MAX_FRAME_def)
  obtain ok s1 e1 where w1: "ctl_write_all (frame_prefix (word_of_nat (length msg))) wevs = (ok, s1, e1)" by (metis prod.exhaust)
  obtain ok2 s2 e2 where w2: "ctl_write_all msg e1 = (ok2, s2, e2)" by (metis prod.exhaust)
  from assms(1) w1 w2 write_all_prefix [OF w1] write_all_prefix [OF w2]
  have out: "out = frame_prefix (word_of_nat (length msg)) @ msg" by (auto simp: ctl_frame_write_def split: if_splits)
  have "False" if h: "out = bytes_of revs @ more" "more \<noteq> []" "ctl_frame_read CTL_MAX_FRAME revs = (0, buf)" for revs more buf
  proof -
    from h(3) obtain rest where b: "length buf \<le> CTL_MAX_FRAME"
      "bytes_of revs = frame_prefix (word_of_nat (length buf)) @ buf @ rest" by (auto simp: frame_read_exact [OF cap])
    have l4: "length (frame_prefix v) = 4" for v by (simp add: frame_prefix_def)
    have eq: "frame_prefix (word_of_nat (length msg)) @ msg = frame_prefix (word_of_nat (length buf)) @ buf @ rest @ more"
      using h(1) out b(2) by simp
    then have c: "frame_prefix (word_of_nat (length msg)) = frame_prefix (word_of_nat (length buf)) \<and> msg = buf @ rest @ more"
      by (rule append_eq_append_conv [THEN iffD1, rotated]) (simp add: l4)
    from arg_cong [OF conjunct1 [OF c], of prefix_val]
    have "(word_of_nat (length msg) :: 32 word) = word_of_nat (length buf)" by (simp only: prefix_val_prefix)
    then have "unat (word_of_nat (length msg) :: 32 word) = unat (word_of_nat (length buf) :: 32 word)" by simp
    then have "length msg = length buf" using assms(3) b(1) cap unfolding unat_of_nat by simp
    with c h(2) show False by simp
  qed
  then have "fst (ctl_frame_read CTL_MAX_FRAME revs) \<noteq> 0" if "out = bytes_of revs @ more" "more \<noteq> []" for revs more
    using that by (metis prod.collapse)
  moreover have "ctl_frame_read CTL_MAX_FRAME revs = (0, msg)" if "bytes_of revs = out @ rest" for revs rest
    using that assms(2,3) out by (auto simp: frame_read_exact [OF cap])
  ultimately show ?thesis by blast
qed

theorem frame_survives_witness:
  "ctl_frame_read CTL_MAX_FRAME [Data [CHR 0x00], Again, Data [CHR 0x00, CHR 0x00, CHR 0x02, CHR 0x41], Data ''B'', Eof] = (0, ''AB'') \<and>
   fst (ctl_frame_read CTL_MAX_FRAME [Data [CHR 0x00, CHR 0x00, CHR 0x00, CHR 0x02], Data ''A'', Eof]) \<noteq> 0"
proof -
  have w: "ctl_frame_write ''AB'' [Took 1, WIntr, Took 9, Took 1, Took 5] =
      (True, [CHR 0x00, CHR 0x00, CHR 0x00, CHR 0x02, CHR 0x41, CHR 0x42])"
    by code_simp
  note f = frame_survives [OF w]
  have "length ''AB'' \<le> CTL_MAX_FRAME" by (simp add: CTL_MAX_FRAME_def)
  with f show ?thesis by simp
qed

section \<open>What each channel lets through\<close>

text \<open>A request as the session passes it on: under the name the session was authenticated with.\<close>

definition verified :: "string \<Rightarrow> bcl_request \<Rightarrow> bcl_request" where
  "verified name req = req\<lparr>br_cert_name := snprintf_s BB_CERT_LEN name,
     br_ballot := (br_ballot req)\<lparr>bal_cert_name := snprintf_s BB_CERT_LEN name\<rparr>\<rparr>"

definition voter_request :: "string \<Rightarrow> bcl_request \<Rightarrow> bool" where
  "voter_request name req \<longleftrightarrow> is_voter_op (br_op req) \<and> br_cert_name req = snprintf_s BB_CERT_LEN name \<and>
     bal_cert_name (br_ballot req) = snprintf_s BB_CERT_LEN name"

lemma handle_request_confined:
  assumes "\<And>r. voter_request name r \<Longrightarrow> admin r = admin' r"
  shows "handle_request now name admin buf = handle_request now name admin' buf"
proof -
  have "admin (verified name r) = admin' (verified name r)" if "is_voter_op (br_op r)" for r
    using that by (intro assms) (simp add: voter_request_def verified_def)
  then show ?thesis
    unfolding handle_request_def by (auto simp: Let_def verified_def split: prod.split)
qed

lemma session_loop_confined:
  assumes "\<And>r. voter_request name r \<Longrightarrow> admin r = admin' r"
  shows "session_loop now name admin rs = session_loop now name admin' rs"
  using handle_request_confined [OF assms] by (induction rs rule: session_loop.induct) auto

text \<open>
  C17: whatever a client sends, a session reaches the administrator thread only with operations of
  a voter, and only under the account the session was authenticated for; without an account it
  does not reach it at all. (Two administrator threads that agree on such requests cannot be
  told apart by any session.)
\<close>

theorem session_confined:
  assumes "\<And>name r. account = Some name \<Longrightarrow> voter_request name r \<Longrightarrow> admin r = admin' r"
  shows "session_main now key handshake account admin rs = session_main now key handshake account admin' rs"
proof (cases account)
  case (Some name)
  from session_loop_confined [OF assms [OF Some]] show ?thesis by (simp add: session_main_def Some)
qed (simp add: session_main_def)

theorem session_confined_witness:
  "session_main \<lparr>tm_sec = 5, tm_min = 4, tm_hour = 3, tm_mday = 2, tm_mon = 0, tm_year = 126, tm_wday = 5\<rparr> True True (Some ''alice'')
      (\<lambda>r. State_Monad.return None) [Received ''x'', Session_Io] =
   session_main \<lparr>tm_sec = 5, tm_min = 4, tm_hour = 3, tm_mday = 2, tm_mon = 0, tm_year = 126, tm_wday = 5\<rparr> True True (Some ''alice'')
      (\<lambda>r. if br_op r = BCL_PUBLISH \<or> br_cert_name r = ''bob'' then State (\<lambda>n. (Some bcl_response0, n + (1 :: int)))
           else State_Monad.return None) [Received ''x'', Session_Io]"
  by (rule session_confined)
     (auto simp: voter_request_def is_voter_op_def BB_CERT_LEN_def)

lemma ops_split: "is_admin_op op \<longleftrightarrow> \<not> is_voter_op op"
  by (cases op) (simp_all add: is_admin_op_def is_voter_op_def)

text \<open>
  C18: a connection on the administrator's socket is forwarded only when it delivered one complete
  frame that parses and decodes to a request, and never with an operation of a voter.
\<close>

theorem admin_channel_confined:
  assumes "handle_conn queued evs = Forward req"
  shows "queued \<and> \<not> is_voter_op (br_op req) \<and>
    (\<exists>frame rest http. bytes_of evs = frame_prefix (word_of_nat (length frame)) @ frame @ rest \<and>
       length frame \<le> CTL_MAX_FRAME \<and> htttp_parse_request frame = (HTTTP_OK, http) \<and>
       bcl_decode_request http = (True, req))"
proof -
  obtain rc frame where f: "ctl_frame_read CTL_MAX_FRAME evs = (rc, frame)" by (metis prod.exhaust)
  obtain prc http where p: "htttp_parse_request frame = (prc, http)" by (metis prod.exhaust)
  obtain ok r where d: "bcl_decode_request http = (ok, r)" by (metis prod.exhaust)
  from assms have h: "rc = 0" "prc = HTTTP_OK" "ok" "is_admin_op (br_op r)" "queued" "r = req"
    by (simp_all add: handle_conn_def f p d split: if_splits)
  have cap: "CTL_MAX_FRAME < 2 ^ 32" by (simp add: CTL_MAX_FRAME_def)
  from f h(1) have "ctl_frame_read CTL_MAX_FRAME evs = (0, frame)" by simp
  then obtain rest where "length frame \<le> CTL_MAX_FRAME"
    "bytes_of evs = frame_prefix (word_of_nat (length frame)) @ frame @ rest"
    unfolding frame_read_exact [OF cap] by blast
  with h p d show ?thesis by (auto simp: ops_split)
qed

definition demo_next_id :: string where
  "demo_next_id = ''ADMIN_NEXT_ID /election/next-id HTTTP/1.0'' @ [CR, NL, CR, NL]"

theorem admin_channel_confined_witness:
  "\<exists>req. handle_conn True [Data [CHR 0x00, CHR 0x00, CHR 0x00], Data (CHR 0x2D # demo_next_id)] = Forward req \<and>
     \<not> is_voter_op (br_op req)"
proof -
  let ?evs = "[Data [CHR 0x00, CHR 0x00, CHR 0x00], Data (CHR 0x2D # demo_next_id)]"
  have "frame_prefix 45 = [CHR 0x00, CHR 0x00, CHR 0x00, CHR 0x2D]" by code_simp
  then have "bytes_of ?evs = frame_prefix (word_of_nat (length demo_next_id)) @ demo_next_id @ []"
    by (simp add: demo_next_id_def)
  moreover have "demo_next_id \<noteq> []" "length demo_next_id \<le> CTL_MAX_FRAME" "CTL_MAX_FRAME < 2 ^ 32"
    by (simp_all add: CTL_MAX_FRAME_def demo_next_id_def)
  ultimately have r: "ctl_frame_read CTL_MAX_FRAME ?evs = (0, demo_next_id)"
    using frame_read_exact by blast
  have p: "fst (htttp_parse_request demo_next_id) = HTTTP_OK" by code_simp
  have d: "fst (bcl_decode_request (snd (htttp_parse_request demo_next_id)))"
    "is_admin_op (br_op (snd (bcl_decode_request (snd (htttp_parse_request demo_next_id)))))" by code_simp+
  from r p d have f: "handle_conn True ?evs = Forward (snd (bcl_decode_request (snd (htttp_parse_request demo_next_id))))"
    by (simp add: handle_conn_def case_prod_beta)
  from admin_channel_confined [OF f] f show ?thesis by blast
qed

end
