(* ===== verification/Brain_Inv.thy ===== *)
theory Brain_Inv
  imports Brain
begin

text \<open>
  The election rules on the level of stores: what a submitted ballot is answered
  (\<open>cast_verdict\<close>), what an accepted one changes (\<open>cast_effect\<close>), the invariant that ties
  ballots, owners and eligible voters together, and the steps an election store may take. The
  lemmas show that every step keeps the invariant and what a run of steps can never do.
\<close>

section \<open>Rules\<close>

definition in_state :: "store \<Rightarrow> string \<Rightarrow> bb_state \<Rightarrow> bool" where
  "in_state S k st \<longleftrightarrow> st \<in># image_mset (\<lambda>(q, t, s, a, b). s) (sel k (st_election S))"

definition chosen :: "bb_ballot \<Rightarrow> int" where
  "chosen b = (case bal_payload b of [] \<Rightarrow> 0 | x # _ \<Rightarrow> uint x)"

definition cast_verdict :: "store \<Rightarrow> string \<Rightarrow> bb_ballot \<Rightarrow> bb_result" where
  "cast_verdict S k b =
     (if sel k (st_election S) = {#} then BB_ERR_NOT_FOUND
      else if in_state S k BB_STATE_CLOSED \<or> in_state S k BB_STATE_PUBLISHED then BB_ERR_CLOSED
      else if \<not> in_state S k BB_STATE_OPEN then BB_ERR_NOT_OPEN
      else if bal_cert_name b \<notin># sel k (st_eligible S) then BB_ERR_NOT_ELIGIBLE
      else if int (size (sel k (st_option S))) \<le> chosen b then BB_ERR_BAD_OPTION
      else if bal_nonce b \<in># sel k (st_nonce S) then BB_ERR_REPLAY
      else BB_OK)"

text \<open>The hash and version of the voter's current ballot, if any.\<close>

definition prior_is :: "store \<Rightarrow> string \<Rightarrow> string \<Rightarrow> (string \<times> int) option \<Rightarrow> bool" where
  "prior_is S k c p \<longleftrightarrow>
     owners_with S k c = (case p of None \<Rightarrow> {#} | Some hv \<Rightarrow> {#(c, hv)#})"

definition next_version :: "(string \<times> int) option \<Rightarrow> int" where
  "next_version p = (case p of None \<Rightarrow> 1 | Some (h, v) \<Rightarrow> v + 1)"

definition cast_receipt :: "bb_ballot \<Rightarrow> (string \<times> int) option \<Rightarrow> bb_receipt" where
  "cast_receipt b p = receipt_of (bal_nonce b) (next_version p)"

text \<open>The four writes of an accepted ballot, one after the other.\<close>

definition cast_added :: "store \<Rightarrow> string \<Rightarrow> bb_ballot \<Rightarrow> (string \<times> int) option \<Rightarrow> store" where
  "cast_added S k b p = add_ballot k (hash_row (rc_hash (cast_receipt b p)) (chosen b) (next_version p)) S"

definition cast_retired :: "store \<Rightarrow> string \<Rightarrow> bb_ballot \<Rightarrow> (string \<times> int) option \<Rightarrow> store" where
  "cast_retired S k b p =
     (case p of None \<Rightarrow> cast_added S k b p | Some (h0, v0) \<Rightarrow> supersede k h0 (cast_added S k b p))"

definition cast_owned :: "store \<Rightarrow> string \<Rightarrow> bb_ballot \<Rightarrow> (string \<times> int) option \<Rightarrow> store" where
  "cast_owned S k b p =
     set_owner k (bal_cert_name b) (rc_hash (cast_receipt b p)) (next_version p) (cast_retired S k b p)"

definition cast_effect :: "store \<Rightarrow> string \<Rightarrow> bb_ballot \<Rightarrow> (string \<times> int) option \<Rightarrow> store" where
  "cast_effect S k b p = use_nonce k (bal_nonce b) (cast_owned S k b p)"

lemmas cast_defs = cast_effect_def cast_owned_def cast_retired_def cast_added_def

section \<open>Invariant\<close>

definition election_inv :: "store \<Rightarrow> string \<Rightarrow> bool" where
  "election_inv S k \<longleftrightarrow>
     (sel k (st_election S) = {#} \<longrightarrow>
        sel k (st_option S) = {#} \<and> sel k (st_eligible S) = {#} \<and> sel k (st_ballot S) = {#} \<and>
        sel k (st_owner S) = {#} \<and> sel k (st_nonce S) = {#}) \<and>
     (\<forall>(q, row) \<in># sel k (st_election S). q = id_seq k) \<and>
     image_mset (\<lambda>(h, ix, v, s). (h, v)) (live_ballots S k) = image_mset snd (sel k (st_owner S)) \<and>
     (\<forall>(c, h, v) \<in># sel k (st_owner S). c \<in># sel k (st_eligible S) \<and> 1 \<le> v) \<and>
     (\<forall>(h, ix, v, s) \<in># sel k (st_ballot S). ix < int (size (sel k (st_option S))))"

definition store_inv :: "store \<Rightarrow> bool" where
  "store_inv S \<longleftrightarrow> store_ok S \<and> (\<forall>k. election_inv S k)"

text \<open>What the theorems ask of a submitted ballot: printable fields that fit their buffers, a
  nonce no reply line can be mistaken for, and a receipt hash not issued before.\<close>

definition ballot_ok :: "bb_ballot \<Rightarrow> bool" where
  "ballot_ok b \<longleftrightarrow> fits 31 (bal_cert_name b) \<and> lead 32 (bal_nonce b) \<and> bal_nonce b \<noteq> []"

definition fresh_for :: "store \<Rightarrow> string \<Rightarrow> bb_ballot \<Rightarrow> bool" where
  "fresh_for S k b \<longleftrightarrow>
     (\<forall>p. prior_is S k (bal_cert_name b) p \<longrightarrow>
        ballots_with S k (rc_hash (cast_receipt b p)) = {#} \<and> next_version p < 2 ^ 31)"

section \<open>Steps\<close>

inductive store_step :: "store \<Rightarrow> store \<Rightarrow> bool" where
  create: "\<lbrakk>sel k (st_election S) = {#}; fits 15 k; config_ok cfg; count_ok (id_seq k);
      bb_validate_config cfg = BB_OK\<rbrakk> \<Longrightarrow>
     store_step S (insert_election k cfg S)"
| advance: "\<lbrakk>in_state S k a; bb_is_legal_transition a b\<rbrakk> \<Longrightarrow> store_step S (set_state k b S)"
| cast: "\<lbrakk>cast_verdict S k b = BB_OK; ballot_ok b; fits 15 k; fresh_for S k b;
      prior_is S k (bal_cert_name b) p\<rbrakk> \<Longrightarrow> store_step S (cast_effect S k b p)"

inductive_cases store_stepE: "store_step S S'"

section \<open>Selecting after an update\<close>

lemma sel_empty [simp]: "sel k {#} = {#}"
  by (simp add: sel_def)

lemma sel_add [simp]: "sel k (add_mset (k', x) M) = (if k' = k then add_mset x (sel k M) else sel k M)"
  by (simp add: sel_def)

lemma sel_union [simp]: "sel k (M + N) = sel k M + sel k N"
  by (simp add: sel_def)

lemma sel_Pair [simp]: "sel k (image_mset (Pair k') M) = (if k' = k then M else {#})"
  by (cases "k' = k"; induction M) simp_all

lemma sel_filter: "sel k (filter_mset P M) = filter_mset (\<lambda>y. P (k, y)) (sel k M)"
  by (induction M) (auto simp: sel_def)

lemma sel_image:
  assumes "\<And>x. fst (f x) = fst x"
  shows "sel k (image_mset f M) = image_mset (\<lambda>y. snd (f (k, y))) (sel k M)"
  using assms by (induction M) (auto simp: sel_def)

lemma in_sel: "x \<in># sel k M \<longleftrightarrow> (k, x) \<in># M"
  by (force simp: sel_def)

lemma sel_set_state:
  "sel j (st_election (set_state k st S)) =
     (if j = k then image_mset (\<lambda>(q, t, s, a, b). (q, t, st, a, b)) (sel k (st_election S))
      else sel j (st_election S))"
proof -
  have "sel j (st_election (set_state k st S)) = image_mset (\<lambda>(q, t, s, a, b).
      if j = k then (q, t, st, a, b) else (q, t, s, a, b)) (sel j (st_election S))"
    unfolding set_state_def by (simp, subst sel_image) (auto intro!: image_mset_cong)
  then show ?thesis by (auto simp: case_prod_eta intro: multiset.map_ident_strong)
qed

lemma sel_supersede:
  "sel j (st_ballot (supersede k h S)) =
     image_mset (\<lambda>(h', ix, v, s). if j = k \<and> h' = h then (h', ix, v, 1) else (h', ix, v, s)) (sel j (st_ballot S))"
  unfolding supersede_def by (simp, subst sel_image) (auto intro!: image_mset_cong)

lemma sel_set_owner:
  "sel j (st_owner (set_owner k c h v S)) =
     (if j = k then add_mset (c, h, v) (filter_mset (\<lambda>(c', _). c' \<noteq> c) (sel k (st_owner S)))
      else sel j (st_owner S))"
  by (auto simp: set_owner_def sel_filter intro!: filter_mset_cong)

text \<open>The fields an update leaves alone.\<close>

lemma other_fields [simp]:
  "st_election (supersede k h S) = st_election S" "st_option (supersede k h S) = st_option S"
  "st_eligible (supersede k h S) = st_eligible S" "st_owner (supersede k h S) = st_owner S"
  "st_nonce (supersede k h S) = st_nonce S"
  "st_election (set_owner k c h v S) = st_election S" "st_option (set_owner k c h v S) = st_option S"
  "st_eligible (set_owner k c h v S) = st_eligible S" "st_ballot (set_owner k c h v S) = st_ballot S"
  "st_nonce (set_owner k c h v S) = st_nonce S"
  "st_election (use_nonce k n S) = st_election S" "st_option (use_nonce k n S) = st_option S"
  "st_eligible (use_nonce k n S) = st_eligible S" "st_ballot (use_nonce k n S) = st_ballot S"
  "st_owner (use_nonce k n S) = st_owner S"
  "st_election (add_ballot k row S) = st_election S" "st_option (add_ballot k row S) = st_option S"
  "st_eligible (add_ballot k row S) = st_eligible S" "st_owner (add_ballot k row S) = st_owner S"
  "st_nonce (add_ballot k row S) = st_nonce S"
  "st_option (set_state k st S) = st_option S" "st_eligible (set_state k st S) = st_eligible S"
  "st_ballot (set_state k st S) = st_ballot S" "st_owner (set_state k st S) = st_owner S"
  "st_nonce (set_state k st S) = st_nonce S"
  "st_ballot (insert_election k cfg S) = st_ballot S" "st_owner (insert_election k cfg S) = st_owner S"
  "st_nonce (insert_election k cfg S) = st_nonce S"
  by (simp_all add: supersede_def set_owner_def use_nonce_def add_ballot_def set_state_def insert_election_def)

lemma cast_fields [simp]:
  "st_election (cast_effect S k b p) = st_election S" "st_option (cast_effect S k b p) = st_option S"
  "st_eligible (cast_effect S k b p) = st_eligible S"
  by (simp_all add: cast_defs split: option.splits prod.splits)

lemma sel_nonce_cast:
  "sel j (st_nonce (cast_effect S k b p)) =
     (if j = k then add_mset (bal_nonce b) (sel k (st_nonce S)) else sel j (st_nonce S))"
  by (auto simp: cast_defs use_nonce_def split: option.splits)

lemma sel_owner_cast:
  "sel j (st_owner (cast_effect S k b p)) =
     (if j = k then add_mset (bal_cert_name b, rc_hash (cast_receipt b p), next_version p)
                 (filter_mset (\<lambda>(c', _). c' \<noteq> bal_cert_name b) (sel k (st_owner S)))
      else sel j (st_owner S))"
  by (auto simp: cast_defs sel_set_owner split: option.splits)

text \<open>The row of a new ballot, and the ballots after it was accepted.\<close>

definition cast_tuple :: "bb_ballot \<Rightarrow> (string \<times> int) option \<Rightarrow> string \<times> int \<times> int \<times> int" where
  "cast_tuple b p = (rc_hash (cast_receipt b p), chosen b, next_version p, 0)"

definition retire :: "(string \<times> int) option \<Rightarrow> string \<times> int \<times> int \<times> int \<Rightarrow> string \<times> int \<times> int \<times> int" where
  "retire p x = (case p of None \<Rightarrow> x
     | Some (h0, v0) \<Rightarrow> (case x of (h, ix, v, s) \<Rightarrow> if h = h0 then (h, ix, v, 1) else (h, ix, v, s)))"

lemma cast_hash_length: "length (rc_hash (cast_receipt b p)) = 64" "lead 64 (rc_hash (cast_receipt b p))"
  by (simp_all add: cast_receipt_def hash_from_seed_lead)

lemma sel_ballot_cast:
  "sel j (st_ballot (cast_effect S k b p)) =
     (if j = k then image_mset (retire p) (add_mset (cast_tuple b p) (sel k (st_ballot S)))
      else sel j (st_ballot S))"
proof -
  have h: "bh_hash (hash_row (rc_hash (cast_receipt b p)) i v) = rc_hash (cast_receipt b p)" for i v
    by (simp add: hash_row_def cast_hash_length BB_HASH_LEN_def)
  have add: "sel j (st_ballot (add_ballot k (hash_row (rc_hash (cast_receipt b p)) (chosen b) (next_version p)) S)) =
      (if j = k then add_mset (cast_tuple b p) (sel k (st_ballot S)) else sel j (st_ballot S))"
    using h by (auto simp: add_ballot_def hash_row_def cast_tuple_def)
  show ?thesis
  proof (cases p)
    case None
    have "retire p = id" using None by (auto simp: retire_def)
    then show ?thesis using add None by (auto simp: cast_defs)
  next
    case (Some hv)
    obtain h0 v0 where hv: "hv = (h0, v0)" by (cases hv)
    have r: "retire p = (\<lambda>(h, ix, v, s). if h = h0 then (h, ix, v, 1) else (h, ix, v, s))"
      using Some hv by (auto simp: retire_def)
    have "st_ballot (cast_effect S k b p) = st_ballot (supersede k h0
        (add_ballot k (hash_row (rc_hash (cast_receipt b p)) (chosen b) (next_version p)) S))"
      using Some hv by (simp add: cast_defs)
    then show ?thesis
      using add r by (auto simp: sel_supersede intro!: image_mset_cong multiset.map_ident_strong)
  qed
qed

lemma retire_fst [simp]: "fst (retire p x) = fst x"
  by (auto simp: retire_def split: option.splits prod.splits if_splits)

lemma retire_None [simp]: "retire None = id"
  by (auto simp: retire_def)

lemma retire_mid: "retire p (h, ix, v, s) = (h, ix, v, if p \<noteq> None \<and> fst (the p) = h then 1 else s)"
  by (auto simp: retire_def split: option.splits prod.splits)

lemma size_filter_image_mset:
  "(\<And>x. x \<in># M \<Longrightarrow> P (f x) \<longleftrightarrow> Q x) \<Longrightarrow> size (filter_mset P (image_mset f M)) = size (filter_mset Q M)"
  by (induction M) auto

lemma ballots_with_cast:
  "size (ballots_with (cast_effect S k b p) j h) =
     size (ballots_with S j h) + (if j = k \<and> h = rc_hash (cast_receipt b p) then 1 else 0)"
proof (cases "j = k")
  case True
  have "size (filter_mset (\<lambda>(h', _). h' = h) (image_mset (retire p) M)) = size (filter_mset (\<lambda>(h', _). h' = h) M)" for M
    by (rule size_filter_image_mset) (auto simp: retire_mid)
  with True show ?thesis
    unfolding ballots_with_def sel_ballot_cast by (auto simp: cast_tuple_def retire_mid)
qed (simp add: ballots_with_def sel_ballot_cast)

lemma owners_with_cast:
  "owners_with (cast_effect S k b p) j c =
     (if j = k \<and> c = bal_cert_name b then {#(c, rc_hash (cast_receipt b p), next_version p)#}
      else owners_with S j c)"
  by (auto simp: owners_with_def sel_owner_cast filter_filter_mset intro!: filter_mset_cong)

section \<open>The invariant is kept\<close>

lemma single_of_size: "size M \<le> 1 \<Longrightarrow> x \<in># M \<Longrightarrow> M = {#x#}"
  by (auto dest!: multi_member_split)

lemma store_invD:
  assumes "store_inv S"
  shows "store_ok S" "size (sel k (st_election S)) \<le> 1" "size (sel k (st_option S)) \<le> 16"
    "size (sel k (st_eligible S)) \<le> 64" "size (ballots_with S k h) \<le> 1" "size (owners_with S k c) \<le> 1"
    "count (sel k (st_nonce S)) n \<le> 1"
    "image_mset (\<lambda>(h, ix, v, s). (h, v)) (live_ballots S k) = image_mset snd (sel k (st_owner S))"
    "\<forall>(c, h, v) \<in># sel k (st_owner S). c \<in># sel k (st_eligible S) \<and> 1 \<le> v"
    "\<forall>(h, ix, v, s) \<in># sel k (st_ballot S). ix < int (size (sel k (st_option S)))"
    "\<forall>(q, row) \<in># sel k (st_election S). q = id_seq k"
  using assms unfolding store_inv_def store_ok_def keys_ok_def election_inv_def by blast+

text \<open>A voter's recorded ballot is live, and no other row carries its hash.\<close>

lemma prior_ballot:
  assumes "store_inv S" "prior_is S k c (Some (h0, v0))"
  shows "\<exists>ix. ballots_with S k h0 = {#(h0, ix, v0, 0)#}"
proof -
  from assms(2) have "(c, h0, v0) \<in># owners_with S k c" by (simp add: prior_is_def)
  then have "(c, h0, v0) \<in># sel k (st_owner S)" by (simp add: owners_with_def)
  then have "(h0, v0) \<in># image_mset snd (sel k (st_owner S))"
    by (metis image_eqI set_image_mset snd_conv)
  then have "(h0, v0) \<in># image_mset (\<lambda>(h, ix, v, s). (h, v)) (live_ballots S k)"
    by (simp only: store_invD(8) [OF assms(1)])
  then obtain ix where "(h0, ix, v0, 0) \<in># ballots_with S k h0"
    by (auto simp: live_ballots_def ballots_with_def)
  from single_of_size [OF store_invD(5) [OF assms(1)] this] show ?thesis ..
qed

lemma live_cast:
  "live_ballots (cast_effect S k b p) j =
     (if j = k then image_mset (retire p) (filter_mset (\<lambda>(h, ix, v, s). s = 0 \<and> \<not> (p \<noteq> None \<and> fst (the p) = h))
                 (add_mset (cast_tuple b p) (sel k (st_ballot S))))
      else live_ballots S j)"
proof -
  have "filter_mset (\<lambda>(h, ix, v, s). s = 0) (image_mset (retire p) M) =
      image_mset (retire p) (filter_mset (\<lambda>(h, ix, v, s). s = 0 \<and> \<not> (p \<noteq> None \<and> fst (the p) = h)) M)" for M
    by (induction M) (auto simp: retire_mid split: if_splits)
  then show ?thesis unfolding live_ballots_def sel_ballot_cast by (cases "j = k") (simp_all only: if_True if_False simp_thms)
qed

text \<open>Accepting a ballot replaces the voter's live ballot, or adds one.\<close>

lemma live_cast_current:
  assumes "store_inv S" "prior_is S k c p" "c = bal_cert_name b"
    and "ballots_with S k (rc_hash (cast_receipt b p)) = {#}"
  shows "image_mset (\<lambda>(h, ix, v, s). (h, v)) (live_ballots (cast_effect S k b p) k) =
         add_mset (rc_hash (cast_receipt b p), next_version p)
           (image_mset snd (filter_mset (\<lambda>(c', _). c' \<noteq> c) (sel k (st_owner S))))"
proof -
  let ?O = "sel k (st_owner S)" and ?g = "\<lambda>(h, ix, v, s). (h, v)"
  let ?h = "rc_hash (cast_receipt b p)"
  have inv: "image_mset ?g (live_ballots S k) = image_mset snd ?O"
    using store_invD(8) [OF assms(1)] .
  have part: "?O = owners_with S k c + filter_mset (\<lambda>(c', _). c' \<noteq> c) ?O"
    unfolding owners_with_def using multiset_partition [of ?O "\<lambda>(c', _). c' = c"]
    by (simp add: case_prod_unfold)
  have g: "?g (retire p x) = ?g x" for x by (cases x) (simp add: retire_mid)
  show ?thesis
  proof (cases p)
    case None
    with assms(2) part have "filter_mset (\<lambda>(c', _). c' \<noteq> c) ?O = ?O" by (simp add: prior_is_def)
    moreover have "live_ballots (cast_effect S k b p) k = add_mset (cast_tuple b p) (live_ballots S k)"
      unfolding live_cast using None by (simp add: cast_tuple_def live_ballots_def)
    ultimately show ?thesis using inv by (simp add: cast_tuple_def)
  next
    case (Some hv)
    obtain h0 v0 where hv: "hv = (h0, v0)" by (cases hv)
    with assms(1,2) Some obtain ix0 where old: "ballots_with S k h0 = {#(h0, ix0, v0, 0)#}"
      using prior_ballot by blast
    with assms(4) have ne: "?h \<noteq> h0" by auto
    let ?N = "filter_mset (\<lambda>(h, ix, v, s). s = 0 \<and> h \<noteq> h0) (sel k (st_ballot S))"
    have L: "live_ballots S k = add_mset (h0, ix0, v0, 0) ?N"
    proof -
      have "live_ballots S k = filter_mset (\<lambda>(h, ix, v, s). h = h0) (live_ballots S k) +
          filter_mset (\<lambda>(h, ix, v, s). h \<noteq> h0) (live_ballots S k)"
        using multiset_partition [of "live_ballots S k" "\<lambda>(h, ix, v, s). h = h0"] by (simp add: case_prod_unfold)
      moreover have "filter_mset (\<lambda>(h, ix, v, s). h = h0) (live_ballots S k) =
          filter_mset (\<lambda>(h, ix, v, s). s = 0) (ballots_with S k h0)"
        by (auto simp: live_ballots_def ballots_with_def filter_filter_mset intro!: filter_mset_cong)
      moreover have "filter_mset (\<lambda>(h, ix, v, s). h \<noteq> h0) (live_ballots S k) = ?N"
        by (auto simp: live_ballots_def filter_filter_mset intro!: filter_mset_cong)
      ultimately show ?thesis by (simp add: old)
    qed
    have "image_mset ?g (live_ballots (cast_effect S k b p) k) = add_mset (?h, next_version p) (image_mset ?g ?N)"
    proof -
      have "filter_mset (\<lambda>(h, ix, v, s). s = 0 \<and> \<not> (p \<noteq> None \<and> fst (the p) = h))
          (add_mset (cast_tuple b p) (sel k (st_ballot S))) = add_mset (cast_tuple b p) ?N"
        using ne Some hv by (auto simp: cast_tuple_def intro!: filter_mset_cong)
      then have "live_ballots (cast_effect S k b p) k = image_mset (retire p) (add_mset (cast_tuple b p) ?N)"
        by (simp only: live_cast if_True simp_thms)
      then show ?thesis using g by (simp add: multiset.map_comp comp_def cast_tuple_def)
    qed
    moreover have "image_mset snd ?O = add_mset (h0, v0) (image_mset snd (filter_mset (\<lambda>(c', _). c' \<noteq> c) ?O))"
      using arg_cong [OF part, of "image_mset snd"] assms(2) Some hv by (simp add: prior_is_def)
    moreover have "image_mset ?g (live_ballots S k) = add_mset (h0, v0) (image_mset ?g ?N)"
      by (simp add: L)
    ultimately show ?thesis using inv by simp
  qed
qed

text \<open>Each primitive update keeps a store well-formed.\<close>

lemma keys_okI:
  assumes "\<And>k. size (sel k (st_election S)) \<le> 1" "\<And>k. size (sel k (st_option S)) \<le> 16"
    "\<And>k. image_mset fst (sel k (st_option S)) = mset (map int [0..<size (sel k (st_option S))])"
    "\<And>k. size (sel k (st_eligible S)) \<le> 64" "\<And>k h. size (ballots_with S k h) \<le> 1"
    "\<And>k c. size (owners_with S k c) \<le> 1" "\<And>k n. count (sel k (st_nonce S)) n \<le> 1"
  shows "keys_ok S"
  unfolding keys_ok_def using assms by blast

lemma store_okD:
  assumes "store_ok S"
  shows "rows_text_ok S" "size (sel k (st_election S)) \<le> 1" "size (sel k (st_option S)) \<le> 16"
    "image_mset fst (sel k (st_option S)) = mset (map int [0..<size (sel k (st_option S))])"
    "size (sel k (st_eligible S)) \<le> 64" "size (ballots_with S k h) \<le> 1"
    "size (owners_with S k c) \<le> 1" "count (sel k (st_nonce S)) n \<le> 1"
  using assms unfolding store_ok_def keys_ok_def by blast+

lemma store_ok_add_ballot:
  assumes "store_ok S" "fits 15 k" "lead 64 (bh_hash row)" "count_ok (bh_option_index row)"
    "count_ok (bh_version row)" "count_ok (bh_superseded row)" "ballots_with S k (bh_hash row) = {#}"
  shows "store_ok (add_ballot k row S)"
  unfolding store_ok_def
proof (intro conjI keys_okI)
  show "rows_text_ok (add_ballot k row S)"
    using store_okD(1) [OF assms(1)] assms(2-6) by (simp add: rows_text_ok_def add_ballot_def)
  fix j h
  show "size (ballots_with (add_ballot k row S) j h) \<le> 1"
    using store_okD(6) [OF assms(1), of j h] assms(7)
    by (auto simp: ballots_with_def add_ballot_def)
qed (use store_okD [OF assms(1)] in \<open>simp_all add: owners_with_def\<close>)

lemma store_ok_supersede:
  assumes "store_ok S"
  shows "store_ok (supersede k h S)"
  unfolding store_ok_def
proof (intro conjI keys_okI)
  show "rows_text_ok (supersede k h S)"
    using store_okD(1) [OF assms] by (auto simp: rows_text_ok_def supersede_def split: prod.splits)
  fix j h'
  have "size (ballots_with (supersede k h S) j h') = size (ballots_with S j h')"
    unfolding ballots_with_def sel_supersede by (rule size_filter_image_mset) (auto split: if_splits)
  then show "size (ballots_with (supersede k h S) j h') \<le> 1" using store_okD(6) [OF assms] by simp
qed (use store_okD [OF assms] in \<open>simp_all add: owners_with_def\<close>)

lemma owners_with_set_owner:
  "owners_with (set_owner k c h v S) j c' = (if j = k \<and> c' = c then {#(c, h, v)#} else owners_with S j c')"
  by (auto simp: owners_with_def sel_set_owner filter_filter_mset intro!: filter_mset_cong)

lemma store_ok_set_owner:
  assumes "store_ok S" "fits 15 k" "fits 31 c" "lead 64 h" "count_ok v"
  shows "store_ok (set_owner k c h v S)"
  unfolding store_ok_def
proof (intro conjI keys_okI)
  show "rows_text_ok (set_owner k c h v S)"
    using store_okD(1) [OF assms(1)] assms(2-) by (auto simp: rows_text_ok_def set_owner_def)
  fix j c'
  show "size (owners_with (set_owner k c h v S) j c') \<le> 1"
    using store_okD(7) [OF assms(1), of j c'] by (simp add: owners_with_set_owner)
qed (use store_okD [OF assms(1)] in \<open>simp_all add: ballots_with_def\<close>)

lemma store_ok_use_nonce:
  assumes "store_ok S" "fits 15 k" "lead 32 n" "n \<noteq> []" "n \<notin># sel k (st_nonce S)"
  shows "store_ok (use_nonce k n S)"
  unfolding store_ok_def
proof (intro conjI keys_okI)
  show "rows_text_ok (use_nonce k n S)"
    using store_okD(1) [OF assms(1)] assms(2-4) by (simp add: rows_text_ok_def use_nonce_def)
  fix j n'
  show "count (sel j (st_nonce (use_nonce k n S))) n' \<le> 1"
    using store_okD(8) [OF assms(1), of j n'] assms(5) by (auto simp: use_nonce_def not_in_iff)
qed (use store_okD [OF assms(1)] in \<open>simp_all add: ballots_with_def owners_with_def\<close>)

lemma store_ok_set_state:
  assumes "store_ok S"
  shows "store_ok (set_state k st S)"
  unfolding store_ok_def
proof (intro conjI keys_okI)
  show "rows_text_ok (set_state k st S)"
    using store_okD(1) [OF assms] by (auto simp: rows_text_ok_def set_state_def split: prod.splits)
  fix j
  show "size (sel j (st_election (set_state k st S))) \<le> 1"
    using store_okD(2) [OF assms, of j] by (auto simp: sel_set_state)
qed (use store_okD [OF assms] in \<open>simp_all add: ballots_with_def owners_with_def\<close>)

lemma store_ok_insert:
  assumes "store_ok S" "fits 15 k" "config_ok cfg" "count_ok (id_seq k)" "sel k (st_election S) = {#}"
    "sel k (st_option S) = {#}" "sel k (st_eligible S) = {#}"
  shows "store_ok (insert_election k cfg S)"
  unfolding store_ok_def
proof (intro conjI keys_okI)
  show "rows_text_ok (insert_election k cfg S)"
    using store_okD(1) [OF assms(1)] assms(2-4)
    by (auto simp: rows_text_ok_def insert_election_def config_ok_def option_rows_def eligible_rows_def bb_lens)
  fix j
  have o: "sel j (st_option (insert_election k cfg S)) =
      (if j = k then mset (option_rows cfg) else sel j (st_option S))"
    "sel j (st_eligible (insert_election k cfg S)) =
      (if j = k then mset (eligible_rows cfg) else sel j (st_eligible S))"
    using assms(6,7) by (auto simp: insert_election_def)
  show "size (sel j (st_option (insert_election k cfg S))) \<le> 16"
    "size (sel j (st_eligible (insert_election k cfg S))) \<le> 64"
    unfolding o using store_okD(3,5) [OF assms(1), of j]
    by (simp_all add: option_rows_def eligible_rows_def bb_lens)
  show "image_mset fst (sel j (st_option (insert_election k cfg S))) =
      mset (map int [0..<size (sel j (st_option (insert_election k cfg S)))])"
    unfolding o using store_okD(4) [OF assms(1), of j]
    by (simp add: option_rows_def comp_def multiset.map_comp)
  show "size (sel j (st_election (insert_election k cfg S))) \<le> 1"
    using store_okD(2) [OF assms(1), of j] assms(5) by (auto simp: insert_election_def)
qed (use store_okD [OF assms(1)] in \<open>simp_all add: ballots_with_def owners_with_def\<close>)

lemma size_le_distinct:
  assumes "\<And>c. size (filter_mset (\<lambda>x. fst x = c) M) \<le> 1" "\<And>x. x \<in># M \<Longrightarrow> fst x \<in># N"
  shows "size M \<le> size N"
proof -
  have "image_mset fst M \<subseteq># N"
  proof (rule mset_subset_eqI)
    fix c
    have "count (image_mset fst M) c = size (filter_mset (\<lambda>x. fst x = c) M)"
      by (induction M) auto
    also have "\<dots> \<le> count N c"
    proof (cases "filter_mset (\<lambda>x. fst x = c) M = {#}")
      case True
      then show ?thesis by (simp only: size_empty le0)
    next
      case False
      then obtain x where "x \<in># filter_mset (\<lambda>x. fst x = c) M" by (rule multiset_nonemptyE)
      then have "x \<in># M" "fst x = c" by simp_all
      with assms(2) [of x] have "1 \<le> count N c" by (simp add: Suc_le_eq)
      with assms(1) [of c] show ?thesis by linarith
    qed
    finally show "count (image_mset fst M) c \<le> count N c" .
  qed
  from size_mset_mono [OF this] show ?thesis by simp
qed

text \<open>No election has more live ballots than eligible voters.\<close>

lemma live_le:
  assumes "store_inv S"
  shows "size (live_ballots S k) \<le> size (sel k (st_eligible S))" "size (live_ballots S k) \<le> 64"
proof -
  have "size (live_ballots S k) = size (sel k (st_owner S))"
    using arg_cong [OF store_invD(8) [OF assms, of k], of size] by simp
  also have "\<dots> \<le> size (sel k (st_eligible S))"
  proof (rule size_le_distinct)
    show "size (filter_mset (\<lambda>x. fst x = c) (sel k (st_owner S))) \<le> 1" for c
      using store_invD(6) [OF assms, of k c] by (simp add: owners_with_def case_prod_unfold)
    show "fst x \<in># sel k (st_eligible S)" if "x \<in># sel k (st_owner S)" for x
      using store_invD(9) [OF assms, of k] that by (cases x) auto
  qed
  finally show "size (live_ballots S k) \<le> size (sel k (st_eligible S))" .
  with store_invD(4) [OF assms, of k] show "size (live_ballots S k) \<le> 64" by linarith
qed

lemma chosen_nonneg: "0 \<le> chosen b"
  by (auto simp: chosen_def split: list.splits)

lemma verdict_okD:
  assumes "cast_verdict S k b = BB_OK"
  shows "sel k (st_election S) \<noteq> {#}" "in_state S k BB_STATE_OPEN" "bal_cert_name b \<in># sel k (st_eligible S)"
    "chosen b < int (size (sel k (st_option S)))" "bal_nonce b \<notin># sel k (st_nonce S)"
  using assms by (auto simp: cast_verdict_def split: if_splits)

lemma version_bounds:
  assumes "store_inv S" "prior_is S k c p"
  shows "1 \<le> next_version p"
proof (cases p)
  case (Some hv)
  obtain h v where hv: "hv = (h, v)" by (cases hv)
  with assms(2) Some have "(c, h, v) \<in># owners_with S k c" by (simp add: prior_is_def)
  then have "(c, h, v) \<in># sel k (st_owner S)" by (simp add: owners_with_def)
  with store_invD(9) [OF assms(1), of k] Some hv show ?thesis by (auto simp: next_version_def)
qed (simp add: next_version_def)

definition can_cast :: "store \<Rightarrow> string \<Rightarrow> bb_ballot \<Rightarrow> (string \<times> int) option \<Rightarrow> bool" where
  "can_cast S k b p \<longleftrightarrow>
     store_inv S \<and> cast_verdict S k b = BB_OK \<and> ballot_ok b \<and> fits 15 k \<and> fresh_for S k b \<and>
     prior_is S k (bal_cert_name b) p"

lemma can_castD:
  assumes "can_cast S k b p"
  shows "store_inv S" "cast_verdict S k b = BB_OK" "fits 31 (bal_cert_name b)" "lead 32 (bal_nonce b)"
    "bal_nonce b \<noteq> []" "fits 15 k" "ballots_with S k (rc_hash (cast_receipt b p)) = {#}"
    "count_ok (next_version p)" "1 \<le> next_version p" "count_ok (chosen b)"
    "prior_is S k (bal_cert_name b) p"
proof -
  have *: "store_inv S" "cast_verdict S k b = BB_OK" "ballot_ok b" "fits 15 k" "fresh_for S k b"
    "prior_is S k (bal_cert_name b) p" using assms by (simp_all add: can_cast_def)
  show "store_inv S" "cast_verdict S k b = BB_OK" "fits 15 k" "prior_is S k (bal_cert_name b) p"
    using * by simp_all
  show "fits 31 (bal_cert_name b)" "lead 32 (bal_nonce b)" "bal_nonce b \<noteq> []"
    using *(3) by (simp_all add: ballot_ok_def)
  have v: "next_version p < 2 ^ 31" using *(5,6) unfolding fresh_for_def by blast
  show "ballots_with S k (rc_hash (cast_receipt b p)) = {#}" using *(5,6) unfolding fresh_for_def by blast
  show "1 \<le> next_version p" using version_bounds [OF *(1,6)] .
  with v show "count_ok (next_version p)" by simp
  show "count_ok (chosen b)"
    using chosen_nonneg [of b] verdict_okD(4) [OF *(2)] store_invD(3) [OF *(1), of k] by simp
qed

lemma store_ok_cast:
  assumes "can_cast S k b p"
  shows "store_ok (cast_added S k b p)" "store_ok (cast_retired S k b p)" "store_ok (cast_owned S k b p)"
    "store_ok (cast_effect S k b p)"
proof -
  note c = can_castD [OF assms]
  have row: "bh_hash (hash_row (rc_hash (cast_receipt b p)) x y) = rc_hash (cast_receipt b p)" for x y
    by (simp add: hash_row_def cast_hash_length BB_HASH_LEN_def)
  show 1: "store_ok (cast_added S k b p)"
    unfolding cast_added_def using c store_invD(1) [OF c(1)] cast_hash_length(2) [of b p]
    by (intro store_ok_add_ballot) (simp_all add: row, simp_all add: hash_row_def)
  show 2: "store_ok (cast_retired S k b p)"
    unfolding cast_retired_def using 1 by (auto intro: store_ok_supersede split: option.splits)
  show 3: "store_ok (cast_owned S k b p)"
    unfolding cast_owned_def using 2 c cast_hash_length(2) [of b p] by (intro store_ok_set_owner) simp_all
  have "bal_nonce b \<notin># sel k (st_nonce (cast_owned S k b p))"
    using verdict_okD(5) [OF c(2)] by (simp add: cast_defs split: option.splits prod.splits)
  then show "store_ok (cast_effect S k b p)"
    unfolding cast_effect_def using 3 c by (intro store_ok_use_nonce) simp_all
qed

lemma election_inv_cong:
  assumes "election_inv S j" "sel j (st_election S') = sel j (st_election S)"
    "sel j (st_option S') = sel j (st_option S)" "sel j (st_eligible S') = sel j (st_eligible S)"
    "sel j (st_ballot S') = sel j (st_ballot S)" "sel j (st_owner S') = sel j (st_owner S)"
    "sel j (st_nonce S') = sel j (st_nonce S)"
  shows "election_inv S' j"
  using assms(1) unfolding election_inv_def live_ballots_def assms(2-) .

lemma store_inv_cast:
  assumes "can_cast S k b p"
  shows "store_inv (cast_effect S k b p)"
  unfolding store_inv_def
proof (intro conjI allI store_ok_cast(4) [OF assms])
  fix j
  note c = can_castD [OF assms]
  have inv: "election_inv S j" using c(1) by (simp add: store_inv_def)
  show "election_inv (cast_effect S k b p) j"
  proof (cases "j = k")
    case False
    from inv show ?thesis
      by (rule election_inv_cong) (simp_all add: False sel_ballot_cast sel_owner_cast sel_nonce_cast)
  next
    case True
    show ?thesis
      unfolding election_inv_def cast_fields True
    proof (intro conjI impI)
      show "\<forall>(q, row) \<in># sel k (st_election S). q = id_seq k" using store_invD(11) [OF c(1)] .
      show "image_mset (\<lambda>(h, ix, v, s). (h, v)) (live_ballots (cast_effect S k b p) k) =
          image_mset snd (sel k (st_owner (cast_effect S k b p)))"
        using live_cast_current [OF c(1,11) refl c(7)] by (simp add: sel_owner_cast)
      show "\<forall>(c, h, v) \<in># sel k (st_owner (cast_effect S k b p)). c \<in># sel k (st_eligible S) \<and> 1 \<le> v"
        using store_invD(9) [OF c(1), of k] verdict_okD(3) [OF c(2)] c(9)
        by (auto simp: sel_owner_cast)
      show "\<forall>(h, ix, v, s) \<in># sel k (st_ballot (cast_effect S k b p)). ix < int (size (sel k (st_option S)))"
        using store_invD(10) [OF c(1), of k] verdict_okD(4) [OF c(2)]
        by (auto simp: sel_ballot_cast retire_mid cast_tuple_def)
    qed (use verdict_okD(1) [OF c(2)] in simp_all)
  qed
qed

lemma store_inv_set_state:
  assumes "store_inv S"
  shows "store_inv (set_state k st S)"
  unfolding store_inv_def
proof (intro conjI allI store_ok_set_state store_invD(1) [OF assms])
  fix j
  have inv: "election_inv S j" using assms by (simp add: store_inv_def)
  show "election_inv (set_state k st S) j"
  proof (cases "j = k")
    case False
    from inv show ?thesis by (rule election_inv_cong) (simp_all add: False sel_set_state)
  next
    case True
    from inv show ?thesis
      unfolding election_inv_def live_ballots_def True other_fields sel_set_state by auto
  qed
qed

lemma no_election:
  assumes "store_inv S" "sel k (st_election S) = {#}"
  shows "sel k (st_option S) = {#}" "sel k (st_eligible S) = {#}" "sel k (st_ballot S) = {#}"
    "sel k (st_owner S) = {#}" "sel k (st_nonce S) = {#}"
  using assms unfolding store_inv_def election_inv_def by blast+

lemma store_inv_insert:
  assumes "store_inv S" "fits 15 k" "config_ok cfg" "count_ok (id_seq k)" "sel k (st_election S) = {#}"
  shows "store_inv (insert_election k cfg S)"
  unfolding store_inv_def
proof (intro conjI allI)
  note none = no_election [OF assms(1,5)]
  show "store_ok (insert_election k cfg S)"
    using store_ok_insert [OF store_invD(1) [OF assms(1)] assms(2-5) none(1,2)] .
  fix j
  have inv: "election_inv S j" using assms(1) by (simp add: store_inv_def)
  show "election_inv (insert_election k cfg S) j"
  proof (cases "j = k")
    case False
    from inv show ?thesis by (rule election_inv_cong) (use False in \<open>auto simp: insert_election_def\<close>)
  next
    case True
    then show ?thesis
      using none assms(5) by (simp add: election_inv_def live_ballots_def insert_election_def)
  qed
qed

lemma store_step_inv: "store_step S S' \<Longrightarrow> store_inv S \<Longrightarrow> store_inv S'"
  by (induction rule: store_step.induct) (auto intro: store_inv_cast store_inv_set_state store_inv_insert simp: can_cast_def)

abbreviation store_steps :: "store \<Rightarrow> store \<Rightarrow> bool" where
  "store_steps \<equiv> store_step\<^sup>*\<^sup>*"

lemma store_steps_inv: "store_steps S S' \<Longrightarrow> store_inv S \<Longrightarrow> store_inv S'"
  by (induction rule: rtranclp_induct) (auto intro: store_step_inv)

lemma store_inv_empty: "store_inv empty_store"
  by (auto simp: store_inv_def store_ok_def rows_text_ok_def keys_ok_def election_inv_def empty_store_def
      ballots_with_def owners_with_def live_ballots_def)

section \<open>What a run of steps cannot do\<close>

lemma in_state_unique:
  assumes "store_inv S" "in_state S k a" "in_state S k b"
  shows "a = b"
proof -
  from assms(2) obtain x where x: "x \<in># sel k (st_election S)" "(\<lambda>(q, t, s, a, b). s) x = a"
    by (auto simp: in_state_def)
  from single_of_size [OF store_invD(2) [OF assms(1)] x(1)] x(2) assms(3) show ?thesis
    by (auto simp: in_state_def)
qed

lemma in_state_set_state:
  "in_state (set_state k st S) j a \<longleftrightarrow>
     (if j = k then a = st \<and> sel k (st_election S) \<noteq> {#} else in_state S j a)"
proof -
  have "image_mset (\<lambda>(q, t, s, a, b). s) (image_mset (\<lambda>(q, t, s, a, b). (q, t, st, a, b)) M) = image_mset (\<lambda>_. st) M"
    for M :: "(int \<times> string \<times> bb_state \<times> string \<times> string) multiset" by (induction M) auto
  note im = this [of "sel k (st_election S)"]
  show ?thesis
  proof (cases "j = k")
    case True
    then have "in_state (set_state k st S) j a \<longleftrightarrow> a \<in># image_mset (\<lambda>_. st) (sel k (st_election S))"
      unfolding in_state_def sel_set_state by (simp only: if_True simp_thms im)
    with True show ?thesis by auto
  qed (simp add: in_state_def sel_set_state)
qed

lemma in_state_insert:
  "in_state (insert_election k cfg S) j a \<longleftrightarrow> (j = k \<and> a = BB_STATE_DRAFT) \<or> in_state S j a"
  by (auto simp: in_state_def insert_election_def)

lemma in_state_cast [simp]: "in_state (cast_effect S k b p) j a \<longleftrightarrow> in_state S j a"
  by (simp add: in_state_def)

text \<open>One step moves an election along the lifecycle or leaves its state alone.\<close>

lemma step_state:
  assumes "store_step S S'" "store_inv S" "in_state S k a"
  shows "\<exists>b. in_state S' k b \<and> state_rank a \<le> state_rank b"
  using assms
proof (induction rule: store_step.induct)
  case (advance S k' a' b)
  show ?case
  proof (cases "k = k'")
    case True
    with advance in_state_unique [of S k a a'] have "a' = a" by simp
    moreover have "sel k (st_election S) \<noteq> {#}" using advance.prems(2) by (auto simp: in_state_def)
    ultimately show ?thesis
      using True advance.hyps(2) by (auto simp: in_state_set_state legal_transition_rank)
  next
    case False
    with advance.prems show ?thesis by (auto simp: in_state_set_state)
  qed
qed (auto simp: in_state_insert)

lemma steps_state:
  assumes "store_steps S S'" "store_inv S" "in_state S k a"
  shows "\<exists>b. in_state S' k b \<and> state_rank a \<le> state_rank b"
  using assms(1)
proof (induction rule: rtranclp_induct)
  case base
  show ?case using assms(3) by blast
next
  case (step T U)
  then obtain b where b: "in_state T k b" "state_rank a \<le> state_rank b" by blast
  from step_state [OF step.hyps(2) store_steps_inv [OF step.hyps(1) assms(2)] b(1)] b(2) show ?case
    by (meson le_trans)
qed

text \<open>After closing, the ballots of an election never change again.\<close>

lemma steps_frozen:
  assumes "store_steps S S'" "store_inv S" "in_state S k a" "2 \<le> state_rank a"
  shows "sel k (st_ballot S') = sel k (st_ballot S) \<and> sel k (st_owner S') = sel k (st_owner S)"
  using assms(1)
proof (induction rule: rtranclp_induct)
  case (step T U)
  from steps_state [OF step.hyps(1) assms(2,3)] assms(4) obtain b where
    b: "in_state T k b" "2 \<le> state_rank b" by auto
  have inv: "store_inv T" using store_steps_inv [OF step.hyps(1) assms(2)] .
  from step.hyps(2) have "sel k (st_ballot U) = sel k (st_ballot T) \<and> sel k (st_owner U) = sel k (st_owner T)"
  proof (cases rule: store_step.cases)
    case (cast k' b' p)
    have "k' \<noteq> k"
      using verdict_okD(2) [OF cast(2)] in_state_unique [OF inv b(1), of BB_STATE_OPEN] b(2)
      by (auto simp: state_rank_def)
    with cast(1) show ?thesis by (simp add: sel_ballot_cast sel_owner_cast)
  qed simp_all
  with step.IH show ?case by simp
qed simp

text \<open>A used nonce stays used, and a recorded hash is never dropped.\<close>

lemma steps_kept:
  assumes "store_steps S S'"
  shows "sel k (st_nonce S) \<subseteq># sel k (st_nonce S')"
    "image_mset fst (sel k (st_ballot S)) \<subseteq># image_mset fst (sel k (st_ballot S'))"
proof -
  have "sel k (st_nonce S) \<subseteq># sel k (st_nonce S') \<and>
      image_mset fst (sel k (st_ballot S)) \<subseteq># image_mset fst (sel k (st_ballot S'))"
    using assms
  proof (induction rule: rtranclp_induct)
    case (step T U)
    from step.hyps(2) have "sel k (st_nonce T) \<subseteq># sel k (st_nonce U) \<and>
        image_mset fst (sel k (st_ballot T)) \<subseteq># image_mset fst (sel k (st_ballot U))"
    proof (cases rule: store_step.cases)
      case (cast k' b p)
      have "image_mset fst (image_mset (retire p) M) = image_mset fst M" for M
        by (simp add: multiset.map_comp comp_def)
      with cast(1) show ?thesis by (auto simp: sel_nonce_cast sel_ballot_cast)
    qed simp_all
    with step.IH show ?case by (meson subset_mset.order_trans)
  qed simp
  then show "sel k (st_nonce S) \<subseteq># sel k (st_nonce S')"
    "image_mset fst (sel k (st_ballot S)) \<subseteq># image_mset fst (sel k (st_ballot S'))" by simp_all
qed

end
