(* ===== verification/Brain_Laws.thy ===== *)
theory Brain_Laws
  imports Brain_Inv
begin

text \<open>
  What every handler guarantees over a storage seam that keeps the contract \<open>ballot_store\<close>:
  on every branch the result code, the data handed out and the store left behind, for a run
  that a fault may strike at any call and, with \<open>k\<close>, for one that none does.
\<close>

section \<open>Commands of the handlers\<close>

lemma id_cmd_simps [simp]:
  "cmd_op (id_cmd op i) = op" "cmd_election_id (id_cmd op i) = snprintf_s BB_ID_LEN i"
  by (simp_all add: id_cmd_def cmd0_def)

lemma id_fits [simp]: "fits 15 i \<Longrightarrow> snprintf_s BB_ID_LEN i = i"
  by (simp add: fits_def BB_ID_LEN_def)

lemma cert_fits [simp]: "fits 31 c \<Longrightarrow> snprintf_s BB_CERT_LEN c = c"
  by (simp add: fits_def BB_CERT_LEN_def)

lemma nonce_fits [simp]: "fits 32 n \<Longrightarrow> snprintf_s BB_NONCE_LEN n = n"
  by (simp add: fits_def BB_NONCE_LEN_def)

lemma hash_fits [simp]: "fits 64 h \<Longrightarrow> snprintf_s BB_HASH_LEN h = h"
  by (simp add: fits_def BB_HASH_LEN_def)

lemma lead_is_fits [simp]: "lead n s \<Longrightarrow> fits n s"
  by (simp add: lead_def)

lemma cmds_ok:
  assumes "fits 15 i"
  shows "cmd_ok (id_cmd BB_DB_GET_ELECTION i)" "cmd_ok (id_cmd BB_DB_GET_TALLY i)" "cmd_ok (id_cmd BB_DB_GET_HASHES i)"
    "fits 32 n \<Longrightarrow> cmd_ok (seen_cmd i n)" "fits 31 c \<Longrightarrow> cmd_ok (prior_cmd i c)" "fits 64 h \<Longrightarrow> cmd_ok (find_cmd i h)"
    "lead 64 (bh_hash row) \<Longrightarrow> count_ok (bh_option_index row) \<Longrightarrow> count_ok (bh_version row) \<Longrightarrow>
       count_ok (bh_superseded row) \<Longrightarrow> cmd_ok (append_cmd i row)"
    "lead 64 h \<Longrightarrow> cmd_ok (mark_cmd i h)"
    "fits 31 c \<Longrightarrow> lead 64 h \<Longrightarrow> count_ok v \<Longrightarrow> cmd_ok (owner_cmd i c h v)"
    "lead 32 n \<Longrightarrow> n \<noteq> [] \<Longrightarrow> cmd_ok (consume_cmd i n)" "cmd_ok (state_cmd i st)"
    "config_ok cfg \<Longrightarrow> count_ok (id_seq i) \<Longrightarrow> cmd_ok (insert_cmd i cfg)"
  using assms
  by (simp_all add: cmd_ok_def seen_cmd_def prior_cmd_def find_cmd_def append_cmd_def mark_cmd_def owner_cmd_def
      consume_cmd_def state_cmd_def insert_cmd_def)

lemma cmds_read [simp]:
  "read_pre (id_cmd BB_DB_GET_ELECTION i) S" "read_pre (seen_cmd i n) S" "read_pre (prior_cmd i c) S"
  "read_pre (find_cmd i h) S"
  "cmd_op (seen_cmd i n) = BB_DB_NONCE_SEEN" "cmd_op (prior_cmd i c) = BB_DB_GET_PRIOR_BALLOT"
  "cmd_op (find_cmd i h) = BB_DB_FIND_HASH" "cmd_op (append_cmd i row) = BB_DB_APPEND_BALLOT"
  "cmd_op (mark_cmd i h) = BB_DB_MARK_SUPERSEDED" "cmd_op (owner_cmd i c h v) = BB_DB_SET_OWNER"
  "cmd_op (consume_cmd i n) = BB_DB_NONCE_MARK" "cmd_op (state_cmd i st) = BB_DB_UPDATE_STATE"
  "cmd_op (insert_cmd i cfg) = BB_DB_INSERT_ELECTION"
  by (simp_all add: read_pre_def seen_cmd_def prior_cmd_def find_cmd_def append_cmd_def mark_cmd_def owner_cmd_def
      consume_cmd_def state_cmd_def insert_cmd_def)

lemma cmds_write:
  assumes "fits 15 i"
  shows "spec_write (append_cmd i row) S = add_ballot i row S"
    "lead 64 h \<Longrightarrow> spec_write (mark_cmd i h) S = supersede i h S"
    "fits 31 c \<Longrightarrow> lead 64 h \<Longrightarrow> spec_write (owner_cmd i c h v) S = set_owner i c h v S"
    "lead 32 n \<Longrightarrow> spec_write (consume_cmd i n) S = use_nonce i n S"
    "spec_write (state_cmd i st) S = set_state i st S"
    "spec_write (insert_cmd i cfg) S = insert_election i cfg S"
  using assms
  by (simp_all add: spec_write_def append_cmd_def mark_cmd_def owner_cmd_def consume_cmd_def state_cmd_def
      insert_cmd_def Let_def)

lemma cmds_pre:
  assumes "fits 15 i"
  shows "write_pre (append_cmd i row) S" "write_pre (owner_cmd i c h v) S" "write_pre (consume_cmd i n) S"
    "write_pre (insert_cmd i cfg) S"
    "lead 64 h \<Longrightarrow> ballots_with S i h \<noteq> {#} \<Longrightarrow> write_pre (mark_cmd i h) S"
    "sel i (st_election S) \<noteq> {#} \<Longrightarrow> write_pre (state_cmd i st) S"
  using assms by (simp_all add: write_pre_def mark_cmd_def state_cmd_def)

section \<open>Reading an election\<close>

lemma election_facts:
  assumes "store_inv S" "row \<in># sel i (st_election S)" "election_is S i row e"
  shows "in_state S i (el_state e)" "el_option_count e = int (size (sel i (st_option S)))"
    "bb_check_eligibility e c \<longleftrightarrow> c \<in># sel i (st_eligible S)"
proof -
  from assms(2,3) show "in_state S i (el_state e)"
    unfolding in_state_def set_image_mset
    by (intro rev_image_eqI [OF assms(2)]) (auto simp: election_is_def split: prod.splits)
  from assms(3) have e: "length (el_eligible e) = 64" "el_eligible_count e = int (size (sel i (st_eligible S)))"
    "mset (take (nat (el_eligible_count e)) (el_eligible e)) = sel i (st_eligible S)"
    and "el_option_count e = int (size (sel i (st_option S)))"
    by (auto simp: election_is_def split: prod.splits)
  then show "el_option_count e = int (size (sel i (st_option S)))" by simp
  have "bb_check_eligibility e c \<longleftrightarrow> c \<in> set (take (nat (el_eligible_count e)) (el_eligible e))"
    by (rule check_eligibility_iff) (use e store_invD(4) [OF assms(1), of i] in simp_all)
  also have "\<dots> \<longleftrightarrow> c \<in># sel i (st_eligible S)" using e(3) by (metis set_mset_mset)
  finally show "bb_check_eligibility e c \<longleftrightarrow> c \<in># sel i (st_eligible S)" .
qed

definition found_election :: "store \<Rightarrow> string \<Rightarrow> bb_election \<Rightarrow> bool" where
  "found_election S i e \<longleftrightarrow> (\<exists>row \<in># sel i (st_election S). election_is S i row e)"

lemma get_election_read:
  assumes "read_spec (id_cmd BB_DB_GET_ELECTION i) S res" "fits 15 i"
  shows "out_found res \<longleftrightarrow> sel i (st_election S) \<noteq> {#}" "out_found res \<Longrightarrow> found_election S i (out_election res)"
proof -
  have r: "(out_found res \<longleftrightarrow> sel i (st_election S) \<noteq> {#}) \<and>
      (\<forall>row \<in># sel i (st_election S). election_is S i row (out_election res))"
    using assms by (simp add: read_spec_def Let_def)
  then show "out_found res \<longleftrightarrow> sel i (st_election S) \<noteq> {#}" by simp
  assume "out_found res"
  with r obtain row where "row \<in># sel i (st_election S)" by (meson multiset_nonemptyE)
  with r show "found_election S i (out_election res)" unfolding found_election_def by blast
qed

text \<open>Both forms of the read laws, in and outside a transaction, share the shape
  \<open>T w\<close> on success and \<open>F r w\<close> on failure.\<close>

lemma load_election_law:
  assumes "fits 15 i"
    and "spec P (sm_exec K (id_cmd BB_DB_GET_ELECTION i))
       (\<lambda>(r, res) w. (r = BB_OK \<and> read_spec (id_cmd BB_DB_GET_ELECTION i) S res \<and> T w) \<or> (r \<noteq> BB_OK \<and> F r w))"
  shows "spec P (load_election K i)
     (\<lambda>(r, e) w. (r = BB_OK \<and> found_election S i e \<and> T w) \<or>
                  (r \<noteq> BB_OK \<and> ((r = BB_ERR_NOT_FOUND \<and> sel i (st_election S) = {#} \<and> T w) \<or> F r w)))"
  unfolding load_election_def
proof (rule spec_call [OF assms(2)])
  fix res
  show "spec (\<lambda>w. read_spec (id_cmd BB_DB_GET_ELECTION i) S res \<and> T w)
     (if \<not> out_found res then State_Monad.return (BB_ERR_NOT_FOUND, election0) else State_Monad.return (BB_OK, out_election res))
     (\<lambda>(r, e) w. (r = BB_OK \<and> found_election S i e \<and> T w) \<or>
                  (r \<noteq> BB_OK \<and> ((r = BB_ERR_NOT_FOUND \<and> sel i (st_election S) = {#} \<and> T w) \<or> F r w)))"
    by (rule spec_fact) (use get_election_read [OF _ assms(1)] in \<open>auto intro!: spec_return\<close>)
qed (auto intro: spec_return)

section \<open>Recording a ballot\<close>

definition cast_post :: "(store \<Rightarrow> 'w \<Rightarrow> bool) \<Rightarrow> (bb_result \<Rightarrow> 'w \<Rightarrow> bool) \<Rightarrow> store \<Rightarrow> string \<Rightarrow> bb_ballot \<Rightarrow>
    bb_result \<times> bb_receipt \<Rightarrow> 'w \<Rightarrow> bool" where
  "cast_post T F D i b rr w \<longleftrightarrow>
     (fst rr = BB_OK \<and> cast_verdict D i b = BB_OK \<and>
        (\<exists>p. prior_is D i (bal_cert_name b) p \<and> snd rr = cast_receipt b p \<and> T (cast_effect D i b p) w)) \<or>
     (fst rr \<noteq> BB_OK \<and> fst rr = cast_verdict D i b \<and> T D w) \<or>
     (fst rr \<noteq> BB_OK \<and> F (fst rr) w)"

definition cast_failed :: "(bool \<Rightarrow> store \<Rightarrow> 'w \<Rightarrow> bool) \<Rightarrow> bool \<Rightarrow> store \<Rightarrow> string \<Rightarrow> bb_ballot \<Rightarrow>
    bb_result \<Rightarrow> 'w \<Rightarrow> bool" where
  "cast_failed idle k D i b r w \<longleftrightarrow>
     \<not> k \<and> infra r \<and>
     (idle k D w \<or>
      (r = BB_ERR_DB \<and> cast_verdict D i b = BB_OK \<and>
       (\<exists>p. prior_is D i (bal_cert_name b) p \<and> idle k (cast_effect D i b p) w)))"

lemma cast_refuse:
  "r = cast_verdict D i b \<Longrightarrow> r \<noteq> BB_OK \<Longrightarrow> spec (T D) (State_Monad.return (r, rc)) (cast_post T F D i b)"
  by (rule spec_return) (simp add: cast_post_def)

lemma cast_fail: "r \<noteq> BB_OK \<Longrightarrow> spec (F r) (State_Monad.return (r, rc)) (cast_post T F D i b)"
  by (rule spec_return) (simp add: cast_post_def)

text \<open>What the store answers about the voter's prior ballot.\<close>

definition prior_of :: "bb_db_result \<Rightarrow> (string \<times> int) option" where
  "prior_of res = (if out_found res then Some (bh_hash (out_row res), bh_version (out_row res)) else None)"

lemma prior_read:
  assumes "read_spec (prior_cmd i c) S res" "store_inv S" "fits 15 i" "fits 31 c"
  shows "prior_is S i c (prior_of res)"
proof -
  have r: "out_found res \<longleftrightarrow> owners_with S i c \<noteq> {#}"
    "out_found res \<Longrightarrow> (c, bh_hash (out_row res), bh_version (out_row res)) \<in># owners_with S i c"
    using assms(1,3,4) by (auto simp: read_spec_def prior_cmd_def Let_def)
  show ?thesis
  proof (cases "out_found res")
    case True
    from single_of_size [OF store_invD(6) [OF assms(2)] r(2) [OF True]] True show ?thesis
      by (simp add: prior_is_def prior_of_def)
  next
    case False
    with r(1) show ?thesis by (simp add: prior_is_def prior_of_def)
  qed
qed

lemma owner_text:
  assumes "store_ok S" "prior_is S i c (Some (h, v))"
  shows "lead 64 h" "count_ok v"
proof -
  have "(c, h, v) \<in># owners_with S i c" using assms(2) by (simp add: prior_is_def)
  then have "(i, c, h, v) \<in># st_owner S" by (simp add: owners_with_def in_sel)
  with store_okD(1) [OF assms(1)] show "lead 64 h" "count_ok v" by (auto simp: rows_text_ok_def)
qed

context ballot_store
begin

lemma log_lines_txn: "spec (in_txn k D S) (log_lines K ls) (\<lambda>_. in_txn k D S)"
  by (induction ls) (auto intro: spec_return spec_bind [OF log_txn])

lemma log_lines_idle: "spec (idle k D) (log_lines K ls) (\<lambda>_. idle k D)"
  by (induction ls) (auto intro: spec_return spec_bind [OF log_idle])

lemma append_step:
  assumes "can_cast D i b p"
  shows "spec (in_txn k D D)
     (sm_exec K (append_cmd i (hash_row (rc_hash (cast_receipt b p)) (chosen b) (next_version p))))
     (\<lambda>(r, res) w. (r = BB_OK \<and> in_txn k D (cast_added D i b p) w) \<or>
                     (r \<noteq> BB_OK \<and> \<not> k \<and> infra r \<and> broken D w))"
proof -
  note c = can_castD [OF assms]
  let ?row = "hash_row (rc_hash (cast_receipt b p)) (chosen b) (next_version p)"
  have row: "bh_hash ?row = rc_hash (cast_receipt b p)" "bh_option_index ?row = chosen b"
    "bh_version ?row = next_version p" "bh_superseded ?row = 0"
    by (simp_all add: hash_row_def cast_hash_length BB_HASH_LEN_def)
  have ok: "cmd_ok (append_cmd i ?row)"
    using c cast_hash_length(2) [of b p] by (intro cmds_ok) (simp_all add: row)
  show ?thesis
    using write_txn [OF store_invD(1) [OF c(1)] ok, of k D] cmds_pre(1) [OF c(6)]
    by (simp add: cmds_write(1) [OF c(6)] cast_added_def)
qed

lemma mark_step:
  assumes "can_cast D i b (prior_of res)"
  shows "spec (in_txn k D (cast_added D i b (prior_of res)))
     (if out_found res then sm_exec K (mark_cmd i (bh_hash (out_row res))) else State_Monad.return (BB_OK, result0))
     (\<lambda>(r, res') w. (r = BB_OK \<and> in_txn k D (cast_retired D i b (prior_of res)) w) \<or>
                      (r \<noteq> BB_OK \<and> \<not> k \<and> infra r \<and> broken D w))"
proof (rule spec_if)
  note c = can_castD [OF assms]
  assume f: "out_found res"
  let ?h = "bh_hash (out_row res)" and ?S = "cast_added D i b (prior_of res)"
  have p: "prior_of res = Some (?h, bh_version (out_row res))" using f by (simp add: prior_of_def)
  have l: "lead 64 ?h" using owner_text [OF store_invD(1) [OF c(1)] c(11) [unfolded p]] by simp
  obtain ix where "(?h, ix, bh_version (out_row res), 0) \<in># ballots_with D i ?h"
    using prior_ballot [OF c(1) c(11) [unfolded p]] by (metis union_single_eq_member)
  then have "(?h, ix, bh_version (out_row res), 0) \<in># ballots_with ?S i ?h"
    by (simp add: ballots_with_def cast_added_def add_ballot_def)
  then have "ballots_with ?S i ?h \<noteq> {#}" by auto
  with write_txn [OF store_ok_cast(1) [OF assms] cmds_ok(8) [OF c(6) l], of k D] cmds_pre(5) [OF c(6) l, of ?S]
    cmds_write(2) [OF c(6) l, of ?S] p
  show "spec (in_txn k D ?S) (sm_exec K (mark_cmd i ?h))
      (\<lambda>(r, res') w. (r = BB_OK \<and> in_txn k D (cast_retired D i b (prior_of res)) w) \<or>
                      (r \<noteq> BB_OK \<and> \<not> k \<and> infra r \<and> broken D w))"
    by (simp add: cast_retired_def)
qed (auto intro!: spec_return simp: cast_retired_def prior_of_def)

lemma owner_step:
  assumes "can_cast D i b p"
  shows "spec (in_txn k D (cast_retired D i b p))
     (sm_exec K (owner_cmd i (bal_cert_name b) (rc_hash (cast_receipt b p)) (next_version p)))
     (\<lambda>(r, res) w. (r = BB_OK \<and> in_txn k D (cast_owned D i b p) w) \<or>
                     (r \<noteq> BB_OK \<and> \<not> k \<and> infra r \<and> broken D w))"
proof -
  note c = can_castD [OF assms] and h = cast_hash_length(2) [of b p]
  show ?thesis
    using write_txn [OF store_ok_cast(2) [OF assms] cmds_ok(9) [OF c(6,3) h c(8)], of k D]
      cmds_pre(2) [OF c(6)] cmds_write(3) [OF c(6,3) h]
    by (simp add: cast_owned_def)
qed

lemma consume_step:
  assumes "can_cast D i b p"
  shows "spec (in_txn k D (cast_owned D i b p)) (sm_exec K (consume_cmd i (bal_nonce b)))
     (\<lambda>(r, res) w. (r = BB_OK \<and> in_txn k D (cast_effect D i b p) w) \<or>
                     (r \<noteq> BB_OK \<and> \<not> k \<and> infra r \<and> broken D w))"
proof -
  note c = can_castD [OF assms]
  show ?thesis
    using write_txn [OF store_ok_cast(3) [OF assms] cmds_ok(10) [OF c(6,4,5)], of k D]
      cmds_pre(3) [OF c(6)] cmds_write(4) [OF c(6,4)]
    by (simp add: cast_effect_def)
qed

lemma write_ballot_law:
  assumes "can_cast D i b (prior_of res)"
  shows "spec (in_txn k D D) (write_ballot K i b (chosen b) res out)
    (cast_post (in_txn k D) (\<lambda>r w. \<not> k \<and> infra r \<and> broken D w) D i b)"
    (is "spec _ _ ?Q")
proof -
  note c = can_castD [OF assms]
  let ?p = "prior_of res"
  have ver: "(if out_found res then wrap32 (bh_version (out_row res) + 1) else 1) = next_version ?p"
    using c(8) by (auto simp: prior_of_def next_version_def)
  have rc: "receipt_of (bal_nonce b) (next_version ?p) = cast_receipt b ?p" by (simp add: cast_receipt_def)
  have issue: "spec (in_txn k D D) (bb_issue_receipt K b (next_version ?p))
      (\<lambda>(r, x) w. (r = BB_OK \<and> x = cast_receipt b ?p \<and> in_txn k D D w) \<or> (r \<noteq> BB_OK \<and> False))"
    unfolding bb_issue_receipt_def Let_def rc by (rule spec_bind [OF log_txn]) (auto intro: spec_return)
  have last: "spec (in_txn k D (cast_owned D i b ?p))
      (do { (cr, _) \<leftarrow> sm_exec K (consume_cmd i (bal_nonce b)); State_Monad.return (cr, cast_receipt b ?p) }) ?Q"
    by (rule spec_bind_pair [OF consume_step [OF assms]], rule spec_return)
       (use c(2,11) in \<open>auto simp: cast_post_def\<close>)
  show ?thesis
    unfolding write_ballot_def Let_def ver
    apply (rule spec_call [OF issue])
     apply (rule spec_false, simp)
    apply (rule spec_fact, hypsubst)
    apply (rule spec_call [OF append_step [OF assms] cast_fail], assumption)
    apply (rule spec_call [OF mark_step [OF assms] cast_fail], assumption)
    apply (rule spec_call [OF owner_step [OF assms] cast_fail], assumption)
    apply (rule last)
    done
qed

lemma check_nonce_law:
  assumes "store_inv D" "ballot_ok b" "fits 15 i" "fresh_for D i b"
    and "cast_verdict D i b = (if bal_nonce b \<in># sel i (st_nonce D) then BB_ERR_REPLAY else BB_OK)"
  shows "spec (in_txn k D D) (check_nonce K i b (chosen b) out)
    (cast_post (in_txn k D) (\<lambda>r w. \<not> k \<and> infra r \<and> broken D w) D i b)"
    (is "spec _ _ ?Q")
proof -
  note ok = store_invD(1) [OF assms(1)]
  have f: "fits 31 (bal_cert_name b)" "fits 32 (bal_nonce b)" using assms(2) by (simp_all add: ballot_ok_def)
  note seen = read_txn [OF ok cmds_ok(4) [OF assms(3) f(2)], of k D, simplified]
  note prior = read_txn [OF ok cmds_ok(5) [OF assms(3) f(1)], of k D, simplified]
  show ?thesis
    unfolding check_nonce_def
  proof (rule spec_call [OF seen cast_fail], assumption, rule spec_fact, rule spec_if)
    fix res
    assume r: "read_spec (seen_cmd i (bal_nonce b)) D res"
    then have found: "out_found res \<longleftrightarrow> bal_nonce b \<in># sel i (st_nonce D)"
      using assms(3) f(2) by (simp add: read_spec_def seen_cmd_def Let_def)
    show "spec (in_txn k D D) (State_Monad.return (BB_ERR_REPLAY, out)) ?Q" if "out_found res"
      using that found assms(5) by (intro cast_refuse) simp_all
    assume "\<not> out_found res"
    with found assms(5) have v: "cast_verdict D i b = BB_OK" by simp
    show "spec (in_txn k D D) (do { (pr, res) \<leftarrow> sm_exec K (prior_cmd i (bal_cert_name b));
          if pr \<noteq> BB_OK then State_Monad.return (pr, out) else write_ballot K i b (chosen b) res out }) ?Q"
    proof (rule spec_call [OF prior cast_fail], assumption, rule spec_fact)
      fix res'
      assume "read_spec (prior_cmd i (bal_cert_name b)) D res'"
      from prior_read [OF this assms(1,3) f(1)] v assms(1-4)
      show "spec (in_txn k D D) (write_ballot K i b (chosen b) res' out) ?Q"
        by (intro write_ballot_law) (simp add: can_cast_def)
    qed
  qed
qed

lemma check_ballot_law:
  assumes "store_inv D" "ballot_ok b" "fits 15 i" "fresh_for D i b" "found_election D i e"
  shows "spec (in_txn k D D) (check_ballot K i b e out)
    (cast_post (in_txn k D) (\<lambda>r w. \<not> k \<and> infra r \<and> broken D w) D i b)"
    (is "spec _ _ ?Q")
proof -
  from assms(5) obtain row where row: "row \<in># sel i (st_election D)" "election_is D i row e"
    unfolding found_election_def by blast
  note e = election_facts [OF assms(1) row]
  have st: "in_state D i a \<longleftrightarrow> a = el_state e" for a using in_state_unique [OF assms(1) e(1)] e(1) by blast
  have ne: "sel i (st_election D) \<noteq> {#}" using row(1) by auto
  note verdict = cast_verdict_def [of D i b, unfolded st]
  have dec: "spec (in_txn k D D) (bb_decrypt_ballot K b)
      (\<lambda>(r, x) w. (r = BB_OK \<and> x = chosen b \<and> in_txn k D D w) \<or> (r \<noteq> BB_OK \<and> False))"
    unfolding bb_decrypt_ballot_def by (rule spec_bind [OF log_txn]) (auto intro: spec_return simp: chosen_def)
  show ?thesis
    unfolding check_ballot_def
  proof (intro spec_if)
    assume o: "\<not> (el_state e = BB_STATE_CLOSED \<or> el_state e = BB_STATE_PUBLISHED)" "\<not> el_state e \<noteq> BB_STATE_OPEN"
    show "spec (in_txn k D D) (do { _ \<leftarrow> log_lines K (refusal_lines ''cast'' i (bal_cert_name b) e);
        State_Monad.return (BB_ERR_NOT_ELIGIBLE, out) }) ?Q" if "\<not> bb_check_eligibility e (bal_cert_name b)"
      using that o ne verdict e(3) by (intro spec_bind [OF log_lines_txn] cast_refuse) simp_all
    assume el: "\<not> \<not> bb_check_eligibility e (bal_cert_name b)"
    have v: "cast_verdict D i b = (if int (size (sel i (st_option D))) \<le> chosen b then BB_ERR_BAD_OPTION
        else if bal_nonce b \<in># sel i (st_nonce D) then BB_ERR_REPLAY else BB_OK)"
      using verdict o el ne e(3) by simp
    show "spec (in_txn k D D) (do { (cr, ix) \<leftarrow> bb_decrypt_ballot K b;
        if cr \<noteq> BB_OK then State_Monad.return (cr, out)
        else if ix < 0 \<or> el_option_count e \<le> ix then State_Monad.return (BB_ERR_BAD_OPTION, out)
        else check_nonce K i b ix out }) ?Q"
    proof (rule spec_call [OF dec], rule spec_false, simp, rule spec_fact, hypsubst, rule spec_if)
      show "spec (in_txn k D D) (State_Monad.return (BB_ERR_BAD_OPTION, out)) ?Q"
        if "chosen b < 0 \<or> el_option_count e \<le> chosen b"
        using that v e(2) chosen_nonneg [of b] by (intro cast_refuse) simp_all
      show "spec (in_txn k D D) (check_nonce K i b (chosen b) out) ?Q"
        if "\<not> (chosen b < 0 \<or> el_option_count e \<le> chosen b)"
        using that v e(2) by (intro check_nonce_law [OF assms(1-4)]) simp
    qed
  qed (use ne verdict in \<open>auto intro!: cast_refuse\<close>)
qed

lemma record_locked_law:
  assumes "store_inv D" "ballot_ok b" "fits 15 i" "fresh_for D i b"
  shows "spec (in_txn k D D) (record_ballot_locked K i b out)
    (cast_post (in_txn k D) (\<lambda>r w. \<not> k \<and> infra r \<and> broken D w) D i b)"
    (is "spec _ _ ?Q")
  unfolding record_ballot_locked_def
proof (rule spec_call [OF load_election_law
      [OF assms(3) read_txn [OF store_invD(1) [OF assms(1)] cmds_ok(1) [OF assms(3)], of k D, simplified]]])
  fix r
  show "spec (\<lambda>w. (r = BB_ERR_NOT_FOUND \<and> sel i (st_election D) = {#} \<and> in_txn k D D w) \<or>
      (\<not> k \<and> infra r \<and> broken D w)) (State_Monad.return (r, out)) ?Q" if "r \<noteq> BB_OK"
    by (rule spec_return) (use that in \<open>auto simp: cast_post_def cast_verdict_def\<close>)
next
  fix e
  show "spec (\<lambda>w. found_election D i e \<and> in_txn k D D w) (check_ballot K i b e out) ?Q"
    by (rule spec_fact) (rule check_ballot_law [OF assms])
qed

text \<open>
  What a failed call leaves: nothing, except that a \<^verbatim>\<open>commit\<close> whose answer was lost may have
  taken effect as a whole; it is reported as \<^const>\<open>BB_ERR_DB\<close>.
\<close>

lemma verdict_not_infra: "cast_verdict D i b \<noteq> BB_ERR_RETRY" "cast_verdict D i b \<noteq> BB_ERR_DB"
  by (simp_all add: cast_verdict_def)

lemma record_end_law:
  assumes "\<And>r out. infra r \<Longrightarrow> \<not> k \<Longrightarrow> spec (idle k D) (again r out) Q"
    and Q: "Q = cast_post (idle k) (cast_failed idle k D i b) D i b"
  shows "spec (cast_post (in_txn k D) (\<lambda>r w. \<not> k \<and> infra r \<and> broken D w) D i b (r, out))
     (if r = BB_ERR_RETRY then do { _ \<leftarrow> sm_rollback K; again r out }
      else if r \<noteq> BB_OK then do { _ \<leftarrow> sm_rollback K; State_Monad.return (r, out) }
      else do { r \<leftarrow> sm_commit K; if r = BB_ERR_RETRY then again r out else State_Monad.return (r, out) }) Q"
proof (cases "r = BB_OK")
  case True
  show ?thesis
  proof (rule spec_pre [where P = "\<lambda>w. \<exists>p. (cast_verdict D i b = BB_OK \<and> prior_is D i (bal_cert_name b) p \<and>
        out = cast_receipt b p) \<and> in_txn k D (cast_effect D i b p) w"], intro spec_ex spec_fact)
    fix p
    assume p: "cast_verdict D i b = BB_OK \<and> prior_is D i (bal_cert_name b) p \<and> out = cast_receipt b p"
    have "spec (in_txn k D (cast_effect D i b p))
        (do { r \<leftarrow> sm_commit K; if r = BB_ERR_RETRY then again r out else State_Monad.return (r, out) }) Q"
    proof (rule spec_bind [OF commit_law], rule spec_if)
      fix r'
      show "spec (\<lambda>w. (r' = BB_OK \<and> idle k (cast_effect D i b p) w) \<or>
             (r' \<noteq> BB_OK \<and> \<not> k \<and> infra r' \<and> (idle k D w \<or> (r' = BB_ERR_DB \<and> idle k (cast_effect D i b p) w))))
          (again r' out) Q" if r': "r' = BB_ERR_RETRY"
      proof (rule spec_pre)
        show "spec (\<lambda>w. \<not> k \<and> idle k D w) (again r' out) Q"
          by (rule spec_fact, rule assms(1)) (simp_all add: r')
      qed (use r' in auto)
      show "spec (\<lambda>w. (r' = BB_OK \<and> idle k (cast_effect D i b p) w) \<or>
             (r' \<noteq> BB_OK \<and> \<not> k \<and> infra r' \<and> (idle k D w \<or> (r' = BB_ERR_DB \<and> idle k (cast_effect D i b p) w))))
          (State_Monad.return (r', out)) Q"
        by (rule spec_return) (use p in \<open>auto simp: Q cast_post_def cast_failed_def\<close>)
    qed
    then show "spec (in_txn k D (cast_effect D i b p))
       (if r = BB_ERR_RETRY then do { _ \<leftarrow> sm_rollback K; again r out }
        else if r \<noteq> BB_OK then do { _ \<leftarrow> sm_rollback K; State_Monad.return (r, out) }
        else do { r \<leftarrow> sm_commit K; if r = BB_ERR_RETRY then again r out else State_Monad.return (r, out) }) Q"
      using True by simp
  qed (use True in \<open>auto simp: cast_post_def\<close>)
next
  case False
  have gone: "spec (\<lambda>w. \<not> k \<and> broken D w) (sm_rollback K) (\<lambda>_ w. \<not> k \<and> idle k D w)"
  proof (rule spec_fact)
    assume "\<not> k"
    then show "spec (broken D) (sm_rollback K) (\<lambda>_ w. \<not> k \<and> idle k D w)" using rollback_broken by simp
  qed
  show ?thesis
  proof (cases "r = BB_ERR_RETRY")
    case True
    have "spec (\<lambda>w. \<not> k \<and> broken D w) (do { _ \<leftarrow> sm_rollback K; again r out }) Q"
      by (rule spec_bind [OF gone], rule spec_fact, rule assms(1)) (simp_all add: True)
    with True show ?thesis
      by (auto elim!: spec_pre simp: cast_post_def verdict_not_infra [symmetric])
  next
    case other: False
    have "spec (\<lambda>w. r = cast_verdict D i b \<and> in_txn k D D w) (do { _ \<leftarrow> sm_rollback K; State_Monad.return (r, out) }) Q"
      by (rule spec_fact, rule spec_bind [OF rollback_txn], rule spec_return) (use False in \<open>simp add: Q cast_post_def\<close>)
    moreover have "spec (\<lambda>w. infra r \<and> \<not> k \<and> broken D w) (do { _ \<leftarrow> sm_rollback K; State_Monad.return (r, out) }) Q"
      by (rule spec_fact, rule spec_bind [OF gone], rule spec_return)
         (use False in \<open>auto simp: Q cast_post_def cast_failed_def\<close>)
    ultimately have "spec (\<lambda>w. (r = cast_verdict D i b \<and> in_txn k D D w) \<or> (infra r \<and> \<not> k \<and> broken D w))
        (do { _ \<leftarrow> sm_rollback K; State_Monad.return (r, out) }) Q" by (rule spec_disj)
    with False other show ?thesis by (auto elim!: spec_pre simp: cast_post_def)
  qed
qed

lemma record_attempts_law:
  assumes "store_inv D" "ballot_ok b" "fits 15 i" "fresh_for D i b" "n = 0 \<longrightarrow> \<not> k \<and> infra r"
  shows "spec (idle k D) (record_attempts K i b n r out)
    (cast_post (idle k) (cast_failed idle k D i b) D i b)"
  using assms(5)
proof (induction n arbitrary: r out)
  case 0
  then show ?case by (auto intro!: spec_return simp: cast_post_def cast_failed_def)
next
  case (Suc n)
  show ?case
    unfolding record_attempts.simps
  proof (rule spec_call1 [OF begin_law])
    fix r
    show "spec (\<lambda>w. \<not> k \<and> infra r \<and> idle k D w) (State_Monad.return (r, out))
        (cast_post (idle k) (cast_failed idle k D i b) D i b)" if "r \<noteq> BB_OK"
      by (rule spec_return) (use that in \<open>auto simp: cast_post_def cast_failed_def\<close>)
  next
    show "spec (in_txn k D D)
       (do { (r, out) \<leftarrow> record_ballot_locked K i b out;
             if r = BB_ERR_RETRY then do { _ \<leftarrow> sm_rollback K; record_attempts K i b n r out }
             else if r \<noteq> BB_OK then do { _ \<leftarrow> sm_rollback K; State_Monad.return (r, out) }
             else do { r \<leftarrow> sm_commit K;
                       if r = BB_ERR_RETRY then record_attempts K i b n r out else State_Monad.return (r, out) } })
       (cast_post (idle k) (cast_failed idle k D i b) D i b)"
      by (rule spec_bind_pair [OF record_locked_law [OF assms(1-4)]],
          rule record_end_law [where again = "record_attempts K i b n", OF Suc.IH refl]) simp
  qed
qed

lemma record_ballot_law:
  assumes "store_inv D" "ballot_ok b" "fits 15 i" "fresh_for D i b"
  shows "spec (idle k D) (bb_record_ballot K i b out)
    (cast_post (idle k) (cast_failed idle k D i b) D i b)"
  unfolding bb_record_ballot_def
  by (rule record_attempts_law [OF assms]) (simp add: BB_TXN_ATTEMPTS_def)

end

section \<open>Lifecycle\<close>

definition transition_post :: "(bool \<Rightarrow> store \<Rightarrow> 'w \<Rightarrow> bool) \<Rightarrow> bool \<Rightarrow> store \<Rightarrow> string \<Rightarrow> bb_state \<Rightarrow>
    bb_result \<Rightarrow> 'w \<Rightarrow> bool" where
  "transition_post idle k D i st r w \<longleftrightarrow>
     (r = BB_ERR_NOT_FOUND \<and> sel i (st_election D) = {#} \<and> idle k D w) \<or>
     (r = BB_ERR_ILLEGAL_TRANSITION \<and> (\<exists>a. in_state D i a \<and> \<not> bb_is_legal_transition a st) \<and> idle k D w) \<or>
     ((\<exists>a. in_state D i a \<and> bb_is_legal_transition a st) \<and> r = BB_OK \<and> idle k (set_state i st D) w) \<or>
     (\<not> k \<and> r = BB_ERR_DB \<and>
       (idle k D w \<or> ((\<exists>a. in_state D i a \<and> bb_is_legal_transition a st) \<and> idle k (set_state i st D) w)))"

context ballot_store
begin

lemma get_election_idle:
  assumes "store_inv D" "fits 15 i"
  shows "spec (idle k D) (sm_exec K (id_cmd BB_DB_GET_ELECTION i))
     (\<lambda>(r, res) w. (r = BB_OK \<and> read_spec (id_cmd BB_DB_GET_ELECTION i) D res \<and> idle k D w) \<or>
                     (r \<noteq> BB_OK \<and> \<not> k \<and> r = BB_ERR_DB \<and> idle k D w))"
  using read_idle [OF store_invD(1) [OF assms(1)] cmds_ok(1) [OF assms(2)], of k] by simp

lemmas load_idle = load_election_law [OF _ get_election_idle]

lemma transition_law:
  assumes "store_inv D" "fits 15 i"
  shows "spec (idle k D) (bb_transition_state K i st) (transition_post idle k D i st)"
  unfolding bb_transition_state_def
proof (rule spec_call [OF get_election_idle [OF assms]])
  show "spec (\<lambda>w. \<not> k \<and> r = BB_ERR_DB \<and> idle k D w) (State_Monad.return r) (transition_post idle k D i st)" for r
    by (rule spec_return) (auto simp: transition_post_def)
next
  fix res
  show "spec (\<lambda>w. read_spec (id_cmd BB_DB_GET_ELECTION i) D res \<and> idle k D w)
     (if \<not> out_found res then State_Monad.return BB_ERR_NOT_FOUND
      else if \<not> bb_is_legal_transition (el_state (out_election res)) st then do {
        _ \<leftarrow> sm_log K (''[lifecycle] reject '' @ bb_state_str (el_state (out_election res)) @ '' -> '' @
                       bb_state_str st @ '' on '' @ [SQ] @ i @ [SQ]);
        State_Monad.return BB_ERR_ILLEGAL_TRANSITION }
      else do { (r, _) \<leftarrow> sm_exec K (state_cmd i st); State_Monad.return r })
     (transition_post idle k D i st)"
  proof (rule spec_fact, intro spec_if)
    assume rs: "read_spec (id_cmd BB_DB_GET_ELECTION i) D res"
    note g = get_election_read [OF rs assms(2)]
    show "spec (idle k D) (State_Monad.return BB_ERR_NOT_FOUND) (transition_post idle k D i st)" if "\<not> out_found res"
      by (rule spec_return) (use that g(1) in \<open>simp add: transition_post_def\<close>)
    assume "\<not> \<not> out_found res"
    with g obtain row where row: "row \<in># sel i (st_election D)" "election_is D i row (out_election res)"
      unfolding found_election_def by blast
    note st = election_facts(1) [OF assms(1) row]
    show "spec (idle k D) (do {
        _ \<leftarrow> sm_log K (''[lifecycle] reject '' @ bb_state_str (el_state (out_election res)) @ '' -> '' @
                       bb_state_str st @ '' on '' @ [SQ] @ i @ [SQ]);
        State_Monad.return BB_ERR_ILLEGAL_TRANSITION }) (transition_post idle k D i st)"
      if "\<not> bb_is_legal_transition (el_state (out_election res)) st"
      by (rule spec_bind [OF log_idle], rule spec_return) (use that st in \<open>auto simp: transition_post_def\<close>)
    assume legal: "\<not> \<not> bb_is_legal_transition (el_state (out_election res)) st"
    have ne: "sel i (st_election D) \<noteq> {#}" using row(1) by auto
    have upd: "spec (idle k D) (sm_exec K (state_cmd i st))
       (\<lambda>(r, res) w. (r = BB_OK \<and> idle k (set_state i st D) w) \<or>
          (r \<noteq> BB_OK \<and> \<not> k \<and> r = BB_ERR_DB \<and> (idle k D w \<or> idle k (set_state i st D) w)))"
      using write_idle [OF store_invD(1) [OF assms(1)] cmds_ok(11) [OF assms(2)], of st k]
        cmds_pre(6) [OF assms(2) ne] by (simp add: cmds_write(5) [OF assms(2)])
    show "spec (idle k D) (do { (r, _) \<leftarrow> sm_exec K (state_cmd i st); State_Monad.return r })
        (transition_post idle k D i st)"
      by (rule spec_bind_pair [OF upd], rule spec_return) (use legal st in \<open>auto simp: transition_post_def\<close>)
  qed
qed

end

section \<open>Results\<close>

definition results_are :: "store \<Rightarrow> string \<Rightarrow> bb_results \<Rightarrow> bool" where
  "results_are D i rs \<longleftrightarrow>
     rs_option_count rs = int (size (sel i (st_option D))) \<and>
     (\<forall>j < size (sel i (st_option D)). rs_tally rs ! j =
        int (size (filter_mset (\<lambda>(h, ix, v, s). ix = int j) (live_ballots D i)))) \<and>
     (\<forall>(j, nm) \<in># sel i (st_option D). rs_options rs ! nat j = nm) \<and>
     rs_hash_count rs = int (size (live_ballots D i)) \<and>
     image_mset hash_tuple (mset (take (nat (rs_hash_count rs)) (rs_hashes rs))) = live_ballots D i"

lemma take_map_nth: "n \<le> m \<Longrightarrow> m \<le> length xs \<Longrightarrow> take n (map (\<lambda>i. if i < n then xs ! i else d) [0..<m]) = take n xs"
  by (rule nth_equalityI) auto

lemma option_index_bounds:
  assumes "store_inv D" "(j, nm) \<in># sel i (st_option D)"
  shows "0 \<le> j \<and> j < int (size (sel i (st_option D)))" "fits 31 nm"
proof -
  have "j \<in># image_mset fst (sel i (st_option D))" using assms(2) by force
  then have "j \<in> set (map int [0..<size (sel i (st_option D))])"
    unfolding store_okD(4) [OF store_invD(1) [OF assms(1)]] by (simp only: set_mset_mset)
  then show "0 \<le> j \<and> j < int (size (sel i (st_option D)))" by auto
  show "fits 31 nm"
    using assms(2) store_okD(1) [OF store_invD(1) [OF assms(1)]] by (auto simp: in_sel rows_text_ok_def)
qed

lemma fill_results_are:
  assumes "store_inv D" "fits 15 i" "found_election D i e"
    and "read_spec (id_cmd BB_DB_GET_TALLY i) D tres" "read_spec (id_cmd BB_DB_GET_HASHES i) D hres"
  shows "results_are D i (fill_results e tres hres)"
proof -
  from assms(3) obtain row where "election_is D i row e" unfolding found_election_def by blast
  then have e: "el_option_count e = int (size (sel i (st_option D)))"
    "\<forall>(j, nm) \<in># sel i (st_option D). el_options e ! nat j = nm"
    by (auto simp: election_is_def split: prod.splits)
  have n: "size (sel i (st_option D)) \<le> 16" "size (live_ballots D i) \<le> 64"
    using store_invD(3) [OF assms(1)] live_le(2) [OF assms(1)] by auto
  have t: "\<forall>j < 16. out_tally tres ! j = int (size (filter_mset (\<lambda>(h, ix, v, s). ix = int j) (live_ballots D i)))"
    using assms(2,4) by (simp add: read_spec_def Let_def)
  have "length (out_hashes hres) = 64 \<and> out_hash_count hres = int (size (live_ballots D i)) \<and>
      image_mset hash_tuple (mset (take (nat (out_hash_count hres)) (out_hashes hres))) = live_ballots D i"
    using assms(5) [unfolded read_spec_def Let_def id_cmd_simps bb_db_op.case id_fits [OF assms(2)]] .
  then have h: "length (out_hashes hres) = 64" "out_hash_count hres = int (size (live_ballots D i))"
    "image_mset hash_tuple (mset (take (nat (out_hash_count hres)) (out_hashes hres))) = live_ballots D i"
    by blast+
  let ?r = "fill_results e tres hres"
  have hc: "rs_hash_count ?r = int (size (live_ballots D i))" using h(2) n(2)
    by (simp add: fill_results_def Let_def BB_MAX_VOTERS_def)
  have hs: "take (size (live_ballots D i)) (rs_hashes ?r) = take (size (live_ballots D i)) (out_hashes hres)"
    using h(1,2) n(2) take_map_nth [of "size (live_ballots D i)" 64 "out_hashes hres"]
    by (auto simp: fill_results_def Let_def BB_MAX_VOTERS_def)
  have "rs_options ?r ! nat j = nm" if "(j, nm) \<in># sel i (st_option D)" for j nm
  proof -
    note b = option_index_bounds [OF assms(1) that]
    have "length nm < 32" using b(2) by (simp add: fits_def)
    moreover have "el_options e ! nat j = nm" using e(2) that by auto
    moreover have "nat j < size (sel i (st_option D))" using b(1) by linarith
    ultimately show ?thesis using e(1) n(1) by (simp add: fill_results_def Let_def bb_lens min_def)
  qed
  moreover have "rs_tally ?r ! j = int (size (filter_mset (\<lambda>(h, ix, v, s). ix = int j) (live_ballots D i)))"
    if "j < size (sel i (st_option D))" for j
    using that t e(1) n(1) by (simp add: fill_results_def Let_def bb_lens min_def)
  moreover have "rs_option_count ?r = int (size (sel i (st_option D)))"
    using e(1) by (simp add: fill_results_def Let_def)
  ultimately show ?thesis using hc hs h(2,3) unfolding results_are_def by auto
qed

definition results_verdict :: "store \<Rightarrow> string \<Rightarrow> string option \<Rightarrow> bb_result" where
  "results_verdict D i c =
     (if sel i (st_election D) = {#} then BB_ERR_NOT_FOUND
      else if \<not> in_state D i BB_STATE_PUBLISHED then BB_ERR_NOT_PUBLISHED
      else if (case c of None \<Rightarrow> False | Some cert \<Rightarrow> cert \<notin># sel i (st_eligible D)) then BB_ERR_NOT_ELIGIBLE
      else BB_OK)"

text \<open>A refused or failed request leaves the caller's buffer untouched.\<close>

definition results_post :: "(bool \<Rightarrow> store \<Rightarrow> 'w \<Rightarrow> bool) \<Rightarrow> bool \<Rightarrow> store \<Rightarrow> string \<Rightarrow> string option \<Rightarrow>
    bb_results \<Rightarrow> bb_result \<times> bb_results \<Rightarrow> 'w \<Rightarrow> bool" where
  "results_post idle k D i c out rr w \<longleftrightarrow>
     idle k D w \<and>
     (if fst rr = BB_OK then results_verdict D i c = BB_OK \<and> results_are D i (snd rr)
      else snd rr = out \<and> (fst rr = results_verdict D i c \<or> (\<not> k \<and> fst rr = BB_ERR_DB)))"

context ballot_store
begin

lemma fetch_results_law:
  assumes "store_inv D" "fits 15 i" "found_election D i e" "results_verdict D i c = BB_OK"
  shows "spec (idle k D) (fetch_results K i e out) (results_post idle k D i c out)"
proof -
  note ok = store_invD(1) [OF assms(1)]
  have pre: "read_pre (id_cmd BB_DB_GET_TALLY i) D" "read_pre (id_cmd BB_DB_GET_HASHES i) D"
    using live_le(2) [OF assms(1)] assms(2) by (simp_all add: read_pre_def)
  note t = read_idle [OF ok cmds_ok(2) [OF assms(2)] _ pre(1), of k, simplified]
    and h = read_idle [OF ok cmds_ok(3) [OF assms(2)] _ pre(2), of k, simplified]
  have fail: "spec (\<lambda>w. \<not> k \<and> r = BB_ERR_DB \<and> idle k D w) (State_Monad.return (r, out)) (results_post idle k D i c out)" for r
    by (rule spec_return) (auto simp: results_post_def)
  show ?thesis
    unfolding fetch_results_def
  proof (rule spec_call [OF t fail], rule spec_fact, rule spec_call [OF h fail], rule spec_fact, rule spec_return)
    fix tres hres w
    assume "read_spec (id_cmd BB_DB_GET_TALLY i) D tres" "read_spec (id_cmd BB_DB_GET_HASHES i) D hres" "idle k D w"
    with fill_results_are [OF assms(1-3)] assms(4)
    show "results_post idle k D i c out (BB_OK, fill_results e tres hres) w" by (simp add: results_post_def)
  qed
qed

lemma results_load:
  assumes "store_inv D" "fits 15 i"
    and "\<And>e. found_election D i e \<Longrightarrow> spec (idle k D) (m e) (results_post idle k D i c out)"
  shows "spec (idle k D) (do { (r, e) \<leftarrow> load_election K i;
      if r \<noteq> BB_OK then State_Monad.return (r, out) else m e }) (results_post idle k D i c out)"
proof (rule spec_call [OF load_idle [OF assms(2,1,2)]])
  show "spec (\<lambda>w. (r = BB_ERR_NOT_FOUND \<and> sel i (st_election D) = {#} \<and> idle k D w) \<or>
      (\<not> k \<and> r = BB_ERR_DB \<and> idle k D w)) (State_Monad.return (r, out)) (results_post idle k D i c out)" for r
    by (rule spec_return) (auto simp: results_post_def results_verdict_def)
qed (auto intro!: spec_fact assms(3))

lemma found_state:
  assumes "store_inv D" "found_election D i e"
  shows "sel i (st_election D) \<noteq> {#}" "in_state D i a \<longleftrightarrow> a = el_state e"
    "bb_check_eligibility e c \<longleftrightarrow> c \<in># sel i (st_eligible D)"
proof -
  from assms(2) obtain row where row: "row \<in># sel i (st_election D)" "election_is D i row e"
    unfolding found_election_def by blast
  note e = election_facts [OF assms(1) row]
  show "sel i (st_election D) \<noteq> {#}" using row(1) by auto
  show "in_state D i a \<longleftrightarrow> a = el_state e" using in_state_unique [OF assms(1) e(1)] e(1) by blast
  show "bb_check_eligibility e c \<longleftrightarrow> c \<in># sel i (st_eligible D)" by (rule e(3))
qed

lemma get_results_law:
  assumes "store_inv D" "fits 15 i"
  shows "spec (idle k D) (bb_get_results K i c out) (results_post idle k D i (Some c) out)"
    "spec (idle k D) (bb_get_results_admin K i out) (results_post idle k D i None out)"
proof -
  have refuse: "spec (idle k D) (State_Monad.return (r, out)) (results_post idle k D i cc out)"
    if "r = results_verdict D i cc" "r \<noteq> BB_OK" for r cc
    by (rule spec_return) (use that in \<open>simp add: results_post_def\<close>)
  show "spec (idle k D) (bb_get_results K i c out) (results_post idle k D i (Some c) out)"
    unfolding bb_get_results_def
    by (intro results_load [OF assms] spec_if refuse fetch_results_law [OF assms])
       (auto simp: results_verdict_def found_state [OF assms(1)])
  show "spec (idle k D) (bb_get_results_admin K i out) (results_post idle k D i None out)"
    unfolding bb_get_results_admin_def
    by (intro results_load [OF assms] spec_if refuse fetch_results_law [OF assms])
       (auto simp: results_verdict_def found_state [OF assms(1)])
qed

end

section \<open>Joining and looking up a receipt\<close>

definition join_verdict :: "store \<Rightarrow> string \<Rightarrow> string \<Rightarrow> bb_result" where
  "join_verdict D i c =
     (if sel i (st_election D) = {#} then BB_ERR_NOT_FOUND
      else if c = [] then BB_ERR_CERT_INVALID
      else if c \<notin># sel i (st_eligible D) then BB_ERR_NOT_ELIGIBLE
      else if \<not> in_state D i BB_STATE_OPEN then BB_ERR_NOT_OPEN
      else BB_OK)"

definition join_post :: "(bool \<Rightarrow> store \<Rightarrow> 'w \<Rightarrow> bool) \<Rightarrow> bool \<Rightarrow> store \<Rightarrow> string \<Rightarrow> string \<Rightarrow>
    bb_result \<times> join_out \<Rightarrow> 'w \<Rightarrow> bool" where
  "join_post idle k D i c rj w \<longleftrightarrow>
     idle k D w \<and>
     (if fst rj = BB_OK
      then join_verdict D i c = BB_OK \<and> found_election D i (jo_election (snd rj)) \<and>
           (\<exists>p. prior_is D i c p \<and> jo_has_ballot (snd rj) = (p \<noteq> None) \<and>
                jo_version (snd rj) = (case p of None \<Rightarrow> 0 | Some (h, v) \<Rightarrow> v))
      else fst rj = join_verdict D i c \<or> (\<not> k \<and> fst rj = BB_ERR_DB))"

definition lookup_post :: "(bool \<Rightarrow> store \<Rightarrow> 'w \<Rightarrow> bool) \<Rightarrow> bool \<Rightarrow> store \<Rightarrow> string \<Rightarrow> string \<Rightarrow>
    bb_result \<times> bb_ballot_hash \<times> string \<Rightarrow> 'w \<Rightarrow> bool" where
  "lookup_post idle k D i h rl w \<longleftrightarrow>
     idle k D w \<and>
     (if fst rl = BB_OK
      then hash_tuple (fst (snd rl)) \<in># live_with D i h \<and>
           (bh_option_index (fst (snd rl)), snd (snd rl)) \<in># sel i (st_option D)
      else (fst rl = BB_ERR_NOT_FOUND \<and> (sel i (st_election D) = {#} \<or> live_with D i h = {#})) \<or>
           (\<not> k \<and> fst rl = BB_ERR_DB))"

context ballot_store
begin

lemma join_fail:
  "spec (\<lambda>w. \<not> k \<and> r = BB_ERR_DB \<and> idle k D w) (State_Monad.return (r, o')) (join_post idle k D i c)"
  by (rule spec_return) (auto simp: join_post_def)

lemma join_refuse:
  "r = join_verdict D i c \<Longrightarrow> r \<noteq> BB_OK \<Longrightarrow> spec (idle k D) (State_Monad.return (r, o')) (join_post idle k D i c)"
  by (rule spec_return) (simp add: join_post_def)

lemma join_election_law:
  assumes "store_inv D" "fits 15 i" "fits 31 c" "c \<noteq> []" "found_election D i e"
  shows "spec (idle k D) (join_election K i c e out) (join_post idle k D i c)"
proof -
  note prior = read_idle [OF store_invD(1) [OF assms(1)] cmds_ok(5) [OF assms(2,3)], of k, simplified]
  note f = found_state [OF assms(1,5)]
  have ok: "spec (idle k D) (do { (pr, res) \<leftarrow> sm_exec K (prior_cmd i c);
       if pr \<noteq> BB_OK then State_Monad.return (pr, out\<lparr>jo_election := e\<rparr>)
       else State_Monad.return (BB_OK, out\<lparr>jo_election := e, jo_has_ballot := out_found res,
         jo_version := (if out_found res then bh_version (out_row res) else 0)\<rparr>) }) (join_post idle k D i c)"
    if "join_verdict D i c = BB_OK"
  proof (rule spec_call [OF prior join_fail], rule spec_fact, rule spec_return)
    fix res w
    assume rs: "read_spec (prior_cmd i c) D res" and w: "idle k D w"
    have "prior_is D i c (prior_of res)" by (rule prior_read [OF rs assms(1-3)])
    then show "join_post idle k D i c (BB_OK, out\<lparr>jo_election := e, jo_has_ballot := out_found res,
         jo_version := (if out_found res then bh_version (out_row res) else 0)\<rparr>) w"
      using that w assms(5) by (auto simp: join_post_def prior_of_def split: if_splits)
  qed
  show ?thesis
    unfolding join_election_def
    by (intro spec_if spec_bind [OF log_lines_idle] spec_bind [OF log_idle] join_refuse ok)
       (use f assms(4) in \<open>auto simp: join_verdict_def\<close>)
qed

lemma join_law:
  assumes "store_inv D" "fits 15 i" "fits 31 c"
  shows "spec (idle k D) (bb_join K i c out) (join_post idle k D i c)"
proof -
  have vc: "spec (idle k D) (bb_verify_cert K c)
      (\<lambda>s w. s = (if c = [] then BB_CERT_INVALID else BB_CERT_VALID) \<and> idle k D w)"
    unfolding bb_verify_cert_def
    by (intro spec_if spec_return spec_bind [OF log_idle]) auto
  show ?thesis
    unfolding bb_join_def
  proof (rule spec_call [OF load_idle [OF assms(2,1,2)]])
    show "spec (\<lambda>w. (r = BB_ERR_NOT_FOUND \<and> sel i (st_election D) = {#} \<and> idle k D w) \<or>
        (\<not> k \<and> r = BB_ERR_DB \<and> idle k D w)) (State_Monad.return (r, out)) (join_post idle k D i c)" for r
      by (rule spec_return) (auto simp: join_post_def join_verdict_def)
  next
    fix e
    show "spec (\<lambda>w. found_election D i e \<and> idle k D w)
      (do { cert \<leftarrow> bb_verify_cert K c;
         if cert = BB_CERT_INVALID then State_Monad.return (BB_ERR_CERT_INVALID, out)
         else if cert = BB_CERT_EXPIRED then State_Monad.return (BB_ERR_CERT_EXPIRED, out)
         else if cert \<noteq> BB_CERT_VALID then State_Monad.return (BB_ERR_NOT_ELIGIBLE, out)
         else join_election K i c e out }) (join_post idle k D i c)"
    proof (rule spec_fact, rule spec_bind [OF vc], rule spec_fact)
      fix cert
      assume e: "found_election D i e" and cert: "cert = (if c = [] then BB_CERT_INVALID else BB_CERT_VALID)"
      show "spec (idle k D)
        (if cert = BB_CERT_INVALID then State_Monad.return (BB_ERR_CERT_INVALID, out)
         else if cert = BB_CERT_EXPIRED then State_Monad.return (BB_ERR_CERT_EXPIRED, out)
         else if cert \<noteq> BB_CERT_VALID then State_Monad.return (BB_ERR_NOT_ELIGIBLE, out)
         else join_election K i c e out) (join_post idle k D i c)"
        using cert join_election_law [OF assms _ e] found_state(1) [OF assms(1) e]
        by (cases "c = []") (auto intro!: join_refuse simp: join_verdict_def)
    qed
  qed
qed

lemma find_read:
  assumes "read_spec (find_cmd i h) D res" "fits 15 i" "fits 64 h"
  shows "out_found res \<longleftrightarrow> live_with D i h \<noteq> {#}" "out_found res \<Longrightarrow> hash_tuple (out_row res) \<in># live_with D i h"
  using assms by (auto simp: read_spec_def find_cmd_def Let_def)

text \<open>The option of a stored ballot always resolves to a name.\<close>

lemma option_of_row:
  assumes "store_inv D" "found_election D i e" "hash_tuple row \<in># live_with D i h"
  shows "0 \<le> bh_option_index row" "bh_option_index row < el_option_count e"
    "(bh_option_index row, snprintf_s BB_OPTION_LEN (el_options e ! nat (bh_option_index row))) \<in># sel i (st_option D)"
proof -
  let ?x = "bh_option_index row"
  from assms(2) obtain r where r: "r \<in># sel i (st_election D)" "election_is D i r e"
    unfolding found_election_def by blast
  then have el: "el_option_count e = int (size (sel i (st_option D)))"
    "\<forall>(j, nm) \<in># sel i (st_option D). el_options e ! nat j = nm"
    by (auto simp: election_is_def split: prod.splits)
  have b: "hash_tuple row \<in># sel i (st_ballot D)"
    using assms(3) by (auto simp: live_with_def ballots_with_def)
  with store_invD(10) [OF assms(1), of i] have lt: "?x < int (size (sel i (st_option D)))"
    by (auto simp: hash_tuple_def)
  from b have "(i, hash_tuple row) \<in># st_ballot D" by (simp add: in_sel)
  with store_okD(1) [OF store_invD(1) [OF assms(1)]] have ge: "0 \<le> ?x"
    by (auto simp: rows_text_ok_def hash_tuple_def)
  show "0 \<le> ?x" "?x < el_option_count e" using ge lt el(1) by simp_all
  have "?x \<in> int ` {0..<size (sel i (st_option D))}" using ge lt
    by (intro image_eqI [of _ _ "nat ?x"]) auto
  then have "?x \<in># image_mset fst (sel i (st_option D))"
    unfolding store_okD(4) [OF store_invD(1) [OF assms(1)]] by simp
  then obtain nm where nm: "(?x, nm) \<in># sel i (st_option D)" by auto
  moreover have "el_options e ! nat ?x = nm" using el(2) nm by auto
  moreover have "length nm < 32" using option_index_bounds(2) [OF assms(1) nm] by (simp add: fits_def)
  ultimately show "(?x, snprintf_s BB_OPTION_LEN (el_options e ! nat ?x)) \<in># sel i (st_option D)"
    by (simp add: BB_OPTION_LEN_def)
qed

lemma lookup_law:
  assumes "store_inv D" "fits 15 i" "fits 64 h"
  shows "spec (idle k D) (bb_lookup_hash K i h out) (lookup_post idle k D i h)"
proof -
  note find = read_idle [OF store_invD(1) [OF assms(1)] cmds_ok(6) [OF assms(2,3)], of k, simplified]
  have fail: "spec (\<lambda>w. \<not> k \<and> r = BB_ERR_DB \<and> idle k D w) (State_Monad.return (r, out)) (lookup_post idle k D i h)" for r
    by (rule spec_return) (auto simp: lookup_post_def)
  show ?thesis
    unfolding bb_lookup_hash_def
  proof (rule spec_call [OF load_idle [OF assms(2,1,2)]])
    show "spec (\<lambda>w. (r = BB_ERR_NOT_FOUND \<and> sel i (st_election D) = {#} \<and> idle k D w) \<or>
        (\<not> k \<and> r = BB_ERR_DB \<and> idle k D w)) (State_Monad.return (r, out)) (lookup_post idle k D i h)" for r
      by (rule spec_return) (auto simp: lookup_post_def)
  next
    fix e
    show "spec (\<lambda>w. found_election D i e \<and> idle k D w)
     (do { (r, res) \<leftarrow> sm_exec K (find_cmd i h);
       if r \<noteq> BB_OK then State_Monad.return (r, out)
       else if \<not> out_found res then State_Monad.return (BB_ERR_NOT_FOUND, out)
       else State_Monad.return (BB_OK, out_row res,
              let idx = bh_option_index (out_row res)
              in if 0 \<le> idx \<and> idx < el_option_count e
                 then snprintf_s BB_OPTION_LEN (el_options e ! nat idx) else []) }) (lookup_post idle k D i h)"
    proof (rule spec_fact, rule spec_call [OF find fail], rule spec_fact, rule spec_if)
      fix res
      assume e: "found_election D i e" and rs: "read_spec (find_cmd i h) D res"
      note r = find_read [OF rs assms(2,3)]
      show "spec (idle k D) (State_Monad.return (BB_ERR_NOT_FOUND, out)) (lookup_post idle k D i h)" if "\<not> out_found res"
        by (rule spec_return) (use that r in \<open>simp add: lookup_post_def\<close>)
      assume "\<not> \<not> out_found res"
      with r have h: "hash_tuple (out_row res) \<in># live_with D i h" by simp
      show "spec (idle k D) (State_Monad.return (BB_OK, out_row res,
              let idx = bh_option_index (out_row res)
              in if 0 \<le> idx \<and> idx < el_option_count e
                 then snprintf_s BB_OPTION_LEN (el_options e ! nat idx) else [])) (lookup_post idle k D i h)"
        by (rule spec_return) (use h option_of_row [OF assms(1) e h] in \<open>simp add: lookup_post_def Let_def\<close>)
    qed
  qed
qed

end

section \<open>Creating an election\<close>

definition create_id :: "bool \<Rightarrow> store \<Rightarrow> string \<Rightarrow> string \<Rightarrow> bool" where
  "create_id k D desired n \<longleftrightarrow>
     (if desired \<noteq> [] then n = desired \<and> sel n (st_election D) = {#}
      else n = next_id D \<or> (\<not> k \<and> n = first_id))"

definition create_post :: "(bool \<Rightarrow> store \<Rightarrow> 'w \<Rightarrow> bool) \<Rightarrow> bool \<Rightarrow> store \<Rightarrow> bb_config \<Rightarrow> string \<Rightarrow>
    bb_result \<times> string \<Rightarrow> 'w \<Rightarrow> bool" where
  "create_post idle k D cfg desired rr w \<longleftrightarrow>
     (bb_validate_config cfg \<noteq> BB_OK \<and> fst rr = bb_validate_config cfg \<and> idle k D w) \<or>
     (bb_validate_config cfg = BB_OK \<and>
       ((fst rr = BB_ERR_CONFIG_ID_TAKEN \<and> desired \<noteq> [] \<and> sel desired (st_election D) \<noteq> {#} \<and> idle k D w) \<or>
        (fst rr = BB_OK \<and> create_id k D desired (snd rr) \<and> idle k (insert_election (snd rr) cfg D) w) \<or>
        (\<not> k \<and> fst rr = BB_ERR_DB \<and>
          (idle k D w \<or> (\<exists>n. create_id k D desired n \<and> idle k (insert_election n cfg D) w)))))"

lemma id_seq_id: "count_ok n \<Longrightarrow> id_seq (''E-'' @ int_str n) = n"
proof -
  assume n: "count_ok n"
  have m: "CHR ''-'' \<notin> set (int_str n)"
    using n nat_str_digits [of "CHR ''-''" "nat n"] by (auto simp: int_str_def is_digit_def)
  then have "takeWhile (\<lambda>c. c \<noteq> CHR ''-'') (rev (int_str n) @ ''-E'') = rev (int_str n)"
    by (subst takeWhile_append2) auto
  moreover have "strtol (int_str n) = (n, [])" using strtol_int_str [of n "[]"] n by simp
  ultimately show ?thesis using n by (simp add: id_seq_def)
qed

lemma new_id_fits: "fits 15 (next_id D)" "fits 15 first_id"
proof -
  have "fits 15 (''E-'' @ int_str n)" if "int32_ok n" for n
  proof -
    have "list_all clean_char (int_str n)"
      using int_str_chars [of _ n] by (force simp: list_all_iff clean_char_def is_digit_def)
    then show ?thesis using int_str_length [OF that] by (simp add: fits_def clean_char_def)
  qed
  then show "fits 15 (next_id D)" "fits 15 first_id"
    using wrap32_range by (auto simp: next_id_def first_id_def)
qed

context ballot_store
begin

lemma store_election_law:
  assumes "store_inv D" "fits 15 n" "config_ok cfg" "count_ok (id_seq n)"
    "bb_validate_config cfg = BB_OK" "create_id k D desired n"
  shows "spec (idle k D) (store_election K cfg n out) (create_post idle k D cfg desired)"
proof -
  have ins: "spec (idle k D) (sm_exec K (insert_cmd n cfg))
      (\<lambda>(r, res) w. (r = BB_OK \<and> idle k (insert_election n cfg D) w) \<or>
         (r \<noteq> BB_OK \<and> \<not> k \<and> r = BB_ERR_DB \<and> (idle k D w \<or> idle k (insert_election n cfg D) w)))"
    using write_idle [OF store_invD(1) [OF assms(1)] cmds_ok(12) [OF assms(2-4)], of k] cmds_pre(4) [OF assms(2)]
    by (simp add: cmds_write(6) [OF assms(2)])
  show ?thesis
    unfolding store_election_def
    by (rule spec_bind_pair [OF ins], rule spec_if; rule spec_return)
       (use assms(2,5,6) in \<open>auto simp: create_post_def\<close>)
qed

lemma create_law:
  assumes "store_inv D" "config_ok cfg" "fits 15 desired"
    and "desired \<noteq> [] \<Longrightarrow> count_ok (id_seq desired)" "desired = [] \<Longrightarrow> count_ok (id_seq (next_id D))"
  shows "spec (idle k D) (bb_create_election K cfg desired out) (create_post idle k D cfg desired)"
  unfolding bb_create_election_def Let_def
proof (intro spec_if)
  show "spec (idle k D) (do { _ \<leftarrow> sm_log K (''[create] rejected config (err='' @
          int_str (bb_result_code (bb_validate_config cfg)) @ '')'');
        State_Monad.return (bb_validate_config cfg, out) }) (create_post idle k D cfg desired)"
    if "bb_validate_config cfg \<noteq> BB_OK"
    by (rule spec_bind [OF log_idle], rule spec_return) (use that in \<open>simp add: create_post_def\<close>)
  assume v: "\<not> bb_validate_config cfg \<noteq> BB_OK"
  show "spec (idle k D) (do { n \<leftarrow> sm_alloc_id K; store_election K cfg n out }) (create_post idle k D cfg desired)"
    if d: "\<not> desired \<noteq> []"
  proof (rule spec_bind [OF alloc_law [OF store_invD(1) [OF assms(1)]]])
    fix n
    have s: "count_ok (id_seq first_id)" using id_seq_id [of 100] by (simp add: first_id_def)
    show "spec (\<lambda>w. idle k D w \<and> (n = first_id \<or> n = next_id D) \<and> (k \<longrightarrow> n = next_id D))
        (store_election K cfg n out) (create_post idle k D cfg desired)"
    proof (rule spec_pre, rule spec_fact)
      show "spec (idle k D) (store_election K cfg n out) (create_post idle k D cfg desired)"
        if "(n = first_id \<or> n = next_id D) \<and> (k \<longrightarrow> n = next_id D)"
        using that s d v assms new_id_fits(1) [of D] new_id_fits(2)
        by (intro store_election_law) (auto simp: create_id_def)
    qed simp
  qed
  assume d: "desired \<noteq> []"
  let ?again = "snprintf_s BB_ID_LEN desired"
  have end_law: "spec (\<lambda>w. (r = BB_OK \<and> found_election D desired e \<and> idle k D w) \<or> (r \<noteq> BB_OK \<and>
        ((r = BB_ERR_NOT_FOUND \<and> sel desired (st_election D) = {#} \<and> idle k D w) \<or>
         (\<not> k \<and> r = BB_ERR_DB \<and> idle k D w))))
      (if r = BB_OK then do {
           _ \<leftarrow> sm_log K (''[create] rejected: id '' @ [SQ] @ desired @ [SQ] @ '' already exists'');
           State_Monad.return (BB_ERR_CONFIG_ID_TAKEN, out) }
       else if r \<noteq> BB_ERR_NOT_FOUND then State_Monad.return (r, out)
       else store_election K cfg ?again out) (create_post idle k D cfg desired)" for r e
  proof (intro spec_if)
    assume "\<not> r \<noteq> BB_ERR_NOT_FOUND"
    moreover have "spec (\<lambda>w. sel desired (st_election D) = {#} \<and> idle k D w) (store_election K cfg ?again out)
        (create_post idle k D cfg desired)"
      using assms(1-4) v d by (intro spec_fact store_election_law) (auto simp: create_id_def)
    ultimately show "spec (\<lambda>w. (r = BB_OK \<and> found_election D desired e \<and> idle k D w) \<or> (r \<noteq> BB_OK \<and>
        ((r = BB_ERR_NOT_FOUND \<and> sel desired (st_election D) = {#} \<and> idle k D w) \<or>
         (\<not> k \<and> r = BB_ERR_DB \<and> idle k D w)))) (store_election K cfg ?again out) (create_post idle k D cfg desired)"
      by (elim spec_pre) auto
  next
    have "spec (\<lambda>w. sel desired (st_election D) \<noteq> {#} \<and> idle k D w) (do {
           _ \<leftarrow> sm_log K (''[create] rejected: id '' @ [SQ] @ desired @ [SQ] @ '' already exists'');
           State_Monad.return (BB_ERR_CONFIG_ID_TAKEN, out) }) (create_post idle k D cfg desired)"
      by (rule spec_fact, rule spec_bind [OF log_idle], rule spec_return) (use v d in \<open>simp add: create_post_def\<close>)
    then show "spec (\<lambda>w. (r = BB_OK \<and> found_election D desired e \<and> idle k D w) \<or> (r \<noteq> BB_OK \<and>
        ((r = BB_ERR_NOT_FOUND \<and> sel desired (st_election D) = {#} \<and> idle k D w) \<or>
         (\<not> k \<and> r = BB_ERR_DB \<and> idle k D w))))
       (do { _ \<leftarrow> sm_log K (''[create] rejected: id '' @ [SQ] @ desired @ [SQ] @ '' already exists'');
             State_Monad.return (BB_ERR_CONFIG_ID_TAKEN, out) }) (create_post idle k D cfg desired)" if "r = BB_OK"
      by (elim spec_pre) (use that in \<open>auto simp: found_election_def\<close>)
  qed (use v in \<open>auto intro!: spec_return simp: create_post_def\<close>)
  show "spec (idle k D) (do { (er, e) \<leftarrow> load_election K desired;
        if er = BB_OK then do {
           _ \<leftarrow> sm_log K (''[create] rejected: id '' @ [SQ] @ desired @ [SQ] @ '' already exists'');
           State_Monad.return (BB_ERR_CONFIG_ID_TAKEN, out) }
        else if er \<noteq> BB_ERR_NOT_FOUND then State_Monad.return (er, out)
        else store_election K cfg ?again out }) (create_post idle k D cfg desired)"
    by (rule spec_bind_pair [OF load_idle [OF assms(3,1,3)]]) (use end_law in simp)
qed

end

text \<open>An id allocated without a fault is new, unless the sequence numbers are used up.\<close>

lemma next_id_fresh:
  assumes "store_inv D" "count_ok (id_seq (next_id D))"
    and "\<forall>(k, q, row) \<in># st_election D. q < 2 ^ 31 - 1"
  shows "sel (next_id D) (st_election D) = {#}"
proof (rule ccontr)
  assume ne: "sel (next_id D) (st_election D) \<noteq> {#}"
  then obtain q row where q: "(q, row) \<in># sel (next_id D) (st_election D)"
    by (metis multiset_nonemptyE surj_pair)
  then have mem: "(next_id D, q, row) \<in># st_election D" by (simp add: in_sel)
  let ?Q = "set_mset (image_mset (\<lambda>(k, q, _). q) (st_election D))"
  have el: "st_election D \<noteq> {#}" using mem by auto
  have "q \<in> ?Q" using mem by force
  then have le: "q \<le> Max ?Q" by (intro Max_ge) auto
  have "Max ?Q \<in> ?Q" using el by (intro Max_in) auto
  then obtain k' row' where top: "(k', Max ?Q, row') \<in># st_election D" by auto
  with assms(3) have lt: "Max ?Q < 2 ^ 31 - 1" by auto
  have "0 \<le> Max ?Q"
    using top store_okD(1) [OF store_invD(1) [OF assms(1)]] by (cases row') (auto simp: rows_text_ok_def)
  with lt have "id_seq (next_id D) = Max ?Q + 1"
    using el id_seq_id [of "Max ?Q + 1"] by (simp add: next_id_def)
  moreover have "q = id_seq (next_id D)" using store_invD(11) [OF assms(1), of "next_id D"] q by auto
  ultimately show False using le by simp
qed

end
