(* ===== verification/Brain_Props.thy ===== *)
theory Brain_Props
  imports Brain_Txn Brain_Laws Ref_Env
begin

text \<open>
  The handlers of \<^verbatim>\<open>libballotbrain\<close> over SQL: \<^verbatim>\<open>handlers.c\<close> and \<^verbatim>\<open>lifecycle.c\<close> composed with
  \<^verbatim>\<open>db.c\<close>, \<^verbatim>\<open>txn.c\<close>, the wire and the server. Every property is stated for an arbitrary
  environment with the laws of \<open>sdb_env\<close>, and applied once in the reference environment to a
  small open election.
\<close>

context sdb_env
begin

lemmas record_sql = sql.record_ballot_law [THEN specD]
lemmas transition_sql = sql.transition_law [THEN specD]
lemmas results_sql = sql.get_results_law(1) [THEN specD]
lemmas results_admin_sql = sql.get_results_law(2) [THEN specD]
lemmas join_sql = sql.join_law [THEN specD]
lemmas lookup_sql = sql.lookup_law [THEN specD]
lemmas create_sql = sql.create_law [THEN specD]

end

section \<open>A small election\<close>

definition demo_id :: string where
  "demo_id = ''E-100''"

definition demo_config :: bb_config where
  "demo_config = config0\<lparr>cfg_title := ''Lunch'', cfg_options := [''A'', ''B''] @ replicate 14 [],
     cfg_option_count := 2, cfg_eligible := [''alice'', ''bob''] @ replicate 62 [], cfg_eligible_count := 2,
     cfg_open_time := ''1'', cfg_close_time := ''2''\<rparr>"

definition demo_store :: "bb_state \<Rightarrow> store" where
  "demo_store st = set_state demo_id st (insert_election demo_id demo_config empty_store)"

definition demo_tables :: "bb_state \<Rightarrow> tables" where
  "demo_tables st = (\<lambda>_. [])(
     BB_DB_TABLE_ELECTION := [[VInt 100, VStr demo_id, VStr ''Lunch'', VStr (bb_state_str st), VStr ''1'', VStr ''2'']],
     BB_DB_TABLE_OPTION := [[VStr demo_id, VInt 0, VStr ''A''], [VStr demo_id, VInt 1, VStr ''B'']],
     BB_DB_TABLE_ELIGIBLE := [[VStr demo_id, VStr ''alice''], [VStr demo_id, VStr ''bob'']])"

definition demo_world :: "bb_state \<Rightarrow> world" where
  "demo_world st = \<lparr>w_srv = \<lparr>committed = demo_tables st, working = None\<rparr>, w_tick = 0, w_log = [], w_txn_conn = None\<rparr>"

definition demo_ballot :: bb_ballot where
  "demo_ballot = \<lparr>bal_cert_name = ''alice'', bal_nonce = ''n1'', bal_payload = [1]\<rparr>"

abbreviation calm_env :: env where
  "calm_env \<equiv> ref_env (\<lambda>_. Runs)"

lemma demo_fits: "fits 15 demo_id" "fits 31 ''alice''" "ballot_ok demo_ballot" "id_seq demo_id = 100"
proof -
  show "fits 15 demo_id" "fits 31 ''alice''" "ballot_ok demo_ballot"
    by (simp_all add: demo_id_def demo_ballot_def ballot_ok_def fits_def lead_def clean_char_def DB_MARK_END_def error_line_def)
  show "id_seq demo_id = 100" by code_simp
qed

lemma demo_config_ok: "config_ok demo_config" "bb_validate_config demo_config = BB_OK"
proof -
  have two: "(\<forall>i < (2 :: nat). P i) \<longleftrightarrow> P 0 \<and> P 1" for P by (auto simp: less_2_cases_iff)
  show "config_ok demo_config"
    unfolding config_ok_def
    by (simp add: demo_config_def config0_def two fits_def lead_def clean_char_def DB_MARK_END_def error_line_def)
  show "bb_validate_config demo_config = BB_OK"
    by (simp add: bb_validate_config_def demo_config_def config0_def)
qed

lemma demo_inv: "store_inv (demo_store st)"
  unfolding demo_store_def
  using demo_fits demo_config_ok by (intro store_inv_set_state store_inv_insert store_inv_empty) (simp_all add: empty_store_def)

lemma demo_rows: "option_rows demo_config = [(0, ''A''), (1, ''B'')]" "eligible_rows demo_config = [''alice'', ''bob'']"
  by (simp_all add: option_rows_def eligible_rows_def demo_config_def bb_lens upt_rec)

lemma demo_fields:
  "cfg_title demo_config = ''Lunch''" "cfg_open_time demo_config = ''1''" "cfg_close_time demo_config = ''2''"
  by (simp_all add: demo_config_def)

lemma demo_rep: "rep (demo_store st) (demo_tables st)"
  by (simp add: rep_def demo_store_def demo_tables_def insert_election_def set_state_def empty_store_def demo_fits(4)
      demo_rows demo_fields table_names)

lemma demo_idle: "w_idle calm_env k (demo_store st) (demo_world st)"
  using demo_rep ref_env_calm by (simp add: w_idle_def demo_world_def)

lemma demo_sel:
  "sel demo_id (st_election (demo_store st)) = {#(100, ''Lunch'', st, ''1'', ''2'')#}"
  "sel demo_id (st_option (demo_store st)) = {#(0, ''A''), (1, ''B'')#}"
  "sel demo_id (st_eligible (demo_store st)) = {#''alice'', ''bob''#}"
  "sel k (st_ballot (demo_store st)) = {#}" "sel k (st_owner (demo_store st)) = {#}" "sel k (st_nonce (demo_store st)) = {#}"
  by (simp_all add: demo_store_def sel_set_state insert_election_def empty_store_def demo_fits(4) demo_rows demo_fields)

lemma demo_state: "in_state (demo_store st) demo_id a \<longleftrightarrow> a = st"
  by (auto simp: in_state_def demo_sel)

lemma demo_fresh: "fresh_for (demo_store st) k b"
  by (auto simp: fresh_for_def ballots_with_def demo_sel prior_is_def owners_with_def next_version_def split: option.splits)

lemma demo_verdict: "cast_verdict (demo_store BB_STATE_OPEN) demo_id demo_ballot = BB_OK"
  by (simp add: cast_verdict_def demo_sel demo_state demo_ballot_def chosen_def)

lemma demo_prior: "prior_is (demo_store st) k c p \<longleftrightarrow> p = None"
  by (auto simp: prior_is_def owners_with_def demo_sel split: option.splits)

section \<open>Recording a ballot\<close>

text \<open>
  C3: without a fault, \<^verbatim>\<open>bb_record_ballot\<close> answers exactly what the election rules say
  (\<^const>\<open>cast_verdict\<close>: the election exists, is open, the voter is eligible, the option exists, the
  nonce is new), commits the four writes of an accepted ballot as one, hands out the receipt of
  the new version, and leaves the database untouched when it refuses.
\<close>

theorem record_ballot_decides:
  assumes "sdb_env E" "store_inv D" "ballot_ok b" "fits 15 i" "fresh_for D i b" "w_idle E True D w"
    and "run_state (bb_record_ballot (sql_seam E) i b out) w = ((r, rc), w')"
  shows "r = cast_verdict D i b \<and>
    (if r = BB_OK
     then \<exists>p. prior_is D i (bal_cert_name b) p \<and> rc = cast_receipt b p \<and> w_idle E True (cast_effect D i b p) w'
     else w_idle E True D w')"
  using sdb_env.record_sql [OF assms(1-5,6,7)] by (auto simp: cast_post_def cast_failed_def)

theorem record_ballot_decides_witness:
  "fst (run_state (bb_record_ballot (sql_seam calm_env) demo_id demo_ballot receipt0) (demo_world BB_STATE_OPEN)) =
     (BB_OK, cast_receipt demo_ballot None)"
proof -
  obtain r rc w' where run: "run_state (bb_record_ballot (sql_seam calm_env) demo_id demo_ballot receipt0)
      (demo_world BB_STATE_OPEN) = ((r, rc), w')" by (metis prod.exhaust)
  from record_ballot_decides [OF ref.sdb_env_axioms demo_inv demo_fits(3,1) demo_fresh demo_idle run] run show ?thesis
    by (auto simp: demo_verdict demo_prior)
qed

text \<open>
  C4: whatever faults strike the database or the network, \<^verbatim>\<open>bb_record_ballot\<close> is atomic. The
  database holds what it held before or, as a whole, the effect of the accepted ballot. A
  success is durable, a refusal by the rules changes nothing, and the only call that leaves the
  caller in doubt is one that answers \<^const>\<open>BB_ERR_DB\<close> to a ballot the rules accept.
\<close>

theorem record_ballot_atomic:
  assumes "sdb_env E" "store_inv D" "ballot_ok b" "fits 15 i" "fresh_for D i b" "w_idle E False D w"
    and "run_state (bb_record_ballot (sql_seam E) i b out) w = ((r, rc), w')"
  shows "\<exists>D'. w_idle E False D' w' \<and>
    (D' = D \<or> (cast_verdict D i b = BB_OK \<and> (\<exists>p. prior_is D i (bal_cert_name b) p \<and> D' = cast_effect D i b p))) \<and>
    (r = BB_OK \<longrightarrow> (\<exists>p. prior_is D i (bal_cert_name b) p \<and> D' = cast_effect D i b p \<and> rc = cast_receipt b p)) \<and>
    (r \<noteq> BB_OK \<longrightarrow> r \<noteq> BB_ERR_DB \<longrightarrow> D' = D) \<and>
    (r \<in> {BB_OK, BB_ERR_DB, BB_ERR_RETRY} \<or> r = cast_verdict D i b)"
  using sdb_env.record_sql [OF assms(1-5,6,7)] unfolding cast_post_def cast_failed_def fst_conv snd_conv
  by (elim disjE conjE exE) auto

theorem record_ballot_atomic_witness:
  "\<exists>D' w' rr. run_state (bb_record_ballot (sql_seam (ref_env (\<lambda>t. if t = 3 then Deadlock else Runs))) demo_id demo_ballot receipt0)
      (demo_world BB_STATE_OPEN) = (rr, w') \<and> w_idle (ref_env (\<lambda>t. if t = 3 then Deadlock else Runs)) False D' w'"
proof -
  let ?E = "ref_env (\<lambda>t. if t = 3 then Deadlock else Runs)"
  obtain r rc w' where run: "run_state (bb_record_ballot (sql_seam ?E) demo_id demo_ballot receipt0)
      (demo_world BB_STATE_OPEN) = ((r, rc), w')" by (metis prod.exhaust)
  have "w_idle ?E False (demo_store BB_STATE_OPEN) (demo_world BB_STATE_OPEN)"
    using demo_rep by (simp add: w_idle_def demo_world_def)
  from record_ballot_atomic [OF ref.sdb_env_axioms demo_inv demo_fits(3,1) demo_fresh this run] run show ?thesis
    by blast
qed

section \<open>Creating an election\<close>

text \<open>
  C7: \<^verbatim>\<open>bb_create_election\<close> without a fault: an invalid configuration is answered with the first
  failing check; a desired id that is taken is refused; otherwise the election is stored as a
  DRAFT under the desired id or under the next id, which no election has. Nothing is stored on
  a refusal.
\<close>

theorem create_election_decides:
  assumes "sdb_env E" "store_inv D" "config_ok cfg" "fits 15 desired"
    and "desired \<noteq> [] \<Longrightarrow> count_ok (id_seq desired)" "count_ok (id_seq (next_id D))"
    and "\<forall>(k, q, row) \<in># st_election D. q < 2 ^ 31 - 1" "w_idle E True D w"
    and "run_state (bb_create_election (sql_seam E) cfg desired out) w = ((r, n), w')"
  shows "r = (if bb_validate_config cfg \<noteq> BB_OK then bb_validate_config cfg
              else if desired \<noteq> [] \<and> sel desired (st_election D) \<noteq> {#} then BB_ERR_CONFIG_ID_TAKEN
              else BB_OK) \<and>
    (if r = BB_OK
     then n = (if desired \<noteq> [] then desired else next_id D) \<and> sel n (st_election D) = {#} \<and>
          in_state (insert_election n cfg D) n BB_STATE_DRAFT \<and> w_idle E True (insert_election n cfg D) w'
     else w_idle E True D w')"
  using sdb_env.create_sql [OF assms(1-5) assms(6,8,9)] next_id_fresh [OF assms(2,6,7)]
  by (auto simp: create_post_def create_id_def in_state_insert)

theorem create_election_decides_witness:
  "fst (run_state (bb_create_election (sql_seam calm_env) demo_config [] []) (demo_world BB_STATE_OPEN)) =
     (BB_OK, next_id (demo_store BB_STATE_OPEN))"
proof -
  let ?D = "demo_store BB_STATE_OPEN"
  obtain r n w' where run: "run_state (bb_create_election (sql_seam calm_env) demo_config [] []) (demo_world BB_STATE_OPEN)
      = ((r, n), w')" by (metis prod.exhaust)
  have q: "st_election ?D = {#(demo_id, 100, ''Lunch'', BB_STATE_OPEN, ''1'', ''2'')#}"
    by (simp add: demo_store_def set_state_def insert_election_def empty_store_def demo_fits(4) demo_fields)
  then have id: "next_id ?D = ''E-'' @ int_str 101" by (simp add: next_id_def)
  have "count_ok (id_seq (next_id ?D))" using id_seq_id [of 101] id by simp
  from create_election_decides [OF ref.sdb_env_axioms demo_inv demo_config_ok(1) _ _ this _ demo_idle run] run q
  show ?thesis by (auto simp: demo_config_ok(2) fits_def)
qed

section \<open>Lifecycle\<close>

text \<open>
  C6: \<^verbatim>\<open>bb_transition_state\<close> moves an election exactly one step along DRAFT, OPEN, CLOSED,
  PUBLISHED and refuses every other move. A fault may leave the outcome of a legal move open,
  answered \<^const>\<open>BB_ERR_DB\<close>; it never causes an illegal one.
\<close>

theorem transition_legal:
  assumes "sdb_env E" "store_inv D" "fits 15 i" "w_idle E k D w" "in_state D i a"
    and "run_state (bb_transition_state (sql_seam E) i st) w = (r, w')"
  shows "(k \<longrightarrow> r = (if bb_is_legal_transition a st then BB_OK else BB_ERR_ILLEGAL_TRANSITION)) \<and>
    (r = BB_OK \<longrightarrow> bb_is_legal_transition a st \<and> w_idle E k (set_state i st D) w') \<and>
    (r \<noteq> BB_OK \<longrightarrow> w_idle E k D w' \<or> (r = BB_ERR_DB \<and> bb_is_legal_transition a st \<and> w_idle E k (set_state i st D) w')) \<and>
    (r \<noteq> BB_OK \<longrightarrow> r \<in> {BB_ERR_ILLEGAL_TRANSITION, BB_ERR_DB})"
proof -
  have uniq: "in_state D i a' \<longleftrightarrow> a' = a" for a' using in_state_unique [OF assms(2)] assms(5) by blast
  have "sel i (st_election D) \<noteq> {#}" using assms(5) by (auto simp: in_state_def)
  with sdb_env.transition_sql [OF assms(1-4,6)] show ?thesis
    unfolding transition_post_def uniq simp_thms by (elim disjE conjE) simp_all
qed

theorem transition_legal_witness:
  "fst (run_state (bb_transition_state (sql_seam calm_env) demo_id BB_STATE_CLOSED) (demo_world BB_STATE_OPEN)) = BB_OK \<and>
   fst (run_state (bb_transition_state (sql_seam calm_env) demo_id BB_STATE_DRAFT) (demo_world BB_STATE_OPEN)) =
     BB_ERR_ILLEGAL_TRANSITION"
proof -
  have "fst (run_state (bb_transition_state (sql_seam calm_env) demo_id st) (demo_world BB_STATE_OPEN)) =
      (if bb_is_legal_transition BB_STATE_OPEN st then BB_OK else BB_ERR_ILLEGAL_TRANSITION)" for st
  proof -
    obtain r w' where run: "run_state (bb_transition_state (sql_seam calm_env) demo_id st) (demo_world BB_STATE_OPEN) = (r, w')"
      by (metis prod.exhaust)
    have "in_state (demo_store BB_STATE_OPEN) demo_id BB_STATE_OPEN" by (simp add: demo_state)
    from transition_legal [OF ref.sdb_env_axioms demo_inv demo_fits(1) demo_idle [of True] this run, THEN conjunct1]
    show ?thesis unfolding run fst_conv by blast
  qed
  then show ?thesis by simp
qed

section \<open>Results\<close>

text \<open>
  C5: results are handed out only after publication, to a voter on the list. The tally of
  every option is the number of current ballots for it, and the list of hashes is exactly the
  list of current ballots: anyone can recount. A refusal or a failure leaves the caller's buffer
  as it was, and no request changes the database.
\<close>

theorem results_gated_and_exact:
  assumes "sdb_env E" "store_inv D" "fits 15 i" "w_idle E k D w"
    and "run_state (bb_get_results (sql_seam E) i c out) w = ((r, rs), w')"
  shows "w_idle E k D w' \<and>
    (r = BB_OK \<longrightarrow> in_state D i BB_STATE_PUBLISHED \<and> c \<in># sel i (st_eligible D) \<and>
       rs_option_count rs = int (size (sel i (st_option D))) \<and>
       (\<forall>j < size (sel i (st_option D)).
          rs_tally rs ! j = int (size (filter_mset (\<lambda>(h, ix, v, s). ix = int j) (live_ballots D i)))) \<and>
       image_mset hash_tuple (mset (take (nat (rs_hash_count rs)) (rs_hashes rs))) = live_ballots D i) \<and>
    (r \<noteq> BB_OK \<longrightarrow> rs = out) \<and>
    (k \<longrightarrow> r = (if sel i (st_election D) = {#} then BB_ERR_NOT_FOUND
               else if \<not> in_state D i BB_STATE_PUBLISHED then BB_ERR_NOT_PUBLISHED
               else if c \<notin># sel i (st_eligible D) then BB_ERR_NOT_ELIGIBLE else BB_OK))"
  using sdb_env.results_sql [OF assms(1-4,5)]
  by (auto simp: results_post_def results_verdict_def results_are_def split: if_splits)

theorem results_gated_and_exact_witness:
  "fst (fst (run_state (bb_get_results (sql_seam calm_env) demo_id ''bob'' results0) (demo_world BB_STATE_PUBLISHED))) = BB_OK \<and>
   fst (fst (run_state (bb_get_results (sql_seam calm_env) demo_id ''bob'' results0) (demo_world BB_STATE_CLOSED))) =
     BB_ERR_NOT_PUBLISHED"
proof -
  have "fst (fst (run_state (bb_get_results (sql_seam calm_env) demo_id ''bob'' results0) (demo_world st))) =
      (if st = BB_STATE_PUBLISHED then BB_OK else BB_ERR_NOT_PUBLISHED)" for st
  proof -
    obtain r rs w' where run: "run_state (bb_get_results (sql_seam calm_env) demo_id ''bob'' results0) (demo_world st) = ((r, rs), w')"
      by (metis prod.exhaust)
    from results_gated_and_exact [OF ref.sdb_env_axioms demo_inv demo_fits(1) demo_idle [of True] run,
        THEN conjunct2, THEN conjunct2, THEN conjunct2]
    show ?thesis unfolding run fst_conv by (simp add: demo_state demo_sel)
  qed
  then show ?thesis by simp
qed

section \<open>Joining and checking a receipt\<close>

text \<open>
  C8: \<^verbatim>\<open>bb_join\<close> answers a voter on the list of an open election with the election as it is
  stored and the version of the voter's own current ballot; nobody else gets in, and joining
  changes nothing in the database.
\<close>

theorem join_decides:
  assumes "sdb_env E" "store_inv D" "fits 15 i" "fits 31 c" "w_idle E k D w"
    and "run_state (bb_join (sql_seam E) i c out) w = ((r, jo), w')"
  shows "w_idle E k D w' \<and>
    (k \<longrightarrow> r = (if sel i (st_election D) = {#} then BB_ERR_NOT_FOUND
               else if c = [] then BB_ERR_CERT_INVALID
               else if c \<notin># sel i (st_eligible D) then BB_ERR_NOT_ELIGIBLE
               else if \<not> in_state D i BB_STATE_OPEN then BB_ERR_NOT_OPEN else BB_OK)) \<and>
    (r = BB_OK \<longrightarrow> c \<in># sel i (st_eligible D) \<and> in_state D i BB_STATE_OPEN \<and>
       (\<exists>row \<in># sel i (st_election D). election_is D i row (jo_election jo)) \<and>
       (\<exists>p. prior_is D i c p \<and> jo_has_ballot jo = (p \<noteq> None) \<and>
            jo_version jo = (case p of None \<Rightarrow> 0 | Some (h, v) \<Rightarrow> v)))"
  using sdb_env.join_sql [OF assms(1-5,6)]
  by (auto simp: join_post_def join_verdict_def found_election_def split: if_splits)

theorem join_decides_witness:
  "fst (fst (run_state (bb_join (sql_seam calm_env) demo_id ''alice'' \<lparr>jo_election = election0, jo_has_ballot = True, jo_version = 7\<rparr>)
     (demo_world BB_STATE_OPEN))) = BB_OK"
proof -
  let ?o = "\<lparr>jo_election = election0, jo_has_ballot = True, jo_version = 7\<rparr>"
  obtain r jo w' where run: "run_state (bb_join (sql_seam calm_env) demo_id ''alice'' ?o) (demo_world BB_STATE_OPEN) = ((r, jo), w')"
    by (metis prod.exhaust)
  from join_decides [OF ref.sdb_env_axioms demo_inv demo_fits(1,2) demo_idle [of True] run, THEN conjunct2, THEN conjunct1]
  show ?thesis unfolding run fst_conv by (simp add: demo_state demo_sel)
qed

text \<open>
  C9: a receipt hash is found exactly when it is the hash of a current ballot of an existing
  election, and then the row and the name of the option it counts for are handed out.
\<close>

theorem lookup_finds:
  assumes "sdb_env E" "store_inv D" "fits 15 i" "fits 64 h" "w_idle E k D w"
    and "run_state (bb_lookup_hash (sql_seam E) i h out) w = ((r, row, nm), w')"
  shows "w_idle E k D w' \<and>
    (r = BB_OK \<longrightarrow> hash_tuple row \<in># live_with D i h \<and> (bh_option_index row, nm) \<in># sel i (st_option D)) \<and>
    (k \<longrightarrow> r = (if sel i (st_election D) = {#} \<or> live_with D i h = {#} then BB_ERR_NOT_FOUND else BB_OK))"
proof -
  note post = sdb_env.lookup_sql [OF assms(1-5,6)]
  have "live_with D i h = {#}" if "sel i (st_election D) = {#}"
    using no_election(3) [OF assms(2) that] by (simp add: live_with_def ballots_with_def)
  with post show ?thesis by (auto simp: lookup_post_def split: if_splits)
qed

theorem lookup_finds_witness:
  "fst (fst (run_state (bb_lookup_hash (sql_seam calm_env) demo_id ''0f'' (hash0, [])) (demo_world BB_STATE_OPEN))) = BB_ERR_NOT_FOUND"
proof -
  obtain r row nm w' where run: "run_state (bb_lookup_hash (sql_seam calm_env) demo_id ''0f'' (hash0, [])) (demo_world BB_STATE_OPEN)
      = ((r, row, nm), w')" by (metis prod.exhaust)
  have "fits 64 ''0f''" by (simp add: fits_def clean_char_def)
  from lookup_finds [OF ref.sdb_env_axioms demo_inv demo_fits(1) this demo_idle [of True] run, THEN conjunct2, THEN conjunct2]
  show ?thesis unfolding run fst_conv by (simp add: demo_sel live_with_def ballots_with_def)
qed

end
