(* ===== verification/Ballotd_Props.thy ===== *)
theory Ballotd_Props
  imports Ballotd Brain_Props
begin

text \<open>
  The daemon over the real storage: what one dispatched request, one pass and a whole run of the
  administrator thread do to the elections in the database, and a ballot followed from the
  voter's client to the database and back.
\<close>

section \<open>One request\<close>

text \<open>
  What a request must satisfy for the store it meets: texts that fit their columns, and for a
  ballot a receipt hash no other ballot of the election has. When faults may strike, a CREATE
  must name its election, since \<^verbatim>\<open>bb_alloc_id\<close> falls back to a used id when its read fails.
\<close>

definition dispatch_ok :: "bool \<Rightarrow> store \<Rightarrow> bcl_request \<Rightarrow> bool" where
  "dispatch_ok k D req \<longleftrightarrow>
     fits 15 (br_election_id req) \<and> fits 31 (br_cert_name req) \<and> fits 64 (br_hash req) \<and>
     (br_op req = BCL_CREATE \<longrightarrow>
        config_ok (br_config req) \<and>
        (br_election_id req \<noteq> [] \<longrightarrow> count_ok (id_seq (br_election_id req))) \<and>
        (br_election_id req = [] \<longrightarrow>
           k \<and> count_ok (id_seq (next_id D)) \<and> (\<forall>(i, q, row) \<in># st_election D. q < 2 ^ 31 - 1))) \<and>
     (br_op req = BCL_CAST \<or> br_op req = BCL_UPDATE \<longrightarrow> ballot_ok (br_ballot req) \<and> fresh_for D (br_election_id req) (br_ballot req))"

lemma ctl_requests_run:
  assumes "run_state (ctl_requests K now crs) w = (outs, w')"
  shows "\<exists>resps. run_state (dispatch_all K (map (fst \<circ> snd) crs)) w = (resps, w')"
  using assms
proof (induction crs arbitrary: w outs w')
  case (Cons cr crs)
  obtain fd req evs where cr: "cr = (fd, req, evs)" by (metis prod.exhaust)
  obtain resp w1 where d: "run_state (ballotd_dispatch K req) w = (resp, w1)" by (metis prod.exhaust)
  obtain o2 w2 where t: "run_state (ctl_requests K now crs) w1 = (o2, w2)" by (metis prod.exhaust)
  from Cons.prems d t have "w' = w2" by (simp add: cr handle_ctl_req_def run_bind run_return)
  with Cons.IH [OF t] d show ?case by (auto simp: cr run_bind run_return)
qed (simp add: run_return)

lemma register_quiet:
  "fold register_worker news (slots, outs) = (slots', outs') \<Longrightarrow> s \<in> set slots' \<Longrightarrow> s \<in> set slots \<or> sl_ready s = Quiet"
proof (induction news arbitrary: slots outs)
  case (Cons nw news)
  obtain pid fd where nw: "nw = (pid, fd)" by (metis prod.exhaust)
  show ?case
  proof (cases "length slots < MAX_WORKERS")
    case True
    then have "register_worker nw (slots, outs) = (slots @ [\<lparr>sl_fd = fd, sl_pid = pid, sl_ready = Quiet\<rparr>], outs)"
      by (simp add: register_worker_def nw)
    with Cons.prems(1) have "fold register_worker news (slots @ [\<lparr>sl_fd = fd, sl_pid = pid, sl_ready = Quiet\<rparr>], outs) = (slots', outs')"
      by simp
    from Cons.IH [OF this Cons.prems(2)] show ?thesis by auto
  next
    case False
    then have "register_worker nw (slots, outs) = (slots, outs @ [Close fd])" by (simp add: register_worker_def nw)
    with Cons.prems(1) have "fold register_worker news (slots, outs @ [Close fd]) = (slots', outs')" by simp
    from Cons.IH [OF this Cons.prems(2)] show ?thesis .
  qed
qed simp

lemma in_requests_of: "(fd, req) \<in># requests_of M \<Longrightarrow> \<exists>s \<in># M. sl_fd s = fd \<and> sl_ready s = Asks req"
  by (induction M) (auto simp: requests_of_def split: worker_event.splits)

definition wake_requests :: "wake \<Rightarrow> bcl_request set" where
  "wake_requests wk = {req. (\<exists>fd evs. (fd, req, evs) \<in> set (wk_ctl wk)) \<or> (\<exists>fd. wk_ready wk fd = Asks req)}"

context sdb_env
begin

lemma step_self: "w_idle E k D w \<Longrightarrow> \<exists>D'. store_steps D D' \<and> w_idle E k D' w"
  by blast

lemma create_step:
  assumes "store_inv D" "dispatch_ok k D req" "br_op req = BCL_CREATE" "w_idle E k D w"
    "run_state (bb_create_election (sql_seam E) (br_config req) (br_election_id req) out) w = ((r, n), w')"
  shows "\<exists>D'. store_steps D D' \<and> w_idle E k D' w'"
proof -
  let ?cfg = "br_config req" and ?i = "br_election_id req"
  have ok: "config_ok ?cfg" "fits 15 ?i" "?i \<noteq> [] \<Longrightarrow> count_ok (id_seq ?i)" "?i = [] \<Longrightarrow> count_ok (id_seq (next_id D))"
    using assms(2,3) by (auto simp: dispatch_ok_def)
  have step: "store_step D (insert_election n ?cfg D)" if "create_id k D ?i n" "bb_validate_config ?cfg = BB_OK" for n
  proof (cases "?i = []")
    case True
    with assms(2,3) have t: "k" "count_ok (id_seq (next_id D))" "\<forall>(i, q, row) \<in># st_election D. q < 2 ^ 31 - 1"
      by (simp_all add: dispatch_ok_def)
    from that(1) t(1) True have "n = next_id D" by (simp add: create_id_def)
    with next_id_fresh [OF assms(1) t(2,3)] new_id_fits(1) t(2) ok(1) that(2) show ?thesis by (auto intro: store_step.create)
  next
    case False
    with that(1) have "n = ?i" "sel ?i (st_election D) = {#}" by (auto simp: create_id_def)
    with ok that(2) False show ?thesis by (auto intro: store_step.create)
  qed
  from create_sql [OF assms(1) ok(1,2,3,4) assms(4,5)] show ?thesis
    unfolding create_post_def fst_conv snd_conv using step by blast
qed

lemma transition_step:
  assumes "store_inv D" "fits 15 i" "w_idle E k D w" "run_state (bb_transition_state (sql_seam E) i st) w = (r, w')"
  shows "\<exists>D'. store_steps D D' \<and> w_idle E k D' w'"
  using transition_sql [OF assms(1,2,3,4)] store_step.advance [of D i _ st]
  unfolding transition_post_def by blast

lemma record_step:
  assumes "store_inv D" "ballot_ok b" "fits 15 i" "fresh_for D i b" "w_idle E k D w"
    "run_state (bb_record_ballot (sql_seam E) i b out) w = ((r, rc), w')"
  shows "\<exists>D'. store_steps D D' \<and> w_idle E k D' w'"
  using record_sql [OF assms] store_step.cast [OF _ assms(2,3,4)]
  unfolding cast_post_def cast_failed_def fst_conv snd_conv by blast

lemma alloc_idle:
  assumes "store_inv D" "w_idle E k D w" "run_state (sm_alloc_id (sql_seam E)) w = (n, w')"
  shows "w_idle E k D w'"
  using specD [OF sql.alloc_law [OF store_invD(1) [OF assms(1)]] assms(2,3)] by simp

lemma dispatch_step:
  assumes "store_inv D" "dispatch_ok k D req" "w_idle E k D w"
    "run_state (ballotd_dispatch (sql_seam E) req) w = (resp, w')"
  shows "\<exists>D'. store_steps D D' \<and> w_idle E k D' w'"
proof -
  note sp = run_bind run_return Let_def
  have ok: "fits 15 (br_election_id req)" "fits 31 (br_cert_name req)" "fits 64 (br_hash req)"
    using assms(2) by (simp_all add: dispatch_ok_def)
  let ?i = "br_election_id req"
  have pub: "bb_publish_results (sql_seam E) ?i = bb_transition_state (sql_seam E) ?i BB_STATE_PUBLISHED"
    by (simp add: bb_publish_results_def)
  show ?thesis
  proof (cases "br_op req")
    case BCL_CREATE
    with assms(4) create_step [OF assms(1,2) _ assms(3)] show ?thesis
      by (auto simp: ballotd_dispatch_def sp split: prod.splits)
  next
    case BCL_ADMIN_NEXT_ID
    with assms(4) alloc_idle [OF assms(1,3)] show ?thesis
      by (auto simp: ballotd_dispatch_def sp split: prod.splits)
  next
    case BCL_OPEN
    with assms(4) transition_step [OF assms(1) ok(1) assms(3)] show ?thesis
      by (auto simp: ballotd_dispatch_def sp split: prod.splits)
  next
    case BCL_CLOSE
    with assms(4) transition_step [OF assms(1) ok(1) assms(3)] show ?thesis
      by (auto simp: ballotd_dispatch_def sp split: prod.splits)
  next
    case BCL_PUBLISH
    with assms(4) transition_step [OF assms(1) ok(1) assms(3)] show ?thesis
      by (auto simp: ballotd_dispatch_def sp pub split: prod.splits)
  next
    case BCL_JOIN
    with assms(4) join_sql [OF assms(1) ok(1,2) assms(3)] show ?thesis
      by (fastforce simp: ballotd_dispatch_def sp join_post_def split: prod.splits)
  next
    case BCL_CAST
    with assms(2,4) record_step [OF assms(1) _ ok(1) _ assms(3)] show ?thesis
      by (auto simp: ballotd_dispatch_def sp dispatch_ok_def split: prod.splits)
  next
    case BCL_UPDATE
    with assms(2,4) record_step [OF assms(1) _ ok(1) _ assms(3)] show ?thesis
      by (auto simp: ballotd_dispatch_def sp dispatch_ok_def split: prod.splits)
  next
    case BCL_RESULTS
    with assms(4) results_sql [OF assms(1) ok(1) assms(3)] show ?thesis
      by (fastforce simp: ballotd_dispatch_def sp results_post_def split: prod.splits)
  next
    case BCL_ADMIN_RESULTS
    with assms(4) results_admin_sql [OF assms(1) ok(1) assms(3)] show ?thesis
      by (fastforce simp: ballotd_dispatch_def sp results_post_def split: prod.splits)
  next
    case BCL_CHECK
    with assms(4) lookup_sql [OF assms(1) ok(1,3) assms(3)] show ?thesis
      by (fastforce simp: ballotd_dispatch_def sp lookup_post_def split: prod.splits)
  next
    case BCL_ADMIN_CHECK
    with assms(4) lookup_sql [OF assms(1) ok(1,3) assms(3)] show ?thesis
      by (fastforce simp: ballotd_dispatch_def sp lookup_post_def split: prod.splits)
  qed
qed

section \<open>A run of the administrator thread\<close>

lemma dispatch_all_step:
  assumes "store_inv D" "\<And>r D'. r \<in> set rs \<Longrightarrow> store_steps D D' \<Longrightarrow> dispatch_ok k D' r" "w_idle E k D w"
    "run_state (dispatch_all (sql_seam E) rs) w = (resps, w')"
  shows "\<exists>D'. store_steps D D' \<and> w_idle E k D' w'"
  using assms
proof (induction rs arbitrary: D w resps w')
  case Nil
  then show ?case by (auto simp: run_return)
next
  case (Cons r rs)
  obtain resp w1 where d: "run_state (ballotd_dispatch (sql_seam E) r) w = (resp, w1)" by (metis prod.exhaust)
  have "dispatch_ok k D r" using Cons.prems(2) by simp
  from dispatch_step [OF Cons.prems(1) this Cons.prems(3) d] obtain D1 where
    D1: "store_steps D D1" "w_idle E k D1 w1" by blast
  obtain rest w2 where rest: "run_state (dispatch_all (sql_seam E) rs) w1 = (rest, w2)" by (metis prod.exhaust)
  with Cons.prems(4) d have w2: "w' = w2" by (simp add: run_bind run_return)
  have "\<exists>D'. store_steps D1 D' \<and> w_idle E k D' w2"
    by (rule Cons.IH [OF store_steps_inv [OF D1(1) Cons.prems(1)] _ D1(2) rest])
       (use Cons.prems(2) D1(1) in \<open>auto intro: rtranclp_trans\<close>)
  with D1(1) w2 show ?case by (auto intro: rtranclp_trans)
qed

lemma admin_pass_step:
  assumes "store_inv D" "\<And>r D'. r \<in> wake_requests wk \<Longrightarrow> store_steps D D' \<Longrightarrow> dispatch_ok k D' r" "w_idle E k D w"
    "run_state (admin_pass (sql_seam E) now wk slots) w = ((slots', outs), w')"
  shows "\<exists>D'. store_steps D D' \<and> w_idle E k D' w'"
proof -
  obtain s1 o1 where reg: "fold register_worker (wk_new wk) (mark_ready wk slots, []) = (s1, o1)" by (metis prod.exhaust)
  obtain o2 w1 where c: "run_state (ctl_requests (sql_seam E) now (wk_ctl wk)) w = (o2, w1)" by (metis prod.exhaust)
  obtain s3 o3 w2 where v: "run_state (serve_workers (sql_seam E) 0 s1) w1 = ((s3, o3), w2)" by (metis prod.exhaust)
  from assms(4) reg c v have w2: "w' = w2" by (simp add: admin_pass_def run_bind run_return)
  from ctl_requests_run [OF c] obtain resps where
    "run_state (dispatch_all (sql_seam E) (map (fst \<circ> snd) (wk_ctl wk))) w = (resps, w1)" by blast
  then have "\<exists>D'. store_steps D D' \<and> w_idle E k D' w1"
    by (rule dispatch_all_step [OF assms(1) assms(2) assms(3), rotated 2]) (force simp: wake_requests_def)+
  then obtain D1 where D1: "store_steps D D1" "w_idle E k D1 w1" by blast
  from serve_workers_spec [OF v] obtain reqs resps where r: "mset reqs = requests_of (mset s1)"
    "run_state (dispatch_all (sql_seam E) (map snd reqs)) w1 = (resps, w2)" by auto
  have "req \<in> wake_requests wk" if "req \<in> set (map snd reqs)" for req
  proof -
    from that obtain fd where "(fd, req) \<in># mset reqs" by auto
    from in_requests_of [OF this [unfolded r(1)]] obtain s where s: "s \<in> set s1" "sl_ready s = Asks req" by auto
    with register_quiet [OF reg s(1)] have "s \<in> set (mark_ready wk slots)" by auto
    with s(2) show ?thesis by (auto simp: mark_ready_def wake_requests_def)
  qed
  then have "\<exists>D'. store_steps D1 D' \<and> w_idle E k D' w2"
    by (intro dispatch_all_step [OF store_steps_inv [OF D1(1) assms(1)] _ D1(2) r(2)])
       (use assms(2) D1(1) in \<open>auto intro: rtranclp_trans\<close>)
  with D1(1) w2 show ?thesis by (auto intro: rtranclp_trans)
qed

lemma admin_thread_step:
  assumes "store_inv D" "\<And>wk r D'. Poll_Ready wk \<in> set ps \<Longrightarrow> r \<in> wake_requests wk \<Longrightarrow> store_steps D D' \<Longrightarrow> dispatch_ok k D' r"
    "w_idle E k D w" "run_state (admin_thread (sql_seam E) now ps slots) w = ((slots', outs), w')"
  shows "\<exists>D'. store_steps D D' \<and> w_idle E k D' w'"
  using assms
proof (induction "sql_seam E" now ps slots arbitrary: D w slots' outs w' rule: admin_thread.induct)
  case (4 now wk ps slots)
  show ?case
  proof (cases "wk_quit wk")
    case True
    with "4.prems" show ?thesis by (auto simp: run_return)
  next
    case False
    obtain s1 o1 w1 where p: "run_state (admin_pass (sql_seam E) now wk slots) w = ((s1, o1), w1)" by (metis prod.exhaust)
    obtain s2 o2 w2 where t: "run_state (admin_thread (sql_seam E) now ps s1) w1 = ((s2, o2), w2)" by (metis prod.exhaust)
    from "4.prems"(4) False p t have w2: "w' = w2" by (simp add: run_bind run_return)
    have "\<exists>D'. store_steps D D' \<and> w_idle E k D' w1"
      by (rule admin_pass_step [OF "4.prems"(1) _ "4.prems"(3) p]) (use "4.prems"(2) in auto)
    then obtain D1 where D1: "store_steps D D1" "w_idle E k D1 w1" by blast
    have "\<exists>D'. store_steps D1 D' \<and> w_idle E k D' w2"
      by (rule "4.hyps" [OF False store_steps_inv [OF D1(1) "4.prems"(1)] _ D1(2) t])
         (use "4.prems"(2) D1(1) in \<open>auto intro: rtranclp_trans\<close>)
    with D1(1) w2 show ?thesis by (auto intro: rtranclp_trans)
  qed
qed (auto simp: run_return)

end

section \<open>Properties\<close>

text \<open>
  C19: one pass of the administrator thread over its workers serves each request that is waiting
  exactly once, in some order, with the answer going to the worker that asked, and drops exactly
  the workers that are gone, although the loop moves the last slot into each hole it makes.
\<close>

theorem workers_served_once:
  assumes "run_state (serve_workers K 0 slots) w = ((slots', outs), w')"
  shows "\<exists>reqs resps. mset reqs = requests_of (mset slots) \<and>
    run_state (dispatch_all K (map snd reqs)) w = (resps, w') \<and> answers outs = zip (map fst reqs) resps \<and>
    mset slots' = filter_mset (\<lambda>s. sl_ready s \<noteq> Gone) (mset slots)"
  using serve_workers_spec [OF assms] by simp


definition demo_slots :: "slot list" where
  "demo_slots = [\<lparr>sl_fd = 7, sl_pid = 1, sl_ready = Gone\<rparr>, \<lparr>sl_fd = 8, sl_pid = 2, sl_ready = Quiet\<rparr>,
     \<lparr>sl_fd = 9, sl_pid = 3, sl_ready = Gone\<rparr>]"

theorem workers_served_once_witness:
  "mset (fst (fst (run_state (serve_workers (sql_seam calm_env) 0 demo_slots) (demo_world BB_STATE_OPEN)))) =
     {#\<lparr>sl_fd = 8, sl_pid = 2, sl_ready = Quiet\<rparr>#}"
proof -
  obtain s os w where r: "run_state (serve_workers (sql_seam calm_env) 0 demo_slots) (demo_world BB_STATE_OPEN) = ((s, os), w)"
    by (metis prod.exhaust)
  from workers_served_once [OF r] r show ?thesis by (auto simp: demo_slots_def)
qed


definition demo_close :: bcl_request where
  "demo_close = bcl_request0\<lparr>br_op := BCL_CLOSE, br_election_id := demo_id\<rparr>"

definition demo_wake :: wake where
  "demo_wake = \<lparr>wk_quit = False, wk_new = [(1, 7)], wk_ctl = [(5, demo_close, [])], wk_ready = (\<lambda>_. Quiet)\<rparr>"

lemma demo_close_ok: "dispatch_ok k D demo_close"
  using demo_fits(1) by (simp add: dispatch_ok_def demo_close_def bcl_request0_def fits_def)


section \<open>A ballot from the client to the database and back\<close>

lemma encode_request_bytes: "bcl_encode_request req cap = Some out \<Longrightarrow> out \<noteq> [] \<and> length out \<le> cap"
  by (auto simp: bcl_encode_request_def serialize_request_spec request_bytes_def request_line_def
      split: option.splits sum.splits if_splits)

lemma encode_response_bytes: "bcl_encode_response now op resp cap = Some out \<Longrightarrow> out \<noteq> [] \<and> length out \<le> cap"
  by (auto simp: bcl_encode_response_def serialize_response_spec response_bytes_def status_line_def HTTTP_VERSION_def
      split: option.splits sum.splits)

text \<open>The receipt a failed or successful recording leaves: the old one or one of this nonce.\<close>

definition receipt_shape :: "bb_ballot \<Rightarrow> bb_receipt \<Rightarrow> bb_receipt \<Rightarrow> bool" where
  "receipt_shape b out rc \<longleftrightarrow> rc = out \<or> (\<exists>v. rc = receipt_of (bal_nonce b) v)"

lemma spec_any_bind: "(\<And>a. spec (\<lambda>_. True) (f a) Q) \<Longrightarrow> spec (\<lambda>_. True) (State_Monad.bind m f) Q"
  by (rule spec_bind [where R = "\<lambda>_ _. True"]) (auto simp: spec_def)

lemma spec_any_return: "Q a \<Longrightarrow> spec (\<lambda>_. True) (State_Monad.return a) (\<lambda>x _. Q x)"
  by (rule spec_return)

abbreviation shaped :: "bb_ballot \<Rightarrow> bb_receipt \<Rightarrow> ('w, bb_result \<times> bb_receipt) state \<Rightarrow> bool" where
  "shaped b out m \<equiv> spec (\<lambda>_. True) m (\<lambda>rr _. receipt_shape b out (snd rr))"

lemma shaped_return: "receipt_shape b out rc \<Longrightarrow> shaped b out (State_Monad.return (r, rc))"
  by (rule spec_return) simp

lemma spec_const: "(c \<Longrightarrow> spec (\<lambda>_. True) m Q) \<Longrightarrow> spec (\<lambda>_. c) m Q"
  by (auto simp: spec_def)

lemma issue_shape: "spec (\<lambda>_. True) (bb_issue_receipt K b v) (\<lambda>rr _. snd rr = receipt_of (bal_nonce b) v)"
  unfolding bb_issue_receipt_def Let_def by (intro spec_any_bind spec_return) simp

lemma locked_shape: "shaped b out (record_ballot_locked K i b out)"
proof -
  have out: "receipt_shape b out out" and issued: "receipt_shape b out (receipt_of (bal_nonce b) v)" for v
    by (auto simp: receipt_shape_def)
  have w: "shaped b out (write_ballot K i b ix pr out)" for ix pr
    unfolding write_ballot_def Let_def
    by (rule spec_bind_pair [OF issue_shape], rule spec_const)
       (auto intro!: spec_any_bind shaped_return out issued split: prod.split)
  have n: "shaped b out (check_nonce K i b ix out)" for ix
    unfolding check_nonce_def by (auto intro!: spec_any_bind shaped_return out w split: prod.split)
  have c: "shaped b out (check_ballot K i b e out)" for e
    unfolding check_ballot_def by (auto intro!: spec_any_bind shaped_return out n split: prod.split)
  show ?thesis
    unfolding record_ballot_locked_def by (auto intro!: spec_any_bind shaped_return out c split: prod.split)
qed

lemma attempts_shape: "receipt_shape b out0 out \<Longrightarrow> shaped b out0 (record_attempts K i b n r out)"
proof (induction n arbitrary: r out)
  case 0
  then show ?case by (simp add: shaped_return)
next
  case (Suc n)
  have trans: "receipt_shape b out0 rc" if "receipt_shape b out rc" for rc
    using that Suc.prems by (auto simp: receipt_shape_def)
  have rest: "shaped b out0 (do {
        (r, out) \<leftarrow> record_ballot_locked K i b out;
        if r = BB_ERR_RETRY then do { _ \<leftarrow> sm_rollback K; record_attempts K i b n r out }
        else if r \<noteq> BB_OK then do { _ \<leftarrow> sm_rollback K; State_Monad.return (r, out) }
        else do { r \<leftarrow> sm_commit K;
          if r = BB_ERR_RETRY then record_attempts K i b n r out else State_Monad.return (r, out) } })"
    by (rule spec_bind_pair [OF locked_shape], rule spec_const)
       (auto intro!: spec_any_bind shaped_return Suc.IH trans)
  show ?case
    unfolding record_attempts.simps
    by (rule spec_any_bind, rule spec_if, rule shaped_return, rule Suc.prems, rule rest)
qed

lemma record_shape:
  assumes "run_state (bb_record_ballot K i b out) w = ((r, rc), w')"
  shows "receipt_shape b out rc"
  using specD [OF attempts_shape [of b out out K i BB_TXN_ATTEMPTS BB_ERR_DB] _ assms [unfolded bb_record_ballot_def]]
  by (simp add: receipt_shape_def)

lemma fits_text: "fits n s \<Longrightarrow> text_ok n s"
  using clean_string_facts [of s] by (simp add: fits_def text_ok_def)

lemma receipt_text: "text_ok 64 (rc_hash (receipt_of n v))" "text_ok 31 (rc_issued_at (receipt_of n v))"
proof -
  show "text_ok 64 (rc_hash (receipt_of n v))"
    unfolding receipt_hash by (rule fits_text, rule hash_from_seed_lead [unfolded lead_def, THEN conjunct1])
  show "text_ok 31 (rc_issued_at (receipt_of n v))" by (simp add: receipt_of_def text_ok_def)
qed

lemma recorded_response_ok:
  assumes "receipt_shape b receipt0 rc" "r \<noteq> BB_ERR_RETRY"
  shows "response_ok (bcl_response0\<lparr>bp_status := r, bp_receipt := rc\<rparr>)"
proof -
  have "text_ok 64 (rc_hash rc)" "text_ok 31 (rc_issued_at rc)"
    using assms(1) receipt_text by (auto simp: receipt_shape_def receipt0_def)
  with assms(2) show ?thesis
    by (simp add: response_ok_def bcl_response0_def election0_def BB_MAX_OPTIONS_def BB_MAX_VOTERS_def
        list_all_iff set_replicate_conv_if)
qed

lemma verdict_not_retry: "cast_verdict D i b \<noteq> BB_ERR_RETRY"
  by (simp add: cast_verdict_def)

lemma voter_reply:
  assumes "request_ok req" "is_voter_op (br_op req)" "tm_ok now"
    and "run_state (admin (verified name (sent_request req))) w = (Some resp, w')" "response_ok resp"
  shows "\<exists>out bytes h. bcl_encode_request req SESSION_MAX_FRAME = Some out \<and>
    run_state (handle_request now name admin out) w = (Some bytes, w') \<and>
    bcl_encode_response now (br_op req) resp SESSION_MAX_FRAME = Some bytes \<and>
    htttp_parse_response bytes = (HTTTP_OK, h) \<and> bcl_decode_response h = (True, sent_response (br_op req) resp)"
proof -
  have cap: "16384 \<le> SESSION_MAX_FRAME" by (simp add: SESSION_MAX_FRAME_def)
  from encode_sent [OF assms(1) cap] decode_sent [OF assms(1)] obtain out h where
    o: "bcl_encode_request req SESSION_MAX_FRAME = Some out" "htttp_parse_request out = (HTTTP_OK, h)"
      "bcl_decode_request h = (True, sent_request req)" by blast
  have op: "br_op (sent_request req) = br_op req" by (cases "br_op req") (simp_all add: sent_request_def)
  from encode_answer [OF assms(5,3) cap, of "br_op req"] obtain bytes h' where
    b: "bcl_encode_response now (br_op req) resp SESSION_MAX_FRAME = Some bytes" "htttp_parse_response bytes = (HTTTP_OK, h')"
      "bcl_decode_response h' = (True, sent_response (br_op req) resp)" by blast
  have "run_state (handle_request now name admin out) w = (Some bytes, w')"
    using assms(2,4) b(1) by (simp add: handle_request_def o op run_bind run_return Let_def verified_def)
  with o b show ?thesis by blast
qed

text \<open>
  A well-formed voter request is answered whenever the administrator thread answers it with a
  well-formed response: the client's bytes reach that thread as the same request under the
  session's account, and the client decodes exactly the response's fields for its operation.
\<close>

theorem voter_call:
  assumes "request_ok req" "is_voter_op (br_op req)" "tm_ok now"
    and "run_state (admin (verified name (sent_request req))) w = (Some resp, w')" "response_ok resp"
  shows "\<exists>out bytes h. bcl_encode_request req SESSION_MAX_FRAME = Some out \<and>
    run_state (handle_request now name admin out) w = (Some bytes, w') \<and>
    htttp_parse_response bytes = (HTTTP_OK, h) \<and> bcl_decode_response h = (True, sent_response (br_op req) resp)"
  using voter_reply [where admin = admin and name = name, OF assms] by blast

theorem voter_call_witness:
  "\<exists>out bytes h. bcl_encode_request demo_cast SESSION_MAX_FRAME = Some out \<and>
    fst (run_state (handle_request \<lparr>tm_sec = 5, tm_min = 4, tm_hour = 3, tm_mday = 2, tm_mon = 0, tm_year = 126, tm_wday = 5\<rparr>
      ''alice'' (\<lambda>r. State_Monad.return (Some (bcl_response0\<lparr>bp_status := BB_ERR_CLOSED\<rparr>))) out) ()) = Some bytes \<and>
    htttp_parse_response bytes = (HTTTP_OK, h) \<and> bcl_decode_response h = (True, bcl_response0\<lparr>bp_status := BB_ERR_CLOSED\<rparr>)"
proof -
  let ?now = "\<lparr>tm_sec = 5, tm_min = 4, tm_hour = 3, tm_mday = 2, tm_mon = 0, tm_year = 126, tm_wday = 5\<rparr>"
  let ?r = "bcl_response0\<lparr>bp_status := BB_ERR_CLOSED\<rparr>"
  have ok: "is_voter_op (br_op demo_cast)" "tm_ok ?now" by (simp_all add: is_voter_op_def demo_cast_def tm_ok_def)
  have op: "br_op demo_cast = BCL_CAST" by (simp add: demo_cast_def)
  have "response_ok ?r"
    using recorded_response_ok [of demo_ballot receipt0 BB_ERR_CLOSED] by (simp add: receipt_shape_def bcl_response0_def)
  from voter_call [OF demo_cast_ok ok, of "\<lambda>r. State_Monad.return (Some ?r)" "''alice''" "()", OF _ this]
  obtain out bytes h where b: "bcl_encode_request demo_cast SESSION_MAX_FRAME = Some out"
    "run_state (handle_request ?now ''alice'' (\<lambda>r. State_Monad.return (Some ?r)) out) () = (Some bytes, ())"
    "htttp_parse_response bytes = (HTTTP_OK, h)" "bcl_decode_response h = (True, sent_response (br_op demo_cast) ?r)"
    by (auto simp: run_return)
  have "sent_response BCL_CAST ?r = ?r" by (simp add: sent_response_def bcl_response0_def receipt0_def)
  with b show ?thesis unfolding op by (intro exI conjI) (auto simp: b(2))
qed

text \<open>The daemon as a session sees it: the administrator thread dispatches and answers.\<close>

definition admin_link :: "env \<Rightarrow> bcl_request \<Rightarrow> (world, bcl_response option) state" where
  "admin_link E req = do { resp \<leftarrow> ballotd_dispatch (sql_seam E) req; State_Monad.return (Some resp) }"

text \<open>
  C1: a ballot sent by a voter's client travels over the wire, through the session, the administrator
  thread, the handler, the SQL and the database and back: in the absence of faults the client
  decodes exactly the verdict of the election rules on the ballot under the account of the
  session, and with it the receipt of the ballot that is then in the database; a refused ballot
  leaves the database untouched.
\<close>

theorem cast_end_to_end:
  assumes "sdb_env E" "store_inv D" "w_idle E True D w" "tm_ok now"
    and "request_ok req" "br_op req = BCL_CAST \<or> br_op req = BCL_UPDATE" "length name \<le> 31"
    and "fits 15 i" "i = br_election_id req" "b = (br_ballot req)\<lparr>bal_cert_name := name\<rparr>" "ballot_ok b" "fresh_for D i b"
  shows "\<exists>out bytes h resp w'. bcl_encode_request req SESSION_MAX_FRAME = Some out \<and>
    run_state (handle_request now name (admin_link E) out) w = (Some bytes, w') \<and>
    htttp_parse_response bytes = (HTTTP_OK, h) \<and> bcl_decode_response h = (True, resp) \<and>
    bp_status resp = cast_verdict D i b \<and>
    (if cast_verdict D i b = BB_OK
     then \<exists>p. prior_is D i name p \<and> bp_receipt resp = cast_receipt b p \<and> w_idle E True (cast_effect D i b p) w'
     else w_idle E True D w')"
proof -
  let ?req = "verified name (sent_request req)"
  have v: "br_op ?req = br_op req" "br_election_id ?req = i" "br_ballot ?req = b"
    using assms(6,7) by (auto simp: verified_def sent_request_def Let_def assms(9,10) BB_CERT_LEN_def)
  obtain r rc w' where run: "run_state (bb_record_ballot (sql_seam E) i b receipt0) w = ((r, rc), w')" by (metis prod.exhaust)
  note post = sdb_env.record_sql [OF assms(1,2,11,8,12,3) run, unfolded cast_post_def cast_failed_def fst_conv snd_conv]
  from post have r: "r = cast_verdict D i b" by auto
  let ?resp = "bcl_response0\<lparr>bp_status := r, bp_receipt := rc\<rparr>"
  have d: "run_state (ballotd_dispatch (sql_seam E) ?req) w = (?resp, w')"
    using assms(6) run by (auto simp: ballotd_dispatch_def v run_bind run_return response0_simps(4))
  have link: "run_state (admin_link E ?req) w = (Some ?resp, w')" by (simp add: admin_link_def run_bind run_return d)
  have ok: "response_ok ?resp" by (rule recorded_response_ok [OF record_shape [OF run]]) (simp add: r verdict_not_retry)
  have voter: "is_voter_op (br_op req)" using assms(6) by (auto simp: is_voter_op_def)
  from voter_reply [where admin = "admin_link E" and name = name, OF assms(5) voter assms(4) link ok] obtain out bytes h where
    o: "bcl_encode_request req SESSION_MAX_FRAME = Some out"
      "run_state (handle_request now name (admin_link E) out) w = (Some bytes, w')"
      "htttp_parse_response bytes = (HTTTP_OK, h)" "bcl_decode_response h = (True, sent_response (br_op req) ?resp)" by blast
  have st: "bp_status (sent_response (br_op req) ?resp) = r"
    using assms(6) by (auto simp: sent_response_def Let_def)
  have rcp: "bp_receipt (sent_response (br_op req) ?resp) = rc" if "rc_hash rc \<noteq> []"
    using assms(6) that by (auto simp: sent_response_def Let_def)
  have "if r = BB_OK then \<exists>p. prior_is D i name p \<and> bp_receipt (sent_response (br_op req) ?resp) = cast_receipt b p \<and>
      w_idle E True (cast_effect D i b p) w' else w_idle E True D w'"
  proof (cases "r = BB_OK")
    case True
    with post obtain p where p: "prior_is D i (bal_cert_name b) p" "rc = cast_receipt b p" "w_idle E True (cast_effect D i b p) w'"
      by auto
    have "rc_hash rc \<noteq> []" using hash_from_seed_length by (auto simp: p(2) cast_receipt_def simp flip: length_0_conv)
    with True p rcp show ?thesis by (auto simp: assms(10))
  next
    case False
    with post show ?thesis by auto
  qed
  with o st r show ?thesis by (intro exI conjI) auto
qed

definition demo_vote :: bcl_request where
  "demo_vote = bcl_request0\<lparr>br_op := BCL_CAST, br_cert_name := ''mallory'', br_election_id := demo_id,
     br_ballot := demo_ballot\<lparr>bal_cert_name := ''mallory''\<rparr>\<rparr>"

lemma demo_vote_ok: "request_ok demo_vote"
  by (simp add: request_ok_def demo_vote_def demo_ballot_def demo_id_def bcl_request0_def config0_ok text_ok_def valid_field_def)

theorem cast_end_to_end_witness:
  "\<exists>out bytes h resp. bcl_encode_request demo_vote SESSION_MAX_FRAME = Some out \<and>
    fst (run_state (handle_request \<lparr>tm_sec = 5, tm_min = 4, tm_hour = 3, tm_mday = 2, tm_mon = 0, tm_year = 126, tm_wday = 5\<rparr>
      ''alice'' (admin_link calm_env) out) (demo_world BB_STATE_OPEN)) = Some bytes \<and>
    htttp_parse_response bytes = (HTTTP_OK, h) \<and> bcl_decode_response h = (True, resp) \<and>
    bp_status resp = BB_OK \<and> bp_receipt resp = cast_receipt demo_ballot None"
proof -
  let ?now = "\<lparr>tm_sec = 5, tm_min = 4, tm_hour = 3, tm_mday = 2, tm_mon = 0, tm_year = 126, tm_wday = 5\<rparr>"
  have b: "demo_ballot = (br_ballot demo_vote)\<lparr>bal_cert_name := ''alice''\<rparr>" "demo_id = br_election_id demo_vote"
    by (simp_all add: demo_vote_def demo_ballot_def)
  have ok: "tm_ok ?now" "br_op demo_vote = BCL_CAST \<or> br_op demo_vote = BCL_UPDATE" "length ''alice'' \<le> 31"
    by (simp_all add: demo_vote_def tm_ok_def)
  from cast_end_to_end [OF ref.sdb_env_axioms demo_inv [of BB_STATE_OPEN] demo_idle ok(1) demo_vote_ok ok(2,3) demo_fits(1) b(2,1)
      demo_fits(3) demo_fresh]
  obtain out bytes h resp w' where o: "bcl_encode_request demo_vote SESSION_MAX_FRAME = Some out"
    "run_state (handle_request ?now ''alice'' (admin_link calm_env) out) (demo_world BB_STATE_OPEN) = (Some bytes, w')"
    "htttp_parse_response bytes = (HTTTP_OK, h)" "bcl_decode_response h = (True, resp)"
    "bp_status resp = BB_OK" "bp_receipt resp = cast_receipt demo_ballot None"
    unfolding demo_verdict demo_prior by auto
  show ?thesis by (intro exI conjI, rule o(1), simp only: o(2) fst_conv, rule o(3), rule o(4), rule o(5), rule o(6))
qed

end
