(* ===== verification/Client.thy ===== *)
theory Client
  imports Names Ballotd_Props
begin

text \<open>
  The client library of \<^verbatim>\<open>src/src/libballotclient\<close> above the codec: the voter's decisions and
  flows (\<^verbatim>\<open>voter.c\<close>, \<^verbatim>\<open>voter_crypto.c\<close>), the administrator's requests (\<^verbatim>\<open>admin.c\<close>), the context
  (\<^verbatim>\<open>client.c\<close>) and the transport (\<^verbatim>\<open>transport.c\<close>). The flows reach the daemon only through one
  operation, their argument \<open>send\<close>, as the sources reach it only through \<^verbatim>\<open>bcl_send\<close>; the
  transport is that operation over a secure session or the local control socket. What the
  kernel answers to \<^verbatim>\<open>socket\<close> and \<^verbatim>\<open>connect\<close> is an argument.
\<close>

section \<open>The voter's session\<close>

record bu_session =
  bs_cert_name :: string
  bs_joined :: bool
  bs_election_id :: string
  bs_has_ballot :: int
  bs_ballot_version :: int
  bs_my_hash :: string
  bs_title :: string
  bs_options :: "string list"
  bs_option_count :: int

definition bu_session0 :: bu_session where
  "bu_session0 = \<lparr>bs_cert_name = [], bs_joined = False, bs_election_id = [], bs_has_ballot = 0, bs_ballot_version = 0,
     bs_my_hash = [], bs_title = [], bs_options = replicate BB_MAX_OPTIONS [], bs_option_count = 0\<rparr>"

datatype bu_vote_action = BU_MUST_JOIN | BU_CAST | BU_UPDATE

definition bu_route_vote :: "bu_session option \<Rightarrow> bu_vote_action" where
  "bu_route_vote session =
     (case session of
        None \<Rightarrow> BU_MUST_JOIN
      | Some s \<Rightarrow> if \<not> bs_joined s then BU_MUST_JOIN else if bs_has_ballot s = 0 then BU_CAST else BU_UPDATE)"

datatype bu_join_outcome = BU_JOIN_TIMEOUT | BU_JOIN_NOT_FOUND | BU_JOIN_NOT_ELIGIBLE | BU_JOIN_NOT_OPEN | BU_JOIN_ADMITTED

definition bu_classify_join :: "bb_result \<Rightarrow> bb_election option \<Rightarrow> bu_join_outcome" where
  "bu_classify_join status election =
     (case status of
        BB_ERR_NOT_FOUND \<Rightarrow> BU_JOIN_NOT_FOUND
      | BB_ERR_NOT_ELIGIBLE \<Rightarrow> BU_JOIN_NOT_ELIGIBLE
      | BB_ERR_CERT_INVALID \<Rightarrow> BU_JOIN_NOT_ELIGIBLE
      | BB_ERR_CERT_EXPIRED \<Rightarrow> BU_JOIN_NOT_ELIGIBLE
      | BB_ERR_NOT_OPEN \<Rightarrow> BU_JOIN_NOT_OPEN
      | BB_OK \<Rightarrow>
          (case election of
             Some e \<Rightarrow> if el_state e = BB_STATE_OPEN then BU_JOIN_ADMITTED else BU_JOIN_NOT_OPEN
           | None \<Rightarrow> BU_JOIN_NOT_OPEN)
      | _ \<Rightarrow> BU_JOIN_TIMEOUT)"

datatype bu_check_outcome = BU_CHECK_COUNTED | BU_CHECK_DROPPED | BU_CHECK_UNAVAILABLE

definition bu_classify_check :: "bb_result \<Rightarrow> int \<Rightarrow> bu_check_outcome" where
  "bu_classify_check status found =
     (if status = BB_OK then (if found \<noteq> 0 then BU_CHECK_COUNTED else BU_CHECK_DROPPED)
      else if status = BB_ERR_NOT_FOUND then BU_CHECK_DROPPED
      else BU_CHECK_UNAVAILABLE)"

section \<open>The client's placeholder crypto\<close>

definition bu_encrypt_ballot :: "int \<Rightarrow> string \<Rightarrow> bb_result \<times> bb_ballot" where
  "bu_encrypt_ballot option_index nonce =
     (if option_index < 0 \<or> 0xFF < option_index then (BB_ERR_BAD_OPTION, ballot0)
      else (BB_OK, ballot0\<lparr>bal_payload := [word_of_int option_index], bal_nonce := snprintf_s BB_NONCE_LEN nonce\<rparr>))"

definition bu_derive_receipt :: "string \<Rightarrow> string" where
  "bu_derive_receipt secret_key = hash_from_seed (foldl (\<lambda>h c. h * 33 + of_char c) 5381 secret_key)"

section \<open>The voter's flows\<close>

definition join_request :: "string \<Rightarrow> string \<Rightarrow> bcl_request" where
  "join_request election_id cert_name =
     bcl_request0\<lparr>br_op := BCL_JOIN, br_election_id := snprintf_s BB_ID_LEN election_id,
       br_cert_name := snprintf_s BB_CERT_LEN cert_name\<rparr>"

definition joined_session :: "bu_join_outcome \<Rightarrow> bcl_response \<Rightarrow> string \<Rightarrow> string \<Rightarrow> bu_session \<Rightarrow> bu_session" where
  "joined_session outcome resp election_id_copy cert_name_copy session =
     (let e = bp_election resp
      in case outcome of
           BU_JOIN_ADMITTED \<Rightarrow>
             bu_session0\<lparr>bs_joined := True, bs_cert_name := snprintf_s BB_CERT_LEN cert_name_copy,
               bs_election_id := snprintf_s BB_ID_LEN election_id_copy, bs_title := snprintf_s BB_TITLE_LEN (el_title e),
               bs_option_count := el_option_count e, bs_options := el_options e,
               bs_has_ballot := bp_has_prior_ballot resp, bs_ballot_version := bp_prior_ballot_version resp\<rparr>
         | BU_JOIN_NOT_OPEN \<Rightarrow> session\<lparr>bs_joined := False, bs_election_id := snprintf_s BB_ID_LEN election_id_copy\<rparr>
         | _ \<Rightarrow> session)"

definition bu_join ::
    "(bcl_request \<Rightarrow> ('w, bb_result \<times> bcl_response) state) \<Rightarrow> bu_session \<Rightarrow> string \<Rightarrow> string \<Rightarrow>
     ('w, bu_join_outcome \<times> bu_session) state" where
  "bu_join send session election_id cert_name = do {
     (rc, resp) \<leftarrow> send (join_request election_id cert_name);
     let status = (if rc \<noteq> BB_OK then rc else bp_status resp);
     let outcome = bu_classify_join status (Some (bp_election resp));
     State_Monad.return (outcome,
       joined_session outcome resp (snprintf_s BB_ID_LEN election_id) (snprintf_s BB_CERT_LEN cert_name) session)
   }"

definition vote_request :: "bu_session \<Rightarrow> bb_ballot \<Rightarrow> bcl_request" where
  "vote_request session ballot =
     bcl_request0\<lparr>br_op := (if bu_route_vote (Some session) = BU_UPDATE then BCL_UPDATE else BCL_CAST),
       br_election_id := snprintf_s BB_ID_LEN (bs_election_id session),
       br_cert_name := snprintf_s BB_CERT_LEN (bs_cert_name session),
       br_ballot := ballot\<lparr>bal_cert_name := snprintf_s BB_CERT_LEN (bs_cert_name session)\<rparr>\<rparr>"

text \<open>\<open>hook\<close> is the \<^verbatim>\<open>before_submit\<close> callback; the result is the status, the session and the receipt.\<close>

definition bu_submit_vote ::
    "(bcl_request \<Rightarrow> ('w, bb_result \<times> bcl_response) state) \<Rightarrow> ('w, unit) state \<Rightarrow> bu_session \<Rightarrow> int \<Rightarrow> string \<Rightarrow>
     ('w, bb_result \<times> bu_session \<times> bb_receipt option) state" where
  "bu_submit_vote send hook session option_index nonce =
     (if bu_route_vote (Some session) = BU_MUST_JOIN then State_Monad.return (BB_ERR_NOT_JOINED, session, None)
      else case bu_encrypt_ballot option_index nonce of (er, ballot) \<Rightarrow>
        if er \<noteq> BB_OK then State_Monad.return (er, session, None)
        else do {
          _ \<leftarrow> hook;
          (rc, resp) \<leftarrow> send (vote_request session ballot);
          let status = (if rc \<noteq> BB_OK then rc else bp_status resp);
          State_Monad.return
            (if status \<noteq> BB_OK then (status, session, None)
             else (BB_OK,
                   session\<lparr>bs_has_ballot := 1, bs_ballot_version := wrap32 (bs_ballot_version session + 1),
                     bs_my_hash := snprintf_s BB_HASH_LEN (rc_hash (bp_receipt resp))\<rparr>,
                   Some (bp_receipt resp)))
        })"

section \<open>The administrator's requests\<close>

definition bc_prevalidate_config :: "bb_config \<Rightarrow> bb_result" where
  "bc_prevalidate_config config = bb_validate_config config"

definition bc_build_create :: "bb_config \<Rightarrow> bb_result + bcl_request" where
  "bc_build_create config =
     (let vr = bc_prevalidate_config config
      in if vr \<noteq> BB_OK then Inl vr else Inr (bcl_request0\<lparr>br_op := BCL_CREATE, br_config := config\<rparr>))"

definition bc_build_transition :: "bcl_op \<Rightarrow> string \<Rightarrow> bb_result + bcl_request" where
  "bc_build_transition op election_id =
     (if op \<noteq> BCL_OPEN \<and> op \<noteq> BCL_CLOSE \<and> op \<noteq> BCL_PUBLISH then Inl BB_ERR_ILLEGAL_TRANSITION
      else Inr (bcl_request0\<lparr>br_op := op, br_election_id := snprintf_s BB_ID_LEN election_id\<rparr>))"

text \<open>
  The two loops over the eligible list, on the array they work on in place: the first folds
  every name, and gives the first one that is not legal; the second keeps first occurrences.
\<close>

function fold_names :: "nat \<Rightarrow> nat \<Rightarrow> string list \<Rightarrow> string list \<times> string option" where
  "fold_names i n out =
     (if n \<le> i then (out, None)
      else case (if user_name_ok (out ! i) then user_name_fold BB_CERT_LEN (out ! i) else None) of
             None \<Rightarrow> (out, Some (out ! i))
           | Some folded \<Rightarrow> fold_names (i + 1) n (out[i := snprintf_s BB_CERT_LEN folded]))"
  by pat_completeness auto
termination by (relation "measure (\<lambda>(i, n, out). n - i)") auto

function dedup :: "nat \<Rightarrow> nat \<Rightarrow> nat \<Rightarrow> string list \<Rightarrow> string list \<times> nat" where
  "dedup i n k out =
     (if n \<le> i then (out, k)
      else if list_ex (\<lambda>j. out ! j = out ! i) [0..<k] then dedup (i + 1) n k out
      else dedup (i + 1) n (k + 1) (if k \<noteq> i then out[k := snprintf_s BB_CERT_LEN (out ! i)] else out))"
  by pat_completeness auto
termination by (relation "measure (\<lambda>(i, n, k, out). n - i)") auto

declare fold_names.simps [simp del] dedup.simps [simp del]

text \<open>The result: success, the array, the n and the offending entry.\<close>

definition bc_fold_eligible :: "string list \<Rightarrow> int \<Rightarrow> nat \<Rightarrow> bool \<times> string list \<times> int \<times> string" where
  "bc_fold_eligible out n bad_cap =
     (case fold_names 0 (nat n) out of
        (out, Some bad) \<Rightarrow> (False, out, n, snprintf_s bad_cap bad)
      | (out, None) \<Rightarrow> (case dedup 0 (nat n) 0 out of (out, k) \<Rightarrow> (True, out, int k, [])))"

section \<open>Transport\<close>

record transport =
  tr_session :: session
  tr_sock :: sock
  tr_connected :: bool

record bcl_ctx =
  cx_log :: "string list option"
  cx_transport :: "transport option"
  cx_ctl_path :: string

definition bcl_create :: bcl_ctx where
  "bcl_create = \<lparr>cx_log = Some [], cx_transport = None, cx_ctl_path = []\<rparr>"

definition bcl_set_log :: "string list option \<Rightarrow> bcl_ctx \<Rightarrow> bcl_ctx" where
  "bcl_set_log sink ctx = ctx\<lparr>cx_log := sink\<rparr>"

definition bcl_log :: "string \<Rightarrow> bcl_ctx \<Rightarrow> bcl_ctx" where
  "bcl_log line ctx = (case cx_log ctx of None \<Rightarrow> ctx | Some ls \<Rightarrow> ctx\<lparr>cx_log := Some (ls @ [line])\<rparr>)"

datatype bcl_conn =
    BCL_CONN_OK | BCL_CONN_ERR_ADDRESS | BCL_CONN_ERR_SOCKET | BCL_CONN_ERR_REFUSED | BCL_CONN_ERR_CERT
  | BCL_CONN_ERR_IO | BCL_CONN_ERR_PROTO

definition bcl_connected :: "bcl_ctx \<Rightarrow> bool" where
  "bcl_connected ctx = (case cx_transport ctx of None \<Rightarrow> False | Some t \<Rightarrow> tr_connected t)"

definition bcl_disconnect :: "bcl_ctx \<Rightarrow> bcl_ctx" where
  "bcl_disconnect ctx = ctx\<lparr>cx_transport := None\<rparr>"

text \<open>What the kernel answers to one attempt to dial: a socket or not, the address, the connection.\<close>

record dial =
  dl_socket :: bool
  dl_inet_pton :: "string \<Rightarrow> bool"
  dl_connect :: "string \<Rightarrow> int \<Rightarrow> bool"
  dl_sock :: sock

definition bcl_connect_why ::
    "('pub, 'priv, 'cert) ossl \<Rightarrow> draws \<Rightarrow> dial \<Rightarrow> string \<Rightarrow> int \<Rightarrow> string \<Rightarrow> bcl_ctx \<Rightarrow> bb_result \<times> bcl_conn \<times> bcl_ctx" where
  "bcl_connect_why X R D host port ca_path ctx =
     (if \<not> dl_socket D then (BB_ERR_DB, BCL_CONN_ERR_SOCKET, ctx)
      else if \<not> dl_inet_pton D host then (BB_ERR_DB, BCL_CONN_ERR_ADDRESS, ctx)
      else if \<not> dl_connect D host (port mod 2 ^ 16) then (BB_ERR_DB, BCL_CONN_ERR_REFUSED, ctx)
      else case session_connect X R ca_path (dl_sock D) of (src, s, sk) \<Rightarrow>
        if src \<noteq> SESSION_OK
        then (BB_ERR_DB,
              if src = SESSION_ERR_AUTH then BCL_CONN_ERR_CERT else if src = SESSION_ERR_IO then BCL_CONN_ERR_IO
              else BCL_CONN_ERR_PROTO, ctx)
        else (BB_OK, BCL_CONN_OK,
              bcl_log ''[transport] connected''
                ((bcl_disconnect ctx)\<lparr>cx_transport := Some \<lparr>tr_session = s, tr_sock = sk, tr_connected = True\<rparr>\<rparr>)))"

definition bcl_set_ctl_path :: "string \<Rightarrow> bcl_ctx \<Rightarrow> bcl_ctx" where
  "bcl_set_ctl_path path ctx = ctx\<lparr>cx_ctl_path := snprintf_s 256 path\<rparr>"

definition client_admin_op :: "bcl_op \<Rightarrow> bool" where
  "client_admin_op op \<longleftrightarrow>
     op = BCL_CREATE \<or> op = BCL_OPEN \<or> op = BCL_CLOSE \<or> op = BCL_PUBLISH \<or>
     op = BCL_ADMIN_RESULTS \<or> op = BCL_ADMIN_CHECK \<or> op = BCL_ADMIN_NEXT_ID"

fun bcl_op_code :: "bcl_op \<Rightarrow> int" where
  "bcl_op_code BCL_JOIN = 0"
| "bcl_op_code BCL_CAST = 1"
| "bcl_op_code BCL_UPDATE = 2"
| "bcl_op_code BCL_RESULTS = 3"
| "bcl_op_code BCL_CHECK = 4"
| "bcl_op_code BCL_CREATE = 5"
| "bcl_op_code BCL_OPEN = 6"
| "bcl_op_code BCL_CLOSE = 7"
| "bcl_op_code BCL_PUBLISH = 8"
| "bcl_op_code BCL_ADMIN_RESULTS = 9"
| "bcl_op_code BCL_ADMIN_CHECK = 10"
| "bcl_op_code BCL_ADMIN_NEXT_ID = 11"

definition encode_failed :: "bcl_op \<Rightarrow> bcl_ctx \<Rightarrow> bcl_ctx" where
  "encode_failed op ctx = bcl_log (''[transport] encode failed for op='' @ int_str (bcl_op_code op)) ctx"

definition read_reply :: "string \<Rightarrow> bb_result \<times> bcl_response" where
  "read_reply rbuf =
     (case htttp_parse_response rbuf of (prc, http) \<Rightarrow>
        if prc \<noteq> HTTTP_OK then (BB_ERR_DB, bcl_response0)
        else case bcl_decode_response http of (ok, resp) \<Rightarrow>
          if \<not> ok then (BB_ERR_DB, resp) else (bp_status resp, resp))"

definition put_transport :: "session \<Rightarrow> sock \<Rightarrow> bool \<Rightarrow> bcl_ctx \<Rightarrow> bcl_ctx" where
  "put_transport s sk up ctx = ctx\<lparr>cx_transport := Some \<lparr>tr_session = s, tr_sock = sk, tr_connected = up\<rparr>\<rparr>"

definition send_via_session ::
    "('pub, 'priv, 'cert) ossl \<Rightarrow> string option \<Rightarrow> bcl_request \<Rightarrow> bcl_ctx \<Rightarrow> bb_result \<times> bcl_response \<times> bcl_ctx" where
  "send_via_session X iv req ctx =
     (case cx_transport ctx of
        None \<Rightarrow> (BB_ERR_DB, bcl_response0, ctx)
      | Some t \<Rightarrow>
          if \<not> tr_connected t then (BB_ERR_DB, bcl_response0, ctx)
          else case bcl_encode_request req SESSION_MAX_FRAME of
                 None \<Rightarrow> (BB_ERR_DB, bcl_response0, encode_failed (br_op req) ctx)
               | Some wire \<Rightarrow>
                   (case session_send X iv (tr_session t) wire (tr_sock t) of (rc, sk) \<Rightarrow>
                      if rc \<noteq> SESSION_OK then (BB_ERR_DB, bcl_response0, put_transport (tr_session t) sk False ctx)
                      else case session_recv X SESSION_MAX_FRAME (tr_session t) sk of ((rc, rbuf), s, sk) \<Rightarrow>
                        if rc \<noteq> SESSION_OK
                        then (BB_ERR_DB, bcl_response0,
                              put_transport s sk (\<not> (rc = SESSION_ERR_IO \<or> rc = SESSION_ERR_TOOBIG)) ctx)
                        else case read_reply rbuf of (r, resp) \<Rightarrow> (r, resp, put_transport s sk True ctx)))"

text \<open>
  The login exchange: the request with the two credentials, and the status of the reply if there
  is one.
\<close>

definition auth_request :: "string \<Rightarrow> string \<Rightarrow> string \<Rightarrow> htttp_request option" where
  "auth_request meth username password =
     (let body = username @ [NL] @ password
      in if 256 \<le> length body then None
         else if HTTTP_MAX_METHOD \<le> length meth then None
         else Some \<lparr>rq_method = meth, rq_path = ''/'', rq_headers = [], rq_body = body\<rparr>)"

definition bcl_auth ::
    "('pub, 'priv, 'cert) ossl \<Rightarrow> string option \<Rightarrow> string \<Rightarrow> string \<Rightarrow> string \<Rightarrow> bcl_ctx \<Rightarrow> int option \<times> bcl_ctx" where
  "bcl_auth X iv meth username password ctx =
     (case cx_transport ctx of
        None \<Rightarrow> (None, ctx)
      | Some t \<Rightarrow>
          if \<not> tr_connected t then (None, ctx)
          else case auth_request meth username password of
                 None \<Rightarrow> (None, ctx)
               | Some req \<Rightarrow>
                   (case htttp_serialize_request req SESSION_MAX_FRAME of
                      Inl _ \<Rightarrow> (None, ctx)
                    | Inr wire \<Rightarrow>
                        (case session_send X iv (tr_session t) wire (tr_sock t) of (rc, sk) \<Rightarrow>
                           if rc \<noteq> SESSION_OK then (None, put_transport (tr_session t) sk False ctx)
                           else case session_recv X SESSION_MAX_FRAME (tr_session t) sk of ((rc, rbuf), s, sk) \<Rightarrow>
                             if rc \<noteq> SESSION_OK
                             then (None, put_transport s sk (\<not> (rc = SESSION_ERR_IO \<or> rc = SESSION_ERR_TOOBIG)) ctx)
                             else case htttp_parse_response rbuf of (prc, resp) \<Rightarrow>
                               (if prc \<noteq> HTTTP_OK then None else Some (rp_status resp), put_transport s sk True ctx))))"

text \<open>The control socket: one connection per request. The last component is what was written.\<close>

record ctl_dial =
  cd_socket :: bool
  cd_connect :: "string \<Rightarrow> bool"
  cd_writes :: "wr_event list"
  cd_reads :: "rd_event list"

definition SUN_PATH_LEN :: nat where "SUN_PATH_LEN = 108"

definition send_via_ctl :: "ctl_dial \<Rightarrow> bcl_request \<Rightarrow> bcl_ctx \<Rightarrow> bb_result \<times> bcl_response \<times> bcl_ctx \<times> string" where
  "send_via_ctl D req ctx =
     (if cx_ctl_path ctx = [] then (BB_ERR_DB, bcl_response0, ctx, [])
      else if \<not> cd_socket D then (BB_ERR_DB, bcl_response0, ctx, [])
      else if SUN_PATH_LEN \<le> length (cx_ctl_path ctx) then (BB_ERR_DB, bcl_response0, ctx, [])
      else if \<not> cd_connect D (cx_ctl_path ctx) then (BB_ERR_DB, bcl_response0, ctx, [])
      else case bcl_encode_request req CTL_MAX_FRAME of
             None \<Rightarrow> (BB_ERR_DB, bcl_response0, encode_failed (br_op req) ctx, [])
           | Some wire \<Rightarrow>
               (case ctl_frame_write wire (cd_writes D) of (ok, sent) \<Rightarrow>
                  if \<not> ok then (BB_ERR_DB, bcl_response0, ctx, sent)
                  else case ctl_frame_read CTL_MAX_FRAME (cd_reads D) of (rc, rbuf) \<Rightarrow>
                    if rc \<noteq> 0 then (BB_ERR_DB, bcl_response0, ctx, sent)
                    else case read_reply rbuf of (r, resp) \<Rightarrow> (r, resp, ctx, sent)))"

definition bcl_send ::
    "('pub, 'priv, 'cert) ossl \<Rightarrow> string option \<Rightarrow> ctl_dial \<Rightarrow> bcl_request \<Rightarrow> bcl_ctx \<Rightarrow> bb_result \<times> bcl_response \<times> bcl_ctx" where
  "bcl_send X iv D req ctx =
     (if client_admin_op (br_op req)
      then case send_via_ctl D req ctx of (r, resp, ctx, _) \<Rightarrow> (r, resp, ctx)
      else send_via_session X iv req ctx)"


section \<open>The eligible list\<close>

abbreviation folded :: "string \<Rightarrow> string" where
  "folded \<equiv> map fold_char"

lemma folded_fits: "user_name_ok s \<Longrightarrow> snprintf_s BB_CERT_LEN (folded s) = folded s"
  by (simp add: snprintf_s_def user_name_ok_def name_lens BB_CERT_LEN_def)

lemma fold_names_upto:
  assumes "i \<le> j" "j \<le> n" "n \<le> length out" "\<forall>m. i \<le> m \<longrightarrow> m < j \<longrightarrow> user_name_ok (out ! m)" "j = n \<or> \<not> user_name_ok (out ! j)"
  shows "fold_names i n out =
    (take i out @ map folded (take (j - i) (drop i out)) @ drop j out, if j = n then None else Some (out ! j))"
  using assms
proof (induction "j - i" arbitrary: i out)
  case 0
  then have ij: "j = i" by simp
  show ?case
  proof (cases "i = n")
    case False
    with 0 ij have "i < n" "\<not> user_name_ok (out ! i)" by auto
    then show ?thesis by (simp add: ij fold_names.simps [of i])
  qed (use ij in \<open>simp add: fold_names.simps [of n]\<close>)
next
  case (Suc d)
  then have ij: "i < j" "i < n" "i < length out" by simp_all
  have ok: "user_name_ok (out ! i)" using Suc.prems(4) ij(1) by simp
  let ?out = "out[i := folded (out ! i)]"
  have step: "fold_names i n out = fold_names (i + 1) n ?out"
    using ij(2) ok by (simp add: fold_names.simps [of i] user_name_fold_def name_lens BB_CERT_LEN_def folded_fits [unfolded BB_CERT_LEN_def])
  have "fold_names (i + 1) n ?out =
      (take (i + 1) ?out @ map folded (take (j - (i + 1)) (drop (i + 1) ?out)) @ drop j ?out, if j = n then None else Some (?out ! j))"
    by (rule Suc.hyps(1)) (use Suc.hyps(2) Suc.prems ij in auto)
  also have "take (i + 1) ?out @ map folded (take (j - (i + 1)) (drop (i + 1) ?out)) @ drop j ?out =
      take i out @ map folded (take (j - i) (drop i out)) @ drop j out"
  proof -
    have "take (j - i) (drop i out) = out ! i # take (j - (i + 1)) (drop (i + 1) out)"
      using ij by (metis Suc_diff_Suc Suc_eq_plus1 Cons_nth_drop_Suc take_Suc_Cons)
    moreover have "take (i + 1) ?out = take i out @ [folded (out ! i)]" using ij(3) by (simp add: take_Suc_conv_app_nth)
    moreover have "drop (i + 1) ?out = drop (i + 1) out" "drop j ?out = drop j out" using ij(1) by simp_all
    ultimately show ?thesis by simp
  qed
  finally show ?case using step ij(1) by simp
qed

fun uniq :: "'a list \<Rightarrow> 'a list \<Rightarrow> 'a list" where
  "uniq acc [] = acc"
| "uniq acc (x # xs) = (if x \<in> set acc then uniq acc xs else uniq (acc @ [x]) xs)"

lemma remdups_skip: "x \<in> set zs \<Longrightarrow> remdups (ys @ x # zs) = remdups (ys @ zs)"
  by (induction ys) auto

lemma uniq_remdups: "distinct acc \<Longrightarrow> uniq acc xs = rev (remdups (rev (acc @ xs)))"
proof (induction xs arbitrary: acc)
  case Nil
  then show ?case by (simp add: distinct_remdups_id)
next
  case (Cons x xs)
  then show ?case using remdups_skip [of x "rev acc" "rev xs"] by simp
qed

lemma uniq_length: "length (uniq acc xs) \<le> length acc + length xs"
  by (induction acc xs rule: uniq.induct) auto

lemma dedup_uniq:
  assumes "k \<le> i" "i \<le> n" "n \<le> length out" "\<forall>s \<in> set out. length s \<le> 31"
  shows "\<exists>out'. dedup i n k out = (out', length (uniq (take k out) (take (n - i) (drop i out)))) \<and> length out' = length out \<and>
    take (length (uniq (take k out) (take (n - i) (drop i out)))) out' = uniq (take k out) (take (n - i) (drop i out))"
  using assms
proof (induction "n - i" arbitrary: i k out)
  case 0
  then show ?case by (simp add: dedup.simps [of i])
next
  case (Suc d)
  then have i: "i < n" "i < length out" "k < length out" by simp_all
  have d: "d = n - (i + 1)" using Suc.hyps(2) by simp
  have tk: "take (n - i) (drop i out) = out ! i # take (n - (i + 1)) (drop (i + 1) out)"
    using i by (metis Suc_diff_Suc Suc_eq_plus1 Cons_nth_drop_Suc take_Suc_Cons)
  have seen: "list_ex (\<lambda>j. out ! j = out ! i) [0..<k] \<longleftrightarrow> out ! i \<in> set (take k out)"
  proof -
    have "set (take k out) = nth out ` {0..<k}" using nth_image [of k out] i(3) by simp
    then show ?thesis by (simp add: list_ex_iff image_iff Bex_def) metis
  qed
  show ?case
  proof (cases "out ! i \<in> set (take k out)")
    case True
    with i seen have "dedup i n k out = dedup (i + 1) n k out" by (simp add: dedup.simps [of i])
    moreover have "k \<le> i + 1" "i + 1 \<le> n" using Suc.prems i by simp_all
    ultimately show ?thesis using Suc.hyps(1) [OF d _ _ Suc.prems(3,4), of k] True unfolding tk uniq.simps by simp
  next
    case False
    let ?out = "if k \<noteq> i then out[k := out ! i] else out"
    have "length (out ! i) \<le> 31" using Suc.prems(4) i(2) by simp
    then have fit: "snprintf_s BB_CERT_LEN (out ! i) = out ! i" by (simp add: snprintf_s_def BB_CERT_LEN_def)
    from False i seen have step: "dedup i n k out = dedup (i + 1) n (k + 1) ?out" by (simp add: dedup.simps [of i] fit)
    have o: "take (k + 1) ?out = take k out @ [out ! i]" "drop (i + 1) ?out = drop (i + 1) out" "length ?out = length out"
      using i Suc.prems(1) by (simp_all add: take_Suc_conv_app_nth)
    have "set ?out \<subseteq> set out" using i set_update_subset_insert [of out k "out ! i"] by auto
    then have "\<forall>s \<in> set ?out. length s \<le> 31" using Suc.prems(4) by blast
    then have "\<exists>out'. dedup (i + 1) n (k + 1) ?out =
          (out', length (uniq (take (k + 1) ?out) (take (n - (i + 1)) (drop (i + 1) ?out)))) \<and> length out' = length ?out \<and>
        take (length (uniq (take (k + 1) ?out) (take (n - (i + 1)) (drop (i + 1) ?out)))) out' =
          uniq (take (k + 1) ?out) (take (n - (i + 1)) (drop (i + 1) ?out))"
      by (intro Suc.hyps(1) [OF d]) (use Suc.prems i o(3) in auto)
    then show ?thesis unfolding step o tk using False by simp
  qed
qed

lemma fold_eligible_result:
  assumes "length out = 64" "list_all (\<lambda>s. length s \<le> 31) out" "0 \<le> n" "n \<le> 64"
  defines "typed \<equiv> take (nat n) out"
  shows "if list_all user_name_ok typed
    then \<exists>out'. bc_fold_eligible out n cap = (True, out', int (length (remdups (rev (map folded typed)))), []) \<and>
           take (length (remdups (rev (map folded typed)))) out' = rev (remdups (rev (map folded typed)))
    else \<exists>j < nat n. \<not> user_name_ok (out ! j) \<and> list_all user_name_ok (take j out) \<and>
           bc_fold_eligible out n cap = (False, map folded (take j out) @ drop j out, n, snprintf_s cap (out ! j))"
proof -
  have n: "nat n \<le> length out" using assms(1,3,4) by simp
  show ?thesis
  proof (cases "list_all user_name_ok typed")
    case True
    then have ok: "user_name_ok (out ! m)" if "m < nat n" for m
      using that n by (auto simp: typed_def list_all_length)
    let ?o = "map folded typed @ drop (nat n) out" and ?u = "rev (remdups (rev (map folded typed)))"
    have f: "fold_names 0 (nat n) out = (?o, None)"
      using fold_names_upto [of 0 "nat n" "nat n" out] ok n by (simp add: typed_def)
    have "\<forall>s \<in> set ?o. length s \<le> 31"
      using assms(2) by (auto simp: list_all_iff typed_def dest: in_set_takeD in_set_dropD)
    with n have "\<exists>out'. dedup 0 (nat n) 0 ?o = (out', length (uniq (take 0 ?o) (take (nat n - 0) (drop 0 ?o)))) \<and> length out' = length ?o \<and>
        take (length (uniq (take 0 ?o) (take (nat n - 0) (drop 0 ?o)))) out' = uniq (take 0 ?o) (take (nat n - 0) (drop 0 ?o))"
      by (intro dedup_uniq) (simp_all add: typed_def)
    moreover have "uniq (take 0 ?o) (take (nat n - 0) (drop 0 ?o)) = ?u"
      using n uniq_remdups [of "[]"] by (simp add: typed_def)
    ultimately obtain out' where "dedup 0 (nat n) 0 ?o = (out', length ?u)" "take (length ?u) out' = ?u" by auto
    with f True show ?thesis by (simp add: bc_fold_eligible_def)
  next
    case False
    define j where "j = (LEAST j. j < nat n \<and> \<not> user_name_ok (out ! j))"
    from False n have "\<exists>j. j < nat n \<and> \<not> user_name_ok (out ! j)" by (auto simp: typed_def list_all_length)
    then have j: "j < nat n" "\<not> user_name_ok (out ! j)" unfolding j_def by (metis (mono_tags, lifting) LeastI)+
    have before: "user_name_ok (out ! m)" if "m < j" for m
      using not_less_Least [OF that [unfolded j_def]] that j(1) by auto
    have "fold_names 0 (nat n) out = (map folded (take j out) @ drop j out, Some (out ! j))"
      using fold_names_upto [of 0 j "nat n" out] before j n by simp
    moreover have "list_all user_name_ok (take j out)" using before j n by (auto simp: list_all_length)
    ultimately show ?thesis using False j by (auto simp: bc_fold_eligible_def)
  qed
qed

text \<open>
  C28: \<^verbatim>\<open>bc_fold_eligible\<close> turns the typed list into the lower-case names without repetitions, in
  the order of their first occurrence. If an entry is not a legal name it reports the first such
  entry; by then the entries before it have already been folded in place.
\<close>

theorem fold_eligible_exact:
  assumes "length out = 64" "list_all (\<lambda>s. length s \<le> 31) out" "0 \<le> n" "n \<le> 64"
  defines "typed \<equiv> take (nat n) out"
  shows "if list_all user_name_ok typed
    then \<exists>out'. bc_fold_eligible out n cap = (True, out', int (length (remdups (rev (map folded typed)))), []) \<and>
           take (length (remdups (rev (map folded typed)))) out' = rev (remdups (rev (map folded typed)))
    else \<exists>j < nat n. \<not> user_name_ok (out ! j) \<and> list_all user_name_ok (take j out) \<and>
           bc_fold_eligible out n cap = (False, map folded (take j out) @ drop j out, n, snprintf_s cap (out ! j))"
  unfolding typed_def by (rule fold_eligible_result [OF assms(1-4)])

theorem fold_eligible_exact_witness:
  "\<exists>out'. bc_fold_eligible ([''Alice'', ''BOB'', ''alice''] @ replicate 61 []) 3 32 = (True, out', 2, []) \<and> take 2 out' = [''alice'', ''bob'']"
proof -
  let ?o = "[''Alice'', ''BOB'', ''alice''] @ replicate 61 []"
  have t: "take (nat 3) ?o = [''Alice'', ''BOB'', ''alice'']" by simp
  have ok: "list_all user_name_ok [''Alice'', ''BOB'', ''alice'']" by code_simp
  have r: "remdups (rev (map folded [''Alice'', ''BOB'', ''alice''])) = [''bob'', ''alice'']" by code_simp
  have a: "length ?o = 64" "list_all (\<lambda>s. length s \<le> 31) ?o" "(0 :: int) \<le> 3" "(3 :: int) \<le> 64" by (simp_all add: list_all_iff)
  from fold_eligible_exact [OF a, of 32, unfolded t r, unfolded if_P [OF ok]] obtain out' where
    "bc_fold_eligible ?o 3 32 = (True, out', int (length [''bob'', ''alice'']), [])"
    "take (length [''bob'', ''alice'']) out' = rev [''bob'', ''alice'']" by blast
  then show ?thesis by (intro exI [of _ out']) (simp add: numeral_2_eq_2)
qed

end
