(* ===== verification/Client_Props.thy ===== *)
theory Client_Props
  imports Client
begin

text \<open>
  The client library against the daemon: a voter's request over the secure session, an
  administrator's request over the control socket, and the voter's local session against the
  database.
\<close>

section \<open>Sizes\<close>

lemma serialize_request_cap:
  "htttp_serialize_request r cap = Inr out \<Longrightarrow> cap \<le> cap' \<Longrightarrow> htttp_serialize_request r cap' = Inr out"
  unfolding serialize_request_spec by auto

lemma serialize_response_cap:
  "htttp_serialize_response now r cap = Inr out \<Longrightarrow> cap \<le> cap' \<Longrightarrow> htttp_serialize_response now r cap' = Inr out"
  unfolding serialize_response_spec by auto

lemma encode_request_cap:
  assumes "bcl_encode_request req cap = Some out" "cap \<le> cap'"
  shows "bcl_encode_request req cap' = Some out"
proof -
  from assms(1) obtain m body hs where e: "method_from_op (br_op req) = Some m" "request_body req = Some body"
    "(if br_cert_name req \<noteq> [] then htttp_header_set [] ''Cert-Name'' (br_cert_name req) else Inr []) = Inr hs"
    "htttp_serialize_request \<lparr>rq_method = snprintf_s HTTTP_MAX_METHOD m, rq_path = snprintf_s HTTTP_MAX_PATH (request_path req),
       rq_headers = hs, rq_body = body\<rparr> cap = Inr out"
    unfolding bcl_encode_request_def by (auto split: option.splits sum.splits)
  show ?thesis unfolding bcl_encode_request_def e(1,2) option.case e(3) sum.case serialize_request_cap [OF e(4) assms(2)] ..
qed

lemma encode_response_cap:
  assumes "bcl_encode_response now op resp cap = Some out" "cap \<le> cap'"
  shows "bcl_encode_response now op resp cap' = Some out"
proof -
  from assms(1) obtain m body where e: "name_from_result (bp_status resp) = Some m"
    "append_all CODEC_BODY_MAX [] (kv ''status'' m # response_chunks op resp) = Some body"
    "htttp_serialize_response now \<lparr>rp_status = bcl_http_status (bp_status resp), rp_headers = [], rp_body = body\<rparr> cap = Inr out"
    unfolding bcl_encode_response_def by (simp split: option.splits sum.splits)
  show ?thesis unfolding bcl_encode_response_def e(1) option.case e(2) option.case serialize_response_cap [OF e(3) assms(2)] sum.case ..
qed

lemma request_small:
  assumes "request_ok req" "bcl_encode_request req SESSION_MAX_FRAME = Some out"
  shows "length out \<le> 16384 \<and> out \<noteq> []"
proof -
  from encode_sent [OF assms(1) order_refl] obtain out' where o: "bcl_encode_request req 16384 = Some out'" by blast
  have "bcl_encode_request req SESSION_MAX_FRAME = Some out'"
    by (rule encode_request_cap [OF o]) (simp add: SESSION_MAX_FRAME_def)
  with assms(2) encode_request_bytes [OF o] show ?thesis by simp
qed

lemma response_small:
  assumes "response_ok resp" "tm_ok now" "bcl_encode_response now op resp SESSION_MAX_FRAME = Some out"
  shows "length out \<le> 16384 \<and> out \<noteq> []"
proof -
  from encode_answer [OF assms(1,2) order_refl] obtain out' where o: "bcl_encode_response now op resp 16384 = Some out'" by blast
  have "bcl_encode_response now op resp SESSION_MAX_FRAME = Some out'"
    by (rule encode_response_cap [OF o]) (simp add: SESSION_MAX_FRAME_def)
  with assms(3) encode_response_bytes [OF o] show ?thesis by simp
qed

lemma frame_caps: "CTL_MAX_FRAME = SESSION_MAX_FRAME"
  by (simp add: CTL_MAX_FRAME_def SESSION_MAX_FRAME_def)

section \<open>A voter's request over the secure session\<close>

text \<open>One turn of the session process, over the session it holds with the client.\<close>

definition session_step ::
    "('pub, 'priv, 'cert) ossl \<Rightarrow> string option \<Rightarrow> tm \<Rightarrow> string \<Rightarrow> (bcl_request \<Rightarrow> ('w, bcl_response option) state) \<Rightarrow>
     session \<Rightarrow> sock \<Rightarrow> ('w, bool \<times> session \<times> sock) state" where
  "session_step X iv now cert_name admin s sk =
     (case session_recv X SESSION_MAX_FRAME s sk of ((rc, buf), s, sk) \<Rightarrow>
        if rc = SESSION_OK then do {
          reply \<leftarrow> handle_request now cert_name admin buf;
          State_Monad.return (True, s, case reply of None \<Rightarrow> sk | Some out \<Rightarrow> snd (session_send X iv s out sk))
        }
        else State_Monad.return (\<not> (rc = SESSION_ERR_IO \<or> rc = SESSION_ERR_TOOBIG), s, sk))"

text \<open>A session in use: established under the key, with its stream in step.\<close>

definition session_up :: "string \<Rightarrow> session \<Rightarrow> bool" where
  "session_up key s \<longleftrightarrow> ss_established s \<and> \<not> ss_recv_dead s \<and> ss_key s = key"

lemma sealed_message:
  assumes "openssl X pairs" "length key = 32" "length iv = 16" "length buf \<le> 16384"
  shows "\<exists>m. session_encrypt X (Some iv) key buf = Some m \<and> length m \<le> 16448 \<and> session_decrypt X key m = Some buf"
proof -
  have "length buf < 2 ^ 31" using assms(4) by simp
  from openssl.seal_opens [OF assms(1-3) this] obtain m where m: "session_encrypt X (Some iv) key buf = Some m"
    "length m = 64 + 16 * (length buf div 16)" "session_decrypt X key m = Some buf" by blast
  have "16 * (length buf div 16) \<le> length buf" by (rule times_div_less_eq_dividend)
  with m assms(4) show ?thesis by simp
qed

text \<open>A sealed message goes out whole, and comes back as its text.\<close>

lemma message_sent:
  assumes "session_up key s" "session_encrypt X iv key buf = Some m" "length m \<le> 16448" "length buf \<le> 16384"
    "writes_ready 20000 (sk_evs sk)"
  shows "\<exists>sk'. session_send X iv s buf sk = (SESSION_OK, sk') \<and> sk_sent sk' = sk_sent sk @ sealed_frame m \<and> sk_in sk' = sk_in sk"
proof -
  have "writes_ready (4 + length m + 0) (sk_evs sk)" by (rule ready_mono [OF assms(5)]) (use assms(3) in simp)
  moreover have "length m \<le> SESSION_MAX_FRAME" "length buf \<le> SESSION_MAX_FRAME" using assms(3,4) by (simp_all add: SESSION_MAX_FRAME_def)
  ultimately show ?thesis using session_send_ready [of s X iv buf m 0 sk] assms(1,2) by (auto simp: session_up_def)
qed

lemma message_received:
  assumes "session_up key s" "session_decrypt X key m = Some buf" "length m \<le> 16448" "length buf \<le> 16384"
    "plain_bytes (sk_in sk) = sealed_frame m @ rest"
  shows "\<exists>sk'. session_recv X SESSION_MAX_FRAME s sk = ((SESSION_OK, buf), s, sk') \<and> plain_bytes (sk_in sk') = rest \<and>
    sk_evs sk' = sk_evs sk \<and> sk_sent sk' = sk_sent sk"
  using session_recv_frame [of s sk m rest X buf SESSION_MAX_FRAME] assms by (simp add: session_up_def SESSION_MAX_FRAME_def)

lemma sent_status: "bp_status (sent_response op resp) = bp_status resp"
  by (cases op) (simp_all add: sent_response_def sent_results_def sent_join_def sent_check_def Let_def)

text \<open>
  C21: over a secure session a voter's request reaches the administrator thread as the same request
  under the account of the session, and \<^verbatim>\<open>bcl_send\<close> returns the status and the fields of the
  daemon's answer: each end sends one run of bytes, and when each end's bytes reach the other,
  whatever way the stream is cut and whatever follows them, the call succeeds and the session stays
  usable.
\<close>

theorem secure_voter_call:
  assumes "openssl X pairs" "request_ok req" "is_voter_op (br_op req)" "tm_ok now"
    and "run_state (admin (verified name (sent_request req))) w = (Some resp, w')" "response_ok resp"
    and "length key = 32" "length iv = 16" "length iv' = 16"
  shows "\<exists>cbytes sbytes. \<forall>ctx t s sk rest rest'.
    cx_transport ctx = Some t \<longrightarrow> tr_connected t \<longrightarrow> session_up key (tr_session t) \<longrightarrow> session_up key s \<longrightarrow>
    writes_ready 20000 (sk_evs (tr_sock t)) \<longrightarrow> writes_ready 20000 (sk_evs sk) \<longrightarrow>
    plain_bytes (sk_in sk) = cbytes @ rest \<longrightarrow> plain_bytes (sk_in (tr_sock t)) = sbytes @ rest' \<longrightarrow>
    (\<exists>t' sk'. bcl_send X (Some iv) D req ctx = (bp_status resp, sent_response (br_op req) resp, ctx\<lparr>cx_transport := Some t'\<rparr>) \<and>
       run_state (session_step X (Some iv') now name admin s sk) w = ((True, s, sk'), w') \<and>
       tr_connected t' \<and> tr_session t' = tr_session t \<and>
       sk_sent (tr_sock t') = sk_sent (tr_sock t) @ cbytes \<and> plain_bytes (sk_in (tr_sock t')) = rest' \<and>
       sk_sent sk' = sk_sent sk @ sbytes \<and> plain_bytes (sk_in sk') = rest)"
proof -
  have adm: "\<not> client_admin_op (br_op req)" using assms(3) by (auto simp: client_admin_op_def is_voter_op_def)
  from voter_reply [where admin = admin and name = name, OF assms(2-6)] obtain out bytes h where
    o: "bcl_encode_request req SESSION_MAX_FRAME = Some out" "run_state (handle_request now name admin out) w = (Some bytes, w')"
      "bcl_encode_response now (br_op req) resp SESSION_MAX_FRAME = Some bytes"
      "htttp_parse_response bytes = (HTTTP_OK, h)" "bcl_decode_response h = (True, sent_response (br_op req) resp)" by blast
  have small: "length out \<le> 16384" "length bytes \<le> 16384"
    using request_small [OF assms(2) o(1)] response_small [OF assms(6,4) o(3)] by simp_all
  from sealed_message [OF assms(1,7,8) small(1)] obtain m where
    m: "session_encrypt X (Some iv) key out = Some m" "length m \<le> 16448" "session_decrypt X key m = Some out" by blast
  from sealed_message [OF assms(1,7,9) small(2)] obtain m2 where
    m2: "session_encrypt X (Some iv') key bytes = Some m2" "length m2 \<le> 16448" "session_decrypt X key m2 = Some bytes" by blast
  have reply: "read_reply bytes = (bp_status resp, sent_response (br_op req) resp)" by (simp add: read_reply_def o(4,5) sent_status)
  show ?thesis
  proof (rule exI [of _ "sealed_frame m"], rule exI [of _ "sealed_frame m2"], intro allI impI)
    fix ctx :: bcl_ctx and t :: transport and s :: session and sk :: sock and rest rest' :: string
    assume up: "cx_transport ctx = Some t" "tr_connected t" "session_up key (tr_session t)" "session_up key s"
      and room: "writes_ready 20000 (sk_evs (tr_sock t))" "writes_ready 20000 (sk_evs sk)"
      and ins: "plain_bytes (sk_in sk) = sealed_frame m @ rest" "plain_bytes (sk_in (tr_sock t)) = sealed_frame m2 @ rest'"
    from message_sent [OF up(3) m(1,2) small(1) room(1)] obtain sk1 where
      c1: "session_send X (Some iv) (tr_session t) out (tr_sock t) = (SESSION_OK, sk1)"
        "sk_sent sk1 = sk_sent (tr_sock t) @ sealed_frame m" "sk_in sk1 = sk_in (tr_sock t)" by blast
    from message_received [OF up(3) m2(3,2) small(2), of sk1 rest'] ins(2) c1(3) obtain sk2 where
      c2: "session_recv X SESSION_MAX_FRAME (tr_session t) sk1 = ((SESSION_OK, bytes), tr_session t, sk2)"
        "plain_bytes (sk_in sk2) = rest'" "sk_sent sk2 = sk_sent sk1" by auto
    from message_received [OF up(4) m(3,2) small(1) ins(1)] obtain skr where
      v1: "session_recv X SESSION_MAX_FRAME s sk = ((SESSION_OK, out), s, skr)" "plain_bytes (sk_in skr) = rest"
        "sk_evs skr = sk_evs sk" "sk_sent skr = sk_sent sk" by blast
    from message_sent [OF up(4) m2(1,2) small(2), of skr] room(2) v1(3) obtain skw where
      v2: "session_send X (Some iv') s bytes skr = (SESSION_OK, skw)" "sk_sent skw = sk_sent skr @ sealed_frame m2"
        "sk_in skw = sk_in skr" by auto
    have "bcl_send X (Some iv) D req ctx =
        (bp_status resp, sent_response (br_op req) resp, ctx\<lparr>cx_transport := Some \<lparr>tr_session = tr_session t, tr_sock = sk2, tr_connected = True\<rparr>\<rparr>)"
      by (simp add: bcl_send_def adm send_via_session_def up(1,2) o(1) c1(1) c2(1) reply put_transport_def)
    moreover have "run_state (session_step X (Some iv') now name admin s sk) w = ((True, s, skw), w')"
      by (simp add: session_step_def v1(1) v2(1) o(2) run_bind run_return)
    ultimately show "\<exists>t' sk'. bcl_send X (Some iv) D req ctx = (bp_status resp, sent_response (br_op req) resp, ctx\<lparr>cx_transport := Some t'\<rparr>) \<and>
       run_state (session_step X (Some iv') now name admin s sk) w = ((True, s, sk'), w') \<and>
       tr_connected t' \<and> tr_session t' = tr_session t \<and>
       sk_sent (tr_sock t') = sk_sent (tr_sock t) @ sealed_frame m \<and> plain_bytes (sk_in (tr_sock t')) = rest' \<and>
       sk_sent sk' = sk_sent sk @ sealed_frame m2 \<and> plain_bytes (sk_in sk') = rest"
      using c1 c2 v1 v2 by (intro exI [of _ "\<lparr>tr_session = tr_session t, tr_sock = sk2, tr_connected = True\<rparr>"] exI [of _ skw]) simp
  qed
qed

definition demo_tm :: tm where
  "demo_tm = \<lparr>tm_sec = 5, tm_min = 4, tm_hour = 3, tm_mday = 2, tm_mon = 0, tm_year = 126, tm_wday = 5\<rparr>"

definition busy_sock :: "string \<Rightarrow> sock" where
  "busy_sock bs = \<lparr>sk_in = [Data bs], sk_evs = replicate 20000 (Took (Suc 6)), sk_sent = []\<rparr>"

lemma busy_ready: "writes_ready 20000 (sk_evs (busy_sock bs))"
  by (simp add: busy_sock_def writes_ready_def list_all_iff)

lemma busy_plain: "plain_bytes (sk_in (busy_sock bs)) = bs @ []"
  by (cases bs) (simp_all add: busy_sock_def)

lemma closed_response_ok: "response_ok (bcl_response0\<lparr>bp_status := BB_ERR_CLOSED\<rparr>)"
  using recorded_response_ok [of demo_ballot receipt0 BB_ERR_CLOSED] by (simp add: receipt_shape_def bcl_response0_def)

definition no_dial :: ctl_dial where
  "no_dial = \<lparr>cd_socket = False, cd_connect = (\<lambda>_. False), cd_writes = [], cd_reads = []\<rparr>"

theorem secure_voter_call_witness:
  "\<exists>cbytes sbytes t'. bcl_send ref_ssl (Some (replicate 16 CHR ''i'')) no_dial demo_cast
      (bcl_create\<lparr>cx_transport := Some \<lparr>tr_session = demo_session, tr_sock = busy_sock sbytes, tr_connected = True\<rparr>\<rparr>) =
      (BB_ERR_CLOSED, bcl_response0\<lparr>bp_status := BB_ERR_CLOSED\<rparr>, bcl_create\<lparr>cx_transport := Some t'\<rparr>) \<and>
    sk_sent (tr_sock t') = cbytes \<and>
    (\<exists>sk'. run_state (session_step ref_ssl (Some (replicate 16 CHR ''j'')) demo_tm ''alice''
       (\<lambda>r. State_Monad.return (Some (bcl_response0\<lparr>bp_status := BB_ERR_CLOSED\<rparr>))) demo_session (busy_sock cbytes)) () =
       ((True, demo_session, sk'), ()) \<and> sk_sent sk' = sbytes)"
proof -
  let ?r = "bcl_response0\<lparr>bp_status := BB_ERR_CLOSED\<rparr>" and ?key = "ss_key demo_session"
  let ?iv = "replicate 16 CHR ''i''" and ?iv' = "replicate 16 CHR ''j''"
  let ?admin = "\<lambda>r. State_Monad.return (Some ?r) :: (unit, bcl_response option) state"
  have voter: "is_voter_op (br_op demo_cast)" and tm: "tm_ok demo_tm" by (simp_all add: is_voter_op_def demo_cast_def tm_ok_def demo_tm_def)
  have run: "run_state (?admin (verified ''alice'' (sent_request demo_cast))) () = (Some ?r, ())" by (simp add: run_return)
  have lens: "length ?key = 32" "length ?iv = 16" "length ?iv' = 16" by (simp_all add: demo_session_def)
  have up: "session_up ?key demo_session" by (simp add: session_up_def demo_session_def)
  have op: "br_op demo_cast = BCL_CAST" by (simp add: demo_cast_def)
  have same: "sent_response BCL_CAST ?r = ?r" by (simp add: sent_response_def bcl_response0_def receipt0_def)
  from secure_voter_call [where D = no_dial and admin = ?admin, OF ref_ssl.openssl_axioms demo_cast_ok voter tm run closed_response_ok lens]
  obtain cbytes sbytes where all: "\<forall>ctx t s sk rest rest'.
    cx_transport ctx = Some t \<longrightarrow> tr_connected t \<longrightarrow> session_up ?key (tr_session t) \<longrightarrow> session_up ?key s \<longrightarrow>
    writes_ready 20000 (sk_evs (tr_sock t)) \<longrightarrow> writes_ready 20000 (sk_evs sk) \<longrightarrow>
    plain_bytes (sk_in sk) = cbytes @ rest \<longrightarrow> plain_bytes (sk_in (tr_sock t)) = sbytes @ rest' \<longrightarrow>
    (\<exists>t' sk'. bcl_send ref_ssl (Some ?iv) no_dial demo_cast ctx = (bp_status ?r, sent_response (br_op demo_cast) ?r, ctx\<lparr>cx_transport := Some t'\<rparr>) \<and>
       run_state (session_step ref_ssl (Some ?iv') demo_tm ''alice'' ?admin s sk) () = ((True, s, sk'), ()) \<and>
       tr_connected t' \<and> tr_session t' = tr_session t \<and>
       sk_sent (tr_sock t') = sk_sent (tr_sock t) @ cbytes \<and> plain_bytes (sk_in (tr_sock t')) = rest' \<and>
       sk_sent sk' = sk_sent sk @ sbytes \<and> plain_bytes (sk_in sk') = rest)" by blast
  let ?t = "\<lparr>tr_session = demo_session, tr_sock = busy_sock sbytes, tr_connected = True\<rparr>"
  have t: "cx_transport (bcl_create\<lparr>cx_transport := Some ?t\<rparr>) = Some ?t" "tr_connected ?t" "session_up ?key (tr_session ?t)"
    "writes_ready 20000 (sk_evs (tr_sock ?t))" "plain_bytes (sk_in (tr_sock ?t)) = sbytes @ []"
    by (simp_all add: up busy_ready busy_plain)
  from all [rule_format, OF t(1-3) up t(4) busy_ready busy_plain t(5)] obtain t' sk' where
    fin: "bcl_send ref_ssl (Some ?iv) no_dial demo_cast (bcl_create\<lparr>cx_transport := Some ?t\<rparr>) =
      (bp_status ?r, sent_response (br_op demo_cast) ?r, bcl_create\<lparr>cx_transport := Some ?t\<rparr>\<lparr>cx_transport := Some t'\<rparr>)"
    "run_state (session_step ref_ssl (Some ?iv') demo_tm ''alice'' ?admin demo_session (busy_sock cbytes)) () = ((True, demo_session, sk'), ())"
    "sk_sent (tr_sock t') = sk_sent (tr_sock ?t) @ cbytes" "sk_sent sk' = sk_sent (busy_sock cbytes) @ sbytes" by blast
  show ?thesis
    by (rule exI [of _ cbytes], rule exI [of _ sbytes], rule exI [of _ t'], intro conjI exI [of _ sk'])
      (use fin in \<open>simp_all add: op same, simp_all add: busy_sock_def\<close>)
qed

section \<open>An administrator's request over the control socket\<close>

lemma ctl_write_ready:
  "writes_ready (length bs + m) evs \<Longrightarrow> \<exists>evs'. ctl_write_all bs evs = (True, bs, evs') \<and> writes_ready m evs'"
proof (induction "length bs" arbitrary: bs evs rule: less_induct)
  case less
  show ?case
  proof (cases bs)
    case Nil
    with less.prems show ?thesis by simp
  next
    case (Cons b r)
    with less.prems obtain k es where es: "evs = Took (Suc k) # es" "writes_ready (length r + m) es"
      using ready_tl by fastforce
    have "writes_ready (length (drop k r) + m) es" by (rule ready_mono [OF es(2)]) simp
    moreover have "length (drop k r) < length bs" using Cons by simp
    ultimately obtain evs' where "ctl_write_all (drop k r) es = (True, drop k r, evs')" "writes_ready m evs'"
      using less.hyps by blast
    with Cons es(1) show ?thesis by simp
  qed
qed

definition ctl_frame :: "string \<Rightarrow> string" where
  "ctl_frame msg = frame_prefix (word_of_nat (length msg)) @ msg"

lemma ctl_frame_sent:
  assumes "writes_ready 20000 evs" "length msg \<le> 16384"
  shows "ctl_frame_write msg evs = (True, ctl_frame msg)"
proof -
  let ?p = "frame_prefix (word_of_nat (length msg))"
  have "writes_ready (length ?p + (length msg + 0)) evs"
    by (rule ready_mono [OF assms(1)]) (use assms(2) in \<open>simp add: frame_prefix_def\<close>)
  from ctl_write_ready [OF this] obtain es where "ctl_write_all ?p evs = (True, ?p, es)" "writes_ready (length msg + 0) es" by blast
  moreover from ctl_write_ready [OF this(2)] obtain es' where "ctl_write_all msg es = (True, msg, es')" by blast
  ultimately show ?thesis by (simp add: ctl_frame_write_def ctl_frame_def)
qed

lemma ctl_frame_got:
  assumes "bytes_of evs = ctl_frame msg @ rest" "msg \<noteq> []" "length msg \<le> 16384"
  shows "ctl_frame_read CTL_MAX_FRAME evs = (0, msg)"
proof -
  have "CTL_MAX_FRAME < 2 ^ 32" "length msg \<le> CTL_MAX_FRAME" using assms(3) by (simp_all add: CTL_MAX_FRAME_def)
  with assms(1,2) show ?thesis by (auto simp: frame_read_exact ctl_frame_def)
qed

text \<open>
  C22: over the control socket an administrator's request reaches the daemon's handler as it was
  made, and \<^verbatim>\<open>bcl_send\<close> returns the status and the fields of the handler's answer, again whatever
  way the bytes of the two frames are cut.
\<close>

theorem admin_call:
  assumes "request_ok req" "client_admin_op (br_op req)" "tm_ok now"
    and "run_state (ballotd_dispatch K (sent_request req)) w = (resp, w')" "response_ok resp"
    and "cx_ctl_path ctx \<noteq> []" "length (cx_ctl_path ctx) < 108"
  shows "\<exists>cbytes sbytes. \<forall>D evs wevs rest rest'.
    cd_socket D \<longrightarrow> cd_connect D (cx_ctl_path ctx) \<longrightarrow> writes_ready 20000 (cd_writes D) \<longrightarrow> writes_ready 20000 wevs \<longrightarrow>
    bytes_of evs = cbytes @ rest \<longrightarrow> bytes_of (cd_reads D) = sbytes @ rest' \<longrightarrow>
    bcl_send X iv D req ctx = (bp_status resp, sent_response (br_op req) resp, ctx) \<and>
    snd (snd (snd (send_via_ctl D req ctx))) = cbytes \<and>
    handle_conn True evs = Forward (sent_request req) \<and>
    run_state (handle_ctl_req K now (sent_request req) wevs) w = (sbytes, w')"
proof -
  have op: "br_op (sent_request req) = br_op req" by (cases "br_op req") (simp_all add: sent_request_def)
  have adm: "is_admin_op (br_op req)" using assms(2) by (auto simp: client_admin_op_def is_admin_op_def)
  have cap: "16384 \<le> CTL_MAX_FRAME" by (simp add: CTL_MAX_FRAME_def)
  from encode_sent [OF assms(1) cap] decode_sent [OF assms(1)] obtain out h where
    o: "bcl_encode_request req CTL_MAX_FRAME = Some out" "htttp_parse_request out = (HTTTP_OK, h)"
      "bcl_decode_request h = (True, sent_request req)" by blast
  from encode_answer [OF assms(5,3) cap, of "br_op req"] obtain bytes h' where
    b: "bcl_encode_response now (br_op req) resp CTL_MAX_FRAME = Some bytes" "htttp_parse_response bytes = (HTTTP_OK, h')"
      "bcl_decode_response h' = (True, sent_response (br_op req) resp)" by blast
  note small = request_small [OF assms(1) o(1) [unfolded frame_caps]] response_small [OF assms(5,3) b(1) [unfolded frame_caps]]
  have reply: "read_reply bytes = (bp_status resp, sent_response (br_op req) resp)" by (simp add: read_reply_def b(2,3) sent_status)
  show ?thesis
  proof (rule exI [of _ "ctl_frame out"], rule exI [of _ "ctl_frame bytes"], intro allI impI)
    fix D :: ctl_dial and evs wevs and rest rest' :: string
    assume up: "cd_socket D" "cd_connect D (cx_ctl_path ctx)" and room: "writes_ready 20000 (cd_writes D)" "writes_ready 20000 wevs"
      and ins: "bytes_of evs = ctl_frame out @ rest" "bytes_of (cd_reads D) = ctl_frame bytes @ rest'"
    have w: "ctl_frame_write out (cd_writes D) = (True, ctl_frame out)" "ctl_frame_write bytes wevs = (True, ctl_frame bytes)"
      using ctl_frame_sent [OF room(1)] ctl_frame_sent [OF room(2)] small by auto
    have r: "ctl_frame_read CTL_MAX_FRAME evs = (0, out)" "ctl_frame_read CTL_MAX_FRAME (cd_reads D) = (0, bytes)"
      using ctl_frame_got [OF ins(1)] ctl_frame_got [OF ins(2)] small by auto
    have "send_via_ctl D req ctx = (bp_status resp, sent_response (br_op req) resp, ctx, ctl_frame out)"
      using assms(6,7) by (simp add: send_via_ctl_def SUN_PATH_LEN_def up o(1) w(1) r(2) reply)
    moreover have "handle_conn True evs = Forward (sent_request req)" by (simp add: handle_conn_def r(1) o(2,3) op adm)
    moreover have "run_state (handle_ctl_req K now (sent_request req) wevs) w = (ctl_frame bytes, w')"
      by (simp add: handle_ctl_req_def run_bind run_return assms(4) op b(1) w(2))
    ultimately show "bcl_send X iv D req ctx = (bp_status resp, sent_response (br_op req) resp, ctx) \<and>
      snd (snd (snd (send_via_ctl D req ctx))) = ctl_frame out \<and>
      handle_conn True evs = Forward (sent_request req) \<and>
      run_state (handle_ctl_req K now (sent_request req) wevs) w = (ctl_frame bytes, w')"
      by (simp add: bcl_send_def assms(2))
  qed
qed

text \<open>A database that is down: every command fails and the next identifier is the fallback.\<close>

definition down_seam :: "unit seam" where
  "down_seam = \<lparr>sm_exec = (\<lambda>_. State_Monad.return (BB_ERR_DB, result0)), sm_begin = State_Monad.return BB_ERR_DB,
     sm_commit = State_Monad.return BB_ERR_DB, sm_rollback = State_Monad.return (), sm_alloc_id = State_Monad.return ''E-100'',
     sm_log = (\<lambda>_. State_Monad.return ())\<rparr>"

definition ask_next_id :: bcl_request where
  "ask_next_id = bcl_request0\<lparr>br_op := BCL_ADMIN_NEXT_ID\<rparr>"

definition next_id_answer :: bcl_response where
  "next_id_answer = bcl_response0\<lparr>bp_election := (bp_election bcl_response0)\<lparr>el_id := ''E-100''\<rparr>, bp_status := BB_OK\<rparr>"

theorem admin_call_witness:
  "\<exists>cbytes sbytes.
     bcl_send ref_ssl None \<lparr>cd_socket = True, cd_connect = (\<lambda>_. True), cd_writes = replicate 20000 (Took (Suc 6)), cd_reads = [Data sbytes]\<rparr>
       ask_next_id (bcl_set_ctl_path ''run/ballotd.sock'' bcl_create) =
       (BB_OK, sent_response BCL_ADMIN_NEXT_ID next_id_answer, bcl_set_ctl_path ''run/ballotd.sock'' bcl_create) \<and>
     handle_conn True [Data cbytes] = Forward (sent_request ask_next_id) \<and>
     run_state (handle_ctl_req down_seam demo_tm (sent_request ask_next_id) (replicate 20000 (Took (Suc 6)))) () = (sbytes, ())"
proof -
  let ?ctx = "bcl_set_ctl_path ''run/ballotd.sock'' bcl_create"
  have r: "request_ok ask_next_id" "client_admin_op (br_op ask_next_id)" "tm_ok demo_tm"
    by (simp_all add: ask_next_id_def request_ok_def bcl_request0_def config0_ok text_ok_def valid_field_def client_admin_op_def
        tm_ok_def demo_tm_def ballot0_def)
  have d: "run_state (ballotd_dispatch down_seam (sent_request ask_next_id)) () = (next_id_answer, ())"
    by (simp add: ballotd_dispatch_def sent_request_def ask_next_id_def down_seam_def next_id_answer_def run_bind run_return
        BB_ID_LEN_def snprintf_s_def)
  have a: "response_ok next_id_answer"
    by (simp add: next_id_answer_def response_ok_def bcl_response0_def election0_def BB_MAX_OPTIONS_def BB_MAX_VOTERS_def
        list_all_iff set_replicate_conv_if text_ok_def receipt0_def)
  have c: "cx_ctl_path ?ctx \<noteq> []" "length (cx_ctl_path ?ctx) < 108" by (simp_all add: bcl_set_ctl_path_def snprintf_s_def)
  have w: "writes_ready 20000 (replicate 20000 (Took (Suc 6)))" by (simp add: writes_ready_def list_all_iff)
  have one: "bytes_of [Data bs] = bs @ []" for bs by (cases bs) simp_all
  from admin_call [OF r d a c, of ref_ssl None] obtain cbytes sbytes where all: "\<forall>D evs wevs rest rest'.
    cd_socket D \<longrightarrow> cd_connect D (cx_ctl_path ?ctx) \<longrightarrow> writes_ready 20000 (cd_writes D) \<longrightarrow> writes_ready 20000 wevs \<longrightarrow>
    bytes_of evs = cbytes @ rest \<longrightarrow> bytes_of (cd_reads D) = sbytes @ rest' \<longrightarrow>
    bcl_send ref_ssl None D ask_next_id ?ctx =
      (bp_status next_id_answer, sent_response (br_op ask_next_id) next_id_answer, ?ctx) \<and>
    snd (snd (snd (send_via_ctl D ask_next_id ?ctx))) = cbytes \<and>
    handle_conn True evs = Forward (sent_request ask_next_id) \<and>
    run_state (handle_ctl_req down_seam demo_tm (sent_request ask_next_id) wevs) () = (sbytes, ())" by blast
  let ?D = "\<lparr>cd_socket = True, cd_connect = (\<lambda>_. True), cd_writes = replicate 20000 (Took (Suc 6)), cd_reads = [Data sbytes]\<rparr>"
  have "cd_socket ?D" "cd_connect ?D (cx_ctl_path ?ctx)" "writes_ready 20000 (cd_writes ?D)" "bytes_of (cd_reads ?D) = sbytes @ []"
    unfolding ctl_dial.simps by (simp_all only: w one)
  note fin = all [rule_format, OF this(1-3) w one this(4)]
  have st: "bp_status next_id_answer = BB_OK" "br_op ask_next_id = BCL_ADMIN_NEXT_ID" by (simp_all add: next_id_answer_def ask_next_id_def)
  show ?thesis by (rule exI [of _ cbytes], rule exI [of _ sbytes]) (use fin in \<open>unfold st, blast\<close>)
qed

section \<open>The voter's session and the database\<close>

text \<open>
  What a call of \<^verbatim>\<open>bcl_send\<close> for a voter's operation comes to: the daemon's answer to the request
  under the account, as far as it crosses the wire.
\<close>

definition daemon_link :: "env \<Rightarrow> string \<Rightarrow> bcl_request \<Rightarrow> (world, bb_result \<times> bcl_response) state" where
  "daemon_link E name req = do {
     resp \<leftarrow> ballotd_dispatch (sql_seam E) (verified name (sent_request req));
     State_Monad.return (bp_status resp, sent_response (br_op req) resp)
   }"

text \<open>The session says of the voter's ballot what the database holds.\<close>

definition session_agrees :: "store \<Rightarrow> string \<Rightarrow> bu_session \<Rightarrow> bool" where
  "session_agrees D name s \<longleftrightarrow>
     bs_joined s \<and> bs_cert_name s = name \<and> fits 15 (bs_election_id s) \<and>
     (\<exists>p. prior_is D (bs_election_id s) name p \<and> (bs_has_ballot s \<noteq> 0 \<longleftrightarrow> p \<noteq> None) \<and>
          bs_ballot_version s = (case p of None \<Rightarrow> 0 | Some (h, v) \<Rightarrow> v) \<and>
          (bs_my_hash s \<noteq> [] \<longrightarrow> map_option fst p = Some (bs_my_hash s)))"

lemma prior_after_cast: "bal_cert_name b = c \<Longrightarrow> prior_is (cast_effect D i b p) i c (Some (rc_hash (cast_receipt b p), next_version p))"
  by (simp add: prior_is_def owners_with_cast)

lemma fits_copy: "fits n s \<Longrightarrow> n < m \<Longrightarrow> snprintf_s m s = s"
  by (auto simp: fits_def snprintf_s_def)

lemma join_answer:
  assumes "sdb_env E" "store_inv D" "fits 31 name" "w_idle E True D w" "fits 15 i" "i \<noteq> []"
    and "run_state (daemon_link E name (join_request i c)) w = ((r, resp), w')"
  shows "w_idle E True D w' \<and> r = join_verdict D i name \<and> bp_status resp = r \<and>
    (r = BB_OK \<longrightarrow> (\<exists>row \<in># sel i (st_election D). el_state (bp_election resp) = (case row of (q, t, st, a, b) \<Rightarrow> st)) \<and>
       (\<exists>p. prior_is D i name p \<and> (bp_has_prior_ballot resp \<noteq> 0 \<longleftrightarrow> p \<noteq> None) \<and>
            bp_prior_ballot_version resp = (case p of None \<Rightarrow> 0 | Some (h, v) \<Rightarrow> v)))"
proof -
  let ?out = "\<lparr>jo_election = bp_election bcl_response0, jo_has_ballot = False, jo_version = bp_prior_ballot_version bcl_response0\<rparr>"
  have v: "br_op (verified name (sent_request (join_request i c))) = BCL_JOIN"
    "br_election_id (verified name (sent_request (join_request i c))) = i"
    "br_cert_name (verified name (sent_request (join_request i c))) = name" "br_op (join_request i c) = BCL_JOIN"
    using assms(3,5) by (simp_all add: verified_def sent_request_def join_request_def fits_copy BB_ID_LEN_def BB_CERT_LEN_def)
  obtain r' jo w1 where run: "run_state (bb_join (sql_seam E) i name ?out) w = ((r', jo), w1)" by (metis prod.exhaust)
  note post = sdb_env.join_sql [OF assms(1,2,5,3,4) run, unfolded join_post_def fst_conv snd_conv]
  from assms(7) have w1: "w' = w1" "r = r'"
    and resp: "resp = sent_response BCL_JOIN (bcl_response0\<lparr>bp_status := r', bp_election := jo_election jo,
      bp_has_prior_ballot := (if jo_has_ballot jo then 1 else 0), bp_prior_ballot_version := jo_version jo\<rparr>)"
    by (auto simp: daemon_link_def ballotd_dispatch_def v run_bind run_return run Let_def)
  show ?thesis
  proof (cases "r' = BB_OK")
    case False
    with post w1 show ?thesis by (auto simp: resp sent_status)
  next
    case True
    with post obtain row where row: "row \<in># sel i (st_election D)" "election_is D i row (jo_election jo)"
      by (auto simp: found_election_def)
    then have "el_id (jo_election jo) \<noteq> []" "el_state (jo_election jo) = (case row of (q, t, st, a, b) \<Rightarrow> st)"
      using assms(6) by (auto simp: election_is_def split: prod.splits)
    with True post w1 row(1) show ?thesis
      by (auto simp: resp sent_response_def sent_join_def Let_def election0_def bcl_response0_def intro!: bexI [of _ row])
  qed
qed

lemma vote_answer:
  assumes "sdb_env E" "store_inv D" "w_idle E True D w" "fits 15 (bs_election_id s)" "fits 31 (bs_cert_name s)"
    and "b = ballot\<lparr>bal_cert_name := bs_cert_name s\<rparr>" "ballot_ok b" "fresh_for D (bs_election_id s) b"
    and "run_state (daemon_link E (bs_cert_name s) (vote_request s ballot)) w = ((r, resp), w')"
  shows "r = cast_verdict D (bs_election_id s) b \<and> bp_status resp = r \<and>
    (if r = BB_OK
     then \<exists>p. prior_is D (bs_election_id s) (bs_cert_name s) p \<and> bp_receipt resp = cast_receipt b p \<and>
            w_idle E True (cast_effect D (bs_election_id s) b p) w'
     else w_idle E True D w')"
proof -
  let ?i = "bs_election_id s" and ?name = "bs_cert_name s" and ?req = "vote_request s ballot"
  have op: "br_op ?req = BCL_CAST \<or> br_op ?req = BCL_UPDATE" by (simp add: vote_request_def)
  have copies: "snprintf_s BB_ID_LEN ?i = ?i" "snprintf_s BB_CERT_LEN ?name = ?name"
    using assms(4,5) by (simp_all add: fits_copy BB_ID_LEN_def BB_CERT_LEN_def)
  have v: "br_op (verified ?name (sent_request ?req)) = br_op ?req" "br_election_id (verified ?name (sent_request ?req)) = ?i"
    "br_ballot (verified ?name (sent_request ?req)) = b"
    using op by (auto simp: verified_def sent_request_def Let_def vote_request_def copies assms(6))
  obtain r' rc w1 where run: "run_state (bb_record_ballot (sql_seam E) ?i b receipt0) w = ((r', rc), w1)" by (metis prod.exhaust)
  note post = sdb_env.record_sql [OF assms(1,2,7,4,8,3) run, unfolded cast_post_def cast_failed_def fst_conv snd_conv]
  from assms(9) op have w1: "w' = w1" "r = r'" "resp = sent_response (br_op ?req) (bcl_response0\<lparr>bp_status := r', bp_receipt := rc\<rparr>)"
    by (auto simp: daemon_link_def ballotd_dispatch_def v run_bind run_return run response0_simps(4))
  show ?thesis
  proof (cases "r' = BB_OK")
    case False
    with post w1 show ?thesis by (auto simp: sent_status)
  next
    case True
    with post obtain p where p: "cast_verdict D ?i b = BB_OK" "prior_is D ?i (bal_cert_name b) p" "rc = cast_receipt b p"
      "w_idle E True (cast_effect D ?i b p) w1" by auto
    have "rc_hash rc \<noteq> []" using hash_from_seed_length by (auto simp: p(3) cast_receipt_def simp flip: length_0_conv)
    then have "bp_receipt resp = rc" using w1(3) op by (auto simp: sent_response_def Let_def)
    with True p w1 show ?thesis by (auto simp: sent_status assms(6))
  qed
qed

text \<open>
  C24: an admitted join starts a session that agrees with the database on the voter's ballot, and
  the voter is admitted exactly when the rules of the election let the account in.
\<close>

theorem join_agrees:
  assumes "sdb_env E" "store_inv D" "fits 31 name" "w_idle E True D w" "fits 15 i" "i \<noteq> []"
    and "run_state (bu_join (daemon_link E name) s i name) w = ((outcome, s'), w')"
  shows "w_idle E True D w' \<and> (outcome = BU_JOIN_ADMITTED \<longleftrightarrow> join_verdict D i name = BB_OK) \<and>
    (outcome = BU_JOIN_ADMITTED \<longrightarrow> session_agrees D name s' \<and> bs_election_id s' = i) \<and>
    (outcome \<noteq> BU_JOIN_ADMITTED \<longrightarrow> bs_joined s' \<longrightarrow> s' = s)"
proof -
  obtain r resp w1 where run: "run_state (daemon_link E name (join_request i name)) w = ((r, resp), w1)" by (metis prod.exhaust)
  note ans = join_answer [OF assms(1-6) run]
  have copies: "snprintf_s BB_ID_LEN i = i" "snprintf_s BB_CERT_LEN name = name"
    using assms(3,5) by (simp_all add: fits_copy BB_ID_LEN_def BB_CERT_LEN_def)
  have st: "(if r \<noteq> BB_OK then r else bp_status resp) = r" using ans by auto
  from assms(7) have o: "outcome = bu_classify_join r (Some (bp_election resp))" "s' = joined_session outcome resp i name s" "w' = w1"
    by (auto simp add: bu_join_def run_bind run_return run copies st Let_def)
  have adm: "outcome = BU_JOIN_ADMITTED \<longleftrightarrow> r = BB_OK"
  proof
    assume r: "r = BB_OK"
    with ans obtain row where "row \<in># sel i (st_election D)" "el_state (bp_election resp) = (case row of (q, t, st, a, b) \<Rightarrow> st)" by blast
    then have "in_state D i (el_state (bp_election resp))" by (auto simp: in_state_def split: prod.splits intro: rev_image_eqI)
    moreover have "in_state D i BB_STATE_OPEN" using ans r by (auto simp: join_verdict_def split: if_splits)
    ultimately have "el_state (bp_election resp) = BB_STATE_OPEN" by (rule in_state_unique [OF assms(2)])
    with r o(1) show "outcome = BU_JOIN_ADMITTED" by (simp add: bu_classify_join_def)
  qed (use o(1) in \<open>auto simp: bu_classify_join_def split: bb_result.splits\<close>)
  show ?thesis
  proof (cases "r = BB_OK")
    case True
    with ans obtain p where p: "prior_is D i name p" "bp_has_prior_ballot resp \<noteq> 0 \<longleftrightarrow> p \<noteq> None"
      "bp_prior_ballot_version resp = (case p of None \<Rightarrow> 0 | Some (h, v) \<Rightarrow> v)" by auto
    have "session_agrees D name s' \<and> bs_election_id s' = i" using True adm p assms(5)
      by (auto simp: o(2) joined_session_def session_agrees_def bu_session0_def copies Let_def intro!: exI [of _ p])
    with True adm ans o(3) show ?thesis by auto
  next
    case False
    with adm have "outcome \<noteq> BU_JOIN_ADMITTED" by simp
    then have "bs_joined s' \<longrightarrow> s' = s" by (cases outcome) (auto simp: o(2) joined_session_def Let_def)
    with False adm ans o(3) show ?thesis by auto
  qed
qed

theorem join_agrees_witness:
  "\<exists>s'. fst (run_state (bu_join (daemon_link calm_env ''alice'') bu_session0 demo_id ''alice'') (demo_world BB_STATE_OPEN)) =
       (BU_JOIN_ADMITTED, s') \<and> session_agrees (demo_store BB_STATE_OPEN) ''alice'' s' \<and> bs_election_id s' = demo_id"
proof -
  obtain outcome s' w' where
    run: "run_state (bu_join (daemon_link calm_env ''alice'') bu_session0 demo_id ''alice'') (demo_world BB_STATE_OPEN) = ((outcome, s'), w')"
    by (metis prod.exhaust)
  have "demo_id \<noteq> []" by (simp add: demo_id_def)
  moreover have "join_verdict (demo_store BB_STATE_OPEN) demo_id ''alice'' = BB_OK" by (simp add: join_verdict_def demo_state demo_sel)
  ultimately show ?thesis using join_agrees [OF ref.sdb_env_axioms demo_inv demo_fits(2) demo_idle demo_fits(1) _ run] run by auto
qed

text \<open>
  C23: submitting a vote from a session that agrees with the database gives the verdict of the
  election rules and keeps the agreement: the version the client counts is the version stored, and
  the hash it keeps is the hash of the voter's current ballot.
\<close>

theorem vote_agrees:
  assumes "sdb_env E" "store_inv D" "w_idle E True D w" "session_agrees D name s" "fits 31 name"
    and "b = ballot0\<lparr>bal_payload := [word_of_int opt], bal_nonce := nonce, bal_cert_name := name\<rparr>" "0 \<le> opt" "opt \<le> 255"
    and "ballot_ok b" "fresh_for D (bs_election_id s) b" "run_state hook w = ((), w)"
    and "run_state (bu_submit_vote (daemon_link E name) hook s opt nonce) w = ((r, s', receipt), w')"
  shows "r = cast_verdict D (bs_election_id s) b \<and>
    (if r = BB_OK
     then \<exists>p. w_idle E True (cast_effect D (bs_election_id s) b p) w' \<and> prior_is D (bs_election_id s) name p \<and>
            receipt = Some (cast_receipt b p) \<and> session_agrees (cast_effect D (bs_election_id s) b p) name s' \<and>
            bs_my_hash s' = rc_hash (cast_receipt b p)
     else w_idle E True D w' \<and> s' = s \<and> receipt = None)"
proof -
  let ?i = "bs_election_id s"
  from assms(4) obtain p where s: "bs_joined s" "bs_cert_name s = name" "fits 15 ?i" "prior_is D ?i name p"
    "bs_has_ballot s \<noteq> 0 \<longleftrightarrow> p \<noteq> None" "bs_ballot_version s = (case p of None \<Rightarrow> 0 | Some (h, v) \<Rightarrow> v)"
    by (auto simp: session_agrees_def)
  let ?ballot = "ballot0\<lparr>bal_payload := [word_of_int opt], bal_nonce := nonce\<rparr>"
  have "snprintf_s BB_NONCE_LEN nonce = nonce" using assms(9) by (auto simp: assms(6) ballot_ok_def lead_def intro: fits_copy simp: BB_NONCE_LEN_def)
  then have enc: "bu_encrypt_ballot opt nonce = (BB_OK, ?ballot)" using assms(7,8) by (simp add: bu_encrypt_ballot_def)
  have route: "bu_route_vote (Some s) \<noteq> BU_MUST_JOIN" using s(1) by (simp add: bu_route_vote_def)
  obtain r0 resp w1 where run: "run_state (daemon_link E name (vote_request s ?ballot)) w = ((r0, resp), w1)" by (metis prod.exhaust)
  have b: "b = ?ballot\<lparr>bal_cert_name := bs_cert_name s\<rparr>" by (simp add: assms(6) s(2))
  have "fits 31 (bs_cert_name s)" using assms(5) s(2) by simp
  note ans = vote_answer [OF assms(1-3) s(3) this b assms(9,10) run [folded s(2)], unfolded s(2)]
  from assms(12) ans have out: "w' = w1" "r = r0"
    "if r0 = BB_OK then receipt = Some (bp_receipt resp) \<and> s' = s\<lparr>bs_has_ballot := 1, bs_ballot_version := wrap32 (bs_ballot_version s + 1),
         bs_my_hash := snprintf_s BB_HASH_LEN (rc_hash (bp_receipt resp))\<rparr> else s' = s \<and> receipt = None"
    by (auto simp: bu_submit_vote_def route enc run_bind run_return assms(11) run split: if_splits)
  show ?thesis
  proof (cases "r0 = BB_OK")
    case False
    with ans out show ?thesis by auto
  next
    case True
    with ans obtain q where q: "prior_is D ?i name q" "bp_receipt resp = cast_receipt b q" "w_idle E True (cast_effect D ?i b q) w1" by auto
    have qp: "q = p" using q(1) s(4) by (auto simp: prior_is_def split: option.splits)
    have nm: "bal_cert_name b = name" by (simp add: assms(6))
    have nxt: "next_version p < 2 ^ 31" using assms(10) s(4) nm by (auto simp: fresh_for_def)
    have pos: "1 \<le> next_version p" by (rule version_bounds [OF assms(2) s(4)])
    have ver: "wrap32 (bs_ballot_version s + 1) = next_version p"
      using nxt pos s(6) by (auto simp: next_version_def split: option.splits)
    have hash: "snprintf_s BB_HASH_LEN (rc_hash (cast_receipt b p)) = rc_hash (cast_receipt b p)"
      by (simp add: snprintf_s_def cast_receipt_def BB_HASH_LEN_def)
    have "session_agrees (cast_effect D ?i b p) name s'"
      using True out(3) s(1,2,3) prior_after_cast [OF nm, of D ?i p] ver hash q(2) qp
      by (auto simp: session_agrees_def intro!: exI [of _ "Some (rc_hash (cast_receipt b p), next_version p)"])
    moreover have "bs_my_hash s' = rc_hash (cast_receipt b p)" using True out(3) q(2) qp hash by simp
    ultimately show ?thesis using True ans out q qp by (auto intro!: exI [of _ p])
  qed
qed

definition demo_joined :: bu_session where
  "demo_joined = bu_session0\<lparr>bs_joined := True, bs_cert_name := ''alice'', bs_election_id := demo_id\<rparr>"

theorem vote_agrees_witness:
  "\<exists>s'. fst (run_state (bu_submit_vote (daemon_link calm_env ''alice'') (State_Monad.return ()) demo_joined 1 ''n1'')
       (demo_world BB_STATE_OPEN)) = (BB_OK, s', Some (cast_receipt demo_ballot None)) \<and>
     bs_my_hash s' = rc_hash (cast_receipt demo_ballot None) \<and>
     session_agrees (cast_effect (demo_store BB_STATE_OPEN) demo_id demo_ballot None) ''alice'' s'"
proof -
  obtain r s' receipt w' where run: "run_state (bu_submit_vote (daemon_link calm_env ''alice'') (State_Monad.return ()) demo_joined 1 ''n1'')
      (demo_world BB_STATE_OPEN) = ((r, s', receipt), w')" by (metis prod.exhaust)
  have id: "bs_election_id demo_joined = demo_id" by (simp add: demo_joined_def)
  have ag: "session_agrees (demo_store BB_STATE_OPEN) ''alice'' demo_joined"
    using demo_fits(1) by (simp add: session_agrees_def demo_joined_def demo_prior bu_session0_def)
  have b: "demo_ballot = ballot0\<lparr>bal_payload := [word_of_int 1], bal_nonce := ''n1'', bal_cert_name := ''alice''\<rparr>"
    by (simp add: demo_ballot_def ballot0_def)
  have hook: "run_state (State_Monad.return ()) (demo_world BB_STATE_OPEN) = ((), demo_world BB_STATE_OPEN)" by (simp add: run_return)
  from vote_agrees [OF ref.sdb_env_axioms demo_inv demo_idle ag demo_fits(2) b _ _ demo_fits(3) demo_fresh hook run]
  show ?thesis unfolding id demo_verdict demo_prior run fst_conv by auto
qed

end
