(* ===== verification/Tetrisui.thy ===== *)
theory Tetrisui
  imports Prelude
begin

text \<open>
  The widgets of \<^verbatim>\<open>src/src/libtetrisui/tetrisui.c\<close>. The keyboard is the list of keys \<^verbatim>\<open>wgetch\<close> will
  deliver; when it is used up the process is interrupted by the user, which its handler turns into
  an orderly end, so a run ends either interrupted or with a result, and the terminal is kept in
  both cases. Whether ncurses opens a window of a given size is an argument. Of the drawing, the texts
  a widget shows are kept in order; colours, positions, the hint line and the progress panel are not.
\<close>

section \<open>Runs\<close>

text \<open>\<open>Inl\<close> is a run that was interrupted, \<open>Inr\<close> one that went through with a result.\<close>

type_synonym ('a, 'w) run = "'w + 'a \<times> 'w"

definition andthen :: "('a, 'w) run \<Rightarrow> ('a \<Rightarrow> 'w \<Rightarrow> ('b, 'w) run) \<Rightarrow> ('b, 'w) run" where
  "andthen m k = (case m of Inl w \<Rightarrow> Inl w | Inr (a, w) \<Rightarrow> k a w)"

lemma andthen_cong [fundef_cong]: "m = m' \<Longrightarrow> (\<And>a w. m' = Inr (a, w) \<Longrightarrow> k a w = k' a w) \<Longrightarrow> andthen m k = andthen m' k'"
  by (auto simp: andthen_def split: sum.split)

lemma andthen_simps [simp]: "andthen (Inl w) k = Inl w" "andthen (Inr (a, w)) k = k a w"
  by (simp_all add: andthen_def)

text \<open>What holds of a run when it is interrupted, and what when it goes through.\<close>

definition runs :: "('a, 'w) run \<Rightarrow> ('w \<Rightarrow> bool) \<Rightarrow> ('a \<Rightarrow> 'w \<Rightarrow> bool) \<Rightarrow> bool" where
  "runs m I Q \<longleftrightarrow> (case m of Inl w \<Rightarrow> I w | Inr (a, w) \<Rightarrow> Q a w)"

lemma runs_simps [simp]: "runs (Inl w) I Q \<longleftrightarrow> I w" "runs (Inr (a, w)) I Q \<longleftrightarrow> Q a w"
  by (simp_all add: runs_def)

lemma runs_andthen: "runs m I R \<Longrightarrow> (\<And>a w. R a w \<Longrightarrow> runs (k a w) I Q) \<Longrightarrow> runs (andthen m k) I Q"
  by (cases m) (auto simp: runs_def)

lemma runs_mono: "runs m I R \<Longrightarrow> (\<And>a w. R a w \<Longrightarrow> Q a w) \<Longrightarrow> runs m I Q"
  by (auto simp: runs_def split: sum.splits)

lemma runs_weaken: "runs m I' R \<Longrightarrow> (\<And>w. I' w \<Longrightarrow> I w) \<Longrightarrow> (\<And>a w. R a w \<Longrightarrow> Q a w) \<Longrightarrow> runs m I Q"
  by (auto simp: runs_def split: sum.splits)

lemma runs_conj: "runs m I Q \<Longrightarrow> runs m I' Q' \<Longrightarrow> runs m I (\<lambda>a w. Q a w \<and> Q' a w)"
  by (auto simp: runs_def split: sum.splits)

lemma runs_if: "(b \<Longrightarrow> runs m I Q) \<Longrightarrow> (\<not> b \<Longrightarrow> runs m' I Q) \<Longrightarrow> runs (if b then m else m') I Q"
  by simp

lemma runs_Inr: "runs m I Q \<Longrightarrow> m = Inr (a, w) \<Longrightarrow> Q a w"
  by simp

section \<open>The terminal\<close>

datatype key = KEY_UP | KEY_DOWN | KEY_LEFT | KEY_RIGHT | KEY_BACKSPACE | KEY_ENTER | Ch int

datatype shown =
    Menu string "string list"
  | Box string "string list"
  | Page string "string list"
  | Asked string bool

record terminal =
  tm_keys :: "key list"
  tm_cols :: int
  tm_rows :: int
  tm_newwin :: "int \<Rightarrow> int \<Rightarrow> bool"
  tm_status :: "string \<times> string \<times> string"
  tm_shown :: "shown list"

definition TETRISUI_MAX_ITEMS :: int where "TETRISUI_MAX_ITEMS = 16"
definition TETRISUI_MAX_FIELDS :: nat where "TETRISUI_MAX_FIELDS = 8"
definition TETRISUI_FIELD_LEN :: nat where "TETRISUI_FIELD_LEN = 128"

text \<open>A loop around \<^verbatim>\<open>wgetch\<close>: every key either changes the loop's state or ends it.\<close>

fun key_loop :: "(key \<Rightarrow> 's \<Rightarrow> 's + 'r) \<Rightarrow> 's \<Rightarrow> key list \<Rightarrow> ('r \<times> key list) option" where
  "key_loop body s [] = None"
| "key_loop body s (ch # ks) = (case body ch s of Inl s' \<Rightarrow> key_loop body s' ks | Inr r \<Rightarrow> Some (r, ks))"

definition on_keys :: "(key \<Rightarrow> 's \<Rightarrow> 's + 'r) \<Rightarrow> 's \<Rightarrow> 'x terminal_scheme \<Rightarrow> ('r, 'x terminal_scheme) run" where
  "on_keys body s w =
     (case key_loop body s (tm_keys w) of None \<Rightarrow> Inl (w\<lparr>tm_keys := []\<rparr>) | Some (r, ks) \<Rightarrow> Inr (r, w\<lparr>tm_keys := ks\<rparr>))"

definition display :: "shown \<Rightarrow> 'x terminal_scheme \<Rightarrow> 'x terminal_scheme" where
  "display s w = w\<lparr>tm_shown := tm_shown w @ [s]\<rparr>"

definition is_enter :: "key \<Rightarrow> bool" where
  "is_enter ch \<longleftrightarrow> ch = Ch 10 \<or> ch = KEY_ENTER \<or> ch = Ch 13"

definition is_rubout :: "key \<Rightarrow> bool" where
  "is_rubout ch \<longleftrightarrow> ch = KEY_BACKSPACE \<or> ch = Ch 127 \<or> ch = Ch 8"

definition typed_char :: "key \<Rightarrow> char option" where
  "typed_char ch = (case ch of Ch n \<Rightarrow> if 32 \<le> n \<and> n < 127 then Some (char_of (nat n)) else None | _ \<Rightarrow> None)"

section \<open>Widgets\<close>

definition tetrisui_set_status :: "string \<Rightarrow> string \<Rightarrow> string \<Rightarrow> 'x terminal_scheme \<Rightarrow> 'x terminal_scheme" where
  "tetrisui_set_status app actor st w = w\<lparr>tm_status := (take 31 app, take 63 actor, take 31 st)\<rparr>"

definition tetrisui_menu :: "string \<Rightarrow> string list \<Rightarrow> int \<Rightarrow> 'x terminal_scheme \<Rightarrow> (int, 'x terminal_scheme) run" where
  "tetrisui_menu title items n w =
     (if n \<le> 0 \<or> TETRISUI_MAX_ITEMS < n then Inr (- 1, w)
      else if \<not> tm_newwin w (n + 4) (max (tm_cols w - 10) 40) then Inr (- 1, w)
      else on_keys
             (\<lambda>ch sel.
                let sel = (if ch = KEY_UP then (sel - 1 + n) mod n else if ch = KEY_DOWN then (sel + 1) mod n else sel)
                in if ch = Ch 113 \<or> ch = Ch 27 then Inr (- 1) else if ch = Ch 10 then Inr sel else Inl sel)
             0 (display (Menu title (take (nat n) items)) w))"

text \<open>The result is the text, or nothing when the input was cancelled.\<close>

definition tetrisui_input :: "string \<Rightarrow> string \<Rightarrow> nat \<Rightarrow> 'x terminal_scheme \<Rightarrow> (string option, 'x terminal_scheme) run" where
  "tetrisui_input title prompt out_len w =
     (if \<not> tm_newwin w 6 (max (tm_cols w - 10) 50) then Inr (None, w)
      else on_keys
             (\<lambda>ch buf.
                if ch = Ch 27 then Inr None
                else if is_enter ch then Inr (Some (take (out_len - 1) buf))
                else if is_rubout ch then Inl (butlast buf)
                else Inl (case typed_char ch of
                            Some c \<Rightarrow> if length buf < min (out_len - 1) (TETRISUI_FIELD_LEN - 1) then buf @ [c] else buf
                          | None \<Rightarrow> buf))
             [] (display (Box title [prompt]) w))"

text \<open>The fields are edited in place, also when the form is cancelled in the end.\<close>

definition tetrisui_form_ex ::
    "string \<Rightarrow> string list \<Rightarrow> string list \<Rightarrow> nat \<Rightarrow> string option \<Rightarrow> nat \<Rightarrow> 'x terminal_scheme \<Rightarrow> (bool \<times> string list, 'x terminal_scheme) run" where
  "tetrisui_form_ex title labels values n error start_field w =
     (if n = 0 \<or> TETRISUI_MAX_FIELDS < n then Inr ((False, values), w)
      else if \<not> tm_newwin w (int n * 2 + 4 + (if error = None then 0 else 1)) (max (tm_cols w - 6) 60) then Inr ((False, values), w)
      else on_keys
             (\<lambda>ch (field, values).
                let v = values ! field
                in if ch = Ch 27 then Inr (False, values)
                   else if is_enter ch then Inr (True, values)
                   else if ch = Ch 9 \<or> ch = KEY_DOWN then Inl ((field + 1) mod n, values)
                   else if ch = KEY_UP then Inl ((field + n - 1) mod n, values)
                   else if is_rubout ch then Inl (field, values[field := butlast v])
                   else Inl (field,
                          case typed_char ch of
                            Some c \<Rightarrow> if length v < TETRISUI_FIELD_LEN - 1 then values[field := v @ [c]] else values
                          | None \<Rightarrow> values))
             (if start_field < n then start_field else 0, values)
             (display (Box title (take n labels @ (case error of None \<Rightarrow> [] | Some e \<Rightarrow> [e]))) w))"

definition tetrisui_confirm :: "string \<Rightarrow> string \<Rightarrow> 'x terminal_scheme \<Rightarrow> (bool, 'x terminal_scheme) run" where
  "tetrisui_confirm title question w =
     (let width = max (int (length question) + 10) 50;
          width = (if tm_cols w - 4 < width then tm_cols w - 4 else width)
      in if \<not> tm_newwin w 6 width then Inr (False, w)
         else andthen
                (on_keys
                   (\<lambda>ch yes.
                      let yes = (if ch = KEY_LEFT \<or> ch = KEY_RIGHT then \<not> yes else yes)
                      in if ch = Ch 27 \<or> ch = Ch 113 then Inr False else if is_enter ch then Inr yes else Inl yes)
                   True w)
                (\<lambda>yes w. Inr (yes, display (Asked question yes) w)))"

definition tetrisui_message :: "string \<Rightarrow> string list \<Rightarrow> 'x terminal_scheme \<Rightarrow> (unit, 'x terminal_scheme) run" where
  "tetrisui_message title lines w =
     (if \<not> tm_newwin w (int (length lines) + 4) (max (tm_cols w - 10) 50) then Inr ((), w)
      else on_keys (\<lambda>ch _. Inr ()) () (display (Box title lines) w))"

definition tetrisui_list_view :: "string \<Rightarrow> string list \<Rightarrow> 'x terminal_scheme \<Rightarrow> (unit, 'x terminal_scheme) run" where
  "tetrisui_list_view title lines w =
     (let height = max (tm_rows w - 6) 6
      in if \<not> tm_newwin w height (max (tm_cols w - 10) 50) then Inr ((), w)
         else on_keys
                (\<lambda>ch top.
                   let visible = height - 3;
                       top = (if ch = KEY_DOWN \<and> top + visible < int (length lines) then top + 1
                              else if ch = KEY_UP \<and> 0 < top then top - 1 else top)
                   in if ch = Ch 113 \<or> ch = Ch 27 \<or> ch = Ch 10 then Inr () else Inl top)
                (0 :: int) (display (Page title lines) w))"

section \<open>What the widgets keep\<close>

text \<open>A property of the program's state that the terminal cannot break: it may use up keys and show things.\<close>

definition screen_safe :: "('x terminal_scheme \<Rightarrow> bool) \<Rightarrow> bool" where
  "screen_safe I \<longleftrightarrow> (\<forall>w. I w \<longrightarrow>
     (\<forall>ks. length ks \<le> length (tm_keys w) \<longrightarrow> I (w\<lparr>tm_keys := ks\<rparr>)) \<and>
     (\<forall>s. I (display s w)) \<and> (\<forall>app actor st. I (tetrisui_set_status app actor st w)))"

lemma screen_safe_keys: "screen_safe I \<Longrightarrow> I w \<Longrightarrow> length ks \<le> length (tm_keys w) \<Longrightarrow> I (w\<lparr>tm_keys := ks\<rparr>)"
  and screen_safe_display: "screen_safe I \<Longrightarrow> I w \<Longrightarrow> I (display s w)"
  and screen_safe_status: "screen_safe I \<Longrightarrow> I w \<Longrightarrow> I (tetrisui_set_status a b c w)"
  by (simp_all add: screen_safe_def)

lemma key_loop_ends:
  assumes "\<And>ch s. P s \<Longrightarrow> (case body ch s of Inl s' \<Rightarrow> P s' | Inr r \<Rightarrow> Q r)"
  shows "key_loop body s ks = Some (r, ks') \<Longrightarrow> P s \<Longrightarrow> Q r \<and> length ks' < length ks"
proof (induction ks arbitrary: s)
  case (Cons ch ks)
  from Cons.prems assms [of s ch] Cons.IH show ?case by (auto split: sum.splits intro: less_SucI)
qed simp

lemma on_keys_runs:
  assumes "\<And>ch s. P s \<Longrightarrow> (case body ch s of Inl s' \<Rightarrow> P s' | Inr r \<Rightarrow> Q r)" "screen_safe I" "I w" "P s"
    and "\<And>r w'. I w' \<Longrightarrow> Q r \<Longrightarrow> length (tm_keys w') < length (tm_keys w) \<Longrightarrow> R r w'"
  shows "runs (on_keys body s w) I R"
proof (cases "key_loop body s (tm_keys w)")
  case None
  then show ?thesis using screen_safe_keys [OF assms(2,3), of "[]"] by (simp add: on_keys_def)
next
  case (Some p)
  then obtain r ks where p: "key_loop body s (tm_keys w) = Some (r, ks)" by (cases p) auto
  have "Q r \<and> length ks < length (tm_keys w)" by (rule key_loop_ends [where P = P, OF assms(1) p assms(4)])
  then show ?thesis using screen_safe_keys [OF assms(2,3), of ks] assms(5) by (simp add: on_keys_def p)
qed

lemmas plain_keys = on_keys_runs [where P = "\<lambda>_. True" and Q = "\<lambda>_. True"]

lemma display_keys [simp]: "tm_keys (display s w) = tm_keys w"
  by (simp add: display_def)

lemma status_keys [simp]: "tm_keys (tetrisui_set_status a b c w) = tm_keys w"
  by (simp add: tetrisui_set_status_def)

lemma menu_runs:
  assumes "screen_safe I" "I w"
  shows "runs (tetrisui_menu title items n w) I (\<lambda>sel w'. I w' \<and> - 1 \<le> sel \<and> length (tm_keys w') \<le> length (tm_keys w) \<and>
    (0 \<le> sel \<longrightarrow> sel < n \<and> n \<le> 16 \<and> length (tm_keys w') < length (tm_keys w)))"
proof (cases "n \<le> 0 \<or> 16 < n \<or> \<not> tm_newwin w (n + 4) (max (tm_cols w - 10) 40)")
  case True
  then show ?thesis using assms(2) by (auto simp: tetrisui_menu_def TETRISUI_MAX_ITEMS_def)
next
  case False
  have "runs (on_keys
             (\<lambda>ch sel.
                let sel = (if ch = KEY_UP then (sel - 1 + n) mod n else if ch = KEY_DOWN then (sel + 1) mod n else sel)
                in if ch = Ch 113 \<or> ch = Ch 27 then Inr (- 1) else if ch = Ch 10 then Inr sel else Inl sel)
             0 (display (Menu title (take (nat n) items)) w)) I (\<lambda>sel w'. I w' \<and> - 1 \<le> sel \<and> length (tm_keys w') \<le> length (tm_keys w) \<and>
    (0 \<le> sel \<longrightarrow> sel < n \<and> n \<le> 16 \<and> length (tm_keys w') < length (tm_keys w)))"
    by (rule on_keys_runs [where P = "\<lambda>sel. 0 \<le> sel \<and> sel < n" and Q = "\<lambda>sel. - 1 \<le> sel \<and> sel < n", OF _ assms(1) screen_safe_display [OF assms]])
       (use False in \<open>auto simp: Let_def\<close>)
  then show ?thesis using False by (simp add: tetrisui_menu_def TETRISUI_MAX_ITEMS_def)
qed

definition printable :: "string \<Rightarrow> bool" where
  "printable s \<longleftrightarrow> list_all (\<lambda>c. 32 \<le> (of_char c :: nat) \<and> (of_char c :: nat) < 127) s"

lemma printable_simps [simp]: "printable []" "printable (s @ t) \<longleftrightarrow> printable s \<and> printable t"
  by (simp_all add: printable_def)

lemma printable_sub: "printable s \<Longrightarrow> set t \<subseteq> set s \<Longrightarrow> printable t"
  by (auto simp: printable_def list_all_iff)

lemma printable_cuts [simp]: "printable s \<Longrightarrow> printable (take n s)" "printable s \<Longrightarrow> printable (butlast s)" "printable s \<Longrightarrow> printable (snprintf_s n s)"
  by (auto elim!: printable_sub dest: in_set_takeD in_set_butlastD snprintf_s_set)

lemma typed_printable: "typed_char ch = Some c \<Longrightarrow> printable [c]"
  by (auto simp: typed_char_def printable_def of_char_of split: key.splits if_splits)

lemma input_runs:
  assumes "screen_safe I" "I w"
  shows "runs (tetrisui_input title prompt n w) I
    (\<lambda>r w'. I w' \<and> length (tm_keys w') \<le> length (tm_keys w) \<and>
       (\<forall>s. r = Some s \<longrightarrow> printable s \<and> length s \<le> n - 1 \<and> length (tm_keys w') < length (tm_keys w)))"
  unfolding tetrisui_input_def if_not_P if_P
  by (rule runs_if, use assms in simp,
      rule on_keys_runs [where P = printable and Q = "\<lambda>r. \<forall>s. r = Some s \<longrightarrow> printable s \<and> length s \<le> n - 1",
        OF _ assms(1) screen_safe_display [OF assms]])
     (use typed_printable in \<open>auto split: option.split\<close>)

definition field_ok :: "string \<Rightarrow> bool" where
  "field_ok s \<longleftrightarrow> printable s \<and> length s < TETRISUI_FIELD_LEN"

lemma field_ok_edit: "field_ok v \<Longrightarrow> field_ok (butlast v)" "field_ok v \<Longrightarrow> typed_char ch = Some c \<Longrightarrow> length v < TETRISUI_FIELD_LEN - 1 \<Longrightarrow> field_ok (v @ [c])"
  using typed_printable [of ch c] by (auto simp: field_ok_def)

text \<open>The fields named by \<open>K\<close> were printable when the form opened, and stay so.\<close>

lemma form_runs:
  assumes "screen_safe I" "I w"
  shows "runs (tetrisui_form_ex title labels values n error start w) I
    (\<lambda>r w'. I w' \<and> length (tm_keys w') \<le> length (tm_keys w) \<and> (fst r \<longrightarrow> length (tm_keys w') < length (tm_keys w)) \<and>
       (length values = n \<longrightarrow> (\<forall>i. i < n \<longrightarrow> K i \<longrightarrow> field_ok (values ! i)) \<longrightarrow>
          length (snd r) = n \<and> (\<forall>i. i < n \<longrightarrow> K i \<longrightarrow> field_ok (snd r ! i))))"
proof -
  let ?V = "\<lambda>vs. length values = n \<longrightarrow> (\<forall>i. i < n \<longrightarrow> K i \<longrightarrow> field_ok (values ! i)) \<longrightarrow>
    length vs = n \<and> (\<forall>i. i < n \<longrightarrow> K i \<longrightarrow> field_ok (vs ! i))"
  show ?thesis
    unfolding tetrisui_form_ex_def
    apply (rule runs_if, use assms in simp)
    apply (rule runs_if, use assms in simp)
    apply (rule on_keys_runs [where P = "\<lambda>(field, vs). field < n \<and> ?V vs" and Q = "\<lambda>r. ?V (snd r)",
        OF _ assms(1) screen_safe_display [OF assms]])
    subgoal for ch s
      by (cases s) (auto simp: Let_def nth_list_update intro!: field_ok_edit split: option.split)
    by auto
qed

lemma confirm_runs:
  assumes "screen_safe I" "I w"
  shows "runs (tetrisui_confirm title question w) I (\<lambda>r w'. I w' \<and> length (tm_keys w') \<le> length (tm_keys w))"
  unfolding tetrisui_confirm_def Let_def
  by (rule runs_if, use assms in simp, rule runs_andthen, rule plain_keys [OF _ assms, where R = "\<lambda>r w'. I w' \<and> length (tm_keys w') \<le> length (tm_keys w)"])
     (auto split: sum.split intro: screen_safe_display [OF assms(1)])

lemma confirm_asked:
  assumes "screen_safe I" "I w"
  shows "runs (tetrisui_confirm title question w) I (\<lambda>yes w'. I w' \<and> (yes \<longrightarrow> Asked question True \<in> set (drop (length (tm_shown w)) (tm_shown w'))))"
proof -
  have shown: "on_keys body s w = Inr (r, w') \<Longrightarrow> tm_shown w' = tm_shown w" for body :: "key \<Rightarrow> 'b \<Rightarrow> 'b + 'c" and s r w'
    by (auto simp: on_keys_def split: option.splits)
  have "runs (tetrisui_confirm title question w) (\<lambda>_. True) (\<lambda>yes w'. yes \<longrightarrow> Asked question True \<in> set (drop (length (tm_shown w)) (tm_shown w')))"
    unfolding tetrisui_confirm_def Let_def
    by (auto simp: runs_def andthen_def display_def split: sum.split dest!: shown)
  from runs_conj [OF confirm_runs [OF assms] this] show ?thesis by (rule runs_mono) simp
qed

lemma message_runs:
  assumes "screen_safe I" "I w"
  shows "runs (tetrisui_message title lines w) I (\<lambda>_ w'. I w' \<and> length (tm_keys w') \<le> length (tm_keys w))"
  unfolding tetrisui_message_def
  by (rule runs_if, use assms in simp, rule plain_keys [OF _ assms(1) screen_safe_display [OF assms]]) auto

lemma list_view_runs:
  assumes "screen_safe I" "I w"
  shows "runs (tetrisui_list_view title lines w) I (\<lambda>_ w'. I w' \<and> length (tm_keys w') \<le> length (tm_keys w))"
  unfolding tetrisui_list_view_def Let_def
  by (rule runs_if, use assms in simp, rule plain_keys [OF _ assms(1) screen_safe_display [OF assms]]) (auto split: sum.split)

end
