(* ===== verification/Wire_Types.thy ===== *)
theory Wire_Types
  imports Codec
begin

text \<open>
  The structures of the wire as the C types have them: what a structure of \<^verbatim>\<open>client.h\<close> and
  \<^verbatim>\<open>types.h\<close> can hold, and that the decoders of \<^verbatim>\<open>codec.c\<close> never put anything else into one.
\<close>

section \<open>What the structures can hold\<close>

definition in_buf :: "nat \<Rightarrow> string \<Rightarrow> bool" where
  "in_buf cap s \<longleftrightarrow> length s < cap"

definition array_typed :: "nat \<Rightarrow> ('a \<Rightarrow> bool) \<Rightarrow> 'a list \<Rightarrow> bool" where
  "array_typed n p xs \<longleftrightarrow> length xs = n \<and> list_all p xs"

definition count_typed :: "int \<Rightarrow> 'a list \<Rightarrow> bool" where
  "count_typed i xs \<longleftrightarrow> 0 \<le> i \<and> i \<le> int (length xs)"

definition int_typed :: "int \<Rightarrow> bool" where
  "int_typed i \<longleftrightarrow> int32_ok i"

definition config_typed :: "bb_config \<Rightarrow> bool" where
  "config_typed c \<longleftrightarrow> in_buf BB_TITLE_LEN (cfg_title c) \<and> array_typed BB_MAX_OPTIONS (in_buf BB_OPTION_LEN) (cfg_options c) \<and>
     count_typed (cfg_option_count c) (cfg_options c) \<and> array_typed BB_MAX_VOTERS (in_buf BB_CERT_LEN) (cfg_eligible c) \<and>
     count_typed (cfg_eligible_count c) (cfg_eligible c) \<and> in_buf BB_TIME_LEN (cfg_open_time c) \<and> in_buf BB_TIME_LEN (cfg_close_time c)"

definition election_typed :: "bb_election \<Rightarrow> bool" where
  "election_typed e \<longleftrightarrow> in_buf BB_ID_LEN (el_id e) \<and> in_buf BB_TITLE_LEN (el_title e) \<and>
     array_typed BB_MAX_OPTIONS (in_buf BB_OPTION_LEN) (el_options e) \<and> count_typed (el_option_count e) (el_options e) \<and>
     array_typed BB_MAX_VOTERS (in_buf BB_CERT_LEN) (el_eligible e) \<and> count_typed (el_eligible_count e) (el_eligible e) \<and>
     in_buf BB_TIME_LEN (el_open_time e) \<and> in_buf BB_TIME_LEN (el_close_time e) \<and> array_typed BB_MAX_OPTIONS int_typed (el_tally e)"

definition ballot_typed :: "bb_ballot \<Rightarrow> bool" where
  "ballot_typed b \<longleftrightarrow> in_buf BB_CERT_LEN (bal_cert_name b) \<and> in_buf BB_NONCE_LEN (bal_nonce b) \<and> length (bal_payload b) \<le> BB_CIPHERTEXT_MAX"

definition hash_typed :: "bb_ballot_hash \<Rightarrow> bool" where
  "hash_typed h \<longleftrightarrow> in_buf BB_HASH_LEN (bh_hash h) \<and> int_typed (bh_option_index h) \<and> int_typed (bh_version h) \<and> int_typed (bh_superseded h)"

definition request_typed :: "bcl_request \<Rightarrow> bool" where
  "request_typed r \<longleftrightarrow> in_buf BB_CERT_LEN (br_cert_name r) \<and> in_buf BB_ID_LEN (br_election_id r) \<and> ballot_typed (br_ballot r) \<and>
     in_buf BB_HASH_LEN (br_hash r) \<and> config_typed (br_config r)"

text \<open>All of a response but its two counts, which the decoder corrects only at the end.\<close>

definition response_body_typed :: "bcl_response \<Rightarrow> bool" where
  "response_body_typed r \<longleftrightarrow> election_typed (bp_election r) \<and> int_typed (bp_has_prior_ballot r) \<and> int_typed (bp_prior_ballot_version r) \<and>
     in_buf BB_HASH_LEN (rc_hash (bp_receipt r)) \<and> in_buf BB_TIME_LEN (rc_issued_at (bp_receipt r)) \<and>
     array_typed BB_MAX_OPTIONS int_typed (bp_tally r) \<and> array_typed BB_MAX_OPTIONS (in_buf BB_OPTION_LEN) (bp_options r) \<and>
     array_typed BB_MAX_VOTERS hash_typed (bp_hashes r) \<and> int_typed (bp_found r) \<and> int_typed (bp_found_option r) \<and>
     in_buf BB_OPTION_LEN (bp_found_option_name r)"

definition response_typed :: "bcl_response \<Rightarrow> bool" where
  "response_typed r \<longleftrightarrow> response_body_typed r \<and> count_typed (bp_option_count r) (bp_tally r) \<and>
     count_typed (bp_option_count r) (bp_options r) \<and> count_typed (bp_hash_count r) (bp_hashes r)"

section \<open>Writing into them\<close>

lemma in_buf_snprintf [simp]: "0 < cap \<Longrightarrow> in_buf cap (snprintf_s cap s)"
  by (simp add: in_buf_def)

lemma in_buf_Nil [simp]: "0 < cap \<Longrightarrow> in_buf cap []"
  by (simp add: in_buf_def)

lemma array_typed_update [simp]: "array_typed n p xs \<Longrightarrow> p x \<Longrightarrow> array_typed n p (xs[i := x])"
  by (auto simp: array_typed_def list_all_iff dest!: set_update_subset_insert [THEN subsetD])

lemma array_typed_replicate [simp]: "p x \<Longrightarrow> array_typed n p (replicate n x)"
  by (simp add: array_typed_def list_all_iff)

lemma count_typed_update [simp]: "count_typed i (xs[j := x]) \<longleftrightarrow> count_typed i xs"
  by (simp add: count_typed_def)

lemma count_typed_0 [simp]: "count_typed 0 xs"
  by (simp add: count_typed_def)

lemma atoi_typed [simp]: "int_typed (atoi s)"
  using wrap32_range by (simp add: int_typed_def atoi_def)

lemma int_typed_small [simp]: "int_typed 0" "int_typed 1" "int_typed (- 1)"
  by (simp_all add: int_typed_def)

lemma lens_pos [simp]: "0 < BB_TITLE_LEN" "0 < BB_OPTION_LEN" "0 < BB_CERT_LEN" "0 < BB_TIME_LEN" "0 < BB_ID_LEN" "0 < BB_HASH_LEN" "0 < BB_NONCE_LEN"
  by (simp_all add: bb_lens)

lemmas struct_typed = config_typed_def election_typed_def ballot_typed_def hash_typed_def request_typed_def

lemma zero_typed: "request_typed bcl_request0" "response_body_typed bcl_response0"
  by (simp_all add: struct_typed response_body_typed_def bcl_request0_def bcl_response0_def ballot0_def config0_def election0_def
      receipt0_def hash0_def)

lemma body_for_each_inv: "(\<And>k v c. P c \<Longrightarrow> P (f k v c)) \<Longrightarrow> P c \<Longrightarrow> P (body_for_each f body c)"
  unfolding body_for_each_def by (rule fold_invariant [where Q = "\<lambda>_. True"]) auto

section \<open>Requests\<close>

text \<open>While the lines of a new election are read, the counts are still those of the empty one.\<close>

definition create_typed :: "create_ctx \<Rightarrow> bool" where
  "create_typed c \<longleftrightarrow> config_typed (cc_cfg c) \<and> in_buf BB_ID_LEN (cc_id c) \<and> cc_opt_i c \<le> BB_MAX_OPTIONS \<and> cc_elig_i c \<le> BB_MAX_VOTERS"

lemma create_kv_typed: "create_typed c \<Longrightarrow> create_typed (create_kv k v c)"
  unfolding create_kv_def by (simp add: create_typed_def config_typed_def)

lemma decode_create_typed: "request_typed req \<Longrightarrow> request_typed (decode_create body req)"
  using body_for_each_inv [of create_typed create_kv "\<lparr>cc_cfg = br_config req, cc_id = br_election_id req, cc_opt_i = 0, cc_elig_i = 0\<rparr>" body,
      OF create_kv_typed]
  by (auto simp: decode_create_def Let_def request_typed_def create_typed_def config_typed_def count_typed_def array_typed_def)

lemma hex_bytes_length: "2 * length (snd (hex_bytes s)) \<le> length s"
  by (induction s rule: hex_bytes.induct) (auto split: option.split prod.split)

lemma ballot_kv_typed: "ballot_typed (fst c) \<Longrightarrow> ballot_typed (fst (ballot_kv k v c))"
  using hex_bytes_length [of v]
  by (auto simp: ballot_kv_def ballot_typed_def hex_decode_def split: prod.split bool.split if_splits)

lemma decode_ballot_typed: "request_typed req \<Longrightarrow> request_typed (snd (decode_ballot body req))"
  using body_for_each_inv [of "\<lambda>c. ballot_typed (fst c)" ballot_kv, OF ballot_kv_typed,
      of "((br_ballot req)\<lparr>bal_cert_name := snprintf_s BB_CERT_LEN (br_cert_name req)\<rparr>, False)" body]
  by (auto simp: decode_ballot_def Let_def request_typed_def ballot_typed_def split: prod.split)

lemma decode_check_typed: "request_typed req \<Longrightarrow> request_typed (snd (decode_check body req))"
  using body_for_each_inv [of "in_buf BB_HASH_LEN" hash_kv "br_hash req" body]
  by (simp add: decode_check_def Let_def request_typed_def hash_kv_def)

lemma path_id_typed: "path_election_id path = Some ident \<Longrightarrow> in_buf BB_ID_LEN ident"
  by (auto simp: path_election_id_def in_buf_def BB_ID_LEN_def Let_def split: if_splits)

lemma decode_request_typed: "request_typed (snd (bcl_decode_request h))"
proof (cases "op_from_method (rq_method h)")
  case None
  then show ?thesis by (simp add: bcl_decode_request_def zero_typed)
next
  case (Some op)
  let ?r = "case htttp_header_get (rq_headers h) ''Cert-Name'' of None \<Rightarrow> bcl_request0\<lparr>br_op := op\<rparr>
    | Some cert \<Rightarrow> bcl_request0\<lparr>br_op := op, br_cert_name := snprintf_s BB_CERT_LEN cert\<rparr>"
  have r: "request_typed ?r"
    using zero_typed(1) by (simp add: request_typed_def split: option.split)
  then have i: "request_typed (?r\<lparr>br_election_id := ident\<rparr>)" if "path_election_id (rq_path h) = Some ident" for ident
    using path_id_typed [OF that] by (simp add: request_typed_def)
  from Some r i show ?thesis
    by (simp add: bcl_decode_request_def Let_def decode_create_typed decode_ballot_typed decode_check_typed split: option.split)
qed

section \<open>Responses\<close>

lemma tally_loop_typed: "array_typed n int_typed t \<Longrightarrow> array_typed n int_typed (tally_loop i p t)"
  by (induction i p t rule: tally_loop.induct) (subst tally_loop.simps, simp)

lemma scan_int_typed: "scan_int s = Some (i, r) \<Longrightarrow> int_typed i"
  using wrap32_range by (auto simp: scan_int_def int_typed_def split: prod.splits if_splits)

lemma scan_row_typed: "scan_row v = Some row \<Longrightarrow> hash_typed row"
  by (auto simp: scan_row_def hash_typed_def in_buf_def BB_HASH_LEN_def Let_def bind_eq_Some_conv split: if_splits dest: scan_int_typed)

definition resp_typed :: "resp_ctx \<Rightarrow> bool" where
  "resp_typed c \<longleftrightarrow> response_body_typed (rx_resp c) \<and> rx_row_i c \<le> BB_MAX_VOTERS \<and> rx_result_opt_i c \<le> BB_MAX_OPTIONS"

lemma next_option_typed:
  "election_typed e \<Longrightarrow> el_option_count e < int BB_MAX_OPTIONS \<Longrightarrow> in_buf BB_OPTION_LEN s \<Longrightarrow>
   election_typed (e\<lparr>el_options := (el_options e)[i := s], el_option_count := el_option_count e + 1\<rparr>)"
  by (simp add: election_typed_def) (simp add: count_typed_def array_typed_def)

lemma response_kv_typed: "resp_typed c \<Longrightarrow> resp_typed (response_kv k v c)"
  unfolding response_kv_def Let_def
  by (simp add: resp_typed_def on_election_def on_receipt_def response_body_typed_def tally_loop_typed scan_row_typed next_option_typed
      split: option.split) (simp add: election_typed_def)

lemma decode_response_typed: "response_typed (snd (bcl_decode_response h))"
proof -
  let ?c = "body_for_each response_kv (rp_body h)
    \<lparr>rx_resp = bcl_response0, rx_row_i = 0, rx_result_opt_i = 0, rx_status_valid = False\<rparr>"
  have c: "resp_typed ?c"
    by (rule body_for_each_inv [where P = resp_typed, OF response_kv_typed]) (simp_all add: resp_typed_def zero_typed)
  then show ?thesis
    by (auto simp: bcl_decode_response_def Let_def resp_typed_def response_typed_def response_body_typed_def count_typed_def array_typed_def)
qed

text \<open>
  C40: whatever the other side sent, the structure a decoder hands on is a value of its C type:
  every text ends within its array, every array has its length, every number is an \<^verbatim>\<open>int\<close>, and
  every count stays within the array it counts.
\<close>

theorem decoded_structures_typed:
  "request_typed (snd (bcl_decode_request q)) \<and> response_typed (snd (bcl_decode_response p))"
  by (simp add: decode_request_typed decode_response_typed)

end
