(* ===== verification/Ballotu.thy ===== *)
theory Ballotu
  imports Client_Props Tetrisui Wire_Types
begin

text \<open>
  The voter's program, \<^verbatim>\<open>src/src/ballotu/ballotu.c\<close>: its checks of what is typed, its screens and
  its main loop, over the widgets of \<open>Tetrisui\<close> and the client library of \<open>Client\<close>. The program's
  variables are a record around the terminal; every request that leaves the program is noted in
  it. What the outside answers to the \<open>n\<close>-th call (the kernel, OpenSSL's random bytes, the clock,
  \<^verbatim>\<open>rand\<close>) is an argument.
\<close>

section \<open>The program's variables\<close>

record client = terminal +
  cl_ctx :: bcl_ctx
  cl_tick :: nat
  cl_sent :: "bcl_request list"

record bu = client +
  bw_session :: bu_session
  bw_host :: string
  bw_port :: int
  bw_ca_path :: string
  bw_where :: string

record ('pub, 'priv, 'cert) net =
  nt_ossl :: "('pub, 'priv, 'cert) ossl"
  nt_iv :: "nat \<Rightarrow> string option"
  nt_draws :: "nat \<Rightarrow> draws"
  nt_dial :: "nat \<Rightarrow> dial"
  nt_ctl :: "nat \<Rightarrow> ctl_dial"
  nt_time :: "nat \<Rightarrow> nat"
  nt_rand :: "nat \<Rightarrow> nat"

definition client_link ::
    "('pub, 'priv, 'cert) net \<Rightarrow> bcl_request \<Rightarrow> ('x client_scheme, bb_result \<times> bcl_response) state" where
  "client_link N req = State (\<lambda>w.
     case bcl_send (nt_ossl N) (nt_iv N (cl_tick w)) (nt_ctl N (cl_tick w)) req (cl_ctx w) of (rc, resp, ctx) \<Rightarrow>
       ((rc, resp), w\<lparr>cl_ctx := ctx, cl_tick := cl_tick w + 1, cl_sent := cl_sent w @ [req]\<rparr>))"

section \<open>Formats of \<^verbatim>\<open>printf\<close>\<close>

definition pad_right :: "nat \<Rightarrow> string \<Rightarrow> string" where
  "pad_right n s = s @ replicate (n - length s) CHR '' ''"

definition pad_left :: "char \<Rightarrow> nat \<Rightarrow> string \<Rightarrow> string" where
  "pad_left c n s = replicate (n - length s) c @ s"

fun hex_str :: "nat \<Rightarrow> string" where
  "hex_str n = (if n < 16 then [] else hex_str (n div 16)) @ [''0123456789abcdef'' ! (n mod 16)]"

declare hex_str.simps [simp del]

section \<open>Texts and checks\<close>

definition bu_result_text :: "bb_result \<Rightarrow> string" where
  "bu_result_text rc =
     (case rc of
        BB_OK \<Rightarrow> ''OK''
      | BB_ERR_NOT_OPEN \<Rightarrow> ''The election is not open.''
      | BB_ERR_CLOSED \<Rightarrow> ''Election closed mid-submit. Rejected by System.''
      | BB_ERR_NOT_ELIGIBLE \<Rightarrow> ''Your cert is not on the eligible-voter list.''
      | BB_ERR_CERT_INVALID \<Rightarrow> ''Cert rejected.''
      | BB_ERR_CERT_EXPIRED \<Rightarrow> ''Cert expired or forged.''
      | BB_ERR_REPLAY \<Rightarrow> ''That ballot was already submitted (replay).''
      | BB_ERR_BAD_OPTION \<Rightarrow> ''Selected option was out of range.''
      | BB_ERR_DECRYPT \<Rightarrow> ''Ballot could not be decrypted.''
      | BB_ERR_NOT_PUBLISHED \<Rightarrow> ''Results not available.''
      | BB_ERR_NOT_FOUND \<Rightarrow> ''Not found.''
      | BB_ERR_NOT_IMPLEMENTED \<Rightarrow> ''The backend storage is not wired up yet - try again once it is.''
      | BB_ERR_DB \<Rightarrow> ''Could not reach ballotd.''
      | _ \<Rightarrow> ''Rejected by System.'')"

datatype bu_screen = BU_SCREEN_OK | BU_SCREEN_QUIT | BU_SCREEN_DISCONNECTED

definition still_live :: "bu \<Rightarrow> bu_screen" where
  "still_live w = (if bcl_connected (cl_ctx w) then BU_SCREEN_OK else BU_SCREEN_DISCONNECTED)"

definition election_id_ok :: "string \<Rightarrow> bool" where
  "election_id_ok s \<longleftrightarrow> 0 < length s \<and> length s < BB_ID_LEN \<and>
     list_all (\<lambda>c. between CHR ''a'' CHR ''z'' c \<or> between CHR ''A'' CHR ''Z'' c \<or> between CHR ''0'' CHR ''9'' c \<or>
                   c = CHR ''-'' \<or> c = CHR ''_'') s"

text \<open>The hash as folded in place, or nothing when it is refused.\<close>

definition receipt_hash_ok :: "string \<Rightarrow> string option" where
  "receipt_hash_ok s =
     (let t = map (\<lambda>c. if between CHR ''A'' CHR ''F'' c then char_of (of_char c - 65 + 97 :: nat) else c) s
      in if length s \<noteq> BB_HASH_LEN - 1 then None
         else if list_all (\<lambda>c. between CHR ''0'' CHR ''9'' c \<or> between CHR ''a'' CHR ''f'' c) t then Some t
         else None)"

definition port_ok :: "string \<Rightarrow> int option" where
  "port_ok s =
     (if s = [] then None
      else case strtol s of (v, rest) \<Rightarrow> if rest \<noteq> [] \<or> v < 1 \<or> 65535 < v then None else Some v)"

lemma True_safe [simp]: "screen_safe (\<lambda>_. True)"
  by (simp add: screen_safe_def)

lemmas key_use = runs_Inr [OF input_runs [where I = "\<lambda>_. True", simplified]] runs_Inr [OF message_runs [where I = "\<lambda>_. True", simplified]]
  runs_Inr [OF menu_runs [where I = "\<lambda>_. True", simplified]] runs_Inr [OF form_runs [where I = "\<lambda>_. True", simplified]]

function ask_election_id :: "string \<Rightarrow> string \<Rightarrow> 'x terminal_scheme \<Rightarrow> (string option, 'x terminal_scheme) run" where
  "ask_election_id title prompt w =
     andthen (tetrisui_input title prompt BB_ID_LEN w) (\<lambda>r w.
       case r of
         None \<Rightarrow> Inr (None, w)
       | Some out \<Rightarrow>
           if out = [] then ask_election_id title prompt w
           else if \<not> election_id_ok out
           then andthen (tetrisui_message ''Invalid election ID''
                           [''Use letters, digits, '' @ [SQ] @ ''-'' @ [SQ] @ '' or '' @ [SQ] @ ''_'' @ [SQ] @ '' only (e.g. E-100),'', ''up to 15 characters.''] w)
                  (\<lambda>_ w. ask_election_id title prompt w)
           else Inr (Some out, w))"
  by pat_completeness auto
termination
  by (relation "measure (\<lambda>(_, _, w). length (tm_keys w))") (auto dest!: key_use)

function ask_receipt_hash :: "string \<Rightarrow> 'x terminal_scheme \<Rightarrow> (string option, 'x terminal_scheme) run" where
  "ask_receipt_hash title w =
     andthen (tetrisui_input title ''Enter your receipt hash:'' BB_HASH_LEN w) (\<lambda>r w.
       case r of
         None \<Rightarrow> Inr (None, w)
       | Some out \<Rightarrow>
           if out = [] then ask_receipt_hash title w
           else case receipt_hash_ok out of
                  None \<Rightarrow>
                    andthen (tetrisui_message ''Invalid receipt hash''
                               [''A receipt is exactly 64 hexadecimal characters -'', ''the hash shown when the ballot was cast.''] w)
                      (\<lambda>_ w. ask_receipt_hash title w)
                | Some hash \<Rightarrow> Inr (Some hash, w))"
  by pat_completeness auto
termination
  by (relation "measure (\<lambda>(_, w). length (tm_keys w))") (auto dest!: key_use)

declare ask_election_id.simps [simp del] ask_receipt_hash.simps [simp del]

section \<open>Connecting and logging in\<close>

text \<open>The message and the field it is about, by the answer of the login exchange.\<close>

definition credential_error :: "int option \<Rightarrow> string \<times> nat" where
  "credential_error status =
     (case status of
        None \<Rightarrow> (''Could not reach ballotd.'', 0)
      | Some code \<Rightarrow>
          if code = 400 then (''Rejected: malformed request.'', 0)
          else if code = 401 then (''Incorrect password.'', 1)
          else if code = 404 then (''No account with that username. Register instead?'', 0)
          else if code = 409 then (''That username is already taken - pick another.'', 0)
          else (''Could not reach the account service - try again shortly.'', 0))"

definition AUTH_PASS_MIN :: nat where "AUTH_PASS_MIN = 8"
definition AUTH_PASS_MAX :: nat where "AUTH_PASS_MAX = 128"

definition logged_in :: "string \<Rightarrow> bu \<Rightarrow> bu" where
  "logged_in name w =
     tetrisui_set_status ''ballotu'' name (bw_where w) (w\<lparr>bw_session := bu_session0\<lparr>bs_cert_name := snprintf_s BB_CERT_LEN name\<rparr>\<rparr>)"

function screen_credential_flow ::
    "('pub, 'priv, 'cert) net \<Rightarrow> bool \<Rightarrow> string list \<Rightarrow> string option \<Rightarrow> nat \<Rightarrow> bu \<Rightarrow> (bool, bu) run" where
  "screen_credential_flow N registering values error start_field w =
     andthen (tetrisui_form_ex (if registering then ''Register'' else ''Log in'') [''Username'', ''Password''] values 2 error start_field w)
       (\<lambda>r w. case r of (submitted, values) \<Rightarrow>
         if \<not> submitted then Inr (False, w)
         else case (if user_name_ok (values ! 0) then user_name_fold MAX_USER_NAME (values ! 0) else None) of
                None \<Rightarrow> screen_credential_flow N registering values (Some ''Username must be 1-15 characters: letters, digits, _ or -.'') 0 w
              | Some name \<Rightarrow>
                  if values ! 1 = [] then screen_credential_flow N registering values (Some ''Password is required.'') 1 w
                  else if registering \<and> (length (values ! 1) < AUTH_PASS_MIN \<or> AUTH_PASS_MAX < length (values ! 1))
                  then screen_credential_flow N registering values (Some ''Password must be 8-128 characters.'') 1 w
                  else case bcl_auth (nt_ossl N) (nt_iv N (cl_tick w)) (if registering then ''REGISTER'' else ''LOGIN'') name (values ! 1) (cl_ctx w) of
                         (status, ctx) \<Rightarrow>
                           let w = w\<lparr>cl_ctx := ctx, cl_tick := cl_tick w + 1\<rparr>
                           in if status = Some 200 then Inr (True, logged_in name w)
                              else screen_credential_flow N registering (values[1 := []]) (Some (fst (credential_error status)))
                                     (snd (credential_error status)) w)"
  by pat_completeness auto
termination
  by (relation "measure (\<lambda>(_, _, _, _, _, w). length (tm_keys w))") (auto dest!: key_use)

definition conn_text :: "bcl_conn \<Rightarrow> string" where
  "conn_text why =
     (case why of
        BCL_CONN_ERR_ADDRESS \<Rightarrow> ''That is not a dotted-quad IPv4 address (e.g. 127.0.0.1).''
      | BCL_CONN_ERR_REFUSED \<Rightarrow> ''No route to that address, or nothing is listening on that port.''
      | BCL_CONN_ERR_CERT \<Rightarrow> ''Reached a server, but its certificate failed CA verification.''
      | BCL_CONN_ERR_IO \<Rightarrow> ''Reached a server, which then closed the connection mid-handshake.''
      | BCL_CONN_ERR_PROTO \<Rightarrow> ''Reached a server, but the secure handshake failed.''
      | _ \<Rightarrow> ''Could not open a socket on this machine.'')"

definition connected_to :: "string \<Rightarrow> int \<Rightarrow> bu \<Rightarrow> bu" where
  "connected_to host port w =
     (let host = snprintf_s 64 host; place = snprintf_s 40 (host @ '':'' @ int_str port)
      in tetrisui_set_status ''ballotu'' ''(not logged in)'' place (w\<lparr>bw_host := host, bw_port := port, bw_where := place\<rparr>))"

function screen_connect ::
    "('pub, 'priv, 'cert) net \<Rightarrow> string \<Rightarrow> string \<Rightarrow> string option \<Rightarrow> nat \<Rightarrow> bu \<Rightarrow> (bool, bu) run" where
  "screen_connect N host_buf port_buf error start_field w =
     andthen (tetrisui_form_ex ''ballotu - connect'' [''Server IP'', ''Port''] [host_buf, port_buf] 2 error start_field w)
       (\<lambda>r w. case r of (submitted, values) \<Rightarrow>
         if \<not> submitted then Inr (False, w)
         else let host_buf = snprintf_s 64 (values ! 0); port_buf = snprintf_s 16 (values ! 1)
              in case port_ok port_buf of
                   None \<Rightarrow> screen_connect N host_buf port_buf (Some ''Port must be a number between 1 and 65535.'') 1 w
                 | Some port \<Rightarrow>
                     (case bcl_connect_why (nt_ossl N) (nt_draws N (cl_tick w)) (nt_dial N (cl_tick w)) host_buf port (bw_ca_path w) (cl_ctx w) of
                        (rc, why, ctx) \<Rightarrow>
                          let w = w\<lparr>cl_ctx := ctx, cl_tick := cl_tick w + 1\<rparr>
                          in if rc \<noteq> BB_OK then screen_connect N host_buf port_buf (Some (conn_text why)) 0 w
                             else Inr (True, connected_to host_buf port w)))"
  by pat_completeness auto
termination
  by (relation "measure (\<lambda>(_, _, _, _, _, w). length (tm_keys w))") (auto dest!: key_use)

declare screen_credential_flow.simps [simp del] screen_connect.simps [simp del]


section \<open>Voting\<close>

text \<open>\<^verbatim>\<open>snprintf(nonce, sizeof nonce, "%08lx%08x", time, rand)\<close>.\<close>

definition vote_nonce :: "nat \<Rightarrow> nat \<Rightarrow> string" where
  "vote_nonce now r = snprintf_s BB_NONCE_LEN (pad_left CHR ''0'' 8 (hex_str now) @ pad_left CHR ''0'' 8 (hex_str r))"

text \<open>Casting or updating: the voter is routed to the one that applies.\<close>

definition routed :: "bool \<Rightarrow> bu \<Rightarrow> (bool, bu) run" where
  "routed is_update w =
     (let action = bu_route_vote (Some (bw_session w))
      in if is_update \<and> action = BU_CAST
         then andthen (tetrisui_message ''Nothing to update'' [''You have no prior ballot yet.'', ''Routing you to Cast Vote (UC-3).''] w)
                (\<lambda>_ w. Inr (False, w))
         else if \<not> is_update \<and> action = BU_UPDATE
         then andthen (tetrisui_message ''Already voted'' [''You already have a final ballot.'', ''Routing you to Update Vote (UC-4).''] w)
                (\<lambda>_ w. Inr (True, w))
         else Inr (is_update, w))"

definition vote_title :: "bool \<Rightarrow> bu_session \<Rightarrow> string" where
  "vote_title is_update s =
     snprintf_s 96 (if is_update then ''Update vote (prior ballot v'' @ int_str (bs_ballot_version s) @ '' exists)''
                    else ''Cast vote: '' @ bs_title s)"

definition vote_question :: "bu_session \<Rightarrow> int \<Rightarrow> string" where
  "vote_question s pick = snprintf_s 96 (''Confirm vote for '' @ [SQ] @ bs_options s ! nat pick @ [SQ] @ ''?'')"

definition submit_vote :: "('pub, 'priv, 'cert) net \<Rightarrow> bool \<Rightarrow> int \<Rightarrow> bu \<Rightarrow> (bu_screen, bu) run" where
  "submit_vote N is_update pick w =
     (case run_state (bu_submit_vote (client_link N) (State_Monad.return ()) (bw_session w) pick
             (vote_nonce (nt_time N (cl_tick w)) (nt_rand N (cl_tick w)))) w of
        ((rc, s, receipt), w) \<Rightarrow>
          let w = w\<lparr>bw_session := s\<rparr>
          in if rc \<noteq> BB_OK then andthen (tetrisui_message ''Vote rejected'' [bu_result_text rc] w) (\<lambda>_ w. Inr (still_live w, w))
             else andthen (tetrisui_message ''Success''
                     [if is_update then ''Vote updated. New receipt issued:'' else ''Vote recorded. Receipt issued:'',
                      case receipt of None \<Rightarrow> [] | Some x \<Rightarrow> rc_hash x,
                      ''Keep this hash to check your vote later (UC-6).''] w)
                    (\<lambda>_ w. Inr (BU_SCREEN_OK, w)))"

definition cast_common :: "('pub, 'priv, 'cert) net \<Rightarrow> bool \<Rightarrow> bu \<Rightarrow> (bu_screen, bu) run" where
  "cast_common N is_update w =
     (if \<not> bs_joined (bw_session w)
      then andthen (tetrisui_message ''Not joined'' [''You must join an election first (UC-2).''] w) (\<lambda>_ w. Inr (BU_SCREEN_OK, w))
      else andthen (routed is_update w) (\<lambda>is_update w.
        andthen (tetrisui_menu (vote_title is_update (bw_session w)) (bs_options (bw_session w)) (bs_option_count (bw_session w)) w) (\<lambda>pick w.
          if pick < 0 then Inr (BU_SCREEN_OK, w)
          else andthen (tetrisui_confirm ''Confirm ballot'' (vote_question (bw_session w) pick) w) (\<lambda>yes w.
            if \<not> yes then Inr (BU_SCREEN_OK, w) else submit_vote N is_update pick w))))"

section \<open>Joining, results and receipts\<close>

definition joined_lines :: "bu_session \<Rightarrow> string list" where
  "joined_lines s =
     [snprintf_s 96 (''Joined '' @ bs_election_id s @ '': '' @ bs_title s), ''Ballot options:''] @
     map (\<lambda>i. snprintf_s 96 (''  '' @ nat_str (i + 1) @ '') '' @ bs_options s ! i)) [0..<nat (bs_option_count s)]"

definition after_join :: "('pub, 'priv, 'cert) net \<Rightarrow> string \<Rightarrow> bu_join_outcome \<Rightarrow> bu \<Rightarrow> (bu_screen, bu) run" where
  "after_join N i outcome w =
     (let s = bw_session w
      in case outcome of
           BU_JOIN_TIMEOUT \<Rightarrow>
             andthen (tetrisui_message ''Join failed'' [''Could not reach the election.'', bu_result_text BB_ERR_NOT_IMPLEMENTED] w)
               (\<lambda>_ w. Inr (still_live w, w))
         | BU_JOIN_NOT_FOUND \<Rightarrow>
             andthen (tetrisui_message ''Join failed'' [snprintf_s 64 (''Election '' @ [SQ] @ i @ [SQ] @ '' not found.'')] w)
               (\<lambda>_ w. Inr (BU_SCREEN_OK, w))
         | BU_JOIN_NOT_ELIGIBLE \<Rightarrow>
             andthen (tetrisui_message ''Join refused'' [''Your cert is not on the eligible-voter list'', ''for this election. Refused.''] w)
               (\<lambda>_ w. Inr (BU_SCREEN_OK, w))
         | BU_JOIN_NOT_OPEN \<Rightarrow>
             andthen (tetrisui_message ''Join refused'' [snprintf_s 96 (''Cannot join '' @ i @ '': election is not Open.''), ''Refused.''] w)
               (\<lambda>_ w. Inr (BU_SCREEN_OK, w))
         | BU_JOIN_ADMITTED \<Rightarrow>
             let w = tetrisui_set_status ''ballotu'' (bs_cert_name s) (snprintf_s 32 (bs_election_id s @ '': '' @ bs_title s)) w
             in if bs_has_ballot s \<noteq> 0
                then andthen (tetrisui_message ''Already voted'' [''You already have a ballot for this election.'', ''Routing you to Update Vote (UC-4).''] w)
                       (\<lambda>_ w. cast_common N True w)
                else andthen (tetrisui_message ''Join successful'' (joined_lines s) w) (\<lambda>_ w. Inr (BU_SCREEN_OK, w)))"

definition screen_join_election :: "('pub, 'priv, 'cert) net \<Rightarrow> bu \<Rightarrow> (bu_screen, bu) run" where
  "screen_join_election N w =
     andthen (ask_election_id ''Join election (UC-2)'' ''Enter election ID (e.g. E-100):'' w) (\<lambda>r w.
       case r of
         None \<Rightarrow> Inr (BU_SCREEN_OK, w)
       | Some i \<Rightarrow>
           (case run_state (bu_join (client_link N) (bw_session w) i (bs_cert_name (bw_session w))) w of
              ((outcome, s), w) \<Rightarrow> after_join N i outcome (w\<lparr>bw_session := s\<rparr>)))"

definition results_request :: "bcl_op \<Rightarrow> string \<Rightarrow> string \<Rightarrow> bcl_request" where
  "results_request op i cert =
     bcl_request0\<lparr>br_op := op, br_election_id := snprintf_s BB_ID_LEN i, br_cert_name := snprintf_s BB_CERT_LEN cert\<rparr>"

definition tally_bar :: "int \<Rightarrow> string" where
  "tally_bar n = replicate (nat (min n 20)) CHR ''#''"

definition result_lines :: "string \<Rightarrow> bcl_response \<Rightarrow> string list" where
  "result_lines i resp =
     [snprintf_s 96 (''Title: '' @ el_title (bp_election resp)), snprintf_s 96 (''ID: '' @ i), ''Tally:''] @
     map (\<lambda>k. snprintf_s 96 (''  '' @ pad_right 10 (bp_options resp ! k) @ '' '' @ pad_left CHR '' '' 3 (int_str (bp_tally resp ! k)) @ '' '' @
                 tally_bar (bp_tally resp ! k)))
       [0..<nat (bp_option_count resp)]"

definition bu_view_results :: "('pub, 'priv, 'cert) net \<Rightarrow> bu \<Rightarrow> (bu_screen, bu) run" where
  "bu_view_results N w =
     andthen (ask_election_id ''View results (UC-5)'' ''Enter election ID:'' w) (\<lambda>r w.
       case r of
         None \<Rightarrow> Inr (BU_SCREEN_OK, w)
       | Some i \<Rightarrow>
           (case run_state (client_link N (results_request BCL_RESULTS i (bs_cert_name (bw_session w)))) w of
              ((rc, resp), w) \<Rightarrow>
                let status = (if rc \<noteq> BB_OK then rc else bp_status resp)
                in if status \<noteq> BB_OK then andthen (tetrisui_message ''Not published'' [bu_result_text status] w) (\<lambda>_ w. Inr (still_live w, w))
                   else andthen (tetrisui_list_view ''Election results'' (result_lines i resp) w) (\<lambda>_ w. Inr (BU_SCREEN_OK, w))))"

definition check_request :: "bcl_op \<Rightarrow> string \<Rightarrow> string \<Rightarrow> bcl_request" where
  "check_request op i hash =
     bcl_request0\<lparr>br_op := op, br_election_id := snprintf_s BB_ID_LEN i, br_hash := snprintf_s BB_HASH_LEN hash\<rparr>"

definition checked :: "string \<Rightarrow> bb_result \<Rightarrow> bcl_response \<Rightarrow> bu \<Rightarrow> (bu_screen, bu) run" where
  "checked hash status resp w =
     (let line1 = snprintf_s 96 (''Receipt hash: '' @ hash)
      in case bu_classify_check status (bp_found resp) of
           BU_CHECK_COUNTED \<Rightarrow>
             andthen (tetrisui_message ''Verified''
                        [line1, snprintf_s 96 (''Your vote is option index '' @ int_str (bp_found_option resp) @ '' ('' @ bp_found_option_name resp @
                           '') and is included in the tally.'')] w)
               (\<lambda>_ w. Inr (BU_SCREEN_OK, w))
         | BU_CHECK_DROPPED \<Rightarrow>
             andthen (tetrisui_message ''Verification failed''
                        [line1, ''Hash not found among live (non-superseded) ballots.'', ''Verification FAILED - dropped ballot.'',
                         ''Please raise this with the Admin.''] w)
               (\<lambda>_ w. Inr (BU_SCREEN_OK, w))
         | BU_CHECK_UNAVAILABLE \<Rightarrow>
             andthen (tetrisui_message ''Verification unavailable'' [line1, bu_result_text status] w) (\<lambda>_ w. Inr (still_live w, w)))"

definition screen_check_vote :: "('pub, 'priv, 'cert) net \<Rightarrow> bu \<Rightarrow> (bu_screen, bu) run" where
  "screen_check_vote N w =
     andthen (ask_receipt_hash ''Check your vote (UC-6)'' w) (\<lambda>r w.
       case r of
         None \<Rightarrow> Inr (BU_SCREEN_OK, w)
       | Some hash \<Rightarrow>
           andthen (ask_election_id ''Check your vote (UC-6)'' ''Enter the election ID to check against:'' w) (\<lambda>r w.
             case r of
               None \<Rightarrow> Inr (BU_SCREEN_OK, w)
             | Some i \<Rightarrow>
                 (case run_state (client_link N (check_request BCL_CHECK i hash)) w of
                    ((rc, resp), w) \<Rightarrow> checked hash (if rc \<noteq> BB_OK then rc else bp_status resp) resp w)))"

section \<open>What the screens keep\<close>

text \<open>
  Before the voter is logged in: a property \<open>I\<close> of the program's variables that the terminal, the
  network and a new connection keep, and a property \<open>J\<close> that logging in establishes. It is used
  with the number of keys left, for the loops to end, and with what is known of the requests sent.
\<close>

locale bu_entry =
  fixes N :: "('pub, 'priv, 'cert) net" and I :: "bu \<Rightarrow> bool" and J :: "bu \<Rightarrow> bool"
  assumes safe: "screen_safe I"
    and safe': "screen_safe J"
    and net: "I w \<Longrightarrow> I (w\<lparr>cl_ctx := ctx, cl_tick := t\<rparr>)"
    and login: "I w \<Longrightarrow> user_name_ok name \<Longrightarrow> J (w\<lparr>bw_session := bu_session0\<lparr>bs_cert_name := snprintf_s BB_CERT_LEN (map fold_char name)\<rparr>\<rparr>)"
    and place: "I w \<Longrightarrow> I (w\<lparr>bw_host := h, bw_port := p, bw_where := x\<rparr>)"
begin

lemma form:
  "I w \<Longrightarrow> runs (tetrisui_form_ex title labels vs n error start w) I (\<lambda>r w'. I w' \<and> (fst r \<longrightarrow> length (tm_keys w') < length (tm_keys w)))"
  by (rule runs_mono [OF form_runs [OF safe, where K = "\<lambda>_. True"]]) simp_all

lemma logged_in_kept: "I w \<Longrightarrow> user_name_ok name \<Longrightarrow> J (logged_in (map fold_char name) w)"
  unfolding logged_in_def by (intro screen_safe_status [OF safe'] login)

lemma credentials: "I w \<Longrightarrow> runs (screen_credential_flow N registering vs error start w) I (\<lambda>ok w'. (ok \<longrightarrow> J w') \<and> (\<not> ok \<longrightarrow> I w'))"
proof (induction "length (tm_keys w)" arbitrary: w registering vs error start rule: less_induct)
  case less
  show ?case
    unfolding screen_credential_flow.simps [of N registering vs error start w]
    by (rule runs_andthen [OF form [OF less.prems]])
       (auto simp: Let_def user_name_fold_def split: option.split prod.split intro!: less.hyps net logged_in_kept)
qed

lemma connecting:
  "I w \<Longrightarrow> runs (screen_connect N host port error start w) I (\<lambda>ok w'. I w' \<and> (ok \<longrightarrow> length (tm_keys w') < length (tm_keys w)))"
proof (induction "length (tm_keys w)" arbitrary: w host port error start rule: less_induct)
  case less
  show ?case
    unfolding screen_connect.simps [of N host port error start w]
    by (rule runs_andthen [OF form [OF less.prems]])
       (auto simp: Let_def connected_to_def split: option.split prod.split
         intro!: runs_mono [OF less.hyps] net screen_safe_status [OF safe] place)
qed

end

text \<open>
  While voting: a property \<open>J\<close> that the terminal keeps, and the four kinds of requests a screen can
  make, under what the screen has checked by then.
\<close>

locale bu_voting =
  fixes N :: "('pub, 'priv, 'cert) net" and J :: "bu \<Rightarrow> bool"
  assumes safe: "screen_safe J"
    and join: "J w \<Longrightarrow> election_id_ok i \<Longrightarrow>
      run_state (bu_join (client_link N) (bw_session w) i (bs_cert_name (bw_session w))) w = ((outcome, s), w') \<Longrightarrow> J (w'\<lparr>bw_session := s\<rparr>)"
    and vote: "J w \<Longrightarrow> bs_joined (bw_session w) \<Longrightarrow> 0 \<le> pick \<Longrightarrow> pick < bs_option_count (bw_session w) \<Longrightarrow> pick < 16 \<Longrightarrow>
      run_state (bu_submit_vote (client_link N) (State_Monad.return ()) (bw_session w) pick (vote_nonce now r)) w = ((rc, s, receipt), w') \<Longrightarrow>
      J (w'\<lparr>bw_session := s\<rparr>)"
    and results: "J w \<Longrightarrow> election_id_ok i \<Longrightarrow>
      run_state (client_link N (results_request BCL_RESULTS i (bs_cert_name (bw_session w)))) w = (ans, w') \<Longrightarrow> J w'"
    and check: "J w \<Longrightarrow> election_id_ok i \<Longrightarrow> receipt_hash_ok typed = Some hash \<Longrightarrow>
      run_state (client_link N (check_request BCL_CHECK i hash)) w = (ans, w') \<Longrightarrow> J w'"
begin

lemma ask_id: "J w \<Longrightarrow> runs (ask_election_id title prompt w) J (\<lambda>r w'. J w' \<and> (\<forall>i. r = Some i \<longrightarrow> election_id_ok i))"
proof (induction "length (tm_keys w)" arbitrary: w rule: less_induct)
  case less
  show ?case
    unfolding ask_election_id.simps [of title prompt w]
    by (rule runs_andthen [OF input_runs [OF safe less.prems]])
       (auto split: option.split intro!: less.hyps runs_andthen [OF message_runs [OF safe]])
qed

lemma ask_hash: "J w \<Longrightarrow> runs (ask_receipt_hash title w) J (\<lambda>r w'. J w' \<and> (\<forall>h. r = Some h \<longrightarrow> (\<exists>s. receipt_hash_ok s = Some h)))"
proof (induction "length (tm_keys w)" arbitrary: w rule: less_induct)
  case less
  show ?case
    unfolding ask_receipt_hash.simps [of title w]
    by (rule runs_andthen [OF input_runs [OF safe less.prems]])
       (auto split: option.split intro!: less.hyps runs_andthen [OF message_runs [OF safe]])
qed

lemma say: "J w \<Longrightarrow> (\<And>w'. J w' \<Longrightarrow> runs (k () w') J Q) \<Longrightarrow> runs (andthen (tetrisui_message title lines w) k) J Q"
  by (rule runs_andthen [OF message_runs [OF safe]]) auto

lemma submitting:
  "J w \<Longrightarrow> bs_joined (bw_session w) \<Longrightarrow> 0 \<le> pick \<Longrightarrow> pick < bs_option_count (bw_session w) \<Longrightarrow> pick < 16 \<Longrightarrow>
   runs (submit_vote N is_update pick w) J (\<lambda>_ w'. J w')"
  unfolding submit_vote_def by (auto simp: Let_def split: prod.split intro!: say vote)

lemma session_fixed: "screen_safe (\<lambda>w. J w \<and> bw_session w = s)"
  using safe by (simp add: screen_safe_def display_def tetrisui_set_status_def)

lemma confirming:
  assumes "J w" "bs_joined (bw_session w)" "0 \<le> pick" "pick < bs_option_count (bw_session w)" "pick < 16"
  shows "runs (andthen (tetrisui_confirm title q w) (\<lambda>yes w. if \<not> yes then Inr (BU_SCREEN_OK, w) else submit_vote N u pick w)) J (\<lambda>_. J)"
proof (rule runs_andthen)
  show "runs (tetrisui_confirm title q w) J (\<lambda>_ w'. J w' \<and> bw_session w' = bw_session w)"
    by (rule runs_weaken [OF confirm_runs [OF session_fixed [of "bw_session w"]]]) (simp_all add: assms(1))
qed (use assms(2-) submitting in simp)

lemma choosing:
  assumes "J w" "bs_joined (bw_session w)"
  shows "runs (andthen (tetrisui_menu title (bs_options (bw_session w)) (bs_option_count (bw_session w)) w) (\<lambda>pick w.
      if pick < 0 then Inr (BU_SCREEN_OK, w)
      else andthen (tetrisui_confirm ''Confirm ballot'' (vote_question (bw_session w) pick) w) (\<lambda>yes w.
        if \<not> yes then Inr (BU_SCREEN_OK, w) else submit_vote N u pick w))) J (\<lambda>_. J)"
proof (rule runs_andthen)
  show "runs (tetrisui_menu title (bs_options (bw_session w)) (bs_option_count (bw_session w)) w) J
      (\<lambda>pick w'. J w' \<and> bw_session w' = bw_session w \<and> (0 \<le> pick \<longrightarrow> pick < bs_option_count (bw_session w) \<and> pick < 16))"
    by (rule runs_weaken [OF menu_runs [OF session_fixed [of "bw_session w"]]]) (auto simp: assms(1))
qed (use assms(2) confirming in simp)

lemma routing: "J w \<Longrightarrow> runs (routed u w) J (\<lambda>_ w'. J w' \<and> bw_session w' = bw_session w)"
  unfolding routed_def Let_def
  by (intro runs_if runs_andthen [OF runs_weaken [OF message_runs [OF session_fixed [of "bw_session w"]],
        where Q = "\<lambda>_ w'. J w' \<and> bw_session w' = bw_session w"]]) simp_all

lemma casting: "J w \<Longrightarrow> runs (cast_common N u w) J (\<lambda>_. J)"
  unfolding cast_common_def
  by (intro runs_if say runs_andthen [OF routing]) (simp, simp, assumption, rule choosing, simp_all)

lemma joined: "J w \<Longrightarrow> runs (after_join N i outcome w) J (\<lambda>_. J)"
  unfolding after_join_def Let_def by (auto split: bu_join_outcome.split intro!: say casting screen_safe_status [OF safe])

lemma joining: "J w \<Longrightarrow> runs (screen_join_election N w) J (\<lambda>_. J)"
  unfolding screen_join_election_def
  by (rule runs_andthen [OF ask_id]) (auto split: option.split prod.split intro!: joined dest: join [rotated -1])

lemma viewing: "J w \<Longrightarrow> runs (bu_view_results N w) J (\<lambda>_. J)"
  unfolding bu_view_results_def
  by (rule runs_andthen [OF ask_id])
     (auto simp: Let_def split: option.split prod.split intro!: say runs_andthen [OF list_view_runs [OF safe]] dest: results [rotated -1])

lemma told: "J w \<Longrightarrow> runs (checked hash st resp w) J (\<lambda>_. J)"
  unfolding checked_def Let_def by (auto split: bu_check_outcome.split intro!: say)

lemma check_sent:
  assumes "J w" "election_id_ok i" "receipt_hash_ok s = Some hash"
  shows "runs (case run_state (client_link N (check_request BCL_CHECK i hash)) w of
    ((rc, resp), w) \<Rightarrow> checked hash (if rc \<noteq> BB_OK then rc else bp_status resp) resp w) J (\<lambda>_. J)"
  using check [OF assms] by (auto split: prod.split intro!: told)

lemma checks: "J w \<Longrightarrow> runs (screen_check_vote N w) J (\<lambda>_. J)"
  unfolding screen_check_vote_def
  by (rule runs_andthen [OF ask_hash])
     (auto split: option.split intro!: runs_andthen [OF ask_id] check_sent)

end

text \<open>The screens only use up keys.\<close>

lemma keys_safe [simp]: "screen_safe (\<lambda>w. length (tm_keys w) \<le> n)"
  by (simp add: screen_safe_def)

lemma link_sent: "run_state (client_link N req) w = (ans, w') \<Longrightarrow> cl_sent w' = cl_sent w @ [req] \<and> tm_shown w' = tm_shown w"
  by (auto simp: client_link_def split: prod.splits)

lemma link_keys: "run_state (client_link N req) w = (ans, w') \<Longrightarrow> length (tm_keys w) \<le> n \<Longrightarrow> length (tm_keys w') \<le> n"
  by (auto simp: client_link_def split: prod.splits)

lemma join_link:
  assumes "run_state (bu_join (client_link N) s i name) w = ((outcome, s'), w')"
  obtains rc resp where "run_state (client_link N (join_request i name)) w = ((rc, resp), w')"
    "s' = joined_session outcome resp (snprintf_s BB_ID_LEN i) (snprintf_s BB_CERT_LEN name) s"
  using assms by (auto simp: bu_join_def Let_def split: prod.splits)

lemma vote_link:
  assumes "run_state (bu_submit_vote (client_link N) (State_Monad.return ()) s pick nonce) w = ((rc, s', receipt), w')"
    and "bs_joined s" "0 \<le> pick" "pick < 16"
  obtains rc' resp where "run_state (client_link N (vote_request s (snd (bu_encrypt_ballot pick nonce)))) w = ((rc', resp), w')"
    "bs_cert_name s' = bs_cert_name s" "bs_joined s' = bs_joined s" "bs_election_id s' = bs_election_id s"
proof -
  have "bu_route_vote (Some s) \<noteq> BU_MUST_JOIN" using assms(2) by (simp add: bu_route_vote_def)
  then show ?thesis using assms that
    by (auto simp: bu_submit_vote_def bu_encrypt_ballot_def Let_def split: prod.splits if_splits)
qed

interpretation entry_keys: bu_entry N "\<lambda>w. length (tm_keys w) \<le> n" "\<lambda>w. length (tm_keys w) \<le> n" for N n
  by unfold_locales simp_all

interpretation voting_keys: bu_voting N "\<lambda>w. length (tm_keys w) \<le> n" for N n
  by unfold_locales (auto elim!: join_link vote_link intro: link_keys)

section \<open>The main loop\<close>

function screen_auth :: "('pub, 'priv, 'cert) net \<Rightarrow> bu \<Rightarrow> (bool, bu) run" where
  "screen_auth N w =
     andthen (tetrisui_menu ''ballotu - login'' [''Log in'', ''Register''] 2 w) (\<lambda>pick w.
       if pick < 0 then Inr (False, w)
       else andthen (screen_credential_flow N (pick = 1) [[], []] None 0 w) (\<lambda>ok w.
         if ok then Inr (True, w) else screen_auth N w))"
  by pat_completeness auto
termination
  by (relation "measure (\<lambda>(_, w). length (tm_keys w))")
     (auto dest!: key_use(3) runs_Inr [OF entry_keys.credentials [OF order_refl]])

function voter_menu :: "('pub, 'priv, 'cert) net \<Rightarrow> bu \<Rightarrow> (bu_screen, bu) run" where
  "voter_menu N w =
     andthen (tetrisui_menu ''ballotu - voter menu''
                [''Join election (UC-2)'', ''Cast vote (UC-3)'', ''Update vote (UC-4)'', ''View results (UC-5)'', ''Check your vote (UC-6)'', ''Quit''] 6 w)
       (\<lambda>pick w.
         if pick < 0 \<or> pick = 5 then Inr (BU_SCREEN_QUIT, w)
         else andthen (if pick = 0 then screen_join_election N w
                       else if pick = 1 then cast_common N False w
                       else if pick = 2 then cast_common N True w
                       else if pick = 3 then bu_view_results N w
                       else screen_check_vote N w)
                (\<lambda>r w. if r = BU_SCREEN_DISCONNECTED then Inr (r, w) else voter_menu N w))"
  by pat_completeness auto
termination
  by (relation "measure (\<lambda>(_, w). length (tm_keys w))")
     (auto dest!: key_use(3) runs_Inr [OF voting_keys.joining [OF order_refl]] runs_Inr [OF voting_keys.casting [OF order_refl]]
        runs_Inr [OF voting_keys.viewing [OF order_refl]] runs_Inr [OF voting_keys.checks [OF order_refl]] split: if_splits)

declare screen_auth.simps [simp del] voter_menu.simps [simp del]

context bu_entry
begin

lemma auth: "I w \<Longrightarrow> runs (screen_auth N w) I (\<lambda>ok w'. (ok \<longrightarrow> J w') \<and> (\<not> ok \<longrightarrow> I w'))"
proof (induction "length (tm_keys w)" arbitrary: w rule: less_induct)
  case less
  show ?case
    unfolding screen_auth.simps [of N w]
    by (rule runs_andthen [OF menu_runs [OF safe less.prems]])
       (auto intro!: less.hyps runs_andthen [OF runs_conj [OF credentials entry_keys.credentials [OF order_refl]]])
qed

end

context bu_voting
begin

lemma menu: "J w \<Longrightarrow> runs (voter_menu N w) J (\<lambda>_. J)"
proof (induction "length (tm_keys w)" arbitrary: w rule: less_induct)
  case less
  have again: "runs (andthen m (\<lambda>r w. if r = BU_SCREEN_DISCONNECTED then Inr (r, w) else voter_menu N w)) J (\<lambda>_. J)"
    if "runs m J (\<lambda>_. J)" "runs m (\<lambda>w. length (tm_keys w) \<le> n) (\<lambda>_ w. length (tm_keys w) \<le> n)" "n < length (tm_keys w)" for m n
    by (rule runs_andthen [OF runs_conj [OF that(1,2)]]) (use less.hyps that(3) in auto)
  show ?case
    unfolding voter_menu.simps [of N w]
    by (rule runs_andthen [OF menu_runs [OF safe less.prems]])
       (auto intro!: again [OF joining voting_keys.joining [OF order_refl]] again [OF casting voting_keys.casting [OF order_refl]]
          again [OF viewing voting_keys.viewing [OF order_refl]] again [OF checks voting_keys.checks [OF order_refl]])
qed

end

function ballotu_loop :: "('pub, 'priv, 'cert) net \<Rightarrow> bu \<Rightarrow> (unit, bu) run" where
  "ballotu_loop N w =
     andthen (screen_connect N (bw_host w) (int_str (bw_port w)) None 0 w) (\<lambda>up w.
       if \<not> up then Inr ((), w)
       else andthen (screen_auth N w) (\<lambda>ok w.
         if \<not> ok
         then ballotu_loop N (tetrisui_set_status ''ballotu'' ''(not logged in)'' [] (w\<lparr>cl_ctx := bcl_disconnect (cl_ctx w)\<rparr>))
         else andthen (voter_menu N w) (\<lambda>r w.
           if r \<noteq> BU_SCREEN_DISCONNECTED then Inr ((), w)
           else let w = tetrisui_set_status ''ballotu'' ''(not logged in)'' []
                          (w\<lparr>cl_ctx := bcl_disconnect (cl_ctx w), bw_session := bu_session0\<rparr>)
                in andthen (tetrisui_confirm ''Disconnected'' ''The connection to ballotd is gone. Reconnect?'' w) (\<lambda>yes w.
                     if \<not> yes then Inr ((), w) else ballotu_loop N w))))"
  by pat_completeness auto
termination
  by (relation "measure (\<lambda>(_, w). length (tm_keys w))")
     (auto dest!: runs_Inr [OF entry_keys.connecting [OF order_refl]] runs_Inr [OF entry_keys.auth [OF order_refl]]
       runs_Inr [OF voting_keys.menu [OF order_refl]] runs_Inr [OF confirm_runs [OF True_safe TrueI]])

declare ballotu_loop.simps [simp del]

text \<open>The options as \<^verbatim>\<open>getopt\<close> delivers them; \<open>Inl\<close> is an exit code.\<close>

fun ballotu_args :: "(char \<times> string) list \<Rightarrow> bu \<Rightarrow> int + bu" where
  "ballotu_args [] w = Inr w"
| "ballotu_args ((c, arg) # os) w =
     (if c = CHR ''H'' then ballotu_args os (w\<lparr>bw_host := snprintf_s 64 arg\<rparr>)
      else if c = CHR ''p'' then (case port_ok arg of None \<Rightarrow> Inl 2 | Some p \<Rightarrow> ballotu_args os (w\<lparr>bw_port := p\<rparr>))
      else if c = CHR ''C'' then ballotu_args os (w\<lparr>bw_ca_path := snprintf_s 512 arg\<rparr>)
      else if c = CHR ''h'' then Inl 0
      else Inl 2)"

definition ballotu_main :: "('pub, 'priv, 'cert) net \<Rightarrow> (char \<times> string) list \<Rightarrow> terminal \<Rightarrow> (int, bu) run" where
  "ballotu_main N os t =
     (let w = terminal.extend t \<lparr>cl_ctx = bcl_create, cl_tick = 0, cl_sent = [], bw_session = bu_session0,
                bw_host = ''127.0.0.1'', bw_port = 7676, bw_ca_path = ''auth/cacsertificate.crt'', bw_where = []\<rparr>
      in case ballotu_args os w of
           Inl code \<Rightarrow> Inr (code, w)
         | Inr w \<Rightarrow>
             andthen (ballotu_loop N (tetrisui_set_status ''ballotu'' ''(not logged in)'' [] w))
               (\<lambda>_ w. Inr (0, w\<lparr>cl_ctx := bcl_disconnect (cl_ctx w)\<rparr>)))"

text \<open>The whole program: \<open>I\<close> holds whenever nobody is logged in, \<open>J\<close> while somebody is.\<close>

locale bu_program = entry: bu_entry N I J + voting: bu_voting N J for N :: "('pub, 'priv, 'cert) net" and I J +
  assumes inside: "J w \<Longrightarrow> I w"
    and logout: "J w \<Longrightarrow> I (w\<lparr>cl_ctx := ctx, bw_session := bu_session0\<rparr>)"
begin

lemma loop: "I w \<Longrightarrow> runs (ballotu_loop N w) I (\<lambda>_. I)"
proof (induction "length (tm_keys w)" arbitrary: w rule: less_induct)
  case less
  have off: "I (w'\<lparr>cl_ctx := ctx\<rparr>)" if "I w'" for w' ctx
    using entry.net [OF that, of "cl_tick w'" ctx] by simp
  have voted: "runs (voter_menu N w') I (\<lambda>_ w''. J w'' \<and> I w'' \<and> length (tm_keys w'') \<le> length (tm_keys w'))" if "J w'" for w'
    by (rule runs_weaken [OF runs_conj [OF voting.menu [OF that] voting_keys.menu [OF order_refl]]]) (auto intro: inside)
  show ?case
    unfolding ballotu_loop.simps [of N w] Let_def
    by (rule runs_andthen [OF entry.connecting [OF less.prems]])
       (auto intro!: less.hyps off screen_safe_status [OF entry.safe] logout intro: inside
         intro!: runs_andthen [OF runs_conj [OF entry.auth entry_keys.auth [OF order_refl]]] runs_andthen [OF voted]
           runs_andthen [OF confirm_runs [OF entry.safe]])
qed

end

section \<open>The requests of a voter\<close>

definition account :: "string \<Rightarrow> bool" where
  "account name \<longleftrightarrow> user_name_ok name \<and> map fold_char name = name"

text \<open>
  What every request of the program is: a well-formed request of a voter's operation, under a
  legal account name unless it is a check, and with one option in a ballot.
\<close>

definition ballotu_request :: "bcl_request \<Rightarrow> bool" where
  "ballotu_request req \<longleftrightarrow> request_ok req \<and> is_voter_op (br_op req) \<and> (br_op req \<noteq> BCL_CHECK \<longrightarrow> account (br_cert_name req)) \<and>
     (br_op req = BCL_CAST \<or> br_op req = BCL_UPDATE \<longrightarrow>
        bal_cert_name (br_ballot req) = br_cert_name req \<and> (\<exists>k < 16. bal_payload (br_ballot req) = [word_of_nat k]))"

lemma name_char_field: "user_name_char_ok c \<Longrightarrow> 33 \<le> (of_char c :: nat) \<and> (of_char c :: nat) \<le> 126 \<and> c \<noteq> CHR ''/''"
  by (auto simp: user_name_char_ok_def between_def)

lemma account_field: "account name \<Longrightarrow> length name \<le> 15 \<and> valid_field sp name \<and> snprintf_s BB_CERT_LEN name = name"
  using name_char_field by (auto simp: account_def user_name_ok_def name_lens valid_field_def list_all_iff BB_CERT_LEN_def)

lemma account_folded: "user_name_ok name \<Longrightarrow> account (map fold_char name)"
  using user_name_ok_fold by (simp add: account_def)

lemma election_id_name: "election_id_ok i \<longleftrightarrow> user_name_ok i"
  by (auto simp: election_id_ok_def user_name_ok_def name_lens BB_ID_LEN_def list_all_iff user_name_char_ok_def Suc_le_eq)

lemma election_id_field:
  "election_id_ok i \<Longrightarrow> i \<noteq> [] \<and> length i \<le> 15 \<and> valid_field sp i \<and> CHR ''/'' \<notin> set i \<and> snprintf_s BB_ID_LEN i = i"
  using name_char_field by (auto simp: election_id_name user_name_ok_def name_lens valid_field_def list_all_iff BB_ID_LEN_def)

lemma hash_text: 
  assumes "receipt_hash_ok s = Some hash" shows "hash \<noteq> [] \<and> text_ok 64 hash \<and> snprintf_s BB_HASH_LEN hash = hash"
proof -
  have "length hash = 64" "list_all (\<lambda>c. between CHR ''0'' CHR ''9'' c \<or> between CHR ''a'' CHR ''f'' c) hash"
    using assms by (auto simp: receipt_hash_ok_def Let_def BB_HASH_LEN_def split: if_splits)
  then show ?thesis by (auto simp: text_ok_def list_all_iff between_def BB_HASH_LEN_def)
qed

lemma hex_str_digits: "set (hex_str n) \<subseteq> set ''0123456789abcdef''"
proof (induction n rule: hex_str.induct)
  case (1 n)
  have "''0123456789abcdef'' ! (n mod 16) \<in> set ''0123456789abcdef''" by (rule nth_mem) simp
  with 1 show ?case unfolding hex_str.simps [of n] by auto
qed

lemma nonce_text: "text_ok 32 (vote_nonce now r)"
proof -
  have "set (vote_nonce now r) \<subseteq> set ''0123456789abcdef''"
    using hex_str_digits [of now] hex_str_digits [of r]
    by (auto simp: vote_nonce_def pad_left_def dest!: snprintf_s_set)
  then have "NUL \<notin> set (vote_nonce now r) \<and> CR \<notin> set (vote_nonce now r) \<and> NL \<notin> set (vote_nonce now r)" by auto
  then show ?thesis by (simp add: text_ok_def vote_nonce_def snprintf_s_def BB_NONCE_LEN_def)
qed

lemma plain_request_ok:
  assumes "cert = [] \<or> account cert" "election_id_ok i" "op \<noteq> BCL_CHECK" "op \<noteq> BCL_ADMIN_CHECK"
  shows "request_ok (bcl_request0\<lparr>br_op := op, br_election_id := i, br_cert_name := cert\<rparr>)"
  using assms(1,3,4) election_id_field [OF assms(2), of False] account_field [of cert True]
  by (auto simp: request_ok_def bcl_request0_def ballot0_def config0_ok valid_field_def)

lemma join_request_ok: "account name \<Longrightarrow> election_id_ok i \<Longrightarrow> ballotu_request (join_request i name)"
  using plain_request_ok [of name i BCL_JOIN] account_field [of name] election_id_field [of i]
  by (simp add: ballotu_request_def join_request_def is_voter_op_def)

lemma results_request_ok: "account name \<Longrightarrow> election_id_ok i \<Longrightarrow> ballotu_request (results_request BCL_RESULTS i name)"
  using plain_request_ok [of name i BCL_RESULTS] account_field [of name] election_id_field [of i]
  by (simp add: ballotu_request_def results_request_def is_voter_op_def)

lemma check_request_ok: "election_id_ok i \<Longrightarrow> receipt_hash_ok s = Some hash \<Longrightarrow> ballotu_request (check_request BCL_CHECK i hash)"
  using election_id_field [of i False] hash_text [of s hash]
  by (auto simp: ballotu_request_def check_request_def is_voter_op_def request_ok_def bcl_request0_def ballot0_def config0_ok valid_field_def)

lemma vote_request_ok:
  assumes "account (bs_cert_name s)" "election_id_ok (bs_election_id s)" "0 \<le> pick" "pick < 16"
  shows "ballotu_request (vote_request s (snd (bu_encrypt_ballot pick (vote_nonce now r))))"
proof -
  have b: "snd (bu_encrypt_ballot pick (vote_nonce now r)) = ballot0\<lparr>bal_payload := [word_of_nat (nat pick)], bal_nonce := vote_nonce now r\<rparr>"
    using assms(3,4) nonce_text [of now r] by (simp add: bu_encrypt_ballot_def text_ok_def BB_NONCE_LEN_def)
  have "nat pick < 16" using assms(4) by simp
  then show ?thesis unfolding b
    using account_field [OF assms(1), of True] election_id_field [OF assms(2), of False] nonce_text [of now r] assms(1)
    by (auto simp: ballotu_request_def vote_request_def is_voter_op_def request_ok_def bcl_request0_def ballot0_def config0_ok)
qed

definition sent_ok :: "bu \<Rightarrow> bool" where
  "sent_ok w \<longleftrightarrow> list_all ballotu_request (cl_sent w)"

definition voting_ok :: "bu \<Rightarrow> bool" where
  "voting_ok w \<longleftrightarrow> sent_ok w \<and> account (bs_cert_name (bw_session w)) \<and>
     (bs_joined (bw_session w) \<longrightarrow> election_id_ok (bs_election_id (bw_session w)))"

lemma sent_link: "run_state (client_link N req) w = (ans, w') \<Longrightarrow> sent_ok w \<Longrightarrow> ballotu_request req \<Longrightarrow> sent_ok w'"
  by (auto simp: client_link_def sent_ok_def split: prod.splits)

lemma session_link: "run_state (client_link N req) w = (ans, w') \<Longrightarrow> bw_session w' = bw_session w"
  by (auto simp: client_link_def split: prod.splits)

lemma joined_ok:
  assumes "account (bs_cert_name s)" "bs_joined s \<longrightarrow> election_id_ok (bs_election_id s)" "election_id_ok i"
    and "s' = joined_session outcome resp (snprintf_s BB_ID_LEN i) (snprintf_s BB_CERT_LEN (bs_cert_name s)) s"
  shows "account (bs_cert_name s') \<and> (bs_joined s' \<longrightarrow> election_id_ok (bs_election_id s'))"
  using assms account_field [OF assms(1), of True] election_id_field [OF assms(3), of True]
  by (cases outcome) (simp_all add: joined_session_def Let_def)

interpretation sent: bu_program N sent_ok voting_ok for N
proof unfold_locales
  show "screen_safe sent_ok" "screen_safe voting_ok"
    by (simp_all add: screen_safe_def sent_ok_def voting_ok_def display_def tetrisui_set_status_def)
next
  fix w :: bu and name
  assume "sent_ok w" "user_name_ok name"
  then show "voting_ok (w\<lparr>bw_session := bu_session0\<lparr>bs_cert_name := snprintf_s BB_CERT_LEN (map fold_char name)\<rparr>\<rparr>)"
    using account_field [OF account_folded, of name True] account_folded [of name]
    by (simp add: voting_ok_def sent_ok_def bu_session0_def)
next
  fix w w' :: bu and i outcome s
  assume "voting_ok w" "election_id_ok i"
    and "run_state (bu_join (client_link N) (bw_session w) i (bs_cert_name (bw_session w))) w = ((outcome, s), w')"
  then show "voting_ok (w'\<lparr>bw_session := s\<rparr>)"
    using joined_ok [of "bw_session w" i] by (auto elim!: join_link dest!: sent_link simp: join_request_ok voting_ok_def sent_ok_def)
next
  fix w w' :: bu and pick now r rc s receipt
  assume "voting_ok w" "bs_joined (bw_session w)" "0 \<le> pick" "pick < 16"
    and "run_state (bu_submit_vote (client_link N) (State_Monad.return ()) (bw_session w) pick (vote_nonce now r)) w = ((rc, s, receipt), w')"
  then show "voting_ok (w'\<lparr>bw_session := s\<rparr>)"
    by (auto elim!: vote_link dest!: sent_link simp: vote_request_ok voting_ok_def sent_ok_def)
qed (auto simp: voting_ok_def results_request_ok check_request_ok sent_ok_def bu_session0_def dest: sent_link session_link)

lemma args_sent: "ballotu_args os w = Inr w' \<Longrightarrow> cl_sent w' = cl_sent w"
  by (induction os w rule: ballotu_args.induct) (auto split: if_splits option.splits)

text \<open>The state of the program before and after a ballot is sent, seen from \<open>w0\<close>.\<close>

definition calm :: "bu \<Rightarrow> bu \<Rightarrow> bool" where
  "calm w0 w \<longleftrightarrow> length (tm_shown w0) \<le> length (tm_shown w) \<and> cl_sent w = cl_sent w0 \<and> bw_session w = bw_session w0"

definition agreed :: "bu \<Rightarrow> int \<Rightarrow> bu \<Rightarrow> bool" where
  "agreed w0 pick w \<longleftrightarrow> Asked (vote_question (bw_session w0) pick) True \<in> set (drop (length (tm_shown w0)) (tm_shown w))"

definition consented :: "bu \<Rightarrow> bu \<Rightarrow> bool" where
  "consented w0 w \<longleftrightarrow> (\<exists>pick now rnd. 0 \<le> pick \<and> pick < bs_option_count (bw_session w0) \<and>
     cl_sent w = cl_sent w0 @ [vote_request (bw_session w0) (snd (bu_encrypt_ballot pick (vote_nonce now rnd)))] \<and> agreed w0 pick w)"

lemma calm_safe: "screen_safe (calm w0)" "screen_safe (consented w0)"
  by (auto simp: screen_safe_def calm_def consented_def agreed_def display_def tetrisui_set_status_def)

lemma routed_calm: "calm w0 w \<Longrightarrow> runs (routed u w) (calm w0) (\<lambda>_. calm w0)"
  unfolding routed_def Let_def by (auto intro!: runs_andthen [OF message_runs [OF calm_safe(1)]])

lemma submit_consented:
  assumes "calm w0 w" "agreed w0 pick w" "bs_joined (bw_session w0)" "0 \<le> pick" "pick < bs_option_count (bw_session w0)" "pick < 16"
  shows "runs (submit_vote N u pick w) (consented w0) (\<lambda>_. consented w0)"
proof -
  have "consented w0 (w'\<lparr>bw_session := s\<rparr>)"
    if sub: "run_state (bu_submit_vote (client_link N) (State_Monad.return ()) (bw_session w) pick (vote_nonce now rnd)) w = ((rc, s, receipt), w')"
    for now rnd rc s receipt w'
  proof -
    have w: "bw_session w = bw_session w0" "cl_sent w = cl_sent w0" using assms(1) by (simp_all add: calm_def)
    from vote_link [OF sub _ assms(4,6)] assms(3) w obtain rc' resp where
      "run_state (client_link N (vote_request (bw_session w0) (snd (bu_encrypt_ballot pick (vote_nonce now rnd))))) w = ((rc', resp), w')" by metis
    from link_sent [OF this] have "cl_sent w' = cl_sent w0 @ [vote_request (bw_session w0) (snd (bu_encrypt_ballot pick (vote_nonce now rnd)))]"
      "tm_shown w' = tm_shown w" by (simp_all add: w(2))
    with assms(2,4,5) show ?thesis by (auto simp: consented_def agreed_def)
  qed
  then show ?thesis unfolding submit_vote_def
    by (auto simp: Let_def split: prod.split intro!: runs_andthen [OF message_runs [OF calm_safe(2)]])
qed

lemma confirm_consented:
  assumes "calm w0 w" "bs_joined (bw_session w0)" "0 \<le> pick" "pick < bs_option_count (bw_session w0)" "pick < 16"
  shows "runs (andthen (tetrisui_confirm title (vote_question (bw_session w) pick) w) (\<lambda>yes w.
      if \<not> yes then Inr (BU_SCREEN_OK, w) else submit_vote N u pick w))
    (\<lambda>w. calm w0 w \<or> consented w0 w) (\<lambda>_ w. calm w0 w \<or> consented w0 w)"
proof (rule runs_andthen, rule runs_weaken [OF confirm_asked [OF calm_safe(1) assms(1)]])
  fix yes w'
  assume a: "calm w0 w' \<and> (yes \<longrightarrow> agreed w0 pick w')"
  show "runs (if \<not> yes then Inr (BU_SCREEN_OK, w') else submit_vote N u pick w')
      (\<lambda>w. calm w0 w \<or> consented w0 w) (\<lambda>_ w. calm w0 w \<or> consented w0 w)"
    using a by (auto intro!: runs_weaken [OF submit_consented [OF _ _ assms(2-)]])
next
  fix yes w'
  assume "calm w0 w' \<and> (yes \<longrightarrow> Asked (vote_question (bw_session w) pick) True \<in> set (drop (length (tm_shown w)) (tm_shown w')))"
  then show "calm w0 w' \<and> (yes \<longrightarrow> agreed w0 pick w')"
    using assms(1) set_drop_subset_set_drop [of "length (tm_shown w0)" "length (tm_shown w)" "tm_shown w'"] by (auto simp: agreed_def calm_def)
qed simp

lemma cast_consented:
  "runs (cast_common N u w0) (\<lambda>w. calm w0 w \<or> consented w0 w) (\<lambda>_ w. calm w0 w \<or> consented w0 w)"
proof (cases "bs_joined (bw_session w0)")
  case True
  let ?K = "\<lambda>w. calm w0 w \<or> consented w0 w"
  have "runs (andthen (tetrisui_menu title (bs_options (bw_session w)) (bs_option_count (bw_session w)) w) (\<lambda>pick w.
      if pick < 0 then Inr (BU_SCREEN_OK, w)
      else andthen (tetrisui_confirm ''Confirm ballot'' (vote_question (bw_session w) pick) w) (\<lambda>yes w.
        if \<not> yes then Inr (BU_SCREEN_OK, w) else submit_vote N u pick w))) ?K (\<lambda>_. ?K)" if w: "calm w0 w" for title u w
  proof (rule runs_andthen, rule runs_weaken [OF menu_runs [OF calm_safe(1) w]])
    fix pick w'
    assume "calm w0 w' \<and> (0 \<le> pick \<longrightarrow> pick < bs_option_count (bw_session w0) \<and> pick < 16)"
    then show "runs (if pick < 0 then Inr (BU_SCREEN_OK, w')
      else andthen (tetrisui_confirm ''Confirm ballot'' (vote_question (bw_session w') pick) w') (\<lambda>yes w.
        if \<not> yes then Inr (BU_SCREEN_OK, w) else submit_vote N u pick w)) ?K (\<lambda>_. ?K)"
      using True by (auto intro!: confirm_consented)
  qed (use w in \<open>auto simp: calm_def\<close>)
  moreover have "runs (routed u w0) ?K (\<lambda>_. calm w0)"
    by (rule runs_weaken [OF routed_calm [of w0 w0]]) (simp_all add: calm_def)
  ultimately show ?thesis unfolding cast_common_def using True
    by (simp only: not_True_eq_False if_False) (rule runs_andthen; assumption)
next
  case False
  have m: "runs (tetrisui_message title lines w0) (\<lambda>w. calm w0 w \<or> consented w0 w) (\<lambda>_. calm w0)" for title lines
    by (rule runs_weaken [OF message_runs [OF calm_safe(1) [of w0]]]) (simp_all add: calm_def)
  show ?thesis unfolding cast_common_def using False by (auto intro!: runs_andthen [OF m])
qed

section \<open>Properties\<close>


text \<open>
  C38: no ballot leaves the program without the voter's agreement: if the voting screen sent
  anything, it is one ballot for one of the options of the joined election, and the voter was
  asked, and answered yes, whether to vote for just that option.
\<close>

theorem vote_needs_consent:
  assumes "cast_common N u w = Inl w' \<or> cast_common N u w = Inr (r, w')" "cl_sent w' \<noteq> cl_sent w"
  shows "\<exists>pick now rnd. 0 \<le> pick \<and> pick < bs_option_count (bw_session w) \<and>
    cl_sent w' = cl_sent w @ [vote_request (bw_session w) (snd (bu_encrypt_ballot pick (vote_nonce now rnd)))] \<and>
    Asked (vote_question (bw_session w) pick) True \<in> set (drop (length (tm_shown w)) (tm_shown w'))"
proof -
  have "calm w0 w \<Longrightarrow> cl_sent w = cl_sent w0" for w0 w by (simp add: calm_def)
  then have "consented w w'" using assms cast_consented [of N u w] by auto
  then show ?thesis by (auto simp: consented_def agreed_def)
qed

definition demo_net :: "(string, string, string) net" where
  "demo_net = \<lparr>nt_ossl = ref_ssl, nt_iv = (\<lambda>_. None), nt_draws = (\<lambda>_. demo_draws),
     nt_dial = (\<lambda>_. \<lparr>dl_socket = False, dl_inet_pton = (\<lambda>_. False), dl_connect = (\<lambda>_ _. False), dl_sock = \<lparr>sk_in = [], sk_evs = [], sk_sent = []\<rparr>\<rparr>),
     nt_ctl = (\<lambda>_. no_dial), nt_time = (\<lambda>_. 1767225600), nt_rand = (\<lambda>_. 7)\<rparr>"

definition demo_bu :: bu where
  "demo_bu = \<lparr>tm_keys = [KEY_DOWN, Ch 10, Ch 10, Ch 32], tm_cols = 80, tm_rows = 24, tm_newwin = (\<lambda>_ _. True), tm_status = ([], [], []), tm_shown = [],
     cl_ctx = bcl_create, cl_tick = 0, cl_sent = [],
     bw_session = bu_session0\<lparr>bs_joined := True, bs_cert_name := ''alice'', bs_election_id := ''E-100'',
       bs_options := [''Yes'', ''No''] @ replicate 14 [], bs_option_count := 2\<rparr>,
     bw_host = [], bw_port = 0, bw_ca_path = [], bw_where = []\<rparr>"

theorem vote_needs_consent_witness:
  "\<exists>w'. cast_common demo_net False demo_bu = Inr (BU_SCREEN_DISCONNECTED, w') \<and> cl_sent w' \<noteq> [] \<and>
    (\<exists>pick. pick < 2 \<and> Asked (vote_question (bw_session demo_bu) pick) True \<in> set (tm_shown w'))"
proof -
  have ev: "(case cast_common demo_net False demo_bu of Inl w \<Rightarrow> False | Inr (r, w) \<Rightarrow> r = BU_SCREEN_DISCONNECTED \<and> cl_sent w \<noteq> [])"
    by (simp add: cast_common_def routed_def bu_route_vote_def tetrisui_menu_def tetrisui_confirm_def tetrisui_message_def on_keys_def display_def
      submit_vote_def bu_submit_vote_def bu_encrypt_ballot_def client_link_def bcl_send_def client_admin_op_def vote_request_def
      send_via_session_def is_enter_def still_live_def bcl_connected_def demo_bu_def bcl_create_def bu_session0_def bcl_request0_def
      TETRISUI_MAX_ITEMS_def Let_def)
  then obtain w' where w': "cast_common demo_net False demo_bu = Inr (BU_SCREEN_DISCONNECTED, w')" "cl_sent w' \<noteq> []"
    by (auto split: sum.splits prod.splits)
  have start: "cl_sent demo_bu = []" "tm_shown demo_bu = []" "bs_option_count (bw_session demo_bu) = 2" by (simp_all add: demo_bu_def)
  from vote_needs_consent [of demo_net False demo_bu w' BU_SCREEN_DISCONNECTED] w' start show ?thesis by auto
qed

end
