(* ===== verification/Ballotctl.thy ===== *)
theory Ballotctl
  imports Ballotu
begin

text \<open>
  The administrator's program, \<^verbatim>\<open>src/src/ballotctl/ballotctl.c\<close>: its login, its form for a new
  election, its other screens and its menu, over the widgets of \<open>Tetrisui\<close> and the control socket of
  \<open>Client\<close>. The conventions are those of \<open>Ballotu\<close>.
\<close>

section \<open>Texts and fields\<close>

record bctl = client +
  cw_cert_name :: string
  cw_ctl_path :: string

definition ctl_result_text :: "bb_result \<Rightarrow> string" where
  "ctl_result_text rc =
     (case rc of
        BB_OK \<Rightarrow> ''OK''
      | BB_ERR_CONFIG_TITLE \<Rightarrow> ''Config invalid: title is required.''
      | BB_ERR_CONFIG_OPTIONS \<Rightarrow> ''Config invalid: at least two options are required.''
      | BB_ERR_CONFIG_TIME \<Rightarrow> ''Config invalid: close time must be after open time.''
      | BB_ERR_CONFIG_ID_TAKEN \<Rightarrow> ''That election ID is already in use - pick another.''
      | BB_ERR_ILLEGAL_TRANSITION \<Rightarrow> ''Not a legal transition from the election'' @ [SQ] @ ''s current state.''
      | BB_ERR_NOT_FOUND \<Rightarrow> ''Election not found.''
      | BB_ERR_NOT_PUBLISHED \<Rightarrow> ''Results not available.''
      | BB_ERR_NOT_ELIGIBLE \<Rightarrow> ''Not eligible to view this election'' @ [SQ] @ ''s results.''
      | BB_ERR_NOT_IMPLEMENTED \<Rightarrow> ''The backend storage is not wired up yet - try again once it is.''
      | BB_ERR_DB \<Rightarrow> ''Could not reach ballotd.''
      | _ \<Rightarrow> ''Rejected by System.'')"

definition ctl_reachable :: "ctl_dial \<Rightarrow> string \<Rightarrow> bool" where
  "ctl_reachable D path \<longleftrightarrow> cd_socket D \<and> cd_connect D (snprintf_s SUN_PATH_LEN path)"

definition trim_inplace :: "string \<Rightarrow> string" where
  "trim_inplace s = rev (dropWhile (\<lambda>c. c = CHR '' '') (rev (dropWhile (\<lambda>c. c = CHR '' '') s)))"

text \<open>The tokens of \<^verbatim>\<open>strtok(buf, ",")\<close>: the non-empty pieces between commas.\<close>

function comma_tokens :: "string \<Rightarrow> string list" where
  "comma_tokens s =
     (let tok = takeWhile (\<lambda>c. c \<noteq> CHR '','') s;
          more = (case dropWhile (\<lambda>c. c \<noteq> CHR '','') s of [] \<Rightarrow> [] | _ # rest \<Rightarrow> comma_tokens rest)
      in if tok = [] then more else tok # more)"
  by auto
termination by (relation "measure length") (auto dest!: dropWhile_shorter)

declare comma_tokens.simps [simp del]

definition split_csv :: "string \<Rightarrow> string list \<Rightarrow> nat \<Rightarrow> string list \<times> int" where
  "split_csv src out cap =
     (let toks = take cap (map (\<lambda>tok. snprintf_s BB_OPTION_LEN (trim_inplace tok)) (comma_tokens (snprintf_s 256 src)))
      in (toks @ drop (length toks) out, int (length toks)))"

definition prompt_election_id :: "string \<Rightarrow> 'x terminal_scheme \<Rightarrow> (string option, 'x terminal_scheme) run" where
  "prompt_election_id title w =
     andthen (tetrisui_input title ''Enter election ID:'' BB_ID_LEN w) (\<lambda>r w. Inr (if r = Some [] then None else r, w))"

section \<open>Screens\<close>

function screen_login :: "('pub, 'priv, 'cert) net \<Rightarrow> bctl \<Rightarrow> (bool, bctl) run" where
  "screen_login N w =
     andthen (tetrisui_input ''ballotctl - admin login'' ''Enter admin cert name (Esc to quit):'' BB_CERT_LEN w) (\<lambda>r w.
       case r of
         None \<Rightarrow> Inr (False, w)
       | Some typed \<Rightarrow>
           let name = trim_inplace typed
           in if name = [] then screen_login N w
              else if \<not> ctl_reachable (nt_ctl N (cl_tick w)) (cw_ctl_path w)
              then andthen (tetrisui_message ''Connection failed''
                              [snprintf_s 320 (''Could not reach ballotd'' @ [SQ] @ ''s admin socket at '' @ cw_ctl_path w @ ''.''),
                               ''Check the server is running and try again.''] (w\<lparr>cl_tick := cl_tick w + 1\<rparr>))
                     (\<lambda>_ w. screen_login N w)
              else Inr (True, tetrisui_set_status ''ballotctl'' name []
                     (w\<lparr>cl_tick := cl_tick w + 1, cl_ctx := bcl_set_ctl_path (cw_ctl_path w) (cl_ctx w), cw_cert_name := snprintf_s BB_CERT_LEN name\<rparr>)))"
  by pat_completeness auto
termination
  by (relation "measure (\<lambda>(_, w). length (tm_keys w))") (auto dest!: key_use)

declare screen_login.simps [simp del]

text \<open>The configuration typed into the form, or the entry of the eligible list that is no user name.\<close>

definition form_config :: "string list \<Rightarrow> string + bb_config" where
  "form_config vs =
     (case split_csv (vs ! 2) (cfg_options config0) BB_MAX_OPTIONS of (options, option_count) \<Rightarrow>
      case split_csv (vs ! 3) (cfg_eligible config0) BB_MAX_VOTERS of (eligible, eligible_count) \<Rightarrow>
      case bc_fold_eligible eligible eligible_count BB_CERT_LEN of (ok, eligible, eligible_count, bad_entry) \<Rightarrow>
        if \<not> ok then Inl bad_entry
        else Inr (config0\<lparr>cfg_title := snprintf_s BB_TITLE_LEN (vs ! 0), cfg_options := options, cfg_option_count := option_count,
               cfg_eligible := eligible, cfg_eligible_count := eligible_count,
               cfg_open_time := snprintf_s BB_TIME_LEN (vs ! 4), cfg_close_time := snprintf_s BB_TIME_LEN (vs ! 5)\<rparr>))"

definition create_request :: "string list \<Rightarrow> string \<Rightarrow> bcl_request \<Rightarrow> bcl_request" where
  "create_request vs cert_name req =
     req\<lparr>br_election_id := snprintf_s BB_ID_LEN (vs ! 1), br_cert_name := snprintf_s BB_CERT_LEN cert_name\<rparr>"

function create_form :: "('pub, 'priv, 'cert) net \<Rightarrow> string list \<Rightarrow> bctl \<Rightarrow> (unit, bctl) run" where
  "create_form N vs w =
     andthen (tetrisui_form_ex ''Create election (UC-1)''
                [''Title'', ''Election ID'', ''Options (comma-separated)'',
                 ''Eligible voter usernames (comma-separated, not case-sensitive)'', ''Open time'', ''Close time''] vs 6 None 0 w)
       (\<lambda>r w. case r of (submitted, vs) \<Rightarrow>
         if \<not> submitted then Inr ((), w)
         else case form_config vs of
                Inl bad \<Rightarrow>
                  andthen (tetrisui_message ''Rejected (alt flow 4a)''
                             [snprintf_s 104 ([SQ] @ bad @ [SQ] @ '' is not a valid username: 1-15 chars, letters/digits/_/-.''),
                              ''Staying in Draft - fix and retry.''] w)
                    (\<lambda>_ w. create_form N vs w)
              | Inr config \<Rightarrow>
                  (case bc_build_create config of
                     Inl vr \<Rightarrow>
                       andthen (tetrisui_message ''Rejected (alt flow 4a)'' [ctl_result_text vr, ''Staying in Draft - fix and retry.''] w)
                         (\<lambda>_ w. create_form N vs w)
                   | Inr req \<Rightarrow>
                       (case run_state (client_link N (create_request vs (cw_cert_name w) req)) w of
                          ((rc, resp), w) \<Rightarrow>
                            if rc \<noteq> BB_OK then tetrisui_message ''Create failed'' [ctl_result_text rc] w
                            else tetrisui_message ''Created''
                                   [snprintf_s 64 (''Election '' @ el_id (bp_election resp) @ '' created in Draft.''), ''Use Open Election to make it live.''] w)))"
  by pat_completeness auto
termination
  by (relation "measure (\<lambda>(_, _, w). length (tm_keys w))") (auto dest!: key_use)

declare create_form.simps [simp del]

definition screen_create_election :: "('pub, 'priv, 'cert) net \<Rightarrow> bctl \<Rightarrow> (unit, bctl) run" where
  "screen_create_election N w =
     (case run_state (client_link N (bcl_request0\<lparr>br_op := BCL_ADMIN_NEXT_ID\<rparr>)) w of
        ((rc, resp), w) \<Rightarrow>
          create_form N [[], if rc = BB_OK then snprintf_s TETRISUI_FIELD_LEN (el_id (bp_election resp)) else [], [], [],
            ''2026-01-01T09:00:00Z'', ''2026-01-08T09:00:00Z''] w)"

definition transition_request :: "bcl_op \<Rightarrow> string \<Rightarrow> string \<Rightarrow> bcl_request" where
  "transition_request op i cert_name =
     (case bc_build_transition op i of Inl _ \<Rightarrow> bcl_request0 | Inr req \<Rightarrow> req)\<lparr>br_cert_name := snprintf_s BB_CERT_LEN cert_name\<rparr>"

definition transition :: "('pub, 'priv, 'cert) net \<Rightarrow> bcl_op \<Rightarrow> string \<Rightarrow> string \<Rightarrow> bctl \<Rightarrow> (unit, bctl) run" where
  "transition N op verb screen_title w =
     andthen (prompt_election_id screen_title w) (\<lambda>r w.
       case r of
         None \<Rightarrow> Inr ((), w)
       | Some i \<Rightarrow>
           andthen (tetrisui_confirm ''Confirm'' (snprintf_s 96 (verb @ '' election '' @ i @ ''?'')) w) (\<lambda>yes w.
             if \<not> yes then Inr ((), w)
             else case run_state (client_link N (transition_request op i (cw_cert_name w))) w of
                    ((rc, resp), w) \<Rightarrow>
                      if rc \<noteq> BB_OK then tetrisui_message ''Invalid transition'' [ctl_result_text rc] w
                      else tetrisui_message ''Done'' [snprintf_s 64 (''Election '' @ i @ '': '' @ verb @ '' done.'')] w))"

definition ctl_view_results :: "('pub, 'priv, 'cert) net \<Rightarrow> bctl \<Rightarrow> (unit, bctl) run" where
  "ctl_view_results N w =
     andthen (prompt_election_id ''View results (UC-5)'' w) (\<lambda>r w.
       case r of
         None \<Rightarrow> Inr ((), w)
       | Some i \<Rightarrow>
           (case run_state (client_link N (results_request BCL_ADMIN_RESULTS i [])) w of
              ((rc, resp), w) \<Rightarrow>
                let status = (if rc \<noteq> BB_OK then rc else bp_status resp)
                in if status \<noteq> BB_OK then tetrisui_message ''Not published'' [ctl_result_text status] w
                   else tetrisui_list_view ''Election results'' (result_lines i resp) w))"

definition ctl_checked :: "string \<Rightarrow> bb_result \<Rightarrow> bcl_response \<Rightarrow> bctl \<Rightarrow> (unit, bctl) run" where
  "ctl_checked hash status resp w =
     (let line1 = snprintf_s 96 (''Receipt hash: '' @ hash)
      in if status = BB_OK \<and> bp_found resp \<noteq> 0
         then tetrisui_message ''Verified''
                [line1, snprintf_s 96 (''Found: counted for option index '' @ int_str (bp_found_option resp) @ '' ('' @ bp_found_option_name resp @ '').'')] w
         else if status = BB_ERR_NOT_FOUND
         then tetrisui_message ''Not found'' [line1, ''Not found: no live (non-superseded) ballot with this hash.''] w
         else tetrisui_message ''Check unavailable'' [line1, ctl_result_text status] w)"

definition screen_check_ballot :: "('pub, 'priv, 'cert) net \<Rightarrow> bctl \<Rightarrow> (unit, bctl) run" where
  "screen_check_ballot N w =
     andthen (prompt_election_id ''Check a ballot (UC-6)'' w) (\<lambda>r w.
       case r of
         None \<Rightarrow> Inr ((), w)
       | Some i \<Rightarrow>
           andthen (tetrisui_input ''Check a ballot (UC-6)'' ''Enter the receipt hash:'' BB_HASH_LEN w) (\<lambda>r w.
             case r of
               None \<Rightarrow> Inr ((), w)
             | Some hash \<Rightarrow>
                 if hash = [] then Inr ((), w)
                 else case run_state (client_link N (check_request BCL_ADMIN_CHECK i hash)) w of
                        ((rc, resp), w) \<Rightarrow> ctl_checked hash (if rc \<noteq> BB_OK then rc else bp_status resp) resp w))"

section \<open>What the screens keep\<close>

definition typed_id :: "string \<Rightarrow> bool" where
  "typed_id i \<longleftrightarrow> i \<noteq> [] \<and> printable i \<and> length i \<le> 15"

definition moves :: "bcl_op \<Rightarrow> bool" where
  "moves op \<longleftrightarrow> op = BCL_OPEN \<or> op = BCL_CLOSE \<or> op = BCL_PUBLISH"

lemma moves_ops: "moves BCL_OPEN" "moves BCL_CLOSE" "moves BCL_PUBLISH"
  by (simp_all add: moves_def)

definition form_typed :: "string list \<Rightarrow> bool" where
  "form_typed vs \<longleftrightarrow> length vs = 6 \<and> field_ok (vs ! 0) \<and> field_ok (vs ! 2) \<and> field_ok (vs ! 3) \<and> field_ok (vs ! 4) \<and> field_ok (vs ! 5)"

text \<open>
  As for the voter's program: a property that the terminal, the login and each kind of request
  keep is kept by every screen.
\<close>

lemma fields_but_one: "(\<forall>i < 6. i \<noteq> Suc 0 \<longrightarrow> P i) \<longleftrightarrow> P 0 \<and> P 2 \<and> P 3 \<and> P 4 \<and> P (5 :: nat)"
  by (auto simp: less_Suc_eq eval_nat_numeral)

lemma trimmed: "printable s \<Longrightarrow> length s \<le> n \<Longrightarrow> printable (trim_inplace s) \<and> length (trim_inplace s) \<le> n"
proof -
  assume "printable s" "length s \<le> n"
  moreover have "set (trim_inplace s) \<subseteq> set s" unfolding trim_inplace_def by (auto dest!: set_dropWhileD)
  moreover have "length (trim_inplace s) \<le> length s"
    unfolding trim_inplace_def length_rev by (rule order_trans [OF length_dropWhile_le]) (simp add: length_dropWhile_le)
  ultimately show ?thesis using printable_sub by auto
qed

locale ctl_kept =
  fixes N :: "('pub, 'priv, 'cert) net" and I :: "bctl \<Rightarrow> bool"
  assumes safe: "screen_safe I"
    and tick: "I w \<Longrightarrow> I (w\<lparr>cl_tick := t\<rparr>)"
    and login: "I w \<Longrightarrow> printable name \<Longrightarrow> length name \<le> 31 \<Longrightarrow> I (w\<lparr>cl_tick := t, cl_ctx := ctx, cw_cert_name := name\<rparr>)"
    and peek: "I w \<Longrightarrow> run_state (client_link N (bcl_request0\<lparr>br_op := BCL_ADMIN_NEXT_ID\<rparr>)) w = (ans, w') \<Longrightarrow> I w'"
    and create: "I w \<Longrightarrow> form_typed vs \<Longrightarrow> form_config vs = Inr config \<Longrightarrow> bc_build_create config = Inr req \<Longrightarrow>
      run_state (client_link N (create_request vs (cw_cert_name w) req)) w = (ans, w') \<Longrightarrow> I w'"
    and move: "I w \<Longrightarrow> typed_id i \<Longrightarrow> moves op \<Longrightarrow> run_state (client_link N (transition_request op i (cw_cert_name w))) w = (ans, w') \<Longrightarrow> I w'"
    and results: "I w \<Longrightarrow> typed_id i \<Longrightarrow> run_state (client_link N (results_request BCL_ADMIN_RESULTS i [])) w = (ans, w') \<Longrightarrow> I w'"
    and check: "I w \<Longrightarrow> typed_id i \<Longrightarrow> hash \<noteq> [] \<Longrightarrow> printable hash \<Longrightarrow> length hash \<le> 64 \<Longrightarrow>
      run_state (client_link N (check_request BCL_ADMIN_CHECK i hash)) w = (ans, w') \<Longrightarrow> I w'"
begin

lemma prompt: "I w \<Longrightarrow> runs (prompt_election_id title w) I (\<lambda>r w'. I w' \<and> (\<forall>i. r = Some i \<longrightarrow> typed_id i))"
  unfolding prompt_election_id_def
  by (rule runs_andthen [OF input_runs [OF safe]]) (auto simp: typed_id_def BB_ID_LEN_def)

lemma say: "I w \<Longrightarrow> runs (tetrisui_message title lines w) I (\<lambda>_. I)"
  by (rule runs_mono [OF message_runs [OF safe]]) simp_all

lemma list: "I w \<Longrightarrow> runs (tetrisui_list_view title lines w) I (\<lambda>_. I)"
  by (rule runs_mono [OF list_view_runs [OF safe]]) simp_all

lemma moving:
  assumes "I w" "moves op" shows "runs (transition N op verb title w) I (\<lambda>_. I)"
  unfolding transition_def
  by (rule runs_andthen [OF prompt [OF assms(1)]])
     (auto split: option.split prod.split intro!: say runs_andthen [OF confirm_runs [OF safe]] dest: move [OF _ _ assms(2), rotated -1])

lemma viewing: "I w \<Longrightarrow> runs (ctl_view_results N w) I (\<lambda>_. I)"
  unfolding ctl_view_results_def
  by (rule runs_andthen [OF prompt])
     (auto simp: Let_def split: option.split prod.split intro!: say list dest: results [rotated -1])

lemma told: "I w \<Longrightarrow> runs (ctl_checked hash st resp w) I (\<lambda>_. I)"
  unfolding ctl_checked_def Let_def by (auto intro!: say)

lemma check_sent:
  assumes "I w" "typed_id i" "hash \<noteq> []" "printable hash" "length hash \<le> 64"
  shows "runs (case run_state (client_link N (check_request BCL_ADMIN_CHECK i hash)) w of
    ((rc, resp), w) \<Rightarrow> ctl_checked hash (if rc \<noteq> BB_OK then rc else bp_status resp) resp w) I (\<lambda>_. I)"
  using check [OF assms] by (auto split: prod.split intro!: told)

lemma checks: "I w \<Longrightarrow> runs (screen_check_ballot N w) I (\<lambda>_. I)"
  unfolding screen_check_ballot_def
  by (rule runs_andthen [OF prompt])
     (auto split: option.split intro!: runs_andthen [OF input_runs [OF safe]] check_sent simp: BB_HASH_LEN_def)

lemma create_sent:
  assumes "I w" "form_typed vs" "form_config vs = Inr config" "bc_build_create config = Inr req"
  shows "runs (case run_state (client_link N (create_request vs (cw_cert_name w) req)) w of
                          ((rc, resp), w) \<Rightarrow>
                            if rc \<noteq> BB_OK then tetrisui_message ''Create failed'' [ctl_result_text rc] w
                            else tetrisui_message ''Created''
                                   [snprintf_s 64 (''Election '' @ el_id (bp_election resp) @ '' created in Draft.''), ''Use Open Election to make it live.''] w) I (\<lambda>_. I)"
  using create [OF assms] by (auto split: prod.split intro!: say)

lemma form:
  "I w \<Longrightarrow> form_typed vs \<Longrightarrow> runs (tetrisui_form_ex title labels vs 6 error start w) I
     (\<lambda>r w'. I w' \<and> length (tm_keys w') \<le> length (tm_keys w) \<and> (fst r \<longrightarrow> length (tm_keys w') < length (tm_keys w)) \<and> form_typed (snd r))"
  by (rule runs_mono [OF form_runs [OF safe, where K = "\<lambda>i. i \<noteq> 1"]]) (simp_all add: form_typed_def fields_but_one)

lemma creating: "I w \<Longrightarrow> form_typed vs \<Longrightarrow> runs (create_form N vs w) I (\<lambda>_. I)"
proof (induction "length (tm_keys w)" arbitrary: w vs rule: less_induct)
  case less
  show ?case
    unfolding create_form.simps [of N vs w]
    by (rule runs_andthen [OF form [OF less.prems]])
       (auto split: sum.split intro!: create_sent less.hyps runs_andthen [OF message_runs [OF safe]])
qed

lemma created: "I w \<Longrightarrow> runs (screen_create_election N w) I (\<lambda>_. I)"
  unfolding screen_create_election_def
  by (auto split: prod.split intro!: creating dest: peek [rotated -1]
      simp: form_typed_def field_ok_def printable_def TETRISUI_FIELD_LEN_def)

lemma logging_in: "I w \<Longrightarrow> runs (screen_login N w) I (\<lambda>_. I)"
proof (induction "length (tm_keys w)" arbitrary: w rule: less_induct)
  case less
  show ?case
    unfolding screen_login.simps [of N w] Let_def
    by (rule runs_andthen [OF input_runs [OF safe less.prems]])
       (auto split: option.split simp: BB_CERT_LEN_def snprintf_s_def trimmed intro!: less.hyps tick runs_andthen [OF message_runs [OF safe]] login screen_safe_status [OF safe])
qed

end

interpretation ctl_keys: ctl_kept N "\<lambda>w. length (tm_keys w) \<le> n" for N n
  by unfold_locales (auto intro: link_keys)

section \<open>The menu\<close>

function ctl_menu :: "('pub, 'priv, 'cert) net \<Rightarrow> bctl \<Rightarrow> (unit, bctl) run" where
  "ctl_menu N w =
     andthen (tetrisui_menu ''ballotctl - admin menu''
                [''Create election (UC-1)'', ''Open election'', ''Close election'', ''Publish results'', ''View results (UC-5)'',
                 ''Check a ballot (UC-6)'', ''Quit''] 7 w)
       (\<lambda>pick w.
         if pick < 0 \<or> pick = 6 then Inr ((), w)
         else andthen (if pick = 0 then screen_create_election N w
                       else if pick = 1 then transition N BCL_OPEN ''Open'' ''Open election'' w
                       else if pick = 2 then transition N BCL_CLOSE ''Close'' ''Close election'' w
                       else if pick = 3 then transition N BCL_PUBLISH ''Publish'' ''Publish results'' w
                       else if pick = 4 then ctl_view_results N w
                       else screen_check_ballot N w)
                (\<lambda>_ w. ctl_menu N w))"
  by pat_completeness auto
termination
  by (relation "measure (\<lambda>(_, w). length (tm_keys w))")
     (auto dest!: key_use(3) runs_Inr [OF ctl_keys.created [OF order_refl]] runs_Inr [OF ctl_keys.moving [OF order_refl moves_ops(1)]]
        runs_Inr [OF ctl_keys.moving [OF order_refl moves_ops(2)]] runs_Inr [OF ctl_keys.moving [OF order_refl moves_ops(3)]]
        runs_Inr [OF ctl_keys.viewing [OF order_refl]] runs_Inr [OF ctl_keys.checks [OF order_refl]] split: if_splits)

declare ctl_menu.simps [simp del]

fun ballotctl_args :: "(char \<times> string) list \<Rightarrow> bctl \<Rightarrow> int + bctl" where
  "ballotctl_args [] w = Inr w"
| "ballotctl_args ((c, arg) # os) w =
     (if c = CHR ''C'' then ballotctl_args os (w\<lparr>cw_ctl_path := snprintf_s 256 arg\<rparr>)
      else if c = CHR ''h'' then Inl 0
      else Inl 2)"

definition ballotctl_main :: "('pub, 'priv, 'cert) net \<Rightarrow> (char \<times> string) list \<Rightarrow> terminal \<Rightarrow> (int, bctl) run" where
  "ballotctl_main N os t =
     (let w = terminal.extend t \<lparr>cl_ctx = bcl_create, cl_tick = 0, cl_sent = [], cw_cert_name = [], cw_ctl_path = ''var/run/ballotd.ctl''\<rparr>
      in case ballotctl_args os w of
           Inl code \<Rightarrow> Inr (code, w)
         | Inr w \<Rightarrow>
             andthen (screen_login N (tetrisui_set_status ''ballotctl'' ''(not logged in)'' [] w)) (\<lambda>ok w.
               andthen (if ok then ctl_menu N w else Inr ((), w)) (\<lambda>_ w. Inr (0, w))))"

context ctl_kept
begin

lemma menu: "I w \<Longrightarrow> runs (ctl_menu N w) I (\<lambda>_. I)"
proof (induction "length (tm_keys w)" arbitrary: w rule: less_induct)
  case less
  have again: "runs (andthen m (\<lambda>_ w. ctl_menu N w)) I (\<lambda>_. I)"
    if "runs m I (\<lambda>_. I)" "runs m (\<lambda>w. length (tm_keys w) \<le> n) (\<lambda>_ w. length (tm_keys w) \<le> n)" "n < length (tm_keys w)" for m :: "(unit, bctl) run" and n
    by (rule runs_andthen [OF runs_conj [OF that(1,2)]]) (use less.hyps that(3) in auto)
  show ?case
    unfolding ctl_menu.simps [of N w]
    by (rule runs_andthen [OF menu_runs [OF safe less.prems]])
       (auto simp: moves_def intro!: again [OF created ctl_keys.created [OF order_refl]] again [OF moving ctl_keys.moving [OF order_refl]]
          again [OF viewing ctl_keys.viewing [OF order_refl]] again [OF checks ctl_keys.checks [OF order_refl]])
qed

end

section \<open>The requests of an administrator\<close>

text \<open>
  What every request of the program is. The two programs treat the id of an election differently: this one
  takes any printable text, so a request is well-formed if its id has no space and no slash.
\<close>

definition ballotctl_request :: "bcl_request \<Rightarrow> bool" where
  "ballotctl_request req \<longleftrightarrow> client_admin_op (br_op req) \<and>
     (valid_field False (br_election_id req) \<and> CHR ''/'' \<notin> set (br_election_id req) \<longrightarrow> request_ok req) \<and>
     (br_op req = BCL_CREATE \<longrightarrow> bb_validate_config (br_config req) = BB_OK \<and>
        (let voters = take (nat (cfg_eligible_count (br_config req))) (cfg_eligible (br_config req))
         in distinct voters \<and> list_all account voters))"

lemma printable_text: "printable s \<Longrightarrow> length s \<le> n \<Longrightarrow> text_ok n s"
  by (auto simp: printable_def text_ok_def list_all_iff)

lemma printable_field: "printable s \<Longrightarrow> valid_field True s"
proof -
  have sp: "c = CHR '' ''" if "(of_char c :: nat) = 32" for c
  proof -
    have "c = char_of (32 :: nat)" unfolding that [symmetric] by simp
    also have "\<dots> = CHR '' ''" by code_simp
    finally show ?thesis .
  qed
  have "33 \<le> (of_char c :: nat) \<or> c = CHR '' ''" if "32 \<le> (of_char c :: nat)" for c
    using sp [of c] that by linarith
  then show "printable s \<Longrightarrow> ?thesis" unfolding printable_def valid_field_def list_all_iff by fastforce
qed

lemma comma_tokens_sub: "tok \<in> set (comma_tokens s) \<Longrightarrow> set tok \<subseteq> set s"
proof (induction s arbitrary: tok rule: comma_tokens.induct)
  case (1 s)
  have "tok = takeWhile (\<lambda>c. c \<noteq> CHR '','') s \<or> (\<exists>x rest. dropWhile (\<lambda>c. c \<noteq> CHR '','') s = x # rest \<and> tok \<in> set (comma_tokens rest))"
    using "1.prems" comma_tokens.simps [of s]
    by (cases "dropWhile (\<lambda>c. c \<noteq> CHR '','') s") (auto simp: Let_def split: if_splits)
  then show ?case
  proof
    assume "tok = takeWhile (\<lambda>c. c \<noteq> CHR '','') s"
    then show ?thesis by (auto dest: set_takeWhileD)
  next
    assume "\<exists>x rest. dropWhile (\<lambda>c. c \<noteq> CHR '','') s = x # rest \<and> tok \<in> set (comma_tokens rest)"
    then obtain x rest where r: "dropWhile (\<lambda>c. c \<noteq> CHR '','') s = x # rest" "tok \<in> set (comma_tokens rest)" by blast
    then have "set tok \<subseteq> set rest" using "1.IH" by blast
    also have "set rest \<subseteq> set (dropWhile (\<lambda>c. c \<noteq> CHR '','') s)" using r(1) by auto
    finally show ?thesis by (auto dest: set_dropWhileD)
  qed
qed

lemma split_csv_ok:
  assumes "printable src" "length out = n" "list_all (text_ok 31) out" "split_csv src out n = (out', k)"
  shows "length out' = n \<and> list_all (text_ok 31) out' \<and> 0 \<le> k \<and> k \<le> int n"
proof -
  have "text_ok 31 (snprintf_s 32 (trim_inplace tok))" if "tok \<in> set (comma_tokens (snprintf_s 256 src))" for tok
  proof -
    have "printable tok" by (rule printable_sub [OF printable_cuts(3) [OF assms(1)] comma_tokens_sub [OF that]])
    then show ?thesis using trimmed [of tok "length tok"] by (intro printable_text) (simp_all add: snprintf_s_def)
  qed
  then show ?thesis using assms(2-) by (auto simp: split_csv_def Let_def list_all_iff BB_OPTION_LEN_def dest!: in_set_takeD in_set_dropD)
qed

text \<open>Folding and removing repetitions write only shorter or lower-case copies of what is there.\<close>

definition texts :: "nat \<Rightarrow> string list \<Rightarrow> bool" where
  "texts n out \<longleftrightarrow> length out = n \<and> list_all (text_ok 31) out"

lemma text_ok_snprintf: "text_ok 31 s \<Longrightarrow> text_ok 31 (snprintf_s c s)"
  by (auto simp: text_ok_def snprintf_s_def dest: in_set_takeD)

lemma texts_update: "texts n out \<Longrightarrow> text_ok 31 s \<Longrightarrow> texts n (out[i := s])"
  by (auto simp: texts_def list_all_iff dest!: set_update_subset_insert [THEN subsetD])

lemma texts_nth: "texts m out \<Longrightarrow> i < m \<Longrightarrow> text_ok 31 (out ! i)"
  by (simp add: texts_def list_all_length)

lemma account_text: "account s \<Longrightarrow> text_ok 31 s"
  using account_field [of s True] user_name_clean [of s] by (auto simp: text_ok_def account_def user_name_ok_def list_all_iff user_name_char_ok_def between_def)

lemma fold_names_texts: "n \<le> m \<Longrightarrow> texts m out \<Longrightarrow> texts m (fst (fold_names i n out))"
proof (induction i n out rule: fold_names.induct)
  case (1 i n out)
  show ?case
    using 1 account_text [OF account_folded, of "out ! i"]
    by (subst fold_names.simps) (auto simp: user_name_fold_def texts_update text_ok_snprintf split: option.splits if_splits)
qed

lemma dedup_texts: "n \<le> m \<Longrightarrow> texts m out \<Longrightarrow> texts m (fst (dedup i n k out))"
proof (induction i n k out rule: dedup.induct)
  case (1 i n k out)
  show ?case
    using 1 texts_nth [of m out i]
    by (subst dedup.simps) (auto simp: texts_update text_ok_snprintf)
qed

lemma fold_eligible_texts: "texts 64 out \<Longrightarrow> n \<le> 64 \<Longrightarrow> texts 64 (fst (snd (bc_fold_eligible out n cap)))"
  using fold_names_texts [of "nat n" 64 out 0] dedup_texts [of "nat n" 64 "fst (fold_names 0 (nat n) out)" 0 0]
  by (auto simp: bc_fold_eligible_def split: prod.splits option.splits)

lemma fold_eligible_ok:
  assumes "texts 64 out" "0 \<le> n" "n \<le> 64" "bc_fold_eligible out n cap = (True, out', k, bad)"
  shows "texts 64 out' \<and> 0 \<le> k \<and> k \<le> 64 \<and> distinct (take (nat k) out') \<and> list_all account (take (nat k) out')"
proof -
  let ?u = "rev (remdups (rev (map folded (take (nat n) out))))"
  have len: "length out = 64" "list_all (\<lambda>s. length s \<le> 31) out" using assms(1) by (auto simp: texts_def text_ok_def list_all_iff)
  from fold_eligible_result [OF len assms(2,3), of cap] assms(4)
  have ok: "list_all user_name_ok (take (nat n) out)" and k: "k = int (length ?u)" "take (length ?u) out' = ?u"
    by (auto split: if_splits)
  have "length ?u \<le> nat n" using length_remdups_leq [of "rev (map folded (take (nat n) out))"] by simp
  moreover have "list_all account ?u" using ok account_folded by (auto simp: list_all_iff)
  moreover have "texts 64 out'" using fold_eligible_texts [OF assms(1,3), of cap] assms(4) by simp
  ultimately show ?thesis using k assms(2,3) by simp
qed

lemma form_config_ok:
  assumes "form_typed vs" "form_config vs = Inr config"
  shows "codec_config_ok config \<and> distinct (take (nat (cfg_eligible_count config)) (cfg_eligible config)) \<and>
    list_all account (take (nat (cfg_eligible_count config)) (cfg_eligible config))"
proof -
  obtain options oc where o: "split_csv (vs ! 2) (cfg_options config0) 16 = (options, oc)" by fastforce
  obtain eligible ec where e: "split_csv (vs ! 3) (cfg_eligible config0) 64 = (eligible, ec)" by fastforce
  have fl: "printable (vs ! 0)" "printable (vs ! 2)" "printable (vs ! 3)" "printable (vs ! 4)" "printable (vs ! 5)"
    using assms(1) by (simp_all add: form_typed_def field_ok_def)
  have oo: "length options = 16 \<and> list_all (text_ok 31) options \<and> 0 \<le> oc \<and> oc \<le> 16"
    using split_csv_ok [OF fl(2) _ _ o] by (simp add: config0_def BB_MAX_OPTIONS_def list_all_iff)
  have ee: "texts 64 eligible \<and> 0 \<le> ec \<and> ec \<le> 64"
    using split_csv_ok [OF fl(3) _ _ e] by (simp add: config0_def BB_MAX_VOTERS_def list_all_iff texts_def)
  obtain ok out' k bad where f: "bc_fold_eligible eligible ec 32 = (ok, out', k, bad)" by (metis prod_cases4)
  from assms(2) o e f have ok: ok and config: "config = config0\<lparr>cfg_title := snprintf_s BB_TITLE_LEN (vs ! 0), cfg_options := options, cfg_option_count := oc,
      cfg_eligible := out', cfg_eligible_count := k, cfg_open_time := snprintf_s BB_TIME_LEN (vs ! 4), cfg_close_time := snprintf_s BB_TIME_LEN (vs ! 5)\<rparr>"
    by (auto simp: form_config_def BB_MAX_OPTIONS_def BB_MAX_VOTERS_def BB_CERT_LEN_def split: if_splits)
  have cut: "text_ok n (snprintf_s (Suc n) s)" if "printable s" for n s
    using that by (intro printable_text) (simp_all add: snprintf_s_def)
  have lens: "text_ok 63 (cfg_title config)" "text_ok 31 (cfg_open_time config)" "text_ok 31 (cfg_close_time config)"
    using cut [OF fl(1), of 63] cut [OF fl(4), of 31] cut [OF fl(5), of 31] by (simp_all add: config BB_TITLE_LEN_def BB_TIME_LEN_def)
  from fold_eligible_ok [of eligible ec 32 out' k bad] f ok ee have
    "texts 64 out' \<and> 0 \<le> k \<and> k \<le> 64 \<and> distinct (take (nat k) out') \<and> list_all account (take (nat k) out')" by simp
  with oo lens show ?thesis by (simp add: codec_config_ok_def config texts_def)
qed

lemma cert_field: "printable name \<Longrightarrow> length name \<le> 31 \<Longrightarrow> valid_field True name \<and> snprintf_s BB_CERT_LEN name = name"
  by (simp add: printable_field BB_CERT_LEN_def)

lemma typed_id_cut: "typed_id i \<Longrightarrow> snprintf_s BB_ID_LEN i = i \<and> i \<noteq> [] \<and> length i \<le> 15"
  by (simp add: typed_id_def BB_ID_LEN_def)

lemma peek_request_ok: "ballotctl_request (bcl_request0\<lparr>br_op := BCL_ADMIN_NEXT_ID\<rparr>)"
  by (simp add: ballotctl_request_def request_ok_def bcl_request0_def ballot0_def config0_ok valid_field_def client_admin_op_def)

lemma move_request_ok:
  assumes "typed_id i" "moves op" "printable cert" "length cert \<le> 31"
  shows "ballotctl_request (transition_request op i cert)"
  using assms(2) cert_field [OF assms(3,4)] typed_id_cut [OF assms(1)] assms(4)
  by (auto simp: ballotctl_request_def transition_request_def bc_build_transition_def moves_def request_ok_def bcl_request0_def ballot0_def
      config0_ok client_admin_op_def)

lemma ctl_results_ok: "typed_id i \<Longrightarrow> ballotctl_request (results_request BCL_ADMIN_RESULTS i [])"
  using typed_id_cut [of i]
  by (auto simp: ballotctl_request_def results_request_def request_ok_def bcl_request0_def ballot0_def config0_ok client_admin_op_def valid_field_def)

lemma ctl_check_ok: "typed_id i \<Longrightarrow> hash \<noteq> [] \<Longrightarrow> printable hash \<Longrightarrow> length hash \<le> 64 \<Longrightarrow> ballotctl_request (check_request BCL_ADMIN_CHECK i hash)"
  using typed_id_cut [of i] printable_text [of hash 64]
  by (auto simp: ballotctl_request_def check_request_def request_ok_def bcl_request0_def ballot0_def config0_ok client_admin_op_def valid_field_def
      BB_HASH_LEN_def)

lemma create_request_ok:
  assumes "form_typed vs" "form_config vs = Inr config" "bc_build_create config = Inr req" "printable cert" "length cert \<le> 31"
  shows "ballotctl_request (create_request vs cert req)"
proof -
  have v: "bb_validate_config config = BB_OK" and r: "req = bcl_request0\<lparr>br_op := BCL_CREATE, br_config := config\<rparr>"
    using assms(3) by (auto simp: bc_build_create_def bc_prevalidate_config_def Let_def split: if_splits)
  have "length (snprintf_s BB_ID_LEN (vs ! 1)) \<le> 15" by (simp add: snprintf_s_def BB_ID_LEN_def)
  with form_config_ok [OF assms(1,2)] cert_field [OF assms(4,5)] assms(5) v show ?thesis
    by (auto simp: ballotctl_request_def create_request_def r request_ok_def bcl_request0_def ballot0_def client_admin_op_def Let_def)
qed

definition ctl_ok :: "bctl \<Rightarrow> bool" where
  "ctl_ok w \<longleftrightarrow> list_all ballotctl_request (cl_sent w) \<and> printable (cw_cert_name w) \<and> length (cw_cert_name w) \<le> 31"

lemma ctl_link: "run_state (client_link N req) w = (ans, w') \<Longrightarrow> ctl_ok w \<Longrightarrow> ballotctl_request req \<Longrightarrow> ctl_ok w'"
  by (auto simp: client_link_def ctl_ok_def split: prod.splits)

lemma ctl_ok_cert: "ctl_ok w \<Longrightarrow> printable (cw_cert_name w)" "ctl_ok w \<Longrightarrow> length (cw_cert_name w) \<le> 31"
  "ctl_ok w \<Longrightarrow> list_all ballotctl_request (cl_sent w)"
  by (simp_all add: ctl_ok_def)

interpretation ctl_sent: ctl_kept N ctl_ok for N
proof unfold_locales
  show "screen_safe ctl_ok" by (simp add: screen_safe_def ctl_ok_def display_def tetrisui_set_status_def)
qed (auto simp: ctl_ok_def [of "_\<lparr>cl_tick := _\<rparr>"] ctl_ok_def [of "_\<lparr>cl_tick := _, cl_ctx := _, cw_cert_name := _\<rparr>"]
    ctl_ok_cert peek_request_ok move_request_ok ctl_results_ok ctl_check_ok create_request_ok elim!: ctl_link)

lemma ctl_args_sent: "ballotctl_args os w = Inr w' \<Longrightarrow> cl_sent w' = cl_sent w \<and> cw_cert_name w' = cw_cert_name w"
  by (induction os w rule: ballotctl_args.induct) (auto split: if_splits)

section \<open>Properties\<close>

text \<open>
  C39: whatever is typed and whatever the daemon and the kernel answer, every request of the
  administrator's program, also in a run that is interrupted, is of an administrator's operation and
  well-formed unless the id that was typed has a space or a slash in it; and an election it asks to
  create satisfies the rules of the daemon and lists each eligible voter once, by the folded name of a
  legal account.
\<close>

theorem ballotctl_requests:
  "case ballotctl_main N os t of Inl w \<Rightarrow> list_all ballotctl_request (cl_sent w) | Inr (code, w) \<Rightarrow> list_all ballotctl_request (cl_sent w)"
proof -
  let ?w = "terminal.extend t \<lparr>cl_ctx = bcl_create, cl_tick = 0, cl_sent = [], cw_cert_name = [], cw_ctl_path = ''var/run/ballotd.ctl''\<rparr>"
  have start: "ctl_ok ?w" by (simp add: terminal.defs ctl_ok_def)
  then have "ctl_ok w" if "ballotctl_args os ?w = Inr w" for w
    using ctl_args_sent [OF that] by (simp add: ctl_ok_def)
  then have "runs (ballotctl_main N os t) ctl_ok (\<lambda>_. ctl_ok)"
    unfolding ballotctl_main_def Let_def using start
    by (auto split: sum.split intro!: runs_andthen [OF ctl_sent.logging_in] runs_andthen [OF ctl_sent.menu] screen_safe_status [OF ctl_sent.safe])
  then show ?thesis by (auto simp: runs_def ctl_ok_def split: sum.splits)
qed

end
