(* ===== verification/Spec2Isabelle.thy ===== *)
theory Spec2Isabelle
  imports Auth Logd Ballotctl
begin

text \<open>
  BallotBox.
\<close>

end
